(* ===== verification/Prelude.thy ===== *)
theory Prelude
  imports Complex_Main "HOL-Library.Word" "HOL-Library.Sublist" "HOL-Library.Multiset" "HOL-Library.AList"
begin

text \<open>
  Shared vocabulary of the development: Go's 64-bit integers with their wrap-around, the parts
  of Go's standard library the modelled sources use (package \<open>strings\<close>, \<open>strconv\<close>/\<open>fmt\<close> on
  integers, \<open>time\<close>, \<open>errors\<close>), Go maps as association lists with distinct keys, and the lemma
  collections the component theories extend.

  Conventions. A Go string is its list of bytes; \<open>ToLower\<close>, \<open>TrimSpace\<close> and \<open>Fields\<close> are those
  of Go on ASCII text and leave the bytes above 127 alone. A Go \<open>float64\<close> is an exact real.
  A \<open>time.Time\<close> is a number of nanoseconds, passed in as the argument \<open>now\<close> wherever the code
  reads the clock; a \<open>time.Duration\<close> is a number of nanoseconds.
\<close>

named_theorems go_simps \<open>unfolding rules for the Go library functions\<close>
named_theorems inv_intros \<open>an operation keeps its component's invariant\<close>

section \<open>64-bit integers\<close>

definition s64 :: "int \<Rightarrow> int" where
  "s64 k = (k + 9223372036854775808) mod 18446744073709551616 - 9223372036854775808"

definition in_i64 :: "int \<Rightarrow> bool" where
  "in_i64 k \<longleftrightarrow> - 9223372036854775808 \<le> k \<and> k \<le> 9223372036854775807"

lemma s64_id [simp]: "in_i64 k \<Longrightarrow> s64 k = k"
  by (simp add: s64_def in_i64_def)

lemma in_i64_s64 [simp, intro]: "in_i64 (s64 k)"
  using pos_mod_bound [of 18446744073709551616 "k + 9223372036854775808"]
  by (simp add: s64_def in_i64_def)

text \<open>The wrap-around is two's complement of the library's 64-bit words.\<close>

lemma s64_sint: "s64 k = sint (word_of_int k :: 64 word)"
  by (simp add: s64_def sint_sbintrunc' signed_take_bit_eq_take_bit_shift take_bit_eq_mod)

text \<open>Go's integer division truncates towards zero.\<close>

definition quot :: "int \<Rightarrow> int \<Rightarrow> int" where
  "quot a b = sgn a * sgn b * (\<bar>a\<bar> div \<bar>b\<bar>)"

lemma quot_nonneg [simp]: "0 \<le> a \<Longrightarrow> 0 < b \<Longrightarrow> quot a b = a div b"
  by (cases "a = 0") (simp_all add: quot_def)

text \<open>\<open>time.Since\<close> saturates at the largest and smallest duration.\<close>

definition since :: "int \<Rightarrow> int \<Rightarrow> int" where
  "since now t = max (- 9223372036854775808) (min 9223372036854775807 (now - t))"

abbreviation second :: int where
  "second \<equiv> 1000000000"

abbreviation millisecond :: int where
  "millisecond \<equiv> 1000000"

section \<open>Strings\<close>

definition lower_char :: "char \<Rightarrow> char" where
  "lower_char c = (let n = of_char c :: nat in if 65 \<le> n \<and> n \<le> 90 then char_of (n + 32) else c)"

definition to_lower :: "string \<Rightarrow> string" where
  "to_lower s = map lower_char s"

definition upper_char :: "char \<Rightarrow> char" where
  "upper_char c = (let n = of_char c :: nat in if 97 \<le> n \<and> n \<le> 122 then char_of (n - 32) else c)"

definition to_upper :: "string \<Rightarrow> string" where
  "to_upper s = map upper_char s"

definition is_space :: "char \<Rightarrow> bool" where
  "is_space c \<longleftrightarrow> c = CHR '' '' \<or> c = CHR 0x09 \<or> c = CHR 0x0A \<or> c = CHR 0x0B \<or> c = CHR 0x0C \<or> c = CHR 0x0D"

definition trim_space :: "string \<Rightarrow> string" where
  "trim_space s = rev (dropWhile is_space (rev (dropWhile is_space s)))"

definition has_prefix :: "string \<Rightarrow> string \<Rightarrow> bool" where
  "has_prefix s p \<longleftrightarrow> prefix p s"

definition trim_prefix :: "string \<Rightarrow> string \<Rightarrow> string" where
  "trim_prefix s p = (if prefix p s then drop (length p) s else s)"

fun contains :: "string \<Rightarrow> string \<Rightarrow> bool" where
  "contains [] t \<longleftrightarrow> t = []"
| "contains (c # s) t \<longleftrightarrow> prefix t (c # s) \<or> contains s t"

fun str_fields_aux :: "string \<Rightarrow> string \<Rightarrow> string list" where
  "str_fields_aux acc [] = (if acc = [] then [] else [rev acc])"
| "str_fields_aux acc (c # s) =
     (if is_space c then (if acc = [] then str_fields_aux [] s else rev acc # str_fields_aux [] s)
      else str_fields_aux (c # acc) s)"

definition str_fields :: "string \<Rightarrow> string list" where
  "str_fields s = str_fields_aux [] s"

fun join :: "string \<Rightarrow> string list \<Rightarrow> string" where
  "join sep [] = []"
| "join sep [x] = x"
| "join sep (x # y # ys) = x @ sep @ join sep (y # ys)"

text \<open>\<open>strings.ReplaceAll\<close> for a non-empty pattern.\<close>

function replace_all :: "string \<Rightarrow> string \<Rightarrow> string \<Rightarrow> string" where
  "replace_all s old new =
     (if s = [] \<or> old = [] then s
      else if prefix old s then new @ replace_all (drop (length old) s) old new
      else hd s # replace_all (tl s) old new)"
  by pat_completeness auto
termination
  by (relation "measure (\<lambda>(s, old, new). length s)") (auto simp: length_greater_0_conv)

declare replace_all.simps [simp del]

text \<open>\<open>fmt.Sprintf("%d", n)\<close>.\<close>

fun digits_of :: "nat \<Rightarrow> string" where
  "digits_of n = (if n < 10 then [char_of (48 + n)]
                  else digits_of (n div 10) @ [char_of (48 + n mod 10)])"

declare digits_of.simps [simp del]

definition itoa :: "int \<Rightarrow> string" where
  "itoa k = (if k < 0 then ''-'' @ digits_of (nat (- k)) else digits_of (nat k))"

definition equal_fold :: "string \<Rightarrow> string \<Rightarrow> bool" where
  "equal_fold a b \<longleftrightarrow> to_lower a = to_lower b"

subsection \<open>Facts about the string functions\<close>

lemma lower_char_idem [simp]: "lower_char (lower_char c) = lower_char c"
  by (simp add: lower_char_def Let_def)

lemma to_lower_idem [simp]: "to_lower (to_lower s) = to_lower s"
  by (simp add: to_lower_def)

lemma to_lower_Nil_iff [simp]: "to_lower s = [] \<longleftrightarrow> s = []"
  by (simp add: to_lower_def)

lemma to_lower_Nil [simp]: "to_lower [] = []"
  by simp

lemma trim_space_Nil [simp]: "trim_space [] = []"
  by (simp add: trim_space_def)

lemma dropWhile_hd: "dropWhile P s \<noteq> [] \<Longrightarrow> \<not> P (hd (dropWhile P s))"
  by (rule hd_dropWhile)

lemma dropWhile_rev_dropWhile:
  "dropWhile P (rev (dropWhile P (rev (dropWhile P s)))) = rev (dropWhile P (rev (dropWhile P s)))"
proof -
  define t where "t = dropWhile P s"
  define u where "u = rev (dropWhile P (rev t))"
  obtain v where t: "t = u @ v"
    by (metis u_def rev_append rev_rev_ident takeWhile_dropWhile_id)
  have "u = [] \<or> \<not> P (hd u)"
    by (metis t t_def hd_append2 hd_dropWhile append_is_Nil_conv)
  then have "dropWhile P u = u" by (cases u) auto
  then show ?thesis by (simp add: u_def t_def)
qed

lemma trim_space_idem [simp]: "trim_space (trim_space s) = trim_space s"
  by (simp add: trim_space_def dropWhile_rev_dropWhile dropWhile_idem)

lemma contains_append: "contains (u @ t @ v) t"
  by (induction u) (cases t, auto, cases v, auto)

lemma contains_iff: "contains s t \<longleftrightarrow> sublist t s"
proof (induction s)
  case Nil
  show ?case by simp
next
  case (Cons c s)
  then show ?case by (auto simp: sublist_Cons_right)
qed

subsection \<open>Decimal numerals are injective\<close>

definition undigits :: "string \<Rightarrow> nat" where
  "undigits s = foldl (\<lambda>n c. 10 * n + (of_char c - 48)) 0 s"

lemma undigits_digits_of: "undigits (digits_of n) = n"
proof (induction n rule: digits_of.induct)
  case (1 n)
  show ?case
  proof (cases "n < 10")
    case True
    then show ?thesis by (subst digits_of.simps) (simp add: undigits_def)
  next
    case False
    with 1 have "undigits (digits_of (n div 10)) = n div 10" by simp
    moreover have "n mod 10 < 10" by simp
    ultimately show ?thesis using False
      by (subst digits_of.simps) (simp add: undigits_def)
  qed
qed

lemma digits_of_inject [simp]: "digits_of m = digits_of n \<longleftrightarrow> m = n"
  by (metis undigits_digits_of)

section \<open>Filtered lists\<close>

lemma length_filter_mono:
  "(\<And>x. x \<in> set xs \<Longrightarrow> P x \<Longrightarrow> Q x) \<Longrightarrow> length (filter P xs) \<le> length (filter Q xs)"
proof (induction xs)
  case (Cons x xs)
  then have "length (filter P xs) \<le> length (filter Q xs)" by simp
  then show ?case using Cons.prems [of x] by auto
qed simp

lemma length_filter_less:
  assumes "\<And>x. x \<in> set xs \<Longrightarrow> P x \<Longrightarrow> Q x" and "y \<in> set xs" "Q y" "\<not> P y"
  shows "length (filter P xs) < length (filter Q xs)"
proof -
  obtain us vs where xs: "xs = us @ y # vs" using assms(2) by (auto dest: split_list)
  have "length (filter P us) \<le> length (filter Q us)" "length (filter P vs) \<le> length (filter Q vs)"
    using assms(1) xs by (auto intro!: length_filter_mono)
  then show ?thesis using assms(3,4) xs by simp
qed

section \<open>Errors\<close>

text \<open>
  A Go error is its text and the sentinel errors found on its \<open>Unwrap\<close> chain, which is what
  \<open>errors.Is\<close> inspects; the nil error is \<open>None\<close> of \<open>go_error option\<close>.
\<close>

datatype sentinel = ContextCanceled | ContextDeadlineExceeded

record go_error =
  err_text :: string
  err_chain :: "sentinel list"

definition new_error :: "string \<Rightarrow> go_error" where
  "new_error m = \<lparr>err_text = m, err_chain = []\<rparr>"

definition errors_is :: "go_error \<Rightarrow> sentinel \<Rightarrow> bool" where
  "errors_is e s \<longleftrightarrow> s \<in> set (err_chain e)"

lemma err_text_new_error [simp]: "err_text (new_error m) = m"
  and err_chain_new_error [simp]: "err_chain (new_error m) = []"
  by (simp_all add: new_error_def)

section \<open>Maps with string keys\<close>

text \<open>
  A Go map is an association list with distinct keys, so that \<open>len\<close> is the length and an
  iteration visits each key once; the order of the list stands for the unspecified iteration
  order. The nil map and the empty map are both \<open>[]\<close>.
\<close>

type_synonym 'v dict = "(string \<times> 'v) list"

definition wf_dict :: "'v dict \<Rightarrow> bool" where
  "wf_dict d \<longleftrightarrow> distinct (map fst d)"

abbreviation dict_get :: "'v dict \<Rightarrow> string \<Rightarrow> 'v option" where
  "dict_get d k \<equiv> map_of d k"

abbreviation dict_set :: "string \<Rightarrow> 'v \<Rightarrow> 'v dict \<Rightarrow> 'v dict" where
  "dict_set k v d \<equiv> AList.update k v d"

abbreviation dict_del :: "string \<Rightarrow> 'v dict \<Rightarrow> 'v dict" where
  "dict_del k d \<equiv> AList.delete k d"

text \<open>Reading an absent key gives the zero value of the element type.\<close>

definition dict_get_or :: "'v \<Rightarrow> 'v dict \<Rightarrow> string \<Rightarrow> 'v" where
  "dict_get_or z d k = (case map_of d k of None \<Rightarrow> z | Some v \<Rightarrow> v)"

lemma wf_dict_Nil [simp, inv_intros]: "wf_dict []"
  by (simp add: wf_dict_def)

lemma wf_dict_set [simp, inv_intros]: "wf_dict d \<Longrightarrow> wf_dict (dict_set k v d)"
  by (simp add: wf_dict_def distinct_update)

lemma wf_dict_del [simp, inv_intros]: "wf_dict d \<Longrightarrow> wf_dict (dict_del k d)"
  by (simp add: wf_dict_def AList.delete_eq distinct_map_filter)

lemma dict_get_set: "dict_get (dict_set k v d) j = (if j = k then Some v else dict_get d j)"
  by (simp add: update_conv')

lemma dict_get_del: "dict_get (dict_del k d) j = (if j = k then None else dict_get d j)"
  by (simp add: delete_conv')

lemma dict_get_or_set [simp]:
  "dict_get_or z (dict_set k v d) j = (if j = k then v else dict_get_or z d j)"
  by (simp add: dict_get_or_def update_conv')

lemma dict_get_or_del [simp]:
  "dict_get_or z (dict_del k d) j = (if j = k then z else dict_get_or z d j)"
  by (simp add: dict_get_or_def delete_conv')

lemma dict_get_or_Nil [simp]: "dict_get_or z [] k = z"
  by (simp add: dict_get_or_def)

lemma dict_set_not_Nil [simp]: "dict_set k v d \<noteq> []"
  by (cases d) auto

lemma length_dict_set:
  "length (dict_set k v d) = (if dict_get d k = None then Suc (length d) else length d)"
  by (induction d) auto

lemma length_dict_del_le: "length (dict_del k d) \<le> length d"
  by (simp add: AList.delete_eq)

lemma fst_set_dict_set: "fst ` set (dict_set k v d) = insert k (fst ` set d)"
  by (induction d) auto

section \<open>JSON values\<close>

text \<open>A decoded JSON value of Go's type \<open>any\<close>; \<open>map[string]any\<close> is a \<open>json dict\<close>.\<close>

datatype json = JNull | JBool bool | JNum real | JStr string | JArr "json list" | JObj "(string \<times> json) list"

text \<open>The comma-ok type assertions, which give the zero value on another dynamic type.\<close>

definition json_arr :: "json option \<Rightarrow> json list" where
  "json_arr v = (case v of Some (JArr xs) \<Rightarrow> xs | _ \<Rightarrow> [])"

definition json_obj :: "json option \<Rightarrow> json dict" where
  "json_obj v = (case v of Some (JObj d) \<Rightarrow> d | _ \<Rightarrow> [])"

definition json_num :: "json option \<Rightarrow> real" where
  "json_num v = (case v of Some (JNum x) \<Rightarrow> x | _ \<Rightarrow> 0)"

definition json_str :: "json option \<Rightarrow> string" where
  "json_str v = (case v of Some (JStr s) \<Rightarrow> s | _ \<Rightarrow> [])"

definition json_bool :: "json option \<Rightarrow> bool" where
  "json_bool v = (case v of Some (JBool b) \<Rightarrow> b | _ \<Rightarrow> False)"

lemmas dict_simps = dict_get_set dict_get_del length_dict_set

end
