(* ===== verification/FailurePolicy.thy ===== *)
theory FailurePolicy
  imports Prelude
begin

text \<open>
  The failure classification of \<open>orchestrator/internal/resilience/failure_policy.go\<close>: which
  errors count towards opening a circuit breaker, and which provider errors are retried first.
  Both read the error's sentinel chain and its lower-cased, trimmed text.
\<close>

definition contains_any :: "string \<Rightarrow> string list \<Rightarrow> bool" where
  "contains_any s ts \<longleftrightarrow> list_ex (contains s) ts"

definition should_trip_circuit_breaker :: "go_error option \<Rightarrow> bool" where
  "should_trip_circuit_breaker err =
     (case err of
        None \<Rightarrow> False
      | Some e \<Rightarrow>
          if errors_is e ContextCanceled \<or> errors_is e ContextDeadlineExceeded then False
          else
            (let lower = to_lower (trim_space (err_text e)) in
             if lower = '''' then False
             else if contains lower ''circuit breaker'' then False
             else if contains_any lower [''concurrency limit'', ''rate gate'', ''rate limit'',
                       ''too many requests'', ''429''] then False
             else if contains_any lower [''context canceled'', ''context deadline exceeded'',
                       ''request canceled''] then False
             else True))"

definition is_retriable_provider_error :: "go_error option \<Rightarrow> bool" where
  "is_retriable_provider_error err =
     (case err of
        None \<Rightarrow> False
      | Some e \<Rightarrow>
          if errors_is e ContextCanceled \<or> errors_is e ContextDeadlineExceeded then False
          else if \<not> should_trip_circuit_breaker err then False
          else
            (let lower = to_lower (trim_space (err_text e)) in
             contains lower ''timeout'' \<or> contains lower ''temporarily unavailable'' \<or>
             contains lower ''connection reset'' \<or> contains lower ''connection refused'' \<or>
             contains lower ''eof'' \<or> contains lower ''503'' \<or> contains lower ''502'' \<or>
             contains lower ''504'' \<or> contains lower ''429''))"

lemma contains_any_simps [simp]:
  "\<not> contains_any s []"
  "contains_any s (t # ts) \<longleftrightarrow> contains s t \<or> contains_any s ts"
  by (simp_all add: contains_any_def)

lemma should_trip_None [simp]: "\<not> should_trip_circuit_breaker None"
  by (simp add: should_trip_circuit_breaker_def)

lemma should_trip_not_cancelled:
  "should_trip_circuit_breaker (Some e) \<Longrightarrow>
     \<not> errors_is e ContextCanceled \<and> \<not> errors_is e ContextDeadlineExceeded"
  by (auto simp: should_trip_circuit_breaker_def split: if_splits)

lemma should_trip_not_429:
  "should_trip_circuit_breaker (Some e) \<Longrightarrow> \<not> contains (to_lower (trim_space (err_text e))) ''429''"
  by (auto simp: should_trip_circuit_breaker_def Let_def split: if_splits)

lemma retriable_trips: "is_retriable_provider_error err \<Longrightarrow> should_trip_circuit_breaker err"
  by (auto simp: is_retriable_provider_error_def split: option.splits if_splits)

text \<open>The classification looks at the text only up to case and surrounding white space.\<close>

lemma should_trip_text_cong:
  assumes "to_lower (trim_space (err_text e)) = to_lower (trim_space (err_text e'))"
    and "err_chain e = err_chain e'"
  shows "should_trip_circuit_breaker (Some e) = should_trip_circuit_breaker (Some e')"
  using assms by (simp add: should_trip_circuit_breaker_def errors_is_def)

text \<open>
  Retry classification is a sub-case of breaker classification: a provider error that is
  retried is not a cancellation, would trip the breaker if it persisted, and carries none of
  the throttling marks; in particular the test for "429" at the end of
  \<open>IsRetriableProviderError\<close> never succeeds, so throttled calls are never retried.
\<close>

theorem retriable_provider_error_sound:
  assumes "is_retriable_provider_error (Some e)"
  shows "should_trip_circuit_breaker (Some e)
         \<and> \<not> errors_is e ContextCanceled \<and> \<not> errors_is e ContextDeadlineExceeded
         \<and> \<not> contains (to_lower (trim_space (err_text e))) ''429''
         \<and> \<not> contains (to_lower (trim_space (err_text e))) ''rate limit''"
proof -
  from assms have trip: "should_trip_circuit_breaker (Some e)" by (rule retriable_trips)
  then have "\<not> contains (to_lower (trim_space (err_text e))) ''rate limit''"
    by (auto simp: should_trip_circuit_breaker_def Let_def split: if_splits)
  with trip show ?thesis
    by (simp add: should_trip_not_cancelled should_trip_not_429)
qed

theorem retriable_provider_error_sound_witness:
  "is_retriable_provider_error (Some (new_error ''upstream error (503)''))
   \<and> should_trip_circuit_breaker (Some (new_error ''upstream error (503)''))"
proof -
  have h: "is_retriable_provider_error (Some (new_error ''upstream error (503)''))"
    by code_simp
  from h retriable_provider_error_sound [OF h] show ?thesis by blast
qed

end
