(* ===== verification/AdmissionGate.thy ===== *)
theory AdmissionGate
  imports FailurePolicy
begin

text \<open>
  The contract both circuit breakers of the program offer to their callers (the provider
  registry's \<open>breaker.Allow\<close> and the agent's parallel search): a gate that is closed or open
  since some moment, admits while closed, rejects while open until a timeout has expired, and
  opens after a bounded number of tripping failures in a row. \<open>fails_left\<close> is that bound for
  the gate's current state. The two implementations are \<open>resilience.CircuitBreaker\<close> (theory
  Breaker) and \<open>wisdev.CircuitBreaker\<close> (theory AgentBreaker).
\<close>

locale admission_gate =
  fixes invar :: "'b \<Rightarrow> bool"
    and opened_at :: "'b \<Rightarrow> int option"
    and expired :: "'b \<Rightarrow> int \<Rightarrow> int \<Rightarrow> bool"
    and admit :: "int \<Rightarrow> 'b \<Rightarrow> 'b \<times> bool"
    and fail :: "int \<Rightarrow> go_error option \<Rightarrow> 'b \<Rightarrow> 'b"
    and succeed :: "'b \<Rightarrow> 'b"
    and trips :: "go_error option \<Rightarrow> bool"
    and fails_left :: "'b \<Rightarrow> nat"
  assumes admit_iff:
      "invar b \<Longrightarrow> snd (admit now b) \<longleftrightarrow> (\<forall>t. opened_at b = Some t \<longrightarrow> expired b now t)"
    and admit_closed: "invar b \<Longrightarrow> snd (admit now b) \<Longrightarrow> opened_at (fst (admit now b)) = None"
    and reject_unchanged: "invar b \<Longrightarrow> \<not> snd (admit now b) \<Longrightarrow> fst (admit now b) = b"
    and fail_ignored: "invar b \<Longrightarrow> \<not> trips e \<Longrightarrow> fail now e b = b"
    and fail_open: "invar b \<Longrightarrow> opened_at b \<noteq> None \<Longrightarrow> opened_at (fail now e b) \<noteq> None"
    and fail_counts:
      "invar b \<Longrightarrow> trips e \<Longrightarrow> opened_at b = None \<Longrightarrow>
         opened_at (fail now e b) = Some now \<or>
         (opened_at (fail now e b) = None \<and> fails_left (fail now e b) < fails_left b)"
    and succeed_closed: "invar b \<Longrightarrow> opened_at b = None \<Longrightarrow> opened_at (succeed b) = None"
    and invar_admit: "invar b \<Longrightarrow> invar (fst (admit now b))"
    and invar_fail: "invar b \<Longrightarrow> invar (fail now e b)"
    and invar_succeed: "invar b \<Longrightarrow> invar (succeed b)"
begin

definition fail_all :: "(int \<times> go_error option) list \<Rightarrow> 'b \<Rightarrow> 'b" where
  "fail_all fs b = fold (\<lambda>(now, e) c. fail now e c) fs b"

lemma invar_fail_all: "invar b \<Longrightarrow> invar (fail_all fs b)"
  unfolding fail_all_def by (induction fs arbitrary: b) (auto simp: invar_fail)

lemma fail_all_open: "invar b \<Longrightarrow> opened_at b \<noteq> None \<Longrightarrow> opened_at (fail_all fs b) \<noteq> None"
  unfolding fail_all_def
proof (induction fs arbitrary: b)
  case (Cons f fs)
  obtain now e where f: "f = (now, e)" by force
  have "opened_at (fail now e b) \<noteq> None" using Cons.prems by (rule fail_open)
  moreover have "invar (fail now e b)" using Cons.prems(1) by (rule invar_fail)
  ultimately show ?case using Cons.IH f by simp
qed simp

text \<open>As many tripping failures in a row as the gate has left, and one more, open it.\<close>

lemma enough_failures_open:
  assumes "invar b" and "\<forall>(now, e) \<in> set fs. trips e" and "fails_left b < length fs"
  shows "opened_at (fail_all fs b) \<noteq> None"
  using assms
proof (induction fs arbitrary: b)
  case Nil
  then show ?case by simp
next
  case (Cons f fs)
  obtain now e where f: "f = (now, e)" by force
  let ?b = "fail now e b"
  have step: "fail_all (f # fs) b = fail_all fs ?b" by (simp add: fail_all_def f)
  have inv: "invar ?b" using Cons.prems(1) by (rule invar_fail)
  show ?case
  proof (cases "opened_at ?b")
    case None
    with Cons.prems(1) have "opened_at b = None"
      using fail_open [of b now e] by (cases "opened_at b") auto
    with Cons.prems f None have "fails_left ?b < fails_left b"
      using fail_counts [of b e now] by auto
    with Cons.prems(3) have "fails_left ?b < length fs" by simp
    with Cons.IH [OF inv] Cons.prems(2) show ?thesis by (simp add: step)
  next
    case (Some t)
    then show ?thesis unfolding step by (intro fail_all_open [OF inv]) simp
  qed
qed

text \<open>Failures that do not trip never change the gate.\<close>

lemma harmless_failures: 
  assumes "invar b" and "\<forall>(now, e) \<in> set fs. \<not> trips e"
  shows "fail_all fs b = b"
  using assms(2) unfolding fail_all_def
  by (induction fs) (auto simp: fail_ignored [OF assms(1)])

text \<open>An open gate recovers: the first request after the timeout passes and leaves it closed.\<close>

lemma recovers:
  assumes "invar b" and "opened_at b = Some t" and "expired b now t"
  shows "snd (admit now b) \<and> opened_at (fst (admit now b)) = None"
  using assms admit_iff [OF assms(1)] admit_closed [OF assms(1)] by auto

lemma rejects:
  assumes "invar b" and "opened_at b = Some t" and "\<not> expired b now t"
  shows "admit now b = (b, False)"
  using assms admit_iff [OF assms(1), of now] reject_unchanged [OF assms(1), of now]
  by (metis prod.collapse)

end

end
