(* ===== verification/Breaker.thy ===== *)
theory Breaker
  imports AdmissionGate
begin

text \<open>
  \<open>orchestrator/internal/resilience/circuit_breaker.go\<close>: the circuit breaker (its state, the
  locked operations, \<open>Call\<close> split at the point where it releases the lock around the caller's
  function), the registry of breakers, the health report and the fallback wrapper.

  Each method holds \<open>cb.mu\<close> for its whole body, so each is one atomic step; \<open>Call\<close> releases it
  while the function runs, so it is two steps, \<open>call_begin\<close> and \<open>call_end\<close>, between which steps
  of other callers interleave (relation \<open>cb_step\<close>). Logging and telemetry calls change no state
  and are left out.
\<close>

section \<open>State and constructors\<close>

datatype cb_state = StateClosed | StateOpen | StateHalfOpen

record circuit_breaker =
  cb_name :: string
  max_failures :: int
  reset_timeout :: int
  success_threshold :: int
  cb_st :: cb_state
  failure_count :: int
  success_count :: int
  last_failure_time :: "int option"
  last_failure_error :: "go_error option"
  total_request_count :: int
  total_error_count :: int

definition new_circuit_breaker :: "string \<Rightarrow> circuit_breaker" where
  "new_circuit_breaker name =
     \<lparr>cb_name = name, max_failures = 3, reset_timeout = 30 * second, success_threshold = 2,
      cb_st = StateClosed, failure_count = 0, success_count = 0, last_failure_time = None,
      last_failure_error = None, total_request_count = 0, total_error_count = 0\<rparr>"

definition new_circuit_breaker_with_config :: "string \<Rightarrow> int \<Rightarrow> int \<Rightarrow> circuit_breaker" where
  "new_circuit_breaker_with_config name mf rt =
     (let cb = new_circuit_breaker name;
          cb = (if 0 < mf then cb\<lparr>max_failures := mf\<rparr> else cb);
          cb = (if 0 < rt then cb\<lparr>reset_timeout := rt\<rparr> else cb)
      in cb)"

definition new_search_circuit_breaker :: "string \<Rightarrow> circuit_breaker" where
  "new_search_circuit_breaker name =
     (new_circuit_breaker name)\<lparr>max_failures := 5, reset_timeout := 20 * second,
        success_threshold := 1, cb_st := StateClosed\<rparr>"

section \<open>Operations\<close>

text \<open>\<open>time.Since\<close> of the zero time saturates at the largest duration.\<close>

definition elapsed :: "int \<Rightarrow> int option \<Rightarrow> int" where
  "elapsed now t = (case t of None \<Rightarrow> 9223372036854775807 | Some t0 \<Rightarrow> since now t0)"

definition maybe_transition_half_open :: "int \<Rightarrow> circuit_breaker \<Rightarrow> circuit_breaker" where
  "maybe_transition_half_open now cb =
     (if cb_st cb \<noteq> StateOpen \<or> elapsed now (last_failure_time cb) \<le> reset_timeout cb then cb
      else cb\<lparr>cb_st := StateHalfOpen, success_count := 0, failure_count := 0\<rparr>)"

definition cb_admit :: "int \<Rightarrow> circuit_breaker \<Rightarrow> circuit_breaker \<times> bool" where
  "cb_admit now cb =
     (let cb = maybe_transition_half_open now cb in (cb, cb_st cb \<noteq> StateOpen))"

definition record_failure :: "int \<Rightarrow> go_error option \<Rightarrow> circuit_breaker \<Rightarrow> circuit_breaker" where
  "record_failure now err cb =
     (if \<not> should_trip_circuit_breaker err then cb
      else
        (let cb = cb\<lparr>failure_count := failure_count cb + 1, last_failure_time := Some now,
                     last_failure_error := err, success_count := 0\<rparr>
         in if cb_st cb = StateHalfOpen then cb\<lparr>cb_st := StateOpen\<rparr>
            else if max_failures cb \<le> failure_count cb \<and> cb_st cb \<noteq> StateOpen
            then cb\<lparr>cb_st := StateOpen\<rparr>
            else cb))"

definition record_success :: "circuit_breaker \<Rightarrow> circuit_breaker" where
  "record_success cb =
     (let cb = cb\<lparr>failure_count := 0, success_count := success_count cb + 1\<rparr>
      in if cb_st cb = StateHalfOpen \<and> success_threshold cb \<le> success_count cb
         then cb\<lparr>cb_st := StateClosed\<rparr> else cb)"

text \<open>The part of \<open>Call\<close> before it releases the lock, and the part after it takes it again.\<close>

definition call_begin :: "int \<Rightarrow> circuit_breaker \<Rightarrow> circuit_breaker \<times> go_error option" where
  "call_begin now cb =
     (let cb = maybe_transition_half_open now cb in
      if cb_st cb = StateOpen
      then (cb, Some (new_error (''circuit breaker '' @ cb_name cb @ '' is open'')))
      else (cb\<lparr>total_request_count := total_request_count cb + 1\<rparr>, None))"

definition call_end :: "int \<Rightarrow> go_error option \<Rightarrow> circuit_breaker \<Rightarrow> circuit_breaker" where
  "call_end now err cb =
     (case err of
        Some e \<Rightarrow> record_failure now err (cb\<lparr>total_error_count := total_error_count cb + 1\<rparr>)
      | None \<Rightarrow> record_success cb)"

text \<open>
  \<open>Call\<close> with nothing interleaved: the function's result \<open>res\<close> is looked at only when the call
  is admitted; \<open>now'\<close> is the clock when it returns. The third component says whether \<open>fn\<close> ran.
\<close>

definition cb_call ::
  "int \<Rightarrow> int \<Rightarrow> go_error option \<Rightarrow> circuit_breaker \<Rightarrow> circuit_breaker \<times> go_error option \<times> bool" where
  "cb_call now now' res cb =
     (case call_begin now cb of
        (cb', Some e) \<Rightarrow> (cb', Some e, False)
      | (cb', None) \<Rightarrow> (call_end now' res cb', res, True))"

definition configure_testing :: "int \<Rightarrow> int \<Rightarrow> circuit_breaker \<Rightarrow> circuit_breaker" where
  "configure_testing mf rt cb =
     (let cb = (if 0 < mf then cb\<lparr>max_failures := mf\<rparr> else cb)
      in if 0 < rt then cb\<lparr>reset_timeout := rt\<rparr> else cb)"

definition cb_reset :: "circuit_breaker \<Rightarrow> circuit_breaker" where
  "cb_reset cb = cb\<lparr>cb_st := StateClosed, failure_count := 0, success_count := 0,
                    last_failure_error := None\<rparr>"

record cb_metrics =
  m_name :: string
  m_state :: cb_state
  m_total_requests :: int
  m_total_errors :: int
  m_error_rate :: real
  m_current_failures :: int
  m_current_successes :: int
  m_last_failure_error :: "go_error option"
  m_last_failure_time :: "int option"

definition metrics :: "circuit_breaker \<Rightarrow> cb_metrics" where
  "metrics cb =
     \<lparr>m_name = cb_name cb, m_state = cb_st cb, m_total_requests = total_request_count cb,
      m_total_errors = total_error_count cb,
      m_error_rate = (if 0 < total_request_count cb
        then real_of_int (total_error_count cb) / real_of_int (total_request_count cb) else 0),
      m_current_failures = failure_count cb, m_current_successes = success_count cb,
      m_last_failure_error = last_failure_error cb, m_last_failure_time = last_failure_time cb\<rparr>"

section \<open>Registry, health report, fallback\<close>

type_synonym cb_registry = "circuit_breaker dict"

definition reg_get_or_create :: "string \<Rightarrow> cb_registry \<Rightarrow> cb_registry \<times> circuit_breaker" where
  "reg_get_or_create name reg =
     (case dict_get reg name of
        Some cb \<Rightarrow> (reg, cb)
      | None \<Rightarrow> (let cb = new_circuit_breaker name in (dict_set name cb reg, cb)))"

definition reg_get :: "cb_registry \<Rightarrow> string \<Rightarrow> circuit_breaker option" where
  "reg_get reg name = dict_get reg name"

definition reg_all :: "cb_registry \<Rightarrow> circuit_breaker list" where
  "reg_all reg = map snd reg"

definition reg_reset_all :: "cb_registry \<Rightarrow> cb_registry" where
  "reg_reset_all reg = map (\<lambda>(k, cb). (k, cb_reset cb)) reg"

record health_report =
  total_breakers :: int
  healthy_breakers :: int
  health_status :: string
  report_breakers :: "cb_metrics list"

definition breaker_healthy :: "cb_metrics \<Rightarrow> bool" where
  "breaker_healthy m \<longleftrightarrow> m_state m = StateClosed \<and> m_error_rate m < 1 / 10"

definition health_report_of :: "cb_registry \<Rightarrow> health_report" where
  "health_report_of reg =
     (let ms = map metrics (reg_all reg);
          healthy = int (length (filter breaker_healthy ms));
          n = int (length ms)
      in \<lparr>total_breakers = n, healthy_breakers = healthy,
          health_status = (if healthy < quot n 2 then ''degraded'' else ''healthy''),
          report_breakers = ms\<rparr>)"

text \<open>
  \<open>CircuitBreakerWithFallback.Call\<close>: the breaker's state is read after the call returned, so
  \<open>cb''\<close> is the breaker with whatever other callers did in between.
\<close>

definition fallback_result ::
  "go_error option \<Rightarrow> go_error option option \<Rightarrow> circuit_breaker \<Rightarrow> go_error option" where
  "fallback_result err fallback cb'' =
     (case err of
        None \<Rightarrow> None
      | Some e \<Rightarrow> (case fallback of
                     Some fres \<Rightarrow> if cb_st cb'' = StateOpen then fres else Some e
                   | None \<Rightarrow> Some e))"

definition cached_response_fallback :: "go_error option" where
  "cached_response_fallback = Some (new_error ''circuit is open, returning cached response'')"

definition degraded_mode_fallback :: "go_error option option \<Rightarrow> go_error option" where
  "degraded_mode_fallback fn =
     (case fn of None \<Rightarrow> Some (new_error ''degraded mode not available'') | Some res \<Rightarrow> res)"

section \<open>The invariant\<close>

definition cb_inv :: "circuit_breaker \<Rightarrow> bool" where
  "cb_inv cb \<longleftrightarrow>
     1 \<le> max_failures cb \<and> 1 \<le> success_threshold cb \<and> 0 \<le> failure_count cb \<and>
     0 \<le> success_count cb \<and>
     (cb_st cb = StateClosed \<longrightarrow> failure_count cb < max_failures cb) \<and>
     (cb_st cb = StateHalfOpen \<longrightarrow> failure_count cb = 0 \<and> success_count cb < success_threshold cb) \<and>
     (cb_st cb = StateOpen \<longrightarrow> last_failure_time cb \<noteq> None)"

lemma cb_inv_new [inv_intros]:
  "cb_inv (new_circuit_breaker name)"
  "cb_inv (new_circuit_breaker_with_config name mf rt)"
  "cb_inv (new_search_circuit_breaker name)"
  by (simp_all add: cb_inv_def new_circuit_breaker_def new_circuit_breaker_with_config_def
      new_search_circuit_breaker_def Let_def)

lemma cb_inv_half_open [inv_intros]: "cb_inv cb \<Longrightarrow> cb_inv (maybe_transition_half_open now cb)"
  by (auto simp: cb_inv_def maybe_transition_half_open_def)

lemma cb_inv_admit [inv_intros]: "cb_inv cb \<Longrightarrow> cb_inv (fst (cb_admit now cb))"
  by (simp add: cb_admit_def Let_def cb_inv_half_open)

lemma cb_inv_record_failure [inv_intros]: "cb_inv cb \<Longrightarrow> cb_inv (record_failure now err cb)"
  by (auto simp: cb_inv_def record_failure_def Let_def)

lemma cb_inv_record_success [inv_intros]: "cb_inv cb \<Longrightarrow> cb_inv (record_success cb)"
  by (auto simp: cb_inv_def record_success_def Let_def)

lemma cb_inv_total [simp]:
  "cb_inv (cb\<lparr>total_request_count := n\<rparr>) = cb_inv cb"
  "cb_inv (cb\<lparr>total_error_count := n\<rparr>) = cb_inv cb"
  by (simp_all add: cb_inv_def)

lemma cb_inv_call_begin [inv_intros]: "cb_inv cb \<Longrightarrow> cb_inv (fst (call_begin now cb))"
  by (simp add: call_begin_def Let_def cb_inv_half_open)

lemma cb_inv_call_end [inv_intros]: "cb_inv cb \<Longrightarrow> cb_inv (call_end now err cb)"
  by (simp add: call_end_def cb_inv_record_failure cb_inv_record_success split: option.split)

lemma cb_inv_reset [inv_intros]: "cb_inv cb \<Longrightarrow> cb_inv (cb_reset cb)"
  by (auto simp: cb_inv_def cb_reset_def)

section \<open>The breaker is an admission gate\<close>

definition cb_opened_at :: "circuit_breaker \<Rightarrow> int option" where
  "cb_opened_at cb = (if cb_st cb = StateOpen then last_failure_time cb else None)"

definition cb_expired :: "circuit_breaker \<Rightarrow> int \<Rightarrow> int \<Rightarrow> bool" where
  "cb_expired cb now t \<longleftrightarrow> reset_timeout cb < since now t"

definition cb_fails_left :: "circuit_breaker \<Rightarrow> nat" where
  "cb_fails_left cb = (if cb_st cb = StateClosed then nat (max_failures cb - failure_count cb - 1) else 0)"

lemmas gate_defs = cb_opened_at_def cb_expired_def cb_fails_left_def cb_admit_def elapsed_def
  maybe_transition_half_open_def record_failure_def record_success_def Let_def

interpretation cb: admission_gate cb_inv cb_opened_at cb_expired cb_admit record_failure
  record_success should_trip_circuit_breaker cb_fails_left
proof (standard, goal_cases)
  case (1 b now) then show ?case
    by (auto simp: gate_defs cb_inv_def split: option.splits)
next
  case (2 b now) then show ?case by (auto simp: gate_defs split: if_splits)
next
  case (3 b now) then show ?case by (auto simp: gate_defs split: if_splits)
next
  case (4 b e now) then show ?case by (simp add: record_failure_def)
next
  case (5 b now e) then show ?case by (auto simp: gate_defs split: if_splits)
next
  case (6 b e now) then show ?case
    by (cases "cb_st b") (auto simp: gate_defs cb_inv_def)
next
  case (7 b) then show ?case by (auto simp: gate_defs cb_inv_def split: if_splits)
qed (auto intro: inv_intros)

section \<open>Interleaved callers\<close>

text \<open>
  The state of a run is the breaker, the number of admitted calls whose function has not
  returned, and the number of calls that have returned. Any caller may move next; the clock
  readings are arbitrary.
\<close>

type_synonym cb_run = "circuit_breaker \<times> nat \<times> nat"

inductive cb_step :: "cb_run \<Rightarrow> cb_run \<Rightarrow> bool" where
  admit: "cb_step (b, i, d) (fst (cb_admit now b), i, d)"
| begin_admitted: "call_begin now b = (b', None) \<Longrightarrow> cb_step (b, i, d) (b', Suc i, d)"
| begin_rejected: "call_begin now b = (b', Some e) \<Longrightarrow> cb_step (b, i, d) (b', i, d)"
| finish: "cb_step (b, Suc i, d) (call_end now err b, i, Suc d)"
| reset: "cb_step (b, i, d) (cb_reset b, i, d)"

inductive cb_reachable :: "cb_run \<Rightarrow> bool" where
  start: "cb_reachable (new_circuit_breaker_with_config name mf rt, 0, 0)"
| start_search: "cb_reachable (new_search_circuit_breaker name, 0, 0)"
| step: "cb_reachable s \<Longrightarrow> cb_step s t \<Longrightarrow> cb_reachable t"

inductive_cases cb_step_cases: "cb_step (b, i, d) t"

definition cb_run_inv :: "cb_run \<Rightarrow> bool" where
  "cb_run_inv = (\<lambda>(b, i, d). cb_inv b \<and> total_request_count b = int (i + d) \<and>
      0 \<le> total_error_count b \<and> total_error_count b \<le> int d)"

lemma totals_frame [simp]:
  "total_request_count (maybe_transition_half_open now b) = total_request_count b"
  "total_error_count (maybe_transition_half_open now b) = total_error_count b"
  "total_request_count (fst (cb_admit now b)) = total_request_count b"
  "total_error_count (fst (cb_admit now b)) = total_error_count b"
  "total_request_count (record_failure now e b) = total_request_count b"
  "total_error_count (record_failure now e b) = total_error_count b"
  "total_request_count (record_success b) = total_request_count b"
  "total_error_count (record_success b) = total_error_count b"
  "total_request_count (cb_reset b) = total_request_count b"
  "total_error_count (cb_reset b) = total_error_count b"
  by (simp_all add: gate_defs cb_reset_def)

lemma call_begin_totals:
  "call_begin now b = (b', r) \<Longrightarrow>
     total_request_count b' = total_request_count b + (if r = None then 1 else 0) \<and>
     total_error_count b' = total_error_count b"
  by (auto simp: call_begin_def Let_def split: if_splits)

lemma call_end_totals:
  "total_request_count (call_end now err b) = total_request_count b"
  "total_error_count (call_end now err b) = total_error_count b + (if err = None then 0 else 1)"
  by (simp_all add: call_end_def split: option.split)

lemma cb_step_run_inv: "cb_step s t \<Longrightarrow> cb_run_inv s \<Longrightarrow> cb_run_inv t"
proof (induction rule: cb_step.induct)
  case (begin_admitted now b b' i d)
  then show ?case
    using cb_inv_call_begin [of b now] call_begin_totals [of now b b' None]
    by (simp add: cb_run_inv_def)
next
  case (begin_rejected now b b' e i d)
  then show ?case
    using cb_inv_call_begin [of b now] call_begin_totals [of now b b' "Some e"]
    by (simp add: cb_run_inv_def)
qed (auto simp: cb_run_inv_def call_end_totals intro: inv_intros)

lemma reachable_run_inv: "cb_reachable s \<Longrightarrow> cb_run_inv s"
proof (induction rule: cb_reachable.induct)
  case (start name mf rt)
  then show ?case
    by (simp add: cb_run_inv_def inv_intros)
      (simp add: new_circuit_breaker_with_config_def new_circuit_breaker_def Let_def)
next
  case (start_search name)
  then show ?case
    by (simp add: cb_run_inv_def inv_intros)
      (simp add: new_search_circuit_breaker_def new_circuit_breaker_def)
next
  case (step s t)
  then show ?case by (blast intro: cb_step_run_inv)
qed

section \<open>Properties\<close>

text \<open>
  C16. In every state reachable by any interleaving of callers, from any of the constructors, the
  counters are consistent: admitted calls are those in flight plus those returned, errors are
  at most the returned calls (so the reported error rate lies between 0 and 1), a closed breaker
  is below its failure threshold, a half-open one has seen no failure and too few successes to
  close, and an open one knows when it failed.
\<close>

theorem breaker_reachable_consistent:
  assumes "cb_reachable (b, i, d)"
  shows "total_request_count b = int i + int d \<and> total_error_count b \<le> int d
         \<and> 0 \<le> m_error_rate (metrics b) \<and> m_error_rate (metrics b) \<le> 1
         \<and> (cb_st b = StateClosed \<longrightarrow> failure_count b < max_failures b)
         \<and> (cb_st b = StateHalfOpen \<longrightarrow> failure_count b = 0 \<and> success_count b < success_threshold b)
         \<and> (cb_st b = StateOpen \<longrightarrow> last_failure_time b \<noteq> None)"
  using reachable_run_inv [OF assms]
  by (auto simp: cb_run_inv_def cb_inv_def metrics_def divide_le_eq_1)

text \<open>One admitted call in flight on a fresh breaker is a reachable state.\<close>

theorem breaker_reachable_consistent_witness:
  "total_request_count (fst (call_begin 0 (new_circuit_breaker_with_config ''s2'' 3 5))) = int 1 + int 0"
proof -
  have "cb_reachable (new_circuit_breaker_with_config ''s2'' 3 5, 0, 0)" by (rule start)
  moreover have "call_begin 0 (new_circuit_breaker_with_config ''s2'' 3 5)
      = (fst (call_begin 0 (new_circuit_breaker_with_config ''s2'' 3 5)), None)"
    by (simp add: call_begin_def new_circuit_breaker_with_config_def new_circuit_breaker_def
        maybe_transition_half_open_def Let_def)
  ultimately have r: "cb_reachable (fst (call_begin 0 (new_circuit_breaker_with_config ''s2'' 3 5)), 1, 0)"
    using cb_reachable.step cb_step.begin_admitted [of 0 _ _ 0 0] by fastforce
  show ?thesis using breaker_reachable_consistent [OF r] by simp
qed

text \<open>
  A closed breaker that sees as many tripping failures in a row as its threshold is open
  afterwards, and then every request within the reset timeout after the last of them is
  rejected without changing the breaker, whatever the failures' texts and times.
\<close>

theorem breaker_opens_and_rejects:
  assumes "cb_inv b" and "cb_st b = StateClosed"
    and "\<forall>(t, e) \<in> set fs. should_trip_circuit_breaker e"
    and "max_failures b - failure_count b \<le> int (length fs)"
  shows "\<exists>t. cb_opened_at (cb.fail_all fs b) = Some t
             \<and> (\<forall>now. since now t \<le> reset_timeout (cb.fail_all fs b)
                  \<longrightarrow> cb_admit now (cb.fail_all fs b) = (cb.fail_all fs b, False))"
proof -
  have "cb_fails_left b < length fs"
    using assms by (auto simp: cb_fails_left_def cb_inv_def)
  with assms(1,3) obtain t where "cb_opened_at (cb.fail_all fs b) = Some t"
    using cb.enough_failures_open by blast
  moreover have "cb_inv (cb.fail_all fs b)" using assms(1) by (rule cb.invar_fail_all)
  ultimately show ?thesis using cb.rejects by (fastforce simp: cb_expired_def)
qed

theorem breaker_opens_and_rejects_witness:
  "cb_admit 8 (cb.fail_all [(5, Some (new_error ''boom'')), (6, Some (new_error ''boom'')), (7, Some (new_error ''boom''))]
      (new_circuit_breaker ''s2'')) =
   (cb.fail_all [(5, Some (new_error ''boom'')), (6, Some (new_error ''boom'')), (7, Some (new_error ''boom''))]
      (new_circuit_breaker ''s2''), False)"
proof -
  let ?fs = "[(5::int, Some (new_error ''boom'')), (6, Some (new_error ''boom'')), (7, Some (new_error ''boom''))]"
  let ?b = "new_circuit_breaker ''s2''"
  have trip: "should_trip_circuit_breaker (Some (new_error ''boom''))" by code_simp
  have "\<exists>t. cb_opened_at (cb.fail_all ?fs ?b) = Some t
             \<and> (\<forall>now. since now t \<le> reset_timeout (cb.fail_all ?fs ?b)
                  \<longrightarrow> cb_admit now (cb.fail_all ?fs ?b) = (cb.fail_all ?fs ?b, False))"
    by (rule breaker_opens_and_rejects)
      (simp_all add: inv_intros trip, simp_all add: new_circuit_breaker_def)
  then obtain t where "cb_opened_at (cb.fail_all ?fs ?b) = Some t"
    and rej: "\<forall>now. since now t \<le> reset_timeout (cb.fail_all ?fs ?b)
                  \<longrightarrow> cb_admit now (cb.fail_all ?fs ?b) = (cb.fail_all ?fs ?b, False)" by blast
  then have "t = 7"
    by (simp add: cb.fail_all_def record_failure_def trip new_circuit_breaker_def cb_opened_at_def)
  moreover have "reset_timeout (cb.fail_all ?fs ?b) = 30000000000"
    by (simp add: cb.fail_all_def record_failure_def trip new_circuit_breaker_def)
  ultimately show ?thesis using rej by (simp add: since_def)
qed

text \<open>
  \<open>Call\<close> fails fast exactly while the breaker is open and its timeout has not expired:
  the wrapped function runs iff the request is admitted, a rejected call returns the breaker's
  own error and leaves it as it was, and an admitted call returns the function's result and is
  counted.
\<close>

theorem call_fails_fast_iff_open:
  assumes "cb_inv b"
  shows "snd (snd (cb_call now now' res b))
           \<longleftrightarrow> \<not> (\<exists>t. cb_opened_at b = Some t \<and> since now t \<le> reset_timeout b)
         \<and> (\<not> snd (snd (cb_call now now' res b)) \<longrightarrow>
              cb_call now now' res b =
                (b, Some (new_error (''circuit breaker '' @ cb_name b @ '' is open'')), False))
         \<and> (snd (snd (cb_call now now' res b)) \<longrightarrow>
              fst (snd (cb_call now now' res b)) = res
              \<and> total_request_count (fst (cb_call now now' res b)) = total_request_count b + 1)"
proof -
  have "call_begin now b = (if snd (cb_admit now b)
          then ((fst (cb_admit now b))\<lparr>total_request_count := total_request_count b + 1\<rparr>, None)
          else (b, Some (new_error (''circuit breaker '' @ cb_name b @ '' is open''))))"
    using assms cb.reject_unchanged [of b now]
    by (auto simp: call_begin_def cb_admit_def Let_def split: if_splits)
  then show ?thesis
    using cb.admit_iff [OF assms, of now]
    by (auto simp: cb_call_def call_end_totals cb_expired_def)
qed

theorem call_fails_fast_iff_open_witness:
  "\<not> snd (snd (cb_call 9 10 None ((new_circuit_breaker ''s2'')\<lparr>cb_st := StateOpen, last_failure_time := Some 8\<rparr>)))"
proof -
  let ?b = "(new_circuit_breaker ''s2'')\<lparr>cb_st := StateOpen, last_failure_time := Some 8\<rparr>"
  have "cb_inv ?b" by (simp add: cb_inv_def new_circuit_breaker_def)
  from call_fails_fast_iff_open [OF this, of 9 10 None]
  show ?thesis by (simp add: cb_opened_at_def since_def new_circuit_breaker_def)
qed

lemma half_open_begin:
  "cb_st b = StateHalfOpen \<Longrightarrow>
     call_begin now b = (b\<lparr>total_request_count := total_request_count b + 1\<rparr>, None)"
  by (simp add: call_begin_def maybe_transition_half_open_def)

text \<open>
  The half-open state does not limit the probes: from a half-open breaker any number of
  calls is admitted and can be in flight together before the first of them returns, although
  the type's comment says that half-open allows limited requests.
\<close>

theorem half_open_admits_unboundedly:
  assumes "cb_st b = StateHalfOpen"
  shows "cb_step\<^sup>*\<^sup>* (b, i, d) (b\<lparr>total_request_count := total_request_count b + int n\<rparr>, i + n, d)"
proof (induction n)
  case 0
  show ?case by simp
next
  case (Suc n)
  let ?b = "b\<lparr>total_request_count := total_request_count b + int n\<rparr>"
  have "call_begin 0 ?b = (?b\<lparr>total_request_count := total_request_count ?b + 1\<rparr>, None)"
    using assms by (intro half_open_begin) simp
  then have "cb_step (?b, i + n, d) (?b\<lparr>total_request_count := total_request_count ?b + 1\<rparr>, Suc (i + n), d)"
    by (rule begin_admitted)
  then have "cb_step (?b, i + n, d) (b\<lparr>total_request_count := total_request_count b + int (Suc n)\<rparr>, i + Suc n, d)"
    by (simp add: ac_simps)
  with Suc show ?case by (rule rtranclp.rtrancl_into_rtrancl)
qed

theorem half_open_admits_unboundedly_witness:
  "cb_step\<^sup>*\<^sup>* ((new_circuit_breaker ''s2'')\<lparr>cb_st := StateHalfOpen\<rparr>, 0, 0)
     ((new_circuit_breaker ''s2'')\<lparr>cb_st := StateHalfOpen, total_request_count := 1000\<rparr>, 1000, 0)"
  using half_open_admits_unboundedly [of "(new_circuit_breaker ''s2'')\<lparr>cb_st := StateHalfOpen\<rparr>" 0 0 1000]
  by (simp add: new_circuit_breaker_def)

text \<open>
  The health report cannot call a registry degraded on account of its only breaker: with one
  registered breaker the threshold \<open>len(breakers)/2\<close> is 0, so the status is "healthy" even
  when that breaker is open and every request is rejected.
\<close>

theorem single_breaker_never_degraded:
  "health_status (health_report_of [(name, b)]) = ''healthy''"
  by (simp add: health_report_of_def reg_all_def)

text \<open>The registry hands out one breaker per name, and \<open>ResetAll\<close> closes them all.\<close>

lemma reg_get_or_create_get:
  "reg_get (fst (reg_get_or_create n reg)) n = Some (snd (reg_get_or_create n reg))"
  by (simp add: reg_get_def reg_get_or_create_def dict_simps Let_def split: option.split)

lemma reg_get_or_create_stable:
  "reg_get_or_create n (fst (reg_get_or_create n reg)) = reg_get_or_create n reg"
  by (simp add: reg_get_or_create_def dict_simps Let_def split: option.split)

lemma wf_reg_get_or_create [inv_intros]: "wf_dict reg \<Longrightarrow> wf_dict (fst (reg_get_or_create n reg))"
  by (simp add: reg_get_or_create_def Let_def split: option.split)

lemma wf_reg_reset_all [inv_intros]: "wf_dict reg \<Longrightarrow> wf_dict (reg_reset_all reg)"
  by (simp add: wf_dict_def reg_reset_all_def comp_def case_prod_beta)

lemma reg_reset_all_closed: "(k, cb) \<in> set (reg_reset_all reg) \<Longrightarrow> cb_st cb = StateClosed"
  by (auto simp: reg_reset_all_def cb_reset_def)

end
