(* ===== verification/AgentBreaker.thy ===== *)
theory AgentBreaker
  imports AdmissionGate
begin

text \<open>
  \<open>orchestrator/internal/wisdev/circuit_breaker.go\<close>, the agent's own breaker around parallel
  search, and \<open>orchestrator/internal/wisdev/concurrency.go\<close>, the additive-increase
  multiplicative-decrease controller of its parallelism. The breaker is the second
  implementation of the contract \<open>admission_gate\<close>; unlike the first it has no half-open state,
  and it expires when the timeout has elapsed exactly.
\<close>

section \<open>The breaker\<close>

record agent_breaker =
  ab_name :: string
  failure_threshold :: int
  ab_reset_timeout :: int
  consecutive_failures :: int
  opened_at :: "int option"

datatype ab_option = WithFailureThreshold int | WithResetTimeout int

fun ab_apply_option :: "agent_breaker \<Rightarrow> ab_option option \<Rightarrow> agent_breaker" where
  "ab_apply_option cb None = cb"
| "ab_apply_option cb (Some (WithFailureThreshold k)) =
     (if 0 < k then cb\<lparr>failure_threshold := k\<rparr> else cb)"
| "ab_apply_option cb (Some (WithResetTimeout d)) =
     (if 0 < d then cb\<lparr>ab_reset_timeout := d\<rparr> else cb)"

definition new_agent_breaker :: "string \<Rightarrow> ab_option option list \<Rightarrow> agent_breaker" where
  "new_agent_breaker name opts =
     foldl ab_apply_option
       \<lparr>ab_name = name, failure_threshold = 5, ab_reset_timeout = 20 * second,
        consecutive_failures = 0, opened_at = None\<rparr> opts"

definition ab_allow :: "int \<Rightarrow> agent_breaker \<Rightarrow> agent_breaker \<times> bool" where
  "ab_allow now cb =
     (case opened_at cb of
        None \<Rightarrow> (cb, True)
      | Some t \<Rightarrow>
          if ab_reset_timeout cb \<le> since now t
          then (cb\<lparr>opened_at := None, consecutive_failures := 0\<rparr>, True)
          else (cb, False))"

definition ab_record_success :: "agent_breaker \<Rightarrow> agent_breaker" where
  "ab_record_success cb = cb\<lparr>consecutive_failures := 0, opened_at := None\<rparr>"

definition ab_record_failure_for :: "int \<Rightarrow> go_error option \<Rightarrow> agent_breaker \<Rightarrow> agent_breaker" where
  "ab_record_failure_for now err cb =
     (if err \<noteq> None \<and> \<not> should_trip_circuit_breaker err then cb
      else (let cb = cb\<lparr>consecutive_failures := consecutive_failures cb + 1\<rparr>
            in if failure_threshold cb \<le> consecutive_failures cb \<and> opened_at cb = None
               then cb\<lparr>opened_at := Some now\<rparr> else cb))"

definition ab_record_failure :: "int \<Rightarrow> agent_breaker \<Rightarrow> agent_breaker" where
  "ab_record_failure now cb = ab_record_failure_for now None cb"

text \<open>Every method accepts the nil breaker, which admits everything and records nothing.\<close>

definition ab_allow_opt :: "int \<Rightarrow> agent_breaker option \<Rightarrow> agent_breaker option \<times> bool" where
  "ab_allow_opt now cb =
     (case cb of None \<Rightarrow> (None, True) | Some b \<Rightarrow> apfst Some (ab_allow now b))"

definition ab_inv :: "agent_breaker \<Rightarrow> bool" where
  "ab_inv cb \<longleftrightarrow> 1 \<le> failure_threshold cb \<and> 0 < ab_reset_timeout cb \<and> 0 \<le> consecutive_failures cb \<and>
     (opened_at cb = None \<longrightarrow> consecutive_failures cb < failure_threshold cb)"

lemma ab_inv_option: "ab_inv cb \<Longrightarrow> consecutive_failures cb = 0 \<Longrightarrow>
    ab_inv (ab_apply_option cb opt) \<and> consecutive_failures (ab_apply_option cb opt) = 0"
  by (cases "(cb, opt)" rule: ab_apply_option.cases) (auto simp: ab_inv_def)

lemma ab_inv_new [inv_intros]: "ab_inv (new_agent_breaker name opts)"
proof -
  have "ab_inv cb \<and> consecutive_failures cb = 0 \<Longrightarrow> ab_inv (foldl ab_apply_option cb opts)" for cb
    by (induction opts arbitrary: cb) (auto simp: ab_inv_option)
  then show ?thesis by (simp add: new_agent_breaker_def ab_inv_def)
qed

lemma ab_inv_allow [inv_intros]: "ab_inv cb \<Longrightarrow> ab_inv (fst (ab_allow now cb))"
  by (auto simp: ab_inv_def ab_allow_def split: option.split)

lemma ab_inv_success [inv_intros]: "ab_inv cb \<Longrightarrow> ab_inv (ab_record_success cb)"
  by (auto simp: ab_inv_def ab_record_success_def)

lemma ab_inv_failure [inv_intros]: "ab_inv cb \<Longrightarrow> ab_inv (ab_record_failure_for now e cb)"
  by (auto simp: ab_inv_def ab_record_failure_for_def Let_def)

definition ab_expired :: "agent_breaker \<Rightarrow> int \<Rightarrow> int \<Rightarrow> bool" where
  "ab_expired cb now t \<longleftrightarrow> ab_reset_timeout cb \<le> since now t"

definition ab_trips :: "go_error option \<Rightarrow> bool" where
  "ab_trips e \<longleftrightarrow> e = None \<or> should_trip_circuit_breaker e"

definition ab_fails_left :: "agent_breaker \<Rightarrow> nat" where
  "ab_fails_left cb = nat (failure_threshold cb - consecutive_failures cb - 1)"

lemmas ab_defs = ab_allow_def ab_record_success_def ab_record_failure_for_def ab_expired_def
  ab_trips_def ab_fails_left_def ab_inv_def Let_def

interpretation ab: admission_gate ab_inv opened_at ab_expired ab_allow ab_record_failure_for
  ab_record_success ab_trips ab_fails_left
proof (standard, goal_cases)
  case (1 b now) then show ?case by (auto simp: ab_defs split: option.splits)
next
  case (2 b now) then show ?case by (auto simp: ab_defs split: option.splits if_splits)
next
  case (3 b now) then show ?case by (auto simp: ab_defs split: option.splits if_splits)
qed (auto simp: ab_defs split: option.splits if_splits)

text \<open>
  The agent's breaker opens after at most as many failures in a row as its threshold (5 by
  default), where a failure reported without an error counts too; while open it rejects every
  request strictly before the reset timeout without changing, and at the timeout it admits again
  and starts from zero.
\<close>

theorem agent_breaker_cycle:
  assumes "ab_inv b" and "opened_at b = None"
    and "\<forall>(t, e) \<in> set fs. ab_trips e"
    and "failure_threshold b - consecutive_failures b \<le> int (length fs)"
  shows "\<exists>t. opened_at (ab.fail_all fs b) = Some t
           \<and> (\<forall>now. since now t < ab_reset_timeout (ab.fail_all fs b) \<longrightarrow>
                 ab_allow now (ab.fail_all fs b) = (ab.fail_all fs b, False))
           \<and> (\<forall>now. ab_reset_timeout (ab.fail_all fs b) \<le> since now t \<longrightarrow>
                 ab_allow now (ab.fail_all fs b) =
                   ((ab.fail_all fs b)\<lparr>opened_at := None, consecutive_failures := 0\<rparr>, True))"
proof -
  have "ab_fails_left b < length fs"
    using assms(1,2,4) by (auto simp: ab_fails_left_def ab_inv_def)
  with assms(1,3) obtain t where t: "opened_at (ab.fail_all fs b) = Some t"
    using ab.enough_failures_open by blast
  have "ab_inv (ab.fail_all fs b)" using assms(1) by (rule ab.invar_fail_all)
  from ab.rejects [OF this t] t show ?thesis
    by (auto simp: ab_expired_def ab_allow_def not_le)
qed

theorem agent_breaker_cycle_witness:
  "\<exists>t. opened_at (ab.fail_all (replicate 5 (3, None)) (new_agent_breaker ''search'' [])) = Some t"
proof -
  have "\<exists>t. opened_at (ab.fail_all (replicate 5 (3, None)) (new_agent_breaker ''search'' [])) = Some t
           \<and> (\<forall>now. since now t < ab_reset_timeout (ab.fail_all (replicate 5 (3, None)) (new_agent_breaker ''search'' [])) \<longrightarrow>
                 ab_allow now (ab.fail_all (replicate 5 (3, None)) (new_agent_breaker ''search'' [])) = (ab.fail_all (replicate 5 (3, None)) (new_agent_breaker ''search'' []), False))
           \<and> (\<forall>now. ab_reset_timeout (ab.fail_all (replicate 5 (3, None)) (new_agent_breaker ''search'' [])) \<le> since now t \<longrightarrow>
                 ab_allow now (ab.fail_all (replicate 5 (3, None)) (new_agent_breaker ''search'' [])) =
                   ((ab.fail_all (replicate 5 (3, None)) (new_agent_breaker ''search'' []))\<lparr>opened_at := None, consecutive_failures := 0\<rparr>, True))"
    by (rule agent_breaker_cycle)
      (simp_all add: inv_intros ab_trips_def, simp_all add: new_agent_breaker_def)
  then show ?thesis by blast
qed

section \<open>Adaptive concurrency\<close>

record concurrency_controller =
  cc_current :: int
  cc_min :: int
  cc_max :: int
  per_provider :: "int dict"

definition new_concurrency_controller :: "int \<Rightarrow> int \<Rightarrow> int \<Rightarrow> concurrency_controller" where
  "new_concurrency_controller initial mn mx =
     (let mn = (if mn \<le> 0 then 1 else mn);
          mx = (if mx < mn then mn else mx);
          initial = (if initial < mn then mn else initial);
          initial = (if mx < initial then mx else initial)
      in \<lparr>cc_current = initial, cc_min = mn, cc_max = mx,
          per_provider = [(''semantic-scholar'', 3), (''openalex'', 10), (''pubmed'', 2)]\<rparr>)"

definition cc_record_success :: "concurrency_controller \<Rightarrow> concurrency_controller" where
  "cc_record_success c = (if cc_current c < cc_max c then c\<lparr>cc_current := cc_current c + 1\<rparr> else c)"

definition cc_record_failure :: "concurrency_controller \<Rightarrow> concurrency_controller" where
  "cc_record_failure c =
     (let next = quot (cc_current c) 2
      in c\<lparr>cc_current := (if next < cc_min c then cc_min c else next)\<rparr>)"

definition provider_limit :: "concurrency_controller \<Rightarrow> string \<Rightarrow> int" where
  "provider_limit c p = (case dict_get (per_provider c) p of Some l \<Rightarrow> l | None \<Rightarrow> cc_current c)"

definition cc_inv :: "concurrency_controller \<Rightarrow> bool" where
  "cc_inv c \<longleftrightarrow> 1 \<le> cc_min c \<and> cc_min c \<le> cc_current c \<and> cc_current c \<le> cc_max c"

text \<open>A run of outcomes, in the order the agent records them: True is a success.\<close>

definition cc_run :: "bool list \<Rightarrow> concurrency_controller \<Rightarrow> concurrency_controller" where
  "cc_run outcomes c =
     fold (\<lambda>ok c. if ok then cc_record_success c else cc_record_failure c) outcomes c"

lemma cc_inv_new [inv_intros]: "cc_inv (new_concurrency_controller i mn mx)"
  by (auto simp: cc_inv_def new_concurrency_controller_def Let_def)

lemma cc_inv_success [inv_intros]: "cc_inv c \<Longrightarrow> cc_inv (cc_record_success c)"
  by (auto simp: cc_inv_def cc_record_success_def)

lemma cc_inv_failure [inv_intros]: "cc_inv c \<Longrightarrow> cc_inv (cc_record_failure c)"
  by (auto simp: cc_inv_def cc_record_failure_def Let_def)

lemma cc_inv_run [inv_intros]: "cc_inv c \<Longrightarrow> cc_inv (cc_run outcomes c)"
  unfolding cc_run_def by (induction outcomes arbitrary: c) (auto intro: inv_intros)

lemma cc_frame [simp]:
  "cc_min (cc_run os c) = cc_min c" "cc_max (cc_run os c) = cc_max c"
  "per_provider (cc_run os c) = per_provider c"
  unfolding cc_run_def
  by (induction os arbitrary: c; simp add: cc_record_success_def cc_record_failure_def Let_def)+

lemma cc_successes_reach_max:
  "cc_inv c \<Longrightarrow> cc_current (cc_run (replicate n True) c) = min (cc_max c) (cc_current c + int n)"
  unfolding cc_run_def
  by (induction n arbitrary: c) (auto simp: cc_record_success_def cc_inv_def)

lemma cc_failures_halve:
  "cc_inv c \<Longrightarrow> cc_current (cc_run (replicate n False) c) \<le> max (cc_min c) (cc_current c div 2 ^ n)"
proof (induction n arbitrary: c)
  case 0
  then show ?case by (simp add: cc_run_def)
next
  case (Suc n)
  let ?c = "cc_record_failure c"
  have cur: "cc_current ?c = max (cc_min c) (cc_current c div 2)" and "cc_min ?c = cc_min c"
    using Suc.prems by (auto simp: cc_record_failure_def cc_inv_def Let_def)
  moreover have "cc_run (replicate (Suc n) False) c = cc_run (replicate n False) ?c"
    by (simp add: cc_run_def)
  moreover have "cc_current ?c div 2 ^ n \<le> max (cc_min c) (cc_current c div 2 ^ Suc n)"
  proof (cases "cc_min c \<le> cc_current c div 2")
    case True
    then show ?thesis by (simp add: cur zdiv_zmult2_eq [symmetric] mult.commute max_def)
  next
    case False
    then have "cc_current ?c div 2 ^ n = cc_min c div 2 ^ n" by (simp add: cur)
    also have "\<dots> \<le> cc_min c" using Suc.prems
      by (metis cc_inv_def div_by_1 one_le_power zdiv_mono2 one_le_numeral zero_less_one
          order_trans zero_le_one)
    finally show ?thesis by simp
  qed
  ultimately show ?case using Suc.IH [of ?c] cc_inv_failure [OF Suc.prems] by force
qed

text \<open>
  The parallelism of the agent always stays between its bounds, from whatever values it was
  configured with and after any sequence of recorded successes and failures; enough successes in
  a row bring it to the maximum, and each failure at least halves it down to the minimum.
\<close>

theorem concurrency_bounded:
  "let c = cc_run outcomes (new_concurrency_controller i mn mx)
   in 1 \<le> cc_min c \<and> cc_min c \<le> cc_current c \<and> cc_current c \<le> cc_max c
      \<and> cc_current (cc_run (replicate n True) c) = min (cc_max c) (cc_current c + int n)
      \<and> cc_current (cc_run (replicate n False) c) \<le> max (cc_min c) (cc_current c div 2 ^ n)"
proof -
  let ?c = "cc_run outcomes (new_concurrency_controller i mn mx)"
  have inv: "cc_inv ?c" by (intro inv_intros)
  then show ?thesis
    using cc_successes_reach_max [OF inv, of n] cc_failures_halve [OF inv, of n]
    unfolding Let_def by (auto simp only: cc_inv_def)
qed

lemma provider_limit_fixed: "provider_limit c p = cc_current c \<or> (p, provider_limit c p) \<in> set (per_provider c)"
  by (auto simp: provider_limit_def split: option.split dest: map_of_SomeD)

end
