(* ===== verification/Retry.thy ===== *)
theory Retry
  imports Prelude
begin

text \<open>
  \<open>orchestrator/internal/resilience/retry.go\<close>: the bounded-retry helper. The attempt function,
  the context and the random source are the caller's; a run is given by the record \<open>retry_env\<close>
  that says what each of them answers at each try. Delays are \<open>time.Duration\<close>, 64-bit integers
  of nanoseconds, and their doubling wraps as in Go.
\<close>

record retry_policy =
  max_attempts :: int
  base_delay :: int
  max_delay :: int

definition normalized :: "retry_policy \<Rightarrow> retry_policy" where
  "normalized p =
     (let p = (if max_attempts p < 1 then p\<lparr>max_attempts := 1\<rparr> else p);
          p = (if base_delay p \<le> 0 then p\<lparr>base_delay := 250 * millisecond\<rparr> else p)
      in if max_delay p < base_delay p then p\<lparr>max_delay := base_delay p\<rparr> else p)"

text \<open>The loop \<open>for i := 1; i < attempt && delay < p.MaxDelay; i++\<close> makes at most \<open>n\<close> doublings.\<close>

fun doublings :: "nat \<Rightarrow> int \<Rightarrow> int \<Rightarrow> int" where
  "doublings 0 limit delay = delay"
| "doublings (Suc n) limit delay =
     (if delay < limit then doublings n limit (s64 (delay * 2)) else delay)"

definition capped_delay :: "retry_policy \<Rightarrow> int \<Rightarrow> int" where
  "capped_delay p attempt =
     (let delay = doublings (nat (attempt - 1)) (max_delay p) (base_delay p)
      in if max_delay p < delay then max_delay p else delay)"

text \<open>\<open>rnd n\<close> is \<open>rand.Int63n(n)\<close>.\<close>

definition backoff_delay :: "retry_policy \<Rightarrow> int \<Rightarrow> (int \<Rightarrow> int) \<Rightarrow> int" where
  "backoff_delay p attempt rnd =
     (let delay = capped_delay p attempt; half = quot delay 2
      in if half \<le> 0 then delay else half + rnd (half + 1))"

record attempt_result =
  retryable :: bool
  attempt_err :: "go_error option"

record retry_env =
  ctx_before :: "int \<Rightarrow> go_error option"
  attempt_at :: "int \<Rightarrow> attempt_result"
  ctx_after :: "int \<Rightarrow> go_error option"
  ctx_backoff :: "int \<Rightarrow> go_error option"
  rand_at :: "int \<Rightarrow> int \<Rightarrow> int"

record retry_outcome =
  retry_err :: "go_error option"
  attempts_made :: int
  sleeps :: "int list"

text \<open>
  The loop with \<open>k\<close> tries left, the next of them number \<open>try\<close>: the number of attempts made and
  the delays slept are recorded for the properties.
\<close>

fun retry_loop :: "retry_env \<Rightarrow> retry_policy \<Rightarrow> nat \<Rightarrow> int \<Rightarrow> go_error option \<Rightarrow> retry_outcome" where
  "retry_loop env p 0 try last_err = \<lparr>retry_err = last_err, attempts_made = try - 1, sleeps = []\<rparr>"
| "retry_loop env p (Suc k) try last_err =
     (case ctx_before env try of
        Some e \<Rightarrow> \<lparr>retry_err = Some e, attempts_made = try - 1, sleeps = []\<rparr>
      | None \<Rightarrow>
         (case attempt_err (attempt_at env try) of
            None \<Rightarrow> \<lparr>retry_err = None, attempts_made = try, sleeps = []\<rparr>
          | Some err \<Rightarrow>
              if \<not> retryable (attempt_at env try) \<or> try = max_attempts p \<or> ctx_after env try \<noteq> None
              then \<lparr>retry_err = (case ctx_after env try of Some e \<Rightarrow> Some e | None \<Rightarrow> Some err),
                    attempts_made = try, sleeps = []\<rparr>
              else
                (let delay = backoff_delay p try (rand_at env try)
                 in case ctx_backoff env try of
                      Some e \<Rightarrow> \<lparr>retry_err = Some e, attempts_made = try, sleeps = [delay]\<rparr>
                    | None \<Rightarrow>
                        (let r = retry_loop env p k (try + 1) (Some err)
                         in r\<lparr>sleeps := delay # sleeps r\<rparr>))))"

definition retry :: "retry_env \<Rightarrow> retry_policy \<Rightarrow> retry_outcome" where
  "retry env p =
     (let p = normalized p in retry_loop env p (nat (max_attempts p)) 1 None)"

section \<open>Delays\<close>

lemma normalized_bounds:
  "1 \<le> max_attempts (normalized p)" "0 < base_delay (normalized p)"
  "base_delay (normalized p) \<le> max_delay (normalized p)"
  by (auto simp: normalized_def Let_def)

lemma doublings_small:
  assumes "0 < d" and "d \<le> limit" and "limit \<le> 4611686018427387904"
  shows "min limit (doublings n limit d) = min limit (d * 2 ^ n)
         \<and> 0 < doublings n limit d \<and> doublings n limit d \<le> 2 * limit"
  using assms(1,2)
proof (induction n arbitrary: d)
  case 0
  then show ?case using assms(3) by simp
next
  case (Suc n)
  show ?case
  proof (cases "d < limit")
    case False
    with Suc.prems have "d = limit" by simp
    moreover have "limit * 1 \<le> limit * 2 ^ Suc n"
      using Suc.prems by (intro mult_left_mono one_le_power) auto
    ultimately show ?thesis using Suc.prems by (simp add: min_def)
  next
    case True
    then have s: "s64 (d * 2) = d * 2" using Suc.prems assms(3) by (simp add: in_i64_def)
    show ?thesis
    proof (cases "d * 2 \<le> limit")
      case True
      with Suc.IH [of "d * 2"] Suc.prems s \<open>d < limit\<close> show ?thesis by (simp add: ac_simps)
    next
      case False
      then have stop: "doublings n limit (d * 2) = d * 2" by (cases n) auto
      have "limit \<le> d * 2 * 2 ^ n" using False Suc.prems
        by (smt (verit) mult_le_cancel_left1 one_le_power)
      then show ?thesis using False \<open>d < limit\<close> s stop Suc.prems by (simp add: ac_simps)
    qed
  qed
qed

lemma capped_delay_formula:
  assumes "0 < base_delay p" "base_delay p \<le> max_delay p" "max_delay p \<le> 4611686018427387904"
  shows "capped_delay p attempt = min (max_delay p) (base_delay p * 2 ^ nat (attempt - 1))"
  using conjunct1 [OF doublings_small [OF assms, of "nat (attempt - 1)"]]
  by (simp add: capped_delay_def Let_def min_def split: if_splits)

definition rand_ok :: "(int \<Rightarrow> int) \<Rightarrow> bool" where
  "rand_ok rnd \<longleftrightarrow> (\<forall>n > 0. 0 \<le> rnd n \<and> rnd n < n)"

text \<open>
  C15. The sleep after failed attempt \<open>n\<close> is what the policy documents, as long as the random source
  answers below its bound: with \<open>D\<close> the base delay
  doubled \<open>n - 1\<close> times and capped at the maximal delay, the jittered sleep lies between half of
  \<open>D\<close> and \<open>D\<close>, and is positive. This holds for every policy whose maximal delay is at most
  \<open>2^62\<close> nanoseconds (146 years), the point from which the doubling can wrap around.
\<close>

theorem backoff_documented:
  fixes p attempt rnd
  defines "D \<equiv> min (max_delay (normalized p)) (base_delay (normalized p) * 2 ^ nat (attempt - 1))"
  assumes "max_delay (normalized p) \<le> 4611686018427387904" and "rand_ok rnd"
  shows "D div 2 \<le> backoff_delay (normalized p) attempt rnd
         \<and> backoff_delay (normalized p) attempt rnd \<le> D
         \<and> 0 < backoff_delay (normalized p) attempt rnd"
proof -
  have c: "capped_delay (normalized p) attempt = D"
    unfolding D_def by (rule capped_delay_formula) (use normalized_bounds assms(2) in auto)
  have "0 < D" using normalized_bounds [of p] by (simp add: D_def)
  moreover have "0 \<le> rnd (D div 2 + 1) \<and> rnd (D div 2 + 1) < D div 2 + 1"
    using assms(3) [unfolded rand_ok_def, rule_format, of "D div 2 + 1"] \<open>0 < D\<close> by linarith
  ultimately show ?thesis by (auto simp: backoff_delay_def c Let_def)
qed

theorem backoff_documented_witness:
  "backoff_delay (normalized \<lparr>max_attempts = 4, base_delay = 100, max_delay = 1000\<rparr>) 3 (\<lambda>n. n div 2) \<le> 400"
proof -
  have "rand_ok (\<lambda>n. n div 2)" unfolding rand_ok_def by presburger
  then show ?thesis
    using backoff_documented [of "\<lparr>max_attempts = 4, base_delay = 100, max_delay = 1000\<rparr>" "\<lambda>n. n div 2" 3]
    by (simp add: normalized_def)
qed

text \<open>Past that bound the doubling wraps: the documented cap is missed and the sleep is negative.\<close>

lemma backoff_wraps:
  "backoff_delay \<lparr>max_attempts = 3, base_delay = 4611686018427387905, max_delay = 9223372036854775807\<rparr> 2 rnd
     = - 9223372036854775806"
  by (simp add: backoff_delay_def capped_delay_def s64_def quot_def numeral_2_eq_2)

section \<open>The loop\<close>

definition failed_retryably :: "retry_env \<Rightarrow> int \<Rightarrow> bool" where
  "failed_retryably env i \<longleftrightarrow> ctx_before env i = None \<and> attempt_err (attempt_at env i) \<noteq> None \<and>
     retryable (attempt_at env i) \<and> ctx_after env i = None"

text \<open>
  The two ways a run from attempt \<open>from\<close> on comes to its end after attempt \<open>n\<close> of at most \<open>m\<close>:
  the attempt itself is the last one, or the context stops the run between two attempts, while
  it sleeps or right before the next one.
\<close>

definition ended_by_attempt :: "retry_env \<Rightarrow> int \<Rightarrow> int \<Rightarrow> go_error option \<Rightarrow> bool" where
  "ended_by_attempt env m n err \<longleftrightarrow> ctx_before env n = None
     \<and> (case attempt_err (attempt_at env n) of
          None \<Rightarrow> err = None
        | Some e \<Rightarrow> (\<not> retryable (attempt_at env n) \<or> n = m \<or> ctx_after env n \<noteq> None)
                    \<and> err = (case ctx_after env n of Some c \<Rightarrow> Some c | None \<Rightarrow> Some e))"

definition ended_by_context :: "retry_env \<Rightarrow> int \<Rightarrow> int \<Rightarrow> int \<Rightarrow> go_error option \<Rightarrow> bool" where
  "ended_by_context env m from n err \<longleftrightarrow> n < m \<and> (from \<le> n \<longrightarrow> failed_retryably env n) \<and> err \<noteq> None
     \<and> (if from \<le> n \<and> ctx_backoff env n \<noteq> None then err = ctx_backoff env n else err = ctx_before env (n + 1))"

definition retry_spec :: "retry_env \<Rightarrow> retry_policy \<Rightarrow> int \<Rightarrow> retry_outcome \<Rightarrow> bool" where
  "retry_spec env p from r \<longleftrightarrow>
     (let n = attempts_made r; slept = int (length (sleeps r)) in
        from - 1 \<le> n \<and> n \<le> max_attempts p
        \<and> (\<forall>i \<in> {from..<n}. failed_retryably env i \<and> ctx_backoff env i = None)
        \<and> (retry_err r = None \<longleftrightarrow> from \<le> n \<and> attempt_err (attempt_at env n) = None)
        \<and> (slept = n - from \<and> ended_by_attempt env (max_attempts p) n (retry_err r)
           \<or> slept = n - from + 1 \<and> ended_by_context env (max_attempts p) from n (retry_err r))
        \<and> sleeps r = map (\<lambda>i. backoff_delay p i (rand_at env i)) [from..from + slept - 1])"

lemma retry_spec_Cons:
  assumes "retry_spec env p (try + 1) r" and "failed_retryably env try" and "ctx_backoff env try = None"
  shows "retry_spec env p try (r\<lparr>sleeps := backoff_delay p try (rand_at env try) # sleeps r\<rparr>)"
proof -
  let ?n = "attempts_made r"
  have n: "try \<le> ?n" using assms(1) by (simp add: retry_spec_def Let_def)
  have up: "[try..try + int (length (sleeps r))] = try # [try + 1..try + int (length (sleeps r))]"
    by (rule upto_rec1) simp
  have "retry_err r = None \<longleftrightarrow> try \<le> ?n \<and> attempt_err (attempt_at env ?n) = None"
    using assms(1,2) n by (cases "?n = try") (auto simp: retry_spec_def failed_retryably_def Let_def)
  moreover have "\<forall>i \<in> {try..<?n}. failed_retryably env i \<and> ctx_backoff env i = None"
    using assms by (auto simp: retry_spec_def Let_def) (metis add1_zle_eq atLeastLessThan_iff order_le_less)+
  moreover have "ended_by_context env m (try + 1) ?n e \<Longrightarrow> ended_by_context env m try ?n e" for m e
    using assms(2,3) n by (cases "?n = try") (auto simp: ended_by_context_def)
  ultimately show ?thesis
    using assms(1) n up by (auto simp: retry_spec_def Let_def ac_simps)
qed

lemma retry_loop_spec:
  assumes "try + int k = max_attempts p + 1" "k \<noteq> 0"
  shows "retry_spec env p try (retry_loop env p k try le)"
  using assms
proof (induction env p k "try" le rule: retry_loop.induct)
  case (1 env p "try" le)
  then show ?case by simp
next
  case (2 env p k "try" le)
  consider (before) e where "ctx_before env try = Some e"
    | (ok) "ctx_before env try = None" "attempt_err (attempt_at env try) = None"
    | (stop) err where "ctx_before env try = None" "attempt_err (attempt_at env try) = Some err"
        "\<not> retryable (attempt_at env try) \<or> try = max_attempts p \<or> ctx_after env try \<noteq> None"
    | (cut) err e where "ctx_before env try = None" "attempt_err (attempt_at env try) = Some err"
        "\<not> (\<not> retryable (attempt_at env try) \<or> try = max_attempts p \<or> ctx_after env try \<noteq> None)"
        "ctx_backoff env try = Some e"
    | (again) err where "ctx_before env try = None" "attempt_err (attempt_at env try) = Some err"
        "\<not> (\<not> retryable (attempt_at env try) \<or> try = max_attempts p \<or> ctx_after env try \<noteq> None)"
        "ctx_backoff env try = None"
    by (cases "ctx_before env try"; cases "attempt_err (attempt_at env try)";
        cases "ctx_backoff env try";
        cases "\<not> retryable (attempt_at env try) \<or> try = max_attempts p \<or> ctx_after env try \<noteq> None") simp_all
  then show ?case
  proof cases
    case again
    then have "k \<noteq> 0" using "2.prems"(1) by (cases k) auto
    with "2.IH" [OF again(1,2,3) refl again(4)] "2.prems"(1)
    have "retry_spec env p (try + 1) (retry_loop env p k (try + 1) (Some err))" by simp
    from retry_spec_Cons [OF this _ again(4)] again show ?thesis
      by (simp add: failed_retryably_def Let_def)
  qed (use "2.prems" in \<open>auto simp: retry_spec_def ended_by_attempt_def ended_by_context_def failed_retryably_def Let_def split: option.split\<close>)
qed

text \<open>
  C17. A retried operation makes at most \<open>MaxAttempts\<close> attempts (one for an unset policy); it
  reports success exactly when its last attempt succeeded; each earlier attempt was a retryable
  failure, so a non-retryable failure is never retried. It sleeps after every attempt but the
  last, each time for the back-off delay of that attempt, and ends in one of two ways. Either
  the last attempt ends it, with no sleep after it: it succeeded, or it failed and was not
  retryable, was the last one allowed or left an ended context, whose error goes before the
  attempt's. Or the context ends it between two attempts with attempts left: while it sleeps
  after a retryable failure, or before the next attempt; then the context's error is reported.
\<close>

theorem retry_bounded_and_exact:
  "let r = retry env p; n = attempts_made r; slept = int (length (sleeps r)); m = max 1 (max_attempts p) in
     0 \<le> n \<and> n \<le> m
     \<and> (\<forall>i \<in> {1..<n}. failed_retryably env i \<and> ctx_backoff env i = None)
     \<and> (retry_err r = None \<longleftrightarrow> 1 \<le> n \<and> attempt_err (attempt_at env n) = None)
     \<and> (slept = n - 1 \<and> ended_by_attempt env m n (retry_err r)
        \<or> slept = n \<and> ended_by_context env m 1 n (retry_err r))
     \<and> sleeps r = map (\<lambda>i. backoff_delay (normalized p) i (rand_at env i)) [1..slept]"
proof -
  have "retry_spec env (normalized p) 1 (retry env p)"
    using normalized_bounds(1) [of p] by (simp add: retry_def Let_def retry_loop_spec)
  moreover have "max_attempts (normalized p) = max 1 (max_attempts p)"
    by (simp add: normalized_def Let_def)
  ultimately show ?thesis by (auto simp: retry_spec_def Let_def)
qed

text \<open>A run that recovers on its third attempt after two retryable failures.\<close>

theorem retry_bounded_and_exact_witness:
  "let env = \<lparr>ctx_before = \<lambda>_. None,
              attempt_at = \<lambda>i. \<lparr>retryable = True, attempt_err = (if i < 3 then Some (new_error ''503'') else None)\<rparr>,
              ctx_after = \<lambda>_. None, ctx_backoff = \<lambda>_. None, rand_at = \<lambda>_ n. 0\<rparr>;
       r = retry env \<lparr>max_attempts = 5, base_delay = 100, max_delay = 300\<rparr>
   in attempts_made r = 3 \<and> sleeps r = [50, 100] \<and>
      (\<forall>i \<in> {1..<3}. failed_retryably env i)"
proof -
  let ?env = "\<lparr>ctx_before = \<lambda>_. None,
              attempt_at = \<lambda>i. \<lparr>retryable = True, attempt_err = (if i < 3 then Some (new_error ''503'') else None)\<rparr>,
              ctx_after = \<lambda>_. None, ctx_backoff = \<lambda>_. None, rand_at = \<lambda>_ n. 0\<rparr>"
  let ?p = "\<lparr>max_attempts = 5, base_delay = 100, max_delay = 300\<rparr>"
  have run: "attempts_made (retry ?env ?p) = 3" "sleeps (retry ?env ?p) = [50, 100]"
    by code_simp+
  with retry_bounded_and_exact [of ?env ?p] show ?thesis by (auto simp: Let_def)
qed

end
