(* ===== verification/Governor.thy ===== *)
theory Governor
  imports Prelude
begin

text \<open>
  \<open>orchestrator/internal/resilience/governor.go\<close>: admission control. Every method holds
  \<open>g.mu\<close> for its whole body. \<open>TryAcquire\<close> returns a closure guarded by a \<open>sync.Once\<close>: here it
  returns a ticket, and \<open>release\<close> of a ticket that has already fired does nothing. Memory sizes
  are Go's \<open>uint64\<close>. The monitor goroutine only calls \<open>UpdateHealth\<close> at its ticks; what the
  Go runtime reports at a tick is the argument of \<open>update_health\<close>. Logging is left out, but the
  status it last logged is kept.
\<close>

record system_health =
  memory_usage :: "64 word"
  goroutines :: int
  status :: string

record resource_governor =
  health :: system_health
  max_memory :: "64 word"
  max_routines :: int
  max_active_tasks :: int
  active_tasks :: int
  poll_interval :: int
  last_log_status :: string

definition new_governor_with_limits :: "64 word \<Rightarrow> int \<Rightarrow> int \<Rightarrow> int \<Rightarrow> resource_governor" where
  "new_governor_with_limits max_mem_mb mr ma interval =
     \<lparr>health = \<lparr>memory_usage = 0, goroutines = 0, status = ''''\<rparr>,
      max_memory = max_mem_mb * 1024 * 1024, max_routines = mr, max_active_tasks = ma,
      active_tasks = 0, poll_interval = interval, last_log_status = ''''\<rparr>"

definition new_governor_with_interval :: "64 word \<Rightarrow> int \<Rightarrow> int \<Rightarrow> resource_governor" where
  "new_governor_with_interval mb mr interval = new_governor_with_limits mb mr mr interval"

definition new_governor :: "64 word \<Rightarrow> int \<Rightarrow> resource_governor" where
  "new_governor mb mr = new_governor_with_interval mb mr (5 * second)"

definition set_status :: "string \<Rightarrow> resource_governor \<Rightarrow> resource_governor" where
  "set_status s g = g\<lparr>health := (health g)\<lparr>status := s\<rparr>\<rparr>"

definition admit_locked :: "string \<Rightarrow> resource_governor \<Rightarrow> go_error option" where
  "admit_locked task g =
     (if status (health g) = ''critical'' then
        Some (new_error (''system resources exhausted ('' @ status (health g) @
               ''), gracefully rejecting '' @ task @ '' load kind=system_overload''))
      else if 0 < max_active_tasks g \<and> max_active_tasks g \<le> active_tasks g then
        Some (new_error (''gracefully rejecting '' @ task @ '' load: active task limit reached ('' @
               itoa (active_tasks g) @ ''/'' @ itoa (max_active_tasks g) @ '') kind=system_overload''))
      else None)"

text \<open>
  A governor with its tickets: \<open>issued\<close> tickets are numbered from 0, and \<open>fired\<close> are those
  whose \<open>sync.Once\<close> has run.
\<close>

record governor_run =
  gov :: resource_governor
  issued :: nat
  fired :: "nat list"

definition try_acquire :: "string \<Rightarrow> governor_run \<Rightarrow> governor_run \<times> (go_error + nat)" where
  "try_acquire task s =
     (case admit_locked task (gov s) of
        Some e \<Rightarrow> (s, Inl e)
      | None \<Rightarrow> (s\<lparr>gov := (gov s)\<lparr>active_tasks := active_tasks (gov s) + 1\<rparr>, issued := Suc (issued s)\<rparr>,
                 Inr (issued s)))"

definition release :: "nat \<Rightarrow> governor_run \<Rightarrow> governor_run" where
  "release k s =
     (if k \<in> set (fired s) then s
      else s\<lparr>fired := k # fired s,
             gov := (if 0 < active_tasks (gov s)
                     then (gov s)\<lparr>active_tasks := active_tasks (gov s) - 1\<rparr> else gov s)\<rparr>)"

definition gov_admit :: "string \<Rightarrow> governor_run \<Rightarrow> governor_run \<times> go_error option" where
  "gov_admit task s =
     (case try_acquire task s of
        (s', Inl e) \<Rightarrow> (s', Some e)
      | (s', Inr k) \<Rightarrow> (release k s', None))"

definition update_health :: "64 word \<Rightarrow> int \<Rightarrow> resource_governor \<Rightarrow> resource_governor" where
  "update_health alloc routines g =
     (let h = (health g)\<lparr>memory_usage := alloc, goroutines := routines\<rparr>; prev = last_log_status g in
      if max_memory g < alloc \<or> max_routines g < routines then
        g\<lparr>health := h\<lparr>status := ''critical''\<rparr>,
          last_log_status := (if prev \<noteq> ''critical'' then ''critical'' else prev)\<rparr>
      else if max_memory g div 2 < alloc \<or> quot (max_routines g) 2 < routines then
        g\<lparr>health := h\<lparr>status := ''degraded''\<rparr>,
          last_log_status := (if prev \<noteq> ''degraded'' then ''degraded'' else prev)\<rparr>
      else g\<lparr>health := h\<lparr>status := ''healthy''\<rparr>, last_log_status := ''healthy''\<rparr>)"

section \<open>Interleaved tasks\<close>

text \<open>Any task may acquire, fire a ticket it was issued (even twice), or the monitor may tick.\<close>

inductive gov_step :: "governor_run \<Rightarrow> governor_run \<Rightarrow> bool" where
  acquire: "gov_step s (fst (try_acquire task s))"
| release: "k < issued s \<Longrightarrow> gov_step s (release k s)"
| admit: "gov_step s (fst (gov_admit task s))"
| tick: "gov_step s (s\<lparr>gov := update_health alloc routines (gov s)\<rparr>)"
| set_status: "gov_step s (s\<lparr>gov := set_status st (gov s)\<rparr>)"

inductive gov_reachable :: "governor_run \<Rightarrow> bool" where
  start: "gov_reachable \<lparr>gov = new_governor_with_limits mb mr ma interval, issued = 0, fired = []\<rparr>"
| step: "gov_reachable s \<Longrightarrow> gov_step s t \<Longrightarrow> gov_reachable t"

definition gov_inv :: "governor_run \<Rightarrow> bool" where
  "gov_inv s \<longleftrightarrow> distinct (fired s) \<and> set (fired s) \<subseteq> {..<issued s} \<and>
     active_tasks (gov s) = int (issued s) - int (length (fired s)) \<and>
     (0 < max_active_tasks (gov s) \<longrightarrow> active_tasks (gov s) \<le> max_active_tasks (gov s))"

lemma fired_bound: "gov_inv s \<Longrightarrow> k < issued s \<Longrightarrow> k \<notin> set (fired s) \<Longrightarrow> length (fired s) < issued s"
proof -
  assume a: "gov_inv s" "k < issued s" "k \<notin> set (fired s)"
  then have "insert k (set (fired s)) \<subseteq> {..<issued s}" by (auto simp: gov_inv_def)
  then have "card (insert k (set (fired s))) \<le> issued s"
    using card_mono [of "{..<issued s}"] by fastforce
  with a show ?thesis by (simp add: gov_inv_def distinct_card)
qed

lemma gov_inv_acquire [inv_intros]: "gov_inv s \<Longrightarrow> gov_inv (fst (try_acquire task s))"
  by (auto simp: gov_inv_def try_acquire_def admit_locked_def split: if_splits)

lemma gov_inv_release [inv_intros]: "gov_inv s \<Longrightarrow> k < issued s \<Longrightarrow> gov_inv (release k s)"
  using fired_bound [of s k] by (cases "k \<in> set (fired s)") (auto simp: gov_inv_def release_def)

lemma gov_inv_admit [inv_intros]: "gov_inv s \<Longrightarrow> gov_inv (fst (gov_admit task s))"
proof -
  assume a: "gov_inv s"
  have "snd (try_acquire task s) = Inr k \<Longrightarrow> k < issued (fst (try_acquire task s))" for k
    by (auto simp: try_acquire_def split: option.splits)
  with gov_inv_acquire [OF a, of task] show ?thesis
    by (auto simp: gov_admit_def intro: gov_inv_release split: prod.split sum.split)
qed

lemma gov_inv_frame [inv_intros]:
  "gov_inv s \<Longrightarrow> gov_inv (s\<lparr>gov := update_health alloc routines (gov s)\<rparr>)"
  "gov_inv s \<Longrightarrow> gov_inv (s\<lparr>gov := set_status st (gov s)\<rparr>)"
  by (auto simp: gov_inv_def update_health_def set_status_def Let_def)

lemma gov_reachable_inv: "gov_reachable s \<Longrightarrow> gov_inv s"
proof (induction rule: gov_reachable.induct)
  case (start mb mr ma interval)
  then show ?case by (simp add: gov_inv_def new_governor_with_limits_def)
next
  case (step s t)
  from step.hyps(2) step.IH show ?case by cases (auto intro: inv_intros)
qed

text \<open>
  The governor's count of active tasks is exact and bounded: in every state reachable by any
  interleaving of acquisitions, releases (each task may call its release more than once, only
  the first counts), admission probes and monitor ticks, it equals the number of issued tickets
  not yet released and never exceeds a positive task limit; and a task is refused exactly when
  the status is critical or the limit is reached.
\<close>

theorem governor_exact:
  assumes "gov_reachable s"
  shows "active_tasks (gov s) = int (card ({..<issued s} - set (fired s)))
         \<and> (0 < max_active_tasks (gov s) \<longrightarrow> active_tasks (gov s) \<le> max_active_tasks (gov s))
         \<and> (isl (snd (try_acquire task s)) \<longleftrightarrow> status (health (gov s)) = ''critical'' \<or>
              (0 < max_active_tasks (gov s) \<and> active_tasks (gov s) = max_active_tasks (gov s)))"
proof -
  have inv: "gov_inv s" using assms by (rule gov_reachable_inv)
  have "card ({..<issued s} - set (fired s)) = issued s - length (fired s)"
    using inv by (simp add: gov_inv_def card_Diff_subset distinct_card)
  moreover have "length (fired s) \<le> issued s"
    using inv card_mono [of "{..<issued s}" "set (fired s)"] by (simp add: gov_inv_def distinct_card)
  ultimately show ?thesis using inv
    by (auto simp: gov_inv_def try_acquire_def admit_locked_def of_nat_diff)
qed

text \<open>One task admitted under a limit of one: the next is refused.\<close>

theorem governor_exact_witness:
  "isl (snd (try_acquire ''search'' (fst (try_acquire ''search''
     \<lparr>gov = new_governor_with_limits 512 100 1 0, issued = 0, fired = []\<rparr>))))"
proof -
  let ?s = "\<lparr>gov = new_governor_with_limits 512 100 1 0, issued = 0, fired = []\<rparr>"
  have "gov_reachable (fst (try_acquire ''search'' ?s))"
    using gov_reachable.step [OF gov_reachable.start gov_step.acquire] .
  from governor_exact [OF this, of "''search''"] show ?thesis
    by (simp add: try_acquire_def admit_locked_def new_governor_with_limits_def)
qed

text \<open>
  \<open>UpdateHealth\<close> classifies the process by its thresholds, and the classification is what
  admission sees: above either limit the governor is critical and refuses every task, above half
  of a limit it is degraded, otherwise healthy; degraded and healthy do not refuse by themselves.
\<close>

theorem health_thresholds:
  "let g' = update_health alloc routines g in
     (status (health g') = ''critical'' \<longleftrightarrow> max_memory g < alloc \<or> max_routines g < routines)
     \<and> (status (health g') = ''healthy'' \<longleftrightarrow>
          \<not> (max_memory g < alloc \<or> max_routines g < routines) \<and>
          alloc \<le> max_memory g div 2 \<and> routines \<le> quot (max_routines g) 2)
     \<and> status (health g') \<in> {''critical'', ''degraded'', ''healthy''}
     \<and> last_log_status g' = status (health g')
     \<and> active_tasks g' = active_tasks g
     \<and> (max_active_tasks g \<le> 0 \<longrightarrow>
          (admit_locked task g' = None \<longleftrightarrow> status (health g') \<noteq> ''critical''))"
  by (auto simp: update_health_def admit_locked_def Let_def not_less)

theorem health_thresholds_witness:
  "admit_locked ''search'' (update_health (600 * 1024 * 1024) 10 (new_governor_with_limits 512 100 0 0)) \<noteq> None"
  using health_thresholds [of "600 * 1024 * 1024" 10 "new_governor_with_limits 512 100 0 0" "''search''"]
  by (simp add: Let_def new_governor_with_limits_def)

end
