(* ===== verification/TokenBudget.thy ===== *)
theory TokenBudget
  imports Prelude
begin

text \<open>
  \<open>orchestrator/internal/resilience/token_budget.go\<close>: per-request token accounting, the budget
  enforcer and the iteration budget of the agent loops. Token counts are Go's \<open>int\<close>, 64 bits, and
  their additions wrap. \<open>Report\<close> and \<open>LoopStatus\<close> only format text and are left out. The
  exceeded flag is atomic and is read outside the mutex by \<open>Allocate\<close>; it is only ever set, so
  one step per method loses no behaviour but a rejection that comes a moment later.
\<close>

record token_cost =
  search_api :: int
  llm_call :: int
  embedding_generation :: int
  rag_retrieval :: int
  claim_extraction :: int
  verification_check :: int

definition default_token_cost :: token_cost where
  "default_token_cost =
     \<lparr>search_api = 100, llm_call = 500, embedding_generation = 50, rag_retrieval = 150,
      claim_extraction = 300, verification_check = 250\<rparr>"

record token_budget =
  request_id :: string
  user_id :: string
  allocated_tokens :: int
  used_tokens :: int
  cost_per_op :: "int dict"
  start_time :: int
  tb_deadline :: int
  exceeded :: bool

definition new_token_budget :: "int \<Rightarrow> string \<Rightarrow> string \<Rightarrow> int \<Rightarrow> token_budget" where
  "new_token_budget now rid uid alloc =
     \<lparr>request_id = rid, user_id = uid, allocated_tokens = alloc, used_tokens = 0,
      cost_per_op = [(''search_api'', 100), (''llm_call'', 500), (''embedding_generation'', 50),
                     (''rag_retrieval'', 150), (''claim_extraction'', 300), (''verification_check'', 250)],
      start_time = now, tb_deadline = now + 300 * second, exceeded = False\<rparr>"

definition allocate :: "string \<Rightarrow> int \<Rightarrow> token_budget \<Rightarrow> token_budget \<times> go_error option" where
  "allocate op n tb =
     (if exceeded tb then (tb, Some (new_error (''budget exceeded for request '' @ request_id tb)))
      else if allocated_tokens tb < s64 (used_tokens tb + n) then
        (tb\<lparr>exceeded := True\<rparr>,
         Some (new_error (''insufficient budget: allocated='' @ itoa (allocated_tokens tb) @ '', used='' @
                          itoa (used_tokens tb) @ '', requested='' @ itoa n)))
      else (tb\<lparr>used_tokens := s64 (used_tokens tb + n)\<rparr>, None))"

definition allocate_operation :: "string \<Rightarrow> token_budget \<Rightarrow> token_budget \<times> go_error option" where
  "allocate_operation op tb =
     (case dict_get (cost_per_op tb) op of
        None \<Rightarrow> (tb, Some (new_error (''unknown operation type: '' @ op)))
      | Some cost \<Rightarrow> allocate op cost tb)"

definition record_usage :: "string \<Rightarrow> int \<Rightarrow> token_budget \<Rightarrow> token_budget \<times> go_error option" where
  "record_usage op tokens tb =
     (if allocated_tokens tb < s64 (used_tokens tb + tokens) then
        (tb\<lparr>exceeded := True\<rparr>,
         Some (new_error (''budget exceeded: '' @ itoa (used_tokens tb) @ '' + '' @ itoa tokens @ '' > '' @
                          itoa (allocated_tokens tb))))
      else (tb\<lparr>used_tokens := s64 (used_tokens tb + tokens)\<rparr>, None))"

definition consume_usage :: "string \<Rightarrow> int \<Rightarrow> token_budget \<Rightarrow> token_budget \<times> bool" where
  "consume_usage op tokens tb =
     (let tokens = (if tokens < 0 then 0 else tokens);
          tb = tb\<lparr>used_tokens := s64 (used_tokens tb + tokens)\<rparr>;
          tb = (if allocated_tokens tb \<le> used_tokens tb
                then tb\<lparr>used_tokens := allocated_tokens tb, exceeded := True\<rparr> else tb)
      in (tb, exceeded tb))"

definition remaining :: "token_budget \<Rightarrow> int" where
  "remaining tb = s64 (allocated_tokens tb - used_tokens tb)"

definition utilization :: "token_budget \<Rightarrow> real" where
  "utilization tb = (if allocated_tokens tb = 0 then 0
     else real_of_int (used_tokens tb) / real_of_int (allocated_tokens tb))"

definition usage_ratio :: "token_budget \<Rightarrow> real" where
  "usage_ratio tb = (if allocated_tokens tb \<le> 0 then 0
     else real_of_int (used_tokens tb) / real_of_int (allocated_tokens tb))"

definition elapsed_time :: "int \<Rightarrow> token_budget \<Rightarrow> int" where
  "elapsed_time now tb = since now (start_time tb)"

text \<open>
  \<open>ExecuteWithBudget\<close>: \<open>ctx_err\<close> is the context's error when it is looked at, \<open>res\<close> what the
  wrapped function returns if it runs; the last component says whether it ran.
\<close>

definition execute_with_budget ::
  "go_error option \<Rightarrow> int \<Rightarrow> string \<Rightarrow> go_error option \<Rightarrow> token_budget \<Rightarrow>
     token_budget \<times> go_error option \<times> bool" where
  "execute_with_budget ctx_err now op res tb =
     (case ctx_err of
        Some e \<Rightarrow> (tb, Some e, False)
      | None \<Rightarrow>
          if tb_deadline tb < now
          then (tb, Some (new_error (''deadline exceeded for request '' @ request_id tb)), False)
          else (case allocate_operation op tb of
                  (tb', Some e) \<Rightarrow> (tb', Some e, False)
                | (tb', None) \<Rightarrow> (tb', res, True)))"

section \<open>Accounting\<close>

text \<open>The three ways to spend, as one operation on the budget; the result says what was granted.\<close>

datatype spend = Allocate string int | RecordUsage string int | ConsumeUsage string int

fun spend_tokens :: "spend \<Rightarrow> int" where
  "spend_tokens (Allocate op n) = n"
| "spend_tokens (RecordUsage op n) = n"
| "spend_tokens (ConsumeUsage op n) = n"

fun do_spend :: "spend \<Rightarrow> token_budget \<Rightarrow> token_budget \<times> bool" where
  "do_spend (Allocate op n) tb = (let (tb', e) = allocate op n tb in (tb', e = None))"
| "do_spend (RecordUsage op n) tb = (let (tb', e) = record_usage op n tb in (tb', e = None))"
| "do_spend (ConsumeUsage op n) tb = (fst (consume_usage op n tb), True)"

fun spend_all :: "spend list \<Rightarrow> token_budget \<Rightarrow> token_budget \<times> int" where
  "spend_all [] tb = (tb, 0)"
| "spend_all (s # ss) tb =
     (let (tb', ok) = do_spend s tb; (tb'', granted) = spend_all ss tb'
      in (tb'', (if ok then spend_tokens s else 0) + granted))"

text \<open>Sizes at which no addition wraps: all counts non-negative and below \<open>2^62\<close>.\<close>

definition tame :: "spend \<Rightarrow> bool" where
  "tame s \<longleftrightarrow> 0 \<le> spend_tokens s \<and> spend_tokens s < 4611686018427387904"

definition tb_inv :: "token_budget \<Rightarrow> bool" where
  "tb_inv tb \<longleftrightarrow> 0 \<le> used_tokens tb \<and> used_tokens tb \<le> allocated_tokens tb \<and>
     allocated_tokens tb < 4611686018427387904"

lemma no_wrap: "tb_inv tb \<Longrightarrow> 0 \<le> n \<Longrightarrow> n < 4611686018427387904 \<Longrightarrow>
    s64 (used_tokens tb + n) = used_tokens tb + n"
  by (rule s64_id) (simp add: tb_inv_def in_i64_def)

lemma remaining_exact: "tb_inv tb \<Longrightarrow> remaining tb = allocated_tokens tb - used_tokens tb"
  by (simp add: remaining_def tb_inv_def in_i64_def)

lemma spend_step:
  assumes "tb_inv tb" and "tame s" and "do_spend s tb = (tb', ok)"
  shows "tb_inv tb' \<and> allocated_tokens tb' = allocated_tokens tb \<and>
     (ok \<longrightarrow> used_tokens tb' = min (allocated_tokens tb) (used_tokens tb + spend_tokens s)) \<and>
     (\<not> ok \<longrightarrow> used_tokens tb' = used_tokens tb \<and> exceeded tb') \<and>
     (exceeded tb \<longrightarrow> exceeded tb')"
proof -
  have "s64 (used_tokens tb + spend_tokens s) = used_tokens tb + spend_tokens s"
    using assms(1,2) by (simp add: no_wrap tame_def)
  then show ?thesis using assms
    by (cases s) (auto simp: tb_inv_def tame_def allocate_def record_usage_def consume_usage_def
        Let_def split: if_splits)
qed

lemma spend_all_inv:
  assumes "tb_inv tb" and "list_all tame ss" and "spend_all ss tb = (tb', granted)"
  shows "tb_inv tb' \<and> allocated_tokens tb' = allocated_tokens tb \<and> 0 \<le> granted \<and>
     used_tokens tb' = min (allocated_tokens tb) (used_tokens tb + granted) \<and>
     (exceeded tb \<longrightarrow> exceeded tb')"
  using assms
proof (induction ss arbitrary: tb granted)
  case Nil
  then show ?case by (simp add: tb_inv_def)
next
  case (Cons s ss)
  obtain tb1 ok where s: "do_spend s tb = (tb1, ok)" by force
  obtain g where ss: "spend_all ss tb1 = (tb', g)" and g: "granted = (if ok then spend_tokens s else 0) + g"
    using Cons.prems(3) by (auto simp: s split: prod.splits)
  have "tame s" using Cons.prems(2) by simp
  note st = spend_step [OF Cons.prems(1) this s]
  then have "tb_inv tb1" by simp
  from Cons.IH [OF this _ ss] Cons.prems(2) st show ?case
    using \<open>tame s\<close> by (auto simp: g tame_def)
qed

lemma spend_exceeded: "spend_all ss tb = (tb', g) \<Longrightarrow> exceeded tb \<Longrightarrow> exceeded tb'"
proof (induction ss arbitrary: tb g)
  case (Cons s ss)
  obtain tb1 ok where s: "do_spend s tb = (tb1, ok)" by force
  then have "exceeded tb1" using Cons.prems(2)
    by (cases s) (auto simp: allocate_def record_usage_def consume_usage_def Let_def split: if_splits)
  with Cons show ?case by (auto simp: s split: prod.splits)
qed simp

text \<open>
  A budget accounts exactly: after any sequence of reservations, recordings and post-hoc
  consumptions from a fresh budget (counts and allocation non-negative and below \<open>2^62\<close>), the
  used tokens are the sum of what was granted, clamped at the allocation, so they never exceed
  it; the remaining tokens are the rest and the utilisation is between 0 and 1; and once the
  budget is exceeded it stays so and every later reservation is refused and changes nothing.
\<close>

theorem budget_accounts_exactly:
  assumes "0 \<le> alloc" and "alloc < 4611686018427387904" and "list_all tame ss"
    and "spend_all ss (new_token_budget now rid uid alloc) = (tb, granted)"
  shows "used_tokens tb = min alloc granted
         \<and> remaining tb = alloc - min alloc granted
         \<and> 0 \<le> utilization tb \<and> utilization tb \<le> 1
         \<and> (exceeded tb \<longrightarrow> exceeded (fst (spend_all ss' tb))
              \<and> allocate op n tb = (tb, Some (new_error (''budget exceeded for request '' @ request_id tb))))"
proof -
  have "tb_inv (new_token_budget now rid uid alloc)"
    using assms(1,2) by (simp add: tb_inv_def new_token_budget_def)
  note fin = spend_all_inv [OF this assms(3,4)]
  then have "used_tokens tb = min alloc granted" "allocated_tokens tb = alloc" "tb_inv tb" "0 \<le> granted"
    using assms(1) by (simp_all add: new_token_budget_def)
  moreover from this have "0 \<le> utilization tb" "utilization tb \<le> 1"
    by (auto simp: utilization_def tb_inv_def divide_le_eq_1)
  moreover have "exceeded tb \<Longrightarrow> exceeded (fst (spend_all ss' tb))"
    by (cases "spend_all ss' tb") (auto dest: spend_exceeded)
  ultimately show ?thesis by (auto simp: remaining_exact allocate_def)
qed

theorem budget_accounts_exactly_witness:
  "used_tokens (fst (spend_all [Allocate ''llm_call'' 500, RecordUsage ''x'' 400, Allocate ''llm_call'' 500, ConsumeUsage ''y'' 90]
      (new_token_budget 0 ''r1'' ''u1'' 1000))) = min 1000 990"
proof -
  define r where "r = spend_all [Allocate ''llm_call'' 500, RecordUsage ''x'' 400, Allocate ''llm_call'' 500, ConsumeUsage ''y'' 90]
      (new_token_budget 0 ''r1'' ''u1'' 1000)"
  have g: "snd r = 990" unfolding r_def by code_simp
  have e: "spend_all [Allocate ''llm_call'' 500, RecordUsage ''x'' 400, Allocate ''llm_call'' 500, ConsumeUsage ''y'' 90]
      (new_token_budget 0 ''r1'' ''u1'' 1000) = (fst r, snd r)"
    by (simp add: r_def del: spend_all.simps)
  have t: "list_all tame [Allocate ''llm_call'' 500, RecordUsage ''x'' 400, Allocate ''llm_call'' 500, ConsumeUsage ''y'' 90]"
    by (simp add: tame_def)
  have "used_tokens (fst r) = min 1000 (snd r)"
    using budget_accounts_exactly [OF _ _ t e] by simp
  then show ?thesis unfolding g by (fold r_def)
qed

text \<open>
  Outside those sizes the limit is no limit: a reservation large enough to wrap the sum is
  granted and makes the used count negative, and so does a negative count.
\<close>

lemma allocate_wraps:
  "allocate ''op'' 9223372036854775807 ((new_token_budget 0 rid uid 1000)\<lparr>used_tokens := 1\<rparr>)
     = ((new_token_budget 0 rid uid 1000)\<lparr>used_tokens := - 9223372036854775808\<rparr>, None)"
  "allocate ''op'' (- 500) (new_token_budget 0 rid uid 1000)
     = ((new_token_budget 0 rid uid 1000)\<lparr>used_tokens := - 500\<rparr>, None)"
  by (simp_all add: allocate_def new_token_budget_def s64_def)

section \<open>The agent loop's iteration budget\<close>

record agent_loop =
  loop_budget :: token_budget
  max_iterations :: int
  iteration_count :: int
  token_per_iteration :: int

definition new_agent_loop :: "token_budget \<Rightarrow> int \<Rightarrow> int \<Rightarrow> agent_loop" where
  "new_agent_loop b mi tpi =
     \<lparr>loop_budget = b, max_iterations = mi, iteration_count = 0, token_per_iteration = tpi\<rparr>"

definition can_iterate :: "agent_loop \<Rightarrow> bool" where
  "can_iterate l \<longleftrightarrow>
     (if max_iterations l \<le> iteration_count l then False
      else if exceeded (loop_budget l) then False
      else if remaining (loop_budget l) < token_per_iteration l then False
      else True)"

definition record_iteration :: "agent_loop \<Rightarrow> agent_loop \<times> go_error option" where
  "record_iteration l =
     (let (b, e) = record_usage ''agent_iteration'' (token_per_iteration l) (loop_budget l)
      in (l\<lparr>iteration_count := iteration_count l + 1, loop_budget := b\<rparr>, e))"

definition reached_iteration_limit :: "agent_loop \<Rightarrow> bool" where
  "reached_iteration_limit l \<longleftrightarrow> max_iterations l \<le> iteration_count l"

definition reached_budget_limit :: "agent_loop \<Rightarrow> bool" where
  "reached_budget_limit l \<longleftrightarrow> exceeded (loop_budget l)"

text \<open>The loop \<open>for loop.CanIterate() { ...; loop.RecordIteration() }\<close>, \<open>n\<close> rounds at most.\<close>

fun iterate :: "nat \<Rightarrow> agent_loop \<Rightarrow> agent_loop \<times> go_error option list" where
  "iterate 0 l = (l, [])"
| "iterate (Suc n) l =
     (if can_iterate l
      then (let (l', e) = record_iteration l; (l'', es) = iterate n l' in (l'', e # es))
      else (l, []))"

definition loop_inv :: "agent_loop \<Rightarrow> bool" where
  "loop_inv l \<longleftrightarrow> tb_inv (loop_budget l) \<and> 0 \<le> token_per_iteration l \<and>
     token_per_iteration l < 4611686018427387904 \<and> 0 \<le> iteration_count l"

lemma iteration_granted:
  assumes "loop_inv l" and "can_iterate l"
  shows "record_iteration l = (l\<lparr>iteration_count := iteration_count l + 1,
           loop_budget := (loop_budget l)\<lparr>used_tokens := used_tokens (loop_budget l) + token_per_iteration l\<rparr>\<rparr>, None)
         \<and> loop_inv (fst (record_iteration l))"
proof -
  have "s64 (used_tokens (loop_budget l) + token_per_iteration l)
      = used_tokens (loop_budget l) + token_per_iteration l"
    using assms(1) by (simp add: no_wrap loop_inv_def)
  then show ?thesis using assms
    by (auto simp: can_iterate_def loop_inv_def remaining_exact record_iteration_def record_usage_def
        tb_inv_def split: if_splits)
qed

lemma iterate_spec:
  assumes "loop_inv l" and "iterate n l = (l', es)"
  shows "set es \<subseteq> {None} \<and> iteration_count l' = iteration_count l + int (length es) \<and>
         (iteration_count l \<le> max_iterations l \<longrightarrow> iteration_count l' \<le> max_iterations l) \<and>
         used_tokens (loop_budget l') = used_tokens (loop_budget l) + int (length es) * token_per_iteration l \<and>
         loop_inv l' \<and> max_iterations l' = max_iterations l \<and>
         (nat (max_iterations l - iteration_count l) \<le> n \<longrightarrow> \<not> can_iterate l')"
  using assms
proof (induction n arbitrary: l es)
  case 0
  then show ?case by (auto simp: can_iterate_def)
next
  case (Suc n)
  show ?case
  proof (cases "can_iterate l")
    case True
    obtain es' where it: "iterate n (fst (record_iteration l)) = (l', es')" and es: "es = None # es'"
      using Suc.prems iteration_granted [OF Suc.prems(1) True] True
      by (auto split: prod.splits)
    note g = iteration_granted [OF Suc.prems(1) True]
    have lt: "iteration_count l < max_iterations l" using True by (simp add: can_iterate_def split: if_splits)
    from Suc.IH [OF conjunct2 [OF g] it] g lt show ?thesis by (auto simp: es algebra_simps)
  next
    case False
    with Suc.prems show ?thesis by auto
  qed
qed

text \<open>
  An agent loop guarded by \<open>CanIterate\<close> terminates: within \<open>maxIterations\<close> rounds the guard
  is false. Until then every \<open>RecordIteration\<close> that follows a true guard succeeds, each round
  deducts exactly the per-iteration tokens, and neither the iteration limit nor the budget's
  allocation is ever passed.
\<close>

theorem agent_loop_terminates:
  assumes "0 \<le> alloc" and "alloc < 4611686018427387904" and "0 \<le> tpi" and "tpi < 4611686018427387904"
    and "0 \<le> mi" and "iterate n (new_agent_loop (new_token_budget now rid uid alloc) mi tpi) = (l, es)"
  shows "set es \<subseteq> {None} \<and> iteration_count l = int (length es) \<and> iteration_count l \<le> mi
         \<and> used_tokens (loop_budget l) = int (length es) * tpi
         \<and> used_tokens (loop_budget l) \<le> alloc
         \<and> (nat mi \<le> n \<longrightarrow> \<not> can_iterate l)"
proof -
  let ?l = "new_agent_loop (new_token_budget now rid uid alloc) mi tpi"
  have inv: "loop_inv ?l" using assms(1-4)
    by (simp add: loop_inv_def new_agent_loop_def tb_inv_def new_token_budget_def)
  have alloc: "allocated_tokens (loop_budget l) = alloc"
  proof -
    have "iterate n k = (l, es) \<Longrightarrow> allocated_tokens (loop_budget l) = allocated_tokens (loop_budget k)" for k es
      by (induction n arbitrary: k es)
        (auto simp: record_iteration_def record_usage_def split: if_splits prod.splits)
    then have "allocated_tokens (loop_budget l) = allocated_tokens (loop_budget ?l)"
      using assms(6) by blast
    then show ?thesis by (simp add: new_agent_loop_def new_token_budget_def)
  qed
  from iterate_spec [OF inv assms(6)] alloc assms(5) show ?thesis
    by (auto simp: new_agent_loop_def new_token_budget_def loop_inv_def tb_inv_def)
qed

theorem agent_loop_terminates_witness:
  "\<not> can_iterate (fst (iterate 7 (new_agent_loop (new_token_budget 0 ''r1'' ''u1'' 1000) 6 300)))"
proof -
  define r where "r = iterate 7 (new_agent_loop (new_token_budget 0 ''r1'' ''u1'' 1000) 6 300)"
  have "nat 6 \<le> 7 \<longrightarrow> \<not> can_iterate (fst r)"
    using agent_loop_terminates [of 1000 300 6 7 0 "''r1''" "''u1''" "fst r" "snd r"]
    unfolding r_def by simp
  then show ?thesis by (simp add: r_def)
qed

end
