(* ===== verification/Guardrail.thy ===== *)
theory Guardrail
  imports Prelude
begin

text \<open>
  \<open>orchestrator/internal/policy/engine.go\<close>, \<open>budget_unleashed.go\<close> and \<open>validation.go\<close>: the
  guardrail in front of every tool call, its session budget, the order of the search providers,
  and the validation of sandbox snippets and structured outputs. The environment variable
  \<open>WISDEV_UNLEASHED\<close> is the argument \<open>env\<close>. Call counters are incremented by one per executed
  step; cost sums are 64-bit and wrap.
\<close>

section \<open>Configuration and budget\<close>

datatype risk_level = RiskLow | RiskMedium | RiskHigh | RiskOther string

record policy_config =
  policy_version :: string
  allow_low_risk_auto_run :: bool
  require_confirmation_for_medium :: bool
  always_confirm_high_risk :: bool
  max_tool_calls_per_session :: int
  max_script_runs_per_session :: int
  max_cost_per_session_cents :: int
  default_provider_priority :: "string list"
  medical_provider_priority_override :: "string list"
  cs_provider_priority_override :: "string list"

record budget_state =
  tool_calls_used :: int
  script_runs_used :: int
  cost_cents_used :: int
  max_tool_calls :: int
  max_script_runs :: int
  max_cost_cents :: int
  last_updated_unix :: int

record guardrail_decision =
  allowed :: bool
  requires_confirmation :: bool
  gd_reason :: string

record policy_hints =
  execution_mode :: string
  operation_mode :: string
  verification_required :: bool
  requires_human_checkpoint :: bool
  academic_integrity :: "json dict"
  hint_citations :: "json dict list"

definition unleashed_policy_mode :: "string \<Rightarrow> bool" where
  "unleashed_policy_mode env =
     (let v = to_lower (trim_space env) in v = ''1'' \<or> v = ''true'' \<or> v = ''yes'' \<or> v = ''on'')"

definition default_policy_config :: "string \<Rightarrow> policy_config" where
  "default_policy_config env =
     (let cfg =
        \<lparr>policy_version = ''go-policy-v1'', allow_low_risk_auto_run = True,
         require_confirmation_for_medium = True, always_confirm_high_risk = True,
         max_tool_calls_per_session = 24, max_script_runs_per_session = 1,
         max_cost_per_session_cents = 50,
         default_provider_priority =
           [''semantic-scholar'', ''openalex'', ''crossref'', ''pubmed'', ''arxiv'', ''clinicaltrials''],
         medical_provider_priority_override =
           [''pubmed'', ''clinicaltrials'', ''semantic-scholar'', ''openalex'', ''crossref'', ''arxiv''],
         cs_provider_priority_override =
           [''semantic-scholar'', ''arxiv'', ''openalex'', ''crossref'', ''pubmed'', ''clinicaltrials'']\<rparr>
      in if unleashed_policy_mode env
         then cfg\<lparr>max_tool_calls_per_session := 96, max_script_runs_per_session := 8,
                  max_cost_per_session_cents := 500\<rparr>
         else cfg)"

definition new_budget_state :: "int \<Rightarrow> policy_config \<Rightarrow> budget_state" where
  "new_budget_state now cfg =
     \<lparr>tool_calls_used = 0, script_runs_used = 0, cost_cents_used = 0,
      max_tool_calls = max_tool_calls_per_session cfg,
      max_script_runs = max_script_runs_per_session cfg,
      max_cost_cents = max_cost_per_session_cents cfg, last_updated_unix = now\<rparr>"

section \<open>The guardrail\<close>

definition deny :: "string \<Rightarrow> guardrail_decision" where
  "deny r = \<lparr>allowed = False, requires_confirmation = False, gd_reason = r\<rparr>"

definition permit :: "bool \<Rightarrow> string \<Rightarrow> guardrail_decision" where
  "permit c r = \<lparr>allowed = True, requires_confirmation = c, gd_reason = r\<rparr>"

definition evaluate_hard_budget_guardrail :: "budget_state \<Rightarrow> bool \<Rightarrow> int \<Rightarrow> guardrail_decision option" where
  "evaluate_hard_budget_guardrail b is_script est =
     (if max_tool_calls b \<le> tool_calls_used b then Some (deny ''tool_budget_exceeded'')
      else if is_script \<and> max_script_runs b \<le> script_runs_used b
      then Some (deny ''script_budget_exceeded'')
      else if 0 < est \<and> max_cost_cents b < s64 (cost_cents_used b + est)
      then Some (deny ''cost_budget_exceeded'')
      else None)"

definition evaluate_guardrail_heuristic ::
  "policy_config \<Rightarrow> budget_state \<Rightarrow> risk_level \<Rightarrow> bool \<Rightarrow> int \<Rightarrow> guardrail_decision" where
  "evaluate_guardrail_heuristic cfg b risk is_script est =
     (case evaluate_hard_budget_guardrail b is_script est of
        Some d \<Rightarrow> d
      | None \<Rightarrow>
          (case risk of
             RiskHigh \<Rightarrow>
               if always_confirm_high_risk cfg then permit True ''high_risk_confirmation_required''
               else permit False ''high_risk_allowed''
           | RiskMedium \<Rightarrow>
               if require_confirmation_for_medium cfg then permit True ''medium_risk_confirmation_required''
               else permit False ''medium_risk_allowed''
           | _ \<Rightarrow>
               if allow_low_risk_auto_run cfg then permit False ''low_risk_auto_allowed''
               else permit True ''low_risk_manual_only''))"

definition evaluate_guardrail_with_hints ::
  "policy_config \<Rightarrow> budget_state \<Rightarrow> risk_level \<Rightarrow> bool \<Rightarrow> int \<Rightarrow> policy_hints \<Rightarrow> guardrail_decision" where
  "evaluate_guardrail_with_hints cfg b risk is_script est hints =
     (case evaluate_hard_budget_guardrail b is_script est of
        Some d \<Rightarrow> d
      | None \<Rightarrow> evaluate_guardrail_heuristic cfg b risk is_script est)"

definition no_hints :: policy_hints where
  "no_hints = \<lparr>execution_mode = '''', operation_mode = '''', verification_required = False,
     requires_human_checkpoint = False, academic_integrity = [], hint_citations = []\<rparr>"

definition evaluate_guardrail ::
  "policy_config \<Rightarrow> budget_state \<Rightarrow> risk_level \<Rightarrow> bool \<Rightarrow> int \<Rightarrow> guardrail_decision" where
  "evaluate_guardrail cfg b risk is_script est =
     evaluate_guardrail_with_hints cfg b risk is_script est no_hints"

definition apply_budget_usage :: "int \<Rightarrow> bool \<Rightarrow> int \<Rightarrow> budget_state \<Rightarrow> budget_state" where
  "apply_budget_usage now is_script cost b =
     (let b = b\<lparr>tool_calls_used := tool_calls_used b + 1\<rparr>;
          b = (if is_script then b\<lparr>script_runs_used := script_runs_used b + 1\<rparr> else b);
          b = (if 0 < cost then b\<lparr>cost_cents_used := s64 (cost_cents_used b + cost)\<rparr> else b)
      in b\<lparr>last_updated_unix := now\<rparr>)"

definition resolve_provider_order :: "policy_config \<Rightarrow> string \<Rightarrow> string \<Rightarrow> string list" where
  "resolve_provider_order cfg query domain_hint =
     (let q = to_lower query; d = to_lower domain_hint;
          is_medical = contains d ''med'' \<or> contains q ''clinical'' \<or> contains q ''patient'' \<or>
                       contains q ''trial'' \<or> contains q ''pubmed'';
          is_cs = contains d ''cs'' \<or> contains d ''ml'' \<or> contains q ''transformer'' \<or>
                  contains q ''llm'' \<or> contains q ''arxiv''
      in if is_medical then medical_provider_priority_override cfg
         else if is_cs then cs_provider_priority_override cfg
         else default_provider_priority cfg)"

section \<open>Validation of snippets and structured outputs\<close>

record sandbox_validation =
  sv_valid :: bool
  sv_reason :: string

record structured_validation =
  st_valid :: bool
  st_reason :: string
  st_normalized :: "json dict"

definition normalize_guardrail_reason :: "string \<Rightarrow> string" where
  "normalize_guardrail_reason r =
     (let t = trim_space r in
      if t = ''medium_risk_requires_confirmation'' then ''medium_risk_confirmation_required''
      else if t = ''high_risk_requires_confirmation'' then ''high_risk_confirmation_required''
      else t)"

definition disallowed_tokens :: "string list" where
  "disallowed_tokens =
     [''__import__'', ''exec('', ''eval('', ''subprocess'', ''socket'', ''open('', ''os.'', ''sys.'']"

definition validate_sandbox_snippet :: "string \<Rightarrow> sandbox_validation" where
  "validate_sandbox_snippet snippet =
     (let trimmed = trim_space snippet in
      if trimmed = [] then \<lparr>sv_valid = False, sv_reason = ''empty_snippet''\<rparr>
      else (case List.find (contains (to_lower trimmed)) disallowed_tokens of
              Some token \<Rightarrow> \<lparr>sv_valid = False, sv_reason = ''disallowed_token:'' @ token\<rparr>
            | None \<Rightarrow> \<lparr>sv_valid = True, sv_reason = ''heuristic_allow''\<rparr>))"

definition supported_branch :: "json \<Rightarrow> bool" where
  "supported_branch branch \<longleftrightarrow>
     3 / 5 \<le> json_num (dict_get (json_obj (Some branch)) ''supportScore'')"

definition validate_structured_output :: "string \<Rightarrow> json dict \<Rightarrow> structured_validation" where
  "validate_structured_output schema payload =
     (let t = trim_space (to_lower schema);
          ok = \<lparr>st_valid = True, st_reason = ''heuristic_allow'', st_normalized = payload\<rparr>;
          bad = (\<lambda>r. ok\<lparr>st_valid := False, st_reason := r\<rparr>)
      in if t = [] then \<lparr>st_valid = False, st_reason = ''missing_schema_type'', st_normalized = []\<rparr>
         else if t \<in> {''claim_table'', ''claim-evidence'', ''claim_evidence''} then
           (if json_arr (dict_get payload ''claims'') = [] then bad ''missing_claims'' else ok)
         else if t = ''prisma'' then
           (if dict_get payload ''identified'' = None then bad ''missing_identified'' else ok)
         else if t = ''rebuttal'' then
           (if trim_space (json_str (dict_get payload ''summary'')) = [] then bad ''missing_summary'' else ok)
         else if t \<in> {''reasoning_paths'', ''reasoning-paths'', ''reasoning_paths_verify''} then
           (let branches = json_arr (dict_get payload ''branches'')
            in if branches = [] then bad ''missing_branches''
               else if length (filter supported_branch branches) = 0
               then bad ''no_supported_reasoning_path'' else ok)
         else bad ''unsupported_schema_type'')"

section \<open>When a step is allowed\<close>

lemma evaluate_guardrail_table:
  "evaluate_guardrail_with_hints cfg b risk is_script est hints
     = evaluate_guardrail_heuristic cfg b risk is_script est"
  by (simp add: evaluate_guardrail_with_hints_def evaluate_guardrail_heuristic_def split: option.split)

lemma allowed_iff:
  "allowed (evaluate_guardrail cfg b risk is_script est)
     \<longleftrightarrow> evaluate_hard_budget_guardrail b is_script est = None"
  by (auto simp: evaluate_guardrail_def evaluate_guardrail_table evaluate_guardrail_heuristic_def
      evaluate_hard_budget_guardrail_def deny_def permit_def split: risk_level.split)

lemma new_budget_limits [simp]:
  "max_tool_calls (new_budget_state now cfg) = max_tool_calls_per_session cfg"
  "max_script_runs (new_budget_state now cfg) = max_script_runs_per_session cfg"
  "max_cost_cents (new_budget_state now cfg) = max_cost_per_session_cents cfg"
  by (simp_all add: new_budget_state_def)

section \<open>Properties\<close>

text \<open>
  The guardrail's decision: a step is refused exactly when a hard limit is reached (tool
  calls, script runs of a script, or a positive cost estimate that does not fit), the first of
  them being the reason; an allowed step needs a confirmation exactly when its risk does under
  the configuration, an unknown risk counting as low; and the hints are ignored.
\<close>

theorem guardrail_decision_table:
  "let d = evaluate_guardrail_with_hints cfg b risk is_script est hints in
     (\<not> allowed d \<longleftrightarrow>
        max_tool_calls b \<le> tool_calls_used b \<or> (is_script \<and> max_script_runs b \<le> script_runs_used b) \<or>
        (0 < est \<and> max_cost_cents b < s64 (cost_cents_used b + est)))
     \<and> (requires_confirmation d \<longleftrightarrow> allowed d \<and>
          (if risk = RiskHigh then always_confirm_high_risk cfg
           else if risk = RiskMedium then require_confirmation_for_medium cfg
           else \<not> allow_low_risk_auto_run cfg))
     \<and> (max_tool_calls b \<le> tool_calls_used b \<longrightarrow> gd_reason d = ''tool_budget_exceeded'')
     \<and> evaluate_guardrail cfg b risk is_script est = d"
  by (cases risk) (auto simp: Let_def evaluate_guardrail_def evaluate_guardrail_table
      evaluate_guardrail_heuristic_def evaluate_hard_budget_guardrail_def deny_def permit_def)

theorem guardrail_decision_table_witness:
  "requires_confirmation (evaluate_guardrail_with_hints (default_policy_config '''')
     (new_budget_state 0 (default_policy_config '''')) RiskHigh False 3 no_hints)"
proof -
  let ?c = "default_policy_config ''''"
  have c: "always_confirm_high_risk ?c" "max_tool_calls_per_session ?c = 24"
    "tool_calls_used (new_budget_state 0 ?c) = 0" "cost_cents_used (new_budget_state 0 ?c) = 0"
    "max_cost_per_session_cents ?c = 50"
    by (simp_all add: default_policy_config_def unleashed_policy_mode_def new_budget_state_def)
  show ?thesis
    using guardrail_decision_table [of ?c "new_budget_state 0 ?c" RiskHigh False 3 no_hints]
    by (simp add: Let_def c in_i64_def)
qed

text \<open>
  Under the default policy a provider order never drops, adds or repeats a provider: for
  every query and domain it is a rearrangement of the default order.
\<close>

theorem provider_order_permutes:
  "mset (resolve_provider_order (default_policy_config env) q d)
     = mset (default_provider_priority (default_policy_config env))
   \<and> distinct (resolve_provider_order (default_policy_config env) q d)"
proof -
  have lists: "default_provider_priority (default_policy_config env) =
      [''semantic-scholar'', ''openalex'', ''crossref'', ''pubmed'', ''arxiv'', ''clinicaltrials'']"
    "medical_provider_priority_override (default_policy_config env) =
      [''pubmed'', ''clinicaltrials'', ''semantic-scholar'', ''openalex'', ''crossref'', ''arxiv'']"
    "cs_provider_priority_override (default_policy_config env) =
      [''semantic-scholar'', ''arxiv'', ''openalex'', ''crossref'', ''pubmed'', ''clinicaltrials'']"
    by (simp_all add: default_policy_config_def Let_def)
  show ?thesis by (simp add: resolve_provider_order_def Let_def lists)
qed

text \<open>
  A snippet is accepted exactly when it is not blank and none of the forbidden tokens occurs
  in it in any letter case; a refusal names a token that does occur.
\<close>

theorem sandbox_accepts_iff:
  "(sv_valid (validate_sandbox_snippet s) \<longleftrightarrow>
      trim_space s \<noteq> [] \<and> (\<forall>t \<in> set disallowed_tokens. \<not> sublist t (to_lower (trim_space s))))
   \<and> (sv_reason (validate_sandbox_snippet s) = ''disallowed_token:'' @ t \<and> \<not> sv_valid (validate_sandbox_snippet s)
        \<longrightarrow> t \<in> set disallowed_tokens \<and> sublist t (to_lower (trim_space s)))"
proof (cases "List.find (contains (to_lower (trim_space s))) disallowed_tokens")
  case None
  moreover from None have "\<forall>t \<in> set disallowed_tokens. \<not> sublist t (to_lower (trim_space s))"
    by (auto simp: find_None_iff contains_iff)
  ultimately show ?thesis by (simp add: validate_sandbox_snippet_def Let_def)
next
  case (Some u)
  then have "u \<in> set disallowed_tokens" "contains (to_lower (trim_space s)) u"
    by (auto simp: find_Some_iff)
  with Some show ?thesis
    by (auto simp: validate_sandbox_snippet_def Let_def contains_iff)
qed

theorem sandbox_accepts_iff_witness:
  "\<not> sv_valid (validate_sandbox_snippet ''import OS.path'')"
proof -
  have "sublist ''os.'' (to_lower (trim_space ''import OS.path''))"
    unfolding contains_iff [symmetric] by code_simp
  then show ?thesis
    using sandbox_accepts_iff [of "''import OS.path''" "''x''"] by (auto simp: disallowed_tokens_def)
qed

text \<open>A structured output is valid only with the evidence its schema asks for.\<close>

lemma reasoning_paths_valid_iff:
  "st_valid (validate_structured_output ''reasoning_paths'' payload) \<longleftrightarrow>
     (\<exists>b \<in> set (json_arr (dict_get payload ''branches'')). supported_branch b)"
proof -
  have "trim_space (to_lower ''reasoning_paths'') = ''reasoning_paths''" by code_simp
  then show ?thesis
    by (auto simp: validate_structured_output_def Let_def filter_empty_conv)
qed

end
