(* ===== verification/AccessPolicy.thy ===== *)
theory AccessPolicy
  imports Prelude
begin

text \<open>
  The access policy of \<open>orchestrator/internal/policy\<close>: subscription tiers and quality modes
  (\<open>quality.go\<close>), search providers by access tier (\<open>providers.go\<close>), research modes
  (\<open>research_modes.go\<close>) and search-priority profiles (\<open>search_priority.go\<close>). The tiers, modes
  and profiles are Go strings with named constants; the constructor \<open>...Other\<close> holds any other
  string, and a Go map lookup of it misses. The copies the code makes (\<open>clone...\<close>) are the values
  themselves here.
\<close>

section \<open>Subscription tiers\<close>

datatype subscription_tier = TierFree | TierPro | TierAdvanced | TierOther string

fun tier_rank :: "subscription_tier \<Rightarrow> int" where
  "tier_rank TierFree = 0"
| "tier_rank TierPro = 1"
| "tier_rank TierAdvanced = 2"
| "tier_rank (TierOther s) = 0"

definition normalize_subscription_tier :: "string \<Rightarrow> subscription_tier \<times> bool" where
  "normalize_subscription_tier raw =
     (let s = to_lower (trim_space raw) in
      if s = ''free'' then (TierFree, True)
      else if s = ''pro'' then (TierPro, True)
      else if s = ''advanced'' then (TierAdvanced, True)
      else (TierFree, False))"

text \<open>The tiers form a preorder by rank; every unknown tier is equivalent to the free one.\<close>

instantiation subscription_tier :: preorder
begin

definition less_eq_subscription_tier :: "subscription_tier \<Rightarrow> subscription_tier \<Rightarrow> bool" where
  "less_eq_subscription_tier a b \<longleftrightarrow> tier_rank a \<le> tier_rank b"

definition less_subscription_tier :: "subscription_tier \<Rightarrow> subscription_tier \<Rightarrow> bool" where
  "less_subscription_tier a b \<longleftrightarrow> tier_rank a < tier_rank b"

instance
  by standard (auto simp: less_eq_subscription_tier_def less_subscription_tier_def)

end

definition subscription_tier_at_least :: "subscription_tier \<Rightarrow> subscription_tier \<Rightarrow> bool" where
  "subscription_tier_at_least tier required \<longleftrightarrow> tier_rank required \<le> tier_rank tier"

lemma at_least_le: "subscription_tier_at_least t r \<longleftrightarrow> r \<le> t"
  by (simp add: subscription_tier_at_least_def less_eq_subscription_tier_def)

section \<open>The contract of a gated registry\<close>

text \<open>
  Quality modes and research modes are both registries of configurations with a required tier,
  a canonical order and a list of what a tier unlocks.
\<close>

locale tier_gate =
  fixes lookup :: "'m \<Rightarrow> 'c option"
    and required :: "'c \<Rightarrow> subscription_tier"
    and order :: "'m list"
    and available :: "'m \<Rightarrow> subscription_tier \<Rightarrow> bool"
    and gated :: "subscription_tier \<Rightarrow> 'c list"
  assumes available_iff: "available m t \<longleftrightarrow> (\<exists>c. lookup m = Some c \<and> required c \<le> t)"
    and gated_eq: "gated t = map (the \<circ> lookup) (filter (\<lambda>m. available m t) order)"
    and order_complete: "lookup m \<noteq> None \<Longrightarrow> m \<in> set order"
begin

lemma available_mono: "available m s \<Longrightarrow> s \<le> t \<Longrightarrow> available m t"
  by (auto simp: available_iff intro: order_trans)

lemma gated_sound: "c \<in> set (gated t) \<Longrightarrow> required c \<le> t"
  by (auto simp: gated_eq available_iff)

lemma gated_iff: "c \<in> set (gated t) \<longleftrightarrow> (\<exists>m. lookup m = Some c) \<and> required c \<le> t"
proof
  assume "c \<in> set (gated t)"
  then show "(\<exists>m. lookup m = Some c) \<and> required c \<le> t" by (auto simp: gated_eq available_iff)
next
  assume "(\<exists>m. lookup m = Some c) \<and> required c \<le> t"
  then obtain m where "lookup m = Some c" "required c \<le> t" by blast
  then have "m \<in> set (filter (\<lambda>m. available m t) order)"
    using order_complete [of m] by (simp add: available_iff)
  then show "c \<in> set (gated t)" using \<open>lookup m = Some c\<close> by (force simp: gated_eq)
qed

lemma gated_mono: "s \<le> t \<Longrightarrow> subseq (gated s) (gated t)"
proof -
  assume le: "s \<le> t"
  have "filter (\<lambda>m. available m s) (filter (\<lambda>m. available m t) xs) = filter (\<lambda>m. available m s) xs" for xs
    using available_mono [OF _ le] by (auto simp: filter_filter intro: filter_cong)
  then have "subseq (filter (\<lambda>m. available m s) order) (filter (\<lambda>m. available m t) order)"
    by (metis subseq_filter_left)
  then show ?thesis unfolding gated_eq by (rule subseq_map)
qed

end

section \<open>Quality modes\<close>

datatype quality_mode = QualityFast | QualityBalanced | QualityQuality | QualityOther string

record quality_mode_features =
  relevance_verification :: bool
  relevance_mode :: string
  snowball_expansion :: bool
  snowball_depth :: int
  max_papers_per_search :: int
  ai_summary_depth :: string
  api_tier_access :: int
  max_api_calls :: int
  results_per_api :: int
  allow_provider_selection :: bool

record quality_mode_config =
  qm_name :: quality_mode
  qm_display_name :: string
  qm_emoji :: string
  qm_description :: string
  latency_ms :: string
  features :: quality_mode_features
  qm_required_tier :: subscription_tier

definition quality_mode_order :: "quality_mode list" where
  "quality_mode_order = [QualityFast, QualityBalanced, QualityQuality]"

definition normalize_model_tier :: "string \<Rightarrow> string" where
  "normalize_model_tier raw =
     (let s = to_lower (trim_space raw) in
      if s = ''balanced'' \<or> s = ''standard'' then ''standard''
      else if s = ''light'' then ''light''
      else if s = ''heavy'' then ''heavy''
      else ''standard'')"

fun quality_modes :: "quality_mode \<Rightarrow> quality_mode_config option" where
  "quality_modes QualityFast = Some
     \<lparr>qm_name = QualityFast, qm_display_name = ''Fast'', qm_emoji = [CHR 0xE2] @ [CHR 0x9A] @ [CHR 0xA1],
      qm_description = ''Quick results, core sources only'', latency_ms = ''~3-5s'',
      features = \<lparr>relevance_verification = False, relevance_mode = ''none'',
        snowball_expansion = False, snowball_depth = 0, max_papers_per_search = 50,
        ai_summary_depth = ''brief'', api_tier_access = 1, max_api_calls = 2,
        results_per_api = 25, allow_provider_selection = False\<rparr>,
      qm_required_tier = TierFree\<rparr>"
| "quality_modes QualityBalanced = Some
     \<lparr>qm_name = QualityBalanced, qm_display_name = ''Balanced'', qm_emoji = [CHR 0xE2] @ [CHR 0x9A] @ [CHR 0x96] @ [CHR 0xEF] @ [CHR 0xB8] @ [CHR 0x8F],
      qm_description = ''Good coverage with domain sources'', latency_ms = ''~10-20s'',
      features = \<lparr>relevance_verification = True, relevance_mode = ''batch'',
        snowball_expansion = True, snowball_depth = 3, max_papers_per_search = 100,
        ai_summary_depth = ''standard'', api_tier_access = 3, max_api_calls = 7,
        results_per_api = 40, allow_provider_selection = False\<rparr>,
      qm_required_tier = TierFree\<rparr>"
| "quality_modes QualityQuality = Some
     \<lparr>qm_name = QualityQuality, qm_display_name = ''Quality'', qm_emoji = [CHR 0xF0] @ [CHR 0x9F] @ [CHR 0x8E] @ [CHR 0xAF],
      qm_description = ''All sources, maximum coverage'', latency_ms = ''~25-45s'',
      features = \<lparr>relevance_verification = True, relevance_mode = ''deep'',
        snowball_expansion = True, snowball_depth = 5, max_papers_per_search = 200,
        ai_summary_depth = ''detailed'', api_tier_access = 4, max_api_calls = 12,
        results_per_api = 50, allow_provider_selection = True\<rparr>,
      qm_required_tier = TierPro\<rparr>"
| "quality_modes (QualityOther s) = None"

definition quality_mode_of_name :: "string \<Rightarrow> quality_mode" where
  "quality_mode_of_name s =
     (if s = ''fast'' then QualityFast else if s = ''balanced'' then QualityBalanced
      else if s = ''quality'' then QualityQuality else QualityOther s)"

definition quality_mode_by_name :: "string \<Rightarrow> quality_mode_config option" where
  "quality_mode_by_name raw =
     (let name = quality_mode_of_name (to_lower (trim_space raw));
          name = (if name = QualityOther ''standard'' then QualityBalanced else name)
      in quality_modes name)"

definition is_quality_mode_available :: "quality_mode \<Rightarrow> subscription_tier \<Rightarrow> bool" where
  "is_quality_mode_available mode tier =
     (case quality_modes mode of
        None \<Rightarrow> False
      | Some cfg \<Rightarrow> tier_rank (qm_required_tier cfg) \<le> tier_rank tier)"

fun gate_modes :: "('m \<Rightarrow> bool) \<Rightarrow> ('m \<Rightarrow> 'c option) \<Rightarrow> 'm list \<Rightarrow> 'c list" where
  "gate_modes avail look [] = []"
| "gate_modes avail look (m # ms) =
     (if avail m then the (look m) # gate_modes avail look ms else gate_modes avail look ms)"

definition gated_quality_modes :: "subscription_tier \<Rightarrow> quality_mode_config list" where
  "gated_quality_modes tier =
     gate_modes (\<lambda>m. is_quality_mode_available m tier) quality_modes quality_mode_order"

definition default_quality_mode :: "subscription_tier \<Rightarrow> quality_mode" where
  "default_quality_mode tier = QualityBalanced"

lemma gate_modes_eq: "gate_modes avail look ms = map (the \<circ> look) (filter avail ms)"
  by (induction ms) auto

interpretation quality: tier_gate quality_modes qm_required_tier quality_mode_order
  is_quality_mode_available gated_quality_modes
proof (standard, goal_cases)
  case (3 m) then show ?case by (cases m) (auto simp: quality_mode_order_def)
qed (auto simp: is_quality_mode_available_def less_eq_subscription_tier_def gated_quality_modes_def
    gate_modes_eq split: option.splits)

section \<open>Search providers by access tier\<close>

type_synonym provider_config = "string \<times> int"

definition api_providers :: "provider_config list" where
  "api_providers =
     [(''opensearch_hybrid'', 1), (''semanticscholar'', 1), (''openalex'', 1),
      (''crossref'', 2), (''core'', 2), (''arxiv'', 3), (''dblp'', 3), (''paperswithcode'', 3),
      (''europepmc'', 4), (''biorxiv'', 4), (''pubmed'', 4), (''openCitations'', 3),
      (''base'', 3), (''ssrn'', 3), (''clinicalTrials'', 3), (''repec'', 2),
      (''patentsview'', 3), (''doaj'', 3), (''dimensions'', 2), (''orcid'', 3),
      (''nasaads'', 4), (''philpapers'', 4), (''ieee'', 4), (''scopus'', 4)]"

definition providers_at_tier :: "int \<Rightarrow> provider_config list" where
  "providers_at_tier tier = filter (\<lambda>p. snd p = tier) api_providers"

definition providers_up_to_tier :: "int \<Rightarrow> provider_config list" where
  "providers_up_to_tier access = filter (\<lambda>p. snd p \<le> access) api_providers"

definition providers_for_subscription :: "subscription_tier \<Rightarrow> provider_config list" where
  "providers_for_subscription tier =
     (case quality_modes (default_quality_mode tier) of
        None \<Rightarrow> []
      | Some cfg \<Rightarrow> providers_up_to_tier (api_tier_access (features cfg)))"

definition provider_ids :: "provider_config list \<Rightarrow> string list" where
  "provider_ids ps = map fst ps"

section \<open>Research modes\<close>

datatype research_mode = ResearchExploration | ResearchReview | ResearchMethodology
  | ResearchGapFinding | ResearchOther string

datatype retrieval_strategy = RetrievalDiversity | RetrievalSnowball | RetrievalKeywordMatch
  | RetrievalSemantic

record ranking_weights =
  w_citations :: real
  w_recency :: real
  w_relevance :: real
  w_venue_prestige :: real
  w_has_code :: real
  w_has_pdf :: real
  w_citation_velocity :: real

record year_range =
  yr_min :: "int option"
  yr_max :: "int option"

record research_mode_filters =
  paper_types :: "string list"
  rf_year_range :: "year_range option"
  require_peer_review :: bool

record research_mode_config =
  rm_name :: research_mode
  rm_display_name :: string
  rm_description :: string
  rm_providers :: "string list"
  rm_strategy :: retrieval_strategy
  rm_weights :: ranking_weights
  use_hyde :: bool
  rm_filters :: "research_mode_filters option"
  ai_hooks :: "string list"
  rm_required_tier :: subscription_tier

definition research_mode_order :: "research_mode list" where
  "research_mode_order =
     [ResearchExploration, ResearchReview, ResearchMethodology, ResearchGapFinding]"

definition no_weights :: ranking_weights where
  "no_weights = \<lparr>w_citations = 0, w_recency = 0, w_relevance = 0, w_venue_prestige = 0,
     w_has_code = 0, w_has_pdf = 0, w_citation_velocity = 0\<rparr>"

text \<open>The registry is built when the program starts; \<open>year\<close> is the year of that moment.\<close>

fun research_modes :: "int \<Rightarrow> research_mode \<Rightarrow> research_mode_config option" where
  "research_modes year ResearchExploration = Some
     \<lparr>rm_name = ResearchExploration, rm_display_name = ''Exploration'',
      rm_description = ''Discover papers across a broad topic area. Best for starting new research.'',
      rm_providers = [''semanticscholar'', ''openalex'', ''base'', ''core''],
      rm_strategy = RetrievalDiversity,
      rm_weights = no_weights\<lparr>w_citations := 4 / 10, w_recency := 1 / 10, w_relevance := 5 / 10\<rparr>,
      use_hyde = True, rm_filters = None, ai_hooks = [], rm_required_tier = TierFree\<rparr>"
| "research_modes year ResearchReview = Some
     \<lparr>rm_name = ResearchReview, rm_display_name = ''Literature Review'',
      rm_description = ''Find comprehensive, authoritative papers. Best for systematic reviews.'',
      rm_providers = [''semanticscholar'', ''openCitations'', ''crossref'', ''openalex''],
      rm_strategy = RetrievalSnowball,
      rm_weights = no_weights\<lparr>w_citations := 3 / 10, w_venue_prestige := 3 / 10, w_relevance := 4 / 10\<rparr>,
      use_hyde = False,
      rm_filters = Some \<lparr>paper_types = [''review'', ''meta-analysis'', ''systematic-review''],
        rf_year_range = None, require_peer_review = False\<rparr>,
      ai_hooks = [], rm_required_tier = TierPro\<rparr>"
| "research_modes year ResearchMethodology = Some
     \<lparr>rm_name = ResearchMethodology, rm_display_name = ''Methodology'',
      rm_description = ''Find papers with methods, code, and implementation details.'',
      rm_providers = [''paperswithcode'', ''arxiv'', ''semanticscholar'', ''core''],
      rm_strategy = RetrievalKeywordMatch,
      rm_weights = no_weights\<lparr>w_has_code := 3 / 10, w_has_pdf := 3 / 10, w_recency := 4 / 10\<rparr>,
      use_hyde = False, rm_filters = None, ai_hooks = [''extract_methods''],
      rm_required_tier = TierPro\<rparr>"
| "research_modes year ResearchGapFinding = Some
     \<lparr>rm_name = ResearchGapFinding, rm_display_name = ''Gap Finding'',
      rm_description = ''Discover underexplored topics and recent preprints.'',
      rm_providers = [''arxiv'', ''biorxiv'', ''core'', ''base''],
      rm_strategy = RetrievalSemantic,
      rm_weights = no_weights\<lparr>w_recency := 6 / 10, w_citation_velocity := 4 / 10\<rparr>,
      use_hyde = False,
      rm_filters = Some \<lparr>paper_types = [],
        rf_year_range = Some \<lparr>yr_min = Some (year - 2), yr_max = None\<rparr>, require_peer_review = False\<rparr>,
      ai_hooks = [], rm_required_tier = TierPro\<rparr>"
| "research_modes year (ResearchOther s) = None"

definition nl :: string where
  "nl = [CHR 0x0A]"

fun hyde_prompt_of :: "research_mode \<Rightarrow> string option" where
  "hyde_prompt_of ResearchExploration = Some (
     ''Write a research paper abstract that provides a comprehensive overview of findings for: \"{query}\"'' @ nl @
     '''' @ nl @
     ''The abstract should cover:'' @ nl @
     ''- The main research question or problem'' @ nl @
     ''- Key methodologies or approaches used'' @ nl @
     ''- Primary findings or results'' @ nl @
     ''- Implications for the field'')"
| "hyde_prompt_of ResearchReview = Some (
     ''Write an abstract for a systematic review paper synthesizing the literature on: \"{query}\"'' @ nl @
     '''' @ nl @
     ''The abstract should include:'' @ nl @
     ''- The scope and objectives of the review'' @ nl @
     ''- Search strategy and inclusion criteria'' @ nl @
     ''- Summary of included studies'' @ nl @
     ''- Key themes and conclusions'')"
| "hyde_prompt_of ResearchMethodology = Some (
     ''Write a methodology section describing technical implementation details for solving: \"{query}\"'' @ nl @
     '''' @ nl @
     ''The section should cover:'' @ nl @
     ''- Technical approach and algorithms'' @ nl @
     ''- Implementation details'' @ nl @
     ''- Evaluation metrics'' @ nl @
     ''- Reproducibility information'')"
| "hyde_prompt_of ResearchGapFinding = Some (
     ''Write an abstract identifying unexplored research gaps and novel directions for: \"{query}\"'' @ nl @
     '''' @ nl @
     ''The abstract should highlight:'' @ nl @
     ''- Current state of research'' @ nl @
     ''- Identified gaps or limitations'' @ nl @
     ''- Proposed novel directions'' @ nl @
     ''- Potential impact of addressing these gaps'')"
| "hyde_prompt_of (ResearchOther s) = None"

definition normalize_research_mode :: "string \<Rightarrow> research_mode \<times> bool" where
  "normalize_research_mode raw =
     (let s = to_lower (trim_space raw) in
      if s = ''exploration'' then (ResearchExploration, True)
      else if s = ''review'' then (ResearchReview, True)
      else if s = ''methodology'' then (ResearchMethodology, True)
      else if s = ''gap_finding'' then (ResearchGapFinding, True)
      else (ResearchExploration, False))"

definition research_mode_by_name :: "int \<Rightarrow> string \<Rightarrow> research_mode_config option" where
  "research_mode_by_name year raw =
     (let (mode, known) = normalize_research_mode raw in
      if \<not> known \<and> trim_space raw \<noteq> [] then None else research_modes year mode)"

definition can_access_research_mode :: "int \<Rightarrow> research_mode \<Rightarrow> subscription_tier \<Rightarrow> bool" where
  "can_access_research_mode year mode tier =
     (case research_modes year mode of
        None \<Rightarrow> False
      | Some cfg \<Rightarrow> subscription_tier_at_least tier (rm_required_tier cfg))"

definition gated_research_modes :: "int \<Rightarrow> subscription_tier \<Rightarrow> research_mode_config list" where
  "gated_research_modes year tier =
     gate_modes (\<lambda>m. can_access_research_mode year m tier) (research_modes year) research_mode_order"

definition default_research_mode :: "subscription_tier \<Rightarrow> research_mode" where
  "default_research_mode tier = ResearchExploration"

definition mode_providers :: "int \<Rightarrow> research_mode \<Rightarrow> subscription_tier \<Rightarrow> string list" where
  "mode_providers year mode tier =
     (if \<not> can_access_research_mode year mode tier
      then rm_providers (the (research_modes year ResearchExploration))
      else rm_providers (the (research_modes year mode)))"

definition mode_ranking_weights :: "int \<Rightarrow> research_mode \<Rightarrow> ranking_weights" where
  "mode_ranking_weights year mode =
     (case research_modes year mode of
        None \<Rightarrow> rm_weights (the (research_modes year ResearchExploration))
      | Some cfg \<Rightarrow> rm_weights cfg)"

definition mode_uses_hyde :: "int \<Rightarrow> research_mode \<Rightarrow> bool" where
  "mode_uses_hyde year mode =
     (case research_modes year mode of None \<Rightarrow> False | Some cfg \<Rightarrow> use_hyde cfg)"

definition hyde_prompt :: "research_mode \<Rightarrow> string \<Rightarrow> string" where
  "hyde_prompt mode query =
     (let tpl = (case hyde_prompt_of mode of Some t \<Rightarrow> t
                 | None \<Rightarrow> the (hyde_prompt_of ResearchExploration))
      in replace_all tpl ''{query}'' query)"

interpretation research: tier_gate "research_modes year" rm_required_tier research_mode_order
  "can_access_research_mode year" "gated_research_modes year" for year
proof (standard, goal_cases)
  case (3 m) then show ?case by (cases m) (auto simp: research_mode_order_def)
qed (auto simp: can_access_research_mode_def at_least_le gated_research_modes_def
    gate_modes_eq split: option.splits)

section \<open>Search-priority profiles\<close>

datatype search_profile = ProfileAIFirst | ProfileBalanced | ProfileCostOptimized | ProfileOther string

definition max_systematic_review_tab_concurrency :: int where
  "max_systematic_review_tab_concurrency = 2"

record search_priority_config =
  sp_profile :: search_profile
  sp_quality_mode :: quality_mode
  search_research_mode :: research_mode
  wisdev_focused_mode :: research_mode
  wisdev_broad_mode :: research_mode
  sp_provider_limit :: "int option"
  max_tab_concurrency :: int
  allow_preferred_sources :: bool
  enforce_quality_mode :: bool

fun search_priority_profiles :: "search_profile \<Rightarrow> search_priority_config option" where
  "search_priority_profiles ProfileAIFirst = Some
     \<lparr>sp_profile = ProfileAIFirst, sp_quality_mode = QualityQuality,
      search_research_mode = ResearchReview, wisdev_focused_mode = ResearchExploration,
      wisdev_broad_mode = ResearchReview, sp_provider_limit = Some 8,
      max_tab_concurrency = max_systematic_review_tab_concurrency,
      allow_preferred_sources = False, enforce_quality_mode = True\<rparr>"
| "search_priority_profiles ProfileBalanced = Some
     \<lparr>sp_profile = ProfileBalanced, sp_quality_mode = QualityBalanced,
      search_research_mode = ResearchExploration, wisdev_focused_mode = ResearchExploration,
      wisdev_broad_mode = ResearchReview, sp_provider_limit = None,
      max_tab_concurrency = max_systematic_review_tab_concurrency,
      allow_preferred_sources = True, enforce_quality_mode = False\<rparr>"
| "search_priority_profiles ProfileCostOptimized = Some
     \<lparr>sp_profile = ProfileCostOptimized, sp_quality_mode = QualityFast,
      search_research_mode = ResearchExploration, wisdev_focused_mode = ResearchExploration,
      wisdev_broad_mode = ResearchExploration, sp_provider_limit = Some 2,
      max_tab_concurrency = max_systematic_review_tab_concurrency,
      allow_preferred_sources = True, enforce_quality_mode = True\<rparr>"
| "search_priority_profiles (ProfileOther s) = None"

definition normalize_search_priority_profile :: "string \<Rightarrow> search_profile \<times> bool" where
  "normalize_search_priority_profile raw =
     (let n = to_lower (trim_space raw) in
      if n = ''balanced'' then (ProfileBalanced, True)
      else if n \<in> {''cost'', ''cost_optimized'', ''cost-optimized''} then (ProfileCostOptimized, True)
      else if n \<in> {''ai_first'', ''ai-first''} then (ProfileAIFirst, True)
      else (ProfileBalanced, False))"

definition resolve_search_priority :: "search_profile \<Rightarrow> subscription_tier \<Rightarrow> search_priority_config" where
  "resolve_search_priority profile tier =
     (let base = (case search_priority_profiles profile of Some c \<Rightarrow> c
                  | None \<Rightarrow> the (search_priority_profiles ProfileBalanced))
      in if profile = ProfileAIFirst \<and> tier = TierFree
         then base\<lparr>sp_quality_mode := QualityBalanced, sp_provider_limit := Some 3\<rparr> else base)"

definition wisdev_research_mode_for_scope :: "string \<Rightarrow> search_priority_config \<Rightarrow> research_mode" where
  "wisdev_research_mode_for_scope scope cfg =
     (if equal_fold (trim_space scope) ''focused'' then wisdev_focused_mode cfg
      else wisdev_broad_mode cfg)"

definition default_quality_mode_for_profile :: "search_profile \<Rightarrow> subscription_tier \<Rightarrow> quality_mode" where
  "default_quality_mode_for_profile profile tier = sp_quality_mode (resolve_search_priority profile tier)"

section \<open>Properties\<close>

text \<open>
  Upgrading never takes anything away: a mode or provider a tier unlocks is unlocked for
  every higher tier, in the same order; a listed quality mode is exactly a registered one whose
  required tier the subscriber meets; and an unrecognised tier name gets what the free tier gets
  and nothing more.
\<close>

theorem access_monotone:
  assumes "s \<le> t"
  shows "subseq (gated_quality_modes s) (gated_quality_modes t)
         \<and> subseq (gated_research_modes year s) (gated_research_modes year t)
         \<and> (c \<in> set (gated_quality_modes t) \<longleftrightarrow>
              (\<exists>m. quality_modes m = Some c) \<and> subscription_tier_at_least t (qm_required_tier c))
         \<and> (\<not> snd (normalize_subscription_tier raw) \<longrightarrow>
              gated_quality_modes (fst (normalize_subscription_tier raw)) = gated_quality_modes TierFree
              \<and> (\<forall>c \<in> set (gated_research_modes year (fst (normalize_subscription_tier raw))).
                    rm_required_tier c \<le> TierFree))"
proof -
  have "\<not> snd (normalize_subscription_tier raw) \<Longrightarrow> fst (normalize_subscription_tier raw) = TierFree"
    by (auto simp: normalize_subscription_tier_def Let_def split: if_splits)
  then show ?thesis
    using quality.gated_mono [OF assms] research.gated_mono [OF assms] quality.gated_iff [of c t]
      research.gated_sound by (auto simp: at_least_le)
qed

theorem access_monotone_witness:
  "subseq (gated_quality_modes TierFree) (gated_quality_modes TierPro)
   \<and> length (gated_quality_modes TierFree) = 2 \<and> length (gated_quality_modes TierPro) = 3"
proof -
  have "TierFree \<le> TierPro" by (simp add: less_eq_subscription_tier_def)
  from access_monotone [OF this, of 2025 undefined "''gold''"]
  show ?thesis by (simp add: gated_quality_modes_def quality_mode_order_def is_quality_mode_available_def)
qed

lemma exploration_open: "can_access_research_mode year ResearchExploration tier"
  by (cases tier) (simp_all add: can_access_research_mode_def subscription_tier_at_least_def)

lemma modes_use_known_providers:
  "research_modes year m = Some c \<Longrightarrow> set (rm_providers c) \<subseteq> set (provider_ids api_providers)"
  by (cases m) (auto simp: provider_ids_def api_providers_def)

text \<open>
  The search policy a profile resolves to is one the subscriber may use: for every
  recognised tier its quality mode is available, and the providers of whichever research mode it
  picks are those of a mode the tier can access (falling back to exploration's); they all are
  known providers.
\<close>

theorem resolved_priority_permitted:
  assumes "\<forall>s. tier \<noteq> TierOther s"
  shows "is_quality_mode_available (sp_quality_mode (resolve_search_priority profile tier)) tier
         \<and> (\<exists>m c. research_modes year m = Some c \<and> can_access_research_mode year m tier
               \<and> mode_providers year (wisdev_research_mode_for_scope scope (resolve_search_priority profile tier)) tier
                   = rm_providers c
               \<and> set (rm_providers c) \<subseteq> set (provider_ids api_providers))"
proof -
  have "is_quality_mode_available (sp_quality_mode (resolve_search_priority profile tier)) tier"
    using assms by (cases profile; cases tier)
      (auto simp: resolve_search_priority_def is_quality_mode_available_def Let_def)
  moreover have "\<exists>m c. research_modes year m = Some c \<and> can_access_research_mode year m tier
        \<and> mode_providers year mode tier = rm_providers c" for mode
  proof (cases "can_access_research_mode year mode tier")
    case True
    then obtain c where "research_modes year mode = Some c"
      by (auto simp: can_access_research_mode_def split: option.splits)
    with True show ?thesis by (auto simp: mode_providers_def)
  next
    case False
    then show ?thesis using exploration_open [of year tier]
      by (intro exI [of _ ResearchExploration]) (simp add: mode_providers_def)
  qed
  ultimately show ?thesis using modes_use_known_providers by meson
qed

theorem resolved_priority_permitted_witness:
  "is_quality_mode_available (sp_quality_mode (resolve_search_priority ProfileAIFirst TierFree)) TierFree"
  using resolved_priority_permitted [of TierFree ProfileAIFirst 2025 "''broad''"] by simp

text \<open>
  A tier string that was not normalised escapes the downgrade of the AI-first profile although
  it ranks with the free tier, and the research mode is not downgraded for the free tier.
\<close>

lemma unnormalized_tier_escapes:
  "\<not> is_quality_mode_available (sp_quality_mode (resolve_search_priority ProfileAIFirst (TierOther []))) (TierOther [])"
  "\<not> can_access_research_mode year (search_research_mode (resolve_search_priority ProfileAIFirst TierFree)) TierFree"
  by (simp_all add: resolve_search_priority_def is_quality_mode_available_def can_access_research_mode_def
      subscription_tier_at_least_def)

text \<open>
  The ranking weights of every mode, known or not, are non-negative and sum to one.
\<close>

theorem ranking_weights_normalised:
  "let w = mode_ranking_weights year mode in
     w_citations w + w_recency w + w_relevance w + w_venue_prestige w + w_has_code w + w_has_pdf w
       + w_citation_velocity w = 1
     \<and> 0 \<le> w_citations w \<and> 0 \<le> w_recency w \<and> 0 \<le> w_relevance w \<and> 0 \<le> w_venue_prestige w
     \<and> 0 \<le> w_has_code w \<and> 0 \<le> w_has_pdf w \<and> 0 \<le> w_citation_velocity w"
  by (cases mode) (simp_all add: mode_ranking_weights_def no_weights_def Let_def)

text \<open>
  Access grows with the tier number: the providers at each tier up to the access level, and only
  those, are unlocked, in declaration order.
\<close>

lemma providers_up_to_tier_split:
  "set (providers_up_to_tier k) = (\<Union>j \<in> {..k}. set (providers_at_tier j))"
  by (auto simp: providers_up_to_tier_def providers_at_tier_def)

lemma providers_up_to_tier_mono: "j \<le> k \<Longrightarrow> subseq (providers_up_to_tier j) (providers_up_to_tier k)"
proof -
  assume "j \<le> k"
  then have "filter (\<lambda>p. snd p \<le> j) (filter (\<lambda>p. snd p \<le> k) xs) = filter (\<lambda>p. snd p \<le> j) xs"
    for xs :: "provider_config list" by (auto simp: filter_filter intro: filter_cong)
  then show ?thesis unfolding providers_up_to_tier_def by (metis subseq_filter_left)
qed

end
