(* ===== verification/PlanModel.thy ===== *)
theory PlanModel
  imports Guardrail
begin

text \<open>
  The data model of plans and agent sessions (\<open>orchestrator/internal/wisdev/models.go\<close>,
  \<open>synthesis.go\<close>, \<open>architecture.go\<close>, \<open>action_ids.go\<close>, \<open>approval_actions.go\<close>) and the session state
  machine (\<open>state_machine.go\<close>, \<open>execution_service.go:prepareSessionForExecution\<close>). Of
  \<open>AgentSession\<close> the record keeps the fields plan execution reads or writes; nil maps are the
  empty map. Enumerations that Go writes as strings are datatypes with a constructor for any
  other string.
\<close>

section \<open>Plans\<close>

datatype plan_risk = RiskLevelLow | RiskLevelMedium | RiskLevelHigh | RiskLevelOther string

datatype execution_target = GoNative | PythonCapability | PythonSandbox | TargetOther string

fun target_text :: "execution_target \<Rightarrow> string" where
  "target_text GoNative = ''GO_NATIVE''"
| "target_text PythonCapability = ''PYTHON_CAPABILITY''"
| "target_text PythonSandbox = ''PYTHON_SANDBOX''"
| "target_text (TargetOther s) = s"

datatype model_tier = ModelTierHeavy | ModelTierStandard | ModelTierLight | ModelTierOther string

fun to_policy_risk :: "plan_risk \<Rightarrow> risk_level" where
  "to_policy_risk RiskLevelHigh = RiskHigh"
| "to_policy_risk RiskLevelMedium = RiskMedium"
| "to_policy_risk _ = RiskLow"

record plan_step =
  step_id :: string
  action :: string
  step_reason :: string
  risk :: plan_risk
  step_model_tier :: model_tier
  execution_target :: execution_target
  parallelizable :: bool
  requires_human_checkpoint :: bool
  parallel_group :: string
  depends_on :: "string list"
  estimated_cost_cents :: int
  step_max_attempts :: int
  timeout_ms :: int
  step_params :: "json dict"

record plan_state =
  plan_id :: string
  steps :: "plan_step list"
  reasoning :: string
  completed_ids :: "bool dict"
  failed_ids :: "string dict"
  step_attempts :: "int dict"
  step_failure_count :: "int dict"
  approved_ids :: "bool dict"
  step_confidences :: "real dict"
  replan_count :: int
  pending_approval_id :: string
  pending_approval_token_hash :: string
  pending_approval_step_id :: string
  pending_approval_expires_at :: int

definition new_plan_state :: "string \<Rightarrow> plan_step list \<Rightarrow> plan_state" where
  "new_plan_state pid ss =
     \<lparr>plan_id = pid, steps = ss, reasoning = '''', completed_ids = [], failed_ids = [],
      step_attempts = [], step_failure_count = [], approved_ids = [], step_confidences = [],
      replan_count = 0, pending_approval_id = '''', pending_approval_token_hash = '''',
      pending_approval_step_id = '''', pending_approval_expires_at = 0\<rparr>"

datatype session_status = SessionQuestioning | SessionGeneratingTree | SessionEditingTree
  | SessionExecutingPlan | SessionPaused | SessionComplete | SessionFailed | StatusAbandoned
  | SessionStatusOther string

fun status_text :: "session_status \<Rightarrow> string" where
  "status_text SessionQuestioning = ''questioning''"
| "status_text SessionGeneratingTree = ''generating_tree''"
| "status_text SessionEditingTree = ''editing_tree''"
| "status_text SessionExecutingPlan = ''searching''"
| "status_text SessionPaused = ''paused''"
| "status_text SessionComplete = ''complete''"
| "status_text SessionFailed = ''failed''"
| "status_text StatusAbandoned = ''abandoned''"
| "status_text (SessionStatusOther s) = s"

record agent_session =
  session_id :: string
  session_user_id :: string
  session_query :: string
  corrected_query :: string
  original_query :: string
  session_status :: session_status
  session_mode :: string
  service_tier :: string
  assessed_complexity :: string
  failure_memory :: "int dict"
  session_plan :: "plan_state option"
  session_budget :: budget_state
  updated_at :: int

section \<open>Names\<close>

datatype wisdev_mode = WisDevModeGuided | WisDevModeYOLO

definition normalize_wisdev_mode :: "string \<Rightarrow> wisdev_mode" where
  "normalize_wisdev_mode raw =
     (let s = to_lower (trim_space raw)
      in if s = ''yolo'' \<or> s = ''autonomous'' then WisDevModeYOLO else WisDevModeGuided)"

definition canonicalize_action :: "string \<Rightarrow> string" where
  "canonicalize_action a = trim_space a"

definition canonicalize_confirmation_action :: "string \<Rightarrow> string" where
  "canonicalize_confirmation_action a =
     (let s = to_lower (trim_space a) in
      if s = ''confirm_and_execute'' then ''approve''
      else if s = ''cancel'' then ''skip''
      else if s = ''reject_replan'' then ''reject_and_replan''
      else s)"

section \<open>The session state machine\<close>

fun allowed_session_transitions :: "session_status \<Rightarrow> session_status list option" where
  "allowed_session_transitions SessionQuestioning =
     Some [SessionGeneratingTree, SessionPaused, SessionFailed]"
| "allowed_session_transitions SessionGeneratingTree =
     Some [SessionEditingTree, SessionExecutingPlan, SessionPaused, SessionFailed]"
| "allowed_session_transitions SessionEditingTree =
     Some [SessionExecutingPlan, SessionPaused, SessionFailed]"
| "allowed_session_transitions SessionExecutingPlan =
     Some [SessionPaused, SessionComplete, SessionFailed]"
| "allowed_session_transitions SessionPaused =
     Some [SessionQuestioning, SessionGeneratingTree, SessionEditingTree, SessionExecutingPlan,
           SessionFailed]"
| "allowed_session_transitions SessionComplete = Some []"
| "allowed_session_transitions SessionFailed = Some [SessionPaused]"
| "allowed_session_transitions _ = None"

definition transition_session_status ::
  "int \<Rightarrow> session_status \<Rightarrow> agent_session \<Rightarrow> agent_session \<times> go_error option" where
  "transition_session_status now next s =
     (if session_status s = next then (s, None)
      else (case allowed_session_transitions (session_status s) of
              None \<Rightarrow> (s, Some (new_error (''invalid_session_transition: '' @
                        status_text (session_status s) @ '' -> '' @ status_text next)))
            | Some ok \<Rightarrow>
                if next \<in> set ok then (s\<lparr>session_status := next, updated_at := now\<rparr>, None)
                else (s, Some (new_error (''invalid_session_transition: '' @
                        status_text (session_status s) @ '' -> '' @ status_text next)))))"

text \<open>\<open>put_err\<close> is the error of the store's \<open>Put\<close>, if it is called.\<close>

definition prepare_session_for_execution ::
  "int \<Rightarrow> go_error option \<Rightarrow> agent_session \<Rightarrow> agent_session \<times> go_error option" where
  "prepare_session_for_execution now put_err s =
     (if session_status s \<noteq> SessionQuestioning then (s, None)
      else (case session_plan s of
              None \<Rightarrow> (s, Some (new_error ''session execution plan is required''))
            | Some p \<Rightarrow>
                (case transition_session_status now SessionGeneratingTree s of
                   (s', Some e) \<Rightarrow> (s', Some e)
                 | (s', None) \<Rightarrow> (s', put_err))))"

inductive session_moves :: "session_status \<Rightarrow> session_status \<Rightarrow> bool" where
  move: "allowed_session_transitions a = Some ok \<Longrightarrow> b \<in> set ok \<Longrightarrow> session_moves a b"

lemma session_moves_iff [simp]:
  "session_moves a b \<longleftrightarrow> (\<exists>ok. allowed_session_transitions a = Some ok \<and> b \<in> set ok)"
  by (auto elim: session_moves.cases intro: session_moves.intros)

lemma transition_iff:
  "snd (transition_session_status now b s) = None
     \<longleftrightarrow> session_status s = b \<or> session_moves (session_status s) b"
  by (auto simp: transition_session_status_def split: option.splits)

lemma transition_status:
  "session_status (fst (transition_session_status now b s)) =
     (if session_status s = b \<or> session_moves (session_status s) b then b else session_status s)"
  by (auto simp: transition_session_status_def split: option.splits)

lemma transition_frame [simp]:
  "session_plan (fst (transition_session_status now b s)) = session_plan s"
  "session_budget (fst (transition_session_status now b s)) = session_budget s"
  "session_mode (fst (transition_session_status now b s)) = session_mode s"
  "session_id (fst (transition_session_status now b s)) = session_id s"
  "failure_memory (fst (transition_session_status now b s)) = failure_memory s"
  by (simp_all add: transition_session_status_def split: option.splits)

lemma complete_absorbing: "session_moves\<^sup>*\<^sup>* SessionComplete b \<Longrightarrow> b = SessionComplete"
  by (erule converse_rtranclpE) auto

lemma moves_to_executing:
  "a \<notin> {SessionComplete, StatusAbandoned} \<Longrightarrow> (\<forall>s. a \<noteq> SessionStatusOther s) \<Longrightarrow>
     session_moves\<^sup>*\<^sup>* a SessionExecutingPlan"
proof -
  assume a: "a \<notin> {SessionComplete, StatusAbandoned}" "\<forall>s. a \<noteq> SessionStatusOther s"
  have p: "session_moves SessionPaused SessionExecutingPlan" by simp
  show ?thesis
  proof (cases "session_moves a SessionPaused")
    case True
    with p show ?thesis by (meson converse_rtranclp_into_rtranclp r_into_rtranclp)
  next
    case False
    with a have "a = SessionPaused" by (cases a) auto
    with p show ?thesis by blast
  qed
qed

text \<open>
  The session state machine: a transition succeeds exactly along the table (or to the same
  status), an illegal one changes nothing and reports both statuses; a complete session never
  leaves that status and an abandoned one cannot be entered; execution and completion are
  reachable from every other status of the table, also from a failed session, by way of a pause.
\<close>

theorem session_machine:
  "(snd (transition_session_status now b s) = None \<longleftrightarrow>
      session_status s = b \<or> session_moves (session_status s) b)
   \<and> (snd (transition_session_status now b s) \<noteq> None \<longrightarrow> fst (transition_session_status now b s) = s)
   \<and> (session_moves\<^sup>*\<^sup>* SessionComplete c \<longrightarrow> c = SessionComplete)
   \<and> \<not> session_moves a StatusAbandoned
   \<and> (a \<in> {SessionQuestioning, SessionGeneratingTree, SessionEditingTree, SessionExecutingPlan,
            SessionPaused, SessionFailed}
        \<longrightarrow> session_moves\<^sup>*\<^sup>* a SessionExecutingPlan \<and> session_moves\<^sup>*\<^sup>* a SessionComplete)"
proof -
  have "\<not> session_moves a StatusAbandoned" by (cases a) auto
  moreover have "session_moves SessionExecutingPlan SessionComplete" by simp
  then have "session_moves\<^sup>*\<^sup>* a SessionExecutingPlan \<Longrightarrow> session_moves\<^sup>*\<^sup>* a SessionComplete" for a
    by (meson rtranclp.rtrancl_into_rtrancl)
  moreover have "snd (transition_session_status now b s) \<noteq> None \<Longrightarrow> fst (transition_session_status now b s) = s"
    by (auto simp: transition_session_status_def split: option.splits if_splits)
  ultimately show ?thesis
    using transition_iff [of now b s] complete_absorbing [of c] moves_to_executing [of a] by auto
qed

theorem session_machine_witness:
  "session_moves\<^sup>*\<^sup>* SessionFailed SessionComplete"
  using session_machine [of 0 undefined undefined SessionComplete SessionFailed] by blast

lemma prepare_leaves_questioning:
  "snd (prepare_session_for_execution now None s) = None \<Longrightarrow>
     session_status (fst (prepare_session_for_execution now None s)) \<noteq> SessionQuestioning"
  by (auto simp: prepare_session_for_execution_def transition_session_status_def split: option.splits)

section \<open>Concrete values for the examples\<close>

definition example_session :: "string \<Rightarrow> plan_state \<Rightarrow> agent_session" where
  "example_session mode p =
     \<lparr>session_id = ''s1'', session_user_id = ''u1'', session_query = ''sleep and memory'',
      corrected_query = '''', original_query = ''sleep and memory'',
      session_status = SessionGeneratingTree, session_mode = mode, service_tier = ''priority'',
      assessed_complexity = '''', failure_memory = [], session_plan = Some p,
      session_budget = new_budget_state 0 (default_policy_config ''''), updated_at = 0\<rparr>"

definition example_step :: "string \<Rightarrow> string list \<Rightarrow> plan_step" where
  "example_step sid deps =
     \<lparr>step_id = sid, action = ''research.retrievePapers'', step_reason = ''find papers'', risk = RiskLevelLow,
      step_model_tier = ModelTierStandard, execution_target = GoNative, parallelizable = True,
      requires_human_checkpoint = False, parallel_group = '''', depends_on = deps,
      estimated_cost_cents = 3, step_max_attempts = 2, timeout_ms = 30000, step_params = []\<rparr>"

lemma example_simps [simp]:
  "session_plan (example_session m p) = Some p"
  "session_status (example_session m p) = SessionGeneratingTree"
  "session_mode (example_session m p) = m"
  "session_id (example_session m p) = ''s1''"
  "failure_memory (example_session m p) = []"
  "step_id (example_step sid deps) = sid"
  "depends_on (example_step sid deps) = deps"
  "risk (example_step sid deps) = RiskLevelLow"
  "requires_human_checkpoint (example_step sid deps) = False"
  "execution_target (example_step sid deps) = GoNative"
  "parallelizable (example_step sid deps) = True"
  "estimated_cost_cents (example_step sid deps) = 3"
  "step_max_attempts (example_step sid deps) = 2"
  "tool_calls_used (session_budget (example_session m p)) = 0"
  "script_runs_used (session_budget (example_session m p)) = 0"
  "cost_cents_used (session_budget (example_session m p)) = 0"
  "max_tool_calls (session_budget (example_session m p)) = 24"
  "max_script_runs (session_budget (example_session m p)) = 1"
  "max_cost_cents (session_budget (example_session m p)) = 50"
  by (simp_all add: example_session_def example_step_def new_budget_state_def
      default_policy_config_def unleashed_policy_mode_def)

end
