(* ===== verification/StepExecutor.thy ===== *)
theory StepExecutor
  imports PlanModel
begin

text \<open>
  One step of a plan (\<open>orchestrator/internal/wisdev/executor.go\<close>): the guards of
  \<open>executeStepOnce\<close>, the payload it hands over, the dispatch to a delegate, to a Go-native action
  or to the Python sidecar with its retry loop, and \<open>RunStepWithRecovery\<close>. What the callees
  answer (sidecar, native actions, ADK runtime, language model, configuration of model names) is
  the record \<open>attempt_world\<close>, one for each attempt. Log and trace calls are left out. The cached
  complexity assessment only selects the model's name and is an input here.
\<close>

section \<open>Classification helpers\<close>

definition contains_one :: "string \<Rightarrow> string list \<Rightarrow> bool" where
  "contains_one s ts \<longleftrightarrow> list_ex (contains s) ts"

definition degraded_query :: "string \<Rightarrow> string" where
  "degraded_query query =
     (let trimmed = trim_space query; parts = str_fields trimmed in
      if trimmed = [] then trimmed
      else if length parts \<le> 6 then trimmed
      else join '' '' (take 6 parts))"

definition classify_error_code :: "go_error option \<Rightarrow> string" where
  "classify_error_code err =
     (case err of None \<Rightarrow> ''''
      | Some e \<Rightarrow>
         (let raw = to_lower (err_text e) in
          if contains_one raw [''timeout'', ''deadline exceeded''] then ''TOOL_TIMEOUT''
          else if contains_one raw [''rate limit'', ''rate_limit'', ''too many requests'', ''429'']
          then ''TOOL_RATE_LIMIT''
          else if contains_one raw [''invalid argument'', ''schema'', ''validation'']
          then ''TOOL_SCHEMA_INVALID''
          else if contains_one raw [''guardrail'', ''blocked'', ''policy''] then ''GUARDRAIL_BLOCKED''
          else if contains_one raw [''confirmation'', ''approval''] then ''CONFIRMATION_REQUIRED''
          else if contains_one raw [''not found'', ''unknown action''] then ''TOOL_NOT_FOUND''
          else if contains_one raw [''budget'', ''cost exceeded''] then ''BUDGET_EXCEEDED''
          else if contains_one raw [''unauthorized'', ''forbidden'', ''401'', ''403''] then ''AUTH_FAILED''
          else ''TOOL_EXEC_FAILED''))"

definition is_terminal_automatic_replan_failure :: "string \<Rightarrow> bool" where
  "is_terminal_automatic_replan_failure reason =
     (let n = to_upper (trim_space reason) in
      if n = [] then False
      else if n \<in> {''GUARDRAIL_BLOCKED'', ''AUTH_FAILED'', ''TOOL_NOT_FOUND'', ''BUDGET_EXCEEDED''} then True
      else if list_ex (has_prefix n)
                [''GUARDRAIL_BLOCKED:'', ''FATAL:'', ''UNAUTHORIZED:'', ''INVALID_INPUT:'', ''NOT_FOUND:'']
      then True
      else contains n ''BUDGET_EXCEEDED'')"

definition is_retryable_python_execution_error :: "go_error option \<Rightarrow> bool" where
  "is_retryable_python_execution_error err =
     (case err of None \<Rightarrow> False
      | Some e \<Rightarrow>
          if errors_is e ContextCanceled \<or> errors_is e ContextDeadlineExceeded then False
          else \<not> contains_one (to_lower (err_text e))
                 [''context canceled'', ''context deadline exceeded'', ''guardrail_blocked'',
                  ''unknown action'', ''not initialised'', ''not implemented''])"

definition resolve_model_for_tier :: "(model_tier \<Rightarrow> string) \<Rightarrow> model_tier \<Rightarrow> budget_state \<Rightarrow> string" where
  "resolve_model_for_tier name tier b =
     (let tier = (if tier = ModelTierOther '''' then ModelTierStandard else tier);
          tier = (if tier = ModelTierHeavy \<and> s64 (max_cost_cents b - cost_cents_used b) < 50
                  then ModelTierStandard else tier)
      in case tier of
           ModelTierHeavy \<Rightarrow> name ModelTierHeavy
         | ModelTierStandard \<Rightarrow> name ModelTierStandard
         | ModelTierLight \<Rightarrow> name ModelTierLight
         | _ \<Rightarrow> name ModelTierStandard)"

definition default_go_native_step_limit :: "string \<Rightarrow> int" where
  "default_go_native_step_limit act =
     (if canonicalize_action act \<in> {''research.retrievePapers'', ''search''} then 50 else 10)"

section \<open>Guards\<close>

definition step_execution_budget_exceeded :: "plan_step \<Rightarrow> budget_state \<Rightarrow> string option" where
  "step_execution_budget_exceeded step b =
     (if max_tool_calls b \<le> tool_calls_used b then Some ''tool_budget_exceeded''
      else if execution_target step = PythonSandbox \<and> max_script_runs b \<le> script_runs_used b
      then Some ''script_budget_exceeded''
      else if 0 < estimated_cost_cents step \<and>
              max_cost_cents b < s64 (cost_cents_used b + estimated_cost_cents step)
      then Some ''cost_budget_exceeded''
      else None)"

definition should_bypass_confirmation :: "agent_session \<Rightarrow> plan_step \<Rightarrow> bool" where
  "should_bypass_confirmation s step =
     (if normalize_wisdev_mode (session_mode s) \<noteq> WisDevModeYOLO then False
      else if execution_target step = PythonSandbox then False
      else has_prefix (canonicalize_action (action step)) ''research.'')"

definition step_approved :: "agent_session \<Rightarrow> plan_step \<Rightarrow> bool" where
  "step_approved s step =
     (case session_plan s of None \<Rightarrow> False
      | Some p \<Rightarrow> dict_get_or False (approved_ids p) (step_id step))"

text \<open>The error message with which \<open>executeStepOnce\<close> returns before any work, if it does.\<close>

definition step_guards :: "policy_config \<Rightarrow> agent_session \<Rightarrow> plan_step \<Rightarrow> string option" where
  "step_guards cfg s step =
     (case step_execution_budget_exceeded step (session_budget s) of
        Some reason \<Rightarrow> Some (''GUARDRAIL_BLOCKED:'' @ reason)
      | None \<Rightarrow>
         (let guard = evaluate_guardrail cfg (session_budget s) (to_policy_risk (risk step))
                        (execution_target step = PythonSandbox) (estimated_cost_cents step);
              approved = step_approved s step
          in if \<not> allowed guard then Some (''GUARDRAIL_BLOCKED:'' @ gd_reason guard)
             else if requires_confirmation guard \<and> \<not> approved \<and> \<not> should_bypass_confirmation s step
             then Some (''CONFIRMATION_REQUIRED:'' @ gd_reason guard)
             else if requires_human_checkpoint step \<and> \<not> approved \<and> \<not> should_bypass_confirmation s step
             then Some ''CONFIRMATION_REQUIRED:human checkpoint required''
             else None))"

section \<open>Dispatch\<close>

record reply =
  rp_err :: "go_error option"
  rp_payload :: "json dict"
  rp_sources :: "string list"
  rp_confidence :: real

definition failed_reply :: "string \<Rightarrow> reply" where
  "failed_reply m = \<lparr>rp_err = Some (new_error m), rp_payload = [], rp_sources = [], rp_confidence = 0\<rparr>"

definition error_reply :: "go_error \<Rightarrow> reply" where
  "error_reply e = \<lparr>rp_err = Some e, rp_payload = [], rp_sources = [], rp_confidence = 0\<rparr>"

datatype delegation = NotDelegated | DelegatedHandled "json dict \<Rightarrow> reply" | DelegatedFallthrough

record attempt_world =
  aw_query :: string
  aw_model_name :: "model_tier \<Rightarrow> string"
  aw_complexity :: string
  aw_inject :: "json dict \<Rightarrow> json dict"
  aw_text :: "json option \<Rightarrow> string"
  aw_int :: "json option \<Rightarrow> int"
  aw_panic :: "string option"
  aw_delegation :: delegation
  aw_native :: "json dict \<Rightarrow> reply"
  aw_python_configured :: bool
  aw_python :: "int \<Rightarrow> json dict \<Rightarrow> reply"
  aw_ctx_done :: "int \<Rightarrow> go_error option"

definition step_confidences_before :: "agent_session \<Rightarrow> plan_step \<Rightarrow> json dict" where
  "step_confidences_before s step =
     (case session_plan s of None \<Rightarrow> []
      | Some p \<Rightarrow> foldl (\<lambda>d dep. case dict_get (step_confidences p) dep of
                            Some c \<Rightarrow> dict_set dep (JNum c) d | None \<Rightarrow> d) [] (depends_on step))"

definition plan_id_of :: "agent_session \<Rightarrow> string" where
  "plan_id_of s = (case session_plan s of None \<Rightarrow> '''' | Some p \<Rightarrow> plan_id p)"

text \<open>The name of the model that is handed over, after the budget's downgrade and the triage's.\<close>

definition step_model :: "attempt_world \<Rightarrow> agent_session \<Rightarrow> plan_step \<Rightarrow> string" where
  "step_model w s step =
     (let name = resolve_model_for_tier (aw_model_name w) (step_model_tier step) (session_budget s) in
      if step_model_tier step = ModelTierHeavy \<and> name = aw_model_name w ModelTierHeavy \<and>
         aw_complexity w \<in> {''low'', ''medium''}
      then aw_model_name w ModelTierStandard else name)"

fun risk_text :: "plan_risk \<Rightarrow> string" where
  "risk_text RiskLevelLow = ''low''"
| "risk_text RiskLevelMedium = ''medium''"
| "risk_text RiskLevelHigh = ''high''"
| "risk_text (RiskLevelOther r) = r"

definition base_payload :: "attempt_world \<Rightarrow> agent_session \<Rightarrow> plan_step \<Rightarrow> bool \<Rightarrow> json dict" where
  "base_payload w s step degraded =
     (let set = (\<lambda>d (k, v). dict_set k v d);
          p = foldl set (step_params step)
            [(''sessionId'', JStr (session_id s)), (''planId'', JStr (plan_id_of s)),
             (''planStepId'', JStr (step_id step)), (''planStepAction'', JStr (action step)),
             (''degraded'', JBool degraded),
             (''ExecutionTarget'', JStr (target_text (execution_target step))),
             (''risk'', JStr (risk_text (risk step))),
             (''requiresHumanCheckpoint'', JBool (requires_human_checkpoint step)),
             (''verificationRequired'', JBool (requires_human_checkpoint step)),
             (''executionMode'', JStr (session_mode s)), (''operationMode'', JStr (session_mode s)),
             (''serviceTier'', JStr (service_tier s)),
             (''modeManifest'', JObj [(''mode'', JStr (session_mode s)), (''serviceTier'', JStr (service_tier s))]),
             (''academicIntegrity'', JObj [(''requireCanonicalBibliography'', JBool True)])];
          p = (if depends_on step \<noteq> []
               then (let p = set p (''dependsOnStepIds'', JArr (map JStr (depends_on step)));
                         prev = step_confidences_before s step
                     in if prev \<noteq> [] then set p (''previous_step_confidences'', JObj prev) else p)
               else p);
          p = (if parallel_group step \<noteq> [] then set p (''parallelGroup'', JStr (parallel_group step)) else p);
          p = aw_inject w p;
          p = set p (''model'', JStr (step_model w s step))
      in if trim_space (aw_text w (dict_get p ''query'')) = []
         then set p (''query'', JStr (aw_query w)) else p)"

definition degrade_query :: "attempt_world \<Rightarrow> json dict \<Rightarrow> json dict" where
  "degrade_query w p = dict_set ''query'' (JStr (degraded_query (aw_text w (dict_get p ''query'')))) p"

definition native_payload :: "attempt_world \<Rightarrow> plan_step \<Rightarrow> bool \<Rightarrow> json dict \<Rightarrow> json dict" where
  "native_payload w step degraded p =
     (let p = dict_set ''maxAttempts'' (JNum (real_of_int (step_max_attempts step))) p;
          p = (if dict_get p ''limit'' = None
               then dict_set ''limit'' (JNum (real_of_int (default_go_native_step_limit (action step)))) p else p)
      in if degraded
         then (let p = degrade_query w p
               in dict_set ''limit'' (JNum (real_of_int (min (aw_int w (dict_get p ''limit'')) 5))) p)
         else p)"

text \<open>The sidecar is asked up to three times; \<open>k\<close> attempts are left, the next is number \<open>n\<close>.\<close>

fun python_attempts :: "attempt_world \<Rightarrow> json dict \<Rightarrow> nat \<Rightarrow> int \<Rightarrow> reply" where
  "python_attempts w p 0 n = failed_reply ''''"
| "python_attempts w p (Suc k) n =
     (let r = aw_python w n p in
      case rp_err r of
        None \<Rightarrow> r\<lparr>rp_confidence := (case dict_get (rp_payload r) ''confidence'' of
                                     Some (JNum c) \<Rightarrow> c | _ \<Rightarrow> 9 / 10)\<rparr>
      | Some e \<Rightarrow>
          if \<not> is_retryable_python_execution_error (Some e) \<or> k = 0 then error_reply e
          else (case aw_ctx_done w n of
                  Some c \<Rightarrow> error_reply c
                | None \<Rightarrow> python_attempts w p k (n + 1)))"

definition execute_python_step :: "attempt_world \<Rightarrow> plan_step \<Rightarrow> json dict \<Rightarrow> bool \<Rightarrow> reply" where
  "execute_python_step w step p degraded =
     (let v = validate_sandbox_snippet (action step) in
      if execution_target step = PythonSandbox \<and> \<not> sv_valid v
      then failed_reply (''GUARDRAIL_BLOCKED:'' @ sv_reason v)
      else (let p = (if degraded then degrade_query w p else p) in
            if \<not> aw_python_configured w then failed_reply ''python executor not configured''
            else python_attempts w p 3 1))"

definition execute_delegated_step :: "attempt_world \<Rightarrow> plan_step \<Rightarrow> json dict \<Rightarrow> bool \<Rightarrow> reply" where
  "execute_delegated_step w step p degraded =
     (case aw_delegation w of
        DelegatedHandled run \<Rightarrow>
          (let r = run p; c = max 0 (min 1 (rp_confidence r))
           in r\<lparr>rp_confidence := (if 0 < c then c else 88 / 100)\<rparr>)
      | _ \<Rightarrow>
          (case execution_target step of
             GoNative \<Rightarrow> aw_native w (native_payload w step degraded p)
           | PythonCapability \<Rightarrow> execute_python_step w step p degraded
           | PythonSandbox \<Rightarrow> execute_python_step w step p degraded
           | TargetOther t \<Rightarrow> failed_reply (''unsupported delegated execution target: '' @ t)))"

definition dispatch_step :: "attempt_world \<Rightarrow> plan_step \<Rightarrow> json dict \<Rightarrow> bool \<Rightarrow> reply" where
  "dispatch_step w step p degraded =
     (case aw_delegation w of
        NotDelegated \<Rightarrow>
          (case execution_target step of
             GoNative \<Rightarrow> aw_native w (native_payload w step degraded p)
           | PythonCapability \<Rightarrow> execute_python_step w step p degraded
           | PythonSandbox \<Rightarrow> execute_python_step w step p degraded
           | TargetOther t \<Rightarrow> failed_reply (''unsupported execution target: '' @ t))
      | _ \<Rightarrow> execute_delegated_step w step p degraded)"

text \<open>
  \<open>executeStepOnce\<close> with the recovery of panics around it. A panic can only come from the
  dispatched work; the guards do not panic.
\<close>

definition execute_step_once ::
  "policy_config \<Rightarrow> agent_session \<Rightarrow> plan_step \<Rightarrow> attempt_world \<Rightarrow> bool \<Rightarrow> reply" where
  "execute_step_once cfg s step w degraded =
     (case step_guards cfg s step of
        Some msg \<Rightarrow> failed_reply msg
      | None \<Rightarrow>
         (case aw_panic w of
            Some p \<Rightarrow> failed_reply (''step panic recovered: '' @ p)
          | None \<Rightarrow> dispatch_step w step (base_payload w s step degraded) degraded))"

section \<open>\<open>RunStepWithRecovery\<close>\<close>

record step_result =
  sr_step :: plan_step
  sr_err :: "go_error option"
  sr_attempt :: int
  sr_degraded :: bool
  sr_lane :: int
  sr_payload :: "json dict"
  sr_sources :: "string list"
  sr_confidence :: real

definition confirmation_prefix :: string where
  "confirmation_prefix = ''CONFIRMATION_REQUIRED:''"

definition asks_confirmation :: "go_error option \<Rightarrow> bool" where
  "asks_confirmation err = (case err of None \<Rightarrow> False | Some e \<Rightarrow> has_prefix (err_text e) confirmation_prefix)"

definition effective_attempts :: "plan_step \<Rightarrow> int" where
  "effective_attempts step = (if step_max_attempts step \<le> 0 then 2 else step_max_attempts step)"

definition step_result_of :: "plan_step \<Rightarrow> int \<Rightarrow> int \<Rightarrow> bool \<Rightarrow> reply \<Rightarrow> step_result" where
  "step_result_of step lane attempt degraded r =
     \<lparr>sr_step = step, sr_err = rp_err r, sr_attempt = attempt, sr_degraded = degraded, sr_lane = lane,
      sr_payload = rp_payload r, sr_sources = rp_sources r, sr_confidence = rp_confidence r\<rparr>"

text \<open>\<open>k\<close> attempts left after the failed ones, of which \<open>prev\<close> is the latest.\<close>

fun recovery_loop ::
  "policy_config \<Rightarrow> agent_session \<Rightarrow> plan_step \<Rightarrow> (int \<Rightarrow> attempt_world) \<Rightarrow> int \<Rightarrow> nat \<Rightarrow> int \<Rightarrow> reply \<Rightarrow> step_result" where
  "recovery_loop cfg s step w lane 0 attempt prev =
     step_result_of step lane (attempt - 1) True prev"
| "recovery_loop cfg s step w lane (Suc k) attempt prev =
     (let degraded = 1 < attempt;
          r = execute_step_once cfg s step (w attempt) degraded
      in if rp_err r = None then step_result_of step lane attempt degraded r
         else if asks_confirmation (rp_err r) then step_result_of step lane attempt False r
         else recovery_loop cfg s step w lane k (attempt + 1) r)"

definition run_step_with_recovery ::
  "policy_config \<Rightarrow> agent_session \<Rightarrow> plan_step \<Rightarrow> (int \<Rightarrow> attempt_world) \<Rightarrow> int \<Rightarrow> step_result" where
  "run_step_with_recovery cfg s step w lane =
     recovery_loop cfg s step w lane (nat (effective_attempts step)) 1
       \<lparr>rp_err = None, rp_payload = [], rp_sources = [], rp_confidence = 0\<rparr>"

section \<open>Properties of one step\<close>

lemma budget_check_agrees:
  "(case step_execution_budget_exceeded step b of None \<Rightarrow> None | Some r \<Rightarrow> Some (deny r)) =
     evaluate_hard_budget_guardrail b (execution_target step = PythonSandbox) (estimated_cost_cents step)"
  by (simp add: step_execution_budget_exceeded_def evaluate_hard_budget_guardrail_def)

lemma budget_ok_allowed:
  "step_execution_budget_exceeded step b = None \<Longrightarrow>
     allowed (evaluate_guardrail cfg b (to_policy_risk (risk step)) (execution_target step = PythonSandbox)
                (estimated_cost_cents step))"
  using budget_check_agrees [of step b] by (simp add: allowed_iff)

definition needs_confirmation :: "policy_config \<Rightarrow> plan_step \<Rightarrow> bool" where
  "needs_confirmation cfg step \<longleftrightarrow> requires_human_checkpoint step \<or>
     (case risk step of
        RiskLevelHigh \<Rightarrow> always_confirm_high_risk cfg
      | RiskLevelMedium \<Rightarrow> require_confirmation_for_medium cfg
      | _ \<Rightarrow> \<not> allow_low_risk_auto_run cfg)"

lemma guards_None_iff:
  "step_guards cfg s step = None \<longleftrightarrow>
     step_execution_budget_exceeded step (session_budget s) = None \<and>
     (needs_confirmation cfg step \<longrightarrow> step_approved s step \<or> should_bypass_confirmation s step)"
proof (cases "step_execution_budget_exceeded step (session_budget s)")
  case None
  let ?g = "evaluate_guardrail cfg (session_budget s) (to_policy_risk (risk step))
              (execution_target step = PythonSandbox) (estimated_cost_cents step)"
  have ok: "allowed ?g" using None by (rule budget_ok_allowed)
  have "requires_confirmation ?g \<longleftrightarrow>
     (case risk step of RiskLevelHigh \<Rightarrow> always_confirm_high_risk cfg
      | RiskLevelMedium \<Rightarrow> require_confirmation_for_medium cfg
      | _ \<Rightarrow> \<not> allow_low_risk_auto_run cfg)"
    using ok allowed_iff [of cfg "session_budget s" "to_policy_risk (risk step)"
        "execution_target step = PythonSandbox" "estimated_cost_cents step"]
    by (cases "risk step") (simp_all add: evaluate_guardrail_def evaluate_guardrail_table
        evaluate_guardrail_heuristic_def permit_def)
  with ok None show ?thesis by (auto simp: step_guards_def Let_def needs_confirmation_def)
qed (simp add: step_guards_def)

lemma guards_Some_cases:
  assumes "step_guards cfg s step = Some m"
  shows "(has_prefix m confirmation_prefix \<and> step_execution_budget_exceeded step (session_budget s) = None
            \<and> needs_confirmation cfg step \<and> \<not> step_approved s step)
         \<or> (\<exists>r \<in> {''tool_budget_exceeded'', ''script_budget_exceeded'', ''cost_budget_exceeded''}.
               step_execution_budget_exceeded step (session_budget s) = Some r
               \<and> m = ''GUARDRAIL_BLOCKED:'' @ r)"
proof (cases "step_execution_budget_exceeded step (session_budget s)")
  case None
  with assms guards_None_iff [of cfg s step] budget_ok_allowed [OF None, of cfg]
  show ?thesis
    by (auto simp: step_guards_def Let_def has_prefix_def confirmation_prefix_def split: if_splits)
next
  case (Some r)
  then have "r \<in> {''tool_budget_exceeded'', ''script_budget_exceeded'', ''cost_budget_exceeded''}"
    by (auto simp: step_execution_budget_exceeded_def split: if_splits)
  with Some assms show ?thesis by (auto simp: step_guards_def)
qed

lemma budget_refusal_terminal:
  "is_terminal_automatic_replan_failure (''GUARDRAIL_BLOCKED:'' @ ''tool_budget_exceeded'')"
  "is_terminal_automatic_replan_failure (''GUARDRAIL_BLOCKED:'' @ ''script_budget_exceeded'')"
  "is_terminal_automatic_replan_failure (''GUARDRAIL_BLOCKED:'' @ ''cost_budget_exceeded'')"
  by code_simp+

lemma budget_refusal_no_confirmation:
  "\<not> has_prefix (''GUARDRAIL_BLOCKED:'' @ r) confirmation_prefix"
  by (simp add: has_prefix_def confirmation_prefix_def)

lemma effective_attempts_pos: "1 \<le> effective_attempts step"
  by (simp add: effective_attempts_def)

lemma recovery_loop_step [simp]: "sr_step (recovery_loop cfg s step w lane k a prev) = step"
  by (induction k arbitrary: a prev) (simp_all add: step_result_of_def Let_def)

lemma run_step_step [simp]: "sr_step (run_step_with_recovery cfg s step w lane) = step"
  by (simp add: run_step_with_recovery_def)

lemma recovery_loop_attempts:
  "a - 1 \<le> sr_attempt (recovery_loop cfg s step w lane k a prev)
   \<and> sr_attempt (recovery_loop cfg s step w lane k a prev) \<le> a - 1 + int k
   \<and> (k \<noteq> 0 \<longrightarrow> a \<le> sr_attempt (recovery_loop cfg s step w lane k a prev))"
proof (induction k arbitrary: a prev)
  case 0
  then show ?case by (simp add: step_result_of_def)
next
  case (Suc k)
  from Suc.IH [of "a + 1" "execute_step_once cfg s step (w a) (1 < a)"] show ?case
    by (auto simp: step_result_of_def Let_def)
qed

text \<open>The guards look only at the session and the step, so every attempt meets the same ones.\<close>

lemma recovery_loop_blocked:
  assumes "step_guards cfg s step = Some m" and "k \<noteq> 0"
  shows "sr_err (recovery_loop cfg s step w lane k a prev) = Some (new_error m)
         \<and> sr_payload (recovery_loop cfg s step w lane k a prev) = []
         \<and> sr_sources (recovery_loop cfg s step w lane k a prev) = []"
  using assms(2)
proof (induction k arbitrary: a prev)
  case (Suc k)
  have "execute_step_once cfg s step (w a) (1 < a) = failed_reply m"
    by (simp add: execute_step_once_def assms(1))
  then show ?case using Suc.IH [of "a + 1" "failed_reply m"]
    by (cases "k = 0") (auto simp: Let_def step_result_of_def failed_reply_def)
qed simp

lemma run_step_blocked:
  assumes "step_guards cfg s step = Some m"
  shows "sr_err (run_step_with_recovery cfg s step w lane) = Some (new_error m)
         \<and> sr_payload (run_step_with_recovery cfg s step w lane) = []
         \<and> sr_sources (run_step_with_recovery cfg s step w lane) = []"
  unfolding run_step_with_recovery_def
  by (rule recovery_loop_blocked [OF assms]) (use effective_attempts_pos [of step] in simp)

lemma run_step_success_guards:
  "sr_err (run_step_with_recovery cfg s step w lane) = None \<Longrightarrow> step_guards cfg s step = None"
  using run_step_blocked [of cfg s step _ w lane] by (cases "step_guards cfg s step") auto

lemma run_step_confirmation:
  assumes "step_guards cfg s step = Some m" "has_prefix m confirmation_prefix"
  shows "sr_attempt (run_step_with_recovery cfg s step w lane) = 1 \<and> \<not> sr_degraded (run_step_with_recovery cfg s step w lane)"
proof -
  obtain k where k: "nat (effective_attempts step) = Suc k"
    using effective_attempts_pos [of step] by (cases "nat (effective_attempts step)") auto
  show ?thesis
    unfolding run_step_with_recovery_def k
    by (simp add: Let_def execute_step_once_def assms failed_reply_def asks_confirmation_def step_result_of_def)
qed

lemma recovery_loop_refused:
  assumes "step_guards cfg s step = Some m" "\<not> has_prefix m confirmation_prefix"
  shows "sr_attempt (recovery_loop cfg s step w lane k a prev) = a - 1 + int k"
proof (induction k arbitrary: a prev)
  case (Suc k)
  have "execute_step_once cfg s step (w a) (1 < a) = failed_reply m"
    by (simp add: execute_step_once_def assms(1))
  then show ?case using Suc.IH [of "a + 1" "failed_reply m"] assms(2)
    by (simp add: Let_def failed_reply_def asks_confirmation_def)
qed (simp add: step_result_of_def)

text \<open>
  C2. A step that needs a confirmation - because a human checkpoint is set on it, or because its
  risk does under the policy - never succeeds unless it was approved, or the session runs
  autonomously (YOLO), the action is an internal one (\<open>research.\<close>) and the step does not run in
  the sandbox. Without one of these nothing is dispatched: the outcome is the same whatever the
  callees would have answered, with no papers and no payload. As long as the step fits the budget
  of the session it ends at once, on its first attempt and not degraded, asking for confirmation;
  when it does not, the guardrail refuses it before the confirmation is looked at, and every
  allowed attempt is used up on the same refusal.
\<close>

theorem unapproved_step_never_runs:
  assumes "needs_confirmation cfg step" and "\<not> step_approved s step"
    and "\<not> (normalize_wisdev_mode (session_mode s) = WisDevModeYOLO \<and> execution_target step \<noteq> PythonSandbox
            \<and> has_prefix (trim_space (action step)) ''research.'')"
  shows "sr_err (run_step_with_recovery cfg s step w lane) \<noteq> None
         \<and> sr_sources (run_step_with_recovery cfg s step w lane) = []
         \<and> sr_payload (run_step_with_recovery cfg s step w lane) = []
         \<and> (case step_execution_budget_exceeded step (session_budget s) of
              None \<Rightarrow> asks_confirmation (sr_err (run_step_with_recovery cfg s step w lane))
                \<and> sr_attempt (run_step_with_recovery cfg s step w lane) = 1
                \<and> \<not> sr_degraded (run_step_with_recovery cfg s step w lane)
            | Some r \<Rightarrow> sr_err (run_step_with_recovery cfg s step w lane) = Some (new_error (''GUARDRAIL_BLOCKED:'' @ r))
                \<and> sr_attempt (run_step_with_recovery cfg s step w lane)
                    = (if step_max_attempts step \<le> 0 then 2 else step_max_attempts step))
         \<and> run_step_with_recovery cfg s step w lane = run_step_with_recovery cfg s step w' lane"
proof -
  have nb: "\<not> should_bypass_confirmation s step"
    using assms(3) by (auto simp: should_bypass_confirmation_def canonicalize_action_def)
  obtain m where m: "step_guards cfg s step = Some m"
    using guards_None_iff [of cfg s step] assms(1,2) nb by (cases "step_guards cfg s step") auto
  have "recovery_loop cfg s step w lane k a p = recovery_loop cfg s step w' lane k a p" for k a p
    by (induction k arbitrary: a p) (simp_all add: Let_def execute_step_once_def m)
  then have same: "run_step_with_recovery cfg s step w lane = run_step_with_recovery cfg s step w' lane"
    by (simp only: run_step_with_recovery_def)
  note out = run_step_blocked [OF m, of w lane]
  consider
    (ask) "has_prefix m confirmation_prefix" "step_execution_budget_exceeded step (session_budget s) = None"
  | (refused) r where "step_execution_budget_exceeded step (session_budget s) = Some r" "m = ''GUARDRAIL_BLOCKED:'' @ r"
    by (rule disjE [OF guards_Some_cases [OF m]]; elim conjE bexE) (rule that; assumption)+
  then show ?thesis
  proof cases
    case ask
    then show ?thesis
      unfolding same [symmetric] using out run_step_confirmation [OF m ask(1), of w lane] by (simp add: asks_confirmation_def)
  next
    case refused
    have "sr_attempt (run_step_with_recovery cfg s step w lane) = effective_attempts step"
      using recovery_loop_refused [OF m] budget_refusal_no_confirmation effective_attempts_pos [of step]
      by (simp add: run_step_with_recovery_def refused(2))
    then show ?thesis
      unfolding same [symmetric] using out refused by (simp add: effective_attempts_def)
  qed
qed

definition idle_world :: attempt_world where
  "idle_world =
     \<lparr>aw_query = ''sleep and memory'', aw_model_name = (\<lambda>_. ''m''), aw_complexity = '''', aw_inject = id,
      aw_text = json_str, aw_int = (\<lambda>_. 0), aw_panic = None, aw_delegation = NotDelegated,
      aw_native = (\<lambda>p. \<lparr>rp_err = None, rp_payload = [], rp_sources = [''p1''], rp_confidence = 85 / 100\<rparr>),
      aw_python_configured = True,
      aw_python = (\<lambda>n p. if n < 3 then failed_reply ''connection refused''
                        else \<lparr>rp_err = None, rp_payload = [], rp_sources = [], rp_confidence = 0\<rparr>),
      aw_ctx_done = (\<lambda>_. None)\<rparr>"

theorem unapproved_step_never_runs_witness:
  "sr_err (run_step_with_recovery (default_policy_config '''')
      (example_session ''guided'' (new_plan_state ''p1'' []))
      ((example_step ''a'' [])\<lparr>requires_human_checkpoint := True\<rparr>) (\<lambda>_. idle_world) 1) \<noteq> None"
  by (rule conjunct1 [OF unapproved_step_never_runs])
    (simp_all add: needs_confirmation_def step_approved_def new_plan_state_def normalize_wisdev_mode_def
      to_lower_def lower_char_def trim_space_def is_space_def)

text \<open>
  The attempts of a step are bounded: at least one is made and at most \<open>MaxAttempts\<close> (two
  when unset), and a step that a budget limit refuses reports the guardrail's error, which the
  executor treats as final: it never triggers an automatic replan.
\<close>

theorem step_attempts_bounded:
  "1 \<le> sr_attempt (run_step_with_recovery cfg s step w lane)
   \<and> sr_attempt (run_step_with_recovery cfg s step w lane)
       \<le> (if step_max_attempts step \<le> 0 then 2 else step_max_attempts step)
   \<and> (step_execution_budget_exceeded step (session_budget s) \<noteq> None \<longrightarrow>
        (\<exists>e. sr_err (run_step_with_recovery cfg s step w lane) = Some e
             \<and> is_terminal_automatic_replan_failure (err_text e)))"
proof -
  have "sr_attempt (run_step_with_recovery cfg s step w lane) \<le> effective_attempts step
        \<and> 1 \<le> sr_attempt (run_step_with_recovery cfg s step w lane)"
    using recovery_loop_attempts [of 1 cfg s step w lane "nat (effective_attempts step)"]
      effective_attempts_pos [of step]
    by (simp add: run_step_with_recovery_def)
  moreover have "\<exists>e. sr_err (run_step_with_recovery cfg s step w lane) = Some e
             \<and> is_terminal_automatic_replan_failure (err_text e)"
    if "step_execution_budget_exceeded step (session_budget s) \<noteq> None"
  proof -
    have "step_guards cfg s step \<noteq> None" using that by (simp add: guards_None_iff)
    then obtain m where m: "step_guards cfg s step = Some m" by auto
    with that have "is_terminal_automatic_replan_failure m"
      using guards_Some_cases [OF m] budget_refusal_terminal by auto
    with run_step_blocked [OF m, of w lane] show ?thesis by auto
  qed
  ultimately show ?thesis by (simp add: effective_attempts_def)
qed

theorem step_attempts_bounded_witness:
  "\<exists>e. sr_err (run_step_with_recovery (default_policy_config '''')
      (example_session ''guided'' (new_plan_state ''p1'' []))
      ((example_step ''a'' [])\<lparr>estimated_cost_cents := 60\<rparr>) (\<lambda>_. idle_world) 1) = Some e
      \<and> is_terminal_automatic_replan_failure (err_text e)"
  using step_attempts_bounded [of "default_policy_config ''''" "example_session ''guided'' (new_plan_state ''p1'' [])"
      "(example_step ''a'' [])\<lparr>estimated_cost_cents := 60\<rparr>" "\<lambda>_. idle_world" 1]
  by (simp add: step_execution_budget_exceeded_def in_i64_def)

section \<open>The sidecar's retry loop\<close>

lemma python_attempts_spec:
  assumes "rp_err (python_attempts w p (Suc k) n) = r"
  shows "\<exists>j \<le> k. (\<forall>i < j. is_retryable_python_execution_error (rp_err (aw_python w (n + int i) p))
                      \<and> aw_ctx_done w (n + int i) = None)
           \<and> (r = rp_err (aw_python w (n + int j) p)
              \<or> (r = aw_ctx_done w (n + int j) \<and> r \<noteq> None \<and> j < k))"
  using assms
proof (induction k arbitrary: n)
  case 0
  then show ?case
    by (cases "rp_err (aw_python w n p)") (auto simp: Let_def error_reply_def intro!: exI [of _ 0])
next
  case (Suc k)
  show ?case
  proof (cases "\<exists>e. rp_err (aw_python w n p) = Some e \<and> is_retryable_python_execution_error (Some e)
                  \<and> aw_ctx_done w n = None")
    case False
    then show ?thesis using Suc.prems
      by (intro exI [of _ 0]) (auto simp: Let_def error_reply_def split: option.splits if_splits)
  next
    case True
    then have "rp_err (python_attempts w p (Suc k) (n + 1)) = r"
      using Suc.prems by (auto simp: Let_def)
    from Suc.IH [OF this] obtain j where j: "j \<le> k"
      "\<forall>i < j. is_retryable_python_execution_error (rp_err (aw_python w (n + 1 + int i) p))
            \<and> aw_ctx_done w (n + 1 + int i) = None"
      "r = rp_err (aw_python w (n + 1 + int j) p) \<or> (r = aw_ctx_done w (n + 1 + int j) \<and> r \<noteq> None \<and> j < k)"
      by blast
    have "is_retryable_python_execution_error (rp_err (aw_python w (n + int i) p)) \<and> aw_ctx_done w (n + int i) = None"
      if "i < Suc j" for i
      using that True j(2) by (cases i) (auto simp: algebra_simps)
    with j show ?thesis by (intro exI [of _ "Suc j"]) (auto simp: algebra_simps)
  qed
qed

text \<open>
  The sidecar is called at most three times for one attempt of a step, and only after
  transient failures: guardrail blocks, unknown actions and cancelled contexts are never
  retried. The outcome is that of the last call, or the error of a context that ended during a
  back-off. A sandbox step whose action does not validate as a snippet is never sent.
\<close>

theorem python_step_retries:
  assumes "execution_target step \<noteq> PythonSandbox \<or> sv_valid (validate_sandbox_snippet (action step))"
    and "aw_python_configured w"
  shows "\<exists>q. \<exists>n \<in> {1..3}.
           (\<forall>i \<in> {1..<n}. is_retryable_python_execution_error (rp_err (aw_python w i q)) \<and> aw_ctx_done w i = None)
           \<and> (rp_err (execute_python_step w step p d) = rp_err (aw_python w n q)
              \<or> (n < 3 \<and> rp_err (execute_python_step w step p d) = aw_ctx_done w n
                  \<and> rp_err (execute_python_step w step p d) \<noteq> None))"
proof -
  define q where "q = (if d then degrade_query w p else p)"
  have e: "execute_python_step w step p d = python_attempts w q (Suc 2) 1"
    using assms by (auto simp: execute_python_step_def Let_def q_def numeral_eq_Suc)
  obtain j where j: "j \<le> 2"
    "\<forall>i < j. is_retryable_python_execution_error (rp_err (aw_python w (1 + int i) q)) \<and> aw_ctx_done w (1 + int i) = None"
    "rp_err (execute_python_step w step p d) = rp_err (aw_python w (1 + int j) q)
     \<or> (rp_err (execute_python_step w step p d) = aw_ctx_done w (1 + int j)
        \<and> rp_err (execute_python_step w step p d) \<noteq> None \<and> j < 2)"
    using python_attempts_spec [of w q 2 1, OF refl] by (auto simp: e)
  have "is_retryable_python_execution_error (rp_err (aw_python w i q)) \<and> aw_ctx_done w i = None"
    if "i \<in> {1..<1 + int j}" for i
    using j(2) that by (auto dest!: spec [of _ "nat (i - 1)"])
  with j show ?thesis
    by (intro exI [of _ q] bexI [of _ "1 + int j"]) auto
qed

theorem python_step_retries_witness:
  "rp_err (execute_python_step idle_world
      ((example_step ''a'' [])\<lparr>execution_target := PythonCapability\<rparr>) [] False) = None
   \<and> (\<exists>q. \<exists>n \<in> {1..3}. \<forall>i \<in> {1..<n}. is_retryable_python_execution_error (rp_err (aw_python idle_world i q)))"
proof -
  let ?s = "(example_step ''a'' [])\<lparr>execution_target := PythonCapability\<rparr>"
  have "is_retryable_python_execution_error (rp_err (failed_reply ''connection refused''))" by code_simp
  then have "rp_err (execute_python_step idle_world ?s [] False) = None"
    by (simp add: execute_python_step_def idle_world_def numeral_3_eq_3 failed_reply_def Let_def)
  moreover have "execution_target ?s \<noteq> PythonSandbox \<or> sv_valid (validate_sandbox_snippet (action ?s))"
    "aw_python_configured idle_world" by (simp_all add: idle_world_def)
  ultimately show ?thesis using python_step_retries [of ?s idle_world "[]" False] by blast
qed

end
