(* ===== verification/PlanExecutor.thy ===== *)
theory PlanExecutor
  imports StepExecutor
begin

text \<open>
  \<open>PlanExecutor.Execute\<close> (\<open>orchestrator/internal/wisdev/executor.go\<close>): the loop that runs a
  session's plan in rounds. A round stops on cancellation, when every step is terminal, or when
  nothing is ready and no replan is left; otherwise it replans, or starts the selected steps in
  parallel lanes, waits for all of them and absorbs their results in the order they arrived.

  While the lanes of a round run, they only read the session, so each lane's result is that of
  \<open>run_step_with_recovery\<close> on the round's session; the arrival order is a permutation chosen by
  the environment. What the outside answers in round \<open>n\<close> - cancellation, the callees' replies,
  the arrival order, the coordinator's text, tokens and the clock - is the record \<open>exec_env\<close>.
  Events keep their type, identifiers, message, payload and confidence; trace ids, timestamps
  and ownership labels are left out. Artifact bookkeeping (\<open>normalizeStepArtifacts\<close>,
  \<open>persistStepArtifacts\<close>, the architecture refresh) is not modelled: it neither steers the loop
  nor touches the fields of the model.
\<close>

section \<open>Selecting steps\<close>

definition dependencies_satisfied :: "plan_step \<Rightarrow> bool dict \<Rightarrow> bool" where
  "dependencies_satisfied step completed \<longleftrightarrow> list_all (dict_get_or False completed) (depends_on step)"

definition is_step_terminal :: "plan_state \<Rightarrow> string \<Rightarrow> bool" where
  "is_step_terminal p sid \<longleftrightarrow>
     dict_get_or False (completed_ids p) sid \<or> dict_get_or '''' (failed_ids p) sid \<noteq> ''''"

definition collect_ready_steps :: "plan_state \<Rightarrow> plan_step list" where
  "collect_ready_steps p =
     filter (\<lambda>step. \<not> is_step_terminal p (step_id step) \<and> dependencies_satisfied step (completed_ids p))
       (steps p)"

definition all_steps_terminal :: "plan_state \<Rightarrow> bool" where
  "all_steps_terminal p \<longleftrightarrow> list_all (\<lambda>step. is_step_terminal p (step_id step)) (steps p)"

text \<open>The loop over the ready steps, with the two lists it fills.\<close>

fun select_loop :: "int \<Rightarrow> plan_step list \<Rightarrow> plan_step list \<Rightarrow> plan_step list \<Rightarrow> plan_step list \<times> plan_step list" where
  "select_loop lanes par seq [] = (par, seq)"
| "select_loop lanes par seq (step # rest) =
     (if parallelizable step
      then (let par = par @ [step] in
            if lanes \<le> int (length par) then (par, seq) else select_loop lanes par seq rest)
      else select_loop lanes par (if seq = [] then [step] else seq) rest)"

definition select_runnable_steps :: "plan_step list \<Rightarrow> int \<Rightarrow> plan_step list" where
  "select_runnable_steps ready lanes =
     (if ready = [] \<or> lanes \<le> 0 then []
      else (let (par, seq) = select_loop lanes [] [] ready in if par \<noteq> [] then par else seq))"

section \<open>Events, outcomes, replans\<close>

datatype event_type = EventStepStarted | EventStepCompleted | EventStepFailed | EventConfirmationNeed
  | EventPlanRevised | EventPaperFound | EventProgress | EventCompleted | EventPlanCancelled

record plan_event =
  ev_type :: event_type
  ev_session_id :: string
  ev_plan_id :: string
  ev_step_id :: string
  ev_message :: string
  ev_payload :: "json dict"
  ev_confidence :: real

definition event :: "agent_session \<Rightarrow> event_type \<Rightarrow> string \<Rightarrow> string \<Rightarrow> json dict \<Rightarrow> real \<Rightarrow> plan_event" where
  "event s ty sid msg payload conf =
     \<lparr>ev_type = ty, ev_session_id = session_id s, ev_plan_id = plan_id_of s, ev_step_id = sid,
      ev_message = msg, ev_payload = payload, ev_confidence = conf\<rparr>"

record plan_outcome =
  oc_step_id :: string
  oc_action :: string
  oc_success :: bool
  oc_error :: string
  oc_result_count :: int
  oc_confidence :: real
  oc_degraded :: bool

definition jint :: "int \<Rightarrow> json" where
  "jint k = JNum (real_of_int k)"

definition replan_step :: "string \<Rightarrow> string \<Rightarrow> int \<Rightarrow> plan_step" where
  "replan_step failed reason n =
     \<lparr>step_id = failed @ ''_replan_'' @ itoa n, action = ''research.coordinateReplan'',
      step_reason = ''Automated replan coordination after '' @ failed @ '' failed: '' @ reason,
      risk = RiskLevelLow, step_model_tier = ModelTierStandard, execution_target = PythonCapability,
      parallelizable = False, requires_human_checkpoint = False, parallel_group = '''',
      depends_on = [], estimated_cost_cents = 2, step_max_attempts = 1, timeout_ms = 0,
      step_params = [(''failedStepId'', JStr failed), (''reason'', JStr reason)]\<rparr>"

definition plan_of :: "agent_session \<Rightarrow> plan_state" where
  "plan_of s = the (session_plan s)"

definition map_plan :: "(plan_state \<Rightarrow> plan_state) \<Rightarrow> agent_session \<Rightarrow> agent_session" where
  "map_plan f s = s\<lparr>session_plan := map_option f (session_plan s)\<rparr>"

definition apply_automatic_replan :: "agent_session \<Rightarrow> string \<Rightarrow> string \<Rightarrow> agent_session \<times> plan_step" where
  "apply_automatic_replan s failed reason =
     (let n = replan_count (plan_of s) + 1; step = replan_step failed reason n
      in (map_plan (\<lambda>p. p\<lparr>replan_count := n, steps := steps p @ [step]\<rparr>) s, step))"

definition outcome_requires_grounded_results :: "string \<Rightarrow> bool" where
  "outcome_requires_grounded_results act \<longleftrightarrow>
     canonicalize_action act \<in> {''research.retrievePapers'', ''research.resolveCanonicalCitations'',
                                ''research.verifyCitations''} \<or>
     to_lower (trim_space act) \<in> {''search'', ''parallel_search'', ''retrieve'', ''retrieve_papers''}"

definition ungrounded :: "plan_outcome \<Rightarrow> bool" where
  "ungrounded oc \<longleftrightarrow> oc_success oc \<and> oc_result_count oc = 0 \<and> outcome_requires_grounded_results (oc_action oc)"

definition requires_agent_feedback_mediation :: "plan_outcome list \<Rightarrow> bool" where
  "requires_agent_feedback_mediation ocs =
     (case ocs of [] \<Rightarrow> False
      | [oc] \<Rightarrow> \<not> oc_success oc \<or> trim_space (oc_error oc) \<noteq> '''' \<or> ungrounded oc
      | _ \<Rightarrow> True)"

text \<open>
  \<open>mediation\<close> is the text of the language model, or None when it is not configured, cooling down
  or failing.
\<close>

definition coordinate_agent_feedback :: "string option \<Rightarrow> plan_outcome list \<Rightarrow> string" where
  "coordinate_agent_feedback mediation ocs =
     (if \<not> requires_agent_feedback_mediation ocs then ''CONTINUE''
      else (case mediation of None \<Rightarrow> ''CONTINUE'' | Some t \<Rightarrow> t))"

fun replan_scan :: "plan_outcome list \<Rightarrow> bool" where
  "replan_scan [] = False"
| "replan_scan (oc # ocs) =
     (if \<not> oc_success oc \<and> is_terminal_automatic_replan_failure (oc_error oc) then False
      else if \<not> oc_success oc \<or> trim_space (oc_error oc) \<noteq> '''' then True
      else if ungrounded oc then True
      else replan_scan ocs)"

definition should_apply_coordinator_replan :: "plan_outcome list \<Rightarrow> string \<Rightarrow> bool" where
  "should_apply_coordinator_replan ocs decision =
     (if \<not> contains (to_upper decision) ''REPLAN'' then False else replan_scan ocs)"

section \<open>The environment\<close>

record exec_env =
  ee_policy :: policy_config
  ee_lanes :: int
  ee_max_replans :: int
  ee_cancelled :: "nat \<Rightarrow> bool"
  ee_world :: "nat \<Rightarrow> plan_step \<Rightarrow> int \<Rightarrow> attempt_world"
  ee_arrive :: "nat \<Rightarrow> step_result list \<Rightarrow> step_result list"
  ee_mediation :: "nat \<Rightarrow> plan_outcome list \<Rightarrow> string option"
  ee_token :: "nat \<Rightarrow> string \<times> string \<times> string"
  ee_now :: "nat \<Rightarrow> int"
  ee_hitl_timeout :: int

section \<open>Absorbing results\<close>

definition paper_events :: "agent_session \<Rightarrow> step_result \<Rightarrow> plan_event list" where
  "paper_events s r =
     map (\<lambda>(k, paper). event s EventPaperFound (step_id (sr_step r)) ''paper found''
            [(''paperId'', JStr paper), (''paperIndex'', jint (int k + 1)), (''laneId'', jint (sr_lane r)),
             (''attempt'', jint (sr_attempt r)), (''degraded'', JBool (sr_degraded r))] (sr_confidence r))
       (enumerate 0 (sr_sources r))"

definition note_attempt :: "step_result \<Rightarrow> plan_state \<Rightarrow> plan_state" where
  "note_attempt r p =
     (let sid = step_id (sr_step r) in
      p\<lparr>step_attempts := dict_set sid (dict_get_or 0 (step_attempts p) sid + sr_attempt r) (step_attempts p),
        step_confidences := dict_set sid (sr_confidence r) (step_confidences p)\<rparr>)"

definition absorb_success :: "exec_env \<Rightarrow> nat \<Rightarrow> agent_session \<Rightarrow> step_result \<Rightarrow> agent_session" where
  "absorb_success env n s r =
     (let step = sr_step r; s = map_plan (note_attempt r) s in
      map_plan (\<lambda>p. p\<lparr>completed_ids := dict_set (step_id step) True (completed_ids p)\<rparr>)
        (s\<lparr>session_budget := apply_budget_usage (ee_now env n) (execution_target step = PythonSandbox)
              (estimated_cost_cents step) (session_budget s)\<rparr>))"

definition success_events :: "agent_session \<Rightarrow> step_result \<Rightarrow> plan_event list" where
  "success_events s r =
     paper_events s r @
     [event s EventStepCompleted (step_id (sr_step r)) ''step completed''
        [(''laneId'', jint (sr_lane r)), (''attempts'', jint (sr_attempt r)),
         (''degraded'', JBool (sr_degraded r)), (''resultCount'', jint (int (length (sr_sources r))))]
        (sr_confidence r)]"

definition success_outcome :: "step_result \<Rightarrow> plan_outcome" where
  "success_outcome r =
     \<lparr>oc_step_id = step_id (sr_step r), oc_action = action (sr_step r), oc_success = True, oc_error = '''',
      oc_result_count = int (length (sr_sources r)), oc_confidence = sr_confidence r,
      oc_degraded = sr_degraded r\<rparr>"

definition absorb_failure :: "agent_session \<Rightarrow> step_result \<Rightarrow> go_error \<Rightarrow> agent_session" where
  "absorb_failure s r e =
     (let sid = step_id (sr_step r); act = action (sr_step r); s = map_plan (note_attempt r) s;
          s = map_plan (\<lambda>p. p\<lparr>failed_ids := dict_set sid (err_text e) (failed_ids p),
                step_failure_count := dict_set sid (dict_get_or 0 (step_failure_count p) sid + 1) (step_failure_count p)\<rparr>) s
      in s\<lparr>failure_memory := dict_set act (dict_get_or 0 (failure_memory s) act + 1) (failure_memory s)\<rparr>)"

definition failure_events :: "agent_session \<Rightarrow> step_result \<Rightarrow> go_error \<Rightarrow> plan_event list" where
  "failure_events s r e =
     paper_events s r @
     [event s EventStepFailed (step_id (sr_step r)) (err_text e)
        [(''laneId'', jint (sr_lane r)), (''attempts'', jint (sr_attempt r)),
         (''degraded'', JBool (sr_degraded r)),
         (''failureCount'', jint (dict_get_or 0 (step_failure_count (plan_of s)) (step_id (sr_step r)))),
         (''errorCode'', JStr (classify_error_code (Some e))),
         (''resultCount'', jint (int (length (sr_sources r))))]
        (sr_confidence r)]"

definition failure_outcome :: "step_result \<Rightarrow> go_error \<Rightarrow> plan_outcome" where
  "failure_outcome r e =
     \<lparr>oc_step_id = step_id (sr_step r), oc_action = action (sr_step r), oc_success = False,
      oc_error = classify_error_code (Some e), oc_result_count = int (length (sr_sources r)),
      oc_confidence = sr_confidence r, oc_degraded = sr_degraded r\<rparr>"

definition pause_session :: "exec_env \<Rightarrow> nat \<Rightarrow> agent_session \<Rightarrow> step_result \<Rightarrow> agent_session" where
  "pause_session env n s r =
     (let (aid, token, hash) = ee_token env n;
          s = map_plan (note_attempt r) s;
          s = map_plan (\<lambda>p. p\<lparr>pending_approval_id := aid, pending_approval_token_hash := hash,
                pending_approval_step_id := step_id (sr_step r),
                pending_approval_expires_at := ee_now env n + ee_hitl_timeout env\<rparr>) s
      in fst (transition_session_status (ee_now env n) SessionPaused s))"

definition pause_event :: "exec_env \<Rightarrow> nat \<Rightarrow> agent_session \<Rightarrow> step_result \<Rightarrow> go_error \<Rightarrow> plan_event" where
  "pause_event env n s r e =
     (let (aid, token, hash) = ee_token env n in
      event s EventConfirmationNeed (step_id (sr_step r)) (trim_prefix (err_text e) confirmation_prefix)
        [(''approvalId'', JStr aid), (''approvalToken'', JStr token), (''stepId'', JStr (step_id (sr_step r))),
         (''expiresAt'', jint (ee_now env n + ee_hitl_timeout env)), (''action'', JStr (action (sr_step r))),
         (''allowedActions'', JArr [JStr ''approve'', JStr ''skip'', JStr ''edit_payload'', JStr ''reject_replan''])]
        (sr_confidence r))"

text \<open>
  The loop over the results channel: the session, the events, the outcomes, and whether the
  function returned from inside the loop because a confirmation is needed.
\<close>

fun absorb_results ::
  "exec_env \<Rightarrow> nat \<Rightarrow> agent_session \<Rightarrow> step_result list \<Rightarrow>
     agent_session \<times> plan_event list \<times> plan_outcome list \<times> bool" where
  "absorb_results env n s [] = (s, [], [], False)"
| "absorb_results env n s (r # rs) =
     (case sr_err r of
        None \<Rightarrow>
          (let (t, es, ocs, stopped) = absorb_results env n (absorb_success env n s r) rs
           in (t, success_events s r @ es, success_outcome r # ocs, stopped))
      | Some e \<Rightarrow>
          if has_prefix (err_text e) confirmation_prefix
          then (pause_session env n s r, [pause_event env n s r e], [], True)
          else
            (let s1 = absorb_failure s r e; (t, es, ocs, stopped) = absorb_results env n s1 rs
             in (t, failure_events s1 r e @ es, failure_outcome r e # ocs, stopped)))"

section \<open>Rounds\<close>

datatype round_result = Continue agent_session "plan_event list" | Stop agent_session "plan_event list"

definition first_failed :: "plan_state \<Rightarrow> plan_step option" where
  "first_failed p = List.find (\<lambda>step. dict_get_or '''' (failed_ids p) (step_id step) \<noteq> '''') (steps p)"

definition no_ready_round :: "exec_env \<Rightarrow> nat \<Rightarrow> agent_session \<Rightarrow> round_result" where
  "no_ready_round env n s =
     (let p = plan_of s in
      if ee_max_replans env \<le> replan_count p then
        Stop (fst (transition_session_status (ee_now env n) SessionFailed s))
          [event s EventStepFailed '''' ''no ready steps and replan budget exhausted'' [] 0]
      else
        (let (failed, reason) = (case first_failed p of
                Some step \<Rightarrow> (step_id step, dict_get_or '''' (failed_ids p) (step_id step))
              | None \<Rightarrow> ('''', ''dependency_deadlock''));
             failed = (if failed = '''' then ''deadlock_'' @ itoa (replan_count p + 1) else failed)
         in if failed \<noteq> '''' \<and> is_terminal_automatic_replan_failure reason then
              Stop (fst (transition_session_status (ee_now env n) SessionFailed s))
                [event s EventStepFailed failed (''no ready steps after terminal failure: '' @ reason)
                   [(''failedStepId'', JStr failed),
                    (''errorCode'', JStr (classify_error_code (Some (new_error reason))))] 0]
            else
              (let (s', step) = apply_automatic_replan s failed reason
               in Continue s' [event s EventPlanRevised (step_id step) (step_reason step)
                    [(''replanCount'', jint (replan_count (plan_of s'))), (''replanFor'', JStr failed)] 0])))"

definition run_lanes :: "exec_env \<Rightarrow> nat \<Rightarrow> agent_session \<Rightarrow> plan_step list \<Rightarrow> step_result list" where
  "run_lanes env n s runnable =
     map (\<lambda>(k, step). run_step_with_recovery (ee_policy env) s step (ee_world env n step) (int k + 1))
       (enumerate 0 runnable)"

definition start_events :: "agent_session \<Rightarrow> plan_step list \<Rightarrow> plan_event list" where
  "start_events s runnable =
     map (\<lambda>(k, step). event s EventStepStarted (step_id step) (step_reason step)
            [(''laneId'', jint (int k + 1)), (''action'', JStr (action step))] 0)
       (enumerate 0 runnable)"

definition coordinate_round ::
  "exec_env \<Rightarrow> nat \<Rightarrow> agent_session \<Rightarrow> plan_outcome list \<Rightarrow> agent_session \<times> plan_event list" where
  "coordinate_round env n s ocs =
     (if ocs = [] then (s, [])
      else (let decision = coordinate_agent_feedback (ee_mediation env n ocs) ocs in
            if should_apply_coordinator_replan ocs decision \<and> replan_count (plan_of s) < ee_max_replans env
            then (let (s', step) = apply_automatic_replan s ''coordinator''
                                     ''Dynamic pivot requested by standard coordinator''
                  in (s', [event s EventPlanRevised (step_id step) (step_reason step)
                       [(''replanCount'', jint (replan_count (plan_of s'))), (''from'', JStr ''coordinator'')] 0]))
            else (s, [])))"

definition progress_event :: "agent_session \<Rightarrow> plan_event" where
  "progress_event s =
     (let p = plan_of s in
      event s EventProgress '''' ''progress update''
        [(''completed'', jint (int (length (completed_ids p)))), (''failed'', jint (int (length (failed_ids p)))),
         (''total'', jint (int (length (steps p))))] 0)"

definition lanes_round :: "exec_env \<Rightarrow> nat \<Rightarrow> agent_session \<Rightarrow> plan_step list \<Rightarrow> round_result" where
  "lanes_round env n s runnable =
     (let (s1, es, ocs, stopped) = absorb_results env n s (ee_arrive env n (run_lanes env n s runnable)) in
      if stopped then Stop s1 (start_events s runnable @ es)
      else (let (s2, es2) = coordinate_round env n s1 ocs
            in Continue s2 (start_events s runnable @ es @ es2 @ [progress_event s2])))"

definition exec_round :: "exec_env \<Rightarrow> nat \<Rightarrow> agent_session \<Rightarrow> round_result" where
  "exec_round env n s =
     (let p = plan_of s; ready = collect_ready_steps p in
      if ee_cancelled env n then Stop s [event s EventStepFailed '''' ''execution cancelled'' [] 0]
      else if all_steps_terminal p then
        (if failed_ids p = []
         then (let s' = fst (transition_session_status (ee_now env n) SessionComplete s)
               in Stop s' [event s EventCompleted '''' ''Plan completed''
                    [(''status'', JStr ''completed''), (''sessionTerminal'', JBool True)] 0])
         else Stop (fst (transition_session_status (ee_now env n) SessionFailed s))
                [event s EventStepFailed '''' ''Plan ended with failed steps''
                   [(''failedCount'', jint (int (length (failed_ids p))))] 0])
      else if ready = [] then no_ready_round env n s
      else lanes_round env n s (select_runnable_steps ready (ee_lanes env)))"

text \<open>
  The loop with \<open>fuel\<close> rounds at most; None when they do not suffice. Theorem
  \<open>execute_terminates\<close> says how many always do.
\<close>

fun exec_loop :: "exec_env \<Rightarrow> nat \<Rightarrow> nat \<Rightarrow> agent_session \<Rightarrow> (agent_session \<times> plan_event list) option" where
  "exec_loop env 0 n s = None"
| "exec_loop env (Suc fuel) n s =
     (case exec_round env n s of
        Stop s' es \<Rightarrow> Some (s', es)
      | Continue s' es \<Rightarrow>
          (case exec_loop env fuel (Suc n) s' of
             None \<Rightarrow> None
           | Some (t, es') \<Rightarrow> Some (t, es @ es')))"

definition execute :: "exec_env \<Rightarrow> nat \<Rightarrow> agent_session \<Rightarrow> (agent_session \<times> plan_event list) option" where
  "execute env fuel s =
     (case session_plan s of
        None \<Rightarrow> Some (s, [event s EventStepFailed '''' ''session has no Plan'' [] 0])
      | Some p \<Rightarrow>
         (case transition_session_status (ee_now env 0) SessionExecutingPlan s of
            (s', Some e) \<Rightarrow> Some (s', [event s EventStepFailed '''' (err_text e) [] 0])
          | (s', None) \<Rightarrow> exec_loop env fuel 0 s'))"

text \<open>
  What the properties ask of an environment: results arrive in some order, none lost or
  invented; there is at least one lane; and no error has an empty text.
\<close>

definition env_ok :: "exec_env \<Rightarrow> bool" where
  "env_ok env \<longleftrightarrow> (\<forall>n rs. mset (ee_arrive env n rs) = mset rs) \<and> 1 \<le> ee_lanes env"

definition errors_have_text :: "exec_env \<Rightarrow> bool" where
  "errors_have_text env \<longleftrightarrow>
     (\<forall>n s step lane e. sr_err (run_step_with_recovery (ee_policy env) s step (ee_world env n step) lane) = Some e
        \<longrightarrow> err_text e \<noteq> '''')"

end
