(* ===== verification/ExecutorLemmas.thy ===== *)
theory ExecutorLemmas
  imports PlanExecutor
begin

text \<open>
  The facts about \<open>PlanExecutor\<close> its properties rest on: which steps a round selects, what
  absorbing a list of results changes and what it leaves alone, and one rule that carries an
  invariant of session and events through the whole loop.
\<close>

named_theorems exec_frame \<open>fields an executor operation leaves alone\<close>

section \<open>Sessions with a plan\<close>

definition planned :: "agent_session \<Rightarrow> bool" where
  "planned s \<longleftrightarrow> session_plan s \<noteq> None"

definition finished :: "agent_session \<Rightarrow> string \<Rightarrow> bool" where
  "finished s d \<longleftrightarrow> dict_get_or False (completed_ids (plan_of s)) d"

definition failure :: "agent_session \<Rightarrow> string \<Rightarrow> string" where
  "failure s d = dict_get_or '''' (failed_ids (plan_of s)) d"

lemma is_step_terminal_iff: "is_step_terminal (plan_of s) d \<longleftrightarrow> finished s d \<or> failure s d \<noteq> ''''"
  by (simp add: is_step_terminal_def finished_def failure_def)

lemma planned_simps [simp]:
  "planned (map_plan f s) = planned s"
  "planned s \<Longrightarrow> plan_of (map_plan f s) = f (plan_of s)"
  "planned (s\<lparr>session_budget := b\<rparr>) = planned s"
  "planned (s\<lparr>failure_memory := fm\<rparr>) = planned s"
  "plan_of (s\<lparr>session_budget := b\<rparr>) = plan_of s"
  "plan_of (s\<lparr>failure_memory := fm\<rparr>) = plan_of s"
  "session_budget (map_plan f s) = session_budget s"
  "session_status (map_plan f s) = session_status s"
  "session_mode (map_plan f s) = session_mode s"
  "failure_memory (map_plan f s) = failure_memory s"
  by (auto simp: planned_def map_plan_def plan_of_def)

lemma transition_plan [simp]:
  "planned (fst (transition_session_status now b s)) = planned s"
  "plan_of (fst (transition_session_status now b s)) = plan_of s"
  by (simp_all add: planned_def plan_of_def)

lemma planned_executing: "planned s \<Longrightarrow> session_plan s = Some (plan_of s)"
  by (auto simp: planned_def plan_of_def)

section \<open>Selection\<close>

lemma select_loop_spec:
  assumes "select_loop lanes par seq ready = (par', seq')"
  shows "(\<exists>xs. par' = par @ xs \<and> set xs \<subseteq> set ready) \<and> set seq' \<subseteq> set seq \<union> set ready
         \<and> (int (length par) < lanes \<longrightarrow> int (length par') \<le> lanes)
         \<and> length seq' \<le> max 1 (length seq)
         \<and> (par \<noteq> [] \<or> seq \<noteq> [] \<or> ready \<noteq> [] \<longrightarrow> par' \<noteq> [] \<or> seq' \<noteq> [])"
  using assms
proof (induction lanes par seq ready arbitrary: par' seq' rule: select_loop.induct)
  case (2 lanes par seq step rest)
  show ?case
  proof (cases "parallelizable step")
    case True
    show ?thesis
    proof (cases "lanes \<le> int (length (par @ [step]))")
      case False
      with True "2.prems" have "select_loop lanes (par @ [step]) seq rest = (par', seq')" by simp
      from "2.IH"(1) [OF True refl False this] False show ?thesis by fastforce
    qed (use True "2.prems" in auto)
  next
    case False
    with "2.prems" have "select_loop lanes par (if seq = [] then [step] else seq) rest = (par', seq')" by simp
    from "2.IH"(2) [OF False this] show ?thesis
      by (cases "seq = []"; cases "rest = []"; auto)
  qed
qed auto

lemma select_runnable_spec:
  assumes "1 \<le> lanes"
  shows "set (select_runnable_steps ready lanes) \<subseteq> set ready
         \<and> int (length (select_runnable_steps ready lanes)) \<le> lanes
         \<and> (ready \<noteq> [] \<longrightarrow> select_runnable_steps ready lanes \<noteq> [])"
proof (cases "select_loop lanes [] [] ready")
  case (Pair par seq)
  from select_loop_spec [OF Pair] assms show ?thesis
    by (auto simp: select_runnable_steps_def Pair)
qed

lemma collect_ready_spec:
  "step \<in> set (collect_ready_steps (plan_of s)) \<longleftrightarrow>
     step \<in> set (steps (plan_of s)) \<and> \<not> finished s (step_id step) \<and> failure s (step_id step) = '''' \<and>
     (\<forall>d \<in> set (depends_on step). finished s d)"
  by (auto simp: collect_ready_steps_def is_step_terminal_iff dependencies_satisfied_def finished_def
      list_all_iff)

section \<open>Absorbing one result\<close>

lemma note_attempt_frame [simp]:
  "steps (note_attempt r p) = steps p" "completed_ids (note_attempt r p) = completed_ids p"
  "failed_ids (note_attempt r p) = failed_ids p" "approved_ids (note_attempt r p) = approved_ids p"
  "replan_count (note_attempt r p) = replan_count p" "plan_id (note_attempt r p) = plan_id p"
  by (simp_all add: note_attempt_def Let_def)

lemma absorb_planned [simp]:
  "planned (absorb_success env n s r) = planned s"
  "planned (absorb_failure s r e) = planned s"
  "planned (pause_session env n s r) = planned s"
  by (simp_all add: absorb_success_def absorb_failure_def pause_session_def Let_def split: prod.split)

lemma absorb_frame [exec_frame]:
  assumes "planned s"
  shows "steps (plan_of (absorb_success env n s r)) = steps (plan_of s)"
    "steps (plan_of (absorb_failure s r e)) = steps (plan_of s)"
    "steps (plan_of (pause_session env n s r)) = steps (plan_of s)"
    "approved_ids (plan_of (absorb_success env n s r)) = approved_ids (plan_of s)"
    "approved_ids (plan_of (absorb_failure s r e)) = approved_ids (plan_of s)"
    "approved_ids (plan_of (pause_session env n s r)) = approved_ids (plan_of s)"
    "replan_count (plan_of (absorb_success env n s r)) = replan_count (plan_of s)"
    "replan_count (plan_of (absorb_failure s r e)) = replan_count (plan_of s)"
    "replan_count (plan_of (pause_session env n s r)) = replan_count (plan_of s)"
    "session_mode (absorb_success env n s r) = session_mode s"
    "session_mode (absorb_failure s r e) = session_mode s"
    "session_mode (pause_session env n s r) = session_mode s"
    "session_status (absorb_success env n s r) = session_status s"
    "session_status (absorb_failure s r e) = session_status s"
    "session_budget (absorb_failure s r e) = session_budget s"
    "session_budget (pause_session env n s r) = session_budget s"
  using assms
  by (simp_all add: absorb_success_def absorb_failure_def pause_session_def Let_def split: prod.split)

lemma absorb_progress:
  assumes "planned s"
  shows "finished (absorb_success env n s r) d \<longleftrightarrow> finished s d \<or> d = step_id (sr_step r)"
    "finished (absorb_failure s r e) d \<longleftrightarrow> finished s d"
    "finished (pause_session env n s r) d \<longleftrightarrow> finished s d"
    "failure (absorb_success env n s r) d = failure s d"
    "failure (absorb_failure s r e) d = (if d = step_id (sr_step r) then err_text e else failure s d)"
    "failure (pause_session env n s r) d = failure s d"
    "failed_ids (plan_of (absorb_success env n s r)) = failed_ids (plan_of s)"
    "failed_ids (plan_of (absorb_failure s r e)) \<noteq> []"
    "failed_ids (plan_of (pause_session env n s r)) = failed_ids (plan_of s)"
  using assms
  by (auto simp: absorb_success_def absorb_failure_def pause_session_def Let_def finished_def failure_def
      split: prod.split)

lemma absorb_budget:
  "tool_calls_used (session_budget (absorb_success env n s r)) = tool_calls_used (session_budget s) + 1"
  "max_tool_calls (session_budget (absorb_success env n s r)) = max_tool_calls (session_budget s)"
  "max_script_runs (session_budget (absorb_success env n s r)) = max_script_runs (session_budget s)"
  "max_cost_cents (session_budget (absorb_success env n s r)) = max_cost_cents (session_budget s)"
  by (simp_all add: absorb_success_def apply_budget_usage_def Let_def)

definition completed_in :: "plan_event list \<Rightarrow> string \<Rightarrow> bool" where
  "completed_in es d \<longleftrightarrow> (\<exists>e \<in> set es. ev_type e = EventStepCompleted \<and> ev_step_id e = d)"

definition completions :: "plan_event list \<Rightarrow> nat" where
  "completions es = length (filter (\<lambda>e. ev_type e = EventStepCompleted) es)"

lemma event_simps [simp]:
  "ev_type (event s ty sid m p c) = ty" "ev_step_id (event s ty sid m p c) = sid"
  "ev_message (event s ty sid m p c) = m" "ev_payload (event s ty sid m p c) = p"
  by (simp_all add: event_def)

lemma completed_in_simps [simp]:
  "completed_in [] d = False"
  "completed_in (xs @ ys) d \<longleftrightarrow> completed_in xs d \<or> completed_in ys d"
  "completed_in (e # es) d \<longleftrightarrow> (ev_type e = EventStepCompleted \<and> ev_step_id e = d) \<or> completed_in es d"
  by (auto simp: completed_in_def)

lemma completions_simps [simp]:
  "completions [] = 0" "completions (xs @ ys) = completions xs + completions ys"
  "completions (e # es) = (if ev_type e = EventStepCompleted then Suc (completions es) else completions es)"
  by (simp_all add: completions_def)

lemma other_events [simp]:
  "completed_in (paper_events s r) d = False" "completions (paper_events s r) = 0"
  "completed_in (start_events s ss) d = False" "completions (start_events s ss) = 0"
  by (auto simp: paper_events_def start_events_def completed_in_def completions_def filter_empty_conv)

lemma result_events [simp]:
  "completed_in (success_events s r) d \<longleftrightarrow> d = step_id (sr_step r)"
  "completions (success_events s r) = 1"
  "completed_in (failure_events s r e) d = False" "completions (failure_events s r e) = 0"
  "ev_type (pause_event env n s r e) = EventConfirmationNeed"
  "ev_step_id (pause_event env n s r e) = step_id (sr_step r)"
  "ev_type (progress_event s) = EventProgress"
  by (auto simp: success_events_def failure_events_def pause_event_def progress_event_def Let_def
      split: prod.split)

definition absorb_types :: "event_type set" where
  "absorb_types = {EventPaperFound, EventStepCompleted, EventStepFailed}"

lemma result_event_types:
  "\<forall>ev \<in> set (success_events s r). ev_type ev \<in> absorb_types"
  "\<forall>ev \<in> set (failure_events s r e). ev_type ev \<in> absorb_types"
  by (auto simp: success_events_def failure_events_def paper_events_def absorb_types_def)

section \<open>Absorbing a list of results\<close>

text \<open>The three cases of the loop, as a rule for inductions over the arrivals.\<close>

lemma absorb_cases [consumes 1, case_names Nil Success Pause Failure]:
  assumes "absorb_results env n s rs = (t, es, ocs, stopped)"
  obtains "rs = []" "t = s" "es = []" "ocs = []" "\<not> stopped"
  | r rs' es' ocs' where "rs = r # rs'" "sr_err r = None"
      "absorb_results env n (absorb_success env n s r) rs' = (t, es', ocs', stopped)"
      "es = success_events s r @ es'" "ocs = success_outcome r # ocs'"
  | r rs' e where "rs = r # rs'" "sr_err r = Some e" "has_prefix (err_text e) confirmation_prefix"
      "t = pause_session env n s r" "es = [pause_event env n s r e]" "ocs = []" "stopped"
  | r rs' e es' ocs' where "rs = r # rs'" "sr_err r = Some e" "\<not> has_prefix (err_text e) confirmation_prefix"
      "absorb_results env n (absorb_failure s r e) rs' = (t, es', ocs', stopped)"
      "es = failure_events (absorb_failure s r e) r e @ es'" "ocs = failure_outcome r e # ocs'"
  using assms
  by (cases rs; cases "sr_err (hd rs)") (auto simp: Let_def split: prod.splits if_splits)

lemma absorb_keeps:
  assumes "absorb_results env n s rs = (t, es, ocs, stopped)" and "planned s"
  shows "planned t \<and> steps (plan_of t) = steps (plan_of s) \<and> approved_ids (plan_of t) = approved_ids (plan_of s)
     \<and> replan_count (plan_of t) = replan_count (plan_of s) \<and> session_mode t = session_mode s
     \<and> max_tool_calls (session_budget t) = max_tool_calls (session_budget s)
     \<and> (failed_ids (plan_of s) \<noteq> [] \<longrightarrow> failed_ids (plan_of t) \<noteq> [])
     \<and> (\<not> stopped \<longrightarrow> session_status t = session_status s)
     \<and> (stopped \<longrightarrow> session_status s = SessionExecutingPlan \<longrightarrow> session_status t = SessionPaused)"
  using assms
proof (induction rs arbitrary: s es ocs)
  case Nil
  then show ?case by simp
next
  case (Cons r rs)
  from Cons.prems(1) show ?case
  proof (cases rule: absorb_cases)
    case (Success r' rs' es' ocs')
    then show ?thesis using Cons.IH [of "absorb_success env n s r"] Cons.prems(2)
      by (simp add: exec_frame absorb_budget absorb_progress)
  next
    case (Pause r' rs' e)
    moreover have "session_status s = SessionExecutingPlan \<Longrightarrow>
        session_status (pause_session env n s r) = SessionPaused"
      by (auto simp: pause_session_def Let_def transition_status split: prod.split)
    ultimately show ?thesis using Cons.prems(2) by (simp add: exec_frame absorb_progress)
  next
    case (Failure r' rs' e es' ocs')
    then show ?thesis using Cons.IH [of "absorb_failure s r e"] Cons.prems(2)
      by (simp add: exec_frame absorb_progress)
  qed simp
qed

lemma absorb_finished:
  assumes "absorb_results env n s rs = (t, es, ocs, stopped)" and "planned s"
  shows "(\<forall>d. finished t d \<longleftrightarrow> finished s d \<or> completed_in es d)
     \<and> tool_calls_used (session_budget t) = tool_calls_used (session_budget s) + int (completions es)
     \<and> completions es \<le> length (filter (\<lambda>r. sr_err r = None) rs)
     \<and> (\<forall>d. completed_in es d \<longrightarrow> (\<exists>r \<in> set rs. sr_err r = None \<and> step_id (sr_step r) = d))"
  using assms
proof (induction rs arbitrary: s es ocs)
  case Nil
  then show ?case by simp
next
  case (Cons r rs)
  from Cons.prems(1) show ?case
  proof (cases rule: absorb_cases)
    case (Success r' rs' es' ocs')
    then show ?thesis using Cons.IH [of "absorb_success env n s r" es' ocs'] Cons.prems(2)
      by (auto simp: absorb_budget absorb_progress)
  next
    case (Pause r' rs' e)
    then show ?thesis using Cons.prems(2) by (simp add: exec_frame absorb_progress)
  next
    case (Failure r' rs' e es' ocs')
    then show ?thesis using Cons.IH [of "absorb_failure s r e" es' ocs'] Cons.prems(2)
      by (auto simp: exec_frame absorb_progress)
  qed simp
qed

lemma absorb_events:
  assumes "absorb_results env n s rs = (t, es, ocs, stopped)" and "planned s"
  shows "ev_type ` set es \<subseteq> insert EventConfirmationNeed absorb_types
     \<and> (stopped \<longrightarrow> es \<noteq> [] \<and> ev_type (last es) = EventConfirmationNeed
          \<and> ev_step_id (last es) = pending_approval_step_id (plan_of t))
     \<and> (\<not> stopped \<longrightarrow> ev_type ` set es \<subseteq> absorb_types \<and> length ocs = length rs)
     \<and> (\<forall>e \<in> set (butlast es). ev_type e \<in> absorb_types)"
  using assms
proof (induction rs arbitrary: s es ocs)
  case Nil
  then show ?case by simp
next
  case (Cons r rs)
  from Cons.prems(1) show ?case
  proof (cases rule: absorb_cases)
    case (Success r' rs' es' ocs')
    then show ?thesis using Cons.IH [of "absorb_success env n s r" es' ocs'] Cons.prems(2) result_event_types(1) [of s r]
      by (auto simp: butlast_append dest: in_set_butlastD)
  next
    case (Pause r' rs' e)
    have "planned s \<Longrightarrow> pending_approval_step_id (plan_of (pause_session env n s r)) = step_id (sr_step r)"
      by (simp add: pause_session_def Let_def split: prod.split)
    with Pause Cons.prems(2) show ?thesis by auto
  next
    case (Failure r' rs' e es' ocs')
    then show ?thesis using Cons.IH [of "absorb_failure s r e" es' ocs'] Cons.prems(2)
        result_event_types(2) [of "absorb_failure s r e" r e]
      by (auto simp: butlast_append dest: in_set_butlastD)
  qed simp
qed

lemma absorb_terminal:
  assumes "absorb_results env n s rs = (t, es, ocs, False)" and "planned s"
    and "\<forall>r \<in> set rs. \<forall>e. sr_err r = Some e \<longrightarrow> err_text e \<noteq> ''''"
  shows "(\<forall>d. finished s d \<or> failure s d \<noteq> '''' \<longrightarrow> finished t d \<or> failure t d \<noteq> '''')
     \<and> (\<forall>r \<in> set rs. finished t (step_id (sr_step r)) \<or> failure t (step_id (sr_step r)) \<noteq> '''')
     \<and> (\<forall>d. failure s d \<noteq> '''' \<longrightarrow> failure t d \<noteq> '''')"
  using assms
proof (induction rs arbitrary: s es ocs)
  case Nil
  then show ?case by simp
next
  case (Cons r rs)
  from Cons.prems(1) show ?case
  proof (cases rule: absorb_cases)
    case (Success r' rs' es' ocs')
    then show ?thesis using Cons.IH [of "absorb_success env n s r" es' ocs'] Cons.prems(2,3)
      by (auto simp: absorb_progress)
  next
    case (Failure r' rs' e es' ocs')
    then show ?thesis using Cons.IH [of "absorb_failure s r e" es' ocs'] Cons.prems(2,3)
      by (auto simp: absorb_progress)
  qed simp_all
qed

lemma absorb_failed:
  assumes "absorb_results env n s rs = (t, es, ocs, stopped)" and "planned s"
    and "e \<in> set es" and "ev_type e = EventStepFailed"
  shows "failed_ids (plan_of t) \<noteq> []"
  using assms
proof (induction rs arbitrary: s es ocs)
  case (Cons r rs)
  from Cons.prems(1) show ?case
  proof (cases rule: absorb_cases)
    case (Success r' rs' es' ocs')
    then have "e \<notin> set (success_events s r)" using Cons.prems(4)
      by (auto simp: success_events_def paper_events_def)
    then show ?thesis using Success Cons.IH [of "absorb_success env n s r" es' ocs'] Cons.prems by auto
  next
    case (Failure r' rs' e' es' ocs')
    with absorb_keeps [OF Failure(4)] Cons.prems(2) show ?thesis by (auto simp: absorb_progress)
  qed (use Cons.prems in auto)
qed simp

section \<open>Lanes\<close>

lemma run_lanes_results:
  assumes "r \<in> set (run_lanes env n s runnable)"
  obtains step lane where "step \<in> set runnable"
    "r = run_step_with_recovery (ee_policy env) s step (ee_world env n step) lane" "sr_step r = step"
proof -
  from assms obtain k step where "(k, step) \<in> set (enumerate 0 runnable)"
    and r: "r = run_step_with_recovery (ee_policy env) s step (ee_world env n step) (int k + 1)"
    by (auto simp: run_lanes_def)
  then have "step \<in> set runnable" by (auto simp: enumerate_eq_zip dest: set_zip_rightD)
  with r that show thesis by simp
qed

lemma run_lanes_steps [simp]: "map sr_step (run_lanes env n s runnable) = runnable"
  by (simp add: run_lanes_def comp_def case_prod_beta)

lemma length_run_lanes [simp]: "length (run_lanes env n s runnable) = length runnable"
  by (simp add: run_lanes_def)

lemma arrive_set: "env_ok env \<Longrightarrow> set (ee_arrive env n rs) = set rs"
  by (metis env_ok_def set_mset_mset)

lemma arrive_length: "env_ok env \<Longrightarrow> length (ee_arrive env n rs) = length rs"
  by (metis env_ok_def size_mset)

lemma arrive_filter: "env_ok env \<Longrightarrow> length (filter P (ee_arrive env n rs)) = length (filter P rs)"
  by (metis env_ok_def mset_filter size_mset)

section \<open>Replans\<close>

lemma replan_simps:
  assumes "planned s" and "apply_automatic_replan s f r = (s', step)"
  shows "planned s'" "steps (plan_of s') = steps (plan_of s) @ [step]" "depends_on step = []"
    "replan_count (plan_of s') = replan_count (plan_of s) + 1" "session_status s' = session_status s"
    "session_budget s' = session_budget s" "session_mode s' = session_mode s"
    "approved_ids (plan_of s') = approved_ids (plan_of s)" "failed_ids (plan_of s') = failed_ids (plan_of s)"
    "finished s' d = finished s d" "failure s' d = failure s d"
    "step = replan_step f r (replan_count (plan_of s) + 1)"
  using assms by (auto simp: apply_automatic_replan_def Let_def finished_def failure_def replan_step_def)

section \<open>Rounds\<close>

lemma coordinate_cases:
  assumes "coordinate_round env n s ocs = (s', es)"
  obtains "s' = s" "es = []"
  | f r step e where "replan_count (plan_of s) < ee_max_replans env"
      "apply_automatic_replan s f r = (s', step)" "es = [e]" "ev_type e = EventPlanRevised"
  using assms
  by (auto simp: coordinate_round_def Let_def split: if_splits prod.splits)

lemma round_continue_cases:
  assumes "exec_round env n s = Continue s' es"
  obtains (Replan) f r step e where "collect_ready_steps (plan_of s) = []"
      "replan_count (plan_of s) < ee_max_replans env"
      "apply_automatic_replan s f r = (s', step)" "es = [e]" "ev_type e = EventPlanRevised"
  | (Lanes) runnable s1 es1 ocs es2 where
      "collect_ready_steps (plan_of s) \<noteq> []"
      "runnable = select_runnable_steps (collect_ready_steps (plan_of s)) (ee_lanes env)"
      "absorb_results env n s (ee_arrive env n (run_lanes env n s runnable)) = (s1, es1, ocs, False)"
      "coordinate_round env n s1 ocs = (s', es2)"
      "es = start_events s runnable @ es1 @ es2 @ [progress_event s']"
proof (cases "collect_ready_steps (plan_of s) = []")
  case True
  with assms have "no_ready_round env n s = Continue s' es"
    by (auto simp: exec_round_def Let_def split: if_splits)
  with True Replan show ?thesis
    by (auto simp: no_ready_round_def Let_def split: if_splits prod.splits)
next
  case False
  with assms have "lanes_round env n s (select_runnable_steps (collect_ready_steps (plan_of s)) (ee_lanes env))
      = Continue s' es"
    by (auto simp: exec_round_def Let_def split: if_splits)
  with False Lanes [OF _ refl] show ?thesis
    by (auto simp: lanes_round_def Let_def split: if_splits prod.splits)
qed

lemma round_stop_cases:
  assumes "exec_round env n s = Stop t es"
  obtains (Quiet) e where "plan_of t = plan_of s" "planned t = planned s" "session_budget t = session_budget s"
      "es = [e]" "ev_type e = EventStepFailed"
      "session_status t \<in> {session_status s, SessionFailed}"
  | (Complete) e where "t = fst (transition_session_status (ee_now env n) SessionComplete s)"
      "all_steps_terminal (plan_of s)" "failed_ids (plan_of s) = []" "es = [e]" "ev_type e = EventCompleted"
  | (Paused) runnable es1 ocs where
      "collect_ready_steps (plan_of s) \<noteq> []"
      "runnable = select_runnable_steps (collect_ready_steps (plan_of s)) (ee_lanes env)"
      "absorb_results env n s (ee_arrive env n (run_lanes env n s runnable)) = (t, es1, ocs, True)"
      "es = start_events s runnable @ es1"
proof -
  consider (c) "ee_cancelled env n" | (t) "\<not> ee_cancelled env n" "all_steps_terminal (plan_of s)"
    | (n) "\<not> ee_cancelled env n" "\<not> all_steps_terminal (plan_of s)" "collect_ready_steps (plan_of s) = []"
    | (l) "\<not> ee_cancelled env n" "\<not> all_steps_terminal (plan_of s)" "collect_ready_steps (plan_of s) \<noteq> []"
    by blast
  then show ?thesis
  proof cases
    case c
    with assms Quiet show ?thesis by (auto simp: exec_round_def Let_def)
  next
    case t
    with assms Quiet Complete show ?thesis
      by (auto simp: exec_round_def Let_def transition_status split: if_splits)
  next
    case n
    then have "no_ready_round env n s = Stop t es" using assms by (simp add: exec_round_def)
    with Quiet show ?thesis
      by (auto simp: no_ready_round_def Let_def transition_status split: if_splits prod.splits)
  next
    case l
    with assms Paused [OF _ refl] show ?thesis
      by (auto simp: exec_round_def lanes_round_def Let_def split: if_splits prod.splits)
  qed
qed

text \<open>An invariant of the session and the events emitted so far, carried to the end of the run.\<close>

lemma exec_loop_trace:
  assumes "exec_loop env fuel n s = Some (t, es)" and "P s past"
    and "\<And>n s s' es past. P s past \<Longrightarrow> exec_round env n s = Continue s' es \<Longrightarrow> P s' (past @ es)"
    and "\<And>n s t es past. P s past \<Longrightarrow> exec_round env n s = Stop t es \<Longrightarrow> Q t (past @ es)"
  shows "Q t (past @ es)"
  using assms(1,2)
proof (induction fuel arbitrary: n s es past)
  case 0
  then show ?case by simp
next
  case (Suc fuel)
  show ?case
  proof (cases "exec_round env n s")
    case (Continue s' es1)
    with Suc.prems(1) obtain es2 where "exec_loop env fuel (Suc n) s' = Some (t, es2)" "es = es1 @ es2"
      by (auto split: option.splits)
    with Suc.IH [of "Suc n" s' es2 "past @ es1"] assms(3) [OF Suc.prems(2) Continue]
    show ?thesis by simp
  next
    case (Stop t' es')
    with Suc.prems assms(4) [OF Suc.prems(2) Stop] show ?thesis by simp
  qed
qed

lemma execute_trace:
  assumes "execute env fuel s = Some (t, es)" and "planned s"
    and "\<And>s'. planned s' \<Longrightarrow> plan_of s' = plan_of s \<Longrightarrow> session_budget s' = session_budget s \<Longrightarrow>
            session_mode s' = session_mode s \<Longrightarrow> session_status s' = SessionExecutingPlan \<Longrightarrow> P s' []"
    and "\<And>n s s' es past. P s past \<Longrightarrow> exec_round env n s = Continue s' es \<Longrightarrow> P s' (past @ es)"
    and "\<And>n s t es past. P s past \<Longrightarrow> exec_round env n s = Stop t es \<Longrightarrow> Q t (past @ es)"
    and "\<And>m. Q s [event s EventStepFailed '''' m [] 0]"
  shows "Q t es"
proof (cases "transition_session_status (ee_now env 0) SessionExecutingPlan s")
  case (Pair s' err)
  show ?thesis
  proof (cases err)
    case None
    then have "exec_loop env fuel 0 s' = Some (t, es)"
      using assms(1) Pair planned_executing [OF assms(2)] by (simp add: execute_def)
    moreover have "session_status s' = SessionExecutingPlan"
      using Pair None transition_status [of "ee_now env 0" SessionExecutingPlan s]
        transition_iff [of "ee_now env 0" SessionExecutingPlan s] by simp
    moreover have "s' = fst (transition_session_status (ee_now env 0) SessionExecutingPlan s)"
      using Pair by simp
    ultimately have "P s' []" using assms(2) by (intro assms(3)) simp_all
    with \<open>exec_loop env fuel 0 s' = Some (t, es)\<close> show ?thesis
      using exec_loop_trace [of env fuel 0 s' t es P "[]" Q] assms(4,5) by simp
  next
    case (Some e)
    then have "s' = s" using Pair by (auto simp: transition_session_status_def split: if_splits option.splits)
    with Some show ?thesis
      using assms(1) assms(6) [of "err_text e"] Pair planned_executing [OF assms(2)]
      by (auto simp: execute_def)
  qed
qed

end
