(* ===== verification/ExecutorProps.thy ===== *)
theory ExecutorProps
  imports ExecutorLemmas
begin

text \<open>
  What a run of the plan executor guarantees: it ends, it respects the plan's dependencies, its
  final event tells the truth about the session, it accounts for the budget, it replans only a
  bounded number of times, and it never completes a step that still needs a confirmation.
\<close>

section \<open>Termination\<close>

definition pending :: "agent_session \<Rightarrow> nat" where
  "pending s = length (filter (\<lambda>step. \<not> is_step_terminal (plan_of s) (step_id step)) (steps (plan_of s)))"

definition rounds_left :: "exec_env \<Rightarrow> agent_session \<Rightarrow> nat" where
  "rounds_left env s = pending s + 2 * nat (ee_max_replans env - replan_count (plan_of s))"

lemma replan_rounds:
  assumes "planned s" "apply_automatic_replan s f r = (s', step)" "replan_count (plan_of s) < ee_max_replans env"
  shows "planned s' \<and> rounds_left env s' < rounds_left env s"
proof -
  note rs = replan_simps [OF assms(1,2)]
  have "pending s' \<le> pending s + 1"
    using rs(2,10,11) by (simp add: pending_def is_step_terminal_iff)
  moreover have "nat (ee_max_replans env - replan_count (plan_of s'))
      = nat (ee_max_replans env - replan_count (plan_of s)) - 1" using rs(4) by simp
  moreover have "0 < nat (ee_max_replans env - replan_count (plan_of s))" using assms(3) by simp
  ultimately show ?thesis using rs(1) by (simp add: rounds_left_def)
qed

lemma lanes_pending:
  assumes "env_ok env" "errors_have_text env" "planned s" "collect_ready_steps (plan_of s) \<noteq> []"
    and "runnable = select_runnable_steps (collect_ready_steps (plan_of s)) (ee_lanes env)"
    and "absorb_results env n s (ee_arrive env n (run_lanes env n s runnable)) = (s1, es1, ocs, False)"
  shows "pending s1 < pending s"
proof -
  let ?rs = "ee_arrive env n (run_lanes env n s runnable)"
  have sub: "set runnable \<subseteq> set (collect_ready_steps (plan_of s))" "runnable \<noteq> []"
    using select_runnable_spec [of "ee_lanes env"] assms(1,4,5) by (auto simp: env_ok_def)
  have texts: "\<forall>r \<in> set ?rs. \<forall>e. sr_err r = Some e \<longrightarrow> err_text e \<noteq> ''''"
  proof (intro ballI allI impI)
    fix r e assume "r \<in> set ?rs" "sr_err r = Some e"
    then have "r \<in> set (run_lanes env n s runnable)" using arrive_set [OF assms(1)] by auto
    then obtain step lane where "r = run_step_with_recovery (ee_policy env) s step (ee_world env n step) lane"
      by (rule run_lanes_results)
    with \<open>sr_err r = Some e\<close> show "err_text e \<noteq> ''''"
      using assms(2) unfolding errors_have_text_def by blast
  qed
  note ab = absorb_terminal [OF assms(6,3) texts] and keep = absorb_keeps [OF assms(6,3)]
  obtain step where st: "step \<in> set runnable" using sub(2) by (cases runnable) auto
  then have "step \<in> sr_step ` set (run_lanes env n s runnable)"
    by (metis run_lanes_steps set_map)
  then obtain r where "r \<in> set ?rs" "sr_step r = step" using arrive_set [OF assms(1)] by auto
  with ab have "is_step_terminal (plan_of s1) (step_id step)" by (auto simp: is_step_terminal_iff)
  moreover have "step \<in> set (steps (plan_of s))" "\<not> is_step_terminal (plan_of s) (step_id step)"
    using st sub(1) by (auto simp: collect_ready_spec is_step_terminal_iff)
  moreover have "is_step_terminal (plan_of s) d \<Longrightarrow> is_step_terminal (plan_of s1) d" for d
    using ab by (auto simp: is_step_terminal_iff)
  ultimately show ?thesis using keep
    by (auto simp: pending_def intro!: length_filter_less)
qed

lemma round_decreases:
  assumes "env_ok env" "errors_have_text env" "planned s" "exec_round env n s = Continue s' es"
  shows "planned s' \<and> rounds_left env s' < rounds_left env s"
  using assms(4)
proof (cases rule: round_continue_cases)
  case (Replan f r step e)
  then show ?thesis using replan_rounds [OF assms(3)] by blast
next
  case (Lanes runnable s1 es1 ocs es2)
  have "pending s1 < pending s" using lanes_pending [OF assms(1-3) Lanes(1-3)] .
  moreover have keep: "planned s1" "replan_count (plan_of s1) = replan_count (plan_of s)"
    using absorb_keeps [OF Lanes(3) assms(3)] by auto
  ultimately have less: "rounds_left env s1 < rounds_left env s" by (simp add: rounds_left_def)
  from Lanes(4) show ?thesis
  proof (cases rule: coordinate_cases)
    case 1
    then show ?thesis using less keep by simp
  next
    case (2 f r step e)
    from replan_rounds [OF keep(1) 2(2,1)] less show ?thesis by simp
  qed
qed

lemma exec_loop_terminates:
  assumes "env_ok env" "errors_have_text env" "planned s" "rounds_left env s < fuel"
  shows "exec_loop env fuel n s \<noteq> None"
  using assms(3,4)
proof (induction fuel arbitrary: n s)
  case (Suc fuel)
  show ?case
  proof (cases "exec_round env n s")
    case (Continue s' es)
    with round_decreases [OF assms(1,2) Suc.prems(1) Continue] Suc.IH [of s' "Suc n"] Suc.prems(2)
    show ?thesis by (auto split: option.splits)
  qed simp
qed simp

text \<open>
  C3. Running a plan always ends, whatever the tools, the coordinator and the arrival order do,
  as long as results are not lost, there is at least one lane and errors carry a text: the
  number of rounds is at most the number of the plan's steps plus two for each replan that is
  left, plus one.
\<close>

theorem execute_terminates:
  assumes "env_ok env" and "errors_have_text env" and "session_plan s = Some p"
    and "length (steps p) + 2 * nat (ee_max_replans env - replan_count p) < fuel"
  shows "\<exists>t es. execute env fuel s = Some (t, es)"
proof -
  let ?s = "fst (transition_session_status (ee_now env 0) SessionExecutingPlan s)"
  have pl: "planned s" "plan_of s = p" using assms(3) by (auto simp: planned_def plan_of_def)
  have "pending ?s \<le> length (steps p)" using pl by (simp add: pending_def)
  then have "rounds_left env ?s < fuel" using assms(4) pl by (simp add: rounds_left_def)
  then have "exec_loop env fuel 0 ?s \<noteq> None"
    using exec_loop_terminates [OF assms(1,2), of ?s] pl by simp
  then show ?thesis using assms(3)
    by (auto simp: execute_def split: option.splits prod.splits)
qed

section \<open>A concrete environment\<close>

definition calm_env :: exec_env where
  "calm_env =
     \<lparr>ee_policy = default_policy_config '''', ee_lanes = 3, ee_max_replans = 2,
      ee_cancelled = (\<lambda>_. False), ee_world = (\<lambda>_ _ _. idle_world), ee_arrive = (\<lambda>_ rs. rs),
      ee_mediation = (\<lambda>_ _. None), ee_token = (\<lambda>_. (''a1'', ''t1'', ''h1'')), ee_now = (\<lambda>_. 0),
      ee_hitl_timeout = 600000\<rparr>"

lemma calm_env_ok: "env_ok calm_env"
  by (simp add: env_ok_def calm_env_def)

lemma guards_text: "step_guards cfg s step = Some m \<Longrightarrow> m \<noteq> ''''"
  using guards_Some_cases [of cfg s step m] by (auto simp: has_prefix_def confirmation_prefix_def)

lemma idle_dispatch_text: "rp_err (dispatch_step idle_world step p d) = Some e \<Longrightarrow> err_text e \<noteq> ''''"
proof -
  have py: "rp_err (execute_python_step idle_world step p d) = Some e \<Longrightarrow> err_text e \<noteq> ''''"
    by (auto simp: execute_python_step_def idle_world_def numeral_3_eq_3 failed_reply_def error_reply_def
        Let_def split: if_splits)
  assume "rp_err (dispatch_step idle_world step p d) = Some e"
  then show ?thesis using py
    by (cases "execution_target step") (auto simp: dispatch_step_def idle_world_def [symmetric] failed_reply_def
        simp: idle_world_def)
qed

lemma calm_errors: "errors_have_text calm_env"
proof -
  have once: "rp_err (execute_step_once cfg s step idle_world d) = Some e \<Longrightarrow> err_text e \<noteq> ''''" for cfg s step d e
    using guards_text [of cfg s step] idle_dispatch_text [of step _ d e]
    by (auto simp: execute_step_once_def failed_reply_def split: option.splits)
  have loop: "(rp_err pv = None \<or> (\<exists>e. rp_err pv = Some e \<and> err_text e \<noteq> '''')) \<Longrightarrow>
      sr_err (recovery_loop cfg s step (\<lambda>_. idle_world) lane k a pv) = Some e \<Longrightarrow> err_text e \<noteq> ''''"
    for cfg s step lane k a pv e
  proof (induction k arbitrary: a pv)
    case (Suc k)
    then show ?case using once [of cfg s step "1 < a"]
      by (auto simp: Let_def step_result_of_def split: if_splits)
  qed (auto simp: step_result_of_def)
  show ?thesis
    by (auto simp: errors_have_text_def calm_env_def run_step_with_recovery_def dest: loop [rotated])
qed

definition two_steps :: agent_session where
  "two_steps = example_session ''guided''
     (new_plan_state ''p'' [example_step ''a'' [], example_step ''b'' [''a'']])"

definition two_steps_run :: "agent_session \<times> plan_event list" where
  "two_steps_run = the (execute calm_env 7 two_steps)"

lemma two_steps_plan:
  "session_plan two_steps = Some (new_plan_state ''p'' [example_step ''a'' [], example_step ''b'' [''a'']])"
  by (simp add: two_steps_def)

lemma two_steps_executes: "execute calm_env 7 two_steps = Some (fst two_steps_run, snd two_steps_run)"
proof -
  have "execute calm_env 7 two_steps \<noteq> None" by code_simp
  then show ?thesis by (auto simp: two_steps_run_def)
qed

lemma two_steps_events:
  "map (\<lambda>e. (ev_type e, ev_step_id e)) (snd two_steps_run) =
     [(EventStepStarted, ''a''), (EventPaperFound, ''a''), (EventStepCompleted, ''a''), (EventProgress, ''''),
      (EventStepStarted, ''b''), (EventPaperFound, ''b''), (EventStepCompleted, ''b''), (EventProgress, ''''),
      (EventCompleted, '''')]"
  by code_simp

theorem execute_terminates_witness:
  "\<exists>t es. execute calm_env 7 two_steps = Some (t, es)"
  by (rule execute_terminates [OF calm_env_ok calm_errors two_steps_plan])
    (simp add: new_plan_state_def calm_env_def)

section \<open>Dependencies\<close>

text \<open>Every start in \<open>es\<close> is of a step of \<open>ss\<close> all of whose dependencies were completed before it.\<close>

definition starts_in_order :: "(string \<Rightarrow> bool) \<Rightarrow> plan_step set \<Rightarrow> plan_event list \<Rightarrow> bool" where
  "starts_in_order before ss es \<longleftrightarrow>
     (\<forall>pre e post. es = pre @ e # post \<longrightarrow> ev_type e = EventStepStarted \<longrightarrow>
        (\<exists>step \<in> ss. step_id step = ev_step_id e \<and>
           (\<forall>d \<in> set (depends_on step). before d \<or> completed_in pre d)))"

lemma starts_in_order_append:
  assumes "starts_in_order before ss past"
    and "\<And>e. e \<in> set es \<Longrightarrow> ev_type e = EventStepStarted \<Longrightarrow>
           (\<exists>step \<in> ss. step_id step = ev_step_id e \<and>
              (\<forall>d \<in> set (depends_on step). before d \<or> completed_in past d))"
  shows "starts_in_order before ss (past @ es)"
  unfolding starts_in_order_def
proof (intro allI impI)
  fix pre e post assume eq: "past @ es = pre @ e # post" and st: "ev_type e = EventStepStarted"
  from eq consider (old) post' where "past = pre @ e # post'"
    | (new) mid where "pre = past @ mid" "es = mid @ e # post"
    by (auto simp: append_eq_append_conv2 Cons_eq_append_conv append_eq_Cons_conv)
  then show "\<exists>step \<in> ss. step_id step = ev_step_id e \<and>
           (\<forall>d \<in> set (depends_on step). before d \<or> completed_in pre d)"
  proof cases
    case old
    with assms(1) st show ?thesis unfolding starts_in_order_def by blast
  next
    case new
    with assms(2) [of e] st show ?thesis by fastforce
  qed
qed

lemma starts_in_order_mono: "starts_in_order before ss es \<Longrightarrow> ss \<subseteq> ss' \<Longrightarrow> starts_in_order before ss' es"
  unfolding starts_in_order_def by blast

lemma start_events_spec:
  "e \<in> set (start_events s runnable) \<Longrightarrow>
     ev_type e = EventStepStarted \<and> (\<exists>step \<in> set runnable. step_id step = ev_step_id e)"
  by (auto simp: start_events_def enumerate_eq_zip dest: set_zip_rightD)

lemma lanes_start_ready:
  assumes "env_ok env" "e \<in> set (start_events s (select_runnable_steps (collect_ready_steps (plan_of s)) (ee_lanes env)))"
  shows "\<exists>step \<in> set (steps (plan_of s)). step_id step = ev_step_id e \<and> (\<forall>d \<in> set (depends_on step). finished s d)"
proof -
  obtain step where st: "step \<in> set (select_runnable_steps (collect_ready_steps (plan_of s)) (ee_lanes env))"
      "step_id step = ev_step_id e"
    using start_events_spec [OF assms(2)] by blast
  then have "step \<in> set (collect_ready_steps (plan_of s))"
    using select_runnable_spec [of "ee_lanes env" "collect_ready_steps (plan_of s)"] assms(1)
    by (auto simp: env_ok_def)
  with st(2) show ?thesis by (auto simp: collect_ready_spec)
qed

definition order_inv :: "agent_session \<Rightarrow> agent_session \<Rightarrow> plan_event list \<Rightarrow> bool" where
  "order_inv s0 s past \<longleftrightarrow> planned s \<and> (\<forall>d. finished s d \<longrightarrow> finished s0 d \<or> completed_in past d)
     \<and> starts_in_order (finished s0) (set (steps (plan_of s))) past"

lemma order_inv_lanes:
  assumes "env_ok env" "order_inv s0 s past"
    and "runnable = select_runnable_steps (collect_ready_steps (plan_of s)) (ee_lanes env)"
    and "absorb_results env n s (ee_arrive env n (run_lanes env n s runnable)) = (s1, es1, ocs, stopped)"
  shows "order_inv s0 s1 (past @ start_events s runnable @ es1)"
proof -
  have pl: "planned s" using assms(2) by (simp add: order_inv_def)
  note keep = absorb_keeps [OF assms(4) pl] and fin = absorb_finished [OF assms(4) pl]
    and ev = absorb_events [OF assms(4) pl]
  have "starts_in_order (finished s0) (set (steps (plan_of s))) (past @ start_events s runnable @ es1)"
  proof (rule starts_in_order_append)
    show "starts_in_order (finished s0) (set (steps (plan_of s))) past"
      using assms(2) by (simp add: order_inv_def)
    fix e assume e: "e \<in> set (start_events s runnable @ es1)" "ev_type e = EventStepStarted"
    then have "e \<in> set (start_events s runnable)" using ev by (auto simp: absorb_types_def)
    from lanes_start_ready [OF assms(1), of e s] this assms(2,3)
    show "\<exists>step \<in> set (steps (plan_of s)). step_id step = ev_step_id e \<and>
        (\<forall>d \<in> set (depends_on step). finished s0 d \<or> completed_in past d)"
      unfolding order_inv_def by blast
  qed
  with keep fin assms(2) show ?thesis by (auto simp: order_inv_def)
qed

lemma order_inv_quiet:
  assumes "order_inv s0 s past" and "planned t" "\<And>d. finished t d = finished s d"
    and "set (steps (plan_of s)) \<subseteq> set (steps (plan_of t))"
    and "\<And>e. e \<in> set es \<Longrightarrow> ev_type e \<noteq> EventStepStarted"
  shows "order_inv s0 t (past @ es)"
  using assms starts_in_order_append [of "finished s0" "set (steps (plan_of t))" past es]
    starts_in_order_mono [OF _ assms(4)]
  by (auto simp: order_inv_def)

lemma order_inv_continue:
  assumes "env_ok env" "order_inv s0 s past" "exec_round env n s = Continue s' es"
  shows "order_inv s0 s' (past @ es)"
  using assms(3)
proof (cases rule: round_continue_cases)
  case (Replan f r step e)
  have "planned s" using assms(2) by (simp add: order_inv_def)
  note rs = replan_simps [OF this Replan(3)]
  show ?thesis using Replan(4,5) rs by (intro order_inv_quiet [OF assms(2)]) auto
next
  case (Lanes runnable s1 es1 ocs es2)
  have o1: "order_inv s0 s1 (past @ start_events s runnable @ es1)"
    using order_inv_lanes [OF assms(1,2) Lanes(2,3)] .
  from Lanes(4) show ?thesis
  proof (cases rule: coordinate_cases)
    case 1
    then show ?thesis using order_inv_quiet [OF o1, of s1 "[progress_event s1]"] o1 Lanes(5)
      by (simp add: order_inv_def)
  next
    case (2 f r step e)
    have "planned s1" using o1 by (simp add: order_inv_def)
    note rs = replan_simps [OF this 2(2)]
    have "order_inv s0 s' ((past @ start_events s runnable @ es1) @ [e, progress_event s'])"
      by (rule order_inv_quiet [OF o1]) (use rs 2(4) in auto)
    then show ?thesis using 2(3) Lanes(5) by simp
  qed
qed

text \<open>
  C1. No step is started before its dependencies: in the event stream of a run, whenever a step
  is started, the plan holds a step of that id all of whose dependencies were completed when the
  run began or have a completion event earlier in the stream. This holds for every arrival order
  of the parallel lanes and across replans.
\<close>

theorem starts_after_dependencies:
  assumes "env_ok env" and "session_plan s = Some p" and "execute env fuel s = Some (t, es)"
    and "es = pre @ e # post" and "ev_type e = EventStepStarted"
  shows "\<exists>step \<in> set (steps (plan_of t)). step_id step = ev_step_id e \<and>
           (\<forall>d \<in> set (depends_on step). dict_get_or False (completed_ids p) d \<or> completed_in pre d)"
proof -
  have pl: "planned s" "plan_of s = p" using assms(2) by (auto simp: planned_def plan_of_def)
  have "starts_in_order (finished s) (set (steps (plan_of t))) es"
  proof (rule execute_trace [OF assms(3) pl(1), where P = "order_inv s"
        and Q = "\<lambda>t es. starts_in_order (finished s) (set (steps (plan_of t))) es"])
    fix s' assume "planned s'" "plan_of s' = plan_of s"
    then show "order_inv s s' []" by (simp add: order_inv_def starts_in_order_def finished_def)
  next
    fix n u u' es' past assume "order_inv s u past" "exec_round env n u = Continue u' es'"
    then show "order_inv s u' (past @ es')" using order_inv_continue [OF assms(1)] by blast
  next
    fix n u u' es' past assume i: "order_inv s u past" and st: "exec_round env n u = Stop u' es'"
    from st show "starts_in_order (finished s) (set (steps (plan_of u'))) (past @ es')"
    proof (cases rule: round_stop_cases)
      case (Paused runnable es1 ocs)
      then show ?thesis using order_inv_lanes [OF assms(1) i Paused(2,3)] by (simp add: order_inv_def)
    qed (use i in \<open>auto simp: order_inv_def intro!: starts_in_order_append\<close>)
  next
    fix m show "starts_in_order (finished s) (set (steps (plan_of s))) [event s EventStepFailed '''' m [] 0]"
      by (auto simp: starts_in_order_def Cons_eq_append_conv)
  qed
  with assms(4,5) show ?thesis by (auto simp: starts_in_order_def finished_def pl(2))
qed

theorem starts_after_dependencies_witness:
  "ev_step_id (snd two_steps_run ! 4) = ''b'' \<and>
   (\<exists>step \<in> set (steps (plan_of (fst two_steps_run))). step_id step = ev_step_id (snd two_steps_run ! 4) \<and>
      (\<forall>d \<in> set (depends_on step). dict_get_or False [] d \<or> completed_in (take 4 (snd two_steps_run)) d))"
proof -
  let ?es = "snd two_steps_run"
  have len: "length ?es = 9" using arg_cong [OF two_steps_events, of length] by simp
  have "map (\<lambda>e. (ev_type e, ev_step_id e)) ?es ! 4 = (EventStepStarted, ''b'')"
    unfolding two_steps_events by simp
  then have e: "ev_type (?es ! 4) = EventStepStarted" "ev_step_id (?es ! 4) = ''b''" using len by simp_all
  have sp: "?es = take 4 ?es @ ?es ! 4 # drop (Suc 4) ?es" by (rule id_take_nth_drop) (simp add: len)
  show ?thesis
    using starts_after_dependencies [OF calm_env_ok two_steps_plan two_steps_executes sp e(1)] e(2)
    by (simp add: new_plan_state_def)
qed

end
