(* ===== verification/ExecutorOutcomes.thy ===== *)
theory ExecutorOutcomes
  imports ExecutorProps
begin

text \<open>
  The final event of a run and what it says about the session, the budget's accounting, the bound
  on replans, and the safety of unapproved steps.
\<close>

section \<open>The final event\<close>

definition run_inv :: "agent_session \<Rightarrow> plan_event list \<Rightarrow> bool" where
  "run_inv s past \<longleftrightarrow> planned s \<and> session_status s = SessionExecutingPlan
     \<and> (\<forall>e \<in> set past. ev_type e \<notin> {EventCompleted, EventConfirmationNeed})
     \<and> ((\<exists>e \<in> set past. ev_type e = EventStepFailed) \<longrightarrow> failed_ids (plan_of s) \<noteq> [])"

definition truthful :: "agent_session \<Rightarrow> plan_event list \<Rightarrow> bool" where
  "truthful t es \<longleftrightarrow>
     es \<noteq> [] \<and> ev_type (last es) \<in> {EventCompleted, EventConfirmationNeed, EventStepFailed}
     \<and> (\<forall>e \<in> set (butlast es). ev_type e \<notin> {EventCompleted, EventConfirmationNeed})
     \<and> (ev_type (last es) = EventCompleted \<longrightarrow>
          session_status t = SessionComplete \<and> failed_ids (plan_of t) = []
          \<and> (\<forall>step \<in> set (steps (plan_of t)). finished t (step_id step))
          \<and> (\<forall>e \<in> set es. ev_type e \<noteq> EventStepFailed))
     \<and> (ev_type (last es) = EventConfirmationNeed \<longrightarrow>
          session_status t = SessionPaused
          \<and> pending_approval_step_id (plan_of t) = ev_step_id (last es))
     \<and> (ev_type (last es) = EventStepFailed \<longrightarrow> session_status t \<noteq> SessionComplete)"

lemma run_inv_lanes:
  assumes "run_inv s past"
    and "absorb_results env n s rs = (s1, es1, ocs, False)"
  shows "run_inv s1 (past @ start_events s runnable @ es1)"
proof -
  have pl: "planned s" using assms(1) by (simp add: run_inv_def)
  note keep = absorb_keeps [OF assms(2) pl] and ev = absorb_events [OF assms(2) pl]
    and fl = absorb_failed [OF assms(2) pl]
  show ?thesis using assms(1) keep ev fl
    by (auto simp: run_inv_def absorb_types_def dest: start_events_spec)
qed

lemma run_inv_continue:
  assumes "run_inv s past" "exec_round env n s = Continue s' es"
  shows "run_inv s' (past @ es)"
  using assms(2)
proof (cases rule: round_continue_cases)
  case (Replan f r step e)
  have "planned s" using assms(1) by (simp add: run_inv_def)
  note rs = replan_simps [OF this Replan(3)]
  show ?thesis using Replan(4,5) rs assms(1) by (simp add: run_inv_def)
next
  case (Lanes runnable s1 es1 ocs es2)
  have r1: "run_inv s1 (past @ start_events s runnable @ es1)"
    using run_inv_lanes [OF assms(1) Lanes(3)] .
  from Lanes(4) show ?thesis
  proof (cases rule: coordinate_cases)
    case 1
    then show ?thesis using r1 Lanes(5) by (auto simp: run_inv_def)
  next
    case (2 f r step e)
    have "planned s1" using r1 by (simp add: run_inv_def)
    note rs = replan_simps [OF this 2(2)]
    show ?thesis using r1 2(3,4) rs Lanes(5) by (auto simp: run_inv_def)
  qed
qed

lemma run_inv_stop:
  assumes "run_inv s past" "exec_round env n s = Stop t es"
  shows "truthful t (past @ es)"
  using assms(2)
proof (cases rule: round_stop_cases)
  case (Quiet e)
  then show ?thesis using assms(1) by (auto simp: truthful_def run_inv_def)
next
  case (Complete e)
  have "session_status t = SessionComplete" using assms(1) Complete(1)
    by (simp add: transition_status run_inv_def)
  moreover have "\<forall>step \<in> set (steps (plan_of t)). finished t (step_id step)"
    using Complete by (auto simp: all_steps_terminal_def list_all_iff is_step_terminal_iff failure_def finished_def)
  ultimately show ?thesis using assms(1) Complete by (auto simp: truthful_def run_inv_def)
next
  case (Paused runnable es1 ocs)
  have pl: "planned s" using assms(1) by (simp add: run_inv_def)
  note keep = absorb_keeps [OF Paused(3) pl] and ev = absorb_events [OF Paused(3) pl]
  have "e \<in> set (butlast (past @ start_events s runnable @ es1)) \<Longrightarrow>
      ev_type e \<notin> {EventCompleted, EventConfirmationNeed}" for e
    using ev assms(1) by (auto simp: butlast_append run_inv_def absorb_types_def dest: start_events_spec)
  then show ?thesis using keep ev assms(1) Paused(4) by (auto simp: truthful_def run_inv_def)
qed

text \<open>
  C4. The stream of a run of a session with a plan ends with exactly one verdict and the verdict
  is true: "completed" comes only with a complete session in which every step is completed, no
  step is recorded as failed and no step failed during the run; "confirmation needed" comes with
  a paused session that remembers that very step as pending; and after a failure the session is
  not complete, except when \<open>Execute\<close> refused to start it: then the failure is the only event and
  the session is left as it was.
\<close>

theorem run_verdict_true:
  assumes "execute env fuel s = Some (t, es)" and "session_plan s = Some p"
  shows "es \<noteq> [] \<and> ev_type (last es) \<in> {EventCompleted, EventConfirmationNeed, EventStepFailed}
         \<and> (\<forall>e \<in> set (butlast es). ev_type e \<notin> {EventCompleted, EventConfirmationNeed})
         \<and> (ev_type (last es) = EventCompleted \<longrightarrow>
              session_status t = SessionComplete \<and> failed_ids (plan_of t) = []
              \<and> (\<forall>step \<in> set (steps (plan_of t)). dict_get_or False (completed_ids (plan_of t)) (step_id step))
              \<and> (\<forall>e \<in> set es. ev_type e \<noteq> EventStepFailed))
         \<and> (ev_type (last es) = EventConfirmationNeed \<longrightarrow>
              session_status t = SessionPaused
              \<and> pending_approval_step_id (plan_of t) = ev_step_id (last es))
         \<and> (ev_type (last es) = EventStepFailed \<longrightarrow>
              session_status t \<noteq> SessionComplete \<or> t = s \<and> length es = 1)"
proof -
  have pl: "planned s" using assms(2) by (simp add: planned_def)
  have "truthful t es \<or> t = s \<and> (\<exists>e. es = [e] \<and> ev_type e = EventStepFailed)"
  proof (rule execute_trace [OF assms(1) pl, where P = run_inv
        and Q = "\<lambda>t es. truthful t es \<or> t = s \<and> (\<exists>e. es = [e] \<and> ev_type e = EventStepFailed)"])
    fix s' assume "planned s'" "session_status s' = SessionExecutingPlan"
    then show "run_inv s' []" by (simp add: run_inv_def)
  qed (use run_inv_continue run_inv_stop in auto)
  then show ?thesis by (auto simp: truthful_def finished_def)
qed

theorem run_verdict_true_witness:
  "session_status (fst two_steps_run) = SessionComplete"
proof -
  have ev: "map ev_type (snd two_steps_run) ! 8 = EventCompleted"
    using arg_cong [OF two_steps_events, of "\<lambda>xs. map fst xs ! 8"] by (simp add: comp_def)
  have len: "length (snd two_steps_run) = 9" using arg_cong [OF two_steps_events, of length] by simp
  then have "snd two_steps_run \<noteq> []" by auto
  then have "ev_type (last (snd two_steps_run)) = EventCompleted" using ev len by (simp add: last_conv_nth)
  with run_verdict_true [OF two_steps_executes two_steps_plan] show ?thesis by simp
qed

text \<open>A plan whose first step waits for a human and whose second one does not.\<close>

definition checkpoint_session :: agent_session where
  "checkpoint_session = example_session ''guided''
     (new_plan_state ''p'' [(example_step ''a'' [])\<lparr>requires_human_checkpoint := True\<rparr>, example_step ''b'' []])"

text \<open>
  A round that needs a confirmation loses the work of its other lanes. Here two independent
  steps run in parallel, one needs a human checkpoint and arrives first, the other succeeded: the
  run pauses without recording the success - the step is neither completed nor failed, its papers
  are not emitted and the budget is not charged - so it is executed again after the approval.
\<close>

theorem confirmation_discards_finished_lane:
  "sr_err (run_step_with_recovery (ee_policy calm_env) checkpoint_session (example_step ''b'' [])
        (ee_world calm_env 0 (example_step ''b'' [])) 2) = None
   \<and> map_option (\<lambda>(t, es). (map (\<lambda>e. (ev_type e, ev_step_id e)) es, session_status t,
          completed_ids (plan_of t), failed_ids (plan_of t), tool_calls_used (session_budget t)))
        (execute calm_env 7 checkpoint_session)
      = Some ([(EventStepStarted, ''a''), (EventStepStarted, ''b''), (EventConfirmationNeed, ''a'')],
              SessionPaused, [], [], 0)"
  by (rule conjI; code_simp)

section \<open>Budget\<close>

definition budget_trace :: "exec_env \<Rightarrow> agent_session \<Rightarrow> agent_session \<Rightarrow> plan_event list \<Rightarrow> bool" where
  "budget_trace env s0 s past \<longleftrightarrow> planned s
     \<and> max_tool_calls (session_budget s) = max_tool_calls (session_budget s0)
     \<and> tool_calls_used (session_budget s) = tool_calls_used (session_budget s0) + int (completions past)
     \<and> tool_calls_used (session_budget s) \<le>
          max (tool_calls_used (session_budget s0)) (max_tool_calls (session_budget s0) + ee_lanes env - 1)"

lemma budget_trace_lanes:
  assumes "env_ok env" "budget_trace env s0 s past"
    and "runnable = select_runnable_steps (collect_ready_steps (plan_of s)) (ee_lanes env)"
    and "absorb_results env n s (ee_arrive env n (run_lanes env n s runnable)) = (s1, es1, ocs, stopped)"
  shows "budget_trace env s0 s1 (past @ start_events s runnable @ es1)"
proof -
  let ?rs = "run_lanes env n s runnable"
  have pl: "planned s" using assms(2) by (simp add: budget_trace_def)
  note keep = absorb_keeps [OF assms(4) pl] and fin = absorb_finished [OF assms(4) pl]
  have "completions es1 \<le> length (filter (\<lambda>r. sr_err r = None) ?rs)"
    using fin arrive_filter [OF assms(1)] by metis
  also have "\<dots> \<le> length runnable"
    by (metis length_filter_le length_run_lanes)
  finally have c: "int (completions es1) \<le> ee_lanes env"
    using select_runnable_spec [of "ee_lanes env" "collect_ready_steps (plan_of s)"] assms(1,3)
    by (simp add: env_ok_def)
  have under: "tool_calls_used (session_budget s) < max_tool_calls (session_budget s)"
    if "completions es1 \<noteq> 0"
  proof -
    from that have "filter (\<lambda>r. sr_err r = None) ?rs \<noteq> []"
      using \<open>completions es1 \<le> length (filter (\<lambda>r. sr_err r = None) ?rs)\<close> by auto
    then obtain r where "r \<in> set ?rs" "sr_err r = None" by (auto simp: filter_empty_conv)
    then obtain step where "step_guards (ee_policy env) s step = None"
      by (metis run_lanes_results run_step_success_guards)
    then show ?thesis
      by (auto simp: guards_None_iff step_execution_budget_exceeded_def split: if_splits)
  qed
  show ?thesis
    using assms(2) keep fin c under by (cases "completions es1 = 0") (auto simp: budget_trace_def)
qed

lemma budget_trace_continue:
  assumes "env_ok env" "budget_trace env s0 s past" "exec_round env n s = Continue s' es"
  shows "budget_trace env s0 s' (past @ es)"
  using assms(3)
proof (cases rule: round_continue_cases)
  case (Replan f r step e)
  have "planned s" using assms(2) by (simp add: budget_trace_def)
  note rs = replan_simps [OF this Replan(3)]
  show ?thesis using Replan(4,5) rs assms(2) by (simp add: budget_trace_def)
next
  case (Lanes runnable s1 es1 ocs es2)
  have b1: "budget_trace env s0 s1 (past @ start_events s runnable @ es1)"
    using budget_trace_lanes [OF assms(1,2) Lanes(2,3)] .
  from Lanes(4) show ?thesis
  proof (cases rule: coordinate_cases)
    case 1
    then show ?thesis using b1 Lanes(5) by (simp add: budget_trace_def)
  next
    case (2 f r step e)
    have "planned s1" using b1 by (simp add: budget_trace_def)
    note rs = replan_simps [OF this 2(2)]
    show ?thesis using b1 2(3,4) rs Lanes(5) by (simp add: budget_trace_def)
  qed
qed

text \<open>
  C9. The session's tool-call count grows by exactly one for each completed step of the run, and
  the budget's hard limit can be passed by at most the number of parallel lanes less one, since
  all lanes of a round are checked against the same count before any is charged.
\<close>

theorem tool_calls_accounted:
  assumes "env_ok env" and "session_plan s = Some p" and "execute env fuel s = Some (t, es)"
  shows "tool_calls_used (session_budget t) = tool_calls_used (session_budget s) + int (completions es)
         \<and> tool_calls_used (session_budget t) \<le>
             max (tool_calls_used (session_budget s)) (max_tool_calls (session_budget s) + ee_lanes env - 1)"
proof -
  have pl: "planned s" using assms(2) by (simp add: planned_def)
  have "budget_trace env s t es"
  proof (rule execute_trace [OF assms(3) pl, where P = "budget_trace env s" and Q = "budget_trace env s"])
    fix n u u' es' past assume i: "budget_trace env s u past" and "exec_round env n u = Stop u' es'"
    from this(2) show "budget_trace env s u' (past @ es')"
    proof (cases rule: round_stop_cases)
      case (Paused runnable es1 ocs)
      then show ?thesis using budget_trace_lanes [OF assms(1) i Paused(2,3)] by simp
    qed (use i in \<open>simp_all add: budget_trace_def\<close>)
  next
    fix m show "budget_trace env s s [event s EventStepFailed '''' m [] 0]" using pl by (simp add: budget_trace_def)
  next
    fix s' assume "planned s'" "session_budget s' = session_budget s"
    then show "budget_trace env s s' []" by (simp add: budget_trace_def)
  qed (fact budget_trace_continue [OF assms(1)])
  then show ?thesis by (simp add: budget_trace_def)
qed

theorem tool_calls_accounted_witness:
  "tool_calls_used (session_budget (fst two_steps_run)) = 0 + int (completions (snd two_steps_run))
   \<and> tool_calls_used (session_budget (fst two_steps_run)) \<le> 26"
  using tool_calls_accounted [OF calm_env_ok two_steps_plan two_steps_executes]
  by (simp add: two_steps_def calm_env_def)

section \<open>Replans\<close>

definition replan_trace :: "exec_env \<Rightarrow> agent_session \<Rightarrow> agent_session \<Rightarrow> bool" where
  "replan_trace env s0 s \<longleftrightarrow> planned s
     \<and> session_mode s = session_mode s0 \<and> approved_ids (plan_of s) = approved_ids (plan_of s0)
     \<and> replan_count (plan_of s) \<le> max (replan_count (plan_of s0)) (ee_max_replans env)
     \<and> (\<exists>extra. steps (plan_of s) = steps (plan_of s0) @ extra
          \<and> int (length extra) = replan_count (plan_of s) - replan_count (plan_of s0)
          \<and> (\<forall>step \<in> set extra. \<exists>f r n. step = replan_step f r n))"

lemma replan_trace_replan:
  assumes "replan_trace env s0 s" "apply_automatic_replan s f r = (s', step)"
    "replan_count (plan_of s) < ee_max_replans env"
  shows "replan_trace env s0 s'"
proof -
  have "planned s" using assms(1) by (simp add: replan_trace_def)
  note rs = replan_simps [OF this assms(2)]
  obtain extra where ex: "steps (plan_of s) = steps (plan_of s0) @ extra"
    "int (length extra) = replan_count (plan_of s) - replan_count (plan_of s0)"
    "\<forall>step \<in> set extra. \<exists>f r n. step = replan_step f r n"
    using assms(1) unfolding replan_trace_def by blast
  have "\<exists>extra. steps (plan_of s') = steps (plan_of s0) @ extra
          \<and> int (length extra) = replan_count (plan_of s') - replan_count (plan_of s0)
          \<and> (\<forall>step \<in> set extra. \<exists>f r n. step = replan_step f r n)"
    using ex rs by (intro exI [of _ "extra @ [step]"]) auto
  then show ?thesis using assms(1,3) rs by (simp add: replan_trace_def)
qed

lemma replan_trace_keep:
  "replan_trace env s0 s \<Longrightarrow> absorb_results env n s rs = (s1, es1, ocs, b) \<Longrightarrow> replan_trace env s0 s1"
  using absorb_keeps [of env n s rs s1 es1 ocs b] by (auto simp: replan_trace_def)

lemma replan_trace_continue:
  assumes "replan_trace env s0 s" "exec_round env n s = Continue s' es"
  shows "replan_trace env s0 s'"
  using assms(2)
proof (cases rule: round_continue_cases)
  case (Replan f r step e)
  then show ?thesis using replan_trace_replan [OF assms(1)] by blast
next
  case (Lanes runnable s1 es1 ocs es2)
  have r1: "replan_trace env s0 s1" using replan_trace_keep [OF assms(1) Lanes(3)] .
  from Lanes(4) show ?thesis
    by (cases rule: coordinate_cases) (use r1 replan_trace_replan [OF r1] in auto)
qed

lemma replan_trace_stop:
  assumes "replan_trace env s0 s" "exec_round env n s = Stop t es"
  shows "replan_count (plan_of t) \<le> max (replan_count (plan_of s0)) (ee_max_replans env)
     \<and> (\<exists>extra. steps (plan_of t) = steps (plan_of s0) @ extra
          \<and> int (length extra) = replan_count (plan_of t) - replan_count (plan_of s0)
          \<and> (\<forall>step \<in> set extra. \<exists>f r n. step = replan_step f r n))"
  using assms(2)
proof (cases rule: round_stop_cases)
  case (Paused runnable es1 ocs)
  then show ?thesis using replan_trace_keep [OF assms(1) Paused(3)] by (simp add: replan_trace_def)
qed (use assms(1) in \<open>auto simp: replan_trace_def\<close>)

text \<open>
  C14. Replanning is bounded and only ever adds: a run appends to the plan one step per replan and
  nothing else, leaves the original steps as they were and in place, and replans at most up to
  the configured maximum (unless the session came in above it).
\<close>

theorem replans_bounded:
  assumes "session_plan s = Some p" and "execute env fuel s = Some (t, es)"
  shows "replan_count (plan_of t) \<le> max (replan_count p) (ee_max_replans env)
         \<and> (\<exists>extra. steps (plan_of t) = steps p @ extra
              \<and> int (length extra) = replan_count (plan_of t) - replan_count p
              \<and> (\<forall>step \<in> set extra. \<exists>f r n. step = replan_step f r n))"
proof -
  have pl: "planned s" "plan_of s = p" using assms(1) by (auto simp: planned_def plan_of_def)
  have start: "replan_trace env s s'" if "planned s'" "plan_of s' = plan_of s" "session_mode s' = session_mode s" for s'
    using that by (simp add: replan_trace_def)
  show ?thesis
    unfolding pl(2) [symmetric]
  proof (rule execute_trace [OF assms(2) pl(1), where P = "\<lambda>u _. replan_trace env s u"])
    show "replan_count (plan_of s) \<le> max (replan_count (plan_of s)) (ee_max_replans env)
         \<and> (\<exists>extra. steps (plan_of s) = steps (plan_of s) @ extra
              \<and> int (length extra) = replan_count (plan_of s) - replan_count (plan_of s)
              \<and> (\<forall>step \<in> set extra. \<exists>f r n. step = replan_step f r n))" by simp
  next
    fix s' assume "planned s'" "plan_of s' = plan_of s" "session_mode s' = session_mode s"
    then show "replan_trace env s s'" by (rule start)
  next
    fix n u u' es' assume "replan_trace env s u" "exec_round env n u = Continue u' es'"
    then show "replan_trace env s u'" by (rule replan_trace_continue)
  next
    fix n u u' es' assume "replan_trace env s u" "exec_round env n u = Stop u' es'"
    then show "replan_count (plan_of u') \<le> max (replan_count (plan_of s)) (ee_max_replans env)
         \<and> (\<exists>extra. steps (plan_of u') = steps (plan_of s) @ extra
              \<and> int (length extra) = replan_count (plan_of u') - replan_count (plan_of s)
              \<and> (\<forall>step \<in> set extra. \<exists>f r n. step = replan_step f r n))"
      by (rule replan_trace_stop)
  qed
qed

theorem replans_bounded_witness:
  "replan_count (plan_of (fst two_steps_run)) \<le> 2"
  using replans_bounded [OF two_steps_plan two_steps_executes] by (simp add: new_plan_state_def calm_env_def)

section \<open>Unapproved steps\<close>

lemma execute_completes_checkpoint: "\<exists>t es. execute calm_env 7 checkpoint_session = Some (t, es)"
proof -
  have "execute calm_env 7 checkpoint_session \<noteq> None" by code_simp
  then show ?thesis by auto
qed

definition guarded_step :: "exec_env \<Rightarrow> agent_session \<Rightarrow> string \<Rightarrow> bool" where
  "guarded_step env s x \<longleftrightarrow>
     (\<forall>step \<in> set (steps (plan_of s)). step_id step = x \<longrightarrow>
        needs_confirmation (ee_policy env) step \<and> \<not> should_bypass_confirmation s step)
     \<and> \<not> dict_get_or False (approved_ids (plan_of s)) x \<and> (\<forall>f n. x \<noteq> f @ ''_replan_'' @ itoa n)"

lemma step_id_replan: "step_id (replan_step f r n) = f @ ''_replan_'' @ itoa n"
  by (simp add: replan_step_def)

lemma bypass_mode: "session_mode s = session_mode t \<Longrightarrow> should_bypass_confirmation s = should_bypass_confirmation t"
  by (rule ext) (simp add: should_bypass_confirmation_def)

lemma guarded_not_completed:
  assumes "env_ok env" "guarded_step env s0 x" "replan_trace env s0 s"
    and "runnable = select_runnable_steps (collect_ready_steps (plan_of s)) (ee_lanes env)"
    and "absorb_results env n s (ee_arrive env n (run_lanes env n s runnable)) = (s1, es1, ocs, b)"
  shows "\<not> completed_in es1 x"
proof
  assume "completed_in es1 x"
  have pl: "planned s" using assms(3) by (simp add: replan_trace_def)
  from absorb_finished [OF assms(5) pl] \<open>completed_in es1 x\<close> arrive_set [OF assms(1)]
  obtain r where r: "r \<in> set (run_lanes env n s runnable)" "sr_err r = None" "step_id (sr_step r) = x"
    by blast
  obtain step where st: "step \<in> set runnable" "sr_step r = step" and g: "step_guards (ee_policy env) s step = None"
    using r(1,2) by (metis run_lanes_results run_step_success_guards)
  have "step \<in> set (steps (plan_of s))"
    using st(1) select_runnable_spec [of "ee_lanes env" "collect_ready_steps (plan_of s)"] assms(1,4)
    by (auto simp: env_ok_def collect_ready_spec)
  then have "step \<in> set (steps (plan_of s0)) \<or> (\<exists>f r n. step = replan_step f r n)"
    using assms(3) unfolding replan_trace_def by (metis Un_iff set_append)
  moreover have "step \<noteq> replan_step f r n" for f r n
  proof
    assume "step = replan_step f r n"
    with r(3) st(2) have "x = f @ ''_replan_'' @ itoa n" by (simp add: step_id_replan)
    with assms(2) show False unfolding guarded_step_def by blast
  qed
  ultimately have "needs_confirmation (ee_policy env) step" "\<not> should_bypass_confirmation s step"
    using assms(2,3) r(3) st(2) bypass_mode [of s s0] by (auto simp: guarded_step_def replan_trace_def)
  moreover have "\<not> step_approved s step"
    using assms(2,3) r(3) st(2) planned_executing [OF pl]
    by (simp add: guarded_step_def replan_trace_def step_approved_def)
  ultimately show False using g by (simp add: guards_None_iff)
qed

lemma guarded_continue:
  assumes "env_ok env" "guarded_step env s0 x" "replan_trace env s0 s" "exec_round env n s = Continue s' es"
  shows "\<not> completed_in es x"
  using assms(4)
proof (cases rule: round_continue_cases)
  case (Lanes runnable s1 es1 ocs es2)
  have "\<not> completed_in es1 x" using guarded_not_completed [OF assms(1-3) Lanes(2,3)] .
  moreover from Lanes(4) have "\<not> completed_in es2 x" by (cases rule: coordinate_cases) auto
  ultimately show ?thesis using Lanes(5) by simp
qed simp

lemma guarded_stop:
  assumes "env_ok env" "guarded_step env s0 x" "replan_trace env s0 s" "exec_round env n s = Stop t es"
  shows "\<not> completed_in es x"
  using assms(4)
proof (cases rule: round_stop_cases)
  case (Paused runnable es1 ocs)
  then show ?thesis using guarded_not_completed [OF assms(1-3) Paused(2,3)] by simp
qed simp_all

text \<open>
  C6. A whole run never completes a step that needs a confirmation it has not got: if every step
  of the plan with that id needs one under the policy, none may bypass it in this session, and
  the id is not approved, then no completion of it is ever emitted - over all rounds, replans
  and arrival orders. (Ids of the form the replanner generates are excluded.)
\<close>

theorem unapproved_never_completed:
  assumes "env_ok env" and "session_plan s = Some p" and "execute env fuel s = Some (t, es)"
    and "\<forall>step \<in> set (steps p). step_id step = x \<longrightarrow>
           needs_confirmation (ee_policy env) step \<and> \<not> should_bypass_confirmation s step"
    and "\<not> dict_get_or False (approved_ids p) x" and "\<forall>f n. x \<noteq> f @ ''_replan_'' @ itoa n"
  shows "\<forall>e \<in> set es. \<not> (ev_type e = EventStepCompleted \<and> ev_step_id e = x)"
proof -
  have pl: "planned s" "plan_of s = p" using assms(2) by (auto simp: planned_def plan_of_def)
  have gs: "guarded_step env s x" using assms(4-6) pl(2) by (simp add: guarded_step_def)
  have "\<not> completed_in es x"
  proof (rule execute_trace [OF assms(3) pl(1), where P = "\<lambda>u past. replan_trace env s u \<and> \<not> completed_in past x"
        and Q = "\<lambda>u es. \<not> completed_in es x"])
    fix s' assume "planned s'" "plan_of s' = plan_of s" "session_mode s' = session_mode s"
    then show "replan_trace env s s' \<and> \<not> completed_in [] x" by (simp add: replan_trace_def)
  next
    fix n u u' es' past
    assume i: "replan_trace env s u \<and> \<not> completed_in past x" "exec_round env n u = Continue u' es'"
    have "\<not> completed_in es' x" by (rule guarded_continue [OF assms(1) gs]) (use i in auto)
    moreover have "replan_trace env s u'" using i by (blast intro: replan_trace_continue)
    ultimately show "replan_trace env s u' \<and> \<not> completed_in (past @ es') x" using i by simp
  next
    fix n u u' es' past
    assume i: "replan_trace env s u \<and> \<not> completed_in past x" "exec_round env n u = Stop u' es'"
    have "\<not> completed_in es' x" by (rule guarded_stop [OF assms(1) gs]) (use i in auto)
    then show "\<not> completed_in (past @ es') x" using i by simp
  qed simp
  then show ?thesis by (auto simp: completed_in_def)
qed

theorem unapproved_never_completed_witness:
  "\<exists>t es. execute calm_env 7 checkpoint_session = Some (t, es)
     \<and> (\<forall>e \<in> set es. \<not> (ev_type e = EventStepCompleted \<and> ev_step_id e = ''a''))"
proof -
  let ?p = "new_plan_state ''p'' [(example_step ''a'' [])\<lparr>requires_human_checkpoint := True\<rparr>, example_step ''b'' []]"
  have p: "session_plan checkpoint_session = Some ?p" by (simp add: checkpoint_session_def)
  obtain t es where ex: "execute calm_env 7 checkpoint_session = Some (t, es)"
    using execute_completes_checkpoint by blast
  have nb: "\<not> should_bypass_confirmation checkpoint_session step" for step
    by (simp add: should_bypass_confirmation_def checkpoint_session_def normalize_wisdev_mode_def
        to_lower_def lower_char_def trim_space_def is_space_def)
  have "\<forall>e \<in> set es. \<not> (ev_type e = EventStepCompleted \<and> ev_step_id e = ''a'')"
  proof (rule unapproved_never_completed [OF calm_env_ok p ex])
    show "\<forall>step \<in> set (steps ?p). step_id step = ''a'' \<longrightarrow>
        needs_confirmation (ee_policy calm_env) step \<and> \<not> should_bypass_confirmation checkpoint_session step"
      using nb by (simp add: new_plan_state_def needs_confirmation_def)
    show "\<not> dict_get_or False (approved_ids ?p) ''a''" by (simp add: new_plan_state_def)
    show "\<forall>f n. ''a'' \<noteq> f @ ''_replan_'' @ itoa n"
    proof (intro allI notI)
      fix f n assume "''a'' = f @ ''_replan_'' @ itoa n"
      then have "length ''a'' = length (f @ ''_replan_'' @ itoa n)" by simp
      then show False by simp
    qed
  qed
  with ex show ?thesis by blast
qed

end
