(* ===== verification/TtlStore.thy ===== *)
theory TtlStore
  imports PlanModel
begin

text \<open>
  The expiring stores of the program: the bounded in-process search cache
  (\<open>orchestrator/internal/search/memcache.go\<close>), the idempotency store
  (\<open>orchestrator/internal/wisdev/dedup.go\<close>) and the in-memory session store
  (\<open>orchestrator/internal/wisdev/session_store.go\<close>), against one contract, and the session store
  with a fallback. Each is locked, so its operations are atomic steps, with one exception: \<open>Get\<close>
  of the last two gives its read lock back before it takes the write lock to delete an expired
  record, and the section on interleaving models those two halves. The sequential contract is
  about the undisturbed operation.
\<close>

section \<open>The contract\<close>

text \<open>
  \<open>expiry t\<close> is when an entry put at time \<open>t\<close> stops being returned, None for never. A store may
  drop entries to make room, but what it returns for a key is the last thing put under it.
\<close>

datatype ('k, 'v) store_op = Put 'k 'v | Lookup 'k

locale ttl_store =
  fixes invar :: "'s \<Rightarrow> bool"
    and lookup :: "int \<Rightarrow> 'k \<Rightarrow> 's \<Rightarrow> 's \<times> 'v option"
    and put :: "int \<Rightarrow> 'k \<Rightarrow> 'v \<Rightarrow> 's \<Rightarrow> 's"
    and storable :: "'k \<Rightarrow> 'v \<Rightarrow> bool"
    and expiry :: "int \<Rightarrow> int option"
  assumes put_same:
      "invar s \<Longrightarrow> storable k v \<Longrightarrow>
         snd (lookup now k (put t k v s)) = (case expiry t of Some x \<Rightarrow> if x < now then None else Some v | None \<Rightarrow> Some v)"
    and put_other: "invar s \<Longrightarrow> j \<noteq> k \<Longrightarrow>
         snd (lookup now j (put t k v s)) = None \<or> snd (lookup now j (put t k v s)) = snd (lookup now j s)"
    and put_ignored: "\<not> storable k v \<Longrightarrow> put t k v s = s"
    and lookup_pure: "invar s \<Longrightarrow> now \<le> later \<Longrightarrow> snd (lookup later j (fst (lookup now k s))) = snd (lookup later j s)"
    and lookup_expires: "invar s \<Longrightarrow> now \<le> later \<Longrightarrow> snd (lookup now k s) = None \<Longrightarrow> snd (lookup later k s) = None"
    and lookup_stable: "invar s \<Longrightarrow> now \<le> later \<Longrightarrow> snd (lookup later k s) = None \<or> snd (lookup later k s) = snd (lookup now k s)"
    and invar_put: "invar s \<Longrightarrow> invar (put t k v s)"
    and invar_lookup: "invar s \<Longrightarrow> invar (fst (lookup now k s))"
begin

fun apply_op :: "int \<times> ('k, 'v) store_op \<Rightarrow> 's \<Rightarrow> 's" where
  "apply_op (t, Put k v) s = put t k v s"
| "apply_op (t, Lookup k) s = fst (lookup t k s)"

definition run_ops :: "(int \<times> ('k, 'v) store_op) list \<Rightarrow> 's \<Rightarrow> 's" where
  "run_ops os s = fold apply_op os s"

text \<open>The last storable put of a key in a history, newest last.\<close>

definition last_put :: "'k \<Rightarrow> (int \<times> ('k, 'v) store_op) list \<Rightarrow> (int \<times> 'v) option" where
  "last_put k os = foldl (\<lambda>acc (t, p). case p of Put j v \<Rightarrow> if j = k \<and> storable j v then Some (t, v) else acc
                            | Lookup j \<Rightarrow> acc) None os"

lemma invar_run: "invar s \<Longrightarrow> invar (run_ops os s)"
  unfolding run_ops_def
proof (induction os arbitrary: s)
  case (Cons p os)
  obtain t pop where "p = (t, pop)" by force
  then show ?case using Cons by (cases pop) (auto simp: invar_put invar_lookup)
qed simp

lemma last_put_snoc [simp]:
  "last_put k (os @ [(t, Put j v)]) = (if j = k \<and> storable j v then Some (t, v) else last_put k os)"
  "last_put k (os @ [(t, Lookup j)]) = last_put k os"
  unfolding last_put_def by auto

lemma run_ops_snoc: "run_ops (os @ [p]) s = apply_op p (run_ops os s)"
  by (simp add: run_ops_def)

text \<open>What a lookup returns after any history in time order was put under that key last, and has not expired.\<close>

lemma lookup_last_put:
  assumes "invar s" and "\<And>now k. snd (lookup now k s) = None"
    and "sorted (map fst os)" and "\<forall>t \<in> fst ` set os. t \<le> now"
    and "snd (lookup now k (run_ops os s)) = Some v"
  shows "\<exists>t. last_put k os = Some (t, v) \<and> (\<forall>x. expiry t = Some x \<longrightarrow> now \<le> x)"
  using assms(3-5)
proof (induction os arbitrary: v rule: rev_induct)
  case Nil
  then show ?case using assms(2) by (simp add: run_ops_def)
next
  case (snoc p os)
  let ?s = "run_ops os s"
  have inv: "invar ?s" using assms(1) by (rule invar_run)
  have sorted: "sorted (map fst os)" "\<forall>t \<in> fst ` set os. t \<le> now"
    using snoc.prems(1,2) by (auto simp: sorted_append)
  obtain t pop where p: "p = (t, pop)" by force
  have "t \<le> now" using snoc.prems(2) p by simp
  show ?case
  proof (cases pop)
    case (Lookup j)
    then have "snd (lookup now k ?s) = Some v"
      using snoc.prems(3) p lookup_pure [OF inv \<open>t \<le> now\<close>] by (simp add: run_ops_snoc)
    from snoc.IH [OF sorted this] show ?thesis by (simp add: p Lookup)
  next
    case (Put j w)
    have got: "snd (lookup now k (put t j w ?s)) = Some v"
      using snoc.prems(3) p Put by (simp add: run_ops_snoc)
    consider (same) "j = k" "storable j w" | (ign) "\<not> storable j w" | (other) "j \<noteq> k" "storable j w" by blast
    then show ?thesis
    proof cases
      case same
      with got put_same [OF inv, of k w now t] show ?thesis
        by (auto simp: p Put split: option.splits if_splits)
    next
      case ign
      with got have "snd (lookup now k ?s) = Some v" by (simp add: put_ignored)
      from snoc.IH [OF sorted this] ign show ?thesis by (simp add: p Put)
    next
      case other
      with got put_other [OF inv, of k j now t w] have "snd (lookup now k ?s) = Some v" by auto
      from snoc.IH [OF sorted this] other show ?thesis by (simp add: p Put)
    qed
  qed
qed

lemma fresh_until_expiry:
  assumes "invar s" "storable k v" "\<forall>x. expiry t = Some x \<longrightarrow> now \<le> x"
  shows "snd (lookup now k (put t k v s)) = Some v"
  using put_same [OF assms(1,2), of now t] assms(3) by (auto split: option.split)

end

section \<open>\<open>MemoryTTLCache\<close>\<close>

record cache_entry =
  ce_payload :: string
  ce_expires :: int

record memory_cache =
  mc_ttl :: int
  mc_max :: int
  mc_entries :: "cache_entry dict"

definition new_memory_cache :: "int \<Rightarrow> int \<Rightarrow> memory_cache" where
  "new_memory_cache ttl mx =
     \<lparr>mc_ttl = (if ttl \<le> 0 then 900 * second else ttl), mc_max = (if mx \<le> 0 then 256 else mx), mc_entries = []\<rparr>"

definition mc_get :: "int \<Rightarrow> string \<Rightarrow> memory_cache \<Rightarrow> memory_cache \<times> string option" where
  "mc_get now key c =
     (case dict_get (mc_entries c) key of
        None \<Rightarrow> (c, None)
      | Some e \<Rightarrow> if ce_expires e < now then (c\<lparr>mc_entries := dict_del key (mc_entries c)\<rparr>, None)
                  else (c, Some (ce_payload e)))"

text \<open>The scan for the entry closest to expiry, with the empty key as "none yet".\<close>

definition oldest_key :: "cache_entry dict \<Rightarrow> string" where
  "oldest_key es = fst (foldl (\<lambda>(ok, ox) (k, e). if ok = '''' \<or> ce_expires e < ox then (k, ce_expires e) else (ok, ox))
                         ('''', 0) es)"

lemma oldest_fold_key:
  "fst (foldl (\<lambda>(ok, ox) (k, e). if ok = '''' \<or> ce_expires e < ox then (k, ce_expires e) else (ok, ox)) (k0, x0) es)
     \<in> insert k0 (fst ` set es)"
proof (induction es arbitrary: k0 x0)
  case (Cons a es)
  obtain k e where a: "a = (k, e)" by force
  show ?case
    using Cons.IH [of k "ce_expires e"] Cons.IH [of k0 x0] by (auto simp: a)
qed simp

lemma oldest_key_in: "es \<noteq> [] \<Longrightarrow> oldest_key es \<in> fst ` set es"
proof (cases es)
  case (Cons a es')
  obtain k e where a: "a = (k, e)" by force
  have "oldest_key es = fst (foldl (\<lambda>(ok, ox) (k, e). if ok = '''' \<or> ce_expires e < ox then (k, ce_expires e) else (ok, ox))
          (k, ce_expires e) es')" by (simp add: oldest_key_def Cons a)
  then have "oldest_key es \<in> insert k (fst ` set es')" using oldest_fold_key [of k "ce_expires e" es'] by metis
  then show ?thesis by (simp add: Cons a)
qed simp

lemma dict_del_shrinks: "k \<in> fst ` set d \<Longrightarrow> length (dict_del k d) < length d"
proof -
  assume "k \<in> fst ` set d"
  then obtain v where "(k, v) \<in> set d" by force
  then show ?thesis
    unfolding AList.delete_eq
    using length_filter_less [of d "\<lambda>(k', _). k \<noteq> k'" "\<lambda>_. True" "(k, v)"] by simp
qed

text \<open>
  \<open>for len(c.entries) >= c.maxEntries\<close>; a cache's bound is positive, so a full cache has an
  entry to drop (for other bounds, which the constructor excludes, the loop here stops when the
  cache is empty).
\<close>

function drop_oldest :: "int \<Rightarrow> cache_entry dict \<Rightarrow> cache_entry dict" where
  "drop_oldest mx es =
     (if mx \<le> int (length es) \<and> es \<noteq> [] then drop_oldest mx (dict_del (oldest_key es) es) else es)"
  by pat_completeness auto
termination
  by (relation "measure (\<lambda>(mx, es). length es)") (auto intro: dict_del_shrinks oldest_key_in)

declare drop_oldest.simps [simp del]

definition mc_evict :: "int \<Rightarrow> memory_cache \<Rightarrow> memory_cache" where
  "mc_evict now c =
     c\<lparr>mc_entries := drop_oldest (mc_max c) (filter (\<lambda>(k, e). \<not> ce_expires e < now) (mc_entries c))\<rparr>"

definition mc_set :: "int \<Rightarrow> string \<Rightarrow> string \<Rightarrow> memory_cache \<Rightarrow> memory_cache" where
  "mc_set now key payload c =
     (if key = '''' \<or> payload = '''' then c
      else
        (let c = (if dict_get (mc_entries c) key = None \<and> mc_max c \<le> int (length (mc_entries c))
                  then mc_evict now c else c)
         in c\<lparr>mc_entries := dict_set key \<lparr>ce_payload = payload, ce_expires = now + mc_ttl c\<rparr> (mc_entries c)\<rparr>))"

definition mc_flush :: "memory_cache \<Rightarrow> memory_cache" where
  "mc_flush c = c\<lparr>mc_entries := []\<rparr>"

definition mc_len :: "memory_cache \<Rightarrow> int" where
  "mc_len c = int (length (mc_entries c))"

definition mc_inv :: "int \<Rightarrow> int \<Rightarrow> memory_cache \<Rightarrow> bool" where
  "mc_inv ttl mx c \<longleftrightarrow> wf_dict (mc_entries c) \<and> mc_ttl c = ttl \<and> mc_max c = mx \<and> 0 < mx \<and> mc_len c \<le> mx"

lemma drop_oldest_spec:
  assumes "wf_dict es" and "0 < mx"
  shows "wf_dict (drop_oldest mx es) \<and> int (length (drop_oldest mx es)) < mx
         \<and> (\<forall>k. dict_get (drop_oldest mx es) k = None \<or> dict_get (drop_oldest mx es) k = dict_get es k)"
  using assms
proof (induction mx es rule: drop_oldest.induct)
  case (1 mx es)
  show ?case
  proof (cases "mx \<le> int (length es) \<and> es \<noteq> []")
    case True
    then have "drop_oldest mx es = drop_oldest mx (dict_del (oldest_key es) es)"
      by (subst drop_oldest.simps) simp
    with "1.IH" [OF True] "1.prems" show ?thesis by (auto simp: dict_get_del split: if_splits)
  next
    case False
    then have "drop_oldest mx es = es" by (subst drop_oldest.simps) auto
    with False "1.prems" show ?thesis by auto
  qed
qed

lemma filter_live:
  "wf_dict es \<Longrightarrow> wf_dict (filter P es)"
  "wf_dict es \<Longrightarrow> dict_get (filter P es) k = None \<or> dict_get (filter P es) k = dict_get es k"
proof -
  show "wf_dict es \<Longrightarrow> wf_dict (filter P es)" by (simp add: wf_dict_def distinct_map_filter)
  assume wf: "wf_dict es"
  then have d: "distinct (map fst (filter P es))" by (simp add: wf_dict_def distinct_map_filter)
  show "dict_get (filter P es) k = None \<or> dict_get (filter P es) k = dict_get es k"
  proof (cases "dict_get (filter P es) k")
    case (Some v)
    then have "(k, v) \<in> set es" by (auto dest: map_of_SomeD)
    with wf Some show ?thesis by (simp add: wf_dict_def)
  qed simp
qed

lemma mc_evict_spec:
  assumes "wf_dict (mc_entries c)" "0 < mc_max c"
  shows "wf_dict (mc_entries (mc_evict now c)) \<and> int (length (mc_entries (mc_evict now c))) < mc_max c
         \<and> mc_ttl (mc_evict now c) = mc_ttl c \<and> mc_max (mc_evict now c) = mc_max c
         \<and> (dict_get (mc_entries (mc_evict now c)) k = None
            \<or> dict_get (mc_entries (mc_evict now c)) k = dict_get (mc_entries c) k)"
proof -
  let ?f = "filter (\<lambda>(k, e). \<not> ce_expires e < now) (mc_entries c)"
  have w: "wf_dict ?f" using filter_live(1) assms(1) .
  have "dict_get ?f k = None \<or> dict_get ?f k = dict_get (mc_entries c) k"
    by (rule filter_live(2) [OF assms(1)])
  with drop_oldest_spec [OF w assms(2)] show ?thesis
    by (auto simp: mc_evict_def)
qed

lemma mc_set_inv: "mc_inv ttl mx c \<Longrightarrow> mc_inv ttl mx (mc_set now k v c)"
  using mc_evict_spec [of c now k]
  by (auto simp: mc_inv_def mc_set_def mc_len_def Let_def dict_simps)

interpretation memory_cache: ttl_store "mc_inv ttl mx" mc_get mc_set "\<lambda>k v. k \<noteq> '''' \<and> v \<noteq> ''''"
  "\<lambda>t. Some (t + ttl)" for ttl mx
proof (standard, goal_cases)
  case (1 s k v now t)
  then show ?case using mc_evict_spec [of s t]
    by (auto simp: mc_get_def mc_set_def mc_inv_def Let_def dict_simps)
next
  case (2 s j k now t v)
  then show ?case using mc_evict_spec [of s t j]
    by (auto simp: mc_get_def mc_set_def mc_inv_def Let_def dict_simps split: option.split)
next
  case (3 k v t s) then show ?case by (auto simp: mc_set_def)
next
  case (4 s now later j k)
  then show ?case by (auto simp: mc_get_def dict_simps split: option.split)
next
  case (5 s now later k)
  then show ?case by (auto simp: mc_get_def split: option.splits if_splits)
next
  case (6 s now later k)
  then show ?case by (auto simp: mc_get_def split: option.splits if_splits)
next
  case (7 s t k v) then show ?case by (rule mc_set_inv)
next
  case (8 s now k)
  then show ?case using length_dict_del_le [of k "mc_entries s"]
    by (auto simp: mc_inv_def mc_get_def mc_len_def split: option.split)
qed

text \<open>
  The in-process search cache stays within its bound through any sequence of operations, and
  whatever a lookup returns is the payload stored last under that key, at most its time to live
  ago: eviction may lose an entry but never serves another's, an older or an expired one.
\<close>

theorem memory_cache_correct:
  fixes ttl mx now :: int
  assumes "sorted (map fst os)" and "\<forall>t \<in> fst ` set os. t \<le> now"
  defines "c0 \<equiv> new_memory_cache ttl mx"
  defines "c \<equiv> memory_cache.run_ops os c0"
  shows "mc_len c \<le> mc_max c0 \<and>
         (\<forall>v. snd (mc_get now k c) = Some v \<longrightarrow>
              (\<exists>t. memory_cache.last_put k os = Some (t, v) \<and> now - t \<le> mc_ttl c0))"
proof -
  have i: "mc_inv (mc_ttl c0) (mc_max c0) c0"
    by (simp add: c0_def mc_inv_def new_memory_cache_def mc_len_def)
  have "mc_inv (mc_ttl c0) (mc_max c0) c" unfolding c_def by (rule memory_cache.invar_run [OF i])
  then have len: "mc_len c \<le> mc_max c0" by (simp add: mc_inv_def)
  have "snd (mc_get now k c0) = None" for now k
    by (simp add: c0_def new_memory_cache_def mc_get_def)
  then have "\<exists>t. memory_cache.last_put k os = Some (t, v) \<and> (\<forall>x. Some (t + mc_ttl c0) = Some x \<longrightarrow> now \<le> x)"
    if "snd (mc_get now k c) = Some v" for v
    using memory_cache.lookup_last_put [OF i _ assms(1,2)] that unfolding c_def by blast
  then show ?thesis using len by (auto simp: algebra_simps)
qed

theorem memory_cache_correct_witness:
  "snd (mc_get 3 ''b'' (memory_cache.run_ops
      [(1, Put ''a'' ''x''), (2, Put ''b'' ''y''), (3, Lookup ''a'')] (new_memory_cache 10 1))) = Some ''y'' \<and>
   (\<exists>t. memory_cache.last_put ''b''
      [(1, Put ''a'' ''x''), (2, Put ''b'' ''y''), (3, Lookup ''a'')] = Some (t, ''y'') \<and> 3 - t \<le> 10)"
proof -
  let ?os = "[(1, Put ''a'' ''x''), (2, Put ''b'' ''y''), (3::int, Lookup ''a'')]"
  have got: "snd (mc_get 3 ''b'' (memory_cache.run_ops ?os (new_memory_cache 10 1))) = Some ''y''"
    by (simp add: memory_cache.run_ops_def memory_cache.apply_op.simps new_memory_cache_def mc_set_def mc_get_def
        mc_evict_def drop_oldest.simps oldest_key_def)
  have "sorted (map fst ?os)" "\<forall>t \<in> fst ` set ?os. t \<le> 3" by simp_all
  from memory_cache_correct [OF this, of 10 1 "''b''"] got show ?thesis
    by (simp add: new_memory_cache_def)
qed

section \<open>\<open>IdempotencyStore\<close>\<close>

record idempotency_record =
  ir_status_code :: int
  ir_body :: string
  ir_expires :: int

record idempotency_store =
  is_records :: "idempotency_record dict"
  is_ttl :: int

definition new_idempotency_store :: "int \<Rightarrow> idempotency_store" where
  "new_idempotency_store ttl = \<lparr>is_records = [], is_ttl = ttl\<rparr>"

text \<open>
  \<open>Get\<close> in its two halves: the read under the read lock, which says whether the record has to be
  deleted, and the deletion under the write lock.
\<close>

definition is_read :: "int \<Rightarrow> string \<Rightarrow> idempotency_store \<Rightarrow> (int \<times> string) option \<times> bool" where
  "is_read now key s =
     (case dict_get (is_records s) key of
        None \<Rightarrow> (None, False)
      | Some r \<Rightarrow> if ir_expires r < now then (None, True) else (Some (ir_status_code r, ir_body r), False))"

definition is_drop :: "string \<Rightarrow> idempotency_store \<Rightarrow> idempotency_store" where
  "is_drop key s = s\<lparr>is_records := dict_del key (is_records s)\<rparr>"

definition is_get :: "int \<Rightarrow> string \<Rightarrow> idempotency_store \<Rightarrow> idempotency_store \<times> (int \<times> string) option" where
  "is_get now key s = (let (r, expired) = is_read now key s in (if expired then is_drop key s else s, r))"

text \<open>The payload is what \<open>json.Marshal\<close> gives, None when it fails.\<close>

definition is_put :: "int \<Rightarrow> string \<Rightarrow> int \<Rightarrow> string option \<Rightarrow> idempotency_store \<Rightarrow> idempotency_store" where
  "is_put now key code payload s =
     (case payload of
        None \<Rightarrow> s
      | Some body \<Rightarrow> s\<lparr>is_records := dict_set key
          \<lparr>ir_status_code = code, ir_body = body, ir_expires = now + is_ttl s\<rparr> (is_records s)\<rparr>)"

interpretation idempotency: ttl_store "\<lambda>s. is_ttl s = ttl" is_get
  "\<lambda>now k (code, body) s. is_put now k code (Some body) s" "\<lambda>k v. True" "\<lambda>t. Some (t + ttl)" for ttl
proof (standard, goal_cases)
  case (1 s k v now t)
  then show ?case by (cases v) (auto simp: is_get_def is_read_def is_put_def dict_simps)
next
  case (2 s j k now t v)
  then show ?case by (cases v) (auto simp: is_get_def is_read_def is_put_def dict_simps split: option.split)
next
  case (4 s now later j k)
  then show ?case by (auto simp: is_get_def is_read_def is_drop_def dict_simps split: option.split)
next
  case (5 s now later k)
  then show ?case by (auto simp: is_get_def is_read_def split: option.splits if_splits)
next
  case (6 s now later k)
  then show ?case by (auto simp: is_get_def is_read_def split: option.splits if_splits)
next
  case (7 s t k v) then show ?case by (cases v) (simp add: is_put_def)
next
  case (8 s now k)
  then show ?case by (auto simp: is_get_def is_read_def is_drop_def split: option.split)
qed simp_all

section \<open>\<open>InMemorySessionStore\<close>\<close>

text \<open>\<open>None\<close> as expiry is Go's zero time, for a time to live of 0.\<close>

record session_record =
  sr_session :: agent_session
  sr_expires :: "int option"

type_synonym session_records = "session_record dict"

definition record_expired :: "int \<Rightarrow> session_record \<Rightarrow> bool" where
  "record_expired now r = (case sr_expires r of None \<Rightarrow> False | Some x \<Rightarrow> x < now)"

definition ims_read :: "int \<Rightarrow> string \<Rightarrow> session_records \<Rightarrow> agent_session option \<times> bool" where
  "ims_read now sid s =
     (case dict_get s sid of
        None \<Rightarrow> (None, False)
      | Some r \<Rightarrow> if record_expired now r then (None, True) else (Some (sr_session r), False))"

definition ims_get :: "int \<Rightarrow> string \<Rightarrow> session_records \<Rightarrow> session_records \<times> agent_session option" where
  "ims_get now sid s = (let (r, expired) = ims_read now sid s in (if expired then dict_del sid s else s, r))"

definition ims_put :: "int \<Rightarrow> int \<Rightarrow> agent_session \<Rightarrow> session_records \<Rightarrow> session_records" where
  "ims_put now ttl sess s =
     dict_set (session_id sess)
       \<lparr>sr_session = sess, sr_expires = (if ttl \<noteq> 0 then Some (now + ttl) else None)\<rparr> s"

definition ims_delete :: "string \<Rightarrow> session_records \<Rightarrow> session_records" where
  "ims_delete sid s = dict_del sid s"

definition ims_list :: "int \<Rightarrow> string \<Rightarrow> session_records \<Rightarrow> agent_session list" where
  "ims_list now user s =
     map (sr_session \<circ> snd)
       (filter (\<lambda>(k, r). \<not> record_expired now r \<and> (user = '''' \<or> session_user_id (sr_session r) = user)) s)"

text \<open>A put files a session under its own id, so only pairs of a session with its id are storable.\<close>

interpretation sessions: ttl_store "\<lambda>s. True" ims_get
  "\<lambda>now k v s. if session_id v = k then ims_put now ttl v s else s" "\<lambda>k v. session_id v = k"
  "\<lambda>t. if ttl \<noteq> 0 then Some (t + ttl) else None" for ttl
proof (standard, goal_cases)
  case (1 s k v now t)
  then show ?case by (auto simp: ims_get_def ims_read_def ims_put_def record_expired_def dict_simps)
next
  case (2 s j k now t v)
  then show ?case by (auto simp: ims_get_def ims_read_def ims_put_def dict_simps split: option.split)
next
  case (4 s now later j k)
  then show ?case
    by (auto simp: ims_get_def ims_read_def record_expired_def dict_simps split: option.splits if_splits)
next
  case (5 s now later k)
  then show ?case by (auto simp: ims_get_def ims_read_def record_expired_def split: option.splits if_splits)
next
  case (6 s now later k)
  then show ?case by (auto simp: ims_get_def ims_read_def record_expired_def split: option.splits if_splits)
qed simp_all

section \<open>Interleavings of the two-phase \<open>Get\<close>\<close>

text \<open>
  The lock-protected sections of concurrent callers of one session store, as the scheduler
  orders them: a reader that found an expired record owes a deletion, which it makes in a later
  section of its own.
\<close>

datatype locked_section = ReadSection nat string | DropSection nat | PutSection agent_session

record shared_store =
  sh_records :: session_records
  sh_owed :: "nat \<Rightarrow> string option"

fun run_section :: "int \<Rightarrow> int \<Rightarrow> locked_section \<Rightarrow> shared_store \<Rightarrow> shared_store" where
  "run_section now ttl (ReadSection i sid) w =
     (if snd (ims_read now sid (sh_records w)) then w\<lparr>sh_owed := (sh_owed w)(i := Some sid)\<rparr> else w)"
| "run_section now ttl (DropSection i) w =
     (case sh_owed w i of
        None \<Rightarrow> w
      | Some sid \<Rightarrow> w\<lparr>sh_records := ims_delete sid (sh_records w), sh_owed := (sh_owed w)(i := None)\<rparr>)"
| "run_section now ttl (PutSection sess) w = w\<lparr>sh_records := ims_put now ttl sess (sh_records w)\<rparr>"

definition run_sections :: "int \<Rightarrow> (int \<times> locked_section) list \<Rightarrow> shared_store \<Rightarrow> shared_store" where
  "run_sections ttl ss w = fold (\<lambda>(now, x). run_section now ttl x) ss w"

definition owes :: "shared_store \<Rightarrow> string \<Rightarrow> bool" where
  "owes w sid \<longleftrightarrow> (\<exists>i. sh_owed w i = Some sid)"

text \<open>Without another reader's owed deletion, or a new one, a session that was put stays.\<close>

lemma section_keeps:
  assumes "\<not> owes w sid" and "dict_get (sh_records w) sid = Some r" and "\<not> record_expired now r"
    and "\<forall>sess. x = PutSection sess \<longrightarrow> session_id sess \<noteq> sid"
  shows "dict_get (sh_records (run_section now ttl x w)) sid = Some r \<and> \<not> owes (run_section now ttl x w) sid"
  using assms
  by (cases x) (auto simp: owes_def ims_read_def ims_put_def ims_delete_def dict_simps split: option.splits if_splits)

lemma sections_keep:
  assumes "\<not> owes w sid" and "dict_get (sh_records w) sid = Some r"
    and "\<forall>(now, x) \<in> set ss. \<not> record_expired now r \<and> (\<forall>sess. x = PutSection sess \<longrightarrow> session_id sess \<noteq> sid)"
  shows "dict_get (sh_records (run_sections ttl ss w)) sid = Some r"
  using assms
proof (induction ss arbitrary: w)
  case (Cons p ss)
  obtain now x where p: "p = (now, x)" by force
  have "dict_get (sh_records (run_section now ttl x w)) sid = Some r \<and> \<not> owes (run_section now ttl x w) sid"
    using Cons.prems p by (intro section_keeps) auto
  with Cons show ?case by (simp add: run_sections_def p)
qed (simp add: run_sections_def)

text \<open>
  A session put into the in-memory store stays readable until its time to live is over,
  whatever sections of other callers run in between, unless one puts the same session; provided no
  reader still owes the deletion of an expired predecessor. If one does, its late deletion removes
  the fresh session: the expired record is read, the session is put anew without expiry, and the
  reader's deletion loses it.
\<close>

theorem fresh_session_kept_unless_drop_owed:
  assumes "\<forall>(now, x) \<in> set ss. (ttl = 0 \<or> now \<le> t + ttl) \<and>
                               (\<forall>sess. x = PutSection sess \<longrightarrow> session_id sess \<noteq> session_id s)"
    and "ttl = 0 \<or> now \<le> t + ttl"
  shows "(\<not> owes w (session_id s) \<longrightarrow>
            snd (ims_get now (session_id s)
                   (sh_records (run_sections ttl ((t, PutSection s) # ss) w))) = Some s) \<and>
         (sh_owed w i = Some (session_id s) \<longrightarrow>
            snd (ims_get now (session_id s)
                   (sh_records (run_sections ttl [(t, PutSection s), (t, DropSection i)] w))) = None)"
proof (intro conjI impI)
  let ?r = "\<lparr>sr_session = s, sr_expires = (if ttl \<noteq> 0 then Some (t + ttl) else None)\<rparr>"
  let ?w = "run_section t ttl (PutSection s) w"
  assume "\<not> owes w (session_id s)"
  then have "\<not> owes ?w (session_id s)" by (simp add: owes_def)
  moreover have "dict_get (sh_records ?w) (session_id s) = Some ?r" by (simp add: ims_put_def dict_simps)
  ultimately have "dict_get (sh_records (run_sections ttl ss ?w)) (session_id s) = Some ?r"
    using assms(1) by (intro sections_keep) (auto simp: record_expired_def)
  then show "snd (ims_get now (session_id s)
               (sh_records (run_sections ttl ((t, PutSection s) # ss) w))) = Some s"
    using assms(2) by (auto simp: run_sections_def ims_get_def ims_read_def record_expired_def)
next
  assume "sh_owed w i = Some (session_id s)"
  then show "snd (ims_get now (session_id s)
               (sh_records (run_sections ttl [(t, PutSection s), (t, DropSection i)] w))) = None"
    by (simp add: run_sections_def ims_get_def ims_read_def ims_delete_def dict_simps)
qed

theorem fresh_session_kept_unless_drop_owed_witness:
  "snd (ims_get 9 (session_id (example_session [] (new_plan_state [] []))) (sh_records (run_sections 0
      [(0, PutSection (example_session [] (new_plan_state [] []))), (5, ReadSection 0 ''x''), (6, DropSection 0)]
      \<lparr>sh_records = [], sh_owed = (\<lambda>_. None)\<rparr>))) = Some (example_session [] (new_plan_state [] [])) \<and>
   snd (ims_get 9 (session_id (example_session [] (new_plan_state [] []))) (sh_records (run_sections 0
      [(8, PutSection (example_session [] (new_plan_state [] []))), (8, DropSection 0)]
      (run_section 7 0 (ReadSection 0 (session_id (example_session [] (new_plan_state [] []))))
         \<lparr>sh_records = ims_put 0 5 (example_session [] (new_plan_state [] [])) [], sh_owed = (\<lambda>_. None)\<rparr>)))) = None"
proof -
  let ?s = "example_session [] (new_plan_state [] [])"
  let ?w = "run_section 7 0 (ReadSection 0 (session_id ?s))
         \<lparr>sh_records = ims_put 0 5 ?s [], sh_owed = (\<lambda>_. None)\<rparr>"
  have "sh_owed ?w 0 = Some (session_id ?s)"
    by (simp add: ims_read_def ims_put_def record_expired_def)
  moreover have "\<not> owes \<lparr>sh_records = [], sh_owed = (\<lambda>_. None)\<rparr> (session_id ?s)" by (simp add: owes_def)
  ultimately show ?thesis
    using fresh_session_kept_unless_drop_owed [of "[(5, ReadSection 0 ''x''), (6, DropSection 0)]" 0 0 ?s 9]
      fresh_session_kept_unless_drop_owed [of "[]" 0 8 ?s 9 ?w 0]
    by simp
qed

section \<open>\<open>FallbackSessionStore\<close>\<close>

text \<open>
  A store is given by its operations on a state of its own; the primary is Redis or Postgres,
  which are not under \<open>src/\<close>, so its operations are parameters. \<open>None\<close> for an error of \<open>put\<close> is
  success; \<open>get\<close> returns an error or a session that may be nil.
\<close>

record 's session_ops =
  so_get :: "int \<Rightarrow> string \<Rightarrow> 's \<Rightarrow> 's \<times> (go_error + agent_session option)"
  so_put :: "int \<Rightarrow> int \<Rightarrow> agent_session \<Rightarrow> 's \<Rightarrow> 's \<times> go_error option"
  so_delete :: "string \<Rightarrow> 's \<Rightarrow> 's \<times> go_error option"
  so_list :: "int \<Rightarrow> string \<Rightarrow> 's \<Rightarrow> go_error + agent_session list"

definition err_session_not_found :: go_error where
  "err_session_not_found = new_error ''session_not_found''"

definition err_session_store_unavailable :: go_error where
  "err_session_store_unavailable = new_error ''session_store_unavailable''"

definition in_memory_ops :: "session_records session_ops" where
  "in_memory_ops =
     \<lparr>so_get = (\<lambda>now sid s. case ims_get now sid s of (s', None) \<Rightarrow> (s', Inl err_session_not_found)
                                                   | (s', Some x) \<Rightarrow> (s', Inr (Some x))),
      so_put = (\<lambda>now ttl sess s. (ims_put now ttl sess s, None)),
      so_delete = (\<lambda>sid s. (ims_delete sid s, None)),
      so_list = (\<lambda>now user s. Inr (ims_list now user s))\<rparr>"

definition named_session :: "string \<Rightarrow> agent_session \<Rightarrow> agent_session" where
  "named_session sid x = (if trim_space (session_id x) = '''' then x\<lparr>session_id := trim_space sid\<rparr> else x)"

definition fallback_answer :: "string \<Rightarrow> go_error + agent_session option \<Rightarrow> go_error + agent_session option" where
  "fallback_answer sid r =
     (case r of
        Inl e \<Rightarrow> Inl e
      | Inr None \<Rightarrow> Inl err_session_not_found
      | Inr (Some x) \<Rightarrow> (let x = named_session sid x in
          if trim_space (session_id x) \<noteq> '''' then Inr (Some x) else Inl err_session_not_found))"

definition fb_get :: "'p session_ops option \<Rightarrow> 'f session_ops option \<Rightarrow> int \<Rightarrow> string \<Rightarrow> 'p \<times> 'f
    \<Rightarrow> ('p \<times> 'f) \<times> (go_error + agent_session option)" where
  "fb_get primary fb now sid w =
     (let (p, r) = (case primary of None \<Rightarrow> (fst w, Inl err_session_not_found) | Some ops \<Rightarrow> so_get ops now sid (fst w))
      in case r of
           Inr (Some x) \<Rightarrow> ((p, snd w), Inr (Some x))
         | _ \<Rightarrow> (case fb of
                  None \<Rightarrow> ((p, snd w), Inl err_session_not_found)
                | Some ops \<Rightarrow> (let (f, r) = so_get ops now sid (snd w) in ((p, f), fallback_answer sid r))))"

definition fb_put :: "'p session_ops option \<Rightarrow> 'f session_ops option \<Rightarrow> int \<Rightarrow> int \<Rightarrow> agent_session \<Rightarrow> 'p \<times> 'f
    \<Rightarrow> ('p \<times> 'f) \<times> go_error option" where
  "fb_put primary fb now ttl s w =
     (let (p, tried) = (case primary of None \<Rightarrow> (fst w, None)
                          | Some ops \<Rightarrow> (let (p, e) = so_put ops now ttl s (fst w) in (p, Some e)))
      in case (tried, fb) of
           (Some None, None) \<Rightarrow> ((p, snd w), None)
         | (Some None, Some ops) \<Rightarrow> ((p, fst (so_put ops now ttl s (snd w))), None)
         | (Some (Some e), None) \<Rightarrow> ((p, snd w), Some e)
         | (_, Some ops) \<Rightarrow> (let (f, e) = so_put ops now ttl s (snd w) in ((p, f), e))
         | (None, None) \<Rightarrow> ((p, snd w), Some err_session_store_unavailable))"

definition fb_delete :: "'p session_ops option \<Rightarrow> 'f session_ops option \<Rightarrow> string \<Rightarrow> 'p \<times> 'f
    \<Rightarrow> ('p \<times> 'f) \<times> go_error option" where
  "fb_delete primary fb sid w =
     ((case primary of None \<Rightarrow> fst w | Some ops \<Rightarrow> fst (so_delete ops sid (fst w)),
       case fb of None \<Rightarrow> snd w | Some ops \<Rightarrow> fst (so_delete ops sid (snd w))), None)"

definition fb_list :: "'p session_ops option \<Rightarrow> 'f session_ops option \<Rightarrow> int \<Rightarrow> string \<Rightarrow> 'p \<times> 'f
    \<Rightarrow> go_error + agent_session list" where
  "fb_list primary fb now user w =
     (let asked = (case primary of None \<Rightarrow> None | Some ops \<Rightarrow> Some (so_list ops now user (fst w)))
      in case (asked, fb) of
           (Some (Inr (x # xs)), _) \<Rightarrow> Inr (x # xs)
         | (Some (Inl e), None) \<Rightarrow> Inl e
         | (_, Some ops) \<Rightarrow> so_list ops now user (snd w)
         | (_, None) \<Rightarrow> Inl err_session_store_unavailable)"

text \<open>
  With the in-memory store as the fallback, a put never fails, and the next get gives the
  session back when the primary took it (and itself returns what it took), or when the primary
  answers the get with an error. When the primary refused the put but answers the get, the caller
  reads the primary's older copy, although the put was reported as a success.
\<close>

theorem fallback_read_after_write:
  assumes "trim_space (session_id s) \<noteq> ''''" and "0 \<le> ttl"
  shows "let (w', e) = fb_put (Some ops) (Some in_memory_ops) now ttl s w;
             r = snd (fb_get (Some ops) (Some in_memory_ops) now (session_id s) w');
             asked = snd (so_get ops now (session_id s) (fst w'))
         in e = None
            \<and> (asked = Inr (Some s) \<longrightarrow> r = Inr (Some s))
            \<and> ((\<exists>x. asked = Inl x) \<longrightarrow> r = Inr (Some s))
            \<and> (\<forall>old. asked = Inr (Some old) \<longrightarrow> r = Inr (Some old))"
proof -
  obtain p e where put: "so_put ops now ttl s (fst w) = (p, e)" by force
  obtain p' a where get: "so_get ops now (session_id s) p = (p', a)" by force
  have mem: "snd (ims_get now (session_id s) (ims_put now ttl s (snd w))) = Some s"
    using sessions.fresh_until_expiry [of s "session_id s" ttl now now "snd w"] assms(2) by simp
  then obtain f where memg: "ims_get now (session_id s) (ims_put now ttl s (snd w)) = (f, Some s)"
    by (metis prod.collapse)
  have w': "fb_put (Some ops) (Some in_memory_ops) now ttl s w = ((p, ims_put now ttl s (snd w)), None)"
    by (cases e) (simp_all add: fb_put_def put in_memory_ops_def)
  have named: "fallback_answer (session_id s) (Inr (Some s)) = Inr (Some s)"
    using assms(1) by (simp add: fallback_answer_def named_session_def)
  have memo: "so_get in_memory_ops now (session_id s) (ims_put now ttl s (snd w)) = (f, Inr (Some s))"
    by (simp add: in_memory_ops_def memg)
  have "snd (fb_get (Some ops) (Some in_memory_ops) now (session_id s) (p, ims_put now ttl s (snd w)))
        = (case a of Inr (Some x) \<Rightarrow> Inr (Some x) | _ \<Rightarrow> Inr (Some s))"
    by (simp add: fb_get_def get memo named split: sum.split option.split)
  then show ?thesis by (auto simp: w' get split: sum.split option.split)
qed

text \<open>A primary that lost its connection for writes but still answers reads.\<close>

definition read_only_ops :: "session_records session_ops" where
  "read_only_ops = in_memory_ops\<lparr>so_put := (\<lambda>now ttl sess s. (s, Some (new_error ''READONLY'')))\<rparr>"

theorem fallback_read_after_write_witness:
  "let old = example_session [] (new_plan_state [] []); s = old\<lparr>session_query := ''newer''\<rparr>;
       (w', e) = fb_put (Some read_only_ops) (Some in_memory_ops) 5 100 s (ims_put 0 100 old [], [])
   in e = None \<and> snd (fb_get (Some read_only_ops) (Some in_memory_ops) 5 (session_id s) w') = Inr (Some old)
      \<and> old \<noteq> s"
proof -
  let ?old = "example_session [] (new_plan_state [] [])"
  let ?s = "?old\<lparr>session_query := ''newer''\<rparr>"
  have put: "fst (fb_put (Some read_only_ops) (Some in_memory_ops) 5 100 ?s (ims_put 0 100 ?old [], []))
      = (ims_put 0 100 ?old [], ims_put 5 100 ?s [])"
    by (simp add: fb_put_def read_only_ops_def in_memory_ops_def)
  have asked: "snd (so_get read_only_ops 5 (session_id ?s) (ims_put 0 100 ?old [])) = Inr (Some ?old)"
    by (simp add: read_only_ops_def in_memory_ops_def ims_get_def ims_read_def ims_put_def record_expired_def)
  have "?old \<noteq> ?s"
  proof
    assume "?old = ?s"
    then have "session_query ?old = session_query ?s" by (rule arg_cong)
    then show False by (simp add: example_session_def)
  qed
  moreover have "trim_space (session_id ?s) \<noteq> ''''" by (simp add: example_session_def trim_space_def is_space_def)
  ultimately show ?thesis
    using fallback_read_after_write [of ?s 100 read_only_ops 5 "(ims_put 0 100 ?old [], [])"] put asked
    by (auto simp: Let_def split: prod.splits)
qed

end
