(* ===== verification/ListTools.thy ===== *)
theory ListTools
  imports Prelude "HOL-Library.Product_Lexorder"
begin

text \<open>
  Loops the search, belief, steering and gateway code have in common: keeping the first element of
  every key (a \<open>seen\<close> map next to an output slice), trimming and de-duplicating strings, the first
  non-blank string, clamping. One definition per Go helper, lemmas shared by their users. The
  helpers are those of \<open>wisdev/architecture.go\<close>, \<open>wisdev/models.go\<close>, \<open>wisdev/citation_trust.go\<close>,
  \<open>search/provider.go\<close> and \<open>search/author_helpers.go\<close>.
\<close>

named_theorems uniq_simps \<open>which elements and keys a de-duplicating loop keeps\<close>

section \<open>The first element of every key\<close>

fun uniq_by :: "('a \<Rightarrow> 'k) \<Rightarrow> 'k list \<Rightarrow> 'a list \<Rightarrow> 'a list" where
  "uniq_by f seen [] = []"
| "uniq_by f seen (x # xs) =
     (if f x \<in> set seen then uniq_by f seen xs else x # uniq_by f (f x # seen) xs)"

lemma uniq_by_keys [uniq_simps]: "f ` set (uniq_by f seen xs) = f ` set xs - set seen"
  by (induction f seen xs rule: uniq_by.induct) auto

lemma set_uniq_by_subset: "set (uniq_by f seen xs) \<subseteq> set xs"
  by (induction f seen xs rule: uniq_by.induct) auto

lemma subseq_uniq_by: "subseq (uniq_by f seen xs) xs"
  by (induction f seen xs rule: uniq_by.induct) auto

lemma distinct_uniq_by: "distinct (map f (uniq_by f seen xs))"
proof (induction f seen xs rule: uniq_by.induct)
  case (2 f seen x xs)
  then show ?case using uniq_by_keys [of f "f x # seen" xs] by auto
qed simp

lemma distinct_uniq_by' [simp]: "distinct (uniq_by f seen xs)"
  using distinct_uniq_by [of f seen xs] by (simp add: distinct_map)

lemma length_uniq_by_le: "length (uniq_by f seen xs) \<le> length xs"
  by (induction f seen xs rule: uniq_by.induct) auto

lemma uniq_by_id:
  "distinct (map f xs) \<Longrightarrow> f ` set xs \<inter> set seen = {} \<Longrightarrow> uniq_by f seen xs = xs"
proof (induction xs arbitrary: seen)
  case (Cons x xs)
  from Cons.prems have "f ` set xs \<inter> set (f x # seen) = {}" by auto
  with Cons show ?case by auto
qed simp

lemma uniq_by_idem [simp]: "uniq_by f [] (uniq_by f [] xs) = uniq_by f [] xs"
  by (rule uniq_by_id) (simp_all add: distinct_uniq_by)

lemma uniq_by_first:
  assumes "xs = us @ x # vs" "f x \<notin> f ` set us" "f x \<notin> set seen"
  shows "x \<in> set (uniq_by f seen xs)"
  using assms by (induction us arbitrary: xs seen) auto

lemma hd_uniq_by: "xs \<noteq> [] \<Longrightarrow> f (hd xs) \<notin> set seen \<Longrightarrow>
    uniq_by f seen xs \<noteq> [] \<and> hd (uniq_by f seen xs) = hd xs"
  by (cases xs) auto

lemma uniq_by_append:
  "uniq_by f seen (xs @ ys) = uniq_by f seen xs @ uniq_by f (rev (map f (uniq_by f seen xs)) @ seen) ys"
  by (induction f seen xs rule: uniq_by.induct) auto

section \<open>Trimmed strings\<close>

definition trimmed :: "string list \<Rightarrow> string list" where
  "trimmed xs = filter (\<lambda>v. v \<noteq> []) (map trim_space xs)"

lemma set_trimmed [simp]: "set (trimmed xs) = trim_space ` set xs - {[]}"
  by (auto simp: trimmed_def)

lemma trimmed_idem [simp]: "trimmed (trimmed xs) = trimmed xs"
  unfolding trimmed_def by (induction xs) auto

lemma trimmed_append [simp]: "trimmed (xs @ ys) = trimmed xs @ trimmed ys"
  by (simp add: trimmed_def)

lemma trimmed_uniq: "set ys \<subseteq> set (trimmed xs) \<Longrightarrow> trimmed ys = ys"
proof (induction ys)
  case (Cons y ys)
  then obtain x where "y = trim_space x" "y \<noteq> []" by auto
  with Cons show ?case by (auto simp: trimmed_def)
qed (simp add: trimmed_def)

text \<open>\<open>uniqueTrimmedStrings\<close> compares without regard to case; \<open>dedupeTrimmedStrings\<close> does not.\<close>

definition unique_trimmed_strings :: "string list \<Rightarrow> string list" where
  "unique_trimmed_strings xs = uniq_by to_lower [] (trimmed xs)"

definition dedupe_trimmed_strings :: "string list \<Rightarrow> string list" where
  "dedupe_trimmed_strings xs = uniq_by (\<lambda>v. v) [] (trimmed xs)"

definition merge_provider_list :: "string list \<Rightarrow> string list \<Rightarrow> string list \<Rightarrow> string list" where
  "merge_provider_list existing incoming fallback =
     uniq_by (\<lambda>v. v) [] (trimmed (existing @ incoming @ fallback))"

fun first_non_empty :: "string list \<Rightarrow> string" where
  "first_non_empty [] = []"
| "first_non_empty (v # vs) = (if trim_space v \<noteq> [] then trim_space v else first_non_empty vs)"

definition count_non_empty_strings :: "string list \<Rightarrow> nat" where
  "count_non_empty_strings xs = length (filter (\<lambda>v. trim_space v \<noteq> []) xs)"

definition clamp_float :: "real \<Rightarrow> real \<Rightarrow> real \<Rightarrow> real" where
  "clamp_float v lo hi = (if v < lo then lo else if hi < v then hi else v)"

lemma clamp_float_bounds [simp]: "lo \<le> hi \<Longrightarrow> lo \<le> clamp_float v lo hi" "lo \<le> hi \<Longrightarrow> clamp_float v lo hi \<le> hi"
  by (simp_all add: clamp_float_def)

lemma clamp_float_id [simp]: "lo \<le> v \<Longrightarrow> v \<le> hi \<Longrightarrow> clamp_float v lo hi = v"
  by (simp add: clamp_float_def)

lemma clamp_float_mono: "v \<le> w \<Longrightarrow> lo \<le> hi \<Longrightarrow> clamp_float v lo hi \<le> clamp_float w lo hi"
  by (simp add: clamp_float_def)

abbreviation blank :: "string \<Rightarrow> bool" where
  "blank s \<equiv> trim_space s = []"

definition contains_any :: "string \<Rightarrow> string list \<Rightarrow> bool" where
  "contains_any s ks \<longleftrightarrow> list_ex (contains s) ks"

lemma set_merge_provider_list [simp]:
  "set (merge_provider_list a b c) = trim_space ` (set a \<union> set b \<union> set c) - {[]}"
proof -
  have "(\<lambda>v. v) ` set (merge_provider_list a b c) = trim_space ` (set a \<union> set b \<union> set c) - {[]}"
    unfolding merge_provider_list_def uniq_by_keys by auto
  then show ?thesis by simp
qed

lemma merge_provider_list_Nil_iff:
  "merge_provider_list a b c = [] \<longleftrightarrow> (\<forall>x \<in> set a \<union> set b \<union> set c. blank x)"
proof -
  have "merge_provider_list a b c = [] \<longleftrightarrow> set (merge_provider_list a b c) = {}" by (simp only: set_empty)
  then show ?thesis unfolding set_merge_provider_list by auto
qed

lemma unique_trimmed_strings_distinct [simp]:
  "distinct (map to_lower (unique_trimmed_strings xs))"
  by (simp add: unique_trimmed_strings_def distinct_uniq_by)

lemma unique_trimmed_strings_idem [simp]:
  "unique_trimmed_strings (unique_trimmed_strings xs) = unique_trimmed_strings xs"
proof -
  have "trimmed (uniq_by to_lower [] (trimmed xs)) = uniq_by to_lower [] (trimmed xs)"
    by (rule trimmed_uniq) (rule set_uniq_by_subset)
  then show ?thesis by (simp add: unique_trimmed_strings_def)
qed

lemma blank_first_non_empty: "first_non_empty vs = [] \<longleftrightarrow> (\<forall>v \<in> set vs. blank v)"
  by (induction vs) auto

end
