(* ===== verification/Planner.thy ===== *)
theory Planner
  imports PlanExecutor "HOL-Library.Char_ord" "HOL-Library.List_Lexorder" "HOL-Library.Product_Lexorder" ListTools
begin

text \<open>
  The planners (\<open>orchestrator/internal/wisdev/planner.go\<close>, \<open>synthesis.go\<close>): the guided plan every
  session without a plan is given, the four candidate plans and their scoring, and the search
  queries generated from a questionnaire. Two functions of other files are parameters: \<open>fix\<close>, the
  typo correction of \<open>query_prepare.go\<close>, and \<open>params\<close>, the retrieval options of
  \<open>retrieval_strategy.go\<close> for a session in guided mode; neither affects the shape of a plan. Sorting
  strings is by their bytes, which is the lexicographic order on characters.
\<close>

section \<open>Plans that cannot get stuck\<close>

text \<open>Every step has an id of its own and depends on earlier steps only.\<close>

fun deps_earlier :: "string list \<Rightarrow> plan_step list \<Rightarrow> bool" where
  "deps_earlier seen [] \<longleftrightarrow> True"
| "deps_earlier seen (st # ss) \<longleftrightarrow>
     step_id st \<notin> set seen \<and> list_all (\<lambda>d. d \<in> set seen) (depends_on st) \<and> deps_earlier (step_id st # seen) ss"

definition topological :: "plan_step list \<Rightarrow> bool" where
  "topological ss \<longleftrightarrow> deps_earlier [] ss"

lemma deps_earlier_append:
  "deps_earlier seen (xs @ ys) \<longleftrightarrow> deps_earlier seen xs \<and> deps_earlier (rev (map step_id xs) @ seen) ys"
  by (induction xs arbitrary: seen) auto

lemma deps_earlier_distinct:
  "deps_earlier seen ss \<Longrightarrow> distinct (map step_id ss) \<and> set seen \<inter> set (map step_id ss) = {}"
  by (induction ss arbitrary: seen) fastforce+

lemma deps_earlier_ready:
  assumes "deps_earlier seen ss" and "\<forall>d \<in> set seen. dict_get_or False (completed_ids p) d"
    and "failed_ids p = []" and "\<exists>st \<in> set ss. \<not> is_step_terminal p (step_id st)"
  shows "\<exists>st \<in> set ss. \<not> is_step_terminal p (step_id st) \<and> dependencies_satisfied st (completed_ids p)"
  using assms
proof (induction ss arbitrary: seen)
  case (Cons st ss)
  show ?case
  proof (cases "is_step_terminal p (step_id st)")
    case True
    then have "dict_get_or False (completed_ids p) (step_id st)"
      using Cons.prems(3) by (simp add: is_step_terminal_def)
    with Cons.IH [of "step_id st # seen"] Cons.prems True show ?thesis by auto
  next
    case False
    moreover have "dependencies_satisfied st (completed_ids p)"
      using Cons.prems(1,2) by (auto simp: dependencies_satisfied_def list_all_iff)
    ultimately show ?thesis by auto
  qed
qed simp

section \<open>The guided plan\<close>

definition resolve_session_search_query :: "(string \<Rightarrow> string) \<Rightarrow> agent_session \<Rightarrow> string" where
  "resolve_session_search_query fix s =
     (let norm = (\<lambda>q. trim_space (fix q)) in
      if norm (session_query s) \<noteq> '''' then norm (session_query s)
      else if norm (corrected_query s) \<noteq> '''' then norm (corrected_query s)
      else norm (original_query s))"

definition next_plan_step_id :: "nat \<Rightarrow> string" where
  "next_plan_step_id n = ''step-'' @ (if n < 10 then ''0'' else '''') @ digits_of n"

text \<open>The loop with its \<open>seen\<close> set of lower-cased queries.\<close>

fun dedup_queries :: "string list \<Rightarrow> string list \<Rightarrow> string list" where
  "dedup_queries seen [] = []"
| "dedup_queries seen (raw # rs) =
     (let q = trim_space raw in
      if q = '''' \<or> to_lower q \<in> set seen then dedup_queries seen rs
      else q # dedup_queries (to_lower q # seen) rs)"

definition normalize_guided_plan_queries :: "string \<Rightarrow> string list \<Rightarrow> string list" where
  "normalize_guided_plan_queries base qs =
     (let out = dedup_queries [] qs in
      if out = [] \<and> trim_space base \<noteq> '''' then [trim_space base] else out)"

definition bare_step :: "nat \<Rightarrow> string \<Rightarrow> string \<Rightarrow> plan_risk \<Rightarrow> model_tier \<Rightarrow> execution_target \<Rightarrow> string list \<Rightarrow> plan_step" where
  "bare_step n act reason rk tier target deps =
     \<lparr>step_id = next_plan_step_id n, action = act, step_reason = reason, risk = rk, step_model_tier = tier,
      execution_target = target, parallelizable = False, requires_human_checkpoint = False,
      parallel_group = '''', depends_on = deps, estimated_cost_cents = 1, step_max_attempts = 2,
      timeout_ms = 30000, step_params = []\<rparr>"

definition planning_params :: "string \<Rightarrow> string list \<Rightarrow> bool \<Rightarrow> json dict" where
  "planning_params query qs from_tree =
     [(''query'', JStr query), (''queries'', JArr (map JStr qs)), (''generatedFromTree'', JBool from_tree)]"

fun mode_text :: "wisdev_mode \<Rightarrow> string" where
  "mode_text WisDevModeGuided = ''guided''"
| "mode_text WisDevModeYOLO = ''yolo''"

definition retrieve_step :: "json dict \<Rightarrow> wisdev_mode \<Rightarrow> bool \<Rightarrow> nat \<Rightarrow> nat \<Rightarrow> string \<Rightarrow> plan_step" where
  "retrieve_step base mode from_tree cnt k q =
     (bare_step (k + 3) ''research.retrievePapers'' (''Parallel evidence gathering for '' @ q)
        RiskLevelLow ModelTierLight GoNative [])
     \<lparr>parallelizable := True, parallel_group := ''guided_retrieval'',
      step_params := foldl (\<lambda>d (a, v). dict_set a v d) base
        [(''query'', JStr q), (''queryIndex'', jint (int k)), (''queryCount'', jint (int cnt)),
         (''generatedFromTree'', JBool from_tree), (''executionMode'', JStr (mode_text mode)),
         (''planMode'', JStr ''guided_stable'')]\<rparr>"

definition guided_plan_head :: "string \<Rightarrow> string list \<Rightarrow> bool \<Rightarrow> plan_step list" where
  "guided_plan_head query qs from_tree =
     [(bare_step 1 ''research.queryDecompose'' (''High-level task decomposition for '' @ query)
         RiskLevelLow ModelTierStandard PythonCapability [])
        \<lparr>estimated_cost_cents := 0, step_max_attempts := 0, timeout_ms := 0, step_params := planning_params query qs from_tree\<rparr>,
      (bare_step 2 ''research.proposeHypotheses'' ''Proactive research hypothesis generation''
         RiskLevelLow ModelTierHeavy PythonCapability [''step-01''])
        \<lparr>estimated_cost_cents := 0, step_max_attempts := 0, timeout_ms := 0, step_params := planning_params query qs from_tree\<rparr>]"

text \<open>The steps after the retrieval; \<open>n\<close> is the number of the first.\<close>

definition guided_plan_tail :: "nat \<Rightarrow> string list \<Rightarrow> plan_step list" where
  "guided_plan_tail n retrieved =
     [bare_step n ''research.resolveCanonicalCitations''
        ''Resolve retrieved papers against canonical citation authorities'' RiskLevelMedium ModelTierStandard GoNative retrieved,
      bare_step (n + 1) ''research.buildClaimEvidenceTable''
        ''Assemble the claim-evidence matrix for drafting'' RiskLevelLow ModelTierStandard PythonCapability [next_plan_step_id n],
      bare_step (n + 2) ''research.detectContradictions''
        ''Surface conflicting evidence before synthesis'' RiskLevelMedium ModelTierStandard PythonCapability [next_plan_step_id (n + 1)],
      bare_step (n + 3) ''research.generateThoughts''
        ''Generate structured internal reasoning for the synthesis layer'' RiskLevelMedium ModelTierStandard PythonCapability
        [next_plan_step_id (n + 2)],
      (bare_step (n + 4) ''research.verifyReasoningPaths''
        ''Gate the guided reasoning paths before synthesis'' RiskLevelHigh ModelTierHeavy GoNative [next_plan_step_id (n + 3)])
        \<lparr>requires_human_checkpoint := True\<rparr>,
      bare_step (n + 5) ''research.synthesizeAnswer''
        ''Produce the final guided synthesis from grounded evidence'' RiskLevelMedium ModelTierHeavy GoNative [next_plan_step_id (n + 4)],
      bare_step (n + 6) ''research.coordinateReplan''
        ''Prepare a recovery path if synthesis confidence is insufficient'' RiskLevelLow ModelTierStandard PythonCapability
        [next_plan_step_id (n + 5)]]"

definition build_guided_orchestration_plan ::
  "(string \<Rightarrow> string) \<Rightarrow> (agent_session \<Rightarrow> json dict) \<Rightarrow> agent_session \<Rightarrow> string list \<Rightarrow> bool \<Rightarrow> plan_state" where
  "build_guided_orchestration_plan fix params s queries from_tree =
     (let query = resolve_session_search_query fix s;
          qs = normalize_guided_plan_queries query queries;
          mode = normalize_wisdev_mode (session_mode s);
          retrieval = map (\<lambda>(k, q). retrieve_step (params (s\<lparr>session_mode := ''guided''\<rparr>)) mode from_tree (length qs) k q)
                        (enumerate 0 qs)
      in (new_plan_state (''plan_'' @ session_id s)
            (guided_plan_head query qs from_tree @ retrieval @
             guided_plan_tail (length qs + 3) (map step_id retrieval)))
           \<lparr>reasoning := mode_text mode @ '' full-research plan using the guided-stable action graph with '' @
              itoa (int (length qs)) @ '' retrieval queries, canonical citation grounding, contradiction checks, reasoning-path verification, and synthesis checkpoints.''\<rparr>)"

definition build_default_plan :: "(string \<Rightarrow> string) \<Rightarrow> (agent_session \<Rightarrow> json dict) \<Rightarrow> agent_session \<Rightarrow> plan_state" where
  "build_default_plan fix params s = build_guided_orchestration_plan fix params s [] False"

subsection \<open>Its shape\<close>

lemma next_plan_step_id_inject [simp]: "next_plan_step_id m = next_plan_step_id n \<longleftrightarrow> m = n"
proof
  assume "next_plan_step_id m = next_plan_step_id n"
  then have e: "(if m < 10 then ''0'' else '''') @ digits_of m = (if n < 10 then ''0'' else '''') @ digits_of n"
    by (simp add: next_plan_step_id_def)
  have "undigits ((if k < 10 then ''0'' else '''') @ digits_of k) = k" for k
    using undigits_digits_of [of k] by (simp add: undigits_def)
  with arg_cong [OF e, of undigits] show "m = n" by metis
qed simp

lemma step_id_bare [simp]: "step_id (bare_step n a r rk t x d) = next_plan_step_id n"
  and depends_on_bare [simp]: "depends_on (bare_step n a r rk t x d) = d"
  and checkpoint_bare [simp]: "requires_human_checkpoint (bare_step n a r rk t x d) = False"
  by (simp_all add: bare_step_def)

lemma retrieve_step_simps [simp]:
  "step_id (retrieve_step b m t n k q) = next_plan_step_id (k + 3)"
  "depends_on (retrieve_step b m t n k q) = []"
  "requires_human_checkpoint (retrieve_step b m t n k q) = False"
  "parallelizable (retrieve_step b m t n k q)"
  "action (retrieve_step b m t n k q) = ''research.retrievePapers''"
  by (simp_all add: retrieve_step_def bare_step_def)

lemma step_01: "''step-01'' = next_plan_step_id 1"
  by code_simp

lemma retrieval_ok:
  assumes "set seen \<inter> {next_plan_step_id (k + 3) | k. a \<le> k} = {}"
  shows "deps_earlier seen (map (\<lambda>(k, q). retrieve_step b m t n k q) (enumerate a qs))"
  using assms
proof (induction qs arbitrary: a seen)
  case (Cons q qs)
  have "set (next_plan_step_id (a + 3) # seen) \<inter> {next_plan_step_id (k + 3) | k. Suc a \<le> k} = {}"
    using Cons.prems by force
  from Cons.IH [OF this] Cons.prems show ?case by auto
qed simp

lemma map_retrieve_ids:
  "map step_id (map (\<lambda>(k, q). retrieve_step b m t n k q) (enumerate a qs)) = map (\<lambda>k. next_plan_step_id (k + 3)) [a..<a + length qs]"
  by (rule nth_equalityI) (auto simp: nth_enumerate_eq)

lemma tail_ok:
  assumes "\<forall>k \<ge> n. next_plan_step_id k \<notin> set seen" and "set retrieved \<subseteq> set seen"
  shows "deps_earlier seen (guided_plan_tail n retrieved)"
  using assms by (auto simp: guided_plan_tail_def list_all_iff)

lemma guided_topological: "topological (steps (build_guided_orchestration_plan fix params s queries from_tree))"
proof -
  have head: "deps_earlier [] (guided_plan_head q qs t)" for q qs t
    by (simp add: guided_plan_head_def step_01)
  have ids: "map step_id (guided_plan_head q qs t) = [next_plan_step_id 1, next_plan_step_id 2]" for q qs t
    by (simp add: guided_plan_head_def)
  show ?thesis
    by (auto simp: build_guided_orchestration_plan_def topological_def Let_def new_plan_state_def deps_earlier_append head ids
        map_retrieve_ids simp del: map_map intro!: retrieval_ok tail_ok)
qed

text \<open>
  The guided plan of any session is well formed: all its step ids are distinct, every step
  depends on earlier steps only, there is one retrieval step per query and nine more, and exactly
  one step - the gate before the synthesis, on which the synthesis depends - needs a human.
\<close>

theorem guided_plan_well_formed:
  "let qs = normalize_guided_plan_queries (resolve_session_search_query fix s) queries;
       ss = steps (build_guided_orchestration_plan fix params s queries from_tree)
   in deps_earlier [] ss \<and> distinct (map step_id ss) \<and>
      length ss = length qs + 9 \<and>
      length (filter (\<lambda>st. action st = ''research.retrievePapers'') ss) = length qs \<and>
      (\<exists>gate synth. filter requires_human_checkpoint ss = [gate] \<and>
         action gate = ''research.verifyReasoningPaths'' \<and>
         filter (\<lambda>st. action st = ''research.synthesizeAnswer'') ss = [synth] \<and>
         depends_on synth = [step_id gate])"
proof -
  have top: "deps_earlier [] (steps (build_guided_orchestration_plan fix params s queries from_tree))"
    using guided_topological unfolding topological_def .
  have none: "filter P (map (\<lambda>(k, q). retrieve_step b m t n k q) (enumerate a us)) = []"
    if "\<And>k q. \<not> P (retrieve_step b m t n k q)" for P b m t n a us
    using that by (auto simp: filter_empty_conv)
  have all: "filter (\<lambda>st. action st = ''research.retrievePapers'')
               (map (\<lambda>(k, q). retrieve_step b m t n k q) (enumerate a us)) =
             map (\<lambda>(k, q). retrieve_step b m t n k q) (enumerate a us)" for b m t n a us
    by (auto simp: filter_id_conv)
  show ?thesis
    using top deps_earlier_distinct [OF top]
    by (simp add: build_guided_orchestration_plan_def Let_def new_plan_state_def guided_plan_head_def
        guided_plan_tail_def none all bare_step_def)
qed

text \<open>
  C8. A run cannot deadlock on a well-formed plan: as long as no step has failed and some step is
  not finished, at least one step is ready to run - in particular for every guided plan, whatever
  has been completed so far.
\<close>

theorem well_formed_plan_never_deadlocks:
  assumes "topological (steps p)" and "failed_ids p = []" and "\<not> all_steps_terminal p" and "1 \<le> lanes"
  shows "select_runnable_steps (collect_ready_steps p) lanes \<noteq> []"
proof -
  have "\<exists>st \<in> set (steps p). \<not> is_step_terminal p (step_id st)"
    using assms(3) by (auto simp: all_steps_terminal_def list_all_iff)
  with deps_earlier_ready [of "[]" "steps p" p] assms(1,2)
  have "collect_ready_steps p \<noteq> []"
    by (auto simp: topological_def collect_ready_steps_def filter_empty_conv)
  moreover have "select_loop lanes par seq ready = (par', seq') \<Longrightarrow> ready \<noteq> [] \<or> par \<noteq> [] \<or> seq \<noteq> [] \<Longrightarrow> par' \<noteq> [] \<or> seq' \<noteq> []"
    for par seq ready par' seq'
    by (induction lanes par seq ready rule: select_loop.induct) (auto simp: Let_def split: if_splits)
  ultimately show ?thesis
    using assms(4) by (auto simp: select_runnable_steps_def split: prod.split)
qed

theorem well_formed_plan_never_deadlocks_witness:
  "select_runnable_steps (collect_ready_steps
     ((build_default_plan id (\<lambda>_. []) (example_session '''' (new_plan_state '''' [])))
        \<lparr>completed_ids := [(''step-01'', True), (''step-02'', True), (''step-03'', True)]\<rparr>)) 3 \<noteq> []"
proof (rule well_formed_plan_never_deadlocks)
  let ?s = "example_session '''' (new_plan_state '''' [])"
  show "topological (steps ((build_default_plan id (\<lambda>_. []) ?s)
          \<lparr>completed_ids := [(''step-01'', True), (''step-02'', True), (''step-03'', True)]\<rparr>))"
    using guided_topological by (simp add: build_default_plan_def)
  show "failed_ids ((build_default_plan id (\<lambda>_. []) ?s)
          \<lparr>completed_ids := [(''step-01'', True), (''step-02'', True), (''step-03'', True)]\<rparr>) = []"
    by (simp add: build_default_plan_def build_guided_orchestration_plan_def new_plan_state_def Let_def)
  show "\<not> all_steps_terminal ((build_default_plan id (\<lambda>_. []) ?s)
          \<lparr>completed_ids := [(''step-01'', True), (''step-02'', True), (''step-03'', True)]\<rparr>)"
    by code_simp
qed simp

section \<open>Search queries from a questionnaire\<close>

record query_session =
  qs_query :: string
  qs_corrected :: string
  qs_original :: string
  qs_answers :: "string list dict"

record generated_queries =
  gq_queries :: "string list"
  gq_count :: int
  gq_estimated :: int
  gq_coverage :: "string list dict"
  gq_used :: string

definition normalize_query_answer_term :: "string \<Rightarrow> string" where
  "normalize_query_answer_term v = join '' '' (str_fields (replace_all (trim_space v) ''_'' '' ''))"

definition query_answer_terms :: "string list \<Rightarrow> string list" where
  "query_answer_terms vs = filter (\<lambda>t. t \<noteq> '''' \<and> \<not> equal_fold t ''none'') (map normalize_query_answer_term vs)"

definition query_fragment :: "string list \<Rightarrow> string" where
  "query_fragment vs = (let ts = query_answer_terms vs in if ts = [] then '''' else '' '' @ join '' '' ts)"

definition exclusion_fragment :: "string list \<Rightarrow> string" where
  "exclusion_fragment xs =
     concat (map (\<lambda>x. let t = trim_space x in
                 if t = '''' \<or> equal_fold t ''none'' \<or> equal_fold t ''no exclusions'' then ''''
                 else '' -'' @ normalize_query_answer_term t) xs)"

definition scope_of :: "query_session \<Rightarrow> string" where
  "scope_of s = (case dict_get (qs_answers s) ''q2_scope'' of Some (v # vs) \<Rightarrow> v | _ \<Rightarrow> ''comprehensive'')"

definition scope_cap :: "string \<Rightarrow> nat" where
  "scope_cap scope = (if scope = ''exhaustive'' then 10 else if scope = ''focused'' then 4 else 6)"

definition results_per_query :: "string \<Rightarrow> int" where
  "results_per_query scope = (if scope = ''focused'' then 8 else if scope = ''exhaustive'' then 18 else 12)"

definition base_query :: "(string \<Rightarrow> string) \<Rightarrow> query_session \<Rightarrow> string" where
  "base_query fix s =
     (let norm = (\<lambda>q. trim_space (fix q)) in
      trim_space (if norm (qs_query s) \<noteq> '''' then norm (qs_query s)
                  else if norm (qs_corrected s) \<noteq> '''' then norm (qs_corrected s)
                  else norm (qs_original s)))"

text \<open>The set of queries and the coverage map, as the function fills them.\<close>

definition add_subtopic :: "string \<Rightarrow> string \<Rightarrow> string list \<times> string list dict \<Rightarrow> string \<Rightarrow> string list \<times> string list dict" where
  "add_subtopic base fragment acc raw =
     (let t = trim_space raw; q = trim_space (base @ '' '' @ t @ fragment) in
      if t = '''' then acc else (fst acc @ [q], dict_set t [q] (snd acc)))"

definition collect_queries :: "string \<Rightarrow> query_session \<Rightarrow> string list \<times> string list dict" where
  "collect_queries base s =
     (let answers = dict_get_or [] (qs_answers s);
          quality = query_fragment (answers ''q7_evidence_quality'');
          focus = query_fragment (answers ''q8_output_focus'');
          planning = query_fragment (answers ''q5_study_types'') @ quality @ focus;
          excl = exclusion_fragment (answers ''q6_exclusions'');
          enriched = trim_space (base @ planning @ excl);
          start = (if planning = '''' then ([base], [])
                   else ([base, enriched],
                         (let m = (if quality \<noteq> '''' then dict_set ''evidence_quality'' [enriched] [] else [])
                          in if focus \<noteq> '''' then dict_set ''output_focus'' [enriched] m else m)))
      in foldl (add_subtopic base (planning @ excl)) start (answers ''q4_subtopics''))"

definition generate_search_queries :: "(string \<Rightarrow> string) \<Rightarrow> query_session \<Rightarrow> generated_queries" where
  "generate_search_queries fix s =
     (let base = base_query fix s; scope = scope_of s in
      if base = '''' then \<lparr>gq_queries = [], gq_count = 0, gq_estimated = 0, gq_coverage = [], gq_used = ''''\<rparr>
      else
        (let (set, m) = collect_queries base s;
             qs = take (scope_cap scope) (base # sort (filter (\<lambda>q. q \<noteq> base) (remdups set)))
         in \<lparr>gq_queries = qs, gq_count = int (length qs), gq_estimated = int (length qs) * results_per_query scope,
             gq_coverage = m, gq_used = base\<rparr>))"

lemma dropWhile_append_suffix: "dropWhile P zs = zs \<Longrightarrow> \<exists>y. dropWhile P (ys @ zs) = y @ zs"
proof (induction ys)
  case (Cons a ys)
  then show ?case by (cases "P a") (auto intro: exI [of _ "a # ys"])
qed (auto intro: exI [of _ "[]"])

lemma trim_space_prefix:
  assumes "b \<noteq> ''''" and "trim_space b = b"
  shows "prefix b (trim_space (b @ x))"
proof -
  obtain c cs where b: "b = c # cs" using assms(1) by (cases b) auto
  have no: "dropWhile is_space b = b \<and> dropWhile is_space (rev b) = rev b"
  proof -
    have "trim_space b = rev (dropWhile is_space (rev (dropWhile is_space b)))" by (simp add: trim_space_def)
    then have l: "length (dropWhile is_space (rev (dropWhile is_space b))) = length b" using assms(2) by (metis length_rev)
    moreover have "length (dropWhile is_space (rev (dropWhile is_space b))) \<le> length (dropWhile is_space b)"
      using length_dropWhile_le [of is_space "rev (dropWhile is_space b)"] by simp
    ultimately have "length (dropWhile is_space b) = length b"
      using length_dropWhile_le [of is_space b] by linarith
    moreover have "b = takeWhile is_space b @ dropWhile is_space b" by simp
    ultimately have d: "dropWhile is_space b = b" by (metis append_self_conv2 length_append add_eq_self_zero length_0_conv add.commute)
    with l have "length (dropWhile is_space (rev b)) = length (rev b)" by simp
    moreover have "rev b = takeWhile is_space (rev b) @ dropWhile is_space (rev b)" by simp
    ultimately have "dropWhile is_space (rev b) = rev b" by (metis append_self_conv2 length_append add_eq_self_zero length_0_conv add.commute)
    with d show ?thesis by simp
  qed
  then have c: "\<not> is_space c" by (metis b dropWhile.simps(2) hd_dropWhile list.discI list.sel(1))
  have "dropWhile is_space (b @ x) = b @ x" using c b by simp
  moreover obtain y where "dropWhile is_space (rev x @ rev b) = y @ rev b"
    using dropWhile_append_suffix no by blast
  ultimately show ?thesis by (simp add: trim_space_def)
qed

lemma base_query_trimmed: "trim_space (base_query fix s) = base_query fix s"
  by (simp add: base_query_def Let_def)

lemma subtopics_extend_base:
  assumes "base \<noteq> ''''" and "trim_space base = base" and "\<forall>q \<in> set (fst start). prefix base q"
  shows "\<forall>q \<in> set (fst (foldl (add_subtopic base u) start rs)). prefix base q"
  using assms(3)
proof (induction rs arbitrary: start)
  case (Cons r rs)
  have "\<forall>q \<in> set (fst (add_subtopic base u start r)). prefix base q"
    using Cons.prems trim_space_prefix [OF assms(1,2)] by (auto simp: add_subtopic_def Let_def)
  from Cons.IH [OF this] show ?case by simp
qed simp

lemma collected_extend_base:
  assumes "base \<noteq> ''''" and "trim_space base = base"
  shows "\<forall>q \<in> set (fst (collect_queries base s)). prefix base q"
  unfolding collect_queries_def Let_def
  by (rule subtopics_extend_base [OF assms]) (use trim_space_prefix [OF assms] in simp)

text \<open>
  The generated queries start with the base query, are distinct and in a fixed order, each of
  them extends the base query, and their number stays within the cap of the chosen scope; the
  estimate is that number times the results per query of the scope.
\<close>

theorem generated_queries_bounded:
  assumes "base_query fix s \<noteq> ''''"
  defines "g \<equiv> generate_search_queries fix s"
  shows "hd (gq_queries g) = base_query fix s \<and> gq_queries g \<noteq> [] \<and> distinct (gq_queries g) \<and>
         sorted (tl (gq_queries g)) \<and> (\<forall>q \<in> set (gq_queries g). prefix (base_query fix s) q) \<and>
         length (gq_queries g) \<le> scope_cap (scope_of s) \<and> gq_count g = int (length (gq_queries g)) \<and>
         gq_estimated g \<le> 180"
proof -
  let ?b = "base_query fix s"
  obtain set0 m where col: "collect_queries ?b s = (set0, m)" by force
  let ?rest = "sort (filter (\<lambda>q. q \<noteq> ?b) (remdups set0))"
  have qs: "gq_queries g = take (scope_cap (scope_of s)) (?b # ?rest)"
    and cnt: "gq_count g = int (length (gq_queries g))"
    and est: "gq_estimated g = int (length (gq_queries g)) * results_per_query (scope_of s)"
    using assms(1) by (simp_all add: g_def generate_search_queries_def col Let_def)
  have cap: "1 \<le> scope_cap (scope_of s)" by (simp add: scope_cap_def)
  then obtain c where c: "scope_cap (scope_of s) = Suc c" by (cases "scope_cap (scope_of s)") auto
  have ext: "\<forall>q \<in> set set0. prefix ?b q"
    using collected_extend_base [OF assms(1) base_query_trimmed, of s] col by simp
  have d: "distinct (?b # ?rest)" by simp
  have "distinct (gq_queries g)" unfolding qs using d by (rule distinct_take)
  moreover have "sorted (tl (gq_queries g))" by (simp add: qs c sorted_wrt_take)
  moreover have "\<forall>q \<in> set (gq_queries g). prefix ?b q"
    using ext by (auto simp: qs c dest!: in_set_takeD)
  moreover have "length (gq_queries g) \<le> scope_cap (scope_of s)" by (simp add: qs)
  moreover from this have "gq_estimated g \<le> int (scope_cap (scope_of s)) * results_per_query (scope_of s)"
    unfolding est by (intro mult_right_mono) (simp_all add: results_per_query_def)
  moreover have "int (scope_cap (scope_of s)) * results_per_query (scope_of s) \<le> 180"
    by (simp add: scope_cap_def results_per_query_def)
  ultimately show ?thesis using cnt by (simp add: qs c)
qed

theorem generated_queries_bounded_witness:
  "length (gq_queries (generate_search_queries id
      \<lparr>qs_query = ''sleep'', qs_corrected = '''', qs_original = '''',
       qs_answers = [(''q2_scope'', [''focused'']), (''q4_subtopics'', [''rem'', ''naps''])]\<rparr>)) \<le> 4"
proof -
  let ?s = "\<lparr>qs_query = ''sleep'', qs_corrected = '''', qs_original = '''',
       qs_answers = [(''q2_scope'', [''focused'']), (''q4_subtopics'', [''rem'', ''naps''])]\<rparr>"
  have "base_query id ?s \<noteq> ''''" by code_simp
  moreover have "scope_cap (scope_of ?s) = 4" by (simp add: scope_of_def scope_cap_def)
  ultimately show ?thesis using generated_queries_bounded [of id ?s] by simp
qed

section \<open>Candidate plans\<close>

definition create_plan_step ::
  "string \<Rightarrow> string \<Rightarrow> string \<Rightarrow> plan_risk \<Rightarrow> execution_target \<Rightarrow> bool \<Rightarrow> string list \<Rightarrow> plan_step" where
  "create_plan_step sid act reason rk target par deps =
     \<lparr>step_id = sid, action = act, step_reason = reason, risk = rk,
      step_model_tier = (if rk = RiskLevelHigh \<or> rk = RiskLevelMedium then ModelTierHeavy else ModelTierLight),
      execution_target = target, parallelizable = par, requires_human_checkpoint = False,
      parallel_group = '''', depends_on = deps, estimated_cost_cents = 1, step_max_attempts = 2,
      timeout_ms = 30000, step_params = []\<rparr>"

definition candidate_steps_a :: "plan_step list" where
  "candidate_steps_a =
     [create_plan_step ''step_query_decompose'' ''research.queryDecompose''
        ''Decompose request into retrieval intents and evidence criteria.'' RiskLevelLow PythonCapability True [],
      create_plan_step ''step_retrieve'' ''research.retrievePapers''
        ''Retrieve candidate papers from high-signal scholarly providers.'' RiskLevelLow GoNative True [''step_query_decompose''],
      create_plan_step ''step_claim_evidence'' ''research.buildClaimEvidenceTable''
        ''Ground claims in explicit evidence rows.'' RiskLevelMedium PythonCapability False [''step_retrieve''],
      create_plan_step ''step_citation_verify'' ''research.verifyCitations''
        ''Verify citation metadata integrity before synthesis.'' RiskLevelMedium PythonCapability False [''step_claim_evidence'']]"

definition candidate_steps_b :: "plan_step list" where
  "candidate_steps_b =
     [create_plan_step ''step_query_decompose'' ''research.queryDecompose''
        ''Decompose request and generate exploratory retrieval facets.'' RiskLevelLow PythonCapability True [],
      create_plan_step ''step_retrieve'' ''research.retrievePapers''
        ''Retrieve initial seed corpus.'' RiskLevelLow GoNative True [''step_query_decompose''],
      create_plan_step ''step_snowball'' ''research.snowballCitations''
        ''Expand retrieval via forward/backward citation traversal.'' RiskLevelMedium PythonCapability True [''step_retrieve''],
      create_plan_step ''step_claim_evidence'' ''research.buildClaimEvidenceTable''
        ''Consolidate claims with expanded evidence graph.'' RiskLevelMedium PythonCapability False [''step_snowball'']]"

definition candidate_steps_c :: "plan_step list" where
  "candidate_steps_c =
     [create_plan_step ''step_query_decompose'' ''research.queryDecompose''
        ''Constrain scope and define strict inclusion criteria.'' RiskLevelLow PythonCapability False [],
      create_plan_step ''step_retrieve'' ''research.retrievePapers''
        ''Retrieve high-confidence papers only.'' RiskLevelLow GoNative False [''step_query_decompose''],
      create_plan_step ''step_citation_verify'' ''research.verifyCitations''
        ''Verify DOI/title/year coherence for all core sources.'' RiskLevelMedium PythonCapability False [''step_retrieve''],
      create_plan_step ''step_claim_evidence'' ''research.buildClaimEvidenceTable''
        ''Produce claim-evidence linkage with strict validation.'' RiskLevelMedium PythonCapability False [''step_citation_verify'']]"

definition candidate_steps_d :: "plan_step list" where
  "candidate_steps_d =
     [create_plan_step ''step_query_decompose'' ''research.queryDecompose''
        ''Quickly normalize query into retrieval terms.'' RiskLevelLow PythonCapability True [],
      create_plan_step ''step_retrieve'' ''research.retrievePapers''
        ''Parallel retrieval and lightweight ranking.'' RiskLevelLow GoNative True [''step_query_decompose''],
      create_plan_step ''step_claim_evidence'' ''research.buildClaimEvidenceTable''
        ''Minimal claim grounding for concise output.'' RiskLevelMedium PythonCapability False [''step_retrieve'']]"

definition mentions :: "string \<Rightarrow> string list \<Rightarrow> bool" where
  "mentions text terms \<longleftrightarrow> list_ex (contains text) terms"

definition score_plan_candidate :: "string \<Rightarrow> string \<Rightarrow> plan_step list \<Rightarrow> real" where
  "score_plan_candidate query domain ss =
     (let q = to_lower (trim_space query);
          times = (\<lambda>P. real (length (filter P ss)));
          base = 58 / 100 + min (25 / 100) (real (length ss) * (4 / 100));
          base = (if mentions q [''systematic review'', ''meta-analysis'', ''protocol'', ''prisma'']
                  then base + times (\<lambda>st. contains (action st) ''verifyCitations'' \<or>
                                          contains (action st) ''buildClaimEvidenceTable'') * (6 / 100)
                  else base);
          base = (if mentions q [''novel'', ''frontier'', ''emerging'', ''future work'', ''hypothesis''] \<and>
                     list_ex (\<lambda>st. contains (action st) ''snowballCitations'') ss
                  then base + 5 / 100 else base);
          base = (if domain = ''medicine''
                  then base + times (\<lambda>st. contains (to_lower (action st)) ''claim'' \<or>
                                          contains (to_lower (action st)) ''citation'') * (4 / 100)
                  else base)
      in clamp_float base (45 / 100) (95 / 100))"

record plan_candidate =
  pc_plan :: plan_state
  pc_score :: real
  pc_hypothesis :: string
  pc_rationale :: string

record plan_synthesis =
  ps_selected :: plan_candidate
  ps_alternates :: "plan_candidate list"
  ps_branch_width :: int

record plan_prior =
  pp_query :: string
  pp_success :: bool
  pp_hypothesis :: string
  pp_reward :: real

definition record_plan_outcome :: "plan_prior \<Rightarrow> plan_prior list \<Rightarrow> plan_prior list" where
  "record_plan_outcome x ps = (if 1000 < length ps then tl ps else ps) @ [x]"

definition priors_for_query :: "plan_prior list \<Rightarrow> string \<Rightarrow> plan_prior list" where
  "priors_for_query ps query = filter (\<lambda>x. contains (to_lower query) (to_lower (pp_query x))) ps"

definition plan_candidates :: "int \<Rightarrow> string \<Rightarrow> string \<Rightarrow> plan_candidate list" where
  "plan_candidates now domain query =
     (let pid = ''plan_'' @ itoa now;
          cand = (\<lambda>sfx ss extra hyp rat. \<lparr>pc_plan = new_plan_state (pid @ sfx) ss,
                     pc_score = score_plan_candidate (query @ extra) domain ss, pc_hypothesis = hyp, pc_rationale = rat\<rparr>)
      in [cand ''_a'' candidate_steps_a '''' ''balanced_evidence_first''
            ''Optimizes for grounded synthesis with mandatory citation checks.'',
          cand ''_b'' candidate_steps_b '' snowball'' ''exploration_then_grounding''
            ''Expands discovery frontier before enforcing evidence table synthesis.'',
          cand ''_c'' candidate_steps_c '' verify'' ''verification_first''
            ''Prioritizes reliability and metadata hygiene before synthesis.'',
          cand ''_d'' candidate_steps_d '' fast'' ''fast_balanced''
            ''Optimizes for latency while preserving grounding gate.''])"

definition adjust_score :: "plan_prior list \<Rightarrow> string \<Rightarrow> plan_candidate \<Rightarrow> plan_candidate" where
  "adjust_score ps query c =
     (let lq = to_lower (trim_space query);
          bonus = (if mentions lq [''systematic'', ''meta-analysis'', ''protocol'', ''prisma''] \<and>
                      contains (pc_hypothesis c) ''verification'' then 8 / 100 else 0)
                + (if mentions lq [''novel'', ''emerging'', ''frontier''] \<and> contains (pc_hypothesis c) ''exploration''
                   then 8 / 100 else 0)
                + (if mentions lq [''quick'', ''fast'', ''brief''] \<and> pc_hypothesis c = ''fast_balanced''
                   then 12 / 100 else 0);
          learned = sum_list (map (\<lambda>x. if pp_success x \<and> pp_hypothesis x = pc_hypothesis c
                                        then 5 / 100 * pp_reward x else 0) (priors_for_query ps query))
      in c\<lparr>pc_score := clamp_float (pc_score c + bonus + learned) (4 / 10) (97 / 100)\<rparr>)"

definition synthesize_plan_candidates :: "int \<Rightarrow> plan_prior list \<Rightarrow> string \<Rightarrow> string \<Rightarrow> plan_synthesis" where
  "synthesize_plan_candidates now ps domain query =
     (let lq = to_lower (trim_space query);
          width = (if mentions lq [''quick'', ''fast'', ''overview''] then 2 else 3);
          width = (if mentions lq [''thorough'', ''deep'', ''comprehensive''] then 4 else width);
          ranked = sort_key (\<lambda>c. (- pc_score c, pc_hypothesis c)) (map (adjust_score ps query) (plan_candidates now domain query))
      in \<lparr>ps_selected = hd ranked, ps_alternates = tl ranked, ps_branch_width = width\<rparr>)"

lemma candidate_plans_topological:
  "c \<in> set (plan_candidates now domain query) \<Longrightarrow> topological (steps (pc_plan c))"
proof -
  have "topological candidate_steps_a" "topological candidate_steps_b" "topological candidate_steps_c"
    "topological candidate_steps_d" by code_simp+
  then show "c \<in> set (plan_candidates now domain query) \<Longrightarrow> topological (steps (pc_plan c))"
    by (auto simp: plan_candidates_def Let_def new_plan_state_def)
qed

lemma adjust_score_keeps [simp]:
  "pc_plan (adjust_score ps q c) = pc_plan c" "pc_hypothesis (adjust_score ps q c) = pc_hypothesis c"
  by (simp_all add: adjust_score_def Let_def)

lemma adjust_score_range: "4 / 10 \<le> pc_score (adjust_score ps q c) \<and> pc_score (adjust_score ps q c) \<le> 97 / 100"
  by (simp add: adjust_score_def Let_def clamp_float_def)

text \<open>
  Plan synthesis offers the four candidates, each a well-formed plan, selects one of the highest
  score (the alphabetically first hypothesis among equals), and keeps every score between 0.4 and
  0.97 whatever rewards earlier runs recorded.
\<close>

theorem plan_synthesis_selects_best:
  "let r = synthesize_plan_candidates now ps domain query; all = ps_selected r # ps_alternates r in
     mset (map pc_hypothesis all) =
       {#''balanced_evidence_first'', ''exploration_then_grounding'', ''verification_first'', ''fast_balanced''#} \<and>
     (\<forall>c \<in> set all. topological (steps (pc_plan c)) \<and> 4 / 10 \<le> pc_score c \<and> pc_score c \<le> 97 / 100) \<and>
     (\<forall>c \<in> set (ps_alternates r). pc_score c < pc_score (ps_selected r) \<or>
        pc_score c = pc_score (ps_selected r) \<and> pc_hypothesis (ps_selected r) \<le> pc_hypothesis c)"
proof -
  let ?cs = "map (adjust_score ps query) (plan_candidates now domain query)"
  let ?key = "\<lambda>c. (- pc_score c, pc_hypothesis c)"
  let ?r = "synthesize_plan_candidates now ps domain query"
  have ne: "sort_key ?key ?cs \<noteq> []" by (simp add: plan_candidates_def Let_def)
  then have all: "ps_selected ?r # ps_alternates ?r = sort_key ?key ?cs"
    by (simp add: synthesize_plan_candidates_def Let_def)
  have "sorted (map ?key (ps_selected ?r # ps_alternates ?r))" unfolding all by (rule sorted_sort_key)
  then have best: "\<forall>c \<in> set (ps_alternates ?r). ?key (ps_selected ?r) \<le> ?key c" by simp
  have "mset (map pc_hypothesis (sort_key ?key ?cs)) = mset (map pc_hypothesis (plan_candidates now domain query))"
    by (simp add: image_mset.compositionality comp_def)
  then have hyps: "mset (map pc_hypothesis (ps_selected ?r # ps_alternates ?r)) =
      {#''balanced_evidence_first'', ''exploration_then_grounding'', ''verification_first'', ''fast_balanced''#}"
    unfolding all by (simp add: plan_candidates_def Let_def)
  have "\<forall>c \<in> set (ps_selected ?r # ps_alternates ?r). topological (steps (pc_plan c)) \<and> 4 / 10 \<le> pc_score c \<and> pc_score c \<le> 97 / 100"
    unfolding all using candidate_plans_topological adjust_score_range by auto
  with hyps best show ?thesis by (auto simp: Let_def)
qed

theorem plan_synthesis_selects_best_witness:
  "pc_score (hd (ps_alternates (synthesize_plan_candidates 5 [] ''medicine'' ''quick overview of sleep'')))
     \<le> pc_score (ps_selected (synthesize_plan_candidates 5 [] ''medicine'' ''quick overview of sleep''))"
proof -
  define r where "r = synthesize_plan_candidates 5 [] ''medicine'' ''quick overview of sleep''"
  note best = plan_synthesis_selects_best [of 5 "[]" "''medicine''" "''quick overview of sleep''", folded r_def]
  then have "mset (map pc_hypothesis (ps_selected r # ps_alternates r)) =
      {#''balanced_evidence_first'', ''exploration_then_grounding'', ''verification_first'', ''fast_balanced''#}"
    by (simp add: Let_def)
  from arg_cong [OF this, of size] have "ps_alternates r \<noteq> []" by auto
  then have "hd (ps_alternates r) \<in> set (ps_alternates r)" by simp
  with best have "pc_score (hd (ps_alternates r)) \<le> pc_score (ps_selected r)" by (fastforce simp: Let_def)
  then show ?thesis by (simp add: r_def)
qed

end
