(* ===== verification/ExecutionService.thy ===== *)
theory ExecutionService
  imports TtlStore Planner ExecutorProps
begin

text \<open>
  The durable execution service (\<open>orchestrator/internal/wisdev/execution_service.go\<close>,
  \<open>execution_terminal_payload.go:applyExecutionTerminalPayloadProgress\<close>): how the events of a run
  are applied to the session, how a client's stream follows the journal, and the registry of runs
  that \<open>Start\<close>, \<open>Cancel\<close>, \<open>Abandon\<close> and the end of a run maintain. Logging, the webhook sink and the
  keep-alive ticker are left out. The session store is the contents of the store and the error its
  next \<open>Put\<close> gives; \<open>fix\<close> and \<open>params\<close> are the parameters of theory Planner.
\<close>

section \<open>Applying events to a session\<close>

fun digit_value :: "char \<Rightarrow> int option" where
  "digit_value c = (let n = of_char c :: nat in if 48 \<le> n \<and> n \<le> 57 then Some (int n - 48) else None)"

fun digits_value :: "int \<Rightarrow> string \<Rightarrow> int option" where
  "digits_value acc [] = Some acc"
| "digits_value acc (c # s) = (case digit_value c of None \<Rightarrow> None | Some d \<Rightarrow> digits_value (10 * acc + d) s)"

definition atoi :: "string \<Rightarrow> int option" where
  "atoi s =
     (let (neg, ds) = (case s of c # r \<Rightarrow> if c = CHR ''-'' then (True, r) else if c = CHR ''+'' then (False, r) else (False, s)
                               | [] \<Rightarrow> (False, []));
          v = (if ds = [] then None else digits_value 0 ds)
      in case v of None \<Rightarrow> None
         | Some k \<Rightarrow> let k = (if neg then - k else k) in if in_i64 k then Some k else None)"

definition int_from_any :: "json option \<Rightarrow> int" where
  "int_from_any v =
     (case v of Some (JNum x) \<Rightarrow> (if x < 0 then - \<lfloor>- x\<rfloor> else \<lfloor>x\<rfloor>)
      | Some (JStr s) \<Rightarrow> (case atoi (trim_space s) of Some k \<Rightarrow> k | None \<Rightarrow> 0)
      | _ \<Rightarrow> 0)"

lemma int_from_any_jint [simp]: "int_from_any (Some (jint k)) = k"
  by (simp add: int_from_any_def jint_def)

lemma int_from_any_None [simp]: "int_from_any None = 0"
  by (simp add: int_from_any_def)

definition event_attempts :: "json dict \<Rightarrow> int" where
  "event_attempts p =
     (let a = int_from_any (dict_get p ''attempts'') in
      if a = 0 then int_from_any (dict_get p ''attempt'') else a)"

definition apply_plan_progress :: "plan_event \<Rightarrow> plan_state \<Rightarrow> plan_state" where
  "apply_plan_progress e p =
     (if trim_space (ev_step_id e) = '''' then p
      else
        (let sid = ev_step_id e; a = event_attempts (ev_payload e);
             p = (if dict_get_or 0 (step_attempts p) sid < a then p\<lparr>step_attempts := dict_set sid a (step_attempts p)\<rparr> else p);
             p = (if 0 < ev_confidence e then p\<lparr>step_confidences := dict_set sid (ev_confidence e) (step_confidences p)\<rparr> else p)
         in case ev_type e of
              EventStepCompleted \<Rightarrow>
                p\<lparr>completed_ids := dict_set sid True (completed_ids p), failed_ids := dict_del sid (failed_ids p)\<rparr>
            | EventStepFailed \<Rightarrow>
                p\<lparr>failed_ids := dict_set sid (if trim_space (ev_message e) \<noteq> '''' then ev_message e else ''step failed'') (failed_ids p),
                  step_failure_count := dict_set sid (dict_get_or 0 (step_failure_count p) sid + 1) (step_failure_count p),
                  completed_ids := dict_del sid (completed_ids p)\<rparr>
            | _ \<Rightarrow> p))"

text \<open>\<open>sprint\<close> is \<open>fmt.Sprint\<close> on values other than strings.\<close>

definition to_string_slice :: "(json \<Rightarrow> string) \<Rightarrow> json option \<Rightarrow> string list" where
  "to_string_slice sprint v =
     (case v of
        Some (JArr xs) \<Rightarrow>
          filter (\<lambda>t. t \<noteq> '''') (map (\<lambda>x. trim_space (case x of JStr s \<Rightarrow> s | _ \<Rightarrow> sprint x)) xs)
      | _ \<Rightarrow> [])"

definition terminal_completed :: "string \<Rightarrow> plan_state \<Rightarrow> plan_state" where
  "terminal_completed raw p =
     (let sid = trim_space raw in
      if sid = '''' then p
      else p\<lparr>completed_ids := dict_set sid True (completed_ids p), failed_ids := dict_del sid (failed_ids p)\<rparr>)"

definition terminal_failed :: "string \<Rightarrow> plan_state \<Rightarrow> plan_state" where
  "terminal_failed raw p =
     (let sid = trim_space raw in
      if sid = '''' then p
      else (let p = (if trim_space (dict_get_or '''' (failed_ids p) sid) = ''''
                     then p\<lparr>failed_ids := dict_set sid ''step failed before terminal event'' (failed_ids p)\<rparr> else p)
            in p\<lparr>completed_ids := dict_del sid (completed_ids p)\<rparr>))"

definition apply_terminal_progress :: "(json \<Rightarrow> string) \<Rightarrow> json dict \<Rightarrow> plan_state \<Rightarrow> plan_state" where
  "apply_terminal_progress sprint payload p =
     fold terminal_failed (to_string_slice sprint (dict_get payload ''failedStepIds''))
       (fold terminal_completed (to_string_slice sprint (dict_get payload ''completedStepIds'')) p)"

definition apply_event_status :: "(json \<Rightarrow> string) \<Rightarrow> int \<Rightarrow> plan_event \<Rightarrow> agent_session \<Rightarrow> agent_session" where
  "apply_event_status sprint now e s =
     (let s = map_plan (apply_plan_progress e) s;
          s = (case ev_type e of
                 EventCompleted \<Rightarrow>
                   (map_plan (apply_terminal_progress sprint (ev_payload e)) s)\<lparr>session_status := SessionComplete\<rparr>
               | EventStepFailed \<Rightarrow> s\<lparr>session_status := SessionFailed\<rparr>
               | EventPlanCancelled \<Rightarrow> s\<lparr>session_status := StatusAbandoned\<rparr>
               | EventConfirmationNeed \<Rightarrow> s\<lparr>session_status := SessionPaused\<rparr>
               | _ \<Rightarrow> s)
      in s\<lparr>updated_at := now\<rparr>)"

definition replay_events :: "(json \<Rightarrow> string) \<Rightarrow> int \<Rightarrow> plan_event list \<Rightarrow> agent_session \<Rightarrow> agent_session" where
  "replay_events sprint now es s = fold (apply_event_status sprint now) es s"

subsection \<open>The events tell the progress\<close>

text \<open>The session of the plan executor and one kept by a reader of its events agree on the steps.\<close>

definition same_progress :: "agent_session \<Rightarrow> agent_session \<Rightarrow> bool" where
  "same_progress s u \<longleftrightarrow> planned s \<and> planned u \<and> (\<forall>d. finished s d = finished u d \<and> failure s d = failure u d)"

lemma apply_event_planned [simp]: "planned (apply_event_status sprint now e s) = planned s"
  by (cases "ev_type e") (simp_all add: apply_event_status_def Let_def planned_def map_plan_def)

lemma plan_apply_event:
  "planned s \<Longrightarrow> ev_type e \<noteq> EventCompleted \<Longrightarrow>
     plan_of (apply_event_status sprint now e s) = apply_plan_progress e (plan_of s)"
  by (cases "ev_type e") (auto simp: apply_event_status_def Let_def plan_of_def map_plan_def planned_def)

text \<open>How an event with a step id changes what a reader takes for finished and failed.\<close>

lemma apply_event_progress:
  assumes "planned u" and "ev_type e \<noteq> EventCompleted"
  shows "ev_type e \<noteq> EventStepCompleted \<and> ev_type e \<noteq> EventStepFailed \<Longrightarrow>
           finished (apply_event_status sp now e u) d = finished u d \<and> failure (apply_event_status sp now e u) d = failure u d"
    "ev_type e = EventStepCompleted \<Longrightarrow> trim_space (ev_step_id e) \<noteq> '''' \<Longrightarrow>
       (finished (apply_event_status sp now e u) d \<longleftrightarrow> finished u d \<or> d = ev_step_id e) \<and>
       failure (apply_event_status sp now e u) d = (if d = ev_step_id e then '''' else failure u d)"
    "ev_type e = EventStepFailed \<Longrightarrow> trim_space (ev_step_id e) \<noteq> '''' \<Longrightarrow> trim_space (ev_message e) \<noteq> '''' \<Longrightarrow>
       (finished (apply_event_status sp now e u) d \<longleftrightarrow> finished u d \<and> d \<noteq> ev_step_id e) \<and>
       failure (apply_event_status sp now e u) d = (if d = ev_step_id e then ev_message e else failure u d)"
  using assms
  by (cases "ev_type e"; simp add: finished_def failure_def plan_apply_event apply_plan_progress_def Let_def)+

lemma replay_Nil [simp]: "replay_events sp now [] s = s"
  and replay_Cons [simp]: "replay_events sp now (e # es) s = replay_events sp now es (apply_event_status sp now e s)"
  and replay_append [simp]: "replay_events sp now (es @ fs) s = replay_events sp now fs (replay_events sp now es s)"
  by (simp_all add: replay_events_def)

lemma replay_papers:
  assumes "planned u" and "\<forall>e \<in> set es. ev_type e = EventPaperFound"
  shows "same_progress (replay_events sp now es u) u"
  using assms
proof (induction es arbitrary: u)
  case (Cons e es)
  then have "same_progress (replay_events sp now es (apply_event_status sp now e u)) (apply_event_status sp now e u)" by simp
  with Cons.prems show ?case by (simp add: same_progress_def apply_event_progress)
qed (simp add: same_progress_def)

lemma paper_event_types: "\<forall>e \<in> set (paper_events s r). ev_type e = EventPaperFound"
  by (auto simp: paper_events_def)

lemma replay_success:
  assumes "planned u" and "trim_space (step_id (sr_step r)) \<noteq> ''''"
  shows "planned (replay_events sp now (success_events s r) u)"
    "finished (replay_events sp now (success_events s r) u) d \<longleftrightarrow> finished u d \<or> d = step_id (sr_step r)"
    "failure (replay_events sp now (success_events s r) u) d = (if d = step_id (sr_step r) then '''' else failure u d)"
proof -
  let ?v = "replay_events sp now (paper_events s r) u"
  have v: "planned ?v" "finished ?v d = finished u d" "failure ?v d = failure u d" for d
    using replay_papers [OF assms(1) paper_event_types, of sp now s r] by (simp_all add: same_progress_def)
  have "ev_type e = EventStepCompleted \<Longrightarrow> ev_step_id e = step_id (sr_step r) \<Longrightarrow>
      planned (apply_event_status sp now e ?v) \<and>
      (finished (apply_event_status sp now e ?v) d \<longleftrightarrow> finished u d \<or> d = step_id (sr_step r)) \<and>
      failure (apply_event_status sp now e ?v) d = (if d = step_id (sr_step r) then '''' else failure u d)" for e
    using apply_event_progress(2) [OF v(1), of e sp now d] assms(2) v by simp
  then show "planned (replay_events sp now (success_events s r) u)"
    "finished (replay_events sp now (success_events s r) u) d \<longleftrightarrow> finished u d \<or> d = step_id (sr_step r)"
    "failure (replay_events sp now (success_events s r) u) d = (if d = step_id (sr_step r) then '''' else failure u d)"
    using v(1) by (simp_all add: success_events_def)
qed

lemma replay_failure:
  assumes "planned u" and "trim_space (step_id (sr_step r)) \<noteq> ''''" and "trim_space (err_text err) \<noteq> ''''"
  shows "planned (replay_events sp now (failure_events s r err) u)"
    "finished (replay_events sp now (failure_events s r err) u) d \<longleftrightarrow> finished u d \<and> d \<noteq> step_id (sr_step r)"
    "failure (replay_events sp now (failure_events s r err) u) d = (if d = step_id (sr_step r) then err_text err else failure u d)"
proof -
  let ?v = "replay_events sp now (paper_events s r) u"
  have v: "planned ?v" "finished ?v d = finished u d" "failure ?v d = failure u d" for d
    using replay_papers [OF assms(1) paper_event_types, of sp now s r] by (simp_all add: same_progress_def)
  have "ev_type e = EventStepFailed \<Longrightarrow> ev_step_id e = step_id (sr_step r) \<Longrightarrow> ev_message e = err_text err \<Longrightarrow>
      planned (apply_event_status sp now e ?v) \<and>
      (finished (apply_event_status sp now e ?v) d \<longleftrightarrow> finished u d \<and> d \<noteq> step_id (sr_step r)) \<and>
      failure (apply_event_status sp now e ?v) d = (if d = step_id (sr_step r) then err_text err else failure u d)" for e
    using apply_event_progress(3) [OF v(1), of e sp now d] assms(2,3) v by simp
  then show "planned (replay_events sp now (failure_events s r err) u)"
    "finished (replay_events sp now (failure_events s r err) u) d \<longleftrightarrow> finished u d \<and> d \<noteq> step_id (sr_step r)"
    "failure (replay_events sp now (failure_events s r err) u) d = (if d = step_id (sr_step r) then err_text err else failure u d)"
    using v(1) by (simp_all add: failure_events_def)
qed

definition replayable :: "agent_session \<Rightarrow> step_result list \<Rightarrow> bool" where
  "replayable s rs \<longleftrightarrow> distinct (map (step_id \<circ> sr_step) rs) \<and>
     (\<forall>r \<in> set rs. trim_space (step_id (sr_step r)) \<noteq> '''' \<and> \<not> is_step_terminal (plan_of s) (step_id (sr_step r)) \<and>
        (\<forall>e. sr_err r = Some e \<longrightarrow> trim_space (err_text e) \<noteq> ''''))"

lemma absorb_replays:
  assumes "absorb_results env n s rs = (t, es, ocs, stopped)" and "same_progress s u" and "replayable s rs"
  shows "same_progress t (replay_events sp now es u)"
  using assms
proof (induction rs arbitrary: s u es ocs)
  case Nil
  then show ?case by simp
next
  case (Cons r rs)
  have pl: "planned s" "planned u" using Cons.prems(2) by (auto simp: same_progress_def)
  let ?id = "step_id (sr_step r)"
  have id: "trim_space ?id \<noteq> []" "\<not> finished s ?id" "failure s ?id = []"
    using Cons.prems(3) by (auto simp: replayable_def is_step_terminal_iff)
  have d: "\<forall>x \<in> set rs. step_id (sr_step x) \<noteq> ?id"
  proof (intro ballI notI)
    fix x assume "x \<in> set rs" "step_id (sr_step x) = ?id"
    then have "(step_id \<circ> sr_step) r \<in> (step_id \<circ> sr_step) ` set rs" by (intro image_eqI [of _ _ x]) simp_all
    then show False using Cons.prems(3) by (simp add: replayable_def)
  qed
  show ?case
    using Cons.prems(1)
  proof (cases rule: absorb_cases)
    case Nil then show ?thesis by simp
  next
    case (Success r' rs' es' ocs')
    then have r: "r' = r" "rs' = rs" by simp_all
    let ?s = "absorb_success env n s r"
    let ?u = "replay_events sp now (success_events s r) u"
    have "same_progress ?s ?u"
      using Cons.prems(2) pl id by (simp add: same_progress_def replay_success absorb_progress)
    moreover have "replayable ?s rs"
      using Cons.prems(3) d pl by (auto simp: replayable_def is_step_terminal_iff absorb_progress)
    ultimately show ?thesis using Cons.IH [OF Success(3) [unfolded r]] Success(4) r by simp
  next
    case (Pause r' rs' e)
    then have "r' = r" by simp
    with Pause Cons.prems(2) pl show ?thesis
      using apply_event_progress(1) [OF pl(2), of "pause_event env n s r e" sp now]
      by (simp add: same_progress_def absorb_progress)
  next
    case (Failure r' rs' e es' ocs')
    then have r: "r' = r" "rs' = rs" by simp_all
    let ?s = "absorb_failure s r e"
    let ?u = "replay_events sp now (failure_events ?s r e) u"
    have text_ok: "trim_space (err_text e) \<noteq> ''''" using Cons.prems(3) Failure(2) unfolding r by (simp add: replayable_def)
    have "same_progress ?s ?u"
      using Cons.prems(2) pl id text_ok by (simp add: same_progress_def replay_failure absorb_progress)
    moreover have "replayable ?s rs"
      using Cons.prems(3) d pl by (auto simp: replayable_def is_step_terminal_iff absorb_progress)
    moreover have "absorb_results env n ?s rs = (t, es', ocs', stopped)" using Failure(4) r by simp
    ultimately show ?thesis using Cons.IH Failure(5) r by simp
  qed
qed

text \<open>
  C7. The events of a batch of results tell a reader all the progress: whoever applies them to a
  copy of the session from before the batch - successes, failures, a pause for a confirmation, in
  any order of arrival - ends with the same finished steps and the same failure reasons as the
  executor, provided the batch has each step once, none finished before, with ids and error texts
  that are not blank.
\<close>

theorem journal_replays_progress:
  assumes "session_plan s \<noteq> None" and "replayable s rs"
  shows "case absorb_results env n s rs of (t, es, ocs, stopped) \<Rightarrow>
           let u = replay_events sprint now es s
           in dict_get_or False (completed_ids (plan_of u)) d = dict_get_or False (completed_ids (plan_of t)) d \<and>
              dict_get_or '''' (failed_ids (plan_of u)) d = dict_get_or '''' (failed_ids (plan_of t)) d"
proof -
  obtain t es ocs stopped where run: "absorb_results env n s rs = (t, es, ocs, stopped)" by (metis prod_cases4)
  have "same_progress s s" using assms(1) by (simp add: same_progress_def planned_def)
  from absorb_replays [OF run this assms(2), of sprint now] show ?thesis
    by (simp add: run Let_def same_progress_def finished_def failure_def)
qed

definition example_results :: "step_result list" where
  "example_results =
     [\<lparr>sr_step = example_step ''a'' [], sr_err = None, sr_attempt = 1, sr_degraded = False, sr_lane = 1,
       sr_payload = [], sr_sources = [''p1''], sr_confidence = 1 / 2\<rparr>,
      \<lparr>sr_step = example_step ''b'' [], sr_err = Some (new_error ''timeout''), sr_attempt = 2, sr_degraded = True,
       sr_lane = 2, sr_payload = [], sr_sources = [], sr_confidence = 0\<rparr>]"

theorem journal_replays_progress_witness:
  "case absorb_results calm_env 0 (example_session '''' (new_plan_state ''p'' [])) example_results of (t, es, ocs, stopped) \<Rightarrow>
     (let u = replay_events (\<lambda>_. '''') 5 es (example_session '''' (new_plan_state ''p'' []))
      in dict_get_or '''' (failed_ids (plan_of u)) ''b'' = dict_get_or '''' (failed_ids (plan_of t)) ''b'')"
proof -
  let ?s = "example_session '''' (new_plan_state ''p'' [])"
  have "session_plan ?s \<noteq> None" by (simp add: example_session_def)
  moreover have "replayable ?s example_results"
    by (simp add: replayable_def example_results_def example_step_def example_session_def plan_of_def new_plan_state_def
        is_step_terminal_def trim_space_def is_space_def)
  ultimately show ?thesis
    using journal_replays_progress [where s = ?s and rs = example_results and env = calm_env and n = 0 and sprint = "\<lambda>_. ''''" and now = 5 and d = "''b''"]
    by (auto simp: Let_def split: prod.splits)
qed

text \<open>
  A failed step is counted twice: the executor increments the step's failure count, and the
  service, which holds the very same session, increments it again when it applies the event.
\<close>

theorem failure_counted_twice:
  assumes "session_plan s \<noteq> None" and "trim_space (step_id (sr_step r)) \<noteq> ''''"
  defines "count_of \<equiv> \<lambda>x. dict_get_or 0 (step_failure_count (plan_of x)) (step_id (sr_step r))"
  shows "count_of (absorb_failure s r e) = count_of s + 1 \<and>
         count_of (apply_event_status sprint now (List.last (failure_events (absorb_failure s r e) r e)) (absorb_failure s r e))
           = count_of s + 2"
proof -
  have pl: "planned s" using assms(1) by (simp add: planned_def)
  have one: "count_of (absorb_failure s r e) = count_of s + 1"
    using pl by (simp add: count_of_def absorb_failure_def Let_def note_attempt_def)
  let ?ev = "List.last (failure_events (absorb_failure s r e) r e)"
  have "ev_type ?ev = EventStepFailed" "ev_step_id ?ev = step_id (sr_step r)"
    by (simp_all add: failure_events_def)
  with assms(2) pl have "count_of (apply_event_status sprint now ?ev (absorb_failure s r e)) = count_of (absorb_failure s r e) + 1"
    by (simp add: count_of_def plan_apply_event apply_plan_progress_def Let_def)
  with one show ?thesis by simp
qed

theorem failure_counted_twice_witness:
  "dict_get_or 0 (step_failure_count (plan_of (apply_event_status (\<lambda>_. '''') 5
      (List.last (failure_events (absorb_failure (example_session '''' (new_plan_state ''p'' [])) (example_results ! 1) (new_error ''timeout''))
         (example_results ! 1) (new_error ''timeout'')))
      (absorb_failure (example_session '''' (new_plan_state ''p'' [])) (example_results ! 1) (new_error ''timeout''))))) ''b'' = 2"
proof -
  let ?s = "example_session '''' (new_plan_state ''p'' [])"
  have "session_plan ?s \<noteq> None" by (simp add: example_session_def)
  moreover have "step_id (sr_step (example_results ! 1)) = ''b''" by (simp add: example_results_def example_step_def)
  moreover have "trim_space ''b'' \<noteq> ''''" by (simp add: trim_space_def is_space_def)
  moreover have "dict_get_or 0 (step_failure_count (plan_of ?s)) ''b'' = 0"
    by (simp add: example_session_def plan_of_def new_plan_state_def)
  ultimately show ?thesis
    using failure_counted_twice [of ?s "example_results ! 1" "new_error ''timeout''" "\<lambda>_. ''''" 5] by simp
qed

section \<open>The registry of runs\<close>

text \<open>
  A run is a goroutine: its number, its session id and, once \<open>executeSessionRun\<close> has read it, its
  own copy of the session. \<open>dx_cancels\<close> maps a session id to the run whose context its registered
  cancel function cancels; \<open>dx_cancelled\<close> are the runs whose context is cancelled.
\<close>

record service_run =
  rn_id :: nat
  rn_sid :: string
  rn_session :: "agent_session option"

record durable_service =
  dx_store :: "agent_session dict"
  dx_cancels :: "nat dict"
  dx_runs :: "service_run list"
  dx_cancelled :: "nat list"
  dx_next :: nat

record gateway_env =
  ge_fix :: "string \<Rightarrow> string"
  ge_params :: "agent_session \<Rightarrow> json dict"
  ge_put_err :: "go_error option"
  ge_now :: int
  ge_sprint :: "json \<Rightarrow> string"

record start_result =
  st_session_id :: string
  st_status :: session_status
  st_already_running :: bool

definition new_durable_service :: "agent_session dict \<Rightarrow> durable_service" where
  "new_durable_service store = \<lparr>dx_store = store, dx_cancels = [], dx_runs = [], dx_cancelled = [], dx_next = 0\<rparr>"

definition is_active :: "string \<Rightarrow> durable_service \<Rightarrow> bool" where
  "is_active sid sv \<longleftrightarrow> dict_get (dx_cancels sv) (trim_space sid) \<noteq> None"

definition dx_get :: "string \<Rightarrow> durable_service \<Rightarrow> go_error + agent_session" where
  "dx_get sid sv = (case dict_get (dx_store sv) sid of None \<Rightarrow> Inl err_session_not_found | Some s \<Rightarrow> Inr s)"

definition dx_put :: "gateway_env \<Rightarrow> agent_session \<Rightarrow> durable_service \<Rightarrow> durable_service" where
  "dx_put env s sv =
     (if ge_put_err env = None then sv\<lparr>dx_store := dict_set (session_id s) s (dx_store sv)\<rparr> else sv)"

text \<open>
  What \<open>Start\<close> and \<open>executeSessionRun\<close> both do first: read the session, require a query, give it a
  plan and move it on from questioning.
\<close>

definition load_session :: "gateway_env \<Rightarrow> string \<Rightarrow> durable_service \<Rightarrow> durable_service \<times> (go_error + agent_session)" where
  "load_session env sid sv =
     (case dx_get sid sv of
        Inl e \<Rightarrow> (sv, Inl e)
      | Inr s \<Rightarrow>
          if trim_space (resolve_session_search_query (ge_fix env) s) = ''''
          then (sv, Inl (new_error ''session query is required''))
          else if session_plan s = None \<and> ge_put_err env \<noteq> None then (sv, Inl (the (ge_put_err env)))
          else
            (let planned_s = s\<lparr>session_plan := Some (build_default_plan (ge_fix env) (ge_params env) s)\<rparr>;
                 (s, sv) = (if session_plan s = None then (planned_s, dx_put env planned_s sv) else (s, sv))
             in case prepare_session_for_execution (ge_now env) (ge_put_err env) s of
                  (s', Some e) \<Rightarrow> (sv, Inl e)
                | (s', None) \<Rightarrow> (if session_status s = SessionQuestioning then dx_put env s' sv else sv, Inr s')))"

definition dx_start :: "gateway_env \<Rightarrow> string \<Rightarrow> durable_service \<Rightarrow> durable_service \<times> (go_error + start_result)" where
  "dx_start env raw sv =
     (let sid = trim_space raw in
      if sid = '''' then (sv, Inl (new_error ''sessionId is required''))
      else (case load_session env sid sv of
              (sv, Inl e) \<Rightarrow> (sv, Inl e)
            | (sv, Inr s) \<Rightarrow>
                if dict_get (dx_cancels sv) sid \<noteq> None
                then (sv, Inr \<lparr>st_session_id = sid, st_status = session_status s, st_already_running = True\<rparr>)
                else (sv\<lparr>dx_cancels := dict_set sid (dx_next sv) (dx_cancels sv),
                         dx_runs := dx_runs sv @ [\<lparr>rn_id = dx_next sv, rn_sid = sid, rn_session = None\<rparr>],
                         dx_next := Suc (dx_next sv)\<rparr>,
                      Inr \<lparr>st_session_id = sid, st_status = session_status s, st_already_running = False\<rparr>)))"

definition find_run :: "nat \<Rightarrow> durable_service \<Rightarrow> service_run option" where
  "find_run r sv = List.find (\<lambda>x. rn_id x = r) (dx_runs sv)"

definition set_run_session :: "nat \<Rightarrow> agent_session \<Rightarrow> durable_service \<Rightarrow> durable_service" where
  "set_run_session r s sv =
     sv\<lparr>dx_runs := map (\<lambda>x. if rn_id x = r then x\<lparr>rn_session := Some s\<rparr> else x) (dx_runs sv)\<rparr>"

text \<open>The end of \<open>run\<close>: a failure that is not a cancellation is persisted, then the deferred deletion.\<close>

definition run_end :: "gateway_env \<Rightarrow> nat \<Rightarrow> bool \<Rightarrow> durable_service \<Rightarrow> durable_service" where
  "run_end env r failed sv =
     (case find_run r sv of
        None \<Rightarrow> sv
      | Some x \<Rightarrow>
          (let sv = (if failed \<and> r \<notin> set (dx_cancelled sv)
                     then (case dx_get (rn_sid x) sv of
                             Inl e \<Rightarrow> sv
                           | Inr s \<Rightarrow> dx_put env (s\<lparr>session_status := SessionFailed, updated_at := ge_now env\<rparr>) sv)
                     else sv)
           in sv\<lparr>dx_cancels := dict_del (rn_sid x) (dx_cancels sv),
                 dx_runs := filter (\<lambda>y. rn_id y \<noteq> r) (dx_runs sv)\<rparr>))"

definition run_load :: "gateway_env \<Rightarrow> nat \<Rightarrow> durable_service \<Rightarrow> durable_service" where
  "run_load env r sv =
     (case find_run r sv of
        None \<Rightarrow> sv
      | Some x \<Rightarrow>
          if rn_session x \<noteq> None then sv
          else
          (case load_session env (rn_sid x) sv of
             (sv, Inl e) \<Rightarrow> run_end env r True sv
           | (sv, Inr s) \<Rightarrow> set_run_session r s sv))"

text \<open>One event of a run: applied to the run's session, which is put back; a failing put ends the run.\<close>

definition run_event :: "gateway_env \<Rightarrow> nat \<Rightarrow> plan_event \<Rightarrow> durable_service \<Rightarrow> durable_service" where
  "run_event env r e sv =
     (case find_run r sv of
        None \<Rightarrow> sv
      | Some x \<Rightarrow>
          (case rn_session x of
             None \<Rightarrow> sv
           | Some s \<Rightarrow>
               (let s = apply_event_status (ge_sprint env) (ge_now env) e s in
                if ge_put_err env \<noteq> None then run_end env r True (set_run_session r s sv)
                else dx_put env s (set_run_session r s sv))))"

text \<open>The event channel is closed: the session is put a last time.\<close>

definition run_finish :: "gateway_env \<Rightarrow> nat \<Rightarrow> durable_service \<Rightarrow> durable_service" where
  "run_finish env r sv =
     (case find_run r sv of
        None \<Rightarrow> sv
      | Some x \<Rightarrow>
          (case rn_session x of
             None \<Rightarrow> sv
           | Some s \<Rightarrow> run_end env r (ge_put_err env \<noteq> None) (dx_put env s sv)))"

definition stop_active :: "string \<Rightarrow> durable_service \<Rightarrow> durable_service" where
  "stop_active sid sv =
     (case dict_get (dx_cancels sv) sid of
        None \<Rightarrow> sv
      | Some r \<Rightarrow> sv\<lparr>dx_cancelled := r # dx_cancelled sv, dx_cancels := dict_del sid (dx_cancels sv)\<rparr>)"

text \<open>\<open>Cancel\<close> and \<open>Abandon\<close> differ in the status they set (and the event they append to the journal).\<close>

definition stop_session :: "session_status \<Rightarrow> gateway_env \<Rightarrow> string \<Rightarrow> durable_service \<Rightarrow> durable_service \<times> go_error option" where
  "stop_session status env raw sv =
     (let sid = trim_space raw in
      if sid = '''' then (sv, Some (new_error ''sessionId is required''))
      else (case dx_get sid sv of
              Inl e \<Rightarrow> (sv, Some e)
            | Inr s \<Rightarrow> (dx_put env (s\<lparr>session_status := status, updated_at := ge_now env\<rparr>) (stop_active sid sv), ge_put_err env)))"

definition dx_cancel :: "gateway_env \<Rightarrow> string \<Rightarrow> durable_service \<Rightarrow> durable_service \<times> go_error option" where
  "dx_cancel = stop_session SessionPaused"

definition dx_abandon :: "gateway_env \<Rightarrow> string \<Rightarrow> durable_service \<Rightarrow> durable_service \<times> go_error option" where
  "dx_abandon = stop_session StatusAbandoned"

datatype service_op = OpStart string | OpCancel string | OpAbandon string | OpLoad nat | OpEvent nat plan_event
  | OpFinish nat | OpFail nat

fun service_step :: "gateway_env \<times> service_op \<Rightarrow> durable_service \<Rightarrow> durable_service" where
  "service_step (env, OpStart sid) sv = fst (dx_start env sid sv)"
| "service_step (env, OpCancel sid) sv = fst (dx_cancel env sid sv)"
| "service_step (env, OpAbandon sid) sv = fst (dx_abandon env sid sv)"
| "service_step (env, OpLoad r) sv = run_load env r sv"
| "service_step (env, OpEvent r e) sv = run_event env r e sv"
| "service_step (env, OpFinish r) sv = run_finish env r sv"
| "service_step (env, OpFail r) sv = run_end env r True sv"

definition service_run_ops :: "(gateway_env \<times> service_op) list \<Rightarrow> durable_service \<Rightarrow> durable_service" where
  "service_run_ops ops sv = fold service_step ops sv"

definition active_runs :: "string \<Rightarrow> durable_service \<Rightarrow> service_run list" where
  "active_runs sid sv = filter (\<lambda>x. rn_sid x = sid \<and> rn_id x \<notin> set (dx_cancelled sv)) (dx_runs sv)"

subsection \<open>One run per session\<close>

text \<open>
  A session is drained when none of its runs is still alive after having been cancelled; a
  sequence is drained when sessions are only started in that condition.
\<close>

definition drained :: "string \<Rightarrow> durable_service \<Rightarrow> bool" where
  "drained sid sv \<longleftrightarrow> list_all (\<lambda>x. rn_sid x = sid \<longrightarrow> rn_id x \<notin> set (dx_cancelled sv)) (dx_runs sv)"

fun drained_ops :: "(gateway_env \<times> service_op) list \<Rightarrow> durable_service \<Rightarrow> bool" where
  "drained_ops [] sv \<longleftrightarrow> True"
| "drained_ops ((env, p) # ops) sv \<longleftrightarrow>
     (case p of OpStart raw \<Rightarrow> drained (trim_space raw) sv | _ \<Rightarrow> True) \<and> drained_ops ops (service_step (env, p) sv)"

definition registry_inv :: "durable_service \<Rightarrow> bool" where
  "registry_inv sv \<longleftrightarrow>
     distinct (map rn_id (dx_runs sv)) \<and>
     (\<forall>x \<in> set (dx_runs sv). rn_id x < dx_next sv) \<and> (\<forall>r \<in> set (dx_cancelled sv). r < dx_next sv) \<and>
     (\<forall>x \<in> set (dx_runs sv). dict_get (dx_cancels sv) (rn_sid x) =
        (if rn_id x \<in> set (dx_cancelled sv) then None else Some (rn_id x))) \<and>
     (\<forall>sid r. dict_get (dx_cancels sv) sid = Some r \<longrightarrow> (\<exists>x \<in> set (dx_runs sv). rn_id x = r \<and> rn_sid x = sid))"

lemma registry_inv_init [simp]: "registry_inv (new_durable_service store)"
  by (simp add: registry_inv_def new_durable_service_def)

text \<open>The invariant is about four fields, which most operations leave alone.\<close>

definition same_registry :: "durable_service \<Rightarrow> durable_service \<Rightarrow> bool" where
  "same_registry sv sw \<longleftrightarrow> dx_cancels sw = dx_cancels sv \<and> dx_cancelled sw = dx_cancelled sv \<and> dx_next sw = dx_next sv \<and>
     map (\<lambda>x. (rn_id x, rn_sid x)) (dx_runs sw) = map (\<lambda>x. (rn_id x, rn_sid x)) (dx_runs sv)"

lemma same_registry_refl [simp]: "same_registry sv sv"
  by (simp add: same_registry_def)

lemma same_registry_put [simp]: "same_registry sv (dx_put env s sw) = same_registry sv sw"
  by (simp add: same_registry_def dx_put_def)

lemma same_registry_set [simp]: "same_registry sv (set_run_session r s sw) = same_registry sv sw"
  by (simp add: same_registry_def set_run_session_def comp_def if_distrib cong: if_cong)

lemma same_registry_load: "same_registry sv (fst (load_session env sid sv))"
  by (auto simp: load_session_def Let_def split: sum.splits prod.splits option.splits)

lemma registry_inv_pairs:
  "registry_inv sv \<longleftrightarrow>
     (let ps = map (\<lambda>x. (rn_id x, rn_sid x)) (dx_runs sv) in
      distinct (map fst ps) \<and> (\<forall>(r, sid) \<in> set ps. r < dx_next sv) \<and> (\<forall>r \<in> set (dx_cancelled sv). r < dx_next sv) \<and>
      (\<forall>(r, sid) \<in> set ps. dict_get (dx_cancels sv) sid = (if r \<in> set (dx_cancelled sv) then None else Some r)) \<and>
      (\<forall>sid r. dict_get (dx_cancels sv) sid = Some r \<longrightarrow> (r, sid) \<in> set ps))"
  by (auto simp: registry_inv_def comp_def image_iff Let_def; metis)

lemma same_registry_inv: "same_registry sv sw \<Longrightarrow> registry_inv sv \<Longrightarrow> registry_inv sw"
  by (simp add: registry_inv_pairs same_registry_def)

lemma registry_inv_put [intro]: "registry_inv sv \<Longrightarrow> registry_inv (dx_put env s sv)"
  by (rule same_registry_inv [of sv]) simp_all

lemma registry_inv_set_run [intro]: "registry_inv sv \<Longrightarrow> registry_inv (set_run_session r s sv)"
  by (rule same_registry_inv [of sv]) simp_all

lemma same_registry_drained: "same_registry sv sw \<Longrightarrow> drained sid sw = drained sid sv"
proof -
  assume "same_registry sv sw"
  then have e: "map (\<lambda>x. (rn_id x, rn_sid x)) (dx_runs sw) = map (\<lambda>x. (rn_id x, rn_sid x)) (dx_runs sv)"
    and c: "dx_cancelled sw = dx_cancelled sv" by (simp_all add: same_registry_def)
  have "drained sid v = list_all (\<lambda>(r, s). s = sid \<longrightarrow> r \<notin> set (dx_cancelled v)) (map (\<lambda>x. (rn_id x, rn_sid x)) (dx_runs v))" for v
    by (simp add: drained_def list.pred_map comp_def)
  then show ?thesis by (simp only: e c)
qed

lemma registry_register:
  assumes "registry_inv sv" and "drained sid sv" and "dict_get (dx_cancels sv) sid = None"
  shows "registry_inv (sv\<lparr>dx_cancels := dict_set sid (dx_next sv) (dx_cancels sv),
           dx_runs := dx_runs sv @ [\<lparr>rn_id = dx_next sv, rn_sid = sid, rn_session = None\<rparr>], dx_next := Suc (dx_next sv)\<rparr>)"
proof -
  have none: "rn_sid x \<noteq> sid" if "x \<in> set (dx_runs sv)" for x
    using assms that by (auto simp: registry_inv_def drained_def list_all_iff)
  show ?thesis using assms(1) none
    unfolding registry_inv_def by (auto simp: dict_get_set less_Suc_eq)
qed

lemma registry_end:
  assumes "registry_inv sv" and "x \<in> set (dx_runs sv)"
  shows "registry_inv (sv\<lparr>dx_cancels := dict_del (rn_sid x) (dx_cancels sv), dx_runs := filter (\<lambda>y. rn_id y \<noteq> rn_id x) (dx_runs sv)\<rparr>)"
proof -
  have same: "rn_id y \<in> set (dx_cancelled sv)" if "y \<in> set (dx_runs sv)" "rn_sid y = rn_sid x" "rn_id y \<noteq> rn_id x" for y
    using assms that unfolding registry_inv_def by (metis option.inject option.distinct(1))
  have uniq: "y = x" if "y \<in> set (dx_runs sv)" "rn_id y = rn_id x" for y
    using assms that unfolding registry_inv_def by (meson distinct_map inj_onD)
  have left: "\<exists>y \<in> set (dx_runs sv). rn_id y \<noteq> rn_id x \<and> rn_id y = r \<and> rn_sid y = sid"
    if "dict_get (dx_cancels sv) sid = Some r" "sid \<noteq> rn_sid x" for sid r
    using assms(1) that uniq unfolding registry_inv_def by blast
  show ?thesis using assms same left
    unfolding registry_inv_def by (simp add: dict_get_del distinct_map_filter) blast
qed

lemma registry_stop: "registry_inv sv \<Longrightarrow> registry_inv (stop_active sid sv)"
proof (cases "dict_get (dx_cancels sv) sid")
  case (Some r)
  assume inv: "registry_inv sv"
  then obtain x where x: "x \<in> set (dx_runs sv)" "rn_id x = r" "rn_sid x = sid"
    using Some unfolding registry_inv_def by blast
  have sid: "rn_id y = r" if "y \<in> set (dx_runs sv)" "rn_sid y = sid" for y
    using inv Some that unfolding registry_inv_def by (metis option.distinct(1) option.inject)
  have other: "rn_sid y = sid" if "y \<in> set (dx_runs sv)" "rn_id y = r" for y
    using inv x that unfolding registry_inv_def by (metis distinct_map inj_onD)
  have "r < dx_next sv" using inv x unfolding registry_inv_def by blast
  with inv sid other show ?thesis
    by (auto simp: stop_active_def Some registry_inv_def dict_get_del)
qed (simp add: stop_active_def)

lemma find_run_in: "find_run r sv = Some x \<Longrightarrow> x \<in> set (dx_runs sv) \<and> rn_id x = r"
  by (auto simp: find_run_def find_Some_iff)

lemma run_end_inv: "registry_inv sv \<Longrightarrow> registry_inv (run_end env r failed sv)"
proof (cases "find_run r sv")
  case (Some x)
  assume inv: "registry_inv sv"
  let ?sw = "if failed \<and> r \<notin> set (dx_cancelled sv)
             then (case dx_get (rn_sid x) sv of Inl e \<Rightarrow> sv
                   | Inr s \<Rightarrow> dx_put env (s\<lparr>session_status := SessionFailed, updated_at := ge_now env\<rparr>) sv)
             else sv"
  have same: "same_registry sv ?sw" by (simp split: sum.split)
  have runs: "dx_runs ?sw = dx_runs sv" by (simp add: dx_put_def split: sum.split)
  have "registry_inv ?sw" using same inv by (rule same_registry_inv)
  then show ?thesis
    using registry_end [of ?sw x] find_run_in [OF Some] runs by (simp add: run_end_def Some Let_def)
qed (simp add: run_end_def)

lemma service_step_inv:
  assumes "registry_inv sv" and "case p of OpStart raw \<Rightarrow> drained (trim_space raw) sv | _ \<Rightarrow> True"
  shows "registry_inv (service_step (env, p) sv)"
proof (cases p)
  case (OpStart raw)
  let ?l = "load_session env (trim_space raw) sv"
  have inv: "registry_inv (fst ?l)" using same_registry_load assms(1) by (rule same_registry_inv)
  have dr: "drained (trim_space raw) (fst ?l)"
    using assms(2) same_registry_drained [OF same_registry_load] by (simp add: OpStart)
  show ?thesis
    using inv assms(1) registry_register [OF inv dr]
    by (auto simp: OpStart dx_start_def Let_def split: prod.splits sum.splits)
next
  case (OpCancel raw)
  then show ?thesis
    using assms(1) registry_stop [OF assms(1)]
    by (auto simp: dx_cancel_def stop_session_def Let_def split: sum.split)
next
  case (OpAbandon raw)
  then show ?thesis
    using assms(1) registry_stop [OF assms(1)]
    by (auto simp: dx_abandon_def stop_session_def Let_def split: sum.split)
next
  case (OpLoad r)
  have load: "registry_inv (fst (load_session env sid sv))" for sid
    using same_registry_load assms(1) by (rule same_registry_inv)
  then have "load_session env sid sv = (sw, z) \<Longrightarrow> registry_inv sw" for sid sw z by (metis fst_conv)
  with assms(1) show ?thesis
    by (auto simp: OpLoad run_load_def run_end_inv intro: same_registry_inv
        split: option.split prod.split sum.split)
next
  case (OpEvent r e)
  have "registry_inv (set_run_session r s sv)" for s using assms(1) by (auto intro: same_registry_inv)
  with assms(1) show ?thesis
    by (auto simp: OpEvent run_event_def Let_def run_end_inv intro: same_registry_inv split: option.split)
next
  case (OpFinish r)
  then show ?thesis using assms(1) by (auto simp: run_finish_def intro!: run_end_inv split: option.split)
next
  case (OpFail r)
  then show ?thesis using assms(1) by (simp add: run_end_inv)
qed

lemma service_ops_inv:
  "registry_inv sv \<Longrightarrow> drained_ops ops sv \<Longrightarrow> registry_inv (service_run_ops ops sv)"
proof (induction ops arbitrary: sv)
  case (Cons q ops)
  obtain env p where q: "q = (env, p)" by force
  show ?case using Cons.prems service_step_inv [of sv p env] Cons.IH by (simp add: q service_run_ops_def)
qed (simp add: service_run_ops_def)

lemma inv_active_runs:
  assumes "registry_inv sv"
  shows "length (active_runs sid sv) \<le> 1 \<and> (dict_get (dx_cancels sv) sid \<noteq> None \<longleftrightarrow> active_runs sid sv \<noteq> [])"
proof -
  have d: "distinct (map rn_id (active_runs sid sv))"
    using assms by (simp add: active_runs_def registry_inv_def distinct_map_filter)
  have all: "dict_get (dx_cancels sv) sid = Some (rn_id x)" if "x \<in> set (active_runs sid sv)" for x
    using assms that by (auto simp: active_runs_def registry_inv_def)
  have "length (active_runs sid sv) \<le> 1"
  proof (rule ccontr)
    assume "\<not> ?thesis"
    then obtain x y zs where a: "active_runs sid sv = x # y # zs"
      by (cases "active_runs sid sv"; cases "tl (active_runs sid sv)") auto
    with all [of x] all [of y] have "rn_id x = rn_id y" by simp
    with d show False by (simp add: a)
  qed
  moreover have "active_runs sid sv \<noteq> []" if some: "dict_get (dx_cancels sv) sid = Some r" for r
  proof -
    obtain x where x: "x \<in> set (dx_runs sv)" "rn_id x = r" "rn_sid x = sid"
      using assms some unfolding registry_inv_def by blast
    with assms some have "rn_id x \<notin> set (dx_cancelled sv)"
      unfolding registry_inv_def by (metis option.distinct(1))
    with x show ?thesis by (auto simp: active_runs_def filter_empty_conv)
  qed
  ultimately show ?thesis
    using all by (cases "active_runs sid sv"; cases "dict_get (dx_cancels sv) sid") auto
qed

text \<open>
  C13. A session has at most one running execution, and \<open>IsActive\<close> says whether it has one, in every
  history of starts, cancellations, abandonments, events and ends of runs in which a session is
  only started again once its cancelled run has ended.
\<close>

theorem one_run_per_session:
  assumes "drained_ops ops (new_durable_service store)"
  defines "sv \<equiv> service_run_ops ops (new_durable_service store)"
  shows "length (active_runs (trim_space sid) sv) \<le> 1 \<and> (is_active sid sv \<longleftrightarrow> active_runs (trim_space sid) sv \<noteq> [])"
  using inv_active_runs [OF service_ops_inv [OF registry_inv_init assms(1)], of "trim_space sid"]
  by (simp add: sv_def is_active_def)

definition calm_gateway :: gateway_env where
  "calm_gateway = \<lparr>ge_fix = id, ge_params = (\<lambda>_. []), ge_put_err = None, ge_now = 7, ge_sprint = (\<lambda>_. '''')\<rparr>"

definition example_store :: "agent_session dict" where
  "example_store = [(''s1'', example_session '''' (new_plan_state ''p'' []))]"

theorem one_run_per_session_witness:
  "length (active_runs ''s1'' (service_run_ops
      [(calm_gateway, OpStart ''s1''), (calm_gateway, OpCancel ''s1''), (calm_gateway, OpFail 0), (calm_gateway, OpStart ''s1'')]
      (new_durable_service example_store))) \<le> 1"
proof -
  let ?ops = "[(calm_gateway, OpStart ''s1''), (calm_gateway, OpCancel ''s1''), (calm_gateway, OpFail 0), (calm_gateway, OpStart ''s1'')]"
  have "drained_ops ?ops (new_durable_service example_store)" by code_simp
  moreover have "trim_space ''s1'' = ''s1''" by (simp add: trim_space_def is_space_def)
  ultimately show ?thesis using one_run_per_session [of ?ops example_store "''s1''"] by simp
qed

text \<open>
  Without that restriction it can have two: a session is started, cancelled and started again
  before its cancelled run has ended; when that run ends, its deferred deletion removes the
  registration of its successor, \<open>IsActive\<close> is false, and a third start runs beside the second.
\<close>

theorem restart_race_doubles_run:
  "let sv = service_run_ops
       [(calm_gateway, OpStart ''s1''), (calm_gateway, OpCancel ''s1''), (calm_gateway, OpStart ''s1''),
        (calm_gateway, OpFail 0)] (new_durable_service example_store)
   in \<not> is_active ''s1'' sv \<and> length (active_runs ''s1'' sv) = 1 \<and>
      length (active_runs ''s1'' (service_run_ops [(calm_gateway, OpStart ''s1'')] sv)) = 2"
  by code_simp

section \<open>Following a run\<close>

text \<open>
  \<open>Stream\<close> polls the journal: it emits each entry once, recognised by its event id or, without one,
  by type and time, and stops when the session has a final status and no active run. A poll is the
  entries it reads, the session it gets and whether a run is active.
\<close>

record journal_entry =
  je_event_id :: string
  je_event :: plan_event
  je_created :: int

record stream_poll =
  po_entries :: "journal_entry list"
  po_session :: "agent_session option"
  po_active :: bool

fun event_type_text :: "event_type \<Rightarrow> string" where
  "event_type_text EventStepStarted = ''step_started''"
| "event_type_text EventStepCompleted = ''step_completed''"
| "event_type_text EventStepFailed = ''step_failed''"
| "event_type_text EventConfirmationNeed = ''confirmation_needed''"
| "event_type_text EventPlanRevised = ''plan_revised''"
| "event_type_text EventPaperFound = ''paper_found''"
| "event_type_text EventProgress = ''progress''"
| "event_type_text EventCompleted = ''completed''"
| "event_type_text EventPlanCancelled = ''plan_cancelled''"

definition entry_key :: "journal_entry \<Rightarrow> string" where
  "entry_key e =
     (if trim_space (je_event_id e) \<noteq> '''' then trim_space (je_event_id e)
      else event_type_text (ev_type (je_event e)) @ ''-'' @ itoa (je_created e))"

definition is_terminal_event_type :: "event_type \<Rightarrow> bool" where
  "is_terminal_event_type t \<longleftrightarrow> t \<in> {EventCompleted, EventStepFailed, EventPlanCancelled}"

definition synthetic_terminal_event :: "agent_session \<Rightarrow> plan_event" where
  "synthetic_terminal_event s =
     (let (ty, msg, status) = (case session_status s of
          SessionComplete \<Rightarrow> (EventCompleted, ''Plan completed'', ''completed'')
        | StatusAbandoned \<Rightarrow> (EventPlanCancelled, ''Plan cancelled'', ''cancelled'')
        | _ \<Rightarrow> (EventStepFailed, ''Plan failed'', ''failed''))
      in event s ty '''' msg [(''status'', JStr status), (''sessionTerminal'', JBool True), (''synthetic'', JBool True)] 0)"

fun emit_entries :: "string list \<Rightarrow> journal_entry list \<Rightarrow> string list \<times> plan_event list" where
  "emit_entries seen [] = (seen, [])"
| "emit_entries seen (e # es) =
     (if entry_key e \<in> set seen then emit_entries seen es
      else (let (seen', out) = emit_entries (entry_key e # seen) es in (seen', je_event e # out)))"

definition session_over :: "agent_session \<Rightarrow> bool" where
  "session_over s \<longleftrightarrow> session_status s \<in> {SessionComplete, SessionFailed, StatusAbandoned}"

text \<open>
  The events emitted, and whether the stream ended by itself (True) or the client left after the
  polls given.
\<close>

fun stream :: "string list \<Rightarrow> bool \<Rightarrow> stream_poll list \<Rightarrow> plan_event list \<times> bool" where
  "stream seen terminal [] = ([], False)"
| "stream seen terminal (p # ps) =
     (let (seen, out) = emit_entries seen (po_entries p);
          terminal = (terminal \<or> list_ex (\<lambda>e. is_terminal_event_type (ev_type e)) out)
      in case po_session p of
           Some s \<Rightarrow>
             if session_over s \<and> \<not> po_active p
             then (out @ (if terminal then [] else [synthetic_terminal_event s]), True)
             else (let (rest, ended) = stream seen terminal ps in (out @ rest, ended))
         | None \<Rightarrow> (let (rest, ended) = stream seen terminal ps in (out @ rest, ended)))"

lemma synthetic_terminal: "is_terminal_event_type (ev_type (synthetic_terminal_event s))"
  by (cases "session_status s") (simp_all add: synthetic_terminal_event_def is_terminal_event_type_def event_def)

lemma emit_entries_spec:
  assumes "emit_entries seen es = (seen', out)"
  shows "set seen' = set seen \<union> entry_key ` set es \<and>
         (\<forall>e \<in> set es. entry_key e \<notin> set seen \<longrightarrow> (\<exists>e' \<in> set es. entry_key e' = entry_key e \<and> je_event e' \<in> set out)) \<and>
         set out \<subseteq> je_event ` {e \<in> set es. entry_key e \<notin> set seen} \<and>
         length out = card (entry_key ` set es - set seen)"
  using assms
proof (induction seen es arbitrary: seen' out rule: emit_entries.induct)
  case (2 seen e es)
  show ?case
  proof (cases "entry_key e \<in> set seen")
    case True
    with 2 show ?thesis by (simp add: insert_absorb insert_Diff_if) blast
  next
    case False
    obtain s1 o1 where rec: "emit_entries (entry_key e # seen) es = (s1, o1)" by force
    have eq: "seen' = s1" "out = je_event e # o1" using "2.prems" False rec by simp_all
    note ih = "2.IH"(2) [OF False rec]
    have card: "card (entry_key ` set (e # es) - set seen) = Suc (card (entry_key ` set es - set (entry_key e # seen)))"
    proof -
      have "entry_key ` set (e # es) - set seen = insert (entry_key e) (entry_key ` set es - set (entry_key e # seen))"
        using False by auto
      then show ?thesis by simp
    qed
    show ?thesis
      unfolding eq using ih False card by (intro conjI) (simp, fastforce, force, simp)
  qed
qed simp

lemma stream_ended_terminal:
  assumes "stream seen terminal ps = (out, True)"
  shows "terminal \<or> (\<exists>e \<in> set out. is_terminal_event_type (ev_type e))"
  using assms
proof (induction ps arbitrary: seen terminal out)
  case (Cons p ps)
  obtain s1 o1 where emit: "emit_entries seen (po_entries p) = (s1, o1)" by force
  let ?t = "terminal \<or> list_ex (\<lambda>e. is_terminal_event_type (ev_type e)) o1"
  obtain rest ended where rec: "stream s1 ?t ps = (rest, ended)" by force
  show ?case
    using Cons.prems Cons.IH [of s1 ?t rest] rec synthetic_terminal
    by (auto simp: emit Let_def list_ex_iff split: option.splits if_splits)
qed simp

text \<open>
  A stream that ends by itself has emitted a terminal event, and it ends at the first poll that
  finds a final status and no active run; no journal entry is emitted twice: the events emitted by
  the polls before number no more than the distinct entries they read.
\<close>

theorem stream_ends_with_terminal_event:
  assumes "stream [] False ps = (out, ended)"
  shows "(ended \<longleftrightarrow> (\<exists>p \<in> set ps. \<not> po_active p \<and> (\<exists>s. po_session p = Some s \<and> session_over s))) \<and>
         (ended \<longrightarrow> (\<exists>e \<in> set out. is_terminal_event_type (ev_type e))) \<and>
         length out \<le> card (entry_key ` (\<Union>p \<in> set ps. set (po_entries p))) + 1"
proof -
  have ends: "snd (stream seen t ps) \<longleftrightarrow> (\<exists>p \<in> set ps. \<not> po_active p \<and> (\<exists>s. po_session p = Some s \<and> session_over s))" for seen t
  proof (induction ps arbitrary: seen t)
    case (Cons p ps)
    obtain s1 o1 where emit: "emit_entries seen (po_entries p) = (s1, o1)" by force
    show ?case
      using Cons.IH [of s1 "t \<or> list_ex (\<lambda>e. is_terminal_event_type (ev_type e)) o1"]
      by (auto simp: emit Let_def split: option.splits prod.splits)
  qed simp
  have len: "length (fst (stream seen t ps)) \<le> card (entry_key ` (\<Union>p \<in> set ps. set (po_entries p)) - set seen) + 1" for seen t
  proof (induction ps arbitrary: seen t)
    case (Cons p ps)
    obtain s1 o1 where emit: "emit_entries seen (po_entries p) = (s1, o1)" by force
    let ?t = "t \<or> list_ex (\<lambda>e. is_terminal_event_type (ev_type e)) o1"
    let ?K = "entry_key ` set (po_entries p)" and ?L = "entry_key ` (\<Union>p \<in> set ps. set (po_entries p))"
    note spec = emit_entries_spec [OF emit]
    have "card (?K - set seen) + card (?L - set s1) = card ((?K - set seen) \<union> (?L - set s1))"
      using spec by (intro card_Un_disjoint [symmetric]) auto
    also have "\<dots> \<le> card (entry_key ` (\<Union>p \<in> set (p # ps). set (po_entries p)) - set seen)"
      using spec by (intro card_mono) auto
    finally have "length o1 + card (?L - set s1) \<le> card (entry_key ` (\<Union>p \<in> set (p # ps). set (po_entries p)) - set seen)"
      using spec by simp
    moreover have "length (fst (stream s1 ?t ps)) \<le> card (?L - set s1) + 1" by (rule Cons.IH)
    moreover have "length (fst (stream seen t (p # ps))) \<le> length o1 + max 1 (length (fst (stream s1 ?t ps)))"
      by (auto simp: emit Let_def split: option.split prod.split)
    ultimately show ?case by linarith
  qed simp
  show ?thesis
    using ends [of "[]" False] len [of "[]" False] stream_ended_terminal [of "[]" False ps out] assms by auto
qed

theorem stream_ends_with_terminal_event_witness:
  "\<exists>e \<in> set (fst (stream [] False
      [\<lparr>po_entries = [], po_session = Some ((example_session '''' (new_plan_state '''' []))\<lparr>session_status := SessionFailed\<rparr>), po_active = True\<rparr>,
       \<lparr>po_entries = [], po_session = Some ((example_session '''' (new_plan_state '''' []))\<lparr>session_status := SessionComplete\<rparr>), po_active = False\<rparr>])).
     is_terminal_event_type (ev_type e)"
proof -
  let ?ps = "[\<lparr>po_entries = [], po_session = Some ((example_session '''' (new_plan_state '''' []))\<lparr>session_status := SessionFailed\<rparr>), po_active = True\<rparr>,
       \<lparr>po_entries = [], po_session = Some ((example_session '''' (new_plan_state '''' []))\<lparr>session_status := SessionComplete\<rparr>), po_active = False\<rparr>]"
  obtain out ended where run: "stream [] False ?ps = (out, ended)" by force
  from stream_ends_with_terminal_event [OF run] have "\<exists>e \<in> set out. is_terminal_event_type (ev_type e)"
    by (simp add: session_over_def)
  then show ?thesis by (simp only: run fst_conv)
qed

end
