(* ===== verification/SessionApi.thy ===== *)
theory SessionApi
  imports ExecutionService
begin

text \<open>
  The session endpoints of the HTTP gateway: execute, cancel, resume and abandon
  (\<open>orchestrator/internal/api/gateway.go\<close>), the ownership check
  (\<open>wisdev_route_helpers.go:requireOwnerAccess\<close>) and the expiry of a pending approval
  (\<open>wisdev_execution_batch.go:clearExpiredPendingApproval\<close>). A handler maps the gateway - the
  execution service with its session store, and the idempotency store - to the gateway after the
  request and the response. Requests are POSTs; a response is its status code with the message of
  an error or the marshalled body of a success. \<open>ae_sha\<close> is the hexadecimal SHA-256 of a string and
  \<open>ae_marshal\<close> is \<open>json.Marshal\<close>, both parameters. A handler's steps are taken without interleaving.
\<close>

section \<open>Requests, gateway, ownership\<close>

record api_env =
  ae_gateway :: gateway_env
  ae_sha :: "string \<Rightarrow> string"
  ae_marshal :: "json \<Rightarrow> string"

record api_request =
  ar_user :: string
  ar_idem :: string
  ar_idem_x :: string

record gateway =
  gw_service :: durable_service
  gw_idem :: idempotency_store

type_synonym response = "int \<times> string"

definition hash_approval_token :: "api_env \<Rightarrow> string \<Rightarrow> string" where
  "hash_approval_token env t = ae_sha env (trim_space t)"

text \<open>The message of the 403 response, None when access is granted.\<close>

definition require_owner_access :: "string \<Rightarrow> string \<Rightarrow> string option" where
  "require_owner_access user owner =
     (let owner = trim_space owner; user = trim_space user; privileged = (user = ''admin'' \<or> user = ''internal-service'') in
      if user = '''' \<or> user = ''anonymous'' then Some ''authentication required''
      else if owner = '''' \<or> owner = ''anonymous'' then
        (if privileged then None else Some ''access denied to resource'')
      else if user \<noteq> owner \<and> \<not> privileged then Some ''access denied to resource''
      else None)"

definition idempotency_key :: "api_request \<Rightarrow> string \<Rightarrow> string \<Rightarrow> string" where
  "idempotency_key req owner subject =
     (let raw = (if trim_space (ar_idem req) \<noteq> '''' then trim_space (ar_idem req) else trim_space (ar_idem_x req)) in
      if raw = '''' then ''''
      else ''POST|'' @ trim_space owner @ ''|'' @ trim_space subject @ ''|'' @ raw)"

definition now_ns :: "api_env \<Rightarrow> int" where
  "now_ns env = ge_now (ae_gateway env) * millisecond"

text \<open>What the handlers share: read the session, check the owner; answer from the idempotency store.\<close>

definition with_session ::
  "api_request \<Rightarrow> string \<Rightarrow> (agent_session \<Rightarrow> gateway \<Rightarrow> gateway \<times> response) \<Rightarrow> gateway \<Rightarrow> gateway \<times> response" where
  "with_session req sid handler gw =
     (case dx_get sid (gw_service gw) of
        Inl e \<Rightarrow> (gw, (404, ''agent session not found''))
      | Inr s \<Rightarrow>
          (case require_owner_access (ar_user req) (session_user_id s) of
             Some msg \<Rightarrow> (gw, (403, msg))
           | None \<Rightarrow> handler s gw))"

definition replay_or ::
  "api_env \<Rightarrow> string \<Rightarrow> (gateway \<Rightarrow> gateway \<times> response) \<Rightarrow> gateway \<Rightarrow> gateway \<times> response" where
  "replay_or env key handler gw =
     (let (idem, hit) = is_get (now_ns env) key (gw_idem gw); gw = gw\<lparr>gw_idem := idem\<rparr>
      in case hit of Some r \<Rightarrow> (gw, r) | None \<Rightarrow> handler gw)"

definition respond_ok :: "api_env \<Rightarrow> string \<Rightarrow> json dict \<Rightarrow> gateway \<Rightarrow> gateway \<times> response" where
  "respond_ok env key body gw =
     (let text = ae_marshal env (JObj body)
      in (gw\<lparr>gw_idem := is_put (now_ns env) key 200 (Some text) (gw_idem gw)\<rparr>, (200, text)))"

definition start_error_response :: "go_error \<Rightarrow> string \<Rightarrow> response" where
  "start_error_response e operation =
     (if contains (to_lower (trim_space (err_text e))) ''query is required'' then (400, err_text e)
      else (500, operation))"

section \<open>Execute, cancel, abandon\<close>

definition handle_execute_session :: "api_env \<Rightarrow> api_request \<Rightarrow> string \<Rightarrow> gateway \<Rightarrow> gateway \<times> response" where
  "handle_execute_session env req sid =
     with_session req sid (\<lambda>s. let key = idempotency_key req (session_user_id s) sid in
       replay_or env key (\<lambda>gw.
         case dx_start (ae_gateway env) sid (gw_service gw) of
           (sv, Inl e) \<Rightarrow> (gw\<lparr>gw_service := sv\<rparr>, start_error_response e ''failed to start agent session execution'')
         | (sv, Inr r) \<Rightarrow>
             respond_ok env key
               [(''ok'', JBool True), (''sessionId'', JStr (st_session_id r)), (''status'', JStr (status_text (st_status r))),
                (''executionId'', JStr (st_session_id r)), (''alreadyRunning'', JBool (st_already_running r))]
               (gw\<lparr>gw_service := sv\<rparr>)))"

definition handle_cancel_session :: "api_env \<Rightarrow> api_request \<Rightarrow> string \<Rightarrow> gateway \<Rightarrow> gateway \<times> response" where
  "handle_cancel_session env req sid =
     with_session req sid (\<lambda>s. let key = idempotency_key req (session_user_id s) sid in
       replay_or env key (\<lambda>gw.
         case dx_cancel (ae_gateway env) sid (gw_service gw) of
           (sv, Some e) \<Rightarrow> (gw\<lparr>gw_service := sv\<rparr>, (500, ''failed to persist session''))
         | (sv, None) \<Rightarrow>
             respond_ok env key
               [(''ok'', JBool True), (''sessionId'', JStr sid), (''status'', JStr (status_text SessionPaused))]
               (gw\<lparr>gw_service := sv\<rparr>)))"

definition handle_abandon_session :: "api_env \<Rightarrow> api_request \<Rightarrow> string \<Rightarrow> gateway \<Rightarrow> gateway \<times> response" where
  "handle_abandon_session env req sid =
     with_session req sid (\<lambda>s gw.
       case dx_abandon (ae_gateway env) sid (gw_service gw) of
         (sv, Some e) \<Rightarrow> (gw\<lparr>gw_service := sv\<rparr>, (500, ''failed to abandon session''))
       | (sv, None) \<Rightarrow>
           (let status = (case dx_get sid sv of Inr s \<Rightarrow> session_status s | Inl e \<Rightarrow> StatusAbandoned)
            in (gw\<lparr>gw_service := sv\<rparr>, (200, ae_marshal env (JObj
                  [(''ok'', JBool True), (''sessionId'', JStr sid), (''status'', JStr (status_text status))])))))"

section \<open>Resume\<close>

record resume_request =
  rr_checkpoint_id :: string
  rr_approval_token :: string
  rr_action :: string

definition request_token :: "resume_request \<Rightarrow> string" where
  "request_token r = (if trim_space (rr_approval_token r) \<noteq> '''' then trim_space (rr_approval_token r)
                      else trim_space (rr_checkpoint_id r))"

definition request_action :: "resume_request \<Rightarrow> string" where
  "request_action r =
     (let a = canonicalize_confirmation_action (rr_action r) in if a = '''' then ''approve'' else a)"

definition clear_pending :: "plan_state \<Rightarrow> plan_state" where
  "clear_pending p =
     p\<lparr>pending_approval_id := '''', pending_approval_token_hash := '''', pending_approval_step_id := '''',
       pending_approval_expires_at := 0\<rparr>"

text \<open>\<open>clearExpiredPendingApproval\<close>: the session afterwards and whether it was cleared (and put).\<close>

definition clear_expired_pending_approval :: "int \<Rightarrow> agent_session \<Rightarrow> agent_session \<times> bool" where
  "clear_expired_pending_approval now s =
     (case session_plan s of
        None \<Rightarrow> (s, False)
      | Some p \<Rightarrow>
          if trim_space (pending_approval_id p) = '''' then (s, False)
          else if pending_approval_expires_at p \<le> 0 \<or> now \<le> pending_approval_expires_at p then (s, False)
          else (s\<lparr>session_plan := Some (clear_pending p), updated_at := now\<rparr>, True))"

text \<open>The confirmed, skipped or rejected step, when the action is one of the three.\<close>

definition apply_resume_action :: "string \<Rightarrow> plan_state \<Rightarrow> response + plan_state" where
  "apply_resume_action act p =
     (let sid = trim_space (pending_approval_step_id p) in
      if act = ''approve'' then
        Inr (if sid \<noteq> '''' then p\<lparr>approved_ids := dict_set sid True (approved_ids p)\<rparr> else p)
      else if act = ''skip'' then
        Inr (if sid \<noteq> '''' then p\<lparr>completed_ids := dict_set sid True (completed_ids p)\<rparr> else p)
      else if act = ''reject_and_replan'' then
        Inr (if sid \<noteq> '''' then p\<lparr>failed_ids := dict_set sid ''human_rejected_replan'' (failed_ids p)\<rparr> else p)
      else if act = ''edit_payload'' then
        Inl (400, ''edit_payload resume action is not supported by this endpoint yet'')
      else Inl (400, ''unsupported resume action''))"

definition confirm_pending :: "api_env \<Rightarrow> resume_request \<Rightarrow> plan_state \<Rightarrow> response + plan_state" where
  "confirm_pending env r p =
     (let token = request_token r in
      if trim_space (pending_approval_id p) \<noteq> '''' then
        (if token = '''' then Inl (409, ''approval token is required to resume this session'')
         else if hash_approval_token env token \<noteq> pending_approval_token_hash p
         then Inl (409, ''approval token does not match the pending confirmation'')
         else (case apply_resume_action (request_action r) p of
                 Inl e \<Rightarrow> Inl e
               | Inr p \<Rightarrow> Inr (clear_pending p)))
      else if token \<noteq> '''' then Inl (409, ''approval token replayed without a pending confirmation'')
      else Inr p)"

definition approval_expired :: "api_env \<Rightarrow> plan_state \<Rightarrow> bool" where
  "approval_expired env p \<longleftrightarrow> trim_space (pending_approval_id p) \<noteq> '''' \<and> 0 < pending_approval_expires_at p \<and>
     pending_approval_expires_at p < ge_now (ae_gateway env)"

definition handle_resume_session ::
  "api_env \<Rightarrow> api_request \<Rightarrow> resume_request option \<Rightarrow> string \<Rightarrow> gateway \<Rightarrow> gateway \<times> response" where
  "handle_resume_session env req body sid =
     with_session req sid (\<lambda>s0 gw.
       let g = ae_gateway env; now = ge_now g; key = idempotency_key req (session_user_id s0) sid in
       if resolve_session_search_query (ge_fix g) s0 = '''' then (gw, (400, ''session query is required''))
       else replay_or env key (\<lambda>gw.
         let p = (case session_plan s0 of None \<Rightarrow> build_default_plan (ge_fix g) (ge_params g) s0 | Some p \<Rightarrow> p);
             s = s0\<lparr>session_plan := Some p\<rparr>;
             put = (\<lambda>s gw. gw\<lparr>gw_service := dx_put g s (gw_service gw)\<rparr>)
         in case body of
              None \<Rightarrow> (gw, (400, ''invalid body''))
            | Some r \<Rightarrow>
                if approval_expired env p then
                  (if ge_put_err g \<noteq> None then (gw, (500, ''failed to persist session''))
                   else (put (fst (clear_expired_pending_approval now s)) gw, (409, ''approval token has expired'')))
                else (case confirm_pending env r p of
                   Inl e \<Rightarrow> (gw, e)
                 | Inr p \<Rightarrow>
                     (let s = s\<lparr>session_plan := Some p, session_status := SessionExecutingPlan, updated_at := now\<rparr> in
                      if ge_put_err g \<noteq> None then (gw, (500, ''failed to persist session''))
                      else
                        (let gw = put s gw in
                         case dx_start g sid (gw_service gw) of
                           (sv, Inl e) \<Rightarrow>
                             (put s0 (gw\<lparr>gw_service := sv\<rparr>), start_error_response e ''failed to resume agent session execution'')
                         | (sv, Inr started) \<Rightarrow>
                             respond_ok env key
                               [(''ok'', JBool True), (''sessionId'', JStr sid), (''status'', JStr (status_text (st_status started))),
                                (''action'', JStr (request_action r))]
                               (gw\<lparr>gw_service := sv\<rparr>))))) gw)"

section \<open>Properties\<close>

text \<open>The store files every session under its own id.\<close>

definition keyed :: "agent_session dict \<Rightarrow> bool" where
  "keyed d \<longleftrightarrow> list_all (\<lambda>(k, s). session_id s = k) d"

lemma keyed_get: "keyed d \<Longrightarrow> dict_get d k = Some s \<Longrightarrow> session_id s = k"
  by (auto simp: keyed_def list_all_iff dest!: map_of_SomeD)

lemma dx_get_iff [simp]: "dx_get sid sv = Inr s \<longleftrightarrow> dict_get (dx_store sv) sid = Some s"
  by (simp add: dx_get_def split: option.split)

definition approves :: "agent_session option \<Rightarrow> string \<Rightarrow> bool" where
  "approves x d \<longleftrightarrow>
     (case x of None \<Rightarrow> False
      | Some s \<Rightarrow> (case session_plan s of None \<Rightarrow> False | Some p \<Rightarrow> dict_get_or False (approved_ids p) d))"

definition stored :: "string \<Rightarrow> gateway \<Rightarrow> agent_session option" where
  "stored sid gw = dict_get (dx_store (gw_service gw)) sid"

lemma dx_put_store:
  "dict_get (dx_store (dx_put g s sv)) k = (if ge_put_err g = None \<and> k = session_id s then Some s else dict_get (dx_store sv) k)"
  by (simp add: dx_put_def dict_get_set)

lemma default_plan_approves_nothing [simp]: "approved_ids (build_default_plan fix params s) = []"
  by (simp add: build_default_plan_def build_guided_orchestration_plan_def new_plan_state_def Let_def)

lemma prepare_keeps: "prepare_session_for_execution now e s = (s', x) \<Longrightarrow> session_id s' = session_id s \<and> session_plan s' = session_plan s"
  by (auto simp: prepare_session_for_execution_def transition_session_status_def split: if_splits option.splits prod.splits)

text \<open>Loading a session to start it approves nothing.\<close>

lemma load_approves_nothing:
  assumes "keyed (dx_store sv)" and "approves (dict_get (dx_store (fst (load_session g sid sv))) k) d"
  shows "approves (dict_get (dx_store sv) k) d"
proof (cases "dict_get (dx_store sv) sid")
  case None
  then show ?thesis using assms(2) by (simp add: load_session_def dx_get_def)
next
  case (Some s)
  have id: "session_id s = sid" using assms(1) Some by (rule keyed_get)
  show ?thesis
    using assms(2) Some id
    by (auto simp: load_session_def dx_get_def Let_def dx_put_store approves_def dest!: prepare_keeps
        split: if_splits option.splits prod.splits)
qed

lemma start_approves_nothing:
  assumes "keyed (dx_store sv)" and "approves (dict_get (dx_store (fst (dx_start g raw sv))) k) d"
  shows "approves (dict_get (dx_store sv) k) d"
proof -
  have "dx_store (fst (dx_start g raw sv)) \<in> {dx_store (fst (load_session g (trim_space raw) sv)), dx_store sv}"
    by (auto simp: dx_start_def Let_def split: prod.splits sum.splits)
  then show ?thesis using assms load_approves_nothing [of sv g "trim_space raw" k d] by auto
qed

lemma set_dict_set: "set (dict_set k v d) \<subseteq> insert (k, v) (set d)"
  by (induction d) auto

lemma keyed_put: "keyed (dx_store sv) \<Longrightarrow> keyed (dx_store (dx_put g s sv))"
  using set_dict_set [of "session_id s" s "dx_store sv"] by (auto simp: keyed_def dx_put_def list_all_iff)

lemma confirm_pending_approves:
  assumes "confirm_pending env r p = Inr q" and "dict_get_or False (approved_ids q) d" and "\<not> dict_get_or False (approved_ids p) d"
  shows "trim_space (pending_approval_id p) \<noteq> '''' \<and> d = trim_space (pending_approval_step_id p) \<and>
         request_action r = ''approve'' \<and> request_token r \<noteq> '''' \<and>
         hash_approval_token env (request_token r) = pending_approval_token_hash p"
  using assms
  by (auto simp: confirm_pending_def Let_def apply_resume_action_def clear_pending_def split: if_splits sum.splits)

lemma respond_ok_service [simp]: "gw_service (fst (respond_ok env key body gw)) = gw_service gw"
  by (simp add: respond_ok_def Let_def)

text \<open>What a resume request does to the sessions: nothing, or one of three things.\<close>

definition resume_plan :: "api_env \<Rightarrow> agent_session \<Rightarrow> plan_state" where
  "resume_plan env s =
     (case session_plan s of None \<Rightarrow> build_default_plan (ge_fix (ae_gateway env)) (ge_params (ae_gateway env)) s | Some p \<Rightarrow> p)"

definition resumed_session :: "api_env \<Rightarrow> plan_state \<Rightarrow> agent_session \<Rightarrow> agent_session" where
  "resumed_session env q s =
     s\<lparr>session_plan := Some q, session_status := SessionExecutingPlan, updated_at := ge_now (ae_gateway env)\<rparr>"

lemma resume_service:
  fixes gw sid env body req
  defines "g \<equiv> ae_gateway env" and "gw' \<equiv> fst (handle_resume_session env req body sid gw)"
  shows "gw_service gw' = gw_service gw \<or>
    (\<exists>s. stored sid gw = Some s \<and> require_owner_access (ar_user req) (session_user_id s) = None \<and> ge_put_err g = None \<and>
       (approval_expired env (resume_plan env s) \<and>
          gw_service gw' = dx_put g (fst (clear_expired_pending_approval (ge_now g) (s\<lparr>session_plan := Some (resume_plan env s)\<rparr>))) (gw_service gw) \<or>
        \<not> approval_expired env (resume_plan env s) \<and>
        (\<exists>r q started. body = Some r \<and> confirm_pending env r (resume_plan env s) = Inr q \<and>
           started = dx_start g sid (dx_put g (resumed_session env q s) (gw_service gw)) \<and>
           gw_service gw' = (case snd started of Inl e \<Rightarrow> dx_put g s (fst started) | Inr x \<Rightarrow> fst started))))"
proof (cases "dict_get (dx_store (gw_service gw)) sid")
  case None
  then show ?thesis by (simp add: gw'_def handle_resume_session_def with_session_def dx_get_def)
next
  case (Some s)
  let ?p = "resume_plan env s" and ?key = "idempotency_key req (session_user_id s) sid"
  obtain idem hit where hit: "is_get (now_ns env) ?key (gw_idem gw) = (idem, hit)" by force
  show ?thesis
  proof (cases "require_owner_access (ar_user req) (session_user_id s) = None \<and> ge_put_err g = None \<and>
      resolve_session_search_query (ge_fix g) s \<noteq> '''' \<and> hit = None \<and> body \<noteq> None \<and>
      (approval_expired env ?p \<or> (\<exists>q. confirm_pending env (the body) ?p = Inr q))")
    case False
    then have "gw_service gw' = gw_service gw"
      by (auto simp: gw'_def g_def handle_resume_session_def with_session_def dx_get_def Some replay_or_def hit Let_def
          resume_plan_def [symmetric] split: option.split sum.split)
    then show ?thesis ..
  next
    case True
    then obtain r where r: "body = Some r" by auto
    note pre = True [unfolded r] Some hit
    show ?thesis
    proof (cases "approval_expired env ?p")
      case True
      with pre have "gw_service gw' = dx_put g (fst (clear_expired_pending_approval (ge_now g) (s\<lparr>session_plan := Some ?p\<rparr>))) (gw_service gw)"
        by (simp add: gw'_def g_def handle_resume_session_def with_session_def dx_get_def replay_or_def Let_def r
            resume_plan_def [symmetric])
      with pre True show ?thesis by (auto simp: stored_def)
    next
      case False
      with pre obtain q where q: "confirm_pending env r ?p = Inr q" by auto
      obtain sv x where st: "dx_start g sid (dx_put g (resumed_session env q s) (gw_service gw)) = (sv, x)" by force
      have "gw_service gw' = (case x of Inl e \<Rightarrow> dx_put g s sv | Inr y \<Rightarrow> sv)"
        using pre False q st
        by (cases x) (simp_all add: gw'_def g_def handle_resume_session_def with_session_def dx_get_def replay_or_def Let_def r
            resume_plan_def [symmetric] resumed_session_def)
      with pre False q r st show ?thesis by (cases x) (auto simp: stored_def)
    qed
  qed
qed

lemma approves_clear [simp]: "approves (Some (s\<lparr>session_plan := Some (clear_pending p), updated_at := n\<rparr>)) d = dict_get_or False (approved_ids p) d"
  by (simp add: approves_def clear_pending_def)

lemma default_plan_not_pending: "session_plan s = None \<Longrightarrow> pending_approval_id (resume_plan env s) = ''''"
  by (simp add: resume_plan_def build_default_plan_def build_guided_orchestration_plan_def new_plan_state_def Let_def)

lemma resume_plan_approves: "dict_get_or False (approved_ids (resume_plan env s)) d = approves (Some s) d"
  by (simp add: approves_def resume_plan_def split: option.split)

text \<open>
  C5. A resume request can make a step approved only by approving the confirmation that is pending
  for it: the session is the requested one, the requester may access it, the confirmation has not
  expired, the action is \<open>approve\<close>, and the hash of the token sent is the one stored.
\<close>

theorem approval_needs_token:
  assumes "keyed (dx_store (gw_service gw))"
    and "approves (stored k (fst (handle_resume_session env req body sid gw))) d"
    and "\<not> approves (stored k gw) d"
  shows "k = sid \<and> (\<exists>s p r. stored sid gw = Some s \<and> session_plan s = Some p \<and> body = Some r \<and>
           require_owner_access (ar_user req) (session_user_id s) = None \<and>
           trim_space (pending_approval_id p) \<noteq> '''' \<and> d = trim_space (pending_approval_step_id p) \<and>
           \<not> approval_expired env p \<and> request_action r = ''approve'' \<and> request_token r \<noteq> '''' \<and>
           hash_approval_token env (request_token r) = pending_approval_token_hash p)"
proof -
  let ?g = "ae_gateway env" and ?gw' = "fst (handle_resume_session env req body sid gw)"
  have "gw_service ?gw' \<noteq> gw_service gw" using assms(2,3) by (auto simp: stored_def)
  with resume_service [of env req body sid gw] obtain s where s: "stored sid gw = Some s"
      "require_owner_access (ar_user req) (session_user_id s) = None"
    and cases: "approval_expired env (resume_plan env s) \<and>
          gw_service ?gw' = dx_put ?g (fst (clear_expired_pending_approval (ge_now ?g) (s\<lparr>session_plan := Some (resume_plan env s)\<rparr>))) (gw_service gw) \<or>
        \<not> approval_expired env (resume_plan env s) \<and>
        (\<exists>r q started. body = Some r \<and> confirm_pending env r (resume_plan env s) = Inr q \<and>
           started = dx_start ?g sid (dx_put ?g (resumed_session env q s) (gw_service gw)) \<and>
           gw_service ?gw' = (case snd started of Inl e \<Rightarrow> dx_put ?g s (fst started) | Inr x \<Rightarrow> fst started))"
    by blast
  have id: "session_id s = sid" using assms(1) s(1) by (auto simp: stored_def dest: keyed_get)
  have old: "approves (Some s) d \<Longrightarrow> k \<noteq> sid" using assms(3) s(1) by auto
  from cases show ?thesis
  proof (elim disjE conjE exE)
    assume "gw_service ?gw' = dx_put ?g (fst (clear_expired_pending_approval (ge_now ?g) (s\<lparr>session_plan := Some (resume_plan env s)\<rparr>))) (gw_service gw)"
    then have "k = sid \<and> approves (Some s) d"
      using assms(2,3) id resume_plan_approves [of env s d]
      by (auto simp: stored_def dx_put_store clear_expired_pending_approval_def approves_def clear_pending_def split: if_splits)
    with old show ?thesis by simp
  next
    fix r q started
    assume exp: "\<not> approval_expired env (resume_plan env s)" and body: "body = Some r"
      and q: "confirm_pending env r (resume_plan env s) = Inr q"
      and st: "started = dx_start ?g sid (dx_put ?g (resumed_session env q s) (gw_service gw))"
      and gw': "gw_service ?gw' = (case snd started of Inl e \<Rightarrow> dx_put ?g s (fst started) | Inr x \<Rightarrow> fst started)"
    have "approves (dict_get (dx_store (fst started)) k) d"
      using assms(2) gw' old id by (auto simp: stored_def dx_put_store split: sum.splits if_splits)
    then have "approves (dict_get (dx_store (dx_put ?g (resumed_session env q s) (gw_service gw))) k) d"
      unfolding st by (rule start_approves_nothing [OF keyed_put [OF assms(1)]])
    then have k: "k = sid" and new: "dict_get_or False (approved_ids q) d"
      using assms(3) id by (auto simp: dx_put_store stored_def approves_def resumed_session_def split: if_splits)
    have "\<not> dict_get_or False (approved_ids (resume_plan env s)) d"
      using old k resume_plan_approves by blast
    from confirm_pending_approves [OF q new this] have p: "trim_space (pending_approval_id (resume_plan env s)) \<noteq> ''''"
      "d = trim_space (pending_approval_step_id (resume_plan env s))" "request_action r = ''approve''" "request_token r \<noteq> ''''"
      "hash_approval_token env (request_token r) = pending_approval_token_hash (resume_plan env s)" by blast+
    then have "session_plan s = Some (resume_plan env s)"
      using default_plan_not_pending [of s env] by (cases "session_plan s") (auto simp: resume_plan_def)
    with s body exp p k show ?thesis by blast
  qed
qed

definition paused_session :: agent_session where
  "paused_session =
     (example_session '''' ((new_plan_state ''p'' [example_step ''a'' []])
        \<lparr>pending_approval_id := ''id1'', pending_approval_token_hash := ''#tok'', pending_approval_step_id := ''a'',
          pending_approval_expires_at := 100\<rparr>))\<lparr>session_status := SessionPaused\<rparr>"

definition example_api :: api_env where
  "example_api = \<lparr>ae_gateway = calm_gateway, ae_sha = (\<lambda>t. ''#'' @ t), ae_marshal = (\<lambda>_. ''{}'')\<rparr>"

definition example_gateway :: gateway where
  "example_gateway = \<lparr>gw_service = new_durable_service [(''s1'', paused_session)], gw_idem = new_idempotency_store 1000000000\<rparr>"

definition owner_request :: api_request where
  "owner_request = \<lparr>ar_user = ''u1'', ar_idem = ''k1'', ar_idem_x = ''''\<rparr>"

theorem approval_needs_token_witness:
  "approves (stored ''s1'' (fst (handle_resume_session example_api owner_request
      (Some \<lparr>rr_checkpoint_id = '''', rr_approval_token = ''tok'', rr_action = ''''\<rparr>) ''s1'' example_gateway))) ''a'' \<and>
   (\<exists>s p. stored ''s1'' example_gateway = Some s \<and> session_plan s = Some p \<and>
      hash_approval_token example_api ''tok'' = pending_approval_token_hash p)"
proof -
  let ?r = "\<lparr>rr_checkpoint_id = '''', rr_approval_token = ''tok'', rr_action = ''''\<rparr>"
  have k: "keyed (dx_store (gw_service example_gateway))" by code_simp
  have new: "approves (stored ''s1'' (fst (handle_resume_session example_api owner_request (Some ?r) ''s1'' example_gateway))) ''a''"
    by code_simp
  have old: "\<not> approves (stored ''s1'' example_gateway) ''a''" by code_simp
  have "request_token ?r = ''tok''" by code_simp
  with approval_needs_token [OF k new old] new show ?thesis by auto
qed

text \<open>
  A resume request with a missing, wrong or replayed token is answered with a conflict and
  changes no session and no run: with a confirmation pending the token must be the one whose hash
  is stored, and without one no token may be sent.
\<close>

theorem bad_token_rejected:
  assumes "stored sid gw = Some s" and "session_plan s = Some p" and "require_owner_access (ar_user req) (session_user_id s) = None"
    and "resolve_session_search_query (ge_fix (ae_gateway env)) s \<noteq> ''''"
    and "snd (is_get (now_ns env) (idempotency_key req (session_user_id s) sid) (gw_idem gw)) = None"
    and "\<not> approval_expired env p"
    and "if trim_space (pending_approval_id p) \<noteq> ''''
         then request_token r = '''' \<or> hash_approval_token env (request_token r) \<noteq> pending_approval_token_hash p
         else request_token r \<noteq> ''''"
  shows "fst (snd (handle_resume_session env req (Some r) sid gw)) = 409 \<and>
         gw_service (fst (handle_resume_session env req (Some r) sid gw)) = gw_service gw"
proof -
  have "\<exists>msg. confirm_pending env r p = Inl (409, msg)"
    using assms(7) by (cases "request_token r = ''''") (auto simp: confirm_pending_def Let_def split: if_split_asm)
  then obtain msg where msg: "confirm_pending env r p = Inl (409, msg)" ..
  obtain idem where "is_get (now_ns env) (idempotency_key req (session_user_id s) sid) (gw_idem gw) = (idem, None)"
    using assms(5) by (metis prod.collapse)
  then show ?thesis
    using assms(1-4,6) msg
    by (simp add: handle_resume_session_def with_session_def dx_get_def stored_def replay_or_def Let_def)
qed

theorem bad_token_rejected_witness:
  "fst (snd (handle_resume_session example_api owner_request
      (Some \<lparr>rr_checkpoint_id = '''', rr_approval_token = ''guess'', rr_action = ''skip''\<rparr>) ''s1'' example_gateway)) = 409"
proof -
  let ?r = "\<lparr>rr_checkpoint_id = '''', rr_approval_token = ''guess'', rr_action = ''skip''\<rparr>"
  let ?p = "the (session_plan paused_session)"
  have 1: "stored ''s1'' example_gateway = Some paused_session"
    by (simp add: stored_def example_gateway_def new_durable_service_def)
  have 2: "session_plan paused_session = Some ?p" by (simp add: paused_session_def example_session_def)
  have 3: "require_owner_access (ar_user owner_request) (session_user_id paused_session) = None" by code_simp
  have 4: "resolve_session_search_query (ge_fix (ae_gateway example_api)) paused_session \<noteq> ''''" by code_simp
  have 5: "snd (is_get (now_ns example_api) (idempotency_key owner_request (session_user_id paused_session) ''s1'') (gw_idem example_gateway)) = None"
    by code_simp
  have 6: "\<not> approval_expired example_api ?p" by code_simp
  have 7: "if trim_space (pending_approval_id ?p) \<noteq> ''''
         then request_token ?r = '''' \<or> hash_approval_token example_api (request_token ?r) \<noteq> pending_approval_token_hash ?p
         else request_token ?r \<noteq> ''''" by code_simp
  from bad_token_rejected [OF 1 2 3 4 5 6 7] show ?thesis by blast
qed

text \<open>
  C18. Nobody but the owner, the admin and the internal service gets anything done to a session:
  each of the four endpoints answers other users with 403 and leaves the gateway as it was.
\<close>

theorem strangers_denied:
  assumes "stored sid gw = Some s"
    and "trim_space (ar_user req) \<notin> {trim_space (session_user_id s), ''admin'', ''internal-service''} \<or>
         trim_space (ar_user req) \<in> {'''', ''anonymous''}"
    and "h \<in> {handle_execute_session env req sid, handle_cancel_session env req sid, handle_abandon_session env req sid,
               handle_resume_session env req body sid}"
  shows "fst (h gw) = gw \<and> fst (snd (h gw)) = 403"
proof -
  have "require_owner_access (ar_user req) (session_user_id s) \<noteq> None"
    using assms(2) by (auto simp: require_owner_access_def Let_def)
  then obtain msg where "require_owner_access (ar_user req) (session_user_id s) = Some msg" by blast
  then have "with_session req sid f gw = (gw, (403, msg))" for f
    using assms(1) by (simp add: with_session_def dx_get_def stored_def)
  with assms(3) show ?thesis
    by (auto simp: handle_execute_session_def handle_cancel_session_def handle_abandon_session_def handle_resume_session_def)
qed

theorem strangers_denied_witness:
  "fst (snd (handle_cancel_session example_api \<lparr>ar_user = ''mallory'', ar_idem = '''', ar_idem_x = ''''\<rparr> ''s1'' example_gateway)) = 403"
proof -
  let ?q = "\<lparr>ar_user = ''mallory'', ar_idem = '''', ar_idem_x = ''''\<rparr>"
  have 1: "stored ''s1'' example_gateway = Some paused_session"
    by (simp add: stored_def example_gateway_def new_durable_service_def)
  have 2: "trim_space (ar_user ?q) \<notin> {trim_space (session_user_id paused_session), ''admin'', ''internal-service''} \<or>
      trim_space (ar_user ?q) \<in> {'''', ''anonymous''}" by code_simp
  from strangers_denied [OF 1 2, of "handle_cancel_session example_api ?q ''s1''" example_api None]
  show ?thesis by blast
qed

lemma is_get_idem: "is_get now k st = (st', Some x) \<Longrightarrow> is_get now k st' = (st', Some x)"
  by (auto simp: is_get_def is_read_def split: option.splits if_splits)

text \<open>
  Requests without an idempotency key all share one: the answer to the first is stored under the
  empty key, and every later keyless request to a session endpoint, for whatever session and by
  whatever user, is answered with it and not carried out. Here a cancellation of one session
  swallows the resumption of another.
\<close>

theorem keyless_requests_share_response:
  assumes "trim_space (ar_idem q1) = ''''" "trim_space (ar_idem_x q1) = ''''"
    and "trim_space (ar_idem q2) = ''''" "trim_space (ar_idem_x q2) = ''''"
    and "handle_cancel_session env q1 sid1 gw = (gw1, (200, text))"
    and "stored sid2 gw1 = Some s2" "require_owner_access (ar_user q2) (session_user_id s2) = None"
    and "resolve_session_search_query (ge_fix (ae_gateway env)) s2 \<noteq> ''''" and "0 \<le> is_ttl (gw_idem gw)"
  shows "handle_resume_session env q2 body sid2 gw1 = (gw1, (200, text))"
proof -
  have k1: "idempotency_key q1 o1 x1 = ''''" and k2: "idempotency_key q2 o1 x1 = ''''" for o1 x1
    using assms(1-4) by (simp_all add: idempotency_key_def Let_def)
  obtain idem hit where get: "is_get (now_ns env) '''' (gw_idem gw) = (idem, hit)" by force
  have ttl: "is_ttl idem = is_ttl (gw_idem gw)"
    using get by (auto simp: is_get_def is_drop_def split: prod.splits if_splits)
  obtain s1 where s1: "dict_get (dx_store (gw_service gw)) sid1 = Some s1"
      "require_owner_access (ar_user q1) (session_user_id s1) = None"
    using assms(5) by (auto simp: handle_cancel_session_def with_session_def dx_get_def split: option.splits)
  have "is_get (now_ns env) '''' (gw_idem gw1) = (gw_idem gw1, Some (200, text))"
  proof (cases hit)
    case (Some x)
    with assms(5) s1 have "gw_idem gw1 = idem" "x = (200, text)"
      by (auto simp: handle_cancel_session_def with_session_def dx_get_def replay_or_def k1 get Let_def)
    with get Some show ?thesis by (auto dest: is_get_idem)
  next
    case None
    with assms(5) s1 have "gw_idem gw1 = is_put (now_ns env) '''' 200 (Some text) idem"
      by (auto simp: handle_cancel_session_def with_session_def dx_get_def replay_or_def k1 get Let_def respond_ok_def
          split: prod.splits option.splits)
    with assms(9) ttl show ?thesis by (simp add: is_put_def is_get_def is_read_def dict_simps)
  qed
  then show ?thesis
    using assms(6-8) by (simp add: handle_resume_session_def with_session_def dx_get_def stored_def replay_or_def k2 Let_def)
qed

definition two_session_gateway :: gateway where
  "two_session_gateway = \<lparr>gw_service = new_durable_service
      [(''s0'', (example_session '''' (new_plan_state ''p0'' []))\<lparr>session_id := ''s0'', session_user_id := ''u0''\<rparr>), (''s1'', paused_session)],
     gw_idem = new_idempotency_store 1000000000\<rparr>"

theorem keyless_requests_share_response_witness:
  "let q1 = \<lparr>ar_user = ''u0'', ar_idem = '''', ar_idem_x = ''''\<rparr>; q2 = \<lparr>ar_user = ''u1'', ar_idem = '''', ar_idem_x = ''''\<rparr>;
       gw1 = fst (handle_cancel_session example_api q1 ''s0'' two_session_gateway)
   in handle_resume_session example_api q2
        (Some \<lparr>rr_checkpoint_id = '''', rr_approval_token = ''tok'', rr_action = ''approve''\<rparr>) ''s1'' gw1 = (gw1, (200, ''{}''))"
proof -
  let ?q1 = "\<lparr>ar_user = ''u0'', ar_idem = '''', ar_idem_x = ''''\<rparr>" and ?q2 = "\<lparr>ar_user = ''u1'', ar_idem = '''', ar_idem_x = ''''\<rparr>"
  obtain gw1 resp where run: "handle_cancel_session example_api ?q1 ''s0'' two_session_gateway = (gw1, resp)" by (meson surj_pair)
  have "snd (handle_cancel_session example_api ?q1 ''s0'' two_session_gateway) = (200, ''{}'')" by code_simp
  with run have resp: "resp = (200, ''{}'')" by simp
  have "stored ''s1'' (fst (handle_cancel_session example_api ?q1 ''s0'' two_session_gateway)) = Some paused_session" by code_simp
  with run have st: "stored ''s1'' gw1 = Some paused_session" by simp
  have own: "require_owner_access (ar_user ?q2) (session_user_id paused_session) = None" by code_simp
  have qry: "resolve_session_search_query (ge_fix (ae_gateway example_api)) paused_session \<noteq> ''''" by code_simp
  have ttl: "0 \<le> is_ttl (gw_idem two_session_gateway)" by code_simp
  from keyless_requests_share_response [OF _ _ _ _ run [unfolded resp] st own qry ttl]
  show ?thesis by (simp add: run)
qed

end
