(* ===== verification/QueryTypos.thy ===== *)
theory QueryTypos
  imports ListTools
begin

text \<open>
  Offline correction of research queries (\<open>orchestrator/internal/researchquery/typos.go\<close>): a table of
  known misspellings, and otherwise the nearest word of a small vocabulary, by an edit distance that
  is computed with two rows. The distance is proved to be the least number of single-character edits,
  by way of the usual recursive definition.
\<close>

section \<open>The edit distance of the code\<close>

text \<open>
  One pass of the inner loop: \<open>prev\<close> is the previous row from column \<open>j - 1\<close> on, \<open>left\<close> the value
  just written to the current row.
\<close>

fun levenshtein_row :: "char \<Rightarrow> string \<Rightarrow> nat list \<Rightarrow> nat \<Rightarrow> nat list" where
  "levenshtein_row x (y # ys) (p # q # prev) left =
     (let cost = (if x = y then 0 else 1); v = min (min (left + 1) (q + 1)) (p + cost)
      in v # levenshtein_row x ys (q # prev) v)"
| "levenshtein_row x ys prev left = []"

fun levenshtein_rows :: "string \<Rightarrow> string \<Rightarrow> nat \<Rightarrow> nat list \<Rightarrow> nat list" where
  "levenshtein_rows [] b i prev = prev"
| "levenshtein_rows (x # a) b i prev = levenshtein_rows a b (Suc i) (i # levenshtein_row x b prev i)"

definition research_levenshtein :: "string \<Rightarrow> string \<Rightarrow> nat" where
  "research_levenshtein a b =
     (if a = b then 0
      else if a = [] then length b
      else if b = [] then length a
      else levenshtein_rows a b 1 [0..<Suc (length b)] ! length b)"

section \<open>Correction\<close>

definition research_typo_exact :: "string dict" where
  "research_typo_exact =
     [(''menicius'', ''meniscus''), (''meniscis'', ''meniscus''), (''menisci'', ''meniscus''),
      (''meniscu'', ''meniscus''), (''meniscal'', ''meniscal''), (''stratiges'', ''strategies''),
      (''stratigies'', ''strategies''), (''startegies'', ''strategies''), (''stratigy'', ''strategy''),
      (''stratige'', ''strategy''), (''reconstricution'', ''reconstruction''),
      (''recontruction'', ''reconstruction''), (''recontructions'', ''reconstructions''),
      (''recontrcution'', ''reconstruction''), (''constricution'', ''reconstruction''),
      (''scafold'', ''scaffold''), (''scafolds'', ''scaffolds''), (''hydogel'', ''hydrogel''),
      (''retieval'', ''retrieval''), (''retreival'', ''retrieval''), (''systematc'', ''systematic''),
      (''metanalysis'', ''meta-analysis''), (''metananalysis'', ''meta-analysis'')]"

definition research_vocabulary :: "string list" where
  "research_vocabulary =
     [''meniscus'', ''meniscal'', ''reconstruction'', ''reconstructive'',
      ''strategies'', ''strategy'', ''scaffold'', ''scaffolds'', ''hydrogel'',
      ''ligament'', ''cruciate'', ''anterior'', ''posterior'', ''orthopedic'',
      ''orthopaedic'', ''cartilage'', ''regeneration'', ''transplantation'',
      ''systematic'', ''meta-analysis'', ''clinical'', ''trial'', ''cohort'',
      ''retrieval'', ''augmented'', ''generation'', ''transformer'', ''transformers'',
      ''benchmark'', ''dataset'', ''neural'', ''network'', ''networks'']"

fun best_match :: "string \<Rightarrow> string list \<Rightarrow> string \<times> nat \<Rightarrow> string \<times> nat" where
  "best_match word [] best = best"
| "best_match word (w # ws) (best, d) =
     (let d' = research_levenshtein word w in
      best_match word ws (if d' < d then (w, d') else (best, d)))"

definition fuzzy_research_vocab_match :: "string \<Rightarrow> nat \<Rightarrow> string option" where
  "fuzzy_research_vocab_match word max_distance =
     (let (best, d) = best_match word research_vocabulary ([], max_distance + 1) in
      if best = [] \<or> max_distance < d then None else Some best)"

definition trim_chars :: "string \<Rightarrow> string \<Rightarrow> string" where
  "trim_chars cutset s =
     rev (dropWhile (\<lambda>c. c \<in> set cutset) (rev (dropWhile (\<lambda>c. c \<in> set cutset) s)))"

definition trim_right :: "string \<Rightarrow> string \<Rightarrow> string" where
  "trim_right cutset s = rev (dropWhile (\<lambda>c. c \<in> set cutset) (rev s))"

definition normalize_text :: "string \<Rightarrow> string" where
  "normalize_text query = join '' '' (str_fields (trim_right ''_-'' (trim_space query)))"

definition cleaned_word :: "string \<Rightarrow> string" where
  "cleaned_word w = to_lower (trim_chars (''.,;:!?'' @ [CHR 0x22, CHR 0x27] @ ''()[]{}/-'') w)"

definition word_replacement :: "string \<Rightarrow> string" where
  "word_replacement cleaned =
     (case dict_get research_typo_exact cleaned of
        Some r \<Rightarrow> r
      | None \<Rightarrow>
          (if 5 \<le> length cleaned
           then (case fuzzy_research_vocab_match cleaned 2 of Some r \<Rightarrow> r | None \<Rightarrow> [])
           else []))"

definition correct_word :: "string \<Rightarrow> string" where
  "correct_word w =
     (let c = cleaned_word w in
      if c = [] then w
      else (let r = word_replacement c in if r \<noteq> [] \<and> r \<noteq> c then r else w))"

text \<open>\<open>changed\<close> says that some word was replaced, and only then are the words joined again.\<close>

definition word_changed :: "string \<Rightarrow> bool" where
  "word_changed w =
     (let c = cleaned_word w in c \<noteq> [] \<and> word_replacement c \<noteq> [] \<and> word_replacement c \<noteq> c)"

definition correct_typos :: "string \<Rightarrow> string" where
  "correct_typos query =
     (let q = normalize_text query in
      if q = [] then []
      else
        (let ws = str_fields q in
         if list_ex word_changed ws then join '' '' (map correct_word ws) else q))"

definition prepare_for_provider_search :: "string \<Rightarrow> string" where
  "prepare_for_provider_search query = correct_typos query"

section \<open>Edits\<close>

text \<open>One edit inserts, deletes or replaces one character.\<close>

inductive edit :: "string \<Rightarrow> string \<Rightarrow> bool" where
  insertion: "edit (u @ v) (u @ c # v)"
| deletion: "edit (u @ c # v) (u @ v)"
| replacement: "edit (u @ c # v) (u @ d # v)"

definition edits :: "nat \<Rightarrow> string \<Rightarrow> string \<Rightarrow> bool" where
  "edits n a b \<longleftrightarrow> (edit ^^ n) a b"

fun lev :: "string \<Rightarrow> string \<Rightarrow> nat" where
  "lev [] b = length b"
| "lev a [] = length a"
| "lev (x # a) (y # b) =
     min (min (lev (x # a) b + 1) (lev a (y # b) + 1)) (lev a b + (if x = y then 0 else 1))"

lemma lev_Nil2 [simp]: "lev a [] = length a"
  by (cases a) simp_all

lemma lev_delete: "lev (x # a) c \<le> lev a c + 1"
  by (cases c) simp_all

lemma lev_insert2: "lev a (y # c) \<le> lev a c + 1"
  by (cases a) simp_all

lemma lev_insert: "lev a c \<le> lev (x # a) c + 1"
proof (induction c)
  case (Cons y c)
  then show ?case using lev_insert2 [of a y c] by (auto simp: min_def)
qed simp

lemma lev_replace: "lev (x # a) c \<le> lev (z # a) c + 1"
proof (induction c)
  case (Cons y c)
  then show ?case by (auto simp: min_def)
qed simp

lemma lev_context:
  assumes "\<And>c. lev a c \<le> lev b c + 1"
  shows "lev (x # a) c \<le> lev (x # b) c + 1"
proof (induction c)
  case Nil
  from assms [of "[]"] show ?case by simp
next
  case (Cons y c)
  with assms [of "y # c"] assms [of c] show ?case by (auto simp: min_def)
qed

lemma lev_prefix:
  assumes "\<And>c. lev a c \<le> lev b c + 1"
  shows "lev (u @ a) c \<le> lev (u @ b) c + 1"
proof (induction u arbitrary: c)
  case (Cons x u)
  show ?case unfolding append_Cons by (rule lev_context) (rule Cons.IH)
qed (simp only: append_Nil assms)

lemma edit_lev: "edit a b \<Longrightarrow> lev a c \<le> lev b c + 1"
proof (induction arbitrary: c rule: edit.induct)
  case (insertion u v x)
  show ?case by (rule lev_prefix) (rule lev_insert)
next
  case (deletion u x v)
  show ?case by (rule lev_prefix) (rule lev_delete)
next
  case (replacement u x v d)
  show ?case by (rule lev_prefix) (rule lev_replace)
qed

lemma lev_self [simp]: "lev a a = 0"
  by (induction a) simp_all

lemma edits_lev: "edits n a b \<Longrightarrow> lev a b \<le> n"
proof (induction n arbitrary: a)
  case 0
  then show ?case by (simp add: edits_def)
next
  case (Suc n)
  then obtain a' where "edit a a'" "edits n a' b" unfolding edits_def by (metis relpowp_Suc_D2)
  with Suc.IH [of a'] edit_lev [of a a' b] show ?case by simp
qed

lemma edit_Cons: "edit a b \<Longrightarrow> edit (x # a) (x # b)"
  by (induction rule: edit.induct) (metis append_Cons edit.intros)+

lemma edits_Cons: "edits n a b \<Longrightarrow> edits n (x # a) (x # b)"
  unfolding edits_def by (induction n arbitrary: b) (auto simp: OO_def intro: edit_Cons)

lemma edits_step: "edit a b \<Longrightarrow> edits n b c \<Longrightarrow> edits (Suc n) a c"
  unfolding edits_def by (rule relpowp_Suc_I2)

lemma edits_Nil: "edits (length b) [] b" "edits (length b) b []"
proof (induction b)
  case Nil
  { case 1 show ?case by (simp add: edits_def) }
  { case 2 show ?case by (simp add: edits_def) }
next
  case (Cons y b)
  { case 1
    have "edit [] [y]" using insertion [of "[]" "[]" y] by simp
    from edits_step [OF this edits_Cons [OF Cons.IH(1)]] show ?case by simp }
  { case 2
    have "edit (y # b) b" using deletion [of "[]" y b] by simp
    from edits_step [OF this Cons.IH(2)] show ?case by simp }
qed

lemma min_three: "min (min k m) n = k \<or> min (min k m) n = m \<or> min (min k m) n = (n::nat)"
  by (simp add: min_def)

lemma lev_edits: "edits (lev a b) a b"
proof (induction a b rule: lev.induct)
  case (3 x a y b)
  have ins: "edit (x # a) (y # x # a)" using insertion [of "[]" "x # a" y] by simp
  have del: "edit (x # a) a" using deletion [of "[]" x a] by simp
  have rep: "edit (x # a) (y # a)" using replacement [of "[]" x a y] by simp
  from min_three [of "lev (x # a) b + 1" "lev a (y # b) + 1" "lev a b + (if x = y then 0 else 1)"]
  have "lev (x # a) (y # b) = Suc (lev (x # a) b) \<or> lev (x # a) (y # b) = Suc (lev a (y # b))
      \<or> lev (x # a) (y # b) = lev a b + (if x = y then 0 else 1)"
    by (simp only: lev.simps Suc_eq_plus1)
  then show ?case
  proof (elim disjE)
    assume "lev (x # a) (y # b) = Suc (lev (x # a) b)"
    with edits_step [OF ins edits_Cons [OF 3(1)]] show ?thesis by (simp only:)
  next
    assume "lev (x # a) (y # b) = Suc (lev a (y # b))"
    with edits_step [OF del 3(2)] show ?thesis by (simp only:)
  next
    assume l: "lev (x # a) (y # b) = lev a b + (if x = y then 0 else 1)"
    show ?thesis
    proof (cases "x = y")
      case True
      with l edits_Cons [OF 3(3)] show ?thesis by simp
    next
      case False
      with l edits_step [OF rep edits_Cons [OF 3(3)]] show ?thesis by simp
    qed
  qed
qed (simp_all only: lev_Nil2 lev.simps(1) edits_Nil)

lemma lev_least: "edits n a b \<Longrightarrow> lev a b \<le> n" "edits (lev a b) a b"
  by (rule edits_lev, assumption, rule lev_edits)

text \<open>Edits can be read from either end, and undone.\<close>

lemma edit_rev: "edit a b \<Longrightarrow> edit (rev a) (rev b)"
proof (induction rule: edit.induct)
  case (insertion u v c)
  show ?case using edit.insertion [of "rev v" "rev u" c] by simp
next
  case (deletion u c v)
  show ?case using edit.deletion [of "rev v" c "rev u"] by simp
next
  case (replacement u c v d)
  show ?case using edit.replacement [of "rev v" c "rev u" d] by simp
qed

lemma edits_rev: "edits n a b \<Longrightarrow> edits n (rev a) (rev b)"
  unfolding edits_def by (induction n arbitrary: b) (auto simp: OO_def intro: edit_rev)

lemma edit_sym: "edit a b \<Longrightarrow> edit b a"
  by (induction rule: edit.induct) (rule edit.intros)+

lemma edits_sym: "edits n a b \<Longrightarrow> edits n b a"
proof (induction n arbitrary: a)
  case (Suc n)
  then obtain c where "edit a c" "edits n c b" unfolding edits_def by (metis relpowp_Suc_D2)
  with Suc.IH [of c] edit_sym [of a c] have "edits n b c" "edit c a" by simp_all
  then show ?case unfolding edits_def by (rule relpowp_Suc_I)
qed (simp add: edits_def)

lemma lev_rev: "lev (rev a) (rev b) = lev a b"
proof (rule antisym)
  show "lev (rev a) (rev b) \<le> lev a b" by (rule lev_least(1)) (rule edits_rev, rule lev_least(2))
  show "lev a b \<le> lev (rev a) (rev b)"
    using edits_rev [OF lev_least(2) [of "rev a" "rev b"]] by (intro lev_least(1)) simp
qed

lemma lev_sym: "lev a b = lev b a"
  by (rule antisym) (rule lev_least(1), rule edits_sym, rule lev_least(2))+

lemma lev_triangle: "lev a c \<le> lev a b + lev b c"
proof (rule lev_least(1))
  show "edits (lev a b + lev b c) a c"
    using lev_least(2) [of a b] lev_least(2) [of b c] unfolding edits_def relpowp_add by (rule relcomppI)
qed

lemma lev_0_iff: "lev a b = 0 \<longleftrightarrow> a = b"
  using lev_least(2) [of a b] by (auto simp: edits_def)

section \<open>The rows compute the distance\<close>

text \<open>Column \<open>k\<close> of the row that belongs to the prefix \<open>u\<close> is the distance of \<open>u\<close> to the first \<open>k\<close> characters.\<close>

definition prefix_dist :: "string \<Rightarrow> string \<Rightarrow> nat" where
  "prefix_dist u v = lev (rev u) (rev v)"

lemma prefix_dist_snoc:
  "prefix_dist (u @ [x]) (v @ [y])
     = min (min (prefix_dist (u @ [x]) v + 1) (prefix_dist u (v @ [y]) + 1))
         (prefix_dist u v + (if x = y then 0 else 1))"
  by (simp add: prefix_dist_def)

abbreviation dist_row :: "string \<Rightarrow> string \<Rightarrow> string \<Rightarrow> nat list" where
  "dist_row u vs ys \<equiv> map (\<lambda>k. prefix_dist u (vs @ take k ys)) [0..<Suc (length ys)]"

lemma dist_row_Nil: "dist_row u vs [] = [prefix_dist u vs]"
  by simp

lemma dist_row_Cons: "dist_row u vs (y # ys) = prefix_dist u vs # dist_row u (vs @ [y]) ys"
proof -
  have "map (\<lambda>k. prefix_dist u (vs @ take k (y # ys))) [Suc 0..<Suc (Suc (length ys))]
      = map (\<lambda>k. prefix_dist u (vs @ take (Suc k) (y # ys))) [0..<Suc (length ys)]"
    by (simp only: map_Suc_upt [symmetric] map_map comp_def)
  then show ?thesis by (simp add: upt_conv_Cons del: upt_Suc)
qed

lemma dist_row_hd: "\<exists>qs. dist_row u vs ys = prefix_dist u vs # qs"
proof (cases ys)
  case Nil
  show ?thesis unfolding Nil dist_row_Nil by blast
next
  case (Cons y zs)
  show ?thesis unfolding Cons dist_row_Cons by blast
qed

lemma levenshtein_row_dist:
  "prefix_dist (u @ [x]) vs # levenshtein_row x ys (dist_row u vs ys) (prefix_dist (u @ [x]) vs)
     = dist_row (u @ [x]) vs ys"
proof (induction ys arbitrary: vs)
  case (Cons y ys)
  from dist_row_hd [of u "vs @ [y]" ys] obtain qs
    where q: "dist_row u (vs @ [y]) ys = prefix_dist u (vs @ [y]) # qs" by (rule exE)
  note v = prefix_dist_snoc [of u x vs y, symmetric]
  have "levenshtein_row x (y # ys) (dist_row u vs (y # ys)) (prefix_dist (u @ [x]) vs)
      = prefix_dist (u @ [x]) (vs @ [y])
        # levenshtein_row x ys (dist_row u (vs @ [y]) ys) (prefix_dist (u @ [x]) (vs @ [y]))"
    unfolding dist_row_Cons q by (simp only: levenshtein_row.simps Let_def v)
  also have "\<dots> = dist_row (u @ [x]) (vs @ [y]) ys" by (rule Cons.IH)
  finally show ?case unfolding dist_row_Cons [of "u @ [x]"] by (simp only:)
qed (simp only: levenshtein_row.simps dist_row_Nil)

lemma prefix_dist_Nil2: "prefix_dist u [] = length u"
  by (simp add: prefix_dist_def)

lemma levenshtein_rows_dist:
  "levenshtein_rows a b (Suc (length u)) (dist_row u [] b) = dist_row (u @ a) [] b"
proof (induction a arbitrary: u)
  case (Cons x a)
  have "Suc (length u) # levenshtein_row x b (dist_row u [] b) (Suc (length u)) = dist_row (u @ [x]) [] b"
    using levenshtein_row_dist [of u x "[]" b] by (simp only: prefix_dist_Nil2 length_append_singleton)
  with Cons.IH [of "u @ [x]"] show ?case by (simp del: upt_Suc)
qed simp

lemma first_row: "[0..<Suc (length b)] = dist_row [] [] b"
proof (rule nth_equalityI)
  fix k assume "k < length [0..<Suc (length b)]"
  then show "[0..<Suc (length b)] ! k = dist_row [] [] b ! k"
    by (simp add: prefix_dist_def del: upt_Suc)
qed simp

lemma research_levenshtein_lev: "research_levenshtein a b = lev a b"
proof -
  have "levenshtein_rows a b 1 [0..<Suc (length b)] = dist_row a [] b"
    using levenshtein_rows_dist [of a b "[]"]
    by (subst first_row) (simp only: append_Nil list.size(3) One_nat_def)
  then have "levenshtein_rows a b 1 [0..<Suc (length b)] ! length b = dist_row a [] b ! length b" by (rule arg_cong)
  also have "\<dots> = lev a b" by (simp add: prefix_dist_def lev_rev del: upt_Suc)
  finally have rows: "levenshtein_rows a b 1 [0..<Suc (length b)] ! length b = lev a b" .
  consider "a = b" | "a \<noteq> b" "a = []" | "a \<noteq> b" "a \<noteq> []" "b = []" | "a \<noteq> b" "a \<noteq> []" "b \<noteq> []" by blast
  then show ?thesis
    by cases (simp_all only: research_levenshtein_def rows lev_self lev_Nil2 lev.simps(1) simp_thms if_True if_False)
qed

text \<open>
  C20. The two-row loop computes the least number of insertions, deletions and replacements of a character
  that turn one word into the other, and this number is a metric.
\<close>

theorem research_levenshtein_correct:
  "research_levenshtein a b = (LEAST n. edits n a b)
   \<and> edits (research_levenshtein a b) a b
   \<and> research_levenshtein a b = lev a b
   \<and> (research_levenshtein a b = 0 \<longleftrightarrow> a = b)
   \<and> research_levenshtein a b = research_levenshtein b a
   \<and> research_levenshtein a c \<le> research_levenshtein a b + research_levenshtein b c"
proof -
  have "(LEAST n. edits n a b) = lev a b"
    by (rule Least_equality) (rule lev_least(2), rule lev_least(1))
  note least = this
  show ?thesis unfolding research_levenshtein_lev
    by (intro conjI) (rule least [symmetric], rule lev_least(2), rule refl, rule lev_0_iff, rule lev_sym, rule lev_triangle)
qed

section \<open>Which word replaces a word\<close>

lemma best_match_spec:
  "best_match word ws (b, d) = (b', d') \<Longrightarrow>
     d' \<le> d \<and> (\<forall>w \<in> set ws. d' \<le> lev word w)
     \<and> ((b', d') = (b, d) \<or> (\<exists>us vs. ws = us @ b' # vs \<and> lev word b' = d' \<and> d' < d \<and> (\<forall>w \<in> set us. d' < lev word w)))"
proof (induction ws arbitrary: b d)
  case (Cons w ws)
  let ?d = "lev word w"
  show ?case
  proof (cases "?d < d")
    case True
    with Cons.prems have "best_match word ws (w, ?d) = (b', d')" by (simp add: research_levenshtein_lev Let_def)
    note ih = Cons.IH [OF this]
    from ih consider "(b', d') = (w, ?d)"
      | us vs where "ws = us @ b' # vs" "lev word b' = d'" "d' < ?d" "\<forall>w \<in> set us. d' < lev word w" by blast
    then have "\<exists>us vs. w # ws = us @ b' # vs \<and> lev word b' = d' \<and> d' < d \<and> (\<forall>w \<in> set us. d' < lev word w)"
    proof cases
      case 1
      with True have "w # ws = [] @ b' # ws \<and> lev word b' = d' \<and> d' < d \<and> (\<forall>w \<in> set []. d' < lev word w)" by simp
      then show ?thesis by blast
    next
      case 2
      with True have "w # ws = (w # us) @ b' # vs \<and> lev word b' = d' \<and> d' < d
          \<and> (\<forall>w \<in> set (w # us). d' < lev word w)" by simp
      then show ?thesis by blast
    qed
    with ih True show ?thesis by simp
  next
    case False
    with Cons.prems have "best_match word ws (b, d) = (b', d')" by (simp add: research_levenshtein_lev Let_def)
    note ih = Cons.IH [OF this]
    from ih consider "(b', d') = (b, d)"
      | us vs where "ws = us @ b' # vs" "lev word b' = d'" "d' < d" "\<forall>w \<in> set us. d' < lev word w" by blast
    then show ?thesis
    proof cases
      case 1
      with ih False show ?thesis by auto
    next
      case 2
      with False have "w # ws = (w # us) @ b' # vs \<and> lev word b' = d' \<and> d' < d
          \<and> (\<forall>w \<in> set (w # us). d' < lev word w)" by simp
      then have "\<exists>us vs. w # ws = us @ b' # vs \<and> lev word b' = d' \<and> d' < d \<and> (\<forall>w \<in> set us. d' < lev word w)"
        by blast
      with ih False show ?thesis by simp
    qed
  qed
qed simp

lemma vocabulary_words: "[] \<notin> set research_vocabulary"
  by (simp add: research_vocabulary_def)

text \<open>
  The fuzzy match is the first word of the vocabulary among those nearest to the given one, and there
  is none exactly when every word of the vocabulary is further away than the limit.
\<close>

theorem fuzzy_match_nearest:
  "(case fuzzy_research_vocab_match word n of
      None \<Rightarrow> \<forall>w \<in> set research_vocabulary. n < lev word w
    | Some best \<Rightarrow> lev word best \<le> n
        \<and> (\<exists>us vs. research_vocabulary = us @ best # vs
             \<and> (\<forall>w \<in> set us. lev word best < lev word w) \<and> (\<forall>w \<in> set vs. lev word best \<le> lev word w)))"
proof -
  obtain b d where bd: "best_match word research_vocabulary ([], n + 1) = (b, d)" by fastforce
  note spec = best_match_spec [OF bd]
  show ?thesis
  proof (cases "(b, d) = ([], n + 1)")
    case True
    with spec bd show ?thesis by (auto simp: fuzzy_research_vocab_match_def Let_def)
  next
    case False
    with spec obtain us vs where s: "research_vocabulary = us @ b # vs" "lev word b = d" "d < n + 1"
      "\<forall>w \<in> set us. d < lev word w" by blast
    moreover have "b \<in> set research_vocabulary" by (simp only: s(1)) simp
    then have "b \<noteq> []" using vocabulary_words by blast
    moreover have "set vs \<subseteq> set research_vocabulary" by (simp only: s(1)) auto
    then have "\<forall>w \<in> set vs. d \<le> lev word w" using spec by blast
    ultimately show ?thesis using bd by (auto simp: fuzzy_research_vocab_match_def Let_def)
  qed
qed

theorem fuzzy_match_nearest_witness:
  "fuzzy_research_vocab_match ''meniscuss'' 2 = Some ''meniscus'' \<and> lev ''meniscuss'' ''meniscus'' \<le> 2"
proof -
  have e: "fuzzy_research_vocab_match ''meniscuss'' 2 = Some ''meniscus''" by code_simp
  note near = fuzzy_match_nearest [where word = "''meniscuss''" and n = 2, unfolded e option.case]
  show ?thesis by (rule conjI [OF e conjunct1 [OF near]])
qed

section \<open>What the correction changes\<close>

text \<open>
  Two edits are enough to make a common English word a term of the vocabulary: the correction turns
  a natural language into a neural one, what is inferior into what is anterior and critical care into
  clinical care.
\<close>

theorem correct_typos_rewrites_words:
  "correct_typos ''Natural languages'' = ''neural languages''
   \<and> map correct_word [''inferior'', ''rural'', ''critical''] = [''anterior'', ''neural'', ''clinical'']"
  by code_simp

text \<open>The correction of a correction can differ from it: the table's own replacement is corrected again.\<close>

lemma correct_typos_not_idempotent:
  "correct_typos ''recontructions'' = ''reconstructions'' \<and> correct_typos ''reconstructions'' = ''reconstruction''"
  by code_simp

end
