(* ===== verification/RankFusion.thy ===== *)
theory RankFusion
  imports ListTools
begin

text \<open>
  Papers and how result lists of several providers become one list: the record \<open>Paper\<close>, the
  de-duplication key and \<open>Deduplicate\<close> (\<open>orchestrator/internal/search/provider.go\<close>) and
  reciprocal rank fusion with its two boosts (\<open>search/rank_fusion.go\<close>). Scores are exact reals.
  The order in which Go visits the score map is the argument \<open>ord\<close> of \<open>rrf_fuse\<close>, a list of the
  map's keys. The lemmas give the keys, the scores and the order of each result, independently of
  \<open>ord\<close> and of the order in which the providers answered.
\<close>

section \<open>Papers and their keys\<close>

record paper =
  p_id :: string
  p_title :: string
  p_abstract :: string
  p_link :: string
  p_doi :: string
  p_arxiv_id :: string
  p_source :: string
  p_source_apis :: "string list"
  p_authors :: "string list"
  p_year :: int
  p_month :: int
  p_venue :: string
  p_keywords :: "string list"
  p_citation_count :: int
  p_reference_count :: int
  p_influential_citation_count :: int
  p_open_access_url :: string
  p_pdf_url :: string
  p_score :: real
  p_evidence_level :: string
  p_full_text :: string
  p_structure_map :: "json list"

definition zero_paper :: paper where
  "zero_paper = \<lparr>p_id = [], p_title = [], p_abstract = [], p_link = [], p_doi = [], p_arxiv_id = [],
     p_source = [], p_source_apis = [], p_authors = [], p_year = 0, p_month = 0, p_venue = [],
     p_keywords = [], p_citation_count = 0, p_reference_count = 0,
     p_influential_citation_count = 0, p_open_access_url = [], p_pdf_url = [], p_score = 0,
     p_evidence_level = [], p_full_text = [], p_structure_map = []\<rparr>"

definition title_char :: "char \<Rightarrow> bool" where
  "title_char c = (let n = of_char c :: nat in
     (97 \<le> n \<and> n \<le> 122) \<or> (48 \<le> n \<and> n \<le> 57) \<or> n = 32)"

definition normalise_title :: "string \<Rightarrow> string" where
  "normalise_title t = join '' '' (str_fields (filter title_char (to_lower t)))"

definition paper_key :: "paper \<Rightarrow> string" where
  "paper_key p = (if p_doi p \<noteq> [] then ''doi:'' @ to_lower (trim_space (p_doi p))
                  else ''title:'' @ normalise_title (p_title p))"

lemma paper_key_cong: "p_doi p = p_doi q \<Longrightarrow> p_title p = p_title q \<Longrightarrow> paper_key p = paper_key q"
  by (simp add: paper_key_def)

text \<open>Two keys agree only between DOIs or between titles.\<close>

lemma paper_key_eq_doi:
  "paper_key p = paper_key q \<Longrightarrow> p_doi p = [] \<longleftrightarrow> p_doi q = []"
  "paper_key p = paper_key q \<Longrightarrow> blank (p_doi p) \<longleftrightarrow> blank (p_doi q)"
proof -
  assume k: "paper_key p = paper_key q"
  then show "p_doi p = [] \<longleftrightarrow> p_doi q = []" by (auto simp: paper_key_def split: if_splits)
  from k show "blank (p_doi p) \<longleftrightarrow> blank (p_doi q)"
    by (auto simp: paper_key_def split: if_splits) (metis to_lower_Nil_iff)+
qed

definition fill_source_apis :: "paper \<Rightarrow> paper" where
  "fill_source_apis p =
     (if p_source_apis p = [] \<and> \<not> blank (p_source p) then p\<lparr>p_source_apis := [p_source p]\<rparr> else p)"

lemma paper_key_fill [simp]: "paper_key (fill_source_apis p) = paper_key p"
  by (simp add: fill_source_apis_def paper_key_def)

section \<open>Reciprocal rank fusion\<close>

definition rrf_merge :: "paper \<Rightarrow> paper \<Rightarrow> paper" where
  "rrf_merge e p = e\<lparr>
     p_citation_count := (if p_citation_count e < p_citation_count p then p_citation_count p else p_citation_count e),
     p_abstract := (if blank (p_abstract e) \<and> \<not> blank (p_abstract p) then p_abstract p else p_abstract e),
     p_link := (if blank (p_link e) \<and> \<not> blank (p_link p) then p_link p else p_link e),
     p_year := (if p_year e = 0 \<and> 0 < p_year p then p_year p else p_year e),
     p_venue := (if blank (p_venue e) \<and> \<not> blank (p_venue p) then p_venue p else p_venue e),
     p_source_apis := merge_provider_list (p_source_apis e) (p_source_apis p) [p_source e, p_source p]\<rparr>"

record rrf_maps =
  rrf_scores :: "real dict"
  rrf_papers :: "paper dict"

definition rrf_add :: "int \<Rightarrow> nat \<Rightarrow> paper \<Rightarrow> rrf_maps \<Rightarrow> rrf_maps" where
  "rrf_add k rank p m = (let key = paper_key p in
     \<lparr>rrf_scores = dict_set key (dict_get_or 0 (rrf_scores m) key + 1 / real_of_int (k + int rank + 1)) (rrf_scores m),
      rrf_papers = dict_set key
        (case dict_get (rrf_papers m) key of
           None \<Rightarrow> fill_source_apis p
         | Some e \<Rightarrow> rrf_merge e p) (rrf_papers m)\<rparr>)"

fun rrf_list :: "int \<Rightarrow> nat \<Rightarrow> paper list \<Rightarrow> rrf_maps \<Rightarrow> rrf_maps" where
  "rrf_list k rank [] m = m"
| "rrf_list k rank (p # ps) m = rrf_list k (Suc rank) ps (rrf_add k rank p m)"

definition rrf_k :: "int \<Rightarrow> int" where
  "rrf_k k = (if k \<le> 0 then 60 else k)"

definition rrf_collect :: "paper list list \<Rightarrow> int \<Rightarrow> rrf_maps" where
  "rrf_collect rls k = fold (rrf_list (rrf_k k) 0) rls \<lparr>rrf_scores = [], rrf_papers = []\<rparr>"

definition rrf_order :: "paper \<Rightarrow> real \<times> int" where
  "rrf_order p = (- p_score p, - p_citation_count p)"

definition rrf_fuse :: "string list \<Rightarrow> paper list list \<Rightarrow> int \<Rightarrow> paper list" where
  "rrf_fuse ord rls k = (let m = rrf_collect rls k in
     sort_key rrf_order
       (map (\<lambda>key. (dict_get_or zero_paper (rrf_papers m) key)
                     \<lparr>p_score := dict_get_or 0 (rrf_scores m) key\<rparr>) ord))"

text \<open>The iteration order of the score map.\<close>

definition map_order :: "string list \<Rightarrow> 'v dict \<Rightarrow> bool" where
  "map_order ord d \<longleftrightarrow> distinct ord \<and> set ord = fst ` set d"

subsection \<open>What the maps hold\<close>

text \<open>The specification: a paper's score adds \<open>1 / (k + rank + 1)\<close> over its occurrences.\<close>

fun list_score :: "int \<Rightarrow> string \<Rightarrow> nat \<Rightarrow> paper list \<Rightarrow> real" where
  "list_score k key rank [] = 0"
| "list_score k key rank (p # ps) =
     (if paper_key p = key then 1 / real_of_int (k + int rank + 1) else 0) + list_score k key (Suc rank) ps"

definition fused_score :: "int \<Rightarrow> string \<Rightarrow> paper list list \<Rightarrow> real" where
  "fused_score k key rls = sum_list (map (list_score k key 0) rls)"

definition rrf_inv :: "rrf_maps \<Rightarrow> bool" where
  "rrf_inv m \<longleftrightarrow> wf_dict (rrf_scores m) \<and> wf_dict (rrf_papers m) \<and>
     fst ` set (rrf_scores m) = fst ` set (rrf_papers m) \<and>
     (\<forall>key p. dict_get (rrf_papers m) key = Some p \<longrightarrow>
        paper_key p = key \<and> (p_source_apis p = [] \<longrightarrow> blank (p_source p)))"

lemma paper_key_rrf_merge [simp]: "paper_key (rrf_merge e p) = paper_key e"
  by (simp add: rrf_merge_def paper_key_def)

lemma paper_key_score [simp]: "paper_key (p\<lparr>p_score := x\<rparr>) = paper_key p"
  by (simp add: paper_key_def)

lemma dict_get_or_Some: "dict_get d k = Some v \<Longrightarrow> dict_get_or z d k = v"
  by (simp add: dict_get_or_def)

lemma rrf_merge_apis: "p_source_apis (rrf_merge e p) = [] \<Longrightarrow> blank (p_source (rrf_merge e p))"
  by (simp add: rrf_merge_def merge_provider_list_Nil_iff)

lemma fill_apis: "p_source_apis (fill_source_apis p) = [] \<Longrightarrow> blank (p_source (fill_source_apis p))"
  by (simp add: fill_source_apis_def split: if_splits)

lemma rrf_inv_add [inv_intros]: "rrf_inv m \<Longrightarrow> rrf_inv (rrf_add k rank p m)"
  by (auto simp: rrf_inv_def rrf_add_def Let_def fst_set_dict_set dict_get_set fill_apis rrf_merge_apis
      split: if_splits option.splits)

lemma rrf_inv_list [inv_intros]: "rrf_inv m \<Longrightarrow> rrf_inv (rrf_list k rank ps m)"
  by (induction ps arbitrary: rank m) (simp_all add: rrf_inv_add)

lemma rrf_list_keys:
  "fst ` set (rrf_scores (rrf_list k rank ps m)) = fst ` set (rrf_scores m) \<union> paper_key ` set ps"
  by (induction ps arbitrary: rank m) (auto simp: rrf_add_def Let_def fst_set_dict_set)

lemma rrf_list_score:
  "dict_get_or 0 (rrf_scores (rrf_list k rank ps m)) key
     = dict_get_or 0 (rrf_scores m) key + list_score k key rank ps"
  by (induction ps arbitrary: rank m) (auto simp: rrf_add_def Let_def)

lemma rrf_collect_facts:
  shows rrf_inv_collect: "rrf_inv (rrf_collect rls k)"
    and rrf_collect_keys: "fst ` set (rrf_scores (rrf_collect rls k)) = (\<Union>l \<in> set rls. paper_key ` set l)"
    and rrf_collect_score: "dict_get_or 0 (rrf_scores (rrf_collect rls k)) key = fused_score (rrf_k k) key rls"
proof -
  let ?f = "\<lambda>ls m. fold (rrf_list (rrf_k k) 0) ls m"
  have inv: "rrf_inv m \<Longrightarrow> rrf_inv (?f rls m)" for m
    by (induction rls arbitrary: m) (simp_all add: rrf_inv_list)
  show "rrf_inv (rrf_collect rls k)"
    unfolding rrf_collect_def by (rule inv) (simp add: rrf_inv_def)
  have "fst ` set (rrf_scores (?f rls m)) = fst ` set (rrf_scores m) \<union> (\<Union>l \<in> set rls. paper_key ` set l)" for m
    by (induction rls arbitrary: m) (simp_all add: rrf_list_keys Un_assoc)
  then show "fst ` set (rrf_scores (rrf_collect rls k)) = (\<Union>l \<in> set rls. paper_key ` set l)"
    by (simp add: rrf_collect_def)
  have "dict_get_or 0 (rrf_scores (?f rls m)) key
          = dict_get_or 0 (rrf_scores m) key + fused_score (rrf_k k) key rls" for m
    by (induction rls arbitrary: m) (simp_all add: rrf_list_score fused_score_def)
  then show "dict_get_or 0 (rrf_scores (rrf_collect rls k)) key = fused_score (rrf_k k) key rls"
    by (simp add: rrf_collect_def)
qed

subsection \<open>What fusion returns\<close>

abbreviation rrf_entry :: "paper list list \<Rightarrow> int \<Rightarrow> string \<Rightarrow> paper" where
  "rrf_entry rls k key \<equiv> (dict_get_or zero_paper (rrf_papers (rrf_collect rls k)) key)
     \<lparr>p_score := dict_get_or 0 (rrf_scores (rrf_collect rls k)) key\<rparr>"

lemma rrf_entry_key:
  assumes "key \<in> fst ` set (rrf_scores (rrf_collect rls k))"
  shows "paper_key (rrf_entry rls k key) = key"
    and "p_score (rrf_entry rls k key) = fused_score (rrf_k k) key rls"
    and "p_source_apis (rrf_entry rls k key) = [] \<Longrightarrow> blank (p_source (rrf_entry rls k key))"
proof -
  have inv: "rrf_inv (rrf_collect rls k)" by (rule rrf_inv_collect)
  with assms have "key \<in> fst ` set (rrf_papers (rrf_collect rls k))" by (simp add: rrf_inv_def)
  then obtain e where e: "dict_get (rrf_papers (rrf_collect rls k)) key = Some e"
    by (metis map_of_eq_None_iff not_Some_eq)
  with inv have p: "paper_key e = key" "p_source_apis e = [] \<longrightarrow> blank (p_source e)"
    by (auto simp: rrf_inv_def)
  show "paper_key (rrf_entry rls k key) = key"
    using p e by (simp add: dict_get_or_Some)
  show "p_score (rrf_entry rls k key) = fused_score (rrf_k k) key rls"
    by (simp add: rrf_collect_score)
  show "p_source_apis (rrf_entry rls k key) = [] \<Longrightarrow> blank (p_source (rrf_entry rls k key))"
    using p e by (simp add: dict_get_or_def)
qed

lemma rrf_fuse_entries:
  "rrf_fuse ord rls k = sort_key rrf_order (map (rrf_entry rls k) ord)"
  by (simp add: rrf_fuse_def Let_def)

lemma map_sort_key: "map f (sort_key f xs) = sort (map f xs)"
  by (rule properties_for_sort [symmetric])
     simp_all

lemma sort_mset_eq: "mset xs = mset ys \<Longrightarrow> sort xs = sort ys"
  by (metis sorted_list_of_multiset_mset)

lemma mset_rrf_fuse_keys:
  assumes "map_order ord (rrf_scores (rrf_collect rls k))"
  shows "mset (map paper_key (rrf_fuse ord rls k)) = mset ord"
proof -
  have "map paper_key (map (rrf_entry rls k) ord) = ord"
    unfolding map_map
    by (rule map_idI) (use assms rrf_entry_key(1) in \<open>simp add: map_order_def\<close>)
  then have "mset ord = image_mset paper_key (mset (map (rrf_entry rls k) ord))"
    by (metis (no_types) mset_map)
  then show ?thesis by (simp only: rrf_fuse_entries mset_map mset_sort)
qed

lemma rrf_fuse_distinct:
  assumes "map_order ord (rrf_scores (rrf_collect rls k))"
  shows "distinct (map paper_key (rrf_fuse ord rls k))"
  using assms mset_eq_imp_distinct_iff [OF mset_rrf_fuse_keys [OF assms]] by (simp add: map_order_def)

text \<open>
  C21. Reciprocal rank fusion returns each paper once: for every iteration order of the score map,
  the result has exactly one paper per key that occurs in a provider's list, its score is the sum
  of 1 / (k + rank + 1) over all its occurrences (k is 60 unless positive), and the result is
  sorted by descending score, equal scores by descending citation count.
\<close>

theorem rrf_fuse_correct:
  assumes "map_order ord (rrf_scores (rrf_collect rls k))"
  shows "distinct (map paper_key (rrf_fuse ord rls k))
         \<and> paper_key ` set (rrf_fuse ord rls k) = (\<Union>l \<in> set rls. paper_key ` set l)
         \<and> map p_score (rrf_fuse ord rls k)
             = map (\<lambda>p. fused_score (rrf_k k) (paper_key p) rls) (rrf_fuse ord rls k)
         \<and> sorted (map rrf_order (rrf_fuse ord rls k))"
proof -
  let ?out = "rrf_fuse ord rls k"
  have m: "mset (map paper_key ?out) = mset ord" using assms by (rule mset_rrf_fuse_keys)
  have "distinct (map paper_key ?out)" using assms by (rule rrf_fuse_distinct)
  moreover have "paper_key ` set ?out = (\<Union>l \<in> set rls. paper_key ` set l)"
    using assms mset_eq_setD [OF m] by (simp add: map_order_def rrf_collect_keys)
  moreover have "p_score p = fused_score (rrf_k k) (paper_key p) rls" if "p \<in> set ?out" for p
  proof -
    from that obtain key where "key \<in> set ord" "p = rrf_entry rls k key"
      by (auto simp: rrf_fuse_entries)
    with assms show ?thesis using rrf_entry_key [of key rls k] by (simp add: map_order_def)
  qed
  moreover have "sorted (map rrf_order ?out)" by (simp add: rrf_fuse_entries)
  ultimately show ?thesis by (simp cong: map_cong)
qed

text \<open>Two providers, one paper in both lists: it comes first.\<close>

theorem rrf_fuse_correct_witness:
  "let a = zero_paper\<lparr>p_doi := ''10.1/A''\<rparr>; b = zero_paper\<lparr>p_doi := ''10.1/b''\<rparr>;
       out = rrf_fuse [''doi:10.1/a'', ''doi:10.1/b''] [[b], [b, a]] 60
   in map paper_key out = [''doi:10.1/b'', ''doi:10.1/a'']
      \<and> map p_score out = map (\<lambda>p. fused_score (rrf_k 60) (paper_key p) [[b], [b, a]]) out"
proof -
  let ?a = "zero_paper\<lparr>p_doi := ''10.1/A''\<rparr>" and ?b = "zero_paper\<lparr>p_doi := ''10.1/b''\<rparr>"
  let ?o = "[''doi:10.1/a'', ''doi:10.1/b'']"
  have "map_order ?o (rrf_scores (rrf_collect [[?b], [?b, ?a]] 60))"
    unfolding map_order_def by (code_simp)
  note f = rrf_fuse_correct [OF this]
  have "map paper_key (rrf_fuse ?o [[?b], [?b, ?a]] 60) = [''doi:10.1/b'', ''doi:10.1/a'']"
    by code_simp
  with f show ?thesis by (simp add: Let_def)
qed

subsection \<open>The order in which providers answer\<close>

abbreviation occurrences :: "paper list list \<Rightarrow> paper set" where
  "occurrences rls \<equiv> (\<Union>l \<in> set rls. set l)"

definition cites :: "paper set \<Rightarrow> string \<Rightarrow> int set" where
  "cites S key = p_citation_count ` {p \<in> S. paper_key p = key}"

definition cite_inv :: "paper set \<Rightarrow> rrf_maps \<Rightarrow> bool" where
  "cite_inv S m \<longleftrightarrow> finite S \<and> fst ` set (rrf_papers m) = paper_key ` S \<and>
     (\<forall>key e. dict_get (rrf_papers m) key = Some e \<longrightarrow> p_citation_count e = Max (cites S key))"

lemma cites_insert:
  "cites (insert p S) key = (if paper_key p = key then insert (p_citation_count p) (cites S key) else cites S key)"
  by (auto simp: cites_def)

lemma cites_Nil_iff: "cites S key = {} \<longleftrightarrow> key \<notin> paper_key ` S"
  by (auto simp: cites_def)

lemma cite_inv_add: "cite_inv S m \<Longrightarrow> cite_inv (insert p S) (rrf_add k rank p m)"
proof -
  assume a: "cite_inv S m"
  have fin: "finite (cites S key)" for key using a by (simp add: cite_inv_def cites_def)
  have new: "dict_get (rrf_papers m) key = None \<longleftrightarrow> cites S key = {}" for key
    using a by (simp add: cites_Nil_iff cite_inv_def map_of_eq_None_iff)
  show ?thesis
  proof (cases "dict_get (rrf_papers m) (paper_key p)")
    case None
    then have "cites S (paper_key p) = {}" by (simp add: new)
    with a None show ?thesis
      by (simp add: cite_inv_def rrf_add_def Let_def fst_set_dict_set dict_get_set cites_insert fill_source_apis_def)
  next
    case (Some e)
    then have "cites S (paper_key p) \<noteq> {}" by (simp flip: new)
    with a Some show ?thesis
      by (simp add: cite_inv_def rrf_add_def Let_def fst_set_dict_set dict_get_set cites_insert rrf_merge_def
            Max_insert [OF fin] max_def)
  qed
qed

lemma cite_inv_list: "cite_inv S m \<Longrightarrow> cite_inv (S \<union> set ps) (rrf_list k rank ps m)"
proof (induction ps arbitrary: S rank m)
  case (Cons p ps)
  from Cons.IH [OF cite_inv_add [OF Cons.prems, of p k rank], of "Suc rank"] show ?case by simp
qed simp

lemma cite_inv_collect: "cite_inv (occurrences rls) (rrf_collect rls k)"
proof -
  have "cite_inv S m \<Longrightarrow> cite_inv (S \<union> occurrences rls) (fold (rrf_list (rrf_k k) 0) rls m)" for S m
  proof (induction rls arbitrary: S m)
    case (Cons l rls)
    from Cons.IH [OF cite_inv_list [OF Cons.prems, of l "rrf_k k" 0]] show ?case
      by (simp add: Un_assoc)
  qed simp
  from this [of "{}" "\<lparr>rrf_scores = [], rrf_papers = []\<rparr>"] show ?thesis
    by (simp add: rrf_collect_def cite_inv_def)
qed

lemma rrf_entry_order:
  assumes "key \<in> fst ` set (rrf_scores (rrf_collect rls k))"
  shows "rrf_order (rrf_entry rls k key) =
    (- fused_score (rrf_k k) key rls,
     - Max (cites (occurrences rls) key))"
proof -
  have "key \<in> fst ` set (rrf_papers (rrf_collect rls k))"
    using assms rrf_inv_collect [of rls k] by (simp add: rrf_inv_def)
  then obtain e where e: "dict_get (rrf_papers (rrf_collect rls k)) key = Some e"
    by (metis map_of_eq_None_iff not_Some_eq)
  with cite_inv_collect [of rls k] show ?thesis
    by (simp add: rrf_order_def rrf_collect_score cite_inv_def dict_get_or_Some)
qed

lemma fused_score_perm: "mset rls = mset rls' \<Longrightarrow> fused_score k key rls = fused_score k key rls'"
  unfolding fused_score_def by (metis mset_map sum_mset_sum_list)

text \<open>
  The ranking does not depend on the order in which the providers answer: if the same lists
  arrive in another order, and the maps are visited in any other order, the keys and their scores
  are the same and so is the sequence of scores and citation counts, so that papers can change
  places only with papers of the same score and citation count.
\<close>

theorem rrf_fuse_arrival_order:
  assumes "map_order ord (rrf_scores (rrf_collect rls k))"
    and "map_order ord' (rrf_scores (rrf_collect rls' k))" and "mset rls = mset rls'"
  shows "map rrf_order (rrf_fuse ord rls k) = map rrf_order (rrf_fuse ord' rls' k)
         \<and> (\<lambda>p. (paper_key p, rrf_order p)) ` set (rrf_fuse ord rls k)
             = (\<lambda>p. (paper_key p, rrf_order p)) ` set (rrf_fuse ord' rls' k)"
proof -
  have s: "set rls = set rls'" using assms(3) by (rule mset_eq_setD)
  have ks: "set ord = fst ` set (rrf_scores (rrf_collect rls k))"
    "set ord' = fst ` set (rrf_scores (rrf_collect rls' k))" using assms(1,2) by (simp_all add: map_order_def)
  then have so: "set ord = set ord'" by (simp add: rrf_collect_keys s)
  then have mo: "mset ord = mset ord'"
    using set_eq_iff_mset_eq_distinct [of ord ord'] assms(1,2) unfolding map_order_def by blast
  have eq: "rrf_order (rrf_entry rls k key) = rrf_order (rrf_entry rls' k key)" if "key \<in> set ord" for key
    using that so ks rrf_entry_order [of key rls k] rrf_entry_order [of key rls' k]
      fused_score_perm [OF assms(3)] s by simp
  have "map rrf_order (map (rrf_entry rls k) ord) = map rrf_order (map (rrf_entry rls' k) ord)"
    unfolding map_map by (rule map_cong [OF refl]) (simp only: comp_apply eq)
  then have "mset (map rrf_order (map (rrf_entry rls k) ord)) = mset (map rrf_order (map (rrf_entry rls' k) ord'))"
    by (simp only: mset_map mo)
  then have "map rrf_order (rrf_fuse ord rls k) = map rrf_order (rrf_fuse ord' rls' k)"
    unfolding rrf_fuse_entries map_sort_key by (rule sort_mset_eq)
  moreover have "(\<lambda>p. (paper_key p, rrf_order p)) ` set (rrf_fuse ord rls k)
      = (\<lambda>key. (key, rrf_order (rrf_entry rls k key))) ` set ord"
    using ks rrf_entry_key(1) [of _ rls k] by (auto simp: rrf_fuse_entries image_image intro!: image_cong)
  moreover have "(\<lambda>p. (paper_key p, rrf_order p)) ` set (rrf_fuse ord' rls' k)
      = (\<lambda>key. (key, rrf_order (rrf_entry rls' k key))) ` set ord'"
    using ks rrf_entry_key(1) [of _ rls' k] by (auto simp: rrf_fuse_entries image_image intro!: image_cong)
  ultimately show ?thesis using eq so by (simp cong: image_cong)
qed

text \<open>The lists of the example above in the other order, and the maps visited backwards.\<close>

theorem rrf_fuse_arrival_order_witness:
  "let a = zero_paper\<lparr>p_doi := ''10.1/A''\<rparr>; b = zero_paper\<lparr>p_doi := ''10.1/b''\<rparr>
   in map rrf_order (rrf_fuse [''doi:10.1/a'', ''doi:10.1/b''] [[b], [b, a]] 60)
      = map rrf_order (rrf_fuse [''doi:10.1/b'', ''doi:10.1/a''] [[b, a], [b]] 60)"
proof -
  let ?a = "zero_paper\<lparr>p_doi := ''10.1/A''\<rparr>" and ?b = "zero_paper\<lparr>p_doi := ''10.1/b''\<rparr>"
  have o: "map_order [''doi:10.1/a'', ''doi:10.1/b''] (rrf_scores (rrf_collect [[?b], [?b, ?a]] 60))"
    "map_order [''doi:10.1/b'', ''doi:10.1/a''] (rrf_scores (rrf_collect [[?b, ?a], [?b]] 60))"
    unfolding map_order_def by code_simp+
  have "mset [[?b], [?b, ?a]] = mset [[?b, ?a], [?b]]" by simp
  from rrf_fuse_arrival_order [OF o this] show ?thesis by (simp only: Let_def)
qed

section \<open>Deduplication\<close>

definition dedup_merge :: "paper \<Rightarrow> paper \<Rightarrow> paper" where
  "dedup_merge e p =
     (let keep = (\<lambda>f. if blank (f e) \<and> \<not> blank (f p) then f p else f e)
      in e\<lparr>p_source_apis := merge_provider_list (p_source_apis e) (p_source_apis p) [p_source e, p_source p],
        p_abstract := keep p_abstract,
        p_link := keep p_link,
        p_doi := keep p_doi,
        p_arxiv_id := keep p_arxiv_id,
        p_source := keep p_source,
        p_authors := (if count_non_empty_strings (p_authors e) < count_non_empty_strings (p_authors p)
                      then p_authors p else p_authors e),
        p_year := (if p_year e = 0 \<and> p_year p \<noteq> 0 then p_year p else p_year e),
        p_month := (if p_month e = 0 \<and> p_month p \<noteq> 0 then p_month p else p_month e),
        p_venue := keep p_venue,
        p_keywords := merge_provider_list (p_keywords e) (p_keywords p) [],
        p_citation_count := max (p_citation_count e) (p_citation_count p),
        p_reference_count := max (p_reference_count e) (p_reference_count p),
        p_influential_citation_count := max (p_influential_citation_count e) (p_influential_citation_count p),
        p_open_access_url := keep p_open_access_url,
        p_pdf_url := keep p_pdf_url,
        p_score := max (p_score e) (p_score p),
        p_evidence_level := keep p_evidence_level,
        p_full_text := keep p_full_text,
        p_structure_map := (if p_structure_map e = [] \<and> p_structure_map p \<noteq> [] then p_structure_map p
                            else p_structure_map e)\<rparr>)"

definition dedup_step :: "paper \<Rightarrow> nat dict \<times> paper list \<Rightarrow> nat dict \<times> paper list" where
  "dedup_step p = (\<lambda>(seen, out).
     case dict_get seen (paper_key p) of
       Some i \<Rightarrow> (seen, out[i := dedup_merge (out ! i) p])
     | None \<Rightarrow> (dict_set (paper_key p) (length out) seen, out @ [fill_source_apis p]))"

definition deduplicate :: "paper list \<Rightarrow> paper list" where
  "deduplicate ps = snd (fold dedup_step ps ([], []))"

text \<open>
  The slice index in \<open>seen\<close> is always in range, and it is the index of the paper with that key:
  merging a paper of the same key never changes the key.
\<close>

lemma paper_key_dedup_merge: "paper_key e = paper_key p \<Longrightarrow> paper_key (dedup_merge e p) = paper_key e"
proof -
  assume k: "paper_key e = paper_key p"
  then have "p_doi (dedup_merge e p) = p_doi e"
    using paper_key_eq_doi(2) [OF k] by (simp add: dedup_merge_def Let_def)
  moreover have "p_title (dedup_merge e p) = p_title e" by (simp add: dedup_merge_def Let_def)
  ultimately show ?thesis by (rule paper_key_cong)
qed

definition dedup_inv :: "nat dict \<times> paper list \<Rightarrow> bool" where
  "dedup_inv = (\<lambda>(seen, out). \<forall>key i. dict_get seen key = Some i \<longleftrightarrow>
     i < length out \<and> paper_key (out ! i) = key)"

lemma dedup_inv_distinct: "dedup_inv (seen, out) \<Longrightarrow> distinct (map paper_key out)"
  unfolding distinct_conv_nth dedup_inv_def
  by (auto simp: nth_eq_iff_index_eq) (metis option.inject)

lemma dedup_inv_get:
  assumes "dedup_inv (seen, out)"
  shows "dict_get seen k = None \<longleftrightarrow> k \<notin> paper_key ` set out"
    and "dict_get seen k = Some i \<longleftrightarrow> i < length out \<and> paper_key (out ! i) = k"
proof -
  show s: "dict_get seen k = Some i \<longleftrightarrow> i < length out \<and> paper_key (out ! i) = k" for i
    using assms by (simp add: dedup_inv_def)
  show "dict_get seen k = None \<longleftrightarrow> k \<notin> paper_key ` set out"
  proof
    assume n: "dict_get seen k = None"
    show "k \<notin> paper_key ` set out"
    proof
      assume "k \<in> paper_key ` set out"
      then obtain i where "i < length out" "paper_key (out ! i) = k" by (auto simp: in_set_conv_nth)
      with s n show False by simp
    qed
  next
    assume "k \<notin> paper_key ` set out"
    with s show "dict_get seen k = None" by (metis image_eqI not_Some_eq nth_mem)
  qed
qed

lemma dedup_inv_step [inv_intros]: "dedup_inv so \<Longrightarrow> dedup_inv (dedup_step p so)"
proof (cases so)
  case (Pair seen out)
  assume inv: "dedup_inv so"
  show ?thesis
  proof (cases "dict_get seen (paper_key p)")
    case None
    with inv Pair have new: "paper_key p \<notin> paper_key ` set out" by (simp add: dedup_inv_get(1))
    have "dict_get (dict_set (paper_key p) (length out) seen) k = Some i \<longleftrightarrow>
       i < length (out @ [fill_source_apis p]) \<and> paper_key ((out @ [fill_source_apis p]) ! i) = k" for k i
    proof (cases "i < length out")
      case True
      then have "paper_key (out ! i) \<noteq> paper_key p" using new by (metis image_eqI nth_mem)
      then show ?thesis
        using True new dedup_inv_get(2) [OF inv [unfolded Pair], of k i]
        by (auto simp: dict_get_set nth_append)
    next
      case False
      then show ?thesis
        using dedup_inv_get(2) [OF inv [unfolded Pair], of k i]
        by (auto simp: dict_get_set nth_append less_Suc_eq)
    qed
    with None Pair show ?thesis by (simp add: dedup_inv_def dedup_step_def)
  next
    case (Some i)
    with inv Pair have i: "i < length out" "paper_key (out ! i) = paper_key p"
      by (auto simp: dedup_inv_def)
    then have "paper_key (out[i := dedup_merge (out ! i) p] ! j) = paper_key (out ! j)" if "j < length out" for j
      using that by (cases "i = j") (simp_all add: paper_key_dedup_merge)
    moreover have "dedup_step p so = (seen, out[i := dedup_merge (out ! i) p])"
      using Some Pair by (simp add: dedup_step_def)
    ultimately show ?thesis using inv Pair by (auto simp: dedup_inv_def)
  qed
qed

lemma dedup_step_keys:
  assumes "dedup_inv so"
  shows "map paper_key (snd (dedup_step p so)) =
     (if paper_key p \<in> paper_key ` set (snd so) then map paper_key (snd so)
      else map paper_key (snd so) @ [paper_key p])"
proof (cases so)
  case (Pair seen out)
  show ?thesis
  proof (cases "dict_get seen (paper_key p)")
    case None
    with assms Pair have "paper_key p \<notin> paper_key ` set out" by (simp add: dedup_inv_get(1))
    with None Pair show ?thesis by (simp add: dedup_step_def)
  next
    case (Some i)
    with assms Pair have i: "i < length out" "paper_key (out ! i) = paper_key p"
      by (auto simp: dedup_inv_def)
    then have "paper_key p \<in> paper_key ` set out" by (metis image_eqI nth_mem)
    moreover have "map paper_key (out[i := dedup_merge (out ! i) p]) = map paper_key out"
      using i by (simp add: map_update paper_key_dedup_merge) (metis length_map list_update_id nth_map)
    ultimately show ?thesis using Some Pair by (simp add: dedup_step_def)
  qed
qed

lemma dedup_fold:
  assumes "dedup_inv so"
  shows "dedup_inv (fold dedup_step ps so)
         \<and> map paper_key (snd (fold dedup_step ps so))
             = map paper_key (snd so) @ uniq_by (\<lambda>k. k) (rev (map paper_key (snd so))) (map paper_key ps)"
  using assms
proof (induction ps arbitrary: so)
  case (Cons p ps)
  have inv: "dedup_inv (dedup_step p so)" using Cons.prems by (rule dedup_inv_step)
  from Cons.IH [OF inv] show ?case
    by (simp add: dedup_step_keys [OF Cons.prems])
qed simp

lemma dedup_inv_start: "dedup_inv ([], [])"
  by (simp add: dedup_inv_def)

lemma deduplicate_keys: "map paper_key (deduplicate ps) = uniq_by (\<lambda>k. k) [] (map paper_key ps)"
  using dedup_fold [OF dedup_inv_start, of ps] by (simp add: deduplicate_def)

lemma deduplicate_id:
  assumes "distinct (map paper_key ps)" "\<And>p. p \<in> set ps \<Longrightarrow> fill_source_apis p = p"
  shows "deduplicate ps = ps"
proof -
  have "distinct (map paper_key (snd so @ ps)) \<Longrightarrow> (\<And>p. p \<in> set ps \<Longrightarrow> fill_source_apis p = p) \<Longrightarrow>
      dedup_inv so \<Longrightarrow> snd (fold dedup_step ps so) = snd so @ ps" for so
  proof (induction ps arbitrary: so)
    case (Cons p ps)
    obtain seen out where so: "so = (seen, out)" by (cases so)
    have "paper_key p \<notin> paper_key ` set out" using Cons.prems(1) so by auto
    then have step: "snd (dedup_step p so) = out @ [p]"
      using dedup_inv_get(1) [of seen out "paper_key p"] Cons.prems(2,3) so by (simp add: dedup_step_def)
    have "snd (fold dedup_step ps (dedup_step p so)) = snd (dedup_step p so) @ ps"
    proof (rule Cons.IH)
      show "distinct (map paper_key (snd (dedup_step p so) @ ps))"
        using Cons.prems(1) unfolding step by (simp add: so)
      show "dedup_inv (dedup_step p so)" using Cons.prems(3) by (rule dedup_inv_step)
    qed (simp add: Cons.prems(2))
    then show ?case unfolding step by (simp add: so)
  qed simp
  from this [of "([], [])"] assms show ?thesis by (simp add: deduplicate_def dedup_inv_start)
qed

text \<open>
  Deduplication keeps one paper per key in the order of first occurrences, whatever is merged into
  the papers it keeps; and after rank fusion it changes nothing: fusion already has one paper per
  key, so two records of a paper of which only one carries the DOI both stay in the result.
\<close>

theorem deduplicate_correct:
  "map paper_key (deduplicate ps) = uniq_by (\<lambda>k. k) [] (map paper_key ps)
   \<and> deduplicate (deduplicate (rrf_fuse (map fst (rrf_scores (rrf_collect rls k))) rls k))
       = rrf_fuse (map fst (rrf_scores (rrf_collect rls k))) rls k"
proof -
  let ?ord = "map fst (rrf_scores (rrf_collect rls k))"
  let ?out = "rrf_fuse ?ord rls k"
  have ord: "map_order ?ord (rrf_scores (rrf_collect rls k))"
    using rrf_inv_collect [of rls k] by (simp add: map_order_def rrf_inv_def wf_dict_def)
  have "fill_source_apis p = p" if "p \<in> set ?out" for p
  proof -
    from that obtain key where "key \<in> set ?ord" "p = rrf_entry rls k key" by (auto simp: rrf_fuse_entries)
    then have "p_source_apis p = [] \<Longrightarrow> blank (p_source p)" using rrf_entry_key(3) [of key rls k] by simp
    then show ?thesis by (simp add: fill_source_apis_def)
  qed
  with rrf_fuse_distinct [OF ord] have "deduplicate ?out = ?out" by (blast intro: deduplicate_id)
  then show ?thesis by (simp add: deduplicate_keys)
qed

lemma normalise_non_ascii:
  "\<forall>c \<in> set t. (of_char c :: nat) = 32 \<or> 127 < (of_char c :: nat) \<Longrightarrow> normalise_title t = []"
proof -
  assume a: "\<forall>c \<in> set t. (of_char c :: nat) = 32 \<or> 127 < (of_char c :: nat)"
  have "set (filter title_char (to_lower t)) \<subseteq> {CHR '' ''}"
  proof
    fix c assume "c \<in> set (filter title_char (to_lower t))"
    then obtain d where d: "d \<in> set t" "c = lower_char d" "title_char c" by (auto simp: to_lower_def)
    then have "(of_char d :: nat) = 32 \<or> 127 < (of_char d :: nat)" using a by blast
    then have "c = d" using d(2) by (auto simp: lower_char_def Let_def)
    with d(3) \<open>(of_char d :: nat) = 32 \<or> 127 < (of_char d :: nat)\<close> have "(of_char c :: nat) = of_char (CHR '' '')"
      by (auto simp: title_char_def Let_def)
    then show "c \<in> {CHR '' ''}" by (simp only: of_char_eq_iff singleton_iff)
  qed
  moreover have "str_fields_aux [] s = []" if "set s \<subseteq> {CHR '' ''}" for s
    using that by (induction s) (auto simp: is_space_def)
  ultimately show ?thesis by (simp add: normalise_title_def str_fields_def)
qed

text \<open>
  Titles without any ASCII letter or digit all have the same key. Two papers with such titles and
  without DOI - two Chinese or Cyrillic titles, say - are taken for one: the second one's title
  disappears from the result.
\<close>

theorem non_latin_titles_collapse:
  assumes "p_doi p = []" "p_doi q = []"
    and "\<forall>c \<in> set (p_title p) \<union> set (p_title q). (of_char c :: nat) = 32 \<or> 127 < (of_char c :: nat)"
  shows "map p_title (deduplicate [p, q]) = [p_title p]"
proof -
  have "normalise_title (p_title p) = []" "normalise_title (p_title q) = []"
    using assms(3) by (auto intro!: normalise_non_ascii)
  with assms(1,2) have "paper_key q = paper_key p" by (simp add: paper_key_def)
  then show ?thesis
    by (simp add: deduplicate_def dedup_step_def dedup_merge_def Let_def fill_source_apis_def)
qed

text \<open>Two characters of the CJK block in UTF-8.\<close>

theorem non_latin_titles_collapse_witness:
  "let p = zero_paper\<lparr>p_title := [char_of (233 :: nat), char_of (135 :: nat), char_of (143 :: nat)]\<rparr>;
       q = zero_paper\<lparr>p_title := [char_of (231 :: nat), char_of (148 :: nat), char_of (159 :: nat)]\<rparr>
   in p_title p \<noteq> p_title q \<and> map p_title (deduplicate [p, q]) = [p_title p]"
  unfolding Let_def
  by (rule conjI, simp, rule non_latin_titles_collapse) (simp_all add: zero_paper_def)

section \<open>Boosts\<close>

definition max_provider_score :: "real dict \<Rightarrow> paper \<Rightarrow> real" where
  "max_provider_score scores p =
     fold (\<lambda>prov m. case dict_get scores prov of Some s \<Rightarrow> (if m < s then s else m) | None \<Rightarrow> m)
       (p_source_apis p) 0"

definition intelligence_boosted :: "real dict \<Rightarrow> paper \<Rightarrow> paper" where
  "intelligence_boosted scores p =
     (let m = max_provider_score scores p in
      if 0 < m then p\<lparr>p_score := p_score p * (1 + m * (1 / 10))\<rparr> else p)"

definition boost_by_intelligence :: "real dict \<Rightarrow> paper list \<Rightarrow> paper list" where
  "boost_by_intelligence scores ps =
     (if scores = [] then ps
      else sort_key (\<lambda>p. - p_score p) (map (intelligence_boosted scores) ps))"

definition click_boost :: "int \<Rightarrow> real" where
  "click_boost n = (if 50 < n then 1 / 5 else if 10 < n then 1 / 10 else if 0 < n then 1 / 20 else 0)"

definition click_boosted :: "int dict \<Rightarrow> paper \<Rightarrow> paper" where
  "click_boosted clicks p =
     (case dict_get clicks (p_id p) of
        Some n \<Rightarrow> p\<lparr>p_score := p_score p * (1 + click_boost n)\<rparr>
      | None \<Rightarrow> p)"

definition boost_by_clicks :: "int dict \<Rightarrow> paper list \<Rightarrow> paper list" where
  "boost_by_clicks clicks ps =
     (if clicks = [] then ps
      else sort_key (\<lambda>p. - p_score p) (map (click_boosted clicks) ps))"

lemma mset_sort_map:
  assumes "\<And>p. f (h p) = f p"
  shows "mset (map f (sort_key g (map h ps))) = mset (map f ps)"
proof -
  have "mset (map f (sort_key g (map h ps))) = image_mset f (mset (map h ps))" by simp
  also have "\<dots> = mset (map f (map h ps))" by (simp only: mset_map)
  also have "map f (map h ps) = map f ps" by (simp add: assms)
  finally show ?thesis .
qed

abbreviation unscored :: "paper \<Rightarrow> paper" where
  "unscored p \<equiv> p\<lparr>p_score := 0\<rparr>"

lemma unscored_boosted [simp]:
  "unscored (intelligence_boosted scores p) = unscored p" "unscored (click_boosted clicks p) = unscored p"
  by (simp_all add: intelligence_boosted_def click_boosted_def Let_def split: option.splits)

lemma boost_papers:
  "mset (map unscored (boost_by_intelligence scores ps)) = mset (map unscored ps)"
  "mset (map unscored (boost_by_clicks clicks ps)) = mset (map unscored ps)"
  unfolding boost_by_intelligence_def boost_by_clicks_def
  by (simp_all only: mset_sort_map unscored_boosted split: if_splits) simp_all

text \<open>
  The boosts neither lose nor invent papers, a boost never lowers a score, clicks raise it by at most
  a fifth, and what is boosted is sorted by descending score.
\<close>

theorem boosts_rerank:
  assumes "\<forall>p \<in> set ps. 0 \<le> p_score p"
  shows "mset (map unscored (boost_by_clicks clicks (boost_by_intelligence scores ps))) = mset (map unscored ps)
     \<and> (clicks \<noteq> [] \<longrightarrow> sorted (map (\<lambda>p. - p_score p) (boost_by_clicks clicks ps)))
     \<and> (\<forall>p \<in> set ps. p_score p \<le> p_score (intelligence_boosted scores p)
          \<and> p_score p \<le> p_score (click_boosted clicks p)
          \<and> p_score (click_boosted clicks p) \<le> 6 / 5 * p_score p)"
proof -
  have "p_score p \<le> p_score (intelligence_boosted scores p)
          \<and> p_score p \<le> p_score (click_boosted clicks p)
          \<and> p_score (click_boosted clicks p) \<le> 6 / 5 * p_score p" if "p \<in> set ps" for p
    using assms that
    by (auto simp: intelligence_boosted_def click_boosted_def click_boost_def Let_def algebra_simps
        split: option.splits)
  moreover have "clicks \<noteq> [] \<longrightarrow> sorted (map (\<lambda>p. - p_score p) (boost_by_clicks clicks ps))"
    by (simp add: boost_by_clicks_def)
  moreover have "mset (map unscored (boost_by_clicks clicks (boost_by_intelligence scores ps))) = mset (map unscored ps)"
    by (simp only: boost_papers)
  ultimately show ?thesis by blast
qed

theorem boosts_rerank_witness:
  "p_score (click_boosted [(''a'', 60)] (zero_paper\<lparr>p_id := ''a'', p_score := 1\<rparr>)) \<le> 6 / 5"
  using boosts_rerank [of "[zero_paper\<lparr>p_id := ''a'', p_score := 1\<rparr>]" "[(''a'', 60)]" "[]"] by simp

end
