(* ===== verification/PaperRank.thy ===== *)
theory PaperRank
  imports RankFusion AccessPolicy
begin

text \<open>
  How papers are ordered once they are fused: the intent of a query, the norms of a paper's signals
  and the preference scores (\<open>orchestrator/internal/search/paper_rank.go\<close>, \<open>venue_prestige.go\<close>,
  \<open>ScoreQuality\<close> and \<open>InferEvidenceLevel\<close> of \<open>provider.go\<close>), and the Quick Mode tabs with their
  merge (\<open>quick_mode.go\<close>). Scores are exact reals; the current year is an argument.
\<close>

section \<open>Intent of a query\<close>

datatype query_rank_intent =
  IntentDefault | IntentTrends | IntentReview | IntentMethodology | IntentCited | IntentAuthorImpact

definition detect_query_rank_intent :: "string \<Rightarrow> query_rank_intent" where
  "detect_query_rank_intent query =
     (let q = to_lower query in
      if contains_any q [''trend'', ''trends'', ''trending'', ''latest'', ''recent advances'', ''recent progress'',
            ''newly'', ''state of the art'', ''sota'', ''current'', ''modern'', ''2024'', ''2025'', ''2026'']
         \<or> contains_any q [''recent'', ''new''] then IntentTrends
      else if contains_any q [''systematic review'', ''literature review'', ''meta-analysis'', ''meta analysis'',
            ''survey'', ''review of'']
         \<or> (contains q ''review'' \<and> \<not> contains q ''peer review'') then IntentReview
      else if contains_any q [''method'', ''methodology'', ''protocol'', ''procedure'', ''technique'', ''how to'',
            ''approach''] then IntentMethodology
      else if contains_any q [''classic'', ''foundational'', ''seminal'', ''most cited'', ''highly cited'',
            ''citation'', ''popular'', ''famous'', ''landmark'', ''influential'', ''pioneer'', ''key papers'',
            ''seminal work''] then IntentCited
      else if contains_any q [''h-index'', ''hindex'', ''h-factor'', ''h factor'', ''author impact'',
            ''prestigious'', ''h-value''] then IntentAuthorImpact
      else IntentDefault)"

section \<open>Signals of a paper\<close>

definition recency_norm :: "int \<Rightarrow> int \<Rightarrow> real" where
  "recency_norm current_year year =
     (if year \<le> 0 then 35 / 100
      else (let age = max 0 (current_year - year) in
            if 12 \<le> age then 0 else 1 - real_of_int age / 12))"

definition log_norm :: "real \<Rightarrow> real \<Rightarrow> real" where
  "log_norm cap x = ln (1 + min x cap) / ln (1 + cap)"

definition citation_norm :: "int \<Rightarrow> real" where
  "citation_norm n = log_norm 10000 (real_of_int n)"

definition author_impact_norm :: "paper \<Rightarrow> real" where
  "author_impact_norm p = log_norm 500 (real_of_int (p_influential_citation_count p))"

definition venue_prestige_table :: "(string \<times> real) list" where
  "venue_prestige_table =
     [(''nature communications'', 80), (''new england journal of medicine'', 90),
      (''proceedings of the national academy'', 85), (''science advances'', 78),
      (''ieee transactions'', 75), (''nature'', 100), (''science'', 98), (''cell'', 95),
      (''lancet'', 92), (''nejm'', 90), (''jama'', 88), (''pnas'', 85), (''acm'', 75),
      (''plos one'', 70), (''frontiers'', 65), (''mdpi'', 60), (''arxiv'', 60), (''biorxiv'', 58),
      (''medrxiv'', 55)]"

definition venue_prestige_norm :: "string \<Rightarrow> real" where
  "venue_prestige_norm venue =
     (let v = to_lower (trim_space venue) in
      if v = [] then 50 / 100
      else (case find (\<lambda>(needle, score). contains v needle) venue_prestige_table of
              Some (needle, score) \<Rightarrow> score / 100
            | None \<Rightarrow> 50 / 100))"

definition access_norm :: "string \<Rightarrow> string \<Rightarrow> real" where
  "access_norm open_access_url pdf_url =
     (if \<not> blank open_access_url \<or> \<not> blank pdf_url then 1 else 30 / 100)"

definition relevance_norm :: "paper \<Rightarrow> real" where
  "relevance_norm p = (let r = max 0 (p_score p) in if 1 < r then 1 else r)"

definition code_availability_norm :: "paper \<Rightarrow> real" where
  "code_availability_norm p =
     (let h = to_lower (p_source p @ '' '' @ join '' '' (p_source_apis p)) in
      if contains h ''paperswithcode'' \<or> contains h ''pwc'' then 1 else 0)"

definition citation_velocity_norm :: "int \<Rightarrow> paper \<Rightarrow> real" where
  "citation_velocity_norm current_year p =
     (let age = (if p_year p \<le> 0 then 6 else current_year - p_year p);
          age = (if age < 1 then 1 else age)
      in log_norm 500 (real_of_int (p_citation_count p) / real_of_int age))"

section \<open>Preference scores\<close>

text \<open>The local weights of \<open>PaperPreferenceScoreWithQuery\<close>.\<close>

record preference_weights =
  pw_recency :: real
  pw_citation :: real
  pw_relevance :: real
  pw_venue :: real
  pw_access :: real
  pw_author_impact :: real

definition default_weights :: preference_weights where
  "default_weights = \<lparr>pw_recency = 40 / 100, pw_citation = 25 / 100, pw_relevance = 20 / 100,
     pw_venue = 10 / 100, pw_access = 5 / 100, pw_author_impact = 0\<rparr>"

fun intent_weights :: "query_rank_intent \<Rightarrow> preference_weights" where
  "intent_weights IntentTrends = \<lparr>pw_recency = 40 / 100, pw_citation = 15 / 100, pw_relevance = 20 / 100,
     pw_venue = 15 / 100, pw_access = 10 / 100, pw_author_impact = 0\<rparr>"
| "intent_weights IntentReview = \<lparr>pw_recency = 10 / 100, pw_citation = 35 / 100, pw_relevance = 20 / 100,
     pw_venue = 30 / 100, pw_access = 5 / 100, pw_author_impact = 0\<rparr>"
| "intent_weights IntentMethodology = \<lparr>pw_recency = 15 / 100, pw_citation = 20 / 100, pw_relevance = 30 / 100,
     pw_venue = 15 / 100, pw_access = 20 / 100, pw_author_impact = 0\<rparr>"
| "intent_weights IntentCited = \<lparr>pw_recency = 10 / 100, pw_citation = 55 / 100, pw_relevance = 25 / 100,
     pw_venue = 10 / 100, pw_access = 0, pw_author_impact = 0\<rparr>"
| "intent_weights IntentAuthorImpact = \<lparr>pw_recency = 15 / 100, pw_citation = 25 / 100, pw_relevance = 15 / 100,
     pw_venue = 10 / 100, pw_access = 5 / 100, pw_author_impact = 30 / 100\<rparr>"
| "intent_weights IntentDefault = default_weights"

definition paper_preference_score :: "int \<Rightarrow> paper \<Rightarrow> real" where
  "paper_preference_score yr p =
     40 / 100 * recency_norm yr (p_year p) + 25 / 100 * citation_norm (p_citation_count p)
     + 20 / 100 * relevance_norm p + 10 / 100 * venue_prestige_norm (p_venue p)
     + 5 / 100 * access_norm (p_open_access_url p) (p_pdf_url p)"

definition paper_preference_score_with_query :: "int \<Rightarrow> string \<Rightarrow> paper \<Rightarrow> real" where
  "paper_preference_score_with_query yr query p =
     (let w = intent_weights (detect_query_rank_intent query) in
      pw_recency w * recency_norm yr (p_year p) + pw_citation w * citation_norm (p_citation_count p)
      + pw_relevance w * relevance_norm p + pw_venue w * venue_prestige_norm (p_venue p)
      + pw_access w * access_norm (p_open_access_url p) (p_pdf_url p)
      + pw_author_impact w * author_impact_norm p)"

definition paper_preference_score_with_weights :: "int \<Rightarrow> ranking_weights \<Rightarrow> paper \<Rightarrow> real" where
  "paper_preference_score_with_weights yr w p =
     (let has_pdf = (if \<not> blank (p_pdf_url p) \<or> \<not> blank (p_open_access_url p) then 1 else 0) in
      w_citations w * citation_norm (p_citation_count p) + w_recency w * recency_norm yr (p_year p)
      + w_relevance w * relevance_norm p + w_venue_prestige w * venue_prestige_norm (p_venue p)
      + w_has_code w * code_availability_norm p + w_has_pdf w * has_pdf
      + w_citation_velocity w * citation_velocity_norm yr p)"

definition paper_preference_score_with_research_mode :: "int \<Rightarrow> string \<Rightarrow> paper \<Rightarrow> real" where
  "paper_preference_score_with_research_mode yr mode p =
     paper_preference_score_with_weights yr (mode_ranking_weights yr (fst (normalize_research_mode mode))) p"

section \<open>Orders\<close>

text \<open>The comparator of the three stable sorts.\<close>

definition preference_less :: "(paper \<Rightarrow> real) \<Rightarrow> paper \<Rightarrow> paper \<Rightarrow> bool" where
  "preference_less f p q \<longleftrightarrow>
     (if f p = f q
      then (if p_year p = p_year q then p_citation_count q < p_citation_count p else p_year q < p_year p)
      else f q < f p)"

text \<open>
  The comparators order by score, then year, then citations, all descending; \<open>sort.SliceStable\<close>
  with such a comparator is the stable sort by this key.
\<close>

definition preference_key :: "(paper \<Rightarrow> real) \<Rightarrow> paper \<Rightarrow> real \<times> int \<times> int" where
  "preference_key f p = (- f p, - p_year p, - p_citation_count p)"

definition sort_papers_by_preference :: "int \<Rightarrow> paper list \<Rightarrow> paper list" where
  "sort_papers_by_preference yr ps = sort_key (preference_key (paper_preference_score yr)) ps"

definition sort_papers_by_preference_with_query :: "int \<Rightarrow> string \<Rightarrow> paper list \<Rightarrow> paper list" where
  "sort_papers_by_preference_with_query yr query ps =
     sort_key (preference_key (paper_preference_score_with_query yr query)) ps"

definition sort_papers_by_preference_with_research_mode :: "int \<Rightarrow> string \<Rightarrow> paper list \<Rightarrow> paper list" where
  "sort_papers_by_preference_with_research_mode yr mode ps =
     sort_key (preference_key p_score)
       (map (\<lambda>p. p\<lparr>p_score := paper_preference_score_with_research_mode yr mode p\<rparr>) ps)"

section \<open>Quality scores\<close>

definition infer_evidence_level :: "paper \<Rightarrow> string" where
  "infer_evidence_level p =
     (let text = to_lower (p_title p @ '' '' @ p_abstract p); src = to_lower (p_source p) in
      if contains_any text [''systematic review'', ''meta-analysis'', ''meta analysis'', ''cochrane'']
      then ''systematic-review''
      else if contains_any text [''randomized controlled trial'', ''randomized trial'', '' rct '', ''clinical trial'']
      then ''rct''
      else if contains text ''cohort study'' \<or> contains text ''longitudinal'' then ''cohort''
      else if contains text ''case-control'' \<or> contains text ''case control'' then ''case-control''
      else if contains text ''case report'' \<or> contains text ''case series'' then ''case-report''
      else if contains text ''cross-sectional'' \<or> contains text ''cross sectional'' then ''cross-sectional''
      else if contains text ''review'' \<or> contains text ''survey'' then ''review''
      else if contains src ''arxiv'' \<or> contains src ''biorxiv'' \<or> contains src ''medrxiv'' then ''preprint''
      else ''unknown'')"

record quality_weights =
  qw_rrf :: real
  qw_citation :: real
  qw_recency :: real
  qw_venue :: real
  qw_access :: real
  qw_author_impact :: real

fun quality_intent_weights :: "query_rank_intent \<Rightarrow> quality_weights" where
  "quality_intent_weights IntentTrends = \<lparr>qw_rrf = 30 / 100, qw_citation = 12 / 100, qw_recency = 35 / 100,
     qw_venue = 10 / 100, qw_access = 8 / 100, qw_author_impact = 5 / 100\<rparr>"
| "quality_intent_weights IntentReview = \<lparr>qw_rrf = 25 / 100, qw_citation = 30 / 100, qw_recency = 8 / 100,
     qw_venue = 25 / 100, qw_access = 4 / 100, qw_author_impact = 8 / 100\<rparr>"
| "quality_intent_weights IntentMethodology = \<lparr>qw_rrf = 35 / 100, qw_citation = 15 / 100, qw_recency = 12 / 100,
     qw_venue = 10 / 100, qw_access = 18 / 100, qw_author_impact = 10 / 100\<rparr>"
| "quality_intent_weights IntentCited = \<lparr>qw_rrf = 28 / 100, qw_citation = 45 / 100, qw_recency = 5 / 100,
     qw_venue = 10 / 100, qw_access = 2 / 100, qw_author_impact = 10 / 100\<rparr>"
| "quality_intent_weights IntentAuthorImpact = \<lparr>qw_rrf = 25 / 100, qw_citation = 18 / 100, qw_recency = 8 / 100,
     qw_venue = 9 / 100, qw_access = 5 / 100, qw_author_impact = 35 / 100\<rparr>"
| "quality_intent_weights IntentDefault = \<lparr>qw_rrf = 50 / 100, qw_citation = 18 / 100, qw_recency = 10 / 100,
     qw_venue = 12 / 100, qw_access = 5 / 100, qw_author_impact = 5 / 100\<rparr>"

definition quality_recency :: "int \<Rightarrow> int \<Rightarrow> real" where
  "quality_recency current_year year =
     (let age = max 0 (current_year - year) in
      if 0 < age then max 0 (1 - real_of_int age / 10) else 1)"

definition quality_scored :: "int \<Rightarrow> string \<Rightarrow> paper \<Rightarrow> paper" where
  "quality_scored yr query p =
     (let w = quality_intent_weights (detect_query_rank_intent query);
          p = (if p_evidence_level p = [] then p\<lparr>p_evidence_level := infer_evidence_level p\<rparr> else p)
      in p\<lparr>p_score := p_score p * qw_rrf w + citation_norm (p_citation_count p) * qw_citation w
             + quality_recency yr (p_year p) * qw_recency w + venue_prestige_norm (p_venue p) * qw_venue w
             + access_norm (p_open_access_url p) (p_pdf_url p) * qw_access w
             + author_impact_norm p * qw_author_impact w\<rparr>)"

text \<open>
  \<open>sort.Slice\<close> is not stable: \<open>ScoreQuality\<close> may leave the scored papers in any order of
  descending score.
\<close>

definition score_quality :: "int \<Rightarrow> string \<Rightarrow> paper list \<Rightarrow> paper list \<Rightarrow> bool" where
  "score_quality yr query ps out \<longleftrightarrow>
     mset out = mset (map (quality_scored yr query) ps) \<and> sorted (map (\<lambda>p. - p_score p) out)"

section \<open>Quick Mode\<close>

record quick_mode_tab =
  tab_id :: string
  tab_name :: string
  tab_query :: string

definition build_quick_mode_query_variants :: "string \<Rightarrow> int \<Rightarrow> quick_mode_tab list" where
  "build_quick_mode_query_variants query max_tabs =
     (let q = trim_space query in
      if q = [] then []
      else
        (let n = (if max_tabs \<le> 0 then 3 else max_tabs); n = (if 8 < n then 8 else n) in
         [\<lparr>tab_id = ''direct'', tab_name = ''Direct'', tab_query = q\<rparr>]
         @ (if 2 \<le> n then [\<lparr>tab_id = ''broader'', tab_name = ''Broader context'', tab_query = q @ '' review overview''\<rparr>] else [])
         @ (if 3 \<le> n then [\<lparr>tab_id = ''narrow'', tab_name = ''Recent'', tab_query = q @ '' recent advances''\<rparr>] else [])))"

definition quick_mode_paper_identity :: "paper \<Rightarrow> string" where
  "quick_mode_paper_identity p =
     to_lower (first_non_empty [p_id p, p_doi p, p_link p, p_title p])"

text \<open>A nil slice in the map of results is \<open>None\<close>.\<close>

definition tab_papers :: "paper list option dict \<Rightarrow> quick_mode_tab \<Rightarrow> paper list" where
  "tab_papers results tab =
     (case dict_get results (to_lower (trim_space (tab_query tab))) of
        Some (Some ps) \<Rightarrow> ps
      | _ \<Rightarrow> (case dict_get results (tab_query tab) of Some (Some ps) \<Rightarrow> ps | _ \<Rightarrow> []))"

record quick_merge =
  qm_by_tab :: "paper list dict"
  qm_seen :: "string list"
  qm_merged :: "paper list"
  qm_total :: nat
  qm_duplicates :: nat

definition quick_merge_paper :: "string \<Rightarrow> paper \<Rightarrow> quick_merge \<Rightarrow> quick_merge" where
  "quick_merge_paper tid p m =
     (let i = quick_mode_paper_identity p in
      if i = [] then m
      else if i \<in> set (qm_seen m) then m\<lparr>qm_duplicates := Suc (qm_duplicates m)\<rparr>
      else m\<lparr>qm_seen := i # qm_seen m,
             qm_by_tab := dict_set tid (dict_get_or [] (qm_by_tab m) tid @ [p]) (qm_by_tab m),
             qm_merged := qm_merged m @ [p]\<rparr>)"

definition quick_merge_tab :: "paper list option dict \<Rightarrow> quick_mode_tab \<Rightarrow> quick_merge \<Rightarrow> quick_merge" where
  "quick_merge_tab results tab m =
     (let ps = tab_papers results tab in
      fold (quick_merge_paper (tab_id tab)) ps (m\<lparr>qm_total := qm_total m + length ps\<rparr>))"

definition quick_merge_all :: "quick_mode_tab list \<Rightarrow> paper list option dict \<Rightarrow> quick_merge" where
  "quick_merge_all tabs results =
     fold (quick_merge_tab results) tabs
       \<lparr>qm_by_tab = fold (\<lambda>tab. dict_set (tab_id tab) []) tabs [], qm_seen = [], qm_merged = [],
        qm_total = 0, qm_duplicates = 0\<rparr>"

record quick_mode_merge_result =
  qr_merged :: "paper list"
  qr_by_tab_id :: "paper list dict"
  qr_total_before :: nat
  qr_duplicates_removed :: nat

definition merge_and_rank_quick_mode_results ::
  "int \<Rightarrow> string \<Rightarrow> quick_mode_tab list \<Rightarrow> paper list option dict \<Rightarrow> quick_mode_merge_result" where
  "merge_and_rank_quick_mode_results yr root_query tabs results =
     (let m = quick_merge_all tabs results in
      \<lparr>qr_merged = sort_papers_by_preference_with_query yr root_query (qm_merged m),
       qr_by_tab_id = map (\<lambda>(tid, ps). (tid, sort_papers_by_preference_with_query yr root_query ps)) (qm_by_tab m),
       qr_total_before = qm_total m, qr_duplicates_removed = qm_duplicates m\<rparr>)"

text \<open>Later entries win when two keys normalise alike; \<open>results\<close> is the map in the order it is visited.\<close>

definition normalize_quick_mode_batch_keys :: "'a dict \<Rightarrow> 'a dict" where
  "normalize_quick_mode_batch_keys results =
     fold (\<lambda>(k, ps). dict_set (to_lower (trim_space k)) ps) results []"

section \<open>Bounds\<close>

lemma log_norm_bounds:
  assumes "0 < cap" "0 \<le> x"
  shows "0 \<le> log_norm cap x" "log_norm cap x \<le> 1"
proof -
  have "0 < ln (1 + cap)" using assms(1) by simp
  moreover have "0 \<le> ln (1 + min x cap)" using assms by simp
  moreover have "ln (1 + min x cap) \<le> ln (1 + cap)" using assms by simp
  ultimately show "0 \<le> log_norm cap x" "log_norm cap x \<le> 1" by (simp_all add: log_norm_def)
qed

lemma log_norm_mono:
  assumes "0 < cap" "0 \<le> x" "x \<le> y"
  shows "log_norm cap x \<le> log_norm cap y"
proof -
  have "ln (1 + min x cap) \<le> ln (1 + min y cap)" using assms by simp
  moreover have "0 < ln (1 + cap)" using assms(1) by simp
  ultimately show ?thesis by (simp add: log_norm_def divide_right_mono)
qed

lemma venue_prestige_bounds: "0 \<le> venue_prestige_norm v \<and> venue_prestige_norm v \<le> 1"
proof -
  have "\<forall>(n, s) \<in> set venue_prestige_table. 0 \<le> s \<and> s \<le> 100" by (simp add: venue_prestige_table_def)
  then show ?thesis
    by (fastforce simp: venue_prestige_norm_def Let_def find_Some_iff split: option.splits dest: nth_mem)
qed

lemma norm_bounds:
  "0 \<le> recency_norm yr y \<and> recency_norm yr y \<le> 1"
  "0 \<le> access_norm a b \<and> access_norm a b \<le> 1"
  "0 \<le> relevance_norm p \<and> relevance_norm p \<le> 1"
  "0 \<le> code_availability_norm p \<and> code_availability_norm p \<le> 1"
  "0 \<le> quality_recency yr y \<and> quality_recency yr y \<le> 1"
  by (auto simp: recency_norm_def access_norm_def relevance_norm_def code_availability_norm_def
      quality_recency_def Let_def)

lemma citation_bounds: "0 \<le> n \<Longrightarrow> 0 \<le> citation_norm n \<and> citation_norm n \<le> 1"
  by (simp add: citation_norm_def log_norm_bounds)

lemma citation_mono: "0 \<le> m \<Longrightarrow> m \<le> n \<Longrightarrow> citation_norm m \<le> citation_norm n"
  by (simp add: citation_norm_def log_norm_mono)

lemma author_impact_bounds:
  "0 \<le> p_influential_citation_count p \<Longrightarrow> 0 \<le> author_impact_norm p \<and> author_impact_norm p \<le> 1"
  by (simp add: author_impact_norm_def log_norm_bounds)

lemma velocity_bounds:
  "0 \<le> p_citation_count p \<Longrightarrow> 0 \<le> citation_velocity_norm yr p \<and> citation_velocity_norm yr p \<le> 1"
  by (simp add: citation_velocity_norm_def Let_def log_norm_bounds)

text \<open>A weighted mean of numbers between zero and one.\<close>

lemma weighted_bounds:
  fixes w :: "(real \<times> real) list"
  assumes "\<forall>(a, x) \<in> set w. 0 \<le> a \<and> 0 \<le> x \<and> x \<le> 1"
  shows "0 \<le> (\<Sum>(a, x) \<leftarrow> w. a * x) \<and> (\<Sum>(a, x) \<leftarrow> w. a * x) \<le> (\<Sum>(a, x) \<leftarrow> w. a)"
  using assms
proof (induction w)
  case (Cons e w)
  obtain a x where e: "e = (a, x)" by (cases e)
  with Cons.prems have "0 \<le> a * x" "a * x \<le> a" by (auto simp: mult_left_le)
  with Cons e show ?case by auto
qed simp

lemma intent_weights_mean:
  "let w = intent_weights i in
   0 \<le> pw_recency w \<and> 0 \<le> pw_citation w \<and> 0 \<le> pw_relevance w \<and> 0 \<le> pw_venue w \<and> 0 \<le> pw_access w
   \<and> 0 \<le> pw_author_impact w
   \<and> pw_recency w + pw_citation w + pw_relevance w + pw_venue w + pw_access w + pw_author_impact w = 1"
  by (cases i) (simp_all add: default_weights_def Let_def)

lemma mode_weights_mean:
  "let w = mode_ranking_weights yr m in
   0 \<le> w_citations w \<and> 0 \<le> w_recency w \<and> 0 \<le> w_relevance w \<and> 0 \<le> w_venue_prestige w \<and> 0 \<le> w_has_code w
   \<and> 0 \<le> w_has_pdf w \<and> 0 \<le> w_citation_velocity w
   \<and> w_citations w + w_recency w + w_relevance w + w_venue_prestige w + w_has_code w + w_has_pdf w
       + w_citation_velocity w = 1"
  by (cases m) (simp_all add: mode_ranking_weights_def no_weights_def Let_def)

lemma with_query_bounds:
  assumes "0 \<le> p_citation_count p" "0 \<le> p_influential_citation_count p"
  shows "0 \<le> paper_preference_score_with_query yr query p \<and> paper_preference_score_with_query yr query p \<le> 1"
proof -
  let ?w = "intent_weights (detect_query_rank_intent query)"
  have "\<forall>(a, x) \<in> set [(pw_recency ?w, recency_norm yr (p_year p)), (pw_citation ?w, citation_norm (p_citation_count p)),
      (pw_relevance ?w, relevance_norm p), (pw_venue ?w, venue_prestige_norm (p_venue p)),
      (pw_access ?w, access_norm (p_open_access_url p) (p_pdf_url p)), (pw_author_impact ?w, author_impact_norm p)].
      0 \<le> a \<and> 0 \<le> x \<and> x \<le> 1"
    using intent_weights_mean [of "detect_query_rank_intent query"] norm_bounds venue_prestige_bounds
      citation_bounds [OF assms(1)] author_impact_bounds [OF assms(2)]
    by (simp add: Let_def)
  from weighted_bounds [OF this] intent_weights_mean [of "detect_query_rank_intent query"]
  show ?thesis by (simp add: paper_preference_score_with_query_def Let_def algebra_simps)
qed

lemma research_mode_bounds:
  assumes "0 \<le> p_citation_count p"
  shows "0 \<le> paper_preference_score_with_research_mode yr mode p \<and> paper_preference_score_with_research_mode yr mode p \<le> 1"
proof -
  let ?m = "fst (normalize_research_mode mode)"
  let ?w = "mode_ranking_weights yr ?m"
  let ?pdf = "if \<not> blank (p_pdf_url p) \<or> \<not> blank (p_open_access_url p) then 1 else 0"
  have "\<forall>(a, x) \<in> set [(w_citations ?w, citation_norm (p_citation_count p)), (w_recency ?w, recency_norm yr (p_year p)),
      (w_relevance ?w, relevance_norm p), (w_venue_prestige ?w, venue_prestige_norm (p_venue p)),
      (w_has_code ?w, code_availability_norm p), (w_has_pdf ?w, ?pdf),
      (w_citation_velocity ?w, citation_velocity_norm yr p)]. 0 \<le> a \<and> 0 \<le> x \<and> x \<le> 1"
    using mode_weights_mean [of yr ?m] norm_bounds venue_prestige_bounds
      citation_bounds [OF assms] velocity_bounds [OF assms]
    by (simp add: Let_def)
  from weighted_bounds [OF this] mode_weights_mean [of yr ?m]
  show ?thesis
    by (simp add: paper_preference_score_with_research_mode_def paper_preference_score_with_weights_def Let_def algebra_simps)
qed

text \<open>
  Whatever the query and the research mode, a preference score lies between zero and one, and a paper
  cited more often, all else equal, never scores lower.
\<close>

theorem preference_score_bounds:
  assumes "0 \<le> p_citation_count p" "0 \<le> p_influential_citation_count p" "p_citation_count p \<le> n"
  shows "paper_preference_score_with_query yr query p \<in> {0..1}
     \<and> paper_preference_score_with_research_mode yr mode p \<in> {0..1}
     \<and> paper_preference_score_with_query yr query p
          \<le> paper_preference_score_with_query yr query (p\<lparr>p_citation_count := n\<rparr>)"
proof -
  let ?w = "intent_weights (detect_query_rank_intent query)"
  have "pw_citation ?w * citation_norm (p_citation_count p) \<le> pw_citation ?w * citation_norm n"
    using intent_weights_mean [of "detect_query_rank_intent query"] citation_mono [OF assms(1,3)]
    by (auto simp: Let_def intro: mult_left_mono)
  then have "paper_preference_score_with_query yr query p
      \<le> paper_preference_score_with_query yr query (p\<lparr>p_citation_count := n\<rparr>)"
    by (simp add: paper_preference_score_with_query_def relevance_norm_def author_impact_norm_def Let_def)
  with with_query_bounds [OF assms(1,2)] research_mode_bounds [OF assms(1)] show ?thesis by simp
qed

theorem preference_score_bounds_witness:
  "paper_preference_score_with_query 2026 ''deep learning'' (zero_paper\<lparr>p_citation_count := 3\<rparr>)
     \<le> paper_preference_score_with_query 2026 ''deep learning'' (zero_paper\<lparr>p_citation_count := 40\<rparr>)"
  using preference_score_bounds [of "zero_paper\<lparr>p_citation_count := 3\<rparr>" 40 2026 "''deep learning''" "''review''"]
  by (simp add: zero_paper_def)

section \<open>The order of the result\<close>

lemma preference_less_key: "preference_less f p q \<longleftrightarrow> preference_key f p < preference_key f q"
  by (auto simp: preference_less_def preference_key_def)

lemma sorted_no_inversion:
  assumes "sorted (map k xs)" "i < j" "j < length xs"
  shows "\<not> k (xs ! j) < k (xs ! i)"
  using sorted_nth_mono [OF assms(1), of i j] assms(2,3) by (simp add: not_less)

text \<open>
  Ranking by preference, for a query or a research mode: no paper is lost or invented, none stands
  before one that the comparator puts strictly first, and papers the comparator does not separate
  keep the order they had. Ranking the ranked list for the same query changes nothing.
\<close>

theorem preference_sort_correct:
  shows "mset (sort_papers_by_preference_with_query yr query ps) = mset ps
     \<and> (\<forall>j < length ps. \<forall>i < j.
          \<not> preference_less (paper_preference_score_with_query yr query)
              (sort_papers_by_preference_with_query yr query ps ! j)
              (sort_papers_by_preference_with_query yr query ps ! i))
     \<and> filter (\<lambda>q. preference_key (paper_preference_score_with_query yr query) q = k)
           (sort_papers_by_preference_with_query yr query ps)
         = filter (\<lambda>q. preference_key (paper_preference_score_with_query yr query) q = k) ps
     \<and> sort_papers_by_preference_with_query yr query (sort_papers_by_preference_with_query yr query ps)
         = sort_papers_by_preference_with_query yr query ps
     \<and> mset (map unscored (sort_papers_by_preference_with_research_mode yr mode ps)) = mset (map unscored ps)"
proof (intro conjI allI impI)
  show "\<not> preference_less (paper_preference_score_with_query yr query)
              (sort_papers_by_preference_with_query yr query ps ! j)
              (sort_papers_by_preference_with_query yr query ps ! i)"
    if "j < length ps" "i < j" for i j
    unfolding preference_less_key
    by (rule sorted_no_inversion) (simp_all add: that sort_papers_by_preference_with_query_def)
  show "mset (map unscored (sort_papers_by_preference_with_research_mode yr mode ps)) = mset (map unscored ps)"
    unfolding sort_papers_by_preference_with_research_mode_def by (rule mset_sort_map) simp
  show "sort_papers_by_preference_with_query yr query (sort_papers_by_preference_with_query yr query ps)
         = sort_papers_by_preference_with_query yr query ps"
    by (simp add: sort_papers_by_preference_with_query_def sort_key_id_if_sorted)
  show "filter (\<lambda>q. preference_key (paper_preference_score_with_query yr query) q = k)
           (sort_papers_by_preference_with_query yr query ps)
         = filter (\<lambda>q. preference_key (paper_preference_score_with_query yr query) q = k) ps"
    by (simp add: sort_papers_by_preference_with_query_def sort_key_stable)
qed (simp add: sort_papers_by_preference_with_query_def)

section \<open>Merging the tabs\<close>

definition identities :: "paper list \<Rightarrow> string set" where
  "identities ps = quick_mode_paper_identity ` set ps"

abbreviation anonymous :: "paper \<Rightarrow> bool" where
  "anonymous p \<equiv> quick_mode_paper_identity p = []"

text \<open>What the merge has done after a list of papers \<open>ps\<close> (with the tab each came from).\<close>

definition kept :: "(string \<times> paper) list \<Rightarrow> (string \<times> paper) list" where
  "kept ps = uniq_by (quick_mode_paper_identity \<circ> snd) [] (filter (\<lambda>e. \<not> anonymous (snd e)) ps)"

definition merge_inv :: "(string \<times> paper) list \<Rightarrow> quick_merge \<Rightarrow> bool" where
  "merge_inv ps m \<longleftrightarrow>
     qm_merged m = map snd (kept ps) \<and> set (qm_seen m) = (quick_mode_paper_identity \<circ> snd) ` set (kept ps)
     \<and> qm_duplicates m + length (kept ps) + length (filter (\<lambda>e. anonymous (snd e)) ps) = length ps
     \<and> (\<forall>t. dict_get_or [] (qm_by_tab m) t = map snd (filter (\<lambda>e. fst e = t) (kept ps)))"

lemma uniq_by_snoc:
  "uniq_by f [] (xs @ [x]) = uniq_by f [] xs @ (if f x \<in> f ` set xs then [] else [x])"
proof -
  have "set (rev (map f (uniq_by f [] xs))) = f ` set xs" using uniq_by_keys [of f "[]" xs] by simp
  then show ?thesis by (auto simp: uniq_by_append)
qed

lemma kept_snoc:
  "kept (ps @ [(t, p)]) = kept ps
     @ (if anonymous p \<or> quick_mode_paper_identity p \<in> (quick_mode_paper_identity \<circ> snd) ` set (kept ps)
        then [] else [(t, p)])"
  using uniq_by_keys [of "quick_mode_paper_identity \<circ> snd" "[]" "filter (\<lambda>e. \<not> anonymous (snd e)) ps"]
  by (simp add: kept_def uniq_by_snoc)

lemma merge_inv_step:
  assumes "merge_inv ps m"
  shows "merge_inv (ps @ [(t, p)]) (quick_merge_paper t p m)"
  using assms by (auto simp: quick_merge_paper_def merge_inv_def kept_snoc Let_def)

definition tagged :: "paper list option dict \<Rightarrow> quick_mode_tab list \<Rightarrow> (string \<times> paper) list" where
  "tagged results tabs = concat (map (\<lambda>tab. map (Pair (tab_id tab)) (tab_papers results tab)) tabs)"

lemma merge_inv_papers:
  "merge_inv ps m \<Longrightarrow> merge_inv (ps @ map (Pair t) qs) (fold (quick_merge_paper t) qs m)"
proof (induction qs arbitrary: ps m)
  case (Cons q qs)
  from Cons.IH [OF merge_inv_step [OF Cons.prems]] show ?case by simp
qed simp

lemma merge_total [simp]: "qm_total (fold (quick_merge_paper t) qs m) = qm_total m"
  by (induction qs arbitrary: m) (simp_all add: quick_merge_paper_def Let_def)

lemma merge_inv_tabs:
  "merge_inv ps m \<Longrightarrow> qm_total m = length ps \<Longrightarrow>
     merge_inv (ps @ tagged results tabs) (fold (quick_merge_tab results) tabs m)
     \<and> qm_total (fold (quick_merge_tab results) tabs m) = length (ps @ tagged results tabs)"
proof (induction tabs arbitrary: ps m)
  case (Cons tab tabs)
  have "merge_inv ps (m\<lparr>qm_total := qm_total m + length (tab_papers results tab)\<rparr>)"
    using Cons.prems(1) by (simp add: merge_inv_def)
  from merge_inv_papers [OF this, of "tab_id tab" "tab_papers results tab"] Cons.prems(2)
    Cons.IH [of "ps @ map (Pair (tab_id tab)) (tab_papers results tab)" "quick_merge_tab results tab m"]
  show ?case by (simp add: tagged_def quick_merge_tab_def Let_def)
qed (simp add: tagged_def)

lemma initial_tabs: "dict_get_or [] (fold (\<lambda>tab. dict_set (tab_id tab) []) tabs d) t
    = (if t \<in> tab_id ` set tabs then [] else dict_get_or [] d t)"
  by (induction tabs arbitrary: d) auto

lemma dict_get_or_map:
  "dict_get_or [] (map (\<lambda>(k, v). (k, f v)) d) t = (case dict_get d t of None \<Rightarrow> [] | Some v \<Rightarrow> f v)"
  by (simp add: dict_get_or_def map_of_map split: option.splits)

text \<open>
  Quick Mode keeps of every identified paper exactly one copy, in the tab that found it first: the
  merged list holds each identity of the tabs' results once; the counters account for every paper
  as kept, duplicate or without identity; and each tab's list is the merged papers that came from it.
\<close>

theorem quick_mode_merge_correct:
  "let res = merge_and_rank_quick_mode_results yr query tabs results;
       all = tagged results tabs in
   mset (qr_merged res) = mset (map snd (kept all))
   \<and> distinct (map quick_mode_paper_identity (qr_merged res))
   \<and> identities (qr_merged res) = identities (map snd all) - {[]}
   \<and> qr_total_before res = length (qr_merged res) + qr_duplicates_removed res
        + length (filter (\<lambda>e. anonymous (snd e)) all)
   \<and> mset (dict_get_or [] (qr_by_tab_id res) t) = mset (map snd (filter (\<lambda>e. fst e = t) (kept all)))"
proof -
  let ?all = "tagged results tabs"
  let ?key = "quick_mode_paper_identity \<circ> snd"
  let ?kept = "kept ?all"
  let ?m = "quick_merge_all tabs results"
  let ?res = "merge_and_rank_quick_mode_results yr query tabs results"
  have "merge_inv [] \<lparr>qm_by_tab = fold (\<lambda>tab. dict_set (tab_id tab) []) tabs [], qm_seen = [], qm_merged = [],
        qm_total = 0, qm_duplicates = 0\<rparr>"
    by (simp add: merge_inv_def kept_def initial_tabs)
  from merge_inv_tabs [OF this, of results tabs]
  have inv: "merge_inv ?all ?m" and total: "qm_total ?m = length ?all"
    by (simp_all add: quick_merge_all_def)
  have merged: "mset (qr_merged ?res) = mset (map snd ?kept)"
    using inv by (simp add: merge_and_rank_quick_mode_results_def merge_inv_def Let_def
        sort_papers_by_preference_with_query_def)
  have "distinct (map quick_mode_paper_identity (map snd ?kept))"
    using distinct_uniq_by [of ?key "[]"] by (simp add: kept_def)
  moreover have "mset (map quick_mode_paper_identity (qr_merged ?res)) = mset (map quick_mode_paper_identity (map snd ?kept))"
    unfolding mset_map [of quick_mode_paper_identity] merged ..
  ultimately have "distinct (map quick_mode_paper_identity (qr_merged ?res))"
    using mset_eq_imp_distinct_iff by blast
  moreover have "identities (qr_merged ?res) = identities (map snd ?all) - {[]}"
  proof -
    have "identities (qr_merged ?res) = ?key ` set ?kept"
      using mset_eq_setD [OF merged] by (simp add: identities_def image_image)
    also have "\<dots> = ?key ` set ?all - {[]}" unfolding kept_def uniq_by_keys by auto
    finally show ?thesis by (simp add: identities_def image_image)
  qed
  moreover have "length (qr_merged ?res) = length (qm_merged ?m)"
    by (simp add: merge_and_rank_quick_mode_results_def sort_papers_by_preference_with_query_def Let_def)
  then have "qr_total_before ?res = length (qr_merged ?res) + qr_duplicates_removed ?res
        + length (filter (\<lambda>e. anonymous (snd e)) ?all)"
    using inv total by (simp add: merge_and_rank_quick_mode_results_def merge_inv_def Let_def)
  moreover have "mset (dict_get_or [] (qr_by_tab_id ?res) t) = mset (map snd (filter (\<lambda>e. fst e = t) ?kept))"
  proof -
    have "mset (dict_get_or [] (qr_by_tab_id ?res) t) = mset (dict_get_or [] (qm_by_tab ?m) t)"
      unfolding merge_and_rank_quick_mode_results_def Let_def quick_mode_merge_result.simps dict_get_or_map
      by (simp add: dict_get_or_def sort_papers_by_preference_with_query_def split: option.split)
    with inv show ?thesis by (simp add: merge_inv_def)
  qed
  ultimately show ?thesis using merged by (simp only: Let_def)
qed

section \<open>Keywords inside words\<close>

text \<open>
  Intents and venues are found by substring: every query about a recurrent network is read as a
  question about current trends (\<open>current\<close>), every query about renewable energy as one about new work,
  and a journal of the Frontiers family whose name mentions neuroscience gets the prestige of Science,
  although the table is meant to prefer the longer match.
\<close>

theorem keywords_match_inside_words:
  "(contains (to_lower query) ''recurrent'' \<or> contains (to_lower query) ''renewable'' \<longrightarrow>
      detect_query_rank_intent query = IntentTrends)
   \<and> venue_prestige_norm ''Frontiers in Neuroscience'' = 98 / 100
   \<and> venue_prestige_norm ''Frontiers in Medicine'' = 65 / 100"
proof (intro conjI impI)
  have inner: "contains q t" if "contains q s" "contains s t" for q s t
    using that sublist_order.order.trans by (simp add: contains_iff)
  have "contains ''recurrent'' ''current''" "contains ''renewable'' ''new''" by code_simp+
  then show "detect_query_rank_intent query = IntentTrends"
    if "contains (to_lower query) ''recurrent'' \<or> contains (to_lower query) ''renewable''"
  proof -
    from that inner have "contains (to_lower query) ''current'' \<or> contains (to_lower query) ''new''"
      by (blast intro: \<open>contains ''recurrent'' ''current''\<close> \<open>contains ''renewable'' ''new''\<close>)
    then have "contains_any (to_lower query) [''trend'', ''trends'', ''trending'', ''latest'', ''recent advances'',
          ''recent progress'', ''newly'', ''state of the art'', ''sota'', ''current'', ''modern'', ''2024'', ''2025'', ''2026'']
        \<or> contains_any (to_lower query) [''recent'', ''new'']"
      unfolding contains_any_def list_ex_iff by fastforce
    then show ?thesis unfolding detect_query_rank_intent_def Let_def by (simp only: if_True)
  qed
  show "venue_prestige_norm ''Frontiers in Neuroscience'' = 98 / 100"
    "venue_prestige_norm ''Frontiers in Medicine'' = 65 / 100" by code_simp+
qed

theorem keywords_match_inside_words_witness:
  "detect_query_rank_intent ''Recurrent neural networks'' = IntentTrends"
proof -
  have "contains (to_lower ''Recurrent neural networks'') ''recurrent''" by code_simp
  with keywords_match_inside_words [of "''Recurrent neural networks''"] show ?thesis by blast
qed

end
