(* ===== verification/SearchRouting.thy ===== *)
theory SearchRouting
  imports ListTools Breaker "HOL-Library.List_Lexorder" "HOL-Library.Char_ord"
begin

text \<open>
  Which search providers answer a query, and when they may be asked: the provider registry with its
  domain routes, rate gates and adaptive concurrency limits (\<open>orchestrator/internal/search/provider.go\<close>,
  \<open>registry.go\<close>), the router (\<open>provider_router.go\<close>) and the domain heuristics
  (\<open>domain_routing.go\<close>). A provider is its name, domains and health tracker; its HTTP client is not
  modelled. The clock, the ranking learned from past searches, the model's choice of providers and the
  order in which Go visits a map are arguments.
\<close>

named_theorems routing_simps \<open>the parts of the registry an operation leaves alone\<close>

section \<open>Names and domains\<close>

definition normalize_provider_name :: "string \<Rightarrow> string" where
  "normalize_provider_name raw =
     (let n = to_lower (trim_space raw) in
      if n = [] then []
      else
        (let n = join ''_'' (str_fields (replace_all n ''-'' ''_'')) in
         if n = ''semanticscholar'' then ''semantic_scholar''
         else if n = ''open_alex'' then ''openalex''
         else if n = ''europepmc'' then ''europe_pmc''
         else if n = ''paperswithcode'' then ''papers_with_code''
         else if n = ''clinicaltrials'' then ''clinical_trials''
         else if n = ''googlescholar'' then ''google_scholar''
         else if n = ''nasaads'' then ''nasa_ads''
         else n))"

definition infer_domain_from_query :: "string \<Rightarrow> string" where
  "infer_domain_from_query raw =
     (let q = to_lower (trim_space raw) in
      if q = [] then ''general''
      else if contains_any q [''meniscus'', ''acl'', ''orthopedic'', ''orthopaedic'', ''knee'', ''arthroplasty'',
          ''clinical trial'', ''randomized trial'', ''patient'', ''hospital'', ''surgery'',
          ''diagnosis'', ''therapy'', ''treatment'', ''disease'', ''drug'', ''pharma'',
          ''medicine'', ''medical'', ''healthcare'', ''cardiology'', ''oncology''] then ''medicine''
      else if contains_any q [''cancer'', ''tumor'', ''virus'', ''vaccine'', ''genome'', ''genomics'', ''protein'',
          ''cell signaling'', ''biomedical'', ''biorxiv'', ''medrxiv''] then ''biomedical''
      else if contains_any q [''neuroscience'', ''neuro'', ''brain'', ''cortex'', ''synapse'', ''fmri''] then ''neuro''
      else if contains_any q [''transformer'', ''large language model'', '' llm '', ''gpt'', ''diffusion model'',
          ''neural network'', ''deep learning'', ''machine learning'', ''algorithm'',
          ''software'', ''database'', ''cybersecurity'', ''compiler'', ''programming'',
          ''retrieval-augmented'', ''rag '', ''computer science'', ''distributed system'',
          ''reinforcement learning'', ''computer vision'', ''nlp'', ''benchmark dataset''] then ''cs''
      else if contains_any q [''galaxy'', ''quantum'', ''gravity'', ''particle'', ''black hole'', ''star'',
          ''telescope'', ''cosmology'', ''astrophysics'', ''nasa'', ''superconductor''] then ''physics''
      else if contains_any q [''market'', ''economy'', ''social'', ''policy'', ''political'', ''finance'',
          ''inequality'', ''regression'', ''econometrics''] then ''social''
      else if contains_any q [''theorem'', ''topology'', ''algebra'', ''calculus'', ''mathematics'', ''proof''] then ''math''
      else ''general'')"

definition normalize_routing_domain :: "string \<Rightarrow> string" where
  "normalize_routing_domain raw =
     (let d = to_lower (trim_space raw) in
      if d \<in> {'''', ''general'', ''unknown''} then ''general''
      else if d \<in> {''medicine'', ''medical'', ''clinical'', ''healthcare'', ''health''} then ''medicine''
      else if d \<in> {''biomedical'', ''biology'', ''life sciences'', ''life_sciences''} then ''biomedical''
      else if d \<in> {''computer science'', ''computer_science'', ''artificial intelligence'',
          ''artificial_intelligence'', ''machine learning'', ''machine_learning'', ''ai'', ''ml''} then ''cs''
      else if d \<in> {''astronomy'', ''astrophysics''} then ''physics''
      else if d \<in> {''mathematics'', ''maths''} then ''math''
      else d)"

definition is_clinical_domain :: "string \<Rightarrow> bool" where
  "is_clinical_domain d \<longleftrightarrow> d \<in> {''medicine'', ''biomedical'', ''biology'', ''neuro''}"

definition domains_match_for_routing :: "string \<Rightarrow> string \<Rightarrow> bool" where
  "domains_match_for_routing left right \<longleftrightarrow>
     (let l = normalize_routing_domain left; r = normalize_routing_domain right in
      l = r \<or> (is_clinical_domain l \<and> is_clinical_domain r))"

definition provider_preset_for_domain :: "string \<Rightarrow> string option" where
  "provider_preset_for_domain domain =
     (let d = normalize_routing_domain domain in
      if d \<in> {''medicine'', ''biomedical'', ''biology'', ''neuro''} then Some ''biomedical''
      else if d \<in> {''cs'', ''ai'', ''ml'', ''machine_learning'', ''computer_science''} then Some ''cs''
      else if d \<in> {''physics'', ''astronomy'', ''math'', ''mathematics''} then Some ''physics''
      else None)"

section \<open>Health of a provider\<close>

text \<open>The zero time is \<open>None\<close>.\<close>

record base_provider =
  bp_fail_count :: int
  bp_backoff_until :: "int option"

definition new_base_provider :: base_provider where
  "new_base_provider = \<lparr>bp_fail_count = 0, bp_backoff_until = None\<rparr>"

definition bp_record_success :: "base_provider \<Rightarrow> base_provider" where
  "bp_record_success b = b\<lparr>bp_fail_count := 0, bp_backoff_until := None\<rparr>"

definition bp_record_failure :: "int \<Rightarrow> base_provider \<Rightarrow> base_provider" where
  "bp_record_failure now b =
     (let n = bp_fail_count b + 1 in
      b\<lparr>bp_fail_count := n, bp_backoff_until := Some (now + min (n * n) 60 * second)\<rparr>)"

definition bp_healthy :: "int \<Rightarrow> base_provider \<Rightarrow> bool" where
  "bp_healthy now b = (case bp_backoff_until b of None \<Rightarrow> True | Some t \<Rightarrow> t < now)"

record search_provider =
  sp_name :: string
  sp_domains :: "string list"
  sp_tools :: "string list"
  sp_base :: base_provider

abbreviation sp_healthy :: "int \<Rightarrow> search_provider \<Rightarrow> bool" where
  "sp_healthy now p \<equiv> bp_healthy now (sp_base p)"

section \<open>The registry\<close>

text \<open>
  A weighted semaphore is the number of the \<open>NewWeighted\<close> call that made it and its size; the
  requests that hold it are part of the run below.
\<close>

record provider_registry =
  r_providers :: "search_provider dict"
  r_routes :: "string list dict"
  r_defaults :: "string list"
  r_breakers :: "circuit_breaker dict"
  r_semaphores :: "(nat \<times> int) dict"
  r_next_semaphore :: nat
  r_min_intervals :: "int dict"
  r_last_request :: "int dict"
  r_caps :: "int dict"

definition new_provider_registry :: provider_registry where
  "new_provider_registry =
     \<lparr>r_providers = [], r_routes = [], r_defaults = [], r_breakers = [], r_semaphores = [],
      r_next_semaphore = 0,
      r_min_intervals = [(''arxiv'', 3 * second), (''semantic_scholar'', 1200 * millisecond),
                         (''pubmed'', 1200 * millisecond)],
      r_last_request = [], r_caps = []\<rparr>"

definition default_provider_concurrency :: "string \<Rightarrow> int" where
  "default_provider_concurrency name =
     (if normalize_provider_name name \<in> {''arxiv'', ''semantic_scholar'', ''pubmed''} then 1 else 10)"

definition max_provider_concurrency :: "string \<Rightarrow> int" where
  "max_provider_concurrency name =
     (if normalize_provider_name name \<in> {''arxiv'', ''semantic_scholar'', ''pubmed''} then 1 else 20)"

definition new_weighted :: "string \<Rightarrow> int \<Rightarrow> provider_registry \<Rightarrow> provider_registry" where
  "new_weighted name n r =
     r\<lparr>r_caps := dict_set name n (r_caps r),
       r_semaphores := dict_set name (r_next_semaphore r, n) (r_semaphores r),
       r_next_semaphore := Suc (r_next_semaphore r)\<rparr>"

definition register_provider :: "search_provider \<Rightarrow> provider_registry \<Rightarrow> provider_registry" where
  "register_provider p r =
     (let name = sp_name p;
          r = r\<lparr>r_providers := dict_set name p (r_providers r),
                r_breakers := dict_set name (new_circuit_breaker name) (r_breakers r)\<rparr>;
          r = new_weighted name (default_provider_concurrency name) r;
          r = r\<lparr>r_routes := fold (\<lambda>d rt. dict_set d (dict_get_or [] rt d @ [name]) rt) (sp_domains p) (r_routes r)\<rparr>
      in if sp_domains p = [] then r\<lparr>r_defaults := r_defaults r @ [name]\<rparr> else r)"

definition adjust_concurrency :: "string \<Rightarrow> go_error option \<Rightarrow> provider_registry \<Rightarrow> provider_registry" where
  "adjust_concurrency name err r =
     (case dict_get (r_caps r) name of
        None \<Rightarrow> r
      | Some cap \<Rightarrow>
          (let cap' = (if err \<noteq> None
                       then (if default_provider_concurrency name < cap then cap - 1 else cap)
                       else (if cap < max_provider_concurrency name then cap + 1 else cap))
           in if cap' \<noteq> cap then new_weighted name cap' r else r))"

definition set_concurrency_limit :: "string \<Rightarrow> int \<Rightarrow> provider_registry \<Rightarrow> provider_registry" where
  "set_concurrency_limit name limit r = new_weighted name limit r"

definition set_default_order :: "string list \<Rightarrow> provider_registry \<Rightarrow> provider_registry" where
  "set_default_order names r = r\<lparr>r_defaults := names\<rparr>"

definition healthy_of :: "int \<Rightarrow> provider_registry \<Rightarrow> string list \<Rightarrow> search_provider list" where
  "healthy_of now r names =
     List.map_filter (\<lambda>name. case dict_get (r_providers r) name of
        Some p \<Rightarrow> if sp_healthy now p then Some p else None | None \<Rightarrow> None) names"

definition providers_for :: "int \<Rightarrow> provider_registry \<Rightarrow> string \<Rightarrow> search_provider list" where
  "providers_for now r domain =
     (let names = (if domain \<noteq> [] then dict_get_or [] (r_routes r) (to_lower domain) else []);
          names = (if names = [] then r_defaults r else names)
      in healthy_of now r names)"

definition all_providers :: "provider_registry \<Rightarrow> search_provider list" where
  "all_providers r = map snd (r_providers r)"

definition dynamic_provider_candidates :: "int \<Rightarrow> provider_registry \<Rightarrow> string list" where
  "dynamic_provider_candidates now r =
     sort (map fst (filter (\<lambda>(name, p). sp_healthy now p) (r_providers r)))"

definition dynamic_provider_selection_ready :: "int \<Rightarrow> provider_registry \<Rightarrow> bool" where
  "dynamic_provider_selection_ready now r \<longleftrightarrow> 1 < length (dynamic_provider_candidates now r)"

definition dynamic_provider_fallback :: "int \<Rightarrow> provider_registry \<Rightarrow> search_provider list" where
  "dynamic_provider_fallback now r =
     (let ps = providers_for now r ''general'' in if ps = [] then all_providers r else ps)"

text \<open>\<open>reply\<close> is what the model chose; \<open>None\<close> stands for no client, a cool-down or an error.\<close>

definition select_providers_dynamic :: "int \<Rightarrow> provider_registry \<Rightarrow> string list option \<Rightarrow> search_provider list" where
  "select_providers_dynamic now r reply =
     (let fb = dynamic_provider_fallback now r in
      if length (dynamic_provider_candidates now r) \<le> 1 then fb
      else (case reply of
              None \<Rightarrow> fb
            | Some names \<Rightarrow>
                (let out = healthy_of now r names in if names = [] \<or> out = [] then fb else out)))"

section \<open>Requested providers\<close>

record provider_warning =
  w_provider :: string
  w_message :: string

definition resolve_step ::
  "int \<Rightarrow> string \<Rightarrow> provider_registry \<times> search_provider list \<times> provider_warning list \<times> string list
   \<Rightarrow> provider_registry \<times> search_provider list \<times> provider_warning list \<times> string list" where
  "resolve_step now raw = (\<lambda>(r, selected, warnings, seen).
     let name = normalize_provider_name raw in
     if name = [] then (r, selected, warnings, seen)
     else if name \<in> set seen then (r, selected, warnings, seen)
     else
       (let seen = name # seen;
            warn = (\<lambda>r m. (r, selected, warnings @ [\<lparr>w_provider = name, w_message = m\<rparr>], seen)) in
        case dict_get (r_providers r) name of
          None \<Rightarrow> warn r ''requested provider is not registered''
        | Some p \<Rightarrow>
            if \<not> sp_healthy now p then warn r ''requested provider is currently unavailable''
            else
              (case dict_get (r_breakers r) name of
                 None \<Rightarrow> (r, selected @ [p], warnings, seen)
               | Some cb \<Rightarrow>
                   (let (cb', ok) = cb_admit now cb;
                        r' = r\<lparr>r_breakers := dict_set name cb' (r_breakers r)\<rparr> in
                    if ok then (r', selected @ [p], warnings, seen)
                    else warn r' ''requested provider is temporarily unavailable''))))"

definition resolve_requested_providers ::
  "int \<Rightarrow> string list \<Rightarrow> provider_registry \<Rightarrow> provider_registry \<times> search_provider list \<times> provider_warning list" where
  "resolve_requested_providers now names r =
     (let (r', selected, warnings, seen) = fold (resolve_step now) names (r, [], [], [])
      in (r', selected, warnings))"

section \<open>The router\<close>

definition include_provider ::
  "int \<Rightarrow> provider_registry \<Rightarrow> string \<Rightarrow> string list \<Rightarrow> string
   \<Rightarrow> search_provider list \<times> string list \<Rightarrow> search_provider list \<times> string list" where
  "include_provider now r domain allowed raw = (\<lambda>(selected, seen).
     let name = normalize_provider_name raw in
     if name = [] \<or> name \<in> set seen then (selected, seen)
     else if domain \<noteq> [] \<and> domain \<noteq> ''general'' \<and> allowed \<noteq> [] \<and> name \<notin> set allowed then (selected, seen)
     else
       (case dict_get (r_providers r) name of
          None \<Rightarrow> (selected, seen)
        | Some p \<Rightarrow>
            if \<not> sp_healthy now p then (selected, seen)
            else if (case dict_get (r_breakers r) name of Some cb \<Rightarrow> cb_st cb = StateOpen | None \<Rightarrow> False)
            then (selected, seen)
            else (selected @ [p], name # seen)))"

definition lookup_providers ::
  "int \<Rightarrow> provider_registry \<Rightarrow> string list \<Rightarrow> string \<Rightarrow> string list \<Rightarrow> search_provider list" where
  "lookup_providers now r names domain allowed =
     fst (fold (include_provider now r domain allowed)
           (if names = [] then r_defaults r else names) ([], []))"

text \<open>
  \<open>learned\<close> are the five best providers that the search intelligence has learned for a domain;
  \<open>None\<close> when there is no intelligence or its query fails.
\<close>

definition routing_domain :: "string \<Rightarrow> string \<Rightarrow> string" where
  "routing_domain query domain =
     (let d = normalize_routing_domain domain;
          d = (if d = [] \<or> d = ''general''
               then (let inf = infer_domain_from_query query in
                     if inf \<noteq> [] \<and> inf \<noteq> ''general'' then inf else d)
               else d)
      in if d = [] then ''general'' else d)"

definition route :: "int \<Rightarrow> provider_registry \<Rightarrow> (string \<Rightarrow> string list option) \<Rightarrow> string \<Rightarrow> string \<Rightarrow> search_provider list" where
  "route now r learned query domain =
     (let d = routing_domain query domain;
          dps = providers_for now r d;
          allowed = map sp_name dps;
          chosen = (case learned d of
                      None \<Rightarrow> []
                    | Some names \<Rightarrow> if names = [] then [] else lookup_providers now r names d allowed)
      in if chosen \<noteq> [] then chosen
         else if dps \<noteq> [] then dps
         else lookup_providers now r [] '''' [])"

section \<open>The canonical routes\<close>

definition domain_routes :: "string list dict" where
  "domain_routes =
   [(''medicine'', [''pubmed'', ''europe_pmc'', ''medrxiv'', ''semantic_scholar'', ''openalex'', ''biorxiv'', ''clinical_trials'', ''doaj'']),
    (''biomedical'', [''pubmed'', ''semantic_scholar'', ''europe_pmc'', ''biorxiv'', ''medrxiv'']),
    (''cs'', [''dblp'', ''arxiv'', ''semantic_scholar'', ''papers_with_code'', ''openalex'']),
    (''computer science'', [''dblp'', ''arxiv'', ''semantic_scholar'', ''papers_with_code'', ''openalex'']),
    (''computer_science'', [''dblp'', ''arxiv'', ''semantic_scholar'', ''papers_with_code'', ''openalex'']),
    (''ai'', [''dblp'', ''arxiv'', ''semantic_scholar'', ''papers_with_code'', ''openalex'']),
    (''ml'', [''arxiv'', ''semantic_scholar'', ''papers_with_code'', ''openalex'']),
    (''machine learning'', [''arxiv'', ''semantic_scholar'', ''papers_with_code'', ''openalex'']),
    (''machine_learning'', [''arxiv'', ''semantic_scholar'', ''papers_with_code'', ''openalex'']),
    (''artificial intelligence'', [''dblp'', ''arxiv'', ''semantic_scholar'', ''papers_with_code'', ''openalex'']),
    (''artificial_intelligence'', [''dblp'', ''arxiv'', ''semantic_scholar'', ''papers_with_code'', ''openalex'']),
    (''social'', [''openalex'', ''semantic_scholar'', ''core'', ''crossref'', ''ssrn'', ''doaj'']),
    (''climate'', [''openalex'', ''semantic_scholar'', ''core'', ''crossref'']),
    (''physics'', [''arxiv'', ''nasa_ads'', ''semantic_scholar'', ''openalex'', ''core'']),
    (''biology'', [''pubmed'', ''biorxiv'', ''medrxiv'', ''europe_pmc'', ''semantic_scholar'', ''openalex'', ''doaj'']),
    (''neuro'', [''biorxiv'', ''medrxiv'', ''europe_pmc'', ''semantic_scholar'', ''openalex'', ''pubmed'']),
    (''humanities'', [''openalex'', ''core'', ''crossref'', ''semantic_scholar'', ''doaj'']),
    (''mathematics'', [''arxiv'', ''openalex'', ''semantic_scholar'', ''repec'']),
    (''math'', [''arxiv'', ''semantic_scholar'', ''openalex'', ''repec'']),
    (''chemistry'', [''openalex'', ''semantic_scholar'', ''europe_pmc'', ''pubmed'']),
    (''economics'', [''repec'', ''ssrn'', ''semantic_scholar'', ''openalex'', ''core'', ''crossref'']),
    (''law'', [''openalex'', ''semantic_scholar'', ''crossref'', ''ssrn'']),
    (''education'', [''openalex'', ''semantic_scholar'', ''core'']),
    (''environmental_science'', [''openalex'', ''semantic_scholar'', ''core'', ''crossref'', ''biorxiv'']),
    (''materials_science'', [''openalex'', ''semantic_scholar'', ''arxiv'', ''crossref'']),
    (''agriculture'', [''openalex'', ''semantic_scholar'', ''europe_pmc'', ''pubmed'', ''biorxiv'']),
    (''linguistics'', [''openalex'', ''semantic_scholar'', ''arxiv'']),
    (''philosophy'', [''philpapers'', ''semantic_scholar'', ''openalex'', ''doaj'']),
    (''engineering'', [''ieee'', ''semantic_scholar'', ''openalex'', ''arxiv'', ''crossref'']),
    (''astronomy'', [''nasa_ads'', ''arxiv'', ''semantic_scholar'', ''openalex'']),
    (''general'', [''semantic_scholar'', ''openalex'', ''core'', ''crossref'', ''arxiv'', ''doaj''])]"

definition default_provider_order :: "string list" where
  "default_provider_order = [''semantic_scholar'', ''openalex'', ''arxiv'', ''pubmed'', ''core'', ''google_scholar'']"

text \<open>\<open>ord\<close> is the order in which the provider map is visited.\<close>

definition apply_domain_routes :: "string list \<Rightarrow> provider_registry \<Rightarrow> provider_registry" where
  "apply_domain_routes ord r =
     (let registered = (\<lambda>name. dict_get (r_providers r) name \<noteq> None);
          defaults = filter registered default_provider_order
      in r\<lparr>r_routes := fold (\<lambda>(d, names) rt. dict_set d (filter registered names) rt) domain_routes (r_routes r),
           r_defaults := fold (\<lambda>name ds. if name \<in> set ds then ds else ds @ [name]) ord defaults\<rparr>)"

definition provider_table :: "(string \<times> string list \<times> string list) list" where
  "provider_table =
   [(''semantic_scholar'', [''medicine'', ''cs'', ''ai'', ''social'', ''physics'', ''engineering'', ''humanities'', ''biology'', ''neuro''], [''author_lookup'', ''paper_lookup'']),
    (''openalex'', [], []),
    (''pubmed'', [''medicine'', ''biology'', ''neuro''], []),
    (''core'', [], []),
    (''arxiv'', [''cs'', ''physics'', ''math'', ''ai'', ''engineering''], [''paper_lookup'']),
    (''biorxiv'', [''biology'', ''neuro''], []),
    (''medrxiv'', [''medicine'', ''biology''], []),
    (''europe_pmc'', [''medicine'', ''biology'', ''neuro'', ''climate''], []),
    (''clinical_trials'', [''medicine''], []),
    (''crossref'', [''social'', ''humanities'', ''climate'', ''engineering''], [''paper_lookup'']),
    (''dblp'', [''cs'', ''ai'', ''engineering''], []),
    (''papers_with_code'', [''cs'', ''ai'', ''engineering''], []),
    (''google_scholar'', [''cs'', ''ai'', ''biology'', ''medicine'', ''social'', ''engineering'', ''humanities'', ''climate''], [''author_lookup'']),
    (''doaj'', [''general'', ''humanities'', ''social'', ''biology''], []),
    (''ssrn'', [''social'', ''economics'', ''law''], []),
    (''ieee'', [''engineering'', ''cs'', ''physics''], []),
    (''nasa_ads'', [''astronomy'', ''physics''], []),
    (''repec'', [''economics''], []),
    (''philpapers'', [''philosophy''], [])]"

definition build_registry :: "string list \<Rightarrow> string list \<Rightarrow> provider_registry" where
  "build_registry ord requested =
     (let add = (\<lambda>(name, domains, tools) r.
            if requested \<noteq> [] \<and> name \<notin> set requested then r
            else register_provider \<lparr>sp_name = name, sp_domains = domains, sp_tools = tools,
                   sp_base = new_base_provider\<rparr> r)
      in apply_domain_routes ord (fold add provider_table new_provider_registry))"

section \<open>Rate gates\<close>

text \<open>One pass of the gate's loop under the lock: granted, deferred, or to be retried after \<open>wait\<close>.\<close>

datatype gate_pass = GateGranted | GateDeferred int | GateWait int

definition rate_gate_pass :: "int \<Rightarrow> string \<Rightarrow> int \<Rightarrow> provider_registry \<Rightarrow> provider_registry \<times> gate_pass" where
  "rate_gate_pass now name max_wait r =
     (let p = normalize_provider_name name; interval = dict_get_or 0 (r_min_intervals r) p in
      if interval \<le> 0 then (r, GateGranted)
      else
        (let wait = (case dict_get (r_last_request r) p of None \<Rightarrow> 0 | Some t \<Rightarrow> t + interval - now) in
         if wait \<le> 0 then (r\<lparr>r_last_request := dict_set p now (r_last_request r)\<rparr>, GateGranted)
         else if 0 < max_wait \<and> max_wait < wait then (r, GateDeferred wait)
         else (r, GateWait wait)))"

datatype gate_result = GatePassed | GateDeferredErr int | GateCancelledErr int

text \<open>
  The loop: each pass reads the clock again; a pass that has to wait ends the call when the context
  is done before the timer fires. The list holds the readings of the clock and whether the context
  was done in the wait after it; \<open>None\<close> means the call is still waiting when they are used up.
\<close>

fun wait_for_rate_gate ::
  "(int \<times> bool) list \<Rightarrow> string \<Rightarrow> int \<Rightarrow> provider_registry \<Rightarrow> (provider_registry \<times> gate_result) option" where
  "wait_for_rate_gate [] name max_wait r = None"
| "wait_for_rate_gate ((now, cancelled) # clock) name max_wait r =
     (case rate_gate_pass now name max_wait r of
        (r', GateGranted) \<Rightarrow> Some (r', GatePassed)
      | (r', GateDeferred w) \<Rightarrow> Some (r', GateDeferredErr w)
      | (r', GateWait w) \<Rightarrow>
          if cancelled then Some (r', GateCancelledErr w) else wait_for_rate_gate clock name max_wait r')"

definition defer_rate_gate :: "int \<Rightarrow> string \<Rightarrow> int \<Rightarrow> provider_registry \<Rightarrow> provider_registry" where
  "defer_rate_gate now name cooldown r =
     (let p = normalize_provider_name name in
      if cooldown \<le> 0 \<or> p = [] then r
      else
        (let marker = now + (cooldown - dict_get_or 0 (r_min_intervals r) p) in
         case dict_get (r_last_request r) p of
           None \<Rightarrow> r\<lparr>r_last_request := dict_set p marker (r_last_request r)\<rparr>
         | Some t \<Rightarrow> if t < marker then r\<lparr>r_last_request := dict_set p marker (r_last_request r)\<rparr> else r))"

definition provider_rate_gate_max_wait :: "string \<Rightarrow> int" where
  "provider_rate_gate_max_wait name =
     (if normalize_provider_name name \<in> {''semantic_scholar'', ''pubmed''} then 8 * second else 0)"

definition provider_semaphore_acquire_timeout :: "string \<Rightarrow> int" where
  "provider_semaphore_acquire_timeout name =
     (if normalize_provider_name name \<in> {''semantic_scholar'', ''pubmed''} then 15 * second else 5 * second)"

text \<open>The rate limit a provider reported, \<open>Some retry_after\<close> for an error of kind \<open>rate_limit\<close>.\<close>

definition provider_rate_limit_cooldown :: "string \<Rightarrow> int option \<Rightarrow> int" where
  "provider_rate_limit_cooldown name limited =
     (case limited of
        Some ra \<Rightarrow> if 0 < ra then (if 120 * second < ra then 120 * second else ra) else
          (let n = normalize_provider_name name in
           if n = ''semantic_scholar'' then 30 * second else if n = ''pubmed'' then 15 * second else 10 * second)
      | None \<Rightarrow>
          (let n = normalize_provider_name name in
           if n = ''semantic_scholar'' then 30 * second else if n = ''pubmed'' then 15 * second else 10 * second))"

section \<open>Gated requests are spaced\<close>

datatype gate_op = TryGate int int | DeferGate int int

fun gate_run :: "string \<Rightarrow> gate_op list \<Rightarrow> provider_registry \<Rightarrow> provider_registry \<times> int list" where
  "gate_run name [] r = (r, [])"
| "gate_run name (TryGate now mw # ops) r =
     (let (r', res) = rate_gate_pass now name mw r; (r'', grants) = gate_run name ops r'
      in (r'', if res = GateGranted then now # grants else grants))"
| "gate_run name (DeferGate now c # ops) r = gate_run name ops (defer_rate_gate now name c r)"

abbreviation gate_interval :: "string \<Rightarrow> provider_registry \<Rightarrow> int" where
  "gate_interval name r \<equiv> dict_get_or 0 (r_min_intervals r) (normalize_provider_name name)"

text \<open>No request is granted before \<open>open_from\<close>.\<close>

definition gate_closed_until :: "string \<Rightarrow> provider_registry \<Rightarrow> int \<Rightarrow> bool" where
  "gate_closed_until name r t \<longleftrightarrow>
     (\<exists>m. dict_get (r_last_request r) (normalize_provider_name name) = Some m \<and> t \<le> m + gate_interval name r)"

lemma gate_intervals [routing_simps]:
  "r_min_intervals (fst (rate_gate_pass now name mw r)) = r_min_intervals r"
  "r_min_intervals (defer_rate_gate now name c r) = r_min_intervals r"
  by (auto simp: rate_gate_pass_def defer_rate_gate_def Let_def split: option.splits)

lemma gate_closed_pass:
  assumes "0 < gate_interval name r" "gate_closed_until name r t" "rate_gate_pass now name mw r = (r', res)"
  shows "res \<noteq> GateGranted \<longrightarrow> r' = r"
    and "res = GateGranted \<longrightarrow> t \<le> now"
  using assms by (auto simp: gate_closed_until_def rate_gate_pass_def Let_def split: if_splits)

lemma gate_granted_closes:
  assumes "0 < gate_interval name r" "rate_gate_pass now name mw r = (r', GateGranted)"
  shows "gate_closed_until name r' (now + gate_interval name r)"
  using assms by (auto simp: gate_closed_until_def rate_gate_pass_def Let_def dict_get_set split: if_splits)

lemma gate_closed_mono: "gate_closed_until name r t \<Longrightarrow> s \<le> t \<Longrightarrow> gate_closed_until name r s"
  by (auto simp: gate_closed_until_def)

lemma gate_closed_defer:
  "gate_closed_until name r t \<Longrightarrow> gate_closed_until name (defer_rate_gate now name c r) t"
  by (auto simp: gate_closed_until_def defer_rate_gate_def Let_def dict_get_set split: option.splits)

lemma defer_closes:
  assumes "0 < c" "normalize_provider_name name \<noteq> []"
  shows "gate_closed_until name (defer_rate_gate now name c r) (now + c)"
  using assms by (auto simp: gate_closed_until_def defer_rate_gate_def Let_def dict_get_set split: option.splits)

lemma gate_run_closed:
  assumes "0 < gate_interval name r" "gate_closed_until name r t"
  shows "(\<forall>g \<in> set (snd (gate_run name ops r)). t \<le> g)
         \<and> sorted_wrt (\<lambda>a b. a + gate_interval name r \<le> b) (snd (gate_run name ops r))"
  using assms
proof (induction name ops r arbitrary: t rule: gate_run.induct)
  case (2 name now mw ops r)
  obtain r' res where p: "rate_gate_pass now name mw r = (r', res)" by (cases "rate_gate_pass now name mw r")
  obtain r'' g where g: "gate_run name ops r' = (r'', g)" by (cases "gate_run name ops r'")
  have iv: "gate_interval name r' = gate_interval name r" using gate_intervals(1) [of now name mw r] p by simp
  show ?case
  proof (cases "res = GateGranted")
    case True
    have t: "t \<le> now" using gate_closed_pass(2) [OF 2(2,3) p] True by simp
    have "gate_closed_until name r' (now + gate_interval name r)"
      using gate_granted_closes [OF 2(2)] p True by simp
    from 2(1) [OF p [symmetric] refl _ this] g iv 2(2) t show ?thesis
      by (fastforce simp: p True)
  next
    case False
    then have "r' = r" using gate_closed_pass(1) [OF 2(2,3) p] by simp
    with 2(1) [OF p [symmetric] refl _ , of t] 2(2,3) g show ?thesis by (simp add: p False)
  qed
next
  case (3 name now c ops r)
  from 3(1) [OF _ gate_closed_defer [OF 3(3)]] 3(2) show ?case by (simp add: gate_intervals)
qed simp

text \<open>
  The rate gate spaces the requests to a provider with a minimal interval: whatever callers try
  the gate and report rate limits at whatever times, two granted requests are at least the interval
  apart, and after a rate limit with cool-down \<open>c\<close> reported at time \<open>t\<close> nothing is granted before
  \<open>t + c\<close>.
\<close>

theorem rate_gate_spaced:
  assumes "0 < gate_interval name r"
  shows "sorted_wrt (\<lambda>a b. a + gate_interval name r \<le> b) (snd (gate_run name ops r))
         \<and> (0 < c \<and> normalize_provider_name name \<noteq> [] \<longrightarrow>
              (\<forall>g \<in> set (snd (gate_run name ops (defer_rate_gate t name c r))). t + c \<le> g))"
proof
  show "sorted_wrt (\<lambda>a b. a + gate_interval name r \<le> b) (snd (gate_run name ops r))"
    using assms
  proof (induction name ops r rule: gate_run.induct)
    case (2 name now mw ops r)
    obtain r' res where p: "rate_gate_pass now name mw r = (r', res)" by (cases "rate_gate_pass now name mw r")
    obtain r'' g where g: "gate_run name ops r' = (r'', g)" by (cases "gate_run name ops r'")
    have iv: "gate_interval name r' = gate_interval name r" using gate_intervals(1) [of now name mw r] p by simp
    show ?case
    proof (cases "res = GateGranted")
      case True
      have "gate_closed_until name r' (now + gate_interval name r)"
        using gate_granted_closes [OF 2(2)] p True by simp
      from gate_run_closed [OF _ this, of ops] g iv 2(2) show ?thesis by (simp add: p True)
    next
      case False
      with 2(1) [OF p [symmetric] refl] 2(2) g iv show ?thesis by (simp add: p)
    qed
  next
    case (3 name now c ops r)
    then show ?case using gate_intervals(2) by simp
  qed simp
  show "0 < c \<and> normalize_provider_name name \<noteq> [] \<longrightarrow>
          (\<forall>g \<in> set (snd (gate_run name ops (defer_rate_gate t name c r))). t + c \<le> g)"
  proof
    assume a: "0 < c \<and> normalize_provider_name name \<noteq> []"
    then have "gate_closed_until name (defer_rate_gate t name c r) (t + c)" by (simp add: defer_closes)
    moreover have "0 < gate_interval name (defer_rate_gate t name c r)" using assms by (simp add: gate_intervals)
    ultimately show "\<forall>g \<in> set (snd (gate_run name ops (defer_rate_gate t name c r))). t + c \<le> g"
      using gate_run_closed by blast
  qed
qed

text \<open>Three tries at arXiv's gate within four seconds: the second comes too early.\<close>

theorem rate_gate_spaced_witness:
  "sorted_wrt (\<lambda>a b. a + 3 * second \<le> b)
     (snd (gate_run ''arXiv'' [TryGate 0 0, TryGate second 0, TryGate (4 * second) 0] new_provider_registry))
   \<and> snd (gate_run ''arXiv'' [TryGate 0 0, TryGate second 0, TryGate (4 * second) 0] new_provider_registry)
       = [0, 4 * second]"
proof -
  have i: "gate_interval ''arXiv'' new_provider_registry = 3 * second" by code_simp
  then have "0 < gate_interval ''arXiv'' new_provider_registry" by simp
  from rate_gate_spaced [OF this, of "[TryGate 0 0, TryGate second 0, TryGate (4 * second) 0]" 1 0] i
  have "sorted_wrt (\<lambda>a b. a + 3 * second \<le> b)
     (snd (gate_run ''arXiv'' [TryGate 0 0, TryGate second 0, TryGate (4 * second) 0] new_provider_registry))"
    by simp
  moreover have "snd (gate_run ''arXiv'' [TryGate 0 0, TryGate second 0, TryGate (4 * second) 0] new_provider_registry)
       = [0, 4 * second]" by code_simp
  ultimately show ?thesis by blast
qed

text \<open>
  Only three providers have a minimal interval, and the gate lets the others pass without looking
  at the time of the last request: for them the cool-down computed from a provider's
  \<open>Retry-After\<close> answer is recorded and never obeyed.
\<close>

theorem cooldown_ignored_without_interval:
  assumes "r_min_intervals r = r_min_intervals new_provider_registry"
    and "normalize_provider_name name \<notin> {''arxiv'', ''semantic_scholar'', ''pubmed''}"
  shows "snd (rate_gate_pass now name mw (defer_rate_gate t name (provider_rate_limit_cooldown name limited) r)) = GateGranted"
  using assms by (simp add: rate_gate_pass_def gate_intervals new_provider_registry_def dict_get_or_def Let_def)

text \<open>Crossref asks for two minutes and is asked again after a nanosecond.\<close>

theorem cooldown_ignored_without_interval_witness:
  "provider_rate_limit_cooldown ''crossref'' (Some (120 * second)) = 120 * second
   \<and> snd (rate_gate_pass 1 ''crossref'' 0 (defer_rate_gate 0 ''crossref''
       (provider_rate_limit_cooldown ''crossref'' (Some (120 * second))) new_provider_registry)) = GateGranted"
proof
  show "provider_rate_limit_cooldown ''crossref'' (Some (120 * second)) = 120 * second" by code_simp
  have "normalize_provider_name ''crossref'' = ''crossref''" by code_simp
  then show "snd (rate_gate_pass 1 ''crossref'' 0 (defer_rate_gate 0 ''crossref''
       (provider_rate_limit_cooldown ''crossref'' (Some (120 * second))) new_provider_registry)) = GateGranted"
    by (intro cooldown_ignored_without_interval) simp_all
qed

section \<open>Requested providers, one by one\<close>

text \<open>The specification: what the registry says about one provider name.\<close>

definition request_outcome :: "int \<Rightarrow> provider_registry \<Rightarrow> string \<Rightarrow> string + search_provider" where
  "request_outcome now r name =
     (case dict_get (r_providers r) name of
        None \<Rightarrow> Inl ''requested provider is not registered''
      | Some p \<Rightarrow>
          if \<not> sp_healthy now p then Inl ''requested provider is currently unavailable''
          else if (case dict_get (r_breakers r) name of Some cb \<Rightarrow> \<not> snd (cb_admit now cb) | None \<Rightarrow> False)
          then Inl ''requested provider is temporarily unavailable''
          else Inr p)"

definition requested_names :: "string list \<Rightarrow> string list" where
  "requested_names names = filter (\<lambda>n. n \<noteq> []) (map normalize_provider_name names)"

definition accepted :: "int \<Rightarrow> provider_registry \<Rightarrow> string list \<Rightarrow> search_provider list" where
  "accepted now r ns =
     List.map_filter (\<lambda>n. case request_outcome now r n of Inr p \<Rightarrow> Some p | Inl m \<Rightarrow> None) ns"

definition refused :: "int \<Rightarrow> provider_registry \<Rightarrow> string list \<Rightarrow> provider_warning list" where
  "refused now r ns =
     List.map_filter (\<lambda>n. case request_outcome now r n of
        Inl m \<Rightarrow> Some \<lparr>w_provider = n, w_message = m\<rparr> | Inr p \<Rightarrow> None) ns"

definition agree_on :: "string list \<Rightarrow> provider_registry \<Rightarrow> provider_registry \<Rightarrow> bool" where
  "agree_on seen r' r \<longleftrightarrow> r_providers r' = r_providers r \<and>
     (\<forall>n. n \<notin> set seen \<longrightarrow> dict_get (r_breakers r') n = dict_get (r_breakers r) n)"

lemma resolve_step_outcome:
  assumes "agree_on seen r' r" "n = normalize_provider_name raw" "n \<noteq> []" "n \<notin> set seen"
  obtains r'' where "agree_on (n # seen) r'' r"
    and "resolve_step now raw (r', sel, warn, seen) = (r'', sel @ accepted now r [n], warn @ refused now r [n], n # seen)"
proof -
  obtain r'' sel' warn' seen' where st: "resolve_step now raw (r', sel, warn, seen) = (r'', sel', warn', seen')"
    by (cases "resolve_step now raw (r', sel, warn, seen)")
  have cb: "dict_get (r_breakers r') n = dict_get (r_breakers r) n" and pr: "r_providers r' = r_providers r"
    using assms by (simp_all add: agree_on_def)
  have "agree_on (n # seen) r'' r \<and> sel' = sel @ accepted now r [n] \<and> warn' = warn @ refused now r [n] \<and> seen' = n # seen"
    using st assms pr
    by (auto simp: resolve_step_def Let_def accepted_def refused_def request_outcome_def cb agree_on_def
        dict_get_set map_filter_simps split: option.splits if_splits prod.splits)
  with st that show ?thesis by blast
qed

lemma accepted_Cons: "accepted now r (n # ns) = accepted now r [n] @ accepted now r ns"
  and refused_Cons: "refused now r (n # ns) = refused now r [n] @ refused now r ns"
  by (simp_all add: accepted_def refused_def map_filter_simps split: sum.split)

lemma resolve_fold:
  assumes "agree_on seen r' r"
  shows "\<exists>r'' seen'. fold (resolve_step now) names (r', sel, warn, seen)
     = (r'', sel @ accepted now r (uniq_by (\<lambda>n. n) seen (requested_names names)),
        warn @ refused now r (uniq_by (\<lambda>n. n) seen (requested_names names)), seen')
     \<and> r_providers r'' = r_providers r"
  using assms
proof (induction names arbitrary: r' sel warn seen)
  case Nil
  then show ?case by (simp add: requested_names_def accepted_def refused_def map_filter_simps agree_on_def)
next
  case (Cons raw names)
  let ?n = "normalize_provider_name raw"
  show ?case
  proof (cases "?n = [] \<or> ?n \<in> set seen")
    case True
    then have "resolve_step now raw (r', sel, warn, seen) = (r', sel, warn, seen)"
      by (auto simp: resolve_step_def Let_def)
    moreover have "uniq_by (\<lambda>n. n) seen (requested_names (raw # names))
        = uniq_by (\<lambda>n. n) seen (requested_names names)"
      using True by (auto simp: requested_names_def)
    ultimately show ?thesis using Cons.IH [OF Cons.prems, of sel warn] by simp
  next
    case False
    then obtain r2 where r2: "agree_on (?n # seen) r2 r"
      and st: "resolve_step now raw (r', sel, warn, seen)
                 = (r2, sel @ accepted now r [?n], warn @ refused now r [?n], ?n # seen)"
      using resolve_step_outcome [OF Cons.prems refl] by blast
    have e: "uniq_by (\<lambda>n. n) seen (requested_names (raw # names))
        = ?n # uniq_by (\<lambda>n. n) (?n # seen) (requested_names names)"
      using False by (simp add: requested_names_def)
    have "accepted now r (uniq_by (\<lambda>n. n) seen (requested_names (raw # names)))
        = accepted now r [?n] @ accepted now r (uniq_by (\<lambda>n. n) (?n # seen) (requested_names names))"
      "refused now r (uniq_by (\<lambda>n. n) seen (requested_names (raw # names)))
        = refused now r [?n] @ refused now r (uniq_by (\<lambda>n. n) (?n # seen) (requested_names names))"
      unfolding e by (rule accepted_Cons, rule refused_Cons)
    then show ?thesis
      using Cons.IH [OF r2, of "sel @ accepted now r [?n]" "warn @ refused now r [?n]"] st by simp
  qed
qed

text \<open>
  Provider hints are hard constraints: of the names asked for - normalised, without blanks and
  repetitions, in the order asked - the result holds exactly those that are registered, healthy and
  admitted by their breaker, and one warning with the reason for each of the others.
\<close>

theorem requested_providers_exact:
  "snd (resolve_requested_providers now names r)
     = (let ns = uniq_by (\<lambda>n. n) [] (requested_names names) in (accepted now r ns, refused now r ns))
   \<and> length (accepted now r ns) + length (refused now r ns) = length ns"
proof
  have "agree_on [] r r" by (simp add: agree_on_def)
  from resolve_fold [OF this, of now names "[]" "[]"]
  show "snd (resolve_requested_providers now names r)
     = (let ns = uniq_by (\<lambda>n. n) [] (requested_names names) in (accepted now r ns, refused now r ns))"
    by (auto simp: resolve_requested_providers_def Let_def)
  show "length (accepted now r ns) + length (refused now r ns) = length ns"
    by (induction ns) (auto simp: accepted_def refused_def map_filter_simps split: sum.split)
qed

section \<open>What the router returns\<close>

definition wf_registry :: "provider_registry \<Rightarrow> bool" where
  "wf_registry r \<longleftrightarrow> (\<forall>name p. dict_get (r_providers r) name = Some p \<longrightarrow> sp_name p = name)"

abbreviation usable :: "int \<Rightarrow> provider_registry \<Rightarrow> search_provider \<Rightarrow> bool" where
  "usable now r p \<equiv> sp_healthy now p \<and> dict_get (r_providers r) (sp_name p) = Some p"

abbreviation breaker_open :: "provider_registry \<Rightarrow> string \<Rightarrow> bool" where
  "breaker_open r name \<equiv> (case dict_get (r_breakers r) name of Some cb \<Rightarrow> cb_st cb = StateOpen | None \<Rightarrow> False)"

lemma healthy_of_usable: "wf_registry r \<Longrightarrow> p \<in> set (healthy_of now r names) \<Longrightarrow>
    usable now r p \<and> sp_name p \<in> set names"
  by (auto simp: healthy_of_def wf_registry_def map_filter_def split: option.splits if_splits)

text \<open>One provider of a lookup: what is selected is usable, closed and from the allowed set.\<close>

definition selection_ok :: "int \<Rightarrow> provider_registry \<Rightarrow> string \<Rightarrow> string list \<Rightarrow> search_provider list \<times> string list \<Rightarrow> bool" where
  "selection_ok now r domain allowed s \<longleftrightarrow>
     map sp_name (fst s) = rev (snd s) \<and> distinct (snd s) \<and>
     (\<forall>p \<in> set (fst s). usable now r p \<and> \<not> breaker_open r (sp_name p) \<and>
        (domain \<noteq> [] \<and> domain \<noteq> ''general'' \<and> allowed \<noteq> [] \<longrightarrow> sp_name p \<in> set allowed))"

lemma selection_ok_include:
  assumes "wf_registry r" "selection_ok now r domain allowed s"
  shows "selection_ok now r domain allowed (include_provider now r domain allowed raw s)"
proof (cases s)
  case (Pair sel seen)
  show ?thesis
    using assms unfolding Pair
    by (auto simp: selection_ok_def include_provider_def Let_def wf_registry_def split: option.splits if_splits)
qed

lemma selection_ok_fold:
  "wf_registry r \<Longrightarrow> selection_ok now r domain allowed s \<Longrightarrow>
     selection_ok now r domain allowed (fold (include_provider now r domain allowed) names s)"
  by (induction names arbitrary: s) (simp_all add: selection_ok_include)

lemma lookup_ok: "wf_registry r \<Longrightarrow> \<exists>seen. selection_ok now r domain allowed (lookup_providers now r names domain allowed, seen)"
  using selection_ok_fold [of r now domain allowed "([], [])" "if names = [] then r_defaults r else names"]
  unfolding lookup_providers_def by (metis (no_types, lifting) distinct.simps(1) empty_iff empty_set
      fst_conv list.map_disc_iff prod.collapse rev.simps(1) selection_ok_def snd_conv)

lemma include_keeps: "set (fst s) \<subseteq> set (fst (include_provider now r domain allowed raw s))"
  by (cases s) (auto simp: include_provider_def Let_def split: option.splits)

lemma fold_include_keeps: "set (fst s) \<subseteq> set (fst (fold (include_provider now r domain allowed) names s))"
proof (induction names arbitrary: s)
  case (Cons n names)
  show ?case
    using include_keeps [of s now r domain allowed n] Cons.IH [of "include_provider now r domain allowed n s"]
    by auto
qed simp

lemma lookup_default_found:
  assumes "wf_registry r" "name \<in> set (r_defaults r)" "normalize_provider_name name = name" "name \<noteq> []"
    and "dict_get (r_providers r) name = Some p" "sp_healthy now p" "\<not> breaker_open r name"
  shows "lookup_providers now r [] [] [] \<noteq> []"
proof -
  obtain us vs where d: "r_defaults r = us @ name # vs" using assms(2) by (auto dest: split_list)
  obtain sel seen where s: "fold (include_provider now r [] []) us ([], []) = (sel, seen)"
    by (cases "fold (include_provider now r [] []) us ([], [])")
  have "selection_ok now r [] [] (sel, seen)"
    using selection_ok_fold [OF assms(1), of now "[]" "[]" "([], [])" us] s by (simp add: selection_ok_def)
  then have "name \<in> set seen \<longrightarrow> sel \<noteq> []" by (auto simp: selection_ok_def)
  then have "fst (include_provider now r [] [] name (sel, seen)) \<noteq> []"
    using assms by (auto simp: include_provider_def Let_def)
  then have "fst (fold (include_provider now r [] []) vs (include_provider now r [] [] name (sel, seen))) \<noteq> []"
    using fold_include_keeps by (metis set_empty subset_empty)
  then show ?thesis by (simp add: lookup_providers_def d s)
qed

text \<open>
  C22. Routing is sound and never gives up early: every provider the router returns is registered under
  its name and healthy; what it learned from past searches never brings in a provider from outside
  a specific domain whose own providers are up; and if any default provider, named in
  its normal form, is healthy with its breaker not open, some provider is returned.
\<close>

theorem routing_sound:
  assumes "wf_registry r"
  shows "(\<forall>p \<in> set (route now r learned query domain). usable now r p)
     \<and> (routing_domain query domain \<noteq> ''general'' \<and> providers_for now r (routing_domain query domain) \<noteq> [] \<longrightarrow>
          set (route now r learned query domain) \<subseteq> set (providers_for now r (routing_domain query domain)))
     \<and> ((\<exists>name p. name \<in> set (r_defaults r) \<and> name \<noteq> [] \<and> normalize_provider_name name = name
            \<and> dict_get (r_providers r) name = Some p \<and> sp_healthy now p \<and> \<not> breaker_open r name) \<longrightarrow>
          route now r learned query domain \<noteq> [])"
proof -
  let ?d = "routing_domain query domain"
  let ?dps = "providers_for now r ?d"
  have d: "?d \<noteq> []" by (simp add: routing_domain_def Let_def)
  have dps: "usable now r p" if "p \<in> set (providers_for now r dom)" for p dom
    using that healthy_of_usable [OF assms] by (simp add: providers_for_def Let_def split: if_splits)
  have lk: "usable now r p \<and> (dom \<noteq> [] \<and> dom \<noteq> ''general'' \<and> allowed \<noteq> [] \<longrightarrow> sp_name p \<in> set allowed)"
    if "p \<in> set (lookup_providers now r names dom allowed)" for p names dom allowed
    using lookup_ok [OF assms, of now dom allowed names] that by (auto simp: selection_ok_def)
  have cases: "route now r learned query domain \<in>
      insert ?dps (insert (lookup_providers now r [] [] []) (range (\<lambda>names. lookup_providers now r names ?d (map sp_name ?dps))))"
    by (simp add: route_def Let_def split: option.split)
  have "\<forall>p \<in> set (route now r learned query domain). usable now r p"
  proof -
    from cases consider "route now r learned query domain = ?dps"
      | "route now r learned query domain = lookup_providers now r [] [] []"
      | names where "route now r learned query domain = lookup_providers now r names ?d (map sp_name ?dps)"
      by (elim insertE rangeE)
    then show ?thesis by cases (simp_all add: dps lk [THEN conjunct1])
  qed
  moreover have "set (route now r learned query domain) \<subseteq> set ?dps" if "?d \<noteq> ''general''" "?dps \<noteq> []"
  proof -
    have "p \<in> set ?dps" if "p \<in> set (lookup_providers now r names ?d (map sp_name ?dps))" for p names
    proof -
      have "sp_name p \<in> set (map sp_name ?dps)" "usable now r p"
        using lk [OF that] d \<open>?d \<noteq> ''general''\<close> \<open>?dps \<noteq> []\<close> by auto
      then obtain q where q: "q \<in> set ?dps" "sp_name q = sp_name p" by auto
      have "dict_get (r_providers r) (sp_name p) = Some q"
        using dps [OF q(1)] unfolding q(2) by (rule conjunct2)
      moreover have "dict_get (r_providers r) (sp_name p) = Some p"
        using \<open>usable now r p\<close> by (rule conjunct2)
      ultimately have "Some q = Some p" by (rule subst)
      with q(1) show ?thesis by (simp only: option.inject)
    qed
    then have lks: "set (lookup_providers now r names ?d (map sp_name ?dps)) \<subseteq> set ?dps" for names by blast
    have "route now r learned query domain
            \<in> insert ?dps (range (\<lambda>names. lookup_providers now r names ?d (map sp_name ?dps)))"
      using that(2) by (simp add: route_def Let_def split: option.split)
    then show ?thesis using lks by (elim insertE rangeE) simp_all
  qed
  moreover have "route now r learned query domain \<noteq> []"
    if "\<exists>name p. name \<in> set (r_defaults r) \<and> name \<noteq> [] \<and> normalize_provider_name name = name
            \<and> dict_get (r_providers r) name = Some p \<and> sp_healthy now p \<and> \<not> breaker_open r name"
  proof -
    from that obtain name p where "lookup_providers now r [] [] [] \<noteq> []"
      using lookup_default_found [OF assms] by blast
    then show ?thesis by (simp add: route_def Let_def)
  qed
  ultimately show ?thesis by blast
qed

section \<open>The registry of the program\<close>

definition add_table_entry :: "string list \<Rightarrow> string \<times> string list \<times> string list \<Rightarrow> provider_registry \<Rightarrow> provider_registry" where
  "add_table_entry requested = (\<lambda>(name, domains, tools) r.
     if requested \<noteq> [] \<and> name \<notin> set requested then r
     else register_provider \<lparr>sp_name = name, sp_domains = domains, sp_tools = tools, sp_base = new_base_provider\<rparr> r)"

lemma build_registry_fold:
  "build_registry ord requested = apply_domain_routes ord (fold (add_table_entry requested) provider_table new_provider_registry)"
  by (simp add: build_registry_def add_table_entry_def Let_def)

lemma register_fields [routing_simps]:
  "r_providers (register_provider p r) = dict_set (sp_name p) p (r_providers r)"
  "r_breakers (register_provider p r) = dict_set (sp_name p) (new_circuit_breaker (sp_name p)) (r_breakers r)"
  by (simp_all add: register_provider_def new_weighted_def Let_def)

lemma apply_routes_fields [routing_simps]:
  "r_providers (apply_domain_routes ord r) = r_providers r"
  "r_breakers (apply_domain_routes ord r) = r_breakers r"
  by (simp_all add: apply_domain_routes_def Let_def)

definition table_names :: "string list \<Rightarrow> string list" where
  "table_names requested = filter (\<lambda>n. requested = [] \<or> n \<in> set requested) (map fst provider_table)"

lemma fold_table:
  assumes "wf_registry r"
  shows "wf_registry (fold (add_table_entry requested) table r)
     \<and> fst ` set (r_providers (fold (add_table_entry requested) table r))
         = fst ` set (r_providers r) \<union> {n \<in> fst ` set table. requested = [] \<or> n \<in> set requested}"
  using assms
proof (induction table arbitrary: r)
  case (Cons e table)
  obtain name domains tools where e: "e = (name, domains, tools)" by (cases e)
  have "wf_registry (add_table_entry requested e r)"
    using Cons.prems by (auto simp: e add_table_entry_def wf_registry_def routing_simps dict_get_set)
  moreover have "fst ` set (r_providers (add_table_entry requested e r))
      = fst ` set (r_providers r) \<union> {n \<in> {name}. requested = [] \<or> n \<in> set requested}"
    by (auto simp: e add_table_entry_def routing_simps fst_set_dict_set)
  ultimately show ?case using Cons.IH [of "add_table_entry requested e r"] by (auto simp: e)
qed simp

lemma fold_missing:
  "distinct ds \<Longrightarrow> let out = fold (\<lambda>name ds. if name \<in> set ds then ds else ds @ [name]) ord ds
     in distinct out \<and> set out = set ds \<union> set ord \<and> (\<exists>zs. out = ds @ zs)"
proof (induction ord arbitrary: ds)
  case (Cons n ord)
  show ?case
  proof (cases "n \<in> set ds")
    case True
    with Cons show ?thesis by (simp add: Let_def insert_absorb Un_insert_right)
  next
    case False
    with Cons.prems have "distinct (ds @ [n])" by simp
    from Cons.IH [OF this] False show ?thesis by (auto simp: Let_def)
  qed
qed simp

text \<open>
  The program's registry, for every choice of requested providers and every iteration order of its
  map: it holds the requested providers of the table (all of them when nothing is requested), each
  under its own name; its default route lists each of them exactly once, the preferred ones first;
  and its domain routes name registered providers only.
\<close>

theorem build_registry_complete:
  assumes "distinct ord" "set ord = set (table_names requested)"
  shows "wf_registry (build_registry ord requested)
     \<and> fst ` set (r_providers (build_registry ord requested)) = set (table_names requested)
     \<and> distinct (r_defaults (build_registry ord requested))
     \<and> set (r_defaults (build_registry ord requested)) = set (table_names requested)
     \<and> prefix (filter (\<lambda>n. n \<in> set (table_names requested)) default_provider_order)
          (r_defaults (build_registry ord requested))"
proof -
  let ?r = "fold (add_table_entry requested) provider_table new_provider_registry"
  have t: "wf_registry ?r" "fst ` set (r_providers ?r) = set (table_names requested)"
    using fold_table [of new_provider_registry requested provider_table]
    by (auto simp: wf_registry_def new_provider_registry_def table_names_def)
  have reg: "dict_get (r_providers ?r) n \<noteq> None \<longleftrightarrow> n \<in> set (table_names requested)" for n
    using t(2) by (simp add: map_of_eq_None_iff)
  let ?ds = "filter (\<lambda>n. n \<in> set (table_names requested)) default_provider_order"
  have df: "r_defaults (build_registry ord requested)
      = fold (\<lambda>name ds. if name \<in> set ds then ds else ds @ [name]) ord ?ds"
    by (simp only: build_registry_fold apply_domain_routes_def Let_def reg) simp
  have "distinct default_provider_order" by (simp add: default_provider_order_def)
  then have "distinct ?ds" by simp
  from fold_missing [OF this, of ord] have d: "distinct (r_defaults (build_registry ord requested))"
    "set (r_defaults (build_registry ord requested)) = set ?ds \<union> set ord"
    "\<exists>zs. r_defaults (build_registry ord requested) = ?ds @ zs"
    unfolding df [symmetric] by (simp_all add: Let_def)
  have "set ?ds \<union> set ord = set (table_names requested)" using assms(2) by auto
  with d t show ?thesis
    by (auto simp: wf_registry_def build_registry_fold routing_simps prefix_def)
qed

theorem build_registry_complete_witness:
  "distinct (r_defaults (build_registry [''core'', ''pubmed''] [''pubmed'', ''core'']))
   \<and> set (r_defaults (build_registry [''core'', ''pubmed''] [''pubmed'', ''core''])) = {''pubmed'', ''core''}"
proof -
  have "table_names [''pubmed'', ''core''] = [''pubmed'', ''core'']" by (simp add: table_names_def provider_table_def)
  then show ?thesis
    using build_registry_complete [of "[''core'', ''pubmed'']" "[''pubmed'', ''core'']"] by auto
qed

text \<open>Two providers registered, nothing learned: a medical question goes to PubMed.\<close>

theorem routing_sound_witness:
  "let r = build_registry [''core'', ''pubmed''] [''pubmed'', ''core'']
   in set (route 1 r (\<lambda>d. None) ''knee surgery'' '''')
        \<subseteq> set (providers_for 1 r (routing_domain ''knee surgery'' ''''))
      \<and> map sp_name (route 1 r (\<lambda>d. None) ''knee surgery'' '''') = [''pubmed'']"
proof -
  let ?r = "build_registry [''core'', ''pubmed''] [''pubmed'', ''core'']"
  have names: "table_names [''pubmed'', ''core''] = [''pubmed'', ''core'']"
    by (simp add: table_names_def provider_table_def)
  have "wf_registry ?r"
    using build_registry_complete [of "[''core'', ''pubmed'']" "[''pubmed'', ''core'']"] names by auto
  moreover have "routing_domain ''knee surgery'' '''' \<noteq> ''general''
      \<and> providers_for 1 ?r (routing_domain ''knee surgery'' '''') \<noteq> []" by code_simp
  ultimately have "set (route 1 ?r (\<lambda>d. None) ''knee surgery'' '''')
      \<subseteq> set (providers_for 1 ?r (routing_domain ''knee surgery'' ''''))"
    using routing_sound [of ?r 1 "\<lambda>d. None" "''knee surgery''" "''''"] by blast
  moreover have "map sp_name (route 1 ?r (\<lambda>d. None) ''knee surgery'' '''') = [''pubmed'']"
    by code_simp
  ultimately show ?thesis by (simp only: Let_def)
qed

section \<open>Adaptive concurrency\<close>

text \<open>
  Requests in flight (\<open>ParallelSearch\<close>): a request captures its provider's semaphore when it is
  dispatched, waits for it after the rate gate, and gives it back when it ends, after it has
  adjusted the provider's limit. \<open>FlightTimeout\<close> is a request whose wait is cut short.
\<close>

record flight =
  fl_name :: string
  fl_sem :: nat
  fl_size :: int
  fl_running :: bool

datatype flight_event =
    FlightStart string
  | FlightAcquire nat
  | FlightTimeout nat
  | FlightFinish nat "go_error option"

definition holders :: "nat \<Rightarrow> flight list \<Rightarrow> nat" where
  "holders k fs = length (filter (\<lambda>f. fl_sem f = k \<and> fl_running f) fs)"

definition drop_nth :: "nat \<Rightarrow> 'a list \<Rightarrow> 'a list" where
  "drop_nth i xs = take i xs @ drop (Suc i) xs"

fun flight_step :: "flight_event \<Rightarrow> provider_registry \<times> flight list \<Rightarrow> provider_registry \<times> flight list" where
  "flight_step (FlightStart name) (r, fs) =
     (case dict_get (r_semaphores r) name of
        None \<Rightarrow> (r, fs)
      | Some (k, n) \<Rightarrow> (r, fs @ [\<lparr>fl_name = name, fl_sem = k, fl_size = n, fl_running = False\<rparr>]))"
| "flight_step (FlightAcquire i) (r, fs) =
     (if i < length fs \<and> \<not> fl_running (fs ! i) \<and> int (holders (fl_sem (fs ! i)) fs) < fl_size (fs ! i)
      then (r, fs[i := (fs ! i)\<lparr>fl_running := True\<rparr>]) else (r, fs))"
| "flight_step (FlightTimeout i) (r, fs) =
     (if i < length fs \<and> \<not> fl_running (fs ! i) then (r, drop_nth i fs) else (r, fs))"
| "flight_step (FlightFinish i err) (r, fs) =
     (if i < length fs \<and> fl_running (fs ! i)
      then (adjust_concurrency (fl_name (fs ! i)) err r, drop_nth i fs) else (r, fs))"

definition flight_run :: "flight_event list \<Rightarrow> provider_registry \<Rightarrow> provider_registry \<times> flight list" where
  "flight_run evs r = fold flight_step evs (r, [])"

text \<open>The semaphores of a registry are distinct objects, of the size its limits record.\<close>

definition sems_ok :: "provider_registry \<Rightarrow> bool" where
  "sems_ok r \<longleftrightarrow>
     (\<forall>n k z. dict_get (r_semaphores r) n = Some (k, z) \<longrightarrow> k < r_next_semaphore r \<and> dict_get (r_caps r) n = Some z)
     \<and> (\<forall>n n' k z z'. dict_get (r_semaphores r) n = Some (k, z) \<and> dict_get (r_semaphores r) n' = Some (k, z') \<longrightarrow> n = n')"

definition caps_ok :: "provider_registry \<Rightarrow> bool" where
  "caps_ok r \<longleftrightarrow> (\<forall>n z. dict_get (r_caps r) n = Some z \<longrightarrow>
     default_provider_concurrency n \<le> z \<and> z \<le> max_provider_concurrency n)"

abbreviation single_flight :: "string \<Rightarrow> bool" where
  "single_flight name \<equiv> max_provider_concurrency name = 1"

lemma default_le_max: "default_provider_concurrency n \<le> max_provider_concurrency n"
  by (simp add: default_provider_concurrency_def max_provider_concurrency_def)

lemma single_flight_default: "single_flight n \<longleftrightarrow> default_provider_concurrency n = 1"
  by (simp add: default_provider_concurrency_def max_provider_concurrency_def split: if_splits)

lemma sems_ok_new_weighted: "sems_ok r \<Longrightarrow> sems_ok (new_weighted name n r)"
  by (auto simp: sems_ok_def new_weighted_def dict_get_set less_Suc_eq split: if_splits)

lemma caps_ok_new_weighted:
  "caps_ok r \<Longrightarrow> default_provider_concurrency name \<le> n \<Longrightarrow> n \<le> max_provider_concurrency name \<Longrightarrow>
     caps_ok (new_weighted name n r)"
  by (auto simp: caps_ok_def new_weighted_def dict_get_set)

lemma adjust_cases:
  assumes "caps_ok r"
  shows "adjust_concurrency name err r = r
    \<or> (\<exists>n. adjust_concurrency name err r = new_weighted name n r
            \<and> default_provider_concurrency name \<le> n \<and> n \<le> max_provider_concurrency name
            \<and> default_provider_concurrency name < max_provider_concurrency name)"
proof (cases "dict_get (r_caps r) name")
  case (Some cap)
  with assms have "default_provider_concurrency name \<le> cap" "cap \<le> max_provider_concurrency name"
    by (simp_all add: caps_ok_def)
  with Some show ?thesis by (auto simp: adjust_concurrency_def Let_def)
qed (simp add: adjust_concurrency_def)

lemma adjust_keeps:
  assumes "sems_ok r" "caps_ok r"
  shows "sems_ok (adjust_concurrency name err r)" "caps_ok (adjust_concurrency name err r)"
  using adjust_cases [OF assms(2), of name err] assms sems_ok_new_weighted caps_ok_new_weighted by metis+

lemma adjust_single:
  "caps_ok r \<Longrightarrow> single_flight name \<Longrightarrow> adjust_concurrency name err r = r"
  using adjust_cases [of r name err] by (auto simp: single_flight_default [THEN iffD1])

lemma adjust_other:
  "m \<noteq> name \<Longrightarrow> dict_get (r_semaphores (adjust_concurrency name err r)) m = dict_get (r_semaphores r) m"
  by (simp add: adjust_concurrency_def new_weighted_def Let_def dict_get_set split: option.splits)

lemma adjust_next: "r_next_semaphore r \<le> r_next_semaphore (adjust_concurrency name err r)"
  by (simp add: adjust_concurrency_def new_weighted_def Let_def split: option.splits)

definition flights_ok :: "provider_registry \<Rightarrow> flight list \<Rightarrow> bool" where
  "flights_ok r fs \<longleftrightarrow>
     (\<forall>f \<in> set fs. fl_sem f < r_next_semaphore r
        \<and> (\<forall>n z. dict_get (r_semaphores r) n = Some (fl_sem f, z) \<longrightarrow> n = fl_name f \<and> fl_size f = z)
        \<and> (single_flight (fl_name f) \<longrightarrow> dict_get (r_semaphores r) (fl_name f) = Some (fl_sem f, 1))
        \<and> int (holders (fl_sem f) fs) \<le> fl_size f
        \<and> (\<forall>g \<in> set fs. fl_sem g = fl_sem f \<longrightarrow> fl_size g = fl_size f))"

lemma flights_okD:
  assumes "flights_ok r fs" "f \<in> set fs"
  shows "fl_sem f < r_next_semaphore r"
    "dict_get (r_semaphores r) m = Some (fl_sem f, z) \<Longrightarrow> m = fl_name f \<and> fl_size f = z"
    "single_flight (fl_name f) \<Longrightarrow> dict_get (r_semaphores r) (fl_name f) = Some (fl_sem f, 1)"
    "int (holders (fl_sem f) fs) \<le> fl_size f"
    "g \<in> set fs \<Longrightarrow> fl_sem g = fl_sem f \<Longrightarrow> fl_size g = fl_size f"
  using assms unfolding flights_ok_def by blast+

lemma flights_okI:
  assumes "\<And>f. f \<in> set fs \<Longrightarrow> fl_sem f < r_next_semaphore r"
    "\<And>f m z. f \<in> set fs \<Longrightarrow> dict_get (r_semaphores r) m = Some (fl_sem f, z) \<Longrightarrow> m = fl_name f \<and> fl_size f = z"
    "\<And>f. f \<in> set fs \<Longrightarrow> single_flight (fl_name f) \<Longrightarrow> dict_get (r_semaphores r) (fl_name f) = Some (fl_sem f, 1)"
    "\<And>f. f \<in> set fs \<Longrightarrow> int (holders (fl_sem f) fs) \<le> fl_size f"
    "\<And>f g. f \<in> set fs \<Longrightarrow> g \<in> set fs \<Longrightarrow> fl_sem g = fl_sem f \<Longrightarrow> fl_size g = fl_size f"
  shows "flights_ok r fs"
  using assms unfolding flights_ok_def by blast

lemma set_drop_nth: "set (drop_nth i xs) \<subseteq> set xs"
  using set_take_subset set_drop_subset by (fastforce simp: drop_nth_def)

lemma holders_append: "holders k (fs @ gs) = holders k fs + holders k gs"
  by (simp add: holders_def)

lemma holders_drop: "holders k (drop_nth i fs) \<le> holders k fs"
proof -
  have "holders k fs = holders k (take i fs) + holders k (drop i fs)"
    by (metis append_take_drop_id holders_append)
  moreover have "holders k (drop (Suc i) fs) \<le> holders k (drop i fs)"
    by (cases "i < length fs") (simp_all add: Cons_nth_drop_Suc [symmetric] holders_def)
  ultimately show ?thesis by (simp add: drop_nth_def holders_append)
qed

lemma holders_start: "i < length fs \<Longrightarrow> \<not> fl_running (fs ! i) \<Longrightarrow>
  holders k (fs[i := (fs ! i)\<lparr>fl_running := True\<rparr>])
    = holders k fs + (if fl_sem (fs ! i) = k then 1 else 0)"
proof (induction fs arbitrary: i)
  case (Cons f fs)
  then show ?case by (cases i) (auto simp: holders_def)
qed simp

lemma flights_ok_drop: "flights_ok r fs \<Longrightarrow> flights_ok r (drop_nth i fs)"
  using set_drop_nth [of i fs] holders_drop [of _ i fs] unfolding flights_ok_def
  by (meson in_mono order_trans of_nat_mono)

lemma flights_ok_adjust:
  assumes "caps_ok r" "flights_ok r fs"
  shows "flights_ok (adjust_concurrency name err r) fs"
  using adjust_cases [OF assms(1), of name err]
proof
  assume "\<exists>n. adjust_concurrency name err r = new_weighted name n r
            \<and> default_provider_concurrency name \<le> n \<and> n \<le> max_provider_concurrency name
            \<and> default_provider_concurrency name < max_provider_concurrency name"
  then obtain n where n: "adjust_concurrency name err r = new_weighted name n r" "\<not> single_flight name"
    using single_flight_default by force
  show ?thesis unfolding n(1) flights_ok_def
  proof (intro ballI conjI impI allI)
    fix f m z assume f: "f \<in> set fs"
    note ok = assms(2) [unfolded flights_ok_def, THEN bspec, OF f]
    from ok show "fl_sem f < r_next_semaphore (new_weighted name n r)" by (simp add: new_weighted_def)
    from ok show "int (holders (fl_sem f) fs) \<le> fl_size f" by blast
    { assume "dict_get (r_semaphores (new_weighted name n r)) m = Some (fl_sem f, z)"
      with ok show "m = fl_name f" "fl_size f = z"
        by (auto simp: new_weighted_def dict_get_set split: if_splits) }
    { assume "single_flight (fl_name f)"
      with ok n(2) show "dict_get (r_semaphores (new_weighted name n r)) (fl_name f) = Some (fl_sem f, 1)"
        by (auto simp: new_weighted_def dict_get_set) }
    { fix g assume "g \<in> set fs" "fl_sem g = fl_sem f"
      with ok show "fl_size g = fl_size f" by blast }
  qed
qed (simp add: assms(2))

definition registry_ok :: "provider_registry \<times> flight list \<Rightarrow> bool" where
  "registry_ok s \<longleftrightarrow> sems_ok (fst s) \<and> caps_ok (fst s) \<and> flights_ok (fst s) (snd s)"

lemma flights_ok_start:
  assumes "sems_ok r" "caps_ok r" "flights_ok r fs" "dict_get (r_semaphores r) name = Some (k, n)"
  shows "flights_ok r (fs @ [\<lparr>fl_name = name, fl_sem = k, fl_size = n, fl_running = False\<rparr>])"
    (is "flights_ok r (fs @ [?f])")
proof -
  have cap: "dict_get (r_caps r) name = Some n" and k: "k < r_next_semaphore r"
    using assms(1,4) by (auto simp: sems_ok_def)
  have n: "default_provider_concurrency name \<le> n" "n \<le> max_provider_concurrency name"
    using assms(2) cap by (auto simp: caps_ok_def)
  have pos: "1 \<le> n" using n(1) by (simp add: default_provider_concurrency_def split: if_splits)
  have same: "fl_size g = n" if "g \<in> set fs" "fl_sem g = k" for g
    using flights_okD(2) [OF assms(3) that(1), of name n] that(2) assms(4) by simp
  have held: "int (holders k fs) \<le> n"
  proof (cases "\<exists>g \<in> set fs. fl_sem g = k")
    case True
    then obtain g where "g \<in> set fs" "fl_sem g = k" by blast
    with flights_okD(4) [OF assms(3), of g] same [of g] show ?thesis by simp
  next
    case False
    then have "holders k fs = 0" by (auto simp: holders_def filter_empty_conv)
    with pos show ?thesis by simp
  qed
  have h: "holders m (fs @ [?f]) = holders m fs" for m by (simp add: holders_def)
  have cur: "m = name \<and> n = z" if "dict_get (r_semaphores r) m = Some (k, z)" for m z
  proof -
    have "m = name" using assms(1,4) that unfolding sems_ok_def by blast
    with assms(4) that show ?thesis by simp
  qed
  have cases: "f \<in> set fs \<or> f = ?f" if "f \<in> set (fs @ [?f])" for f using that by auto
  show ?thesis
  proof (rule flights_okI)
    fix f assume "f \<in> set (fs @ [?f])"
    note f = cases [OF this]
    from f k flights_okD(1) [OF assms(3)] show "fl_sem f < r_next_semaphore r" by auto
    from f held flights_okD(4) [OF assms(3)]
    show "int (holders (fl_sem f) (fs @ [?f])) \<le> fl_size f" unfolding h by auto
    { fix m z assume "dict_get (r_semaphores r) m = Some (fl_sem f, z)"
      with f cur flights_okD(2) [OF assms(3)] show "m = fl_name f \<and> fl_size f = z" by auto }
    { assume "single_flight (fl_name f)"
      with f assms(4) n pos flights_okD(3) [OF assms(3)]
      show "dict_get (r_semaphores r) (fl_name f) = Some (fl_sem f, 1)" by auto }
    { fix g assume g: "g \<in> set (fs @ [?f])" "fl_sem g = fl_sem f"
      have n: "fl_size x = n" if "x \<in> set (fs @ [?f])" "fl_sem x = k" for x
        using cases [OF that(1)]
      proof
        assume "x = ?f" then show ?thesis by simp
      qed (rule same [OF _ that(2)])
      show "fl_size g = fl_size f"
      proof (cases "fl_sem f = k")
        case True
        with n g \<open>f \<in> set (fs @ [?f])\<close> show ?thesis by simp
      next
        case False
        with g f cases [OF g(1)] have "f \<in> set fs" "g \<in> set fs" by auto
        from flights_okD(5) [OF assms(3) this g(2)] show ?thesis .
      qed }
  qed
qed

lemma flights_ok_acquire:
  assumes "flights_ok r fs" "i < length fs" "\<not> fl_running (fs ! i)"
    "int (holders (fl_sem (fs ! i)) fs) < fl_size (fs ! i)"
  shows "flights_ok r (fs[i := (fs ! i)\<lparr>fl_running := True\<rparr>])"
proof -
  let ?fs = "fs[i := (fs ! i)\<lparr>fl_running := True\<rparr>]"
  have i: "fs ! i \<in> set fs" using assms(2) by simp
  have shape: "\<exists>g \<in> set fs. fl_name f = fl_name g \<and> fl_sem f = fl_sem g \<and> fl_size f = fl_size g"
    if "f \<in> set ?fs" for f
  proof -
    have "f = (fs ! i)\<lparr>fl_running := True\<rparr> \<or> f \<in> set fs"
      using that set_update_subset_insert [of fs i "(fs ! i)\<lparr>fl_running := True\<rparr>"] by blast
    with i show ?thesis by auto
  qed
  note D = flights_okD [OF assms(1)]
  show ?thesis
  proof (rule flights_okI)
    fix f assume "f \<in> set ?fs"
    from shape [OF this] obtain g where g: "g \<in> set fs"
      "fl_name f = fl_name g" "fl_sem f = fl_sem g" "fl_size f = fl_size g" by blast
    show "fl_sem f < r_next_semaphore r" unfolding g by (rule D(1) [OF g(1)])
    show "int (holders (fl_sem f) ?fs) \<le> fl_size f"
    proof (cases "fl_sem (fs ! i) = fl_sem g")
      case True
      with D(5) [OF g(1) i] assms(4) show ?thesis unfolding g holders_start [OF assms(2,3)] by simp
    next
      case False
      with D(4) [OF g(1)] show ?thesis unfolding g holders_start [OF assms(2,3)] by simp
    qed
    { fix m z assume "dict_get (r_semaphores r) m = Some (fl_sem f, z)"
      with D(2) [OF g(1)] g show "m = fl_name f \<and> fl_size f = z" by simp }
    { assume "single_flight (fl_name f)"
      with D(3) [OF g(1)] g show "dict_get (r_semaphores r) (fl_name f) = Some (fl_sem f, 1)" by simp }
    { fix h assume "h \<in> set ?fs" "fl_sem h = fl_sem f"
      with shape [of h] obtain g' where g': "g' \<in> set fs" "fl_sem g' = fl_sem g" "fl_size h = fl_size g'"
        using g by metis
      from D(5) [OF g(1) g'(1,2)] g'(3) g(4) show "fl_size h = fl_size f" by simp }
  qed
qed

lemma flight_step_ok: "registry_ok s \<Longrightarrow> registry_ok (flight_step e s)"
  using flights_ok_start flights_ok_acquire flights_ok_drop flights_ok_adjust adjust_keeps
  by (cases s; cases e) (auto simp: registry_ok_def split: option.splits)

text \<open>
  However requests start, wait, give up and end: every limit stays between its provider's default
  and maximum, no semaphore is held by more requests than its size, and a provider limited to one
  request (arXiv, PubMed, Semantic Scholar) never has two in flight.
\<close>

theorem adaptive_concurrency_bounds:
  assumes "sems_ok r" "caps_ok r"
  shows "let (r', fs) = flight_run evs r in
     caps_ok r' \<and> sems_ok r'
     \<and> (\<forall>f \<in> set fs. int (holders (fl_sem f) fs) \<le> fl_size f)
     \<and> (\<forall>name. single_flight name \<longrightarrow> length (filter (\<lambda>f. fl_name f = name \<and> fl_running f) fs) \<le> 1)"
proof -
  have "registry_ok (fold flight_step evs s)" if "registry_ok s" for s
    using that by (induction evs arbitrary: s) (simp_all add: flight_step_ok)
  moreover have "registry_ok (r, [])" using assms by (simp add: registry_ok_def flights_ok_def)
  ultimately have "registry_ok (flight_run evs r)" by (simp only: flight_run_def)
  moreover obtain r' fs where run: "flight_run evs r = (r', fs)" by fastforce
  ultimately have ok: "registry_ok (r', fs)" by (simp only:)
  from ok have fl: "flights_ok r' fs" by (simp add: registry_ok_def)
  have one: "length (filter (\<lambda>f. fl_name f = name \<and> fl_running f) fs) \<le> 1" if s: "single_flight name" for name
  proof (cases "\<exists>f \<in> set fs. fl_name f = name")
    case True
    then obtain f where f: "f \<in> set fs" "fl_name f = name" by blast
    note D = flights_okD [OF fl]
    from D(3) [OF f(1)] f(2) s have sem: "dict_get (r_semaphores r') name = Some (fl_sem f, 1)" by simp
    from D(3) s sem have same: "fl_sem g = fl_sem f" if "g \<in> set fs" "fl_name g = name" for g
      using that by fastforce
    from D(2) [OF f(1) sem] have size: "fl_size f = 1" by simp
    have "filter (\<lambda>f. fl_name f = name \<and> fl_running f) fs
        = filter (\<lambda>f. fl_name f = name) (filter (\<lambda>g. fl_sem g = fl_sem f \<and> fl_running g) fs)"
      using same by (auto simp: filter_filter intro: filter_cong)
    then have "length (filter (\<lambda>f. fl_name f = name \<and> fl_running f) fs) \<le> holders (fl_sem f) fs"
      unfolding holders_def by (simp only: length_filter_le)
    moreover have "int (holders (fl_sem f) fs) \<le> fl_size f" by (rule D(4) [OF f(1)])
    ultimately show ?thesis using size by linarith
  qed (simp add: filter_empty_conv)
  from ok one flights_okD(4) [OF fl] show ?thesis by (simp add: run registry_ok_def)
qed

abbreviation sample_provider :: "string \<Rightarrow> search_provider" where
  "sample_provider name \<equiv> \<lparr>sp_name = name, sp_domains = [], sp_tools = [], sp_base = new_base_provider\<rparr>"

lemma sems_caps_register:
  assumes "sems_ok r" "caps_ok r"
  shows "sems_ok (register_provider p r)" "caps_ok (register_provider p r)"
  using sems_ok_new_weighted [OF assms(1), of "sp_name p" "default_provider_concurrency (sp_name p)"]
    caps_ok_new_weighted [OF assms(2) order_refl default_le_max [of "sp_name p"]]
  by (simp_all add: sems_ok_def caps_ok_def register_provider_def new_weighted_def Let_def)

lemma sems_caps_new: "sems_ok new_provider_registry" "caps_ok new_provider_registry"
  by (simp_all add: sems_ok_def caps_ok_def new_provider_registry_def)

theorem adaptive_concurrency_bounds_witness:
  "let (r', fs) = flight_run [FlightStart ''arxiv'', FlightStart ''arxiv'', FlightAcquire 0, FlightAcquire 1]
       (register_provider (sample_provider ''arxiv'') new_provider_registry)
   in caps_ok r' \<and> length (filter (\<lambda>f. fl_name f = ''arxiv'' \<and> fl_running f) fs) \<le> 1"
proof -
  have "single_flight ''arxiv''" by (simp add: max_provider_concurrency_def normalize_provider_name_def) code_simp
  with adaptive_concurrency_bounds [OF sems_caps_register [OF sems_caps_new], of
      "[FlightStart ''arxiv'', FlightStart ''arxiv'', FlightAcquire 0, FlightAcquire 1]" "sample_provider ''arxiv''"]
  show ?thesis by (auto simp: split_beta Let_def)
qed

definition burst :: "nat \<Rightarrow> nat \<Rightarrow> flight_event list" where
  "burst n i = concat (map (\<lambda>k. [FlightStart ''core'', FlightAcquire k]) [i..<i + n])"

text \<open>
  A provider that may run ten to twenty requests at a time runs more than twenty: every limit change
  makes a new semaphore, which does not count the requests that still hold the old one.
\<close>

theorem replaced_semaphores_exceed_maximum:
  "let evs = burst 10 0 @ [FlightFinish 0 None] @ burst 11 9 @ [FlightFinish 19 None] @ burst 12 19;
       (r', fs) = flight_run evs (register_provider (sample_provider ''core'') new_provider_registry)
   in max_provider_concurrency ''core'' = 20 \<and> dict_get (r_caps r') ''core'' = Some 12
      \<and> length (filter (\<lambda>f. fl_name f = ''core'' \<and> fl_running f) fs) = 31"
  by code_simp

end
