(* ===== verification/SearchCache.thy ===== *)
theory SearchCache
  imports SearchRouting RankFusion TtlStore
begin

text \<open>
  The search cache (\<open>orchestrator/internal/search/cache.go\<close>): the options and the results of a search
  (records of \<open>provider.go\<close>), the keys under which results are stored, the lookup that goes to the
  in-process cache first (\<open>TtlStore\<close>) and then to Redis, and the store. The JSON encoding and decoding
  of a result and the Redis lookup are arguments.
\<close>

section \<open>Options and keys\<close>

record search_opts =
  so_limit :: int
  so_domain :: string
  so_sources :: "string list"
  so_year_from :: int
  so_year_to :: int
  so_skip_cache :: bool
  so_quality_sort :: bool
  so_research_mode :: string
  so_open_access :: bool
  so_expand_query :: bool
  so_page_index_rerank :: bool
  so_stage2_rerank :: bool
  so_dynamic_providers :: bool

definition normalize_scalar_cache_key :: "string \<Rightarrow> string" where
  "normalize_scalar_cache_key v =
     (let n = join '' '' (str_fields (trim_space v)) in if n = [] then ''-'' else n)"

definition normalize_query_cache_key :: "string \<Rightarrow> string" where
  "normalize_query_cache_key q = normalize_scalar_cache_key (to_lower q)"

definition normalize_source_cache_key :: "string list \<Rightarrow> string" where
  "normalize_source_cache_key sources =
     (if sources = [] then ''-''
      else (let ns = uniq_by (\<lambda>n. n) [] (filter (\<lambda>n. n \<noteq> []) (map normalize_provider_name sources)) in
            if ns = [] then ''-'' else join '','' (sort ns)))"

definition get_cache_key :: "string \<Rightarrow> search_opts \<Rightarrow> string" where
  "get_cache_key q o1 =
     ''search:'' @ normalize_query_cache_key q
     @ '':d:'' @ normalize_scalar_cache_key (to_lower (so_domain o1))
     @ '':l:'' @ itoa (so_limit o1) @ '':yf:'' @ itoa (so_year_from o1) @ '':yt:'' @ itoa (so_year_to o1)
     @ '':s:'' @ normalize_source_cache_key (so_sources o1)"

text \<open>The latency of a result is left out.\<close>

record search_result =
  sr_papers :: "paper list"
  sr_providers :: "nat dict"
  sr_cached :: bool
  sr_warnings :: "provider_warning list"
  sr_raw :: nat
  sr_fused :: nat
  sr_deduped :: nat
  sr_final :: nat
  sr_limit_applied :: bool

definition check_cache ::
  "(string \<Rightarrow> search_result option) \<Rightarrow> (string \<Rightarrow> string option) \<Rightarrow> int \<Rightarrow> string \<Rightarrow> memory_cache
   \<Rightarrow> memory_cache \<times> search_result option" where
  "check_cache dec redis now key c =
     (let (c, payload) = mc_get now key c in
      case Option.bind payload dec of
        Some res \<Rightarrow> (c, Some (res\<lparr>sr_cached := True\<rparr>))
      | None \<Rightarrow>
          (case redis key of
             None \<Rightarrow> (c, None)
           | Some v \<Rightarrow>
               (case dec v of
                  None \<Rightarrow> (c, None)
                | Some res \<Rightarrow> (mc_set now key v c, Some (res\<lparr>sr_cached := True\<rparr>)))))"

definition set_cache :: "(search_result \<Rightarrow> string option) \<Rightarrow> int \<Rightarrow> string \<Rightarrow> search_result \<Rightarrow> memory_cache \<Rightarrow> memory_cache" where
  "set_cache enc now key res c =
     (if sr_papers res = [] then c
      else (case enc res of None \<Rightarrow> c | Some data \<Rightarrow> mc_set now key data c))"

section \<open>Which searches share a key\<close>

lemma sort_eq_set: "distinct xs \<Longrightarrow> distinct ys \<Longrightarrow> set xs = set ys \<Longrightarrow> sort xs = sort ys"
  by (metis set_eq_iff_mset_eq_distinct sort_mset_eq)

lemma set_uniq_by_id [simp]: "set (uniq_by (\<lambda>n. n) [] xs) = set xs"
  using uniq_by_keys [of "\<lambda>n. n" "[]" xs] by simp

text \<open>
  The key does not depend on letter case or the spaces around the query and the domain, nor on the
  order, the repetition or the spelling of the requested providers.
\<close>

theorem cache_key_canonical:
  assumes "normalize_provider_name ` set (so_sources o1) - {[]} = normalize_provider_name ` set (so_sources o2) - {[]}"
    and "so_limit o1 = so_limit o2" "so_year_from o1 = so_year_from o2" "so_year_to o1 = so_year_to o2"
    and "to_lower (so_domain o1) = to_lower (so_domain o2)" "to_lower q1 = to_lower q2"
  shows "get_cache_key q1 o1 = get_cache_key q2 o2"
proof -
  let ?ns = "\<lambda>s. uniq_by (\<lambda>n. n) [] (filter (\<lambda>n. n \<noteq> []) (map normalize_provider_name s))"
  have set: "set (?ns s) = normalize_provider_name ` set s - {[]}" for s by auto
  have "set (?ns (so_sources o1)) = set (?ns (so_sources o2))" unfolding set by (rule assms(1))
  then have "sort (?ns (so_sources o1)) = sort (?ns (so_sources o2))"
    and "?ns (so_sources o1) = [] \<longleftrightarrow> ?ns (so_sources o2) = []"
    by (auto intro: sort_eq_set simp flip: set_empty)
  then have "normalize_source_cache_key (so_sources o1) = normalize_source_cache_key (so_sources o2)"
    by (auto simp: normalize_source_cache_key_def Let_def)
  with assms(2-) show ?thesis by (simp add: get_cache_key_def normalize_query_cache_key_def)
qed

end
