(* ===== verification/ParallelSearch.thy ===== *)
theory ParallelSearch
  imports SearchCache PaperRank QueryTypos
begin

text \<open>
  \<open>ParallelSearch\<close> (\<open>orchestrator/internal/search/provider.go\<close>) as a whole: guards, cache, choice of
  providers, the request to each of them, and collecting, fusing, ranking and limiting the results.
  What the environment decides is an argument: the clock, the answers of the providers and of the
  model, the learned scores, the order in which results arrive and in which Go visits its maps, and
  what \<open>sort.Slice\<close> makes of equal scores. The streaming variant is not modelled.
\<close>

section \<open>One provider\<close>

definition should_skip_arxiv_query :: "string \<Rightarrow> bool" where
  "should_skip_arxiv_query query =
     (let q = to_lower (trim_space query) in
      if q = [] then True
      else if contains q ''arxiv'' then False
      else if \<not> (contains q ''doi:'' \<or> contains q ''10.'') then False
      else contains q ''reference'' \<or> contains q ''citation'' \<or> contains q ''lookup'' \<or> contains q ''metadata'')"

definition should_skip_provider_query :: "string \<Rightarrow> string \<Rightarrow> bool" where
  "should_skip_provider_query name query =
     (if normalize_provider_name name = ''arxiv'' then should_skip_arxiv_query query else False)"

record provider_result =
  pr_provider :: string
  pr_papers :: "paper list"
  pr_err :: "go_error option"

text \<open>
  What happens to a request: the error of the rate gate, of the semaphore, the papers and error of
  the provider itself, whether that error reports a rate limit (with the wait it asks for), and the
  readings of the clock when it is admitted and when it returns.
\<close>

record request_env =
  re_gate :: "go_error option"
  re_slot :: "go_error option"
  re_papers :: "paper list"
  re_error :: "go_error option"
  re_rate_limit :: "int option"
  re_start :: int
  re_end :: int

definition provider_call ::
  "request_env \<Rightarrow> string \<Rightarrow> provider_registry \<Rightarrow> provider_registry \<times> paper list \<times> go_error option \<times> bool" where
  "provider_call env name r =
     (case dict_get (r_breakers r) name of
        None \<Rightarrow> (r, re_papers env, re_error env, True)
      | Some cb \<Rightarrow>
          (let (cb', err, called) = cb_call (re_start env) (re_end env) (re_error env) cb in
           (r\<lparr>r_breakers := dict_set name cb' (r_breakers r)\<rparr>, if called then re_papers env else [], err, called)))"

definition provider_request ::
  "string \<Rightarrow> request_env \<Rightarrow> string \<Rightarrow> provider_registry \<Rightarrow> provider_registry \<times> provider_result" where
  "provider_request query env name r =
     (if should_skip_provider_query name query
      then (r, \<lparr>pr_provider = name, pr_papers = [], pr_err = None\<rparr>)
      else
        (let (r, ok) = (case dict_get (r_breakers r) name of
                          None \<Rightarrow> (r, True)
                        | Some cb \<Rightarrow> (let (cb', ok) = cb_admit (re_start env) cb in
                                      (r\<lparr>r_breakers := dict_set name cb' (r_breakers r)\<rparr>, ok)))
         in if \<not> ok then (r, \<lparr>pr_provider = name, pr_papers = [], pr_err = Some (new_error ''circuit breaker open'')\<rparr>)
            else (case re_gate env of
              Some e \<Rightarrow> (r, \<lparr>pr_provider = name, pr_papers = [], pr_err = Some e\<rparr>)
            | None \<Rightarrow>
                (case re_slot env of
                   Some e \<Rightarrow> (r, \<lparr>pr_provider = name, pr_papers = [],
                                  pr_err = Some \<lparr>err_text = ''concurrency limit reached: '' @ err_text e,
                                                 err_chain = err_chain e\<rparr>\<rparr>)
                 | None \<Rightarrow>
                     (let (r, papers, err, called) = provider_call env name r;
                          r = (if called \<and> err \<noteq> None \<and> re_rate_limit env \<noteq> None
                               then defer_rate_gate (re_end env) name
                                      (provider_rate_limit_cooldown name (re_rate_limit env)) r
                               else r)
                      in (adjust_concurrency name err r,
                          \<lparr>pr_provider = name, pr_papers = papers, pr_err = err\<rparr>))))))"

section \<open>Results\<close>

definition bare_result :: "provider_warning list \<Rightarrow> search_result" where
  "bare_result ws = \<lparr>sr_papers = [], sr_providers = [], sr_cached = False, sr_warnings = ws, sr_raw = 0,
     sr_fused = 0, sr_deduped = 0, sr_final = 0, sr_limit_applied = False\<rparr>"

definition system_warning :: "string \<Rightarrow> provider_warning list" where
  "system_warning m = [\<lparr>w_provider = ''system'', w_message = m\<rparr>]"

record collected =
  co_ranked :: "paper list list"
  co_counts :: "nat dict"
  co_warnings :: "provider_warning list"

definition collect_result :: "provider_result \<Rightarrow> collected \<Rightarrow> collected" where
  "collect_result r c =
     (case pr_err r of
        Some e \<Rightarrow> c\<lparr>co_warnings := co_warnings c @ [\<lparr>w_provider = pr_provider r, w_message = err_text e\<rparr>]\<rparr>
      | None \<Rightarrow> c\<lparr>co_counts := dict_set (pr_provider r) (length (pr_papers r)) (co_counts c),
                  co_ranked := (if pr_papers r \<noteq> [] then co_ranked c @ [pr_papers r] else co_ranked c)\<rparr>)"

definition collect_results :: "provider_warning list \<Rightarrow> provider_result list \<Rightarrow> collected" where
  "collect_results ws rs = fold collect_result rs \<lparr>co_ranked = [], co_counts = [], co_warnings = ws\<rparr>"

record ranking_env =
  rk_order :: "string list"
  rk_scores :: "real dict option"
  rk_clicks :: "int dict option"
  rk_year :: int
  rk_sort :: "paper list \<Rightarrow> paper list"

definition rank_papers :: "ranking_env \<Rightarrow> search_opts \<Rightarrow> paper list \<Rightarrow> paper list" where
  "rank_papers env opts ps =
     (let ps = (case rk_scores env of Some s \<Rightarrow> if s \<noteq> [] then boost_by_intelligence s ps else ps | None \<Rightarrow> ps);
          ps = (case rk_clicks env of Some c \<Rightarrow> if c \<noteq> [] then boost_by_clicks c ps else ps | None \<Rightarrow> ps)
      in if \<not> so_quality_sort opts then ps
         else if \<not> blank (so_research_mode opts)
         then sort_papers_by_preference_with_research_mode (rk_year env) (so_research_mode opts) ps
         else rk_sort env ps)"

definition search_limit :: "search_opts \<Rightarrow> nat" where
  "search_limit opts = nat (if so_limit opts \<le> 0 then 20 else so_limit opts)"

definition finish_search ::
  "ranking_env \<Rightarrow> search_opts \<Rightarrow> provider_warning list \<Rightarrow> provider_result list \<Rightarrow> search_result" where
  "finish_search env opts ws rs =
     (let c = collect_results ws rs;
          fused = rrf_fuse (rk_order env) (co_ranked c) 60;
          deduped = deduplicate fused;
          ranked = rank_papers env opts deduped;
          limited = (search_limit opts < length ranked);
          out = (if limited then take (search_limit opts) ranked else ranked)
      in \<lparr>sr_papers = out, sr_providers = co_counts c, sr_cached = False, sr_warnings = co_warnings c,
          sr_raw = sum_list (map snd (co_counts c)), sr_fused = length fused, sr_deduped = length deduped,
          sr_final = length out, sr_limit_applied = limited\<rparr>)"

section \<open>The search\<close>

text \<open>
  \<open>ch_reply\<close> is the model's choice (\<open>None\<close> without a client), \<open>ch_router\<close> the router with what it
  has learned (\<open>None\<close> without one).
\<close>

record choice_env =
  ch_client :: bool
  ch_reply :: "string list option"
  ch_router :: "(string \<Rightarrow> string list option) option"

definition choose_providers ::
  "int \<Rightarrow> choice_env \<Rightarrow> search_opts \<Rightarrow> string \<Rightarrow> provider_registry
   \<Rightarrow> provider_registry \<times> search_provider list \<times> provider_warning list" where
  "choose_providers now env opts query r =
     (if so_dynamic_providers opts \<and> ch_client env \<and> dynamic_provider_selection_ready now r
      then (r, select_providers_dynamic now r (ch_reply env), [])
      else if so_sources opts \<noteq> [] then resolve_requested_providers now (so_sources opts) r
      else (case ch_router env of
              Some learned \<Rightarrow> (r, route now r learned query (so_domain opts), [])
            | None \<Rightarrow> (r, (let ps = providers_for now r (so_domain opts) in if ps = [] then all_providers r else ps), [])))"

datatype admission = Admitted | TooBusy | QueryCanceled

record search_env =
  se_now :: int
  se_choice :: choice_env
  se_admission :: admission
  se_requests :: "string \<Rightarrow> request_env"
  se_arrival :: "provider_result list \<Rightarrow> provider_result list"
  se_ranking :: ranking_env

fun request_all :: "string \<Rightarrow> (string \<Rightarrow> request_env) \<Rightarrow> string list \<Rightarrow> provider_registry
    \<Rightarrow> provider_registry \<times> provider_result list" where
  "request_all query envs [] r = (r, [])"
| "request_all query envs (n # ns) r =
     (let (r, res) = provider_request query (envs n) n r; (r, rest) = request_all query envs ns r
      in (r, res # rest))"

definition run_search ::
  "search_env \<Rightarrow> search_opts \<Rightarrow> string \<Rightarrow> provider_registry \<Rightarrow> provider_registry \<times> search_result" where
  "run_search env opts query r =
     (let (r, providers, ws) = choose_providers (se_now env) (se_choice env) opts query r in
      if providers = [] then (r, bare_result ws)
      else (case se_admission env of
              TooBusy \<Rightarrow> (r, bare_result (system_warning ''System too busy, please try again in a few seconds''))
            | QueryCanceled \<Rightarrow> (r, bare_result (system_warning ''query context canceled''))
            | Admitted \<Rightarrow>
                (let (r, rs) = request_all query (se_requests env) (map sp_name providers) r
                 in (r, finish_search (se_ranking env) opts ws (se_arrival env rs)))))"

text \<open>
  The whole call, with the cache; a result is stored when the call returns (the code stores it from
  a goroutine). \<open>enc\<close> and \<open>dec\<close> are the JSON encoding of a result and its inverse, \<open>redis\<close> is what a
  Redis lookup of the key gives, \<open>None\<close> without a client.
\<close>

record cache_env =
  ca_enc :: "search_result \<Rightarrow> string option"
  ca_dec :: "string \<Rightarrow> search_result option"
  ca_redis :: "string \<Rightarrow> string option"

definition parallel_search ::
  "search_env \<Rightarrow> cache_env \<Rightarrow> search_opts \<Rightarrow> string \<Rightarrow> provider_registry option \<times> memory_cache
   \<Rightarrow> provider_registry option \<times> memory_cache \<times> search_result" where
  "parallel_search env ca opts query = (\<lambda>(reg, c).
     let q = trim_space query in
     if q = [] then (reg, c, bare_result (system_warning ''query is required''))
     else
       (let q = prepare_for_provider_search q in
        case reg of
          None \<Rightarrow> (reg, c, bare_result (system_warning ''search registry is not initialized''))
        | Some r \<Rightarrow>
            (let key = get_cache_key q opts;
                 (c, hit) = (if so_skip_cache opts then (c, None)
                             else check_cache (ca_dec ca) (ca_redis ca) (se_now env) key c)
             in case hit of
                  Some res \<Rightarrow> (reg, c, res)
                | None \<Rightarrow>
                    (let (r, res) = run_search env opts q r
                     in (Some r, if so_skip_cache opts then c else set_cache (ca_enc ca) (se_now env) key res c, res)))))"

section \<open>What a search accounts for\<close>

abbreviation answered :: "provider_result \<Rightarrow> bool" where
  "answered r \<equiv> pr_err r = None"

definition failure_warning :: "provider_result \<Rightarrow> provider_warning" where
  "failure_warning r = \<lparr>w_provider = pr_provider r, w_message = err_text (the (pr_err r))\<rparr>"

definition answers :: "provider_result list \<Rightarrow> paper list" where
  "answers rs = concat (map pr_papers (filter answered rs))"

lemma dict_set_new: "k \<notin> fst ` set d \<Longrightarrow> dict_set k v d = d @ [(k, v)]"
  by (induction d) auto

lemma collect_fold:
  "distinct (map fst (co_counts c) @ map pr_provider rs) \<Longrightarrow>
     fold collect_result rs c =
       c\<lparr>co_ranked := co_ranked c @ filter (\<lambda>l. l \<noteq> []) (map pr_papers (filter answered rs)),
         co_counts := co_counts c @ map (\<lambda>r. (pr_provider r, length (pr_papers r))) (filter answered rs),
         co_warnings := co_warnings c @ map failure_warning (filter (\<lambda>r. \<not> answered r) rs)\<rparr>"
proof (induction rs arbitrary: c)
  case (Cons r rs)
  show ?case
  proof (cases "pr_err r")
    case None
    have "pr_provider r \<notin> fst ` set (co_counts c)" using Cons.prems by auto
    with None have step: "collect_result r c =
        c\<lparr>co_counts := co_counts c @ [(pr_provider r, length (pr_papers r))],
          co_ranked := (if pr_papers r \<noteq> [] then co_ranked c @ [pr_papers r] else co_ranked c)\<rparr>"
      by (simp add: collect_result_def dict_set_new)
    have "distinct (map fst (co_counts (collect_result r c)) @ map pr_provider rs)"
      using Cons.prems unfolding step by auto
    from Cons.IH [OF this] None show ?thesis unfolding fold_Cons o_apply by (simp add: step)
  next
    case (Some e)
    then have step: "collect_result r c = c\<lparr>co_warnings := co_warnings c @ [failure_warning r]\<rparr>"
      by (simp add: collect_result_def failure_warning_def)
    have "distinct (map fst (co_counts (collect_result r c)) @ map pr_provider rs)"
      using Cons.prems unfolding step by auto
    from Cons.IH [OF this] Some show ?thesis unfolding fold_Cons o_apply by (simp add: step)
  qed
qed simp

lemma collect_results:
  assumes "distinct (map pr_provider rs)"
  shows "co_ranked (collect_results ws rs) = filter (\<lambda>l. l \<noteq> []) (map pr_papers (filter answered rs))"
    "co_counts (collect_results ws rs) = map (\<lambda>r. (pr_provider r, length (pr_papers r))) (filter answered rs)"
    "co_warnings (collect_results ws rs) = ws @ map failure_warning (filter (\<lambda>r. \<not> answered r) rs)"
  using collect_fold [of "\<lparr>co_ranked = [], co_counts = [], co_warnings = ws\<rparr>" rs] assms
  by (simp_all add: collect_results_def)

lemma answers_union:
  "(\<Union>l \<in> set (filter (\<lambda>l. l \<noteq> []) (map pr_papers (filter answered rs))). paper_key ` set l) = paper_key ` set (answers rs)"
  by (auto simp: answers_def)

lemma length_answers: "sum_list (map (\<lambda>r. length (pr_papers r)) (filter answered rs)) = length (answers rs)"
  by (simp add: answers_def length_concat comp_def)

lemma paper_key_quality [simp]: "paper_key (quality_scored yr query p) = paper_key p"
  by (simp add: quality_scored_def paper_key_def Let_def)

lemma mset_keys_sort: "mset (map paper_key (sort_key g (map h ps))) = mset (map paper_key ps)"
  if "\<And>p. paper_key (h p) = paper_key p"
  using that by (rule mset_sort_map)

lemma paper_key_boosted [simp]:
  "paper_key (intelligence_boosted s p) = paper_key p" "paper_key (click_boosted c p) = paper_key p"
  by (simp_all add: intelligence_boosted_def click_boosted_def Let_def split: option.splits)

definition sorts_quality :: "ranking_env \<Rightarrow> string \<Rightarrow> bool" where
  "sorts_quality env query \<longleftrightarrow> (\<forall>ps. score_quality (rk_year env) query ps (rk_sort env ps))"

lemma rank_keys:
  assumes "sorts_quality env query"
  shows "mset (map paper_key (rank_papers env opts ps)) = mset (map paper_key ps)"
proof -
  have i: "mset (map paper_key (boost_by_intelligence s qs)) = mset (map paper_key qs)" for s qs
    by (simp add: boost_by_intelligence_def mset_keys_sort del: mset_map)
  have c: "mset (map paper_key (boost_by_clicks s qs)) = mset (map paper_key qs)" for s qs
    by (simp add: boost_by_clicks_def mset_keys_sort del: mset_map)
  have m: "mset (map paper_key (sort_papers_by_preference_with_research_mode yr mode qs)) = mset (map paper_key qs)"
    for yr mode qs
    by (simp add: sort_papers_by_preference_with_research_mode_def mset_keys_sort del: mset_map)
  have q: "mset (map paper_key (rk_sort env qs)) = mset (map paper_key qs)" for qs
  proof -
    have "mset (rk_sort env qs) = mset (map (quality_scored (rk_year env) query) qs)"
      using assms by (simp add: sorts_quality_def score_quality_def)
    then have "mset (map paper_key (rk_sort env qs)) = mset (map paper_key (map (quality_scored (rk_year env) query) qs))"
      by (simp only: mset_map)
    also have "map paper_key (map (quality_scored (rk_year env) query) qs) = map paper_key qs" by simp
    finally show ?thesis .
  qed
  show ?thesis
    unfolding rank_papers_def Let_def
    by (simp only: q m i c split: option.split if_split) blast
qed

text \<open>
  C19. Every search, whose providers have different names, accounts for every provider and every paper: each provider that answered is counted
  with its papers, each that failed is warned about; the papers returned are distinct, come from the
  answers, and are all of the distinct ones unless the limit cuts them; the counts are those of the
  steps, of which the second de-duplication never removes anything. A failed provider changes
  nothing but the warnings.
\<close>

theorem search_accounting:
  assumes "distinct (map pr_provider rs)" "map_order (rk_order env) (rrf_scores (rrf_collect (co_ranked (collect_results ws rs)) 60))"
    and "sorts_quality env query"
  shows "let out = finish_search env opts ws rs in
     sr_providers out = map (\<lambda>r. (pr_provider r, length (pr_papers r))) (filter answered rs)
     \<and> sr_warnings out = ws @ map failure_warning (filter (\<lambda>r. \<not> answered r) rs)
     \<and> distinct (map paper_key (sr_papers out))
     \<and> paper_key ` set (sr_papers out) \<subseteq> paper_key ` set (answers rs)
     \<and> (\<not> sr_limit_applied out \<longrightarrow> paper_key ` set (sr_papers out) = paper_key ` set (answers rs))
     \<and> sr_raw out = length (answers rs)
     \<and> sr_fused out = card (paper_key ` set (answers rs)) \<and> sr_deduped out = sr_fused out
     \<and> sr_final out = min (search_limit opts) (sr_deduped out) \<and> sr_final out = length (sr_papers out)
     \<and> (sr_limit_applied out \<longleftrightarrow> search_limit opts < sr_deduped out)
     \<and> sr_papers (finish_search env opts ws (filter answered rs)) = sr_papers out"
proof -
  let ?c = "collect_results ws rs"
  let ?fused = "rrf_fuse (rk_order env) (co_ranked ?c) 60"
  let ?ranked = "rank_papers env opts (deduplicate ?fused)"
  let ?out = "finish_search env opts ws rs"
  have ord: "distinct (rk_order env)" "set (rk_order env) = paper_key ` set (answers rs)"
    using assms(2) unfolding map_order_def rrf_collect_keys collect_results(1) [OF assms(1)] answers_union by simp_all
  have fk: "mset (map paper_key ?fused) = mset (rk_order env)" by (rule mset_rrf_fuse_keys [OF assms(2)])
  have fd: "distinct (map paper_key ?fused)" using mset_eq_imp_distinct_iff [OF fk] ord(1) by simp
  have dk: "map paper_key (deduplicate ?fused) = map paper_key ?fused"
    unfolding deduplicate_keys using fd by (simp add: uniq_by_id)
  have rk: "mset (map paper_key ?ranked) = mset (rk_order env)"
    unfolding rank_keys [OF assms(3)] dk fk ..
  have rd: "distinct (map paper_key ?ranked)" using mset_eq_imp_distinct_iff [OF rk] ord(1) by simp
  have rs: "paper_key ` set ?ranked = paper_key ` set (answers rs)"
    using mset_eq_setD [OF rk] ord(2) by simp
  have lens: "length ?fused = length (rk_order env)" "length (deduplicate ?fused) = length (rk_order env)"
    "length ?ranked = length (rk_order env)"
    using mset_eq_length [OF fk] mset_eq_length [OF rk] arg_cong [OF dk, of length] by (simp_all only: length_map)
  have card: "length (rk_order env) = card (paper_key ` set (answers rs))"
    using distinct_card [OF ord(1)] ord(2) by simp
  have out: "sr_papers ?out = take (search_limit opts) ?ranked"
    "sr_limit_applied ?out \<longleftrightarrow> search_limit opts < length (rk_order env)"
    using lens(3) by (simp_all add: finish_search_def Let_def)
  have sub: "set (take (search_limit opts) ?ranked) \<subseteq> set ?ranked" by (rule set_take_subset)
  have filtered: "co_ranked (collect_results ws (filter answered rs)) = co_ranked ?c"
    using assms(1) by (simp add: collect_results distinct_map_filter)
  have isolated: "sr_papers (finish_search env opts ws (filter answered rs)) = sr_papers ?out"
    by (simp add: finish_search_def filtered Let_def)
  have d: "distinct (map paper_key (sr_papers ?out))"
    unfolding out(1) take_map [symmetric] using rd by (rule distinct_take)
  have subk: "paper_key ` set (sr_papers ?out) \<subseteq> paper_key ` set (answers rs)"
    unfolding out(1) rs [symmetric] using sub by blast
  have all: "\<not> sr_limit_applied ?out \<longrightarrow> paper_key ` set (sr_papers ?out) = paper_key ` set (answers rs)"
    unfolding out(1,2) using rs lens(3) by simp
  have counts: "sr_raw ?out = length (answers rs)"
    by (simp add: finish_search_def collect_results [OF assms(1)] length_answers comp_def Let_def)
  have "sr_fused ?out = length (rk_order env)" "sr_deduped ?out = length (rk_order env)"
    "sr_final ?out = min (search_limit opts) (length (rk_order env))"
    "sr_final ?out = length (sr_papers ?out)"
    using lens by (simp_all add: finish_search_def Let_def)
  moreover have "sr_providers ?out = map (\<lambda>r. (pr_provider r, length (pr_papers r))) (filter answered rs)"
    "sr_warnings ?out = ws @ map failure_warning (filter (\<lambda>r. \<not> answered r) rs)"
    by (simp_all add: finish_search_def collect_results [OF assms(1)] Let_def)
  ultimately show ?thesis
    unfolding Let_def using d subk all counts isolated out(2) card by simp
qed

abbreviation plain_opts :: search_opts where
  "plain_opts \<equiv> \<lparr>so_limit = 1, so_domain = [], so_sources = [], so_year_from = 0, so_year_to = 0,
     so_skip_cache = False, so_quality_sort = False, so_research_mode = [], so_open_access = False,
     so_expand_query = False, so_page_index_rerank = False, so_stage2_rerank = False,
     so_dynamic_providers = False\<rparr>"

definition sort_scored :: "string \<Rightarrow> paper list \<Rightarrow> paper list" where
  "sort_scored query ps = sort_key (\<lambda>p. - p_score p) (map (quality_scored 2026 query) ps)"

theorem search_accounting_witness:
  "let a = zero_paper\<lparr>p_doi := ''10.1/A''\<rparr>; b = zero_paper\<lparr>p_doi := ''10.1/b''\<rparr>;
       rs = [\<lparr>pr_provider = ''core'', pr_papers = [b, a], pr_err = None\<rparr>,
             \<lparr>pr_provider = ''doaj'', pr_papers = [], pr_err = Some (new_error ''down'')\<rparr>,
             \<lparr>pr_provider = ''arxiv'', pr_papers = [b], pr_err = None\<rparr>];
       env = \<lparr>rk_order = [''doi:10.1/a'', ''doi:10.1/b''], rk_scores = None, rk_clicks = None, rk_year = 2026,
              rk_sort = sort_scored ''x''\<rparr>;
       out = finish_search env plain_opts [] rs
   in sr_raw out = 3 \<and> sr_fused out = 2 \<and> sr_final out = 1 \<and> sr_limit_applied out
      \<and> map w_provider (sr_warnings out) = [''doaj'']"
proof -
  let ?a = "zero_paper\<lparr>p_doi := ''10.1/A''\<rparr>" and ?b = "zero_paper\<lparr>p_doi := ''10.1/b''\<rparr>"
  let ?rs = "[\<lparr>pr_provider = ''core'', pr_papers = [?b, ?a], pr_err = None\<rparr>,
             \<lparr>pr_provider = ''doaj'', pr_papers = [], pr_err = Some (new_error ''down'')\<rparr>,
             \<lparr>pr_provider = ''arxiv'', pr_papers = [?b], pr_err = None\<rparr>]"
  let ?env = "\<lparr>rk_order = [''doi:10.1/a'', ''doi:10.1/b''], rk_scores = None, rk_clicks = None, rk_year = 2026,
              rk_sort = sort_scored ''x''\<rparr>"
  have keys: "paper_key ?a = ''doi:10.1/a''" "paper_key ?b = ''doi:10.1/b''" by code_simp+
  have d: "distinct (map pr_provider ?rs)" by simp
  have o: "map_order (rk_order ?env) (rrf_scores (rrf_collect (co_ranked (collect_results [] ?rs)) 60))"
    unfolding map_order_def rrf_collect_keys collect_results(1) [OF d] answers_union
    by (auto simp: answers_def keys)
  have s: "sorts_quality ?env ''x''"
    unfolding sorts_quality_def score_quality_def
  proof (intro allI conjI)
    fix ps
    show "mset (rk_sort ?env ps) = mset (map (quality_scored (rk_year ?env) ''x'') ps)"
      by (simp add: sort_scored_def del: mset_map)
    show "sorted (map (\<lambda>p. - p_score p) (rk_sort ?env ps))" by (simp add: sort_scored_def)
  qed
  have "paper_key ` set (answers ?rs) = {''doi:10.1/a'', ''doi:10.1/b''}" by (auto simp: answers_def keys)
  then have card: "card (paper_key ` set (answers ?rs)) = 2" by simp
  have "length (answers ?rs) = 3" "search_limit plain_opts = 1" by (simp_all add: answers_def search_limit_def)
  with search_accounting [OF d o s, of plain_opts] card show ?thesis
    by (simp add: Let_def failure_warning_def)
qed

section \<open>The cache and the options it leaves out\<close>

text \<open>
  The key names the query, the domain, the limit, the years and the sources. Two searches that agree
  on these share a result, whatever they ask for otherwise: a search for open-access papers, with
  another ranking or with providers chosen by the model is answered with what an unrestricted search
  has stored before, the providers and the ranking of its own options unused.
\<close>

theorem cache_ignores_options:
  assumes "trim_space query \<noteq> []" "\<not> so_skip_cache o1" "\<not> so_skip_cache o2"
    and "so_domain o1 = so_domain o2" "so_limit o1 = so_limit o2" "so_sources o1 = so_sources o2"
      "so_year_from o1 = so_year_from o2" "so_year_to o1 = so_year_to o2"
    and "parallel_search env1 ca o1 query (Some r, c) = (Some r1, c1, res)"
      "sr_papers res \<noteq> []" "\<not> sr_cached res"
    and "ca_enc ca res = Some data" "data \<noteq> []" "ca_dec ca data = Some res"
    and "se_now env1 \<le> se_now env2" "se_now env2 \<le> se_now env1 + mc_ttl c1"
  shows "snd (snd (parallel_search env2 ca o2 query (Some r1, c1))) = res\<lparr>sr_cached := True\<rparr>
     \<and> fst (parallel_search env2 ca o2 query (Some r1, c1)) = Some r1"
proof -
  let ?q = "prepare_for_provider_search (trim_space query)"
  let ?k = "get_cache_key ?q o1"
  have k: "get_cache_key ?q o2 = ?k" using assms(4-8) by (simp add: get_cache_key_def)
  have knil: "?k \<noteq> []" by (simp add: get_cache_key_def)
  obtain c' hit where ch: "check_cache (ca_dec ca) (ca_redis ca) (se_now env1) ?k c = (c', hit)"
    by (cases "check_cache (ca_dec ca) (ca_redis ca) (se_now env1) ?k c")
  have cached: "hit = None"
  proof (rule ccontr)
    assume "hit \<noteq> None"
    then obtain res' where hit: "hit = Some res'" by auto
    with ch have "sr_cached res'"
      by (auto simp: check_cache_def Let_def split: prod.splits option.splits)
    moreover have "res = res'"
      using assms(1,2,9) ch hit by (simp add: parallel_search_def Let_def)
    ultimately show False using assms(11) by simp
  qed
  obtain r' res' where run: "run_search env1 o1 ?q r = (r', res')" by (cases "run_search env1 o1 ?q r")
  from assms(1,2,9) ch cached run have c1: "c1 = mc_set (se_now env1) ?k data c'"
    using assms(10,12) by (auto simp: parallel_search_def set_cache_def Let_def)
  have "snd (mc_get (se_now env2) ?k c1) = Some data"
    using assms(13,16) knil unfolding c1
    by (auto simp: mc_get_def mc_set_def mc_evict_def Let_def dict_get_set)
  then obtain c2 where "mc_get (se_now env2) ?k c1 = (c2, Some data)" by (cases "mc_get (se_now env2) ?k c1") simp
  with assms(1,3,14) show ?thesis
    by (simp add: parallel_search_def k check_cache_def Let_def)
qed

definition sample_request :: "paper list \<Rightarrow> int \<Rightarrow> request_env" where
  "sample_request ps now = \<lparr>re_gate = None, re_slot = None, re_papers = ps, re_error = None,
     re_rate_limit = None, re_start = now, re_end = now\<rparr>"

definition sample_env :: "int \<Rightarrow> string list \<Rightarrow> paper list \<Rightarrow> search_env" where
  "sample_env now ord ps =
     \<lparr>se_now = now, se_choice = \<lparr>ch_client = False, ch_reply = None, ch_router = None\<rparr>, se_admission = Admitted,
      se_requests = (\<lambda>n. sample_request ps now), se_arrival = (\<lambda>rs. rs),
      se_ranking = \<lparr>rk_order = ord, rk_scores = None, rk_clicks = None, rk_year = 2026, rk_sort = (\<lambda>ps. ps)\<rparr>\<rparr>"

abbreviation core_registry :: provider_registry where
  "core_registry \<equiv> register_provider (sample_provider ''core'') new_provider_registry"

text \<open>Any encoding that reads back what it wrote, here for the one result that is stored.\<close>

definition one_result_cache :: "search_result \<Rightarrow> cache_env" where
  "one_result_cache res = \<lparr>ca_enc = (\<lambda>_. Some ''{}''), ca_dec = (\<lambda>_. Some res), ca_redis = (\<lambda>_. None)\<rparr>"

definition closed_paper_result :: search_result where
  "closed_paper_result =
     finish_search (se_ranking (sample_env 5 [''title:a''] [])) plain_opts []
       [\<lparr>pr_provider = ''core'', pr_papers = [zero_paper\<lparr>p_title := ''a'', p_source := ''core''\<rparr>], pr_err = None\<rparr>]"

theorem cache_ignores_options_witness:
  "let ca = one_result_cache closed_paper_result;
       (reg, c, res) = parallel_search (sample_env 5 [''title:a''] [zero_paper\<lparr>p_title := ''a'', p_source := ''core''\<rparr>])
          ca plain_opts ''dna'' (Some core_registry, new_memory_cache 0 0);
       (reg', c', res') = parallel_search (sample_env 9 [] []) ca (plain_opts\<lparr>so_open_access := True\<rparr>) ''dna'' (reg, c)
   in res' = res\<lparr>sr_cached := True\<rparr> \<and> map p_open_access_url (sr_papers res') = [[]]"
proof -
  let ?p = "zero_paper\<lparr>p_title := ''a'', p_source := ''core''\<rparr>"
  let ?ca = "one_result_cache closed_paper_result"
  let ?s = "parallel_search (sample_env 5 [''title:a''] [?p]) ?ca plain_opts ''dna''
          (Some core_registry, new_memory_cache 0 0)"
  obtain reg c res where s: "?s = (reg, c, res)" by (cases ?s)
  have q: "trim_space ''dna'' = ''dna''" "prepare_for_provider_search ''dna'' = ''dna''" by code_simp+
  have "providers_for 5 core_registry '''' = [sample_provider ''core'']" by code_simp
  then have ch: "choose_providers 5 \<lparr>ch_client = False, ch_reply = None, ch_router = None\<rparr> plain_opts ''dna'' core_registry
      = (core_registry, [sample_provider ''core''], [])"
    by (simp add: choose_providers_def)
  obtain r1 where rs: "request_all ''dna'' (\<lambda>n. sample_request [?p] 5) [''core''] core_registry
      = (r1, [\<lparr>pr_provider = ''core'', pr_papers = [?p], pr_err = None\<rparr>])"
  proof -
    have "snd (request_all ''dna'' (\<lambda>n. sample_request [?p] 5) [''core''] core_registry)
      = [\<lparr>pr_provider = ''core'', pr_papers = [?p], pr_err = None\<rparr>]" by code_simp
    with that show ?thesis by (metis prod.collapse)
  qed
  have "map p_open_access_url (deduplicate (rrf_fuse [''title:a''] [[?p]] 60)) = [[]]" by code_simp
  then obtain z where z: "deduplicate (rrf_fuse [''title:a''] [[?p]] 60) = [z]" "p_open_access_url z = []"
    by (auto simp: map_eq_Cons_conv)
  let ?out = closed_paper_result
  have out: "sr_papers ?out = [z]" "\<not> sr_cached ?out"
    by (simp_all add: closed_paper_result_def finish_search_def collect_results_def collect_result_def rank_papers_def
        search_limit_def sample_env_def z Let_def)
  have run: "run_search (sample_env 5 [''title:a''] [?p]) plain_opts ''dna'' core_registry = (r1, ?out)"
    using ch rs by (simp add: run_search_def sample_env_def closed_paper_result_def Let_def del: request_all.simps)
  have now: "se_now (sample_env 5 [''title:a''] [?p]) = 5" by (simp add: sample_env_def)
  have "?s = (Some r1, mc_set 5 (get_cache_key ''dna'' plain_opts) ''{}'' (new_memory_cache 0 0), ?out)"
    using q run out
    by (simp add: parallel_search_def check_cache_def mc_get_def set_cache_def now new_memory_cache_def
        one_result_cache_def Let_def)
  with s have e: "reg = Some r1" "res = ?out" "c = mc_set 5 (get_cache_key ''dna'' plain_opts) ''{}'' (new_memory_cache 0 0)"
    by simp_all
  have ttl: "mc_ttl c = 900 * second" by (simp add: e(3) mc_set_def new_memory_cache_def Let_def mc_evict_def)
  have "trim_space ''dna'' \<noteq> []" by code_simp
  from cache_ignores_options [OF this _ _ _ _ _ _ _ s [unfolded e(1,2)] _ out(2),
      of "plain_opts\<lparr>so_open_access := True\<rparr>" "''{}''" "sample_env 9 [] []"] out ttl
  have "snd (snd (parallel_search (sample_env 9 [] []) ?ca (plain_opts\<lparr>so_open_access := True\<rparr>) ''dna'' (reg, c)))
      = res\<lparr>sr_cached := True\<rparr>" by (auto simp: sample_env_def one_result_cache_def e(1,2))
  with s out z(2) show ?thesis by (simp add: split_beta Let_def e(2))
qed

section \<open>An open breaker under a learned route\<close>

definition search_round ::
  "string \<Rightarrow> string \<Rightarrow> (string \<Rightarrow> string list option) \<Rightarrow> int \<times> (string \<Rightarrow> request_env) \<Rightarrow> provider_registry \<Rightarrow> provider_registry" where
  "search_round query domain learned = (\<lambda>(now, envs) r.
     fst (request_all query envs (map sp_name (route now r learned query domain)) r))"

text \<open>Each round finds some provider among those learned for the domain.\<close>

definition learned_route :: "int \<Rightarrow> provider_registry \<Rightarrow> string list \<Rightarrow> string \<Rightarrow> search_provider list" where
  "learned_route now r names d = lookup_providers now r names d (map sp_name (providers_for now r d))"

fun learned_serves ::
  "string \<Rightarrow> string \<Rightarrow> (string \<Rightarrow> string list option) \<Rightarrow> string list \<Rightarrow> (int \<times> (string \<Rightarrow> request_env)) list
   \<Rightarrow> provider_registry \<Rightarrow> bool" where
  "learned_serves query domain learned names [] r = True"
| "learned_serves query domain learned names ((now, envs) # es) r =
     (learned_route now r names (routing_domain query domain) \<noteq> []
      \<and> learned_serves query domain learned names es (search_round query domain learned (now, envs) r))"

lemma route_learned:
  assumes "learned (routing_domain query domain) = Some names" "names \<noteq> []"
    "learned_route now r names (routing_domain query domain) \<noteq> []"
  shows "route now r learned query domain = learned_route now r names (routing_domain query domain)"
  using assms by (simp add: route_def learned_route_def Let_def)

lemma lookup_skips_open:
  assumes "wf_registry r" "breaker_open r name"
  shows "name \<notin> sp_name ` set (lookup_providers now r names d allow)"
  using lookup_ok [OF assms(1), of now d allow names] assms(2)
  by (auto simp: selection_ok_def)

lemma adjust_breakers [simp]: "r_breakers (adjust_concurrency n err r) = r_breakers r"
    "r_providers (adjust_concurrency n err r) = r_providers r"
  by (simp_all add: adjust_concurrency_def new_weighted_def Let_def split: option.split)

lemma defer_breakers [simp]: "r_breakers (defer_rate_gate now n c r) = r_breakers r"
    "r_providers (defer_rate_gate now n c r) = r_providers r"
  by (simp_all add: defer_rate_gate_def Let_def split: option.split)

lemma provider_call_other:
  assumes "provider_call env n r = (r', ps, err, called)"
  shows "r_providers r' = r_providers r" "m \<noteq> n \<Longrightarrow> dict_get (r_breakers r') m = dict_get (r_breakers r) m"
  using assms by (auto simp: provider_call_def dict_get_set Let_def split: option.splits prod.splits)

lemma provider_request_other:
  "r_providers (fst (provider_request query env n r)) = r_providers r"
  "m \<noteq> n \<Longrightarrow> dict_get (r_breakers (fst (provider_request query env n r))) m = dict_get (r_breakers r) m"
proof -
  define admitted where "admitted = (case dict_get (r_breakers r) n of
      None \<Rightarrow> (r, True)
    | Some cb \<Rightarrow> (let (cb', ok) = cb_admit (re_start env) cb in (r\<lparr>r_breakers := dict_set n cb' (r_breakers r)\<rparr>, ok)))"
  obtain r1 ok where a: "admitted = (r1, ok)" by fastforce
  have r1: "r_providers r1 = r_providers r" "m \<noteq> n \<Longrightarrow> dict_get (r_breakers r1) m = dict_get (r_breakers r) m"
    using a by (auto simp: admitted_def dict_get_set Let_def split: option.splits prod.splits)
  obtain r2 ps err called where c: "provider_call env n r1 = (r2, ps, err, called)" by (metis prod_cases4)
  note r2 = provider_call_other [OF c]
  have "r_providers (fst (provider_request query env n r)) = r_providers r
      \<and> (m \<noteq> n \<longrightarrow> dict_get (r_breakers (fst (provider_request query env n r))) m = dict_get (r_breakers r) m)"
    using r1 r2 unfolding provider_request_def admitted_def [symmetric] a
    by (cases "re_gate env"; cases "re_slot env") (simp_all add: c Let_def)
  then show "r_providers (fst (provider_request query env n r)) = r_providers r"
    "m \<noteq> n \<Longrightarrow> dict_get (r_breakers (fst (provider_request query env n r))) m = dict_get (r_breakers r) m"
    by blast+
qed

lemma request_all_other:
  "r_providers (fst (request_all query envs ns r)) = r_providers r \<and>
   (m \<notin> set ns \<longrightarrow> dict_get (r_breakers (fst (request_all query envs ns r))) m = dict_get (r_breakers r) m)"
proof (induction ns arbitrary: r)
  case (Cons n ns)
  obtain r1 res where p: "provider_request query (envs n) n r = (r1, res)" by fastforce
  from Cons.IH [of r1] provider_request_other(1) [where query = query and env = "envs n" and n = n and r = r]
    provider_request_other(2) [where query = query and env = "envs n" and n = n and r = r and m = m] show ?case
    by (auto simp: p split_beta)
qed simp

text \<open>
  A provider whose breaker has opened is never tried again while the router can serve its domain from
  what it has learned: the router looks at the breaker's state without letting it move on, so however
  much later the searches come, the breaker stays open and the provider out of the route.
\<close>

theorem open_breaker_starves:
  assumes "wf_registry r" "learned (routing_domain query domain) = Some names" "names \<noteq> []"
    and "dict_get (r_breakers r) name = Some cb" "cb_st cb = StateOpen"
    and "learned_serves query domain learned names rounds r"
  shows "let r' = fold (search_round query domain learned) rounds r in
     dict_get (r_breakers r') name = Some cb
     \<and> (learned_route now r' names (routing_domain query domain) \<noteq> [] \<longrightarrow>
          name \<notin> sp_name ` set (route now r' learned query domain))"
proof -
  have round: "wf_registry (search_round query domain learned (t, envs) r1)
      \<and> dict_get (r_breakers (search_round query domain learned (t, envs) r1)) name = Some cb"
    if "wf_registry r1" "dict_get (r_breakers r1) name = Some cb"
      "learned_route t r1 names (routing_domain query domain) \<noteq> []" for t envs r1
  proof -
    have "breaker_open r1 name" using that(2) assms(5) by simp
    from lookup_skips_open [OF that(1) this]
    have "name \<notin> sp_name ` set (route t r1 learned query domain)"
      unfolding route_learned [of learned query domain names t r1, OF assms(2,3) that(3)] by (simp add: learned_route_def)
    with request_all_other [of query envs "map sp_name (route t r1 learned query domain)" r1 name] that(1,2)
    show ?thesis by (simp add: search_round_def wf_registry_def)
  qed
  have "wf_registry (fold (search_round query domain learned) rounds r)
      \<and> dict_get (r_breakers (fold (search_round query domain learned) rounds r)) name = Some cb"
    using assms(1,4,6)
  proof (induction rounds arbitrary: r)
    case (Cons rd rounds)
    obtain t envs where rd: "rd = (t, envs)" by (cases rd)
    from Cons.prems rd round [OF Cons.prems(1,2)] Cons.IH [of "search_round query domain learned rd r"]
    show ?case by simp
  qed simp
  moreover from this have "learned_route now (fold (search_round query domain learned) rounds r) names (routing_domain query domain) \<noteq> [] \<longrightarrow>
      name \<notin> sp_name ` set (route now (fold (search_round query domain learned) rounds r) learned query domain)"
    using lookup_skips_open assms(5) route_learned [of learned query domain names, OF assms(2,3)]
    by (auto simp: learned_route_def)
  ultimately show ?thesis by (simp add: Let_def)
qed

theorem open_breaker_starves_witness:
  "let r = register_provider (sample_provider ''doaj'') core_registry;
       r = r\<lparr>r_breakers := dict_set ''doaj'' ((new_circuit_breaker ''doaj'')\<lparr>cb_st := StateOpen, last_failure_time := Some 0\<rparr>) (r_breakers r)\<rparr>;
       learned = (\<lambda>d. Some [''doaj'', ''core'']);
       day = 86400 * second;
       r' = fold (search_round ''dna'' '''' learned) [(day, \<lambda>_. sample_request [] day)] r
   in map_option cb_st (dict_get (r_breakers r') ''doaj'') = Some StateOpen
      \<and> map sp_name (route (2 * day) r' learned ''dna'' '''') = [''core'']"
proof -
  let ?r0 = "register_provider (sample_provider ''doaj'') core_registry"
  let ?cb = "(new_circuit_breaker ''doaj'')\<lparr>cb_st := StateOpen, last_failure_time := Some 0\<rparr>"
  let ?r = "?r0\<lparr>r_breakers := dict_set ''doaj'' ?cb (r_breakers ?r0)\<rparr>"
  let ?l = "\<lambda>d::string. Some [''doaj'', ''core'']"
  let ?day = "86400 * second"
  let ?rounds = "[(?day, \<lambda>_::string. sample_request [] ?day)]"
  have wf: "wf_registry ?r"
    by (auto simp: wf_registry_def register_provider_def new_weighted_def new_provider_registry_def Let_def)
  have cb: "dict_get (r_breakers ?r) ''doaj'' = Some ?cb" by (simp add: dict_get_set)
  have serves: "learned_serves ''dna'' '''' ?l [''doaj'', ''core''] ?rounds ?r" by code_simp
  from open_breaker_starves [OF wf _ _ cb _ serves, of "2 * ?day"]
  have "dict_get (r_breakers (fold (search_round ''dna'' '''' ?l) ?rounds ?r)) ''doaj'' = Some ?cb"
    by (simp add: Let_def)
  moreover have "map sp_name (route (2 * ?day) (fold (search_round ''dna'' '''' ?l) ?rounds ?r) ?l ''dna'' '''') = [''core'']"
    by code_simp
  ultimately show ?thesis unfolding Let_def by simp
qed

section \<open>The type of a registry\<close>

datatype registry_op =
    OpRegister search_provider
  | OpAdjust string "go_error option"
  | OpSetLimit string int
  | OpSetOrder "string list"
  | OpRoutes "string list"
  | OpGate int string int
  | OpDefer int string int
  | OpResolve int "string list"
  | OpRequest string request_env string

fun registry_step :: "registry_op \<Rightarrow> provider_registry \<Rightarrow> provider_registry" where
  "registry_step (OpRegister p) r = register_provider p r"
| "registry_step (OpAdjust n err) r = adjust_concurrency n err r"
| "registry_step (OpSetLimit n limit) r = set_concurrency_limit n limit r"
| "registry_step (OpSetOrder names) r = set_default_order names r"
| "registry_step (OpRoutes ord) r = apply_domain_routes ord r"
| "registry_step (OpGate now n w) r = fst (rate_gate_pass now n w r)"
| "registry_step (OpDefer now n c) r = defer_rate_gate now n c r"
| "registry_step (OpResolve now names) r = fst (resolve_requested_providers now names r)"
| "registry_step (OpRequest query env n) r = fst (provider_request query env n r)"

text \<open>
  A provider stands under its own name, with a breaker of that name and a semaphore of the size that
  its limit records; no two names share a semaphore.
\<close>

definition breakers_named :: "cb_registry \<Rightarrow> bool" where
  "breakers_named d \<longleftrightarrow> (\<forall>n cb. dict_get d n = Some cb \<longrightarrow> cb_name cb = n)"

definition registry_typed :: "provider_registry \<Rightarrow> bool" where
  "registry_typed r \<longleftrightarrow> wf_registry r \<and> wf_dict (r_providers r) \<and> breakers_named (r_breakers r) \<and> sems_ok r
     \<and> (\<forall>n \<in> fst ` set (r_providers r). n \<in> fst ` set (r_breakers r) \<and> n \<in> fst ` set (r_semaphores r))"

text \<open>Changes that keep the providers and only update breakers, limits and markers.\<close>

definition typed_update :: "provider_registry \<Rightarrow> provider_registry \<Rightarrow> bool" where
  "typed_update r r' \<longleftrightarrow> r_providers r' = r_providers r
     \<and> (breakers_named (r_breakers r) \<longrightarrow> breakers_named (r_breakers r'))
     \<and> fst ` set (r_breakers r) \<subseteq> fst ` set (r_breakers r')
     \<and> (sems_ok r \<longrightarrow> sems_ok r') \<and> fst ` set (r_semaphores r) \<subseteq> fst ` set (r_semaphores r')"

lemma typed_updateD: "typed_update r r' \<Longrightarrow> registry_typed r \<Longrightarrow> registry_typed r'"
  by (simp add: typed_update_def registry_typed_def wf_registry_def) blast

lemma typed_update_refl: "typed_update r r"
  by (simp add: typed_update_def)

lemma typed_update_trans: "typed_update r r1 \<Longrightarrow> typed_update r1 r2 \<Longrightarrow> typed_update r r2"
  unfolding typed_update_def by (elim conjE, intro conjI) (iprover intro: trans subset_trans)+

lemma breakers_named_set: "breakers_named d \<Longrightarrow> cb_name cb = n \<Longrightarrow> breakers_named (dict_set n cb d)"
  by (simp add: breakers_named_def dict_get_set)

lemma cb_name_kept [simp]:
  "cb_name (fst (cb_admit now cb)) = cb_name cb" "cb_name (fst (cb_call now now' res cb)) = cb_name cb"
  by (simp_all add: cb_admit_def cb_call_def call_begin_def call_end_def maybe_transition_half_open_def
      record_failure_def record_success_def Let_def split: option.split)

lemma typed_update_breaker:
  assumes "dict_get (r_breakers r) n = Some cb" "cb_name cb' = cb_name cb"
  shows "typed_update r (r\<lparr>r_breakers := dict_set n cb' (r_breakers r)\<rparr>)"
  using assms by (auto simp: typed_update_def fst_set_dict_set sems_ok_def breakers_named_def dict_get_set)

lemma typed_update_weighted: "typed_update r (new_weighted n k r)"
  using sems_ok_new_weighted [of r n k] by (auto simp: typed_update_def new_weighted_def fst_set_dict_set)

lemma typed_update_adjust: "typed_update r (adjust_concurrency n err r)"
  using typed_update_weighted typed_update_refl
  by (simp add: adjust_concurrency_def Let_def split: option.split)

lemma typed_update_marker: "typed_update r (r\<lparr>r_last_request := d\<rparr>)"
  by (simp add: typed_update_def sems_ok_def)

lemma typed_update_defer: "typed_update r (defer_rate_gate now n c r)"
  using typed_update_marker typed_update_refl by (simp add: defer_rate_gate_def Let_def split: option.split)

lemma typed_update_gate: "typed_update r (fst (rate_gate_pass now n w r))"
  using typed_update_marker typed_update_refl by (simp add: rate_gate_pass_def Let_def split: option.split)

lemma typed_update_routes: "typed_update r (apply_domain_routes ord r)" "typed_update r (set_default_order ns r)"
  by (simp_all add: typed_update_def apply_domain_routes_def set_default_order_def sems_ok_def Let_def)

lemma typed_update_resolve_step: "typed_update r (fst (resolve_step now raw (r, x)))"
proof (cases "dict_get (r_breakers r) (normalize_provider_name raw)")
  case (Some cb)
  have "typed_update r (r\<lparr>r_breakers := dict_set (normalize_provider_name raw) (fst (cb_admit now cb)) (r_breakers r)\<rparr>)"
    by (rule typed_update_breaker [OF Some]) simp
  with typed_update_refl Some show ?thesis
    by (cases x) (simp add: resolve_step_def Let_def split_beta split: option.split)
qed (cases x, simp add: resolve_step_def typed_update_refl Let_def split: option.split)

lemma typed_update_resolve: "typed_update r (fst (resolve_requested_providers now names r))"
proof -
  have "typed_update (fst s) (fst (fold (resolve_step now) names s))" for s
  proof (induction names arbitrary: s)
    case (Cons n names)
    show ?case
      using typed_update_trans [OF typed_update_resolve_step [of "fst s" now n "snd s"] ] Cons.IH [of "resolve_step now n s"]
      by simp
  qed (simp add: typed_update_refl)
  from this [of "(r, [], [], [])"] show ?thesis by (simp add: resolve_requested_providers_def split_beta Let_def)
qed

lemma typed_update_call: "typed_update r (fst (provider_call env n r))"
  using typed_update_breaker [of r n] typed_update_refl
  by (simp add: provider_call_def split_beta Let_def split: option.split)

lemma typed_update_request: "typed_update r (fst (provider_request query env n r))"
proof -
  define admitted where "admitted = (case dict_get (r_breakers r) n of
      None \<Rightarrow> (r, True)
    | Some cb \<Rightarrow> (let (cb', ok) = cb_admit (re_start env) cb in (r\<lparr>r_breakers := dict_set n cb' (r_breakers r)\<rparr>, ok)))"
  obtain r1 ok where a: "admitted = (r1, ok)" by fastforce
  have r1: "typed_update r r1"
    using a typed_update_breaker [of r n] typed_update_refl
    by (auto simp: admitted_def split_beta Let_def split: option.splits)
  obtain r2 ps err called where c: "provider_call env n r1 = (r2, ps, err, called)" by (metis prod_cases4)
  have "typed_update r1 r2" using typed_update_call [of r1 env n] by (simp add: c)
  then have r2: "typed_update r r2" using r1 typed_update_trans by blast
  have "typed_update r (adjust_concurrency n err r2)" "typed_update r (adjust_concurrency n err (defer_rate_gate t n d r2))" for t d
    using r2 typed_update_adjust typed_update_defer typed_update_trans by blast+
  with r1 show ?thesis
    unfolding provider_request_def admitted_def [symmetric] a
    by (cases "re_gate env"; cases "re_slot env") (simp_all add: c Let_def typed_update_refl)
qed

lemma registry_typed_register:
  assumes "registry_typed r"
  shows "registry_typed (register_provider p r)"
proof -
  let ?r = "register_provider p r"
  have "sems_ok (new_weighted (sp_name p) (default_provider_concurrency (sp_name p)) r)"
    using assms by (intro sems_ok_new_weighted) (simp add: registry_typed_def)
  then have s: "sems_ok ?r" by (simp add: sems_ok_def register_provider_def new_weighted_def Let_def)
  have b: "breakers_named (r_breakers ?r)"
    using assms by (simp add: routing_simps registry_typed_def breakers_named_set new_circuit_breaker_def)
  have w: "wf_registry ?r" "wf_dict (r_providers ?r)"
    using assms by (auto simp: registry_typed_def wf_registry_def routing_simps dict_get_set)
  have k: "fst ` set (r_semaphores ?r) = insert (sp_name p) (fst ` set (r_semaphores r))"
    by (simp add: register_provider_def new_weighted_def fst_set_dict_set Let_def)
  have "\<forall>n \<in> fst ` set (r_providers ?r). n \<in> fst ` set (r_breakers ?r) \<and> n \<in> fst ` set (r_semaphores ?r)"
    using assms unfolding k routing_simps fst_set_dict_set registry_typed_def by blast
  with s b w show ?thesis unfolding registry_typed_def by blast
qed

text \<open>
  Every registry the program can build and use is well typed: a provider is registered under its own
  name, with a breaker of that name and a semaphore of its own whose size is the limit on record,
  whatever is registered, requested, resolved, deferred or adjusted, and in whatever order.
\<close>

theorem registry_always_typed:
  "registry_typed (fold registry_step ops new_provider_registry)
   \<and> registry_typed (fold registry_step ops (build_registry ord requested))"
proof -
  have "registry_typed (registry_step op r)" if r: "registry_typed r" for op r
    by (cases op) (simp_all add: set_concurrency_limit_def registry_typed_register [OF r]
        typed_updateD [OF _ r] typed_update_adjust typed_update_weighted typed_update_routes typed_update_gate
        typed_update_defer typed_update_resolve typed_update_request)
  then have all: "registry_typed (fold registry_step ops r)" if "registry_typed r" for r
    using that by (induction ops arbitrary: r) simp_all
  have new: "registry_typed new_provider_registry"
    using sems_caps_new(1)
    by (simp add: registry_typed_def wf_registry_def breakers_named_def new_provider_registry_def)
  have "registry_typed (fold (add_table_entry requested) table r)" if "registry_typed r" for table r
    using that
    by (induction table arbitrary: r) (auto simp: add_table_entry_def registry_typed_register Let_def)
  from typed_updateD [OF typed_update_routes(1) this [OF new]]
  have "registry_typed (build_registry ord requested)" by (simp add: build_registry_fold)
  with new all show ?thesis by blast
qed

end
