(* ===== verification/SteeringBus.thy ===== *)
theory SteeringBus
  imports ListTools
begin

text \<open>
  Steering of a running research loop: operators send signals for a session, a bus holds them until
  the session's loop takes them (\<open>orchestrator/internal/wisdev/steering_bus.go\<close>), and the loop applies
  one per iteration to its pending queries and beliefs (\<open>wisdev/steering.go\<close>). The bus is one lock,
  so each of its locked sections is one step; registering a channel sends the pending signals after
  it has released the lock, one blocking send at a time, before it returns the channel to the loop,
  and is several steps, between which others interleave. The journal replay only calls the same
  queueing operation.
\<close>

section \<open>Signals and their keys\<close>

record steering_signal =
  sg_type :: string
  sg_payload :: string
  sg_queries :: "string list"
  sg_timestamp :: int

definition steering_signal_key :: "string \<Rightarrow> steering_signal \<Rightarrow> string" where
  "steering_signal_key session sig =
     join [char_of (30 :: nat)]
       [trim_space session, trim_space (sg_type sig), trim_space (sg_payload sig),
        join [char_of (31 :: nat)] (unique_trimmed_strings (sg_queries sig)), itoa (sg_timestamp sig)]"

section \<open>The bus and its operations\<close>

text \<open>
  A registration is its session, the pending signals it has not sent yet, the buffer of its channel,
  whether the call has returned the channel, and whether the loop has ended and given it back. The
  map of channels holds the number of a registration.
\<close>

record registration =
  rg_key :: string
  rg_unsent :: "steering_signal list"
  rg_buffer :: "steering_signal list"
  rg_returned :: bool
  rg_ended :: bool

text \<open>\<open>sb_applied\<close> and \<open>sb_evicted\<close> record what left the bus: taken by a loop, or pushed out of a full queue.\<close>

record steering_bus =
  sb_channels :: "nat dict"
  sb_pending :: "steering_signal list dict"
  sb_seen :: "string list"
  sb_registrations :: "registration list"
  sb_applied :: "(string \<times> steering_signal) list"
  sb_evicted :: "(string \<times> steering_signal) list"

definition new_steering_bus :: steering_bus where
  "new_steering_bus = \<lparr>sb_channels = [], sb_pending = [], sb_seen = [], sb_registrations = [],
     sb_applied = [], sb_evicted = []\<rparr>"

abbreviation registration_at :: "steering_bus \<Rightarrow> nat \<Rightarrow> registration" where
  "registration_at b i \<equiv> sb_registrations b ! i"

definition set_registration :: "nat \<Rightarrow> registration \<Rightarrow> steering_bus \<Rightarrow> steering_bus" where
  "set_registration i r b = b\<lparr>sb_registrations := (sb_registrations b)[i := r]\<rparr>"

text \<open>
  The results are the code's three: delivered, accepted, error; \<open>None\<close> stands for the error.
\<close>

definition push_pending :: "string \<Rightarrow> steering_signal \<Rightarrow> steering_bus \<Rightarrow> steering_bus" where
  "push_pending key sig b =
     (let queue = dict_get_or [] (sb_pending b) key @ [sig];
          over = length queue - 64
      in b\<lparr>sb_pending := dict_set key (drop over queue) (sb_pending b),
           sb_evicted := sb_evicted b @ map (Pair key) (take over queue)\<rparr>)"

definition queue_steering_signal ::
  "int \<Rightarrow> string \<Rightarrow> steering_signal \<Rightarrow> steering_bus \<Rightarrow> steering_bus \<times> (bool \<times> bool) option" where
  "queue_steering_signal now session sig b =
     (let key = trim_space session in
      if key = [] then (b, None)
      else
        (let sig = (if sg_timestamp sig = 0 then sig\<lparr>sg_timestamp := now\<rparr> else sig);
             skey = steering_signal_key key sig in
         if skey \<in> set (sb_seen b) then (b, Some (False, False))
         else
           (let b = b\<lparr>sb_seen := skey # sb_seen b\<rparr> in
            case dict_get (sb_channels b) key of
              Some i \<Rightarrow>
                (if length (rg_buffer (registration_at b i)) < 64
                 then (set_registration i ((registration_at b i)\<lparr>rg_buffer := rg_buffer (registration_at b i) @ [sig]\<rparr>) b,
                       Some (True, True))
                 else (push_pending key sig b, Some (False, True)))
            | None \<Rightarrow> (push_pending key sig b, Some (False, True)))))"

text \<open>The locked part of \<open>RegisterSteeringChannel\<close>; \<open>None\<close> when the session is blank (the call returns a nil channel).\<close>

definition register_begin :: "string \<Rightarrow> steering_bus \<Rightarrow> steering_bus option" where
  "register_begin session b =
     (let key = trim_space session in
      if key = [] then None
      else Some (b\<lparr>sb_channels := dict_set key (length (sb_registrations b)) (sb_channels b),
                   sb_pending := dict_del key (sb_pending b),
                   sb_registrations := sb_registrations b @
                     [\<lparr>rg_key = key, rg_unsent = dict_get_or [] (sb_pending b) key, rg_buffer = [],
                       rg_returned = False, rg_ended = False\<rparr>]\<rparr>))"

text \<open>One send of the loop after it: it blocks while the channel's buffer of 64 is full.\<close>

definition register_send :: "nat \<Rightarrow> steering_bus \<Rightarrow> steering_bus option" where
  "register_send i b =
     (if length (sb_registrations b) \<le> i then None
      else (case rg_unsent (registration_at b i) of
              [] \<Rightarrow> None
            | sig # rest \<Rightarrow>
                if length (rg_buffer (registration_at b i)) < 64
                then Some (set_registration i ((registration_at b i)\<lparr>rg_unsent := rest,
                             rg_buffer := rg_buffer (registration_at b i) @ [sig]\<rparr>) b)
                else None))"

definition register_return :: "nat \<Rightarrow> steering_bus \<Rightarrow> steering_bus option" where
  "register_return i b =
     (if i < length (sb_registrations b) \<and> rg_unsent (registration_at b i) = []
         \<and> \<not> rg_returned (registration_at b i)
      then Some (set_registration i ((registration_at b i)\<lparr>rg_returned := True\<rparr>) b) else None)"

text \<open>The loop polls its channel, once per iteration.\<close>

definition take_signal :: "nat \<Rightarrow> steering_bus \<Rightarrow> steering_bus option" where
  "take_signal i b =
     (if i < length (sb_registrations b) \<and> rg_returned (registration_at b i) \<and> \<not> rg_ended (registration_at b i)
      then (case rg_buffer (registration_at b i) of
              [] \<Rightarrow> None
            | sig # rest \<Rightarrow>
                Some ((set_registration i ((registration_at b i)\<lparr>rg_buffer := rest\<rparr>) b)
                        \<lparr>sb_applied := sb_applied b @ [(rg_key (registration_at b i), sig)]\<rparr>))
      else None)"

text \<open>The returned function; after it nothing reads the channel, closed or not.\<close>

definition unregister :: "nat \<Rightarrow> steering_bus \<Rightarrow> steering_bus option" where
  "unregister i b =
     (if i < length (sb_registrations b) \<and> rg_returned (registration_at b i) \<and> \<not> rg_ended (registration_at b i)
      then (let r = registration_at b i;
                b = set_registration i (r\<lparr>rg_ended := True\<rparr>) b
            in Some (if dict_get (sb_channels b) (rg_key r) = Some i
                     then b\<lparr>sb_channels := dict_del (rg_key r) (sb_channels b)\<rparr> else b))
      else None)"

datatype steering_event =
    SignalSent int string steering_signal
  | RegisterBegin string
  | RegisterSend nat
  | RegisterReturn nat
  | SignalTaken nat
  | Unregistered nat

fun steering_exec :: "steering_event \<Rightarrow> steering_bus \<Rightarrow> steering_bus option" where
  "steering_exec (SignalSent now session sig) b = Some (fst (queue_steering_signal now session sig b))"
| "steering_exec (RegisterBegin session) b = register_begin session b"
| "steering_exec (RegisterSend i) b = register_send i b"
| "steering_exec (RegisterReturn i) b = register_return i b"
| "steering_exec (SignalTaken i) b = take_signal i b"
| "steering_exec (Unregistered i) b = unregister i b"

inductive steering_steps :: "steering_bus \<Rightarrow> steering_bus \<Rightarrow> bool" where
  steps_refl: "steering_steps b b"
| steps_step: "steering_steps a b \<Longrightarrow> steering_exec e b = Some c \<Longrightarrow> steering_steps a c"

fun steering_run :: "steering_event list \<Rightarrow> steering_bus \<Rightarrow> steering_bus option" where
  "steering_run [] b = Some b"
| "steering_run (e # es) b = Option.bind (steering_exec e b) (steering_run es)"

section \<open>The HTTP request and the journal\<close>

text \<open>
  \<open>acceptSteeringSignal\<close> after its checks (\<open>api/wisdev_routes.go\<close>): the type must be one of five, the text
  fields are trimmed, and only the owner of the session, the admin and the internal service may steer.
  \<open>uid\<close> is the user the middleware put into the request, \<open>owner\<close> the \<open>userId\<close> of the stored session,
  \<open>None\<close> when there is no such session.
\<close>

definition normalize_string_slice :: "string list \<Rightarrow> string list" where
  "normalize_string_slice xs = trimmed xs"

definition steering_types :: "string list" where
  "steering_types = [''redirect'', ''focus'', ''exclude'', ''approve'', ''reject'']"

definition resolve_authorized_user_id :: "string \<Rightarrow> string \<Rightarrow> string option" where
  "resolve_authorized_user_id user provided =
     (let uid = trim_space user; provided = trim_space provided in
      if uid = [] \<or> uid = ''anonymous'' then None
      else if uid = ''admin'' \<or> uid = ''internal-service'' then Some (if provided \<noteq> [] then provided else uid)
      else if provided = [] then Some uid
      else if uid \<noteq> provided then None
      else Some uid)"

definition authorize_steering_signal :: "string \<Rightarrow> string option \<Rightarrow> string \<Rightarrow> string option" where
  "authorize_steering_signal user owner session =
     (if blank session then None
      else (case resolve_authorized_user_id user [] of
              None \<Rightarrow> None
            | Some uid \<Rightarrow>
                (case owner of
                   None \<Rightarrow> None
                 | Some o' \<Rightarrow>
                     if blank o' then None
                     else if uid \<noteq> trim_space o' \<and> uid \<noteq> ''admin'' \<and> uid \<noteq> ''internal-service'' then None
                     else Some uid)))"

text \<open>A journal entry: its event type, its payload and when it was written.\<close>

record journal_entry =
  je_event_type :: string
  je_payload :: "json dict option"
  je_created_at :: int

definition steering_journal_entry :: "int \<Rightarrow> bool \<Rightarrow> steering_signal \<Rightarrow> journal_entry" where
  "steering_journal_entry now delivered sig =
     \<lparr>je_event_type = ''wisdev_steering_signal'',
      je_payload = Some [(''type'', JStr (sg_type sig)), (''payload'', JStr (sg_payload sig)),
        (''queries'', JArr (map JStr (sg_queries sig))), (''timestamp'', JNum (of_int (sg_timestamp sig))),
        (''delivery'', JStr (if delivered then ''delivered'' else ''queued''))],
      je_created_at = now\<rparr>"

definition accept_steering_signal ::
  "int \<Rightarrow> string \<Rightarrow> string option \<Rightarrow> string \<Rightarrow> string \<Rightarrow> string \<Rightarrow> string list \<Rightarrow> steering_bus
     \<Rightarrow> steering_bus \<times> (bool \<times> journal_entry) option" where
  "accept_steering_signal now user owner session ty payload queries b =
     (let ty = to_lower (trim_space ty) in
      if ty \<notin> set steering_types then (b, None)
      else (case authorize_steering_signal user owner (trim_space session) of
              None \<Rightarrow> (b, None)
            | Some _ \<Rightarrow>
                (let sig = \<lparr>sg_type = ty, sg_payload = trim_space payload,
                            sg_queries = normalize_string_slice queries, sg_timestamp = now\<rparr>
                 in (case queue_steering_signal now (trim_space session) sig b of
                       (b', None) \<Rightarrow> (b', None)
                     | (b', Some (delivered, _)) \<Rightarrow>
                         (b', Some (delivered, steering_journal_entry now delivered sig))))))"

text \<open>
  Reading a signal back. The journal stores JSON, so its values are strings, numbers and arrays; a
  number is cut to an integer. \<open>fmt.Sscan\<close> reads a decimal numeral at the start of a string.
\<close>

definition is_digit :: "char \<Rightarrow> bool" where
  "is_digit c = (let n = of_char c :: nat in 48 \<le> n \<and> n \<le> 57)"

definition sscan_int :: "string \<Rightarrow> int" where
  "sscan_int s =
     (let neg = prefix ''-'' s;
          t = (if neg \<or> prefix ''+'' s then tl s else s);
          n = int (undigits (takeWhile is_digit t))
      in if neg then - n else n)" 

definition as_optional_string :: "json option \<Rightarrow> string" where
  "as_optional_string v = (case v of Some (JStr s) \<Rightarrow> trim_space s
     | Some (JBool b) \<Rightarrow> (if b then ''true'' else ''false'') | _ \<Rightarrow> [])"

definition trunc_int :: "real \<Rightarrow> int" where
  "trunc_int x = (if x < 0 then \<lceil>x\<rceil> else \<lfloor>x\<rfloor>)"

definition int64_from_any :: "json option \<Rightarrow> int" where
  "int64_from_any v = (case v of Some (JNum x) \<Rightarrow> trunc_int x | Some (JStr s) \<Rightarrow> sscan_int (trim_space s) | _ \<Rightarrow> 0)"

definition string_slice_from_any :: "json option \<Rightarrow> string list" where
  "string_slice_from_any v = (case v of
     Some (JArr xs) \<Rightarrow> unique_trimmed_strings (trimmed (map (\<lambda>x. json_str (Some x)) xs)) | _ \<Rightarrow> [])"

definition steering_signal_from_journal_entry :: "journal_entry \<Rightarrow> steering_signal option" where
  "steering_signal_from_journal_entry e = (case je_payload e of
     None \<Rightarrow> None
   | Some p \<Rightarrow>
       (let ty = trim_space (as_optional_string (dict_get p ''type'')) in
        if ty = [] then None
        else (let sig = \<lparr>sg_type = ty, sg_payload = trim_space (as_optional_string (dict_get p ''payload'')),
                         sg_queries = string_slice_from_any (dict_get p ''queries''),
                         sg_timestamp = int64_from_any (dict_get p ''timestamp'')\<rparr>
              in Some (if sg_timestamp sig = 0 then sig\<lparr>sg_timestamp := je_created_at e\<rparr> else sig))))"

text \<open>The replay at the start of a loop; \<open>entries\<close> are the journal's entries of the session.\<close>

fun replay_entries :: "int \<Rightarrow> string \<Rightarrow> journal_entry list \<Rightarrow> steering_bus \<times> nat \<Rightarrow> steering_bus \<times> nat" where
  "replay_entries now key [] r = r"
| "replay_entries now key (e # es) (b, n) =
     (if je_event_type e \<noteq> ''wisdev_steering_signal'' then replay_entries now key es (b, n)
      else (case steering_signal_from_journal_entry e of
              None \<Rightarrow> replay_entries now key es (b, n)
            | Some sig \<Rightarrow>
                (case queue_steering_signal now key sig b of
                   (b', Some (_, True)) \<Rightarrow> replay_entries now key es (b', Suc n)
                 | (b', _) \<Rightarrow> replay_entries now key es (b', n))))"

definition replay_journaled_steering_signals ::
  "int \<Rightarrow> string \<Rightarrow> journal_entry list option \<Rightarrow> steering_bus \<Rightarrow> steering_bus \<times> nat" where
  "replay_journaled_steering_signals now session journal b =
     (let key = trim_space session in
      if key = [] then (b, 0)
      else (case journal of None \<Rightarrow> (b, 0) | Some entries \<Rightarrow> replay_entries now key entries (b, 0)))"


section \<open>Where an accepted signal is\<close>

definition placed :: "registration \<Rightarrow> (string \<times> steering_signal) list" where
  "placed r = map (Pair (rg_key r)) (rg_unsent r @ rg_buffer r)"

definition queued :: "steering_bus \<Rightarrow> (string \<times> steering_signal) list" where
  "queued b = concat (map (\<lambda>(key, sigs). map (Pair key) sigs) (sb_pending b))"

text \<open>
  Waiting: pending for a later loop, or in the channel of a loop that has not ended. Lost: pushed out
  of a full queue, or still in the channel of a loop that has ended.
\<close>

definition waiting :: "steering_bus \<Rightarrow> (string \<times> steering_signal) list" where
  "waiting b = queued b @ concat (map placed (filter (\<lambda>r. \<not> rg_ended r) (sb_registrations b)))"

definition lost :: "steering_bus \<Rightarrow> (string \<times> steering_signal) list" where
  "lost b = sb_evicted b @ concat (map placed (filter rg_ended (sb_registrations b)))"

abbreviation signal_key :: "string \<times> steering_signal \<Rightarrow> string" where
  "signal_key p \<equiv> steering_signal_key (fst p) (snd p)"

text \<open>Everything placed anywhere, as a multiset.\<close>

definition places :: "steering_bus \<Rightarrow> (string \<times> steering_signal) multiset" where
  "places b = mset (sb_applied b) + mset (sb_evicted b)
     + sum_list (map (\<lambda>(key, sigs). mset (map (Pair key) sigs)) (sb_pending b))
     + sum_list (map (\<lambda>r. mset (placed r)) (sb_registrations b))"

definition registration_ok :: "registration \<Rightarrow> bool" where
  "registration_ok r \<longleftrightarrow> length (rg_buffer r) \<le> 64 \<and> (rg_returned r \<longrightarrow> rg_unsent r = [])
     \<and> (rg_ended r \<longrightarrow> rg_returned r)"

definition channels_ok :: "steering_bus \<Rightarrow> bool" where
  "channels_ok b \<longleftrightarrow> (\<forall>key i. dict_get (sb_channels b) key = Some i \<longrightarrow>
     i < length (sb_registrations b) \<and> rg_key (registration_at b i) = key \<and> \<not> rg_ended (registration_at b i))"

lemma sum_list_upd:
  fixes f :: "'a \<Rightarrow> 'b::comm_monoid_add"
  shows "i < length xs \<Longrightarrow> sum_list (map f (xs[i := y])) + f (xs ! i) = sum_list (map f xs) + f y"
proof (induction xs arbitrary: i)
  case (Cons x xs)
  then show ?case by (cases i) (auto simp: ac_simps)
qed simp

lemma sum_list_dict_set:
  fixes f :: "string \<times> 'v \<Rightarrow> 'b::comm_monoid_add"
  assumes "wf_dict d" "f (k, z) = 0"
  shows "sum_list (map f (dict_set k v d)) + f (k, dict_get_or z d k) = sum_list (map f d) + f (k, v)"
  using assms by (induction d) (auto simp: wf_dict_def dict_get_or_def ac_simps)

lemma sum_list_dict_del:
  fixes f :: "string \<times> 'v \<Rightarrow> 'b::comm_monoid_add"
  assumes "wf_dict d" "f (k, z) = 0"
  shows "sum_list (map f (dict_del k d)) + f (k, dict_get_or z d k) = sum_list (map f d)"
  using assms
proof (induction d)
  case (Cons p d)
  have "dict_del k d = d" if "k \<notin> fst ` set d" using that by (simp add: AList.delete_eq filter_id_conv) force
  with Cons show ?case
    by (cases p) (auto simp: wf_dict_def dict_get_or_def ac_simps AList.delete_eq split: option.splits
        dest: map_of_SomeD)
qed (simp add: AList.delete_eq)

lemma mset_concat_partition:
  "mset (concat (map g (filter (\<lambda>r. \<not> P r) rs))) + mset (concat (map g (filter P rs)))
     = sum_list (map (\<lambda>r. mset (g r)) rs)"
  by (induction rs) (auto simp: ac_simps)

lemma places_parts: "mset (sb_applied b @ waiting b @ lost b) = places b"
proof -
  have "mset (queued b) = sum_list (map (\<lambda>(key, sigs). mset (map (Pair key) sigs)) (sb_pending b))"
    unfolding queued_def mset_concat by (simp add: comp_def case_prod_unfold)
  then show ?thesis
    using mset_concat_partition [of placed rg_ended "sb_registrations b"]
    by (simp add: places_def waiting_def lost_def ac_simps)
qed

section \<open>Every signal is in one place\<close>

text \<open>Replacing one registration changes the places by what it holds.\<close>

lemma places_set_registration:
  assumes "i < length (sb_registrations b)"
  shows "places (set_registration i r b) + mset (placed (registration_at b i)) = places b + mset (placed r)"
  using sum_list_upd [OF assms, of "\<lambda>r. mset (placed r)" r]
  by (simp add: places_def set_registration_def ac_simps)

lemma set_registration_simps [simp]:
  "sb_seen (set_registration i r b) = sb_seen b" "sb_pending (set_registration i r b) = sb_pending b"
  "sb_channels (set_registration i r b) = sb_channels b" "sb_applied (set_registration i r b) = sb_applied b"
  "sb_evicted (set_registration i r b) = sb_evicted b"
  "length (sb_registrations (set_registration i r b)) = length (sb_registrations b)"
  "sb_registrations (set_registration i r b) = (sb_registrations b)[i := r]"
  by (simp_all add: set_registration_def)

lemma places_seen_update [simp]:
  "places (b\<lparr>sb_seen := s\<rparr>) = places b" "places (b\<lparr>sb_channels := ch\<rparr>) = places b"
  by (simp_all add: places_def)

lemma multiset_shift:
  fixes S :: "'a multiset"
  assumes "S + q = A + D" "T + D = q + x"
  shows "T + S = A + x"
proof -
  have "(T + S) + q = (A + x) + q"
    using assms by (metis add.assoc add.commute)
  then show ?thesis by simp
qed

lemma multiset_shift_add:
  fixes S :: "'a multiset"
  assumes "T + S = A + {#p#}"
  shows "P + (E + T) + S + R = add_mset p (P + E + A + R)"
proof -
  have "P + (E + T) + S + R = P + E + (T + S) + R" by (simp only: add.assoc)
  then show ?thesis by (simp add: assms)
qed

lemma places_push_pending:
  assumes "wf_dict (sb_pending b)"
  shows "places (push_pending key sig b) = add_mset (key, sig) (places b)"
proof -
  let ?q = "dict_get_or [] (sb_pending b) key @ [sig]"
  let ?o = "length ?q - 64"
  let ?f = "\<lambda>(key, sigs). mset (map (Pair key) sigs)"
  let ?d = "dict_set key (drop ?o ?q) (sb_pending b)"
  have "sum_list (map ?f ?d) + ?f (key, dict_get_or [] (sb_pending b) key)
          = sum_list (map ?f (sb_pending b)) + ?f (key, drop ?o ?q)"
    by (rule sum_list_dict_set [OF assms]) simp
  moreover have "mset (map (Pair key) (take ?o ?q)) + ?f (key, drop ?o ?q)
          = ?f (key, dict_get_or [] (sb_pending b) key) + {#(key, sig)#}"
    by (simp only: prod.case mset_append [symmetric] map_append [symmetric] append_take_drop_id) simp
  ultimately have "mset (map (Pair key) (take ?o ?q)) + sum_list (map ?f ?d)
          = sum_list (map ?f (sb_pending b)) + {#(key, sig)#}"
    by (rule multiset_shift)
  from multiset_shift_add [OF this] show ?thesis
    by (simp add: places_def push_pending_def Let_def)
qed

lemma places_take:
  assumes "i < length (sb_registrations b)" "rg_buffer (registration_at b i) = sig # rest"
  shows "places ((set_registration i ((registration_at b i)\<lparr>rg_buffer := rest\<rparr>) b)
            \<lparr>sb_applied := sb_applied b @ [(rg_key (registration_at b i), sig)]\<rparr>) = places b"
  using places_set_registration [OF assms(1), of "(registration_at b i)\<lparr>rg_buffer := rest\<rparr>"] assms(2)
  by (simp add: places_def placed_def ac_simps)

lemma places_same_content:
  assumes "i < length (sb_registrations b)" "mset (placed r) = mset (placed (registration_at b i))"
  shows "places (set_registration i r b) = places b"
  using places_set_registration [OF assms(1), of r] assms(2) by simp

text \<open>What one step does to the places and to the keys seen.\<close>

definition adds :: "(string \<times> steering_signal) list \<Rightarrow> steering_bus \<Rightarrow> steering_bus \<Rightarrow> bool" where
  "adds ps b c \<longleftrightarrow> places c = places b + mset ps \<and> sb_seen c = map signal_key ps @ sb_seen b"

lemma adds_Nil [simp]: "adds [] b c \<longleftrightarrow> places c = places b \<and> sb_seen c = sb_seen b"
  by (simp add: adds_def)

lemma push_pending_seen [simp]: "sb_seen (push_pending key sig b) = sb_seen b"
  "sb_channels (push_pending key sig b) = sb_channels b"
  "sb_registrations (push_pending key sig b) = sb_registrations b"
  "sb_applied (push_pending key sig b) = sb_applied b"
  by (simp_all add: push_pending_def Let_def)

lemma adds_push_pending:
  "wf_dict (sb_pending b) \<Longrightarrow> adds [(key, sig)] b (push_pending key sig (b\<lparr>sb_seen := steering_signal_key key sig # sb_seen b\<rparr>))"
  by (simp add: adds_def places_push_pending)

lemma adds_buffer:
  assumes "i < length (sb_registrations b)" "rg_key (registration_at b i) = key"
  shows "adds [(key, sig)] b (set_registration i ((registration_at b i)\<lparr>rg_buffer := rg_buffer (registration_at b i) @ [sig]\<rparr>)
           (b\<lparr>sb_seen := steering_signal_key key sig # sb_seen b\<rparr>))"
  using assms places_set_registration [of i "b\<lparr>sb_seen := steering_signal_key key sig # sb_seen b\<rparr>"
      "(registration_at b i)\<lparr>rg_buffer := rg_buffer (registration_at b i) @ [sig]\<rparr>"]
  by (simp add: adds_def placed_def)

lemma queue_steering_signal_adds:
  assumes "wf_dict (sb_pending b)" "channels_ok b"
  obtains "adds [] b (fst (queue_steering_signal now session sig b))"
  | p where "adds [p] b (fst (queue_steering_signal now session sig b))" "signal_key p \<notin> set (sb_seen b)"
proof -
  define key where "key = trim_space session"
  define sig' where "sig' = (if sg_timestamp sig = 0 then sig\<lparr>sg_timestamp := now\<rparr> else sig)"
  define skey where "skey = steering_signal_key key sig'"
  note defs = queue_steering_signal_def Let_def key_def [symmetric] sig'_def [symmetric] skey_def [symmetric]
  show thesis
  proof (cases "key = [] \<or> skey \<in> set (sb_seen b)")
    case True
    then have "fst (queue_steering_signal now session sig b) = b" by (auto simp: defs)
    then show thesis using that(1) by simp
  next
    case False
    have "adds [(key, sig')] b (fst (queue_steering_signal now session sig b))"
    proof (cases "\<exists>i. dict_get (sb_channels b) key = Some i \<and> length (rg_buffer (registration_at b i)) < 64")
      case True
      then obtain i where i: "dict_get (sb_channels b) key = Some i" "length (rg_buffer (registration_at b i)) < 64" by blast
      with assms(2) have "i < length (sb_registrations b)" "rg_key (registration_at b i) = key"
        by (auto simp: channels_ok_def)
      from adds_buffer [OF this, of sig', folded skey_def] False i show ?thesis by (simp add: defs)
    next
      case no: False
      then have "fst (queue_steering_signal now session sig b) = push_pending key sig' (b\<lparr>sb_seen := skey # sb_seen b\<rparr>)"
        using False by (auto simp: defs split: option.splits)
      with adds_push_pending [OF assms(1)] show ?thesis by (simp add: skey_def)
    qed
    with False show thesis using that(2) by (simp add: skey_def)
  qed
qed

lemma register_begin_adds:
  assumes "wf_dict (sb_pending b)" "register_begin session b = Some c"
  shows "adds [] b c"
proof -
  let ?k = "trim_space session"
  have "sum_list (map (\<lambda>(key, sigs). mset (map (Pair key) sigs)) (dict_del ?k (sb_pending b)))
      + mset (map (Pair ?k) (dict_get_or [] (sb_pending b) ?k))
      = sum_list (map (\<lambda>(key, sigs). mset (map (Pair key) sigs)) (sb_pending b))"
    using sum_list_dict_del [OF assms(1), of "\<lambda>(key, sigs). mset (map (Pair key) sigs)" ?k "[]"] by simp
  then show ?thesis
    using assms(2) by (auto simp: register_begin_def Let_def places_def placed_def ac_simps split: if_splits)
qed

lemma register_send_adds: "register_send i b = Some c \<Longrightarrow> adds [] b c"
  by (auto simp: register_send_def placed_def intro!: places_same_content split: if_splits list.splits)

lemma register_return_adds: "register_return i b = Some c \<Longrightarrow> adds [] b c"
  by (auto simp: register_return_def placed_def intro!: places_same_content split: if_splits)

lemma take_signal_adds: "take_signal i b = Some c \<Longrightarrow> adds [] b c"
  by (auto simp: take_signal_def places_take split: if_splits list.splits)

lemma unregister_adds: "unregister i b = Some c \<Longrightarrow> adds [] b c"
  by (auto simp: unregister_def Let_def placed_def intro!: places_same_content split: if_splits)

lemma steering_exec_adds:
  assumes "wf_dict (sb_pending b)" "channels_ok b" "steering_exec e b = Some c"
  obtains "adds [] b c" | p where "adds [p] b c" "signal_key p \<notin> set (sb_seen b)"
proof (cases e)
  case (SignalSent now session sig)
  with assms(3) have "c = fst (queue_steering_signal now session sig b)" by simp
  then show thesis using queue_steering_signal_adds [OF assms(1,2), of now session sig] that by metis
next
  case (RegisterBegin session)
  then have "adds [] b c" using register_begin_adds [OF assms(1)] assms(3) by simp
  then show thesis by (rule that(1))
next
  case (RegisterSend i)
  then have "adds [] b c" using register_send_adds assms(3) by simp
  then show thesis by (rule that(1))
next
  case (RegisterReturn i)
  then have "adds [] b c" using register_return_adds assms(3) by simp
  then show thesis by (rule that(1))
next
  case (SignalTaken i)
  then have "adds [] b c" using take_signal_adds assms(3) by simp
  then show thesis by (rule that(1))
next
  case (Unregistered i)
  then have "adds [] b c" using unregister_adds assms(3) by simp
  then show thesis by (rule that(1))
qed

text \<open>The structural part of the invariant.\<close>

definition structure_ok :: "steering_bus \<Rightarrow> bool" where
  "structure_ok b \<longleftrightarrow> wf_dict (sb_pending b) \<and> (\<forall>p \<in> set (sb_pending b). length (snd p) \<le> 64)
     \<and> (\<forall>r \<in> set (sb_registrations b). registration_ok r) \<and> channels_ok b"

lemma set_dict_set_subset: "set (dict_set k v d) \<subseteq> insert (k, v) (set d)"
  by (induction d) auto

lemma set_dict_del_subset: "set (dict_del k d) \<subseteq> set d"
  by (auto simp: AList.delete_eq)

lemma channels_okI:
  "(\<And>key i. dict_get (sb_channels b) key = Some i \<Longrightarrow> i < length (sb_registrations b)
      \<and> rg_key (registration_at b i) = key \<and> \<not> rg_ended (registration_at b i)) \<Longrightarrow> channels_ok b"
  by (simp add: channels_ok_def)

lemma channels_okD:
  "channels_ok b \<Longrightarrow> dict_get (sb_channels b) key = Some i \<Longrightarrow> i < length (sb_registrations b)
      \<and> rg_key (registration_at b i) = key \<and> \<not> rg_ended (registration_at b i)"
  by (simp add: channels_ok_def)

lemma structure_push_pending: "structure_ok b \<Longrightarrow> structure_ok (push_pending key sig b)"
  using set_dict_set_subset [of key _ "sb_pending b"]
  by (fastforce simp: structure_ok_def push_pending_def Let_def channels_ok_def)

lemma structure_set_registration:
  assumes "structure_ok b" "i < length (sb_registrations b)" "registration_ok r"
    "rg_key r = rg_key (registration_at b i)" "rg_ended r \<longrightarrow> rg_ended (registration_at b i)"
  shows "structure_ok (set_registration i r b)"
proof -
  have "\<forall>r \<in> set (sb_registrations (set_registration i r b)). registration_ok r"
    using assms set_update_subset_insert [of "sb_registrations b" i r]
    by (auto simp: structure_ok_def)
  moreover have "channels_ok (set_registration i r b)"
  proof (rule channels_okI)
    fix key j
    assume "dict_get (sb_channels (set_registration i r b)) key = Some j"
    then have j: "j < length (sb_registrations b)" "rg_key (registration_at b j) = key" "\<not> rg_ended (registration_at b j)"
      using channels_okD [of b key j] assms(1) by (auto simp: structure_ok_def)
    then show "j < length (sb_registrations (set_registration i r b))
        \<and> rg_key (registration_at (set_registration i r b) j) = key
        \<and> \<not> rg_ended (registration_at (set_registration i r b) j)"
      using assms(4,5) by (cases "j = i") auto
  qed
  ultimately show ?thesis using assms(1) by (simp add: structure_ok_def)
qed

lemma structure_seen [simp]:
  "structure_ok (b\<lparr>sb_seen := s\<rparr>) = structure_ok b" "structure_ok (b\<lparr>sb_applied := s'\<rparr>) = structure_ok b"
  by (simp_all add: structure_ok_def channels_ok_def)

lemma structure_registration: "structure_ok b \<Longrightarrow> i < length (sb_registrations b) \<Longrightarrow> registration_ok (registration_at b i)"
  by (simp add: structure_ok_def)

lemma structure_queue: "structure_ok b \<Longrightarrow> structure_ok (fst (queue_steering_signal now session sig b))"
proof -
  assume b: "structure_ok b"
  define key where "key = trim_space session"
  define sig' where "sig' = (if sg_timestamp sig = 0 then sig\<lparr>sg_timestamp := now\<rparr> else sig)"
  define b' where "b' = b\<lparr>sb_seen := steering_signal_key key sig' # sb_seen b\<rparr>"
  have b': "structure_ok b'" using b by (simp add: b'_def)
  have "structure_ok (set_registration i ((registration_at b i)\<lparr>rg_buffer := rg_buffer (registration_at b i) @ [sig']\<rparr>) b')"
    if "dict_get (sb_channels b) key = Some i" "length (rg_buffer (registration_at b i)) < 64" for i
  proof -
    have i: "i < length (sb_registrations b)" using that(1) b by (auto simp: structure_ok_def channels_ok_def)
    have "registration_ok (registration_at b i)" using structure_registration [OF b i] .
    then show ?thesis using i that(2)
      by (intro structure_set_registration [OF b']) (auto simp: b'_def registration_ok_def)
  qed
  then show ?thesis using b structure_push_pending [OF b', of key sig']
    by (auto simp: queue_steering_signal_def Let_def key_def [symmetric] sig'_def [symmetric] b'_def [symmetric]
        split: option.splits)
       (simp_all add: b'_def)
qed

lemma structure_register_begin:
  assumes "structure_ok b" "register_begin session b = Some c"
  shows "structure_ok c"
proof -
  let ?key = "trim_space session"
  have c: "sb_channels c = dict_set ?key (length (sb_registrations b)) (sb_channels b)"
    "sb_pending c = dict_del ?key (sb_pending b)"
    and regs: "\<exists>r. sb_registrations c = sb_registrations b @ [r] \<and> rg_key r = ?key \<and> \<not> rg_ended r \<and> registration_ok r"
    using assms(2) by (auto simp: register_begin_def Let_def registration_ok_def split: if_splits)
  obtain r where r: "sb_registrations c = sb_registrations b @ [r]" "rg_key r = ?key" "\<not> rg_ended r" "registration_ok r"
    using regs by blast
  have "channels_ok c"
  proof (rule channels_okI)
    fix key j
    assume "dict_get (sb_channels c) key = Some j"
    then show "j < length (sb_registrations c) \<and> rg_key (registration_at c j) = key \<and> \<not> rg_ended (registration_at c j)"
    proof (cases "key = ?key")
      case True
      then have "j = length (sb_registrations b)"
        using \<open>dict_get (sb_channels c) key = Some j\<close> by (simp add: c(1) dict_get_set)
      then show ?thesis using r True by simp
    next
      case False
      then have "dict_get (sb_channels b) key = Some j"
        using \<open>dict_get (sb_channels c) key = Some j\<close> by (simp add: c(1) dict_get_set)
      then show ?thesis using channels_okD [of b key j] assms(1) r(1) by (simp add: structure_ok_def nth_append)
    qed
  qed
  then show ?thesis
    using assms(1) r(1,4) set_dict_del_subset [of ?key "sb_pending b"] by (auto simp: structure_ok_def c)
qed

lemma structure_step:
  assumes "structure_ok b" "steering_exec e b = Some c"
  shows "structure_ok c"
proof (cases e)
  case (SignalSent now session sig)
  then show ?thesis using structure_queue [OF assms(1)] assms(2) by auto
next
  case (RegisterBegin session)
  then show ?thesis using structure_register_begin [OF assms(1)] assms(2) by simp
next
  case (RegisterSend i)
  then obtain sig rest where s: "i < length (sb_registrations b)" "rg_unsent (registration_at b i) = sig # rest"
    "length (rg_buffer (registration_at b i)) < 64"
    "c = set_registration i ((registration_at b i)\<lparr>rg_unsent := rest,
           rg_buffer := rg_buffer (registration_at b i) @ [sig]\<rparr>) b"
    using assms(2) by (auto simp: register_send_def split: if_splits list.splits)
  show ?thesis unfolding s(4)
    using structure_registration [OF assms(1) s(1)] s(2,3)
    by (intro structure_set_registration [OF assms(1) s(1)]) (auto simp: registration_ok_def)
next
  case (RegisterReturn i)
  then have s: "i < length (sb_registrations b)" "rg_unsent (registration_at b i) = []"
    "c = set_registration i ((registration_at b i)\<lparr>rg_returned := True\<rparr>) b"
    using assms(2) by (auto simp: register_return_def split: if_splits)
  show ?thesis unfolding s(3)
    using structure_registration [OF assms(1) s(1)] s(2)
    by (intro structure_set_registration [OF assms(1) s(1)]) (simp_all add: registration_ok_def)
next
  case (SignalTaken i)
  then obtain sig rest where s: "i < length (sb_registrations b)" "rg_buffer (registration_at b i) = sig # rest"
    "c = (set_registration i ((registration_at b i)\<lparr>rg_buffer := rest\<rparr>) b)
           \<lparr>sb_applied := sb_applied b @ [(rg_key (registration_at b i), sig)]\<rparr>"
    using assms(2) by (auto simp: take_signal_def split: if_splits list.splits)
  show ?thesis unfolding s(3) structure_seen
    using structure_registration [OF assms(1) s(1)] s(2)
    by (intro structure_set_registration [OF assms(1) s(1)]) (simp_all add: registration_ok_def)
next
  case (Unregistered i)
  then have i: "i < length (sb_registrations b)" "rg_returned (registration_at b i)"
    using assms(2) by (auto simp: unregister_def split: if_splits)
  define r where "r = (registration_at b i)\<lparr>rg_ended := True\<rparr>"
  have r: "registration_ok r" "rg_key r = rg_key (registration_at b i)"
    using i structure_registration [OF assms(1), of i] by (auto simp: r_def registration_ok_def)
  have c: "c = (if dict_get (sb_channels b) (rg_key (registration_at b i)) = Some i
       then (set_registration i r b)\<lparr>sb_channels := dict_del (rg_key (registration_at b i)) (sb_channels b)\<rparr>
       else set_registration i r b)"
    using Unregistered assms(2) by (auto simp: unregister_def Let_def r_def split: if_splits)
  have "\<forall>r \<in> set (sb_registrations (set_registration i r b)). registration_ok r"
    using assms(1) r(1) set_update_subset_insert [of "sb_registrations b" i r] by (auto simp: structure_ok_def)
  moreover have "channels_ok c"
  proof (rule channels_okI)
    fix key j
    assume j: "dict_get (sb_channels c) key = Some j"
    then have "dict_get (sb_channels b) key = Some j" "j \<noteq> i"
      using channels_okD [of b key j] assms(1) unfolding c structure_ok_def
      by (auto simp: dict_get_del split: if_splits)
    then show "j < length (sb_registrations c) \<and> rg_key (registration_at c j) = key \<and> \<not> rg_ended (registration_at c j)"
      using channels_okD [of b key j] assms(1) by (simp add: c structure_ok_def)
  qed
  ultimately show ?thesis using assms(1) by (auto simp: c structure_ok_def)
qed

text \<open>The invariant: the keys of everything placed are the keys seen, each once.\<close>

definition steering_inv :: "steering_bus \<Rightarrow> bool" where
  "steering_inv b \<longleftrightarrow> image_mset signal_key (places b) = mset (sb_seen b) \<and> distinct (sb_seen b) \<and> structure_ok b"

lemma steering_inv_new: "steering_inv new_steering_bus"
  by (simp add: steering_inv_def structure_ok_def places_def new_steering_bus_def channels_ok_def)

lemma steering_inv_step: "steering_inv b \<Longrightarrow> steering_exec e b = Some c \<Longrightarrow> steering_inv c"
proof -
  assume b: "steering_inv b" and e: "steering_exec e b = Some c"
  have "structure_ok c" using b structure_step [OF _ e] by (simp add: steering_inv_def)
  moreover have "image_mset signal_key (places c) = mset (sb_seen c) \<and> distinct (sb_seen c)"
  proof (rule steering_exec_adds [OF _ _ e])
    show "wf_dict (sb_pending b)" "channels_ok b" using b by (simp_all add: steering_inv_def structure_ok_def)
  next
    assume "adds [] b c"
    then show ?thesis using b by (simp add: steering_inv_def)
  next
    fix p
    assume "adds [p] b c" "signal_key p \<notin> set (sb_seen b)"
    then show ?thesis using b by (simp add: steering_inv_def adds_def)
  qed
  ultimately show ?thesis by (simp add: steering_inv_def)
qed

lemma steering_inv_steps: "steering_steps b c \<Longrightarrow> steering_inv b \<Longrightarrow> steering_inv c"
  by (induction rule: steering_steps.induct) (auto intro: steering_inv_step)

lemma steering_run_steps: "steering_run es b = Some c \<Longrightarrow> steering_steps a b \<Longrightarrow> steering_steps a c"
  by (induction es arbitrary: b) (auto split: bind_splits intro: steps_step)

lemma steering_run_reaches: "steering_run es b = Some c \<Longrightarrow> steering_steps b c"
  using steering_run_steps steps_refl by blast

lemma steering_steps_trans: "steering_steps b c \<Longrightarrow> steering_steps a b \<Longrightarrow> steering_steps a c"
  by (induction rule: steering_steps.induct) (auto intro: steps_step)

text \<open>
  C23. Every signal the bus accepted is in exactly one place: it was applied by a loop, waits, or was
  lost; the keys seen are exactly theirs. So no signal is applied twice, under whatever interleaving of
  requests, replays, registrations and loops, and no loop applies a signal nobody sent. The pending
  queues and the channels hold at most 64 signals each.
\<close>

lemma steering_accounting:
  assumes "steering_steps new_steering_bus b"
  shows "mset (map signal_key (sb_applied b @ waiting b @ lost b)) = mset (sb_seen b)
    \<and> distinct (map signal_key (sb_applied b @ waiting b @ lost b))
    \<and> list_all (\<lambda>(key, sigs). length sigs \<le> 64) (sb_pending b)
    \<and> list_all (\<lambda>r. length (rg_buffer r) \<le> 64) (sb_registrations b)"
proof (intro conjI)
  have b: "steering_inv b" using steering_inv_steps [OF assms steering_inv_new] .
  show *: "mset (map signal_key (sb_applied b @ waiting b @ lost b)) = mset (sb_seen b)"
    using b places_parts [of b] by (simp only: mset_map steering_inv_def)
  show "distinct (map signal_key (sb_applied b @ waiting b @ lost b))"
    using * b mset_eq_imp_distinct_iff [OF *] by (simp add: steering_inv_def)
  show "list_all (\<lambda>(key, sigs). length sigs \<le> 64) (sb_pending b)"
    using b by (auto simp: steering_inv_def structure_ok_def list_all_iff)
  show "list_all (\<lambda>r. length (rg_buffer r) \<le> 64) (sb_registrations b)"
    using b by (auto simp: steering_inv_def structure_ok_def registration_ok_def list_all_iff)
qed

definition example_signal :: "string \<Rightarrow> steering_signal" where
  "example_signal p = \<lparr>sg_type = ''approve'', sg_payload = p, sg_queries = [], sg_timestamp = 5\<rparr>"

definition example_history :: "steering_event list" where
  "example_history = [SignalSent 1 ''s'' (example_signal ''a''), RegisterBegin ''s'', RegisterSend 0, RegisterReturn 0,
     SignalTaken 0, SignalSent 2 '' s'' (example_signal ''b''), SignalSent 3 ''s'' (example_signal ''a''), Unregistered 0]"

lemma example_history_run:
  "map_option (\<lambda>b. (map (sg_payload \<circ> snd) (sb_applied b), map (sg_payload \<circ> snd) (waiting b), map (sg_payload \<circ> snd) (lost b)))
     (steering_run example_history new_steering_bus) = Some ([''a''], [], [''b''])"
  by code_simp

definition example_bus :: steering_bus where
  "example_bus = the (steering_run example_history new_steering_bus)"

lemma example_bus_reached: "steering_steps new_steering_bus example_bus"
proof -
  have "steering_run example_history new_steering_bus \<noteq> None" using example_history_run by auto
  then show ?thesis unfolding example_bus_def by (intro steering_run_reaches [of example_history]) auto
qed

lemma steering_accounting_witness:
  "steering_steps new_steering_bus example_bus
   \<and> mset (map signal_key (sb_applied example_bus @ waiting example_bus @ lost example_bus)) = mset (sb_seen example_bus)"
  using steering_accounting [OF example_bus_reached] example_bus_reached by blast

section \<open>A registration that cannot return\<close>

definition stuck :: "nat \<Rightarrow> steering_bus \<Rightarrow> bool" where
  "stuck i b \<longleftrightarrow> i < length (sb_registrations b) \<and> \<not> rg_returned (registration_at b i)
     \<and> 64 < length (rg_unsent (registration_at b i)) + length (rg_buffer (registration_at b i))"

lemma stuck_set_registration:
  assumes "stuck i b" "rg_returned r \<longrightarrow> rg_returned (registration_at b j)"
    "length (rg_unsent (registration_at b j)) + length (rg_buffer (registration_at b j))
       \<le> length (rg_unsent r) + length (rg_buffer r)"
  shows "stuck i (set_registration j r b)"
  using assms by (cases "j = i") (auto simp: stuck_def)

lemma stuck_other: "stuck i b \<Longrightarrow> j \<noteq> i \<Longrightarrow> stuck i (set_registration j r b)"
  by (simp add: stuck_def)

lemma stuck_simps [simp]:
  "stuck i (b\<lparr>sb_seen := s\<rparr>) = stuck i b" "stuck i (b\<lparr>sb_applied := a\<rparr>) = stuck i b"
  "stuck i (b\<lparr>sb_channels := ch\<rparr>) = stuck i b" "stuck i (push_pending key sig b) = stuck i b"
  by (simp_all add: stuck_def)

lemma stuck_step:
  assumes "structure_ok b" "stuck i b" "steering_exec e b = Some c"
  shows "stuck i c"
proof (cases e)
  case (SignalSent now session sig)
  then have "c = fst (queue_steering_signal now session sig b)" using assms(3) by simp
  then show ?thesis using assms(2) stuck_set_registration [OF assms(2)]
    by (auto simp: queue_steering_signal_def Let_def set_registration_def stuck_def nth_list_update split: option.splits)
next
  case (RegisterBegin session)
  then show ?thesis using assms(2,3)
    by (auto simp: register_begin_def Let_def stuck_def nth_append split: if_splits)
next
  case (RegisterSend j)
  then obtain sig rest where "rg_unsent (registration_at b j) = sig # rest"
    "c = set_registration j ((registration_at b j)\<lparr>rg_unsent := rest,
           rg_buffer := rg_buffer (registration_at b j) @ [sig]\<rparr>) b"
    using assms(3) by (auto simp: register_send_def split: if_splits list.splits)
  then show ?thesis using stuck_set_registration [OF assms(2)] by simp
next
  case (RegisterReturn j)
  then have j: "j < length (sb_registrations b)" "rg_unsent (registration_at b j) = []"
    "c = set_registration j ((registration_at b j)\<lparr>rg_returned := True\<rparr>) b"
    using assms(3) by (auto simp: register_return_def split: if_splits)
  then have "j \<noteq> i" using structure_registration [OF assms(1) j(1)] assms(2)
    by (auto simp: stuck_def registration_ok_def)
  then show ?thesis using stuck_other [OF assms(2)] j(3) by simp
next
  case (SignalTaken j)
  then obtain sig rest where j: "rg_returned (registration_at b j)"
    "c = (set_registration j ((registration_at b j)\<lparr>rg_buffer := rest\<rparr>) b)
           \<lparr>sb_applied := sb_applied b @ [(rg_key (registration_at b j), sig)]\<rparr>"
    using assms(3) by (auto simp: take_signal_def split: if_splits list.splits)
  then have "j \<noteq> i" using assms(2) by (auto simp: stuck_def)
  then show ?thesis using stuck_other [OF assms(2)] j(2) by simp
next
  case (Unregistered j)
  then have "rg_returned (registration_at b j)"
    "c = set_registration j ((registration_at b j)\<lparr>rg_ended := True\<rparr>) b
      \<or> c = (set_registration j ((registration_at b j)\<lparr>rg_ended := True\<rparr>) b)
            \<lparr>sb_channels := dict_del (rg_key (registration_at b j)) (sb_channels b)\<rparr>"
    using assms(3) by (auto simp: unregister_def Let_def split: if_splits)
  moreover from this(1) have "j \<noteq> i" using assms(2) by (auto simp: stuck_def)
  ultimately show ?thesis using stuck_other [OF assms(2)] by auto
qed

lemma stuck_steps: "steering_steps b c \<Longrightarrow> structure_ok b \<Longrightarrow> stuck i b \<Longrightarrow> structure_ok c \<and> stuck i c"
  by (induction rule: steering_steps.induct) (auto intro: structure_step stuck_step)

text \<open>
  C24. A registration can block its loop for ever. When a session has 64 pending signals and one more is
  delivered after the lock is released and before the first of them is sent, the channel and the signals
  still to be sent are 65: whatever happens afterwards, the call never returns and the loop never runs,
  since only the loop would read the channel.
\<close>

lemma registration_never_returns:
  assumes "steering_steps new_steering_bus b" "i < length (sb_registrations b)"
    and "\<not> rg_returned (registration_at b i)"
    and "64 < length (rg_unsent (registration_at b i)) + length (rg_buffer (registration_at b i))"
    and "steering_steps b c"
  shows "\<not> rg_returned (registration_at c i)"
proof -
  have "structure_ok b" using steering_inv_steps [OF assms(1) steering_inv_new] by (simp add: steering_inv_def)
  moreover have "stuck i b" using assms(2-4) by (simp add: stuck_def)
  ultimately have "stuck i c" using stuck_steps [OF assms(5)] by simp
  then show ?thesis by (simp add: stuck_def)
qed

definition full_queue_history :: "steering_event list" where
  "full_queue_history =
     map (\<lambda>n. SignalSent 1 ''s'' (example_signal (replicate n CHR ''a''))) [0..<64]
       @ [RegisterBegin ''s'', SignalSent 1 ''s'' (example_signal (replicate 64 CHR ''a''))]"

text \<open>Signals for a session without a channel fill its queue.\<close>

lemma queue_without_channel:
  assumes "dict_get (sb_channels b) key = None" "trim_space key = key" "key \<noteq> []" "sg_timestamp sig \<noteq> 0"
    "steering_signal_key key sig \<notin> set (sb_seen b)"
    "length (dict_get_or [] (sb_pending b) key) < 64"
  shows "fst (queue_steering_signal now key sig b) =
     b\<lparr>sb_seen := steering_signal_key key sig # sb_seen b,
       sb_pending := dict_set key (dict_get_or [] (sb_pending b) key @ [sig]) (sb_pending b)\<rparr>"
proof -
  have "Suc (length (dict_get_or [] (sb_pending b) key)) - 64 = 0" using assms(6) by simp
  then show ?thesis using assms(1-5)
    by (simp add: queue_steering_signal_def push_pending_def Let_def)
qed

lemma fill_queue:
  assumes "dict_get (sb_channels b) key = None" "trim_space key = key" "key \<noteq> []"
    "list_all (\<lambda>sig. sg_timestamp sig \<noteq> 0) sigs"
    "distinct (map (steering_signal_key key) sigs)" "set (map (steering_signal_key key) sigs) \<inter> set (sb_seen b) = {}"
    "length (dict_get_or [] (sb_pending b) key) + length sigs \<le> 64"
  shows "\<exists>c. steering_run (map (SignalSent now key) sigs) b = Some c
     \<and> dict_get_or [] (sb_pending c) key = dict_get_or [] (sb_pending b) key @ sigs
     \<and> sb_channels c = sb_channels b \<and> sb_registrations c = sb_registrations b
     \<and> set (sb_seen c) = set (map (steering_signal_key key) sigs) \<union> set (sb_seen b)"
  using assms
proof (induction sigs arbitrary: b)
  case (Cons sig sigs)
  define b' where "b' = b\<lparr>sb_seen := steering_signal_key key sig # sb_seen b,
       sb_pending := dict_set key (dict_get_or [] (sb_pending b) key @ [sig]) (sb_pending b)\<rparr>"
  have "fst (queue_steering_signal now key sig b) = b'"
    unfolding b'_def using Cons.prems by (intro queue_without_channel) auto
  moreover have "\<exists>c. steering_run (map (SignalSent now key) sigs) b' = Some c
     \<and> dict_get_or [] (sb_pending c) key = dict_get_or [] (sb_pending b') key @ sigs
     \<and> sb_channels c = sb_channels b' \<and> sb_registrations c = sb_registrations b'
     \<and> set (sb_seen c) = set (map (steering_signal_key key) sigs) \<union> set (sb_seen b')"
    using Cons.prems by (intro Cons.IH) (auto simp: b'_def)
  ultimately show ?case by (auto simp: b'_def)
qed auto

lemma trim_space_replicate [simp]: "\<not> is_space c \<Longrightarrow> trim_space (replicate n c) = replicate n c"
  by (cases n) (simp_all add: trim_space_def dropWhile_append replicate_append_same [symmetric] del: replicate.simps)

lemma length_example_key: "length (steering_signal_key ''s'' (example_signal (replicate n CHR ''a''))) = n + 13"
proof -
  have "trim_space ''s'' = ''s''" "trim_space ''approve'' = ''approve''" "itoa 5 = ''5''" "\<not> is_space CHR ''a''"
    by code_simp+
  then show ?thesis
    by (simp add: steering_signal_key_def example_signal_def unique_trimmed_strings_def trimmed_def)
qed

lemma run_append: "steering_run (es @ fs) b = Option.bind (steering_run es b) (steering_run fs)"
proof (induction es arbitrary: b)
  case (Cons e es)
  then show ?case by (cases "steering_exec e b") simp_all
qed simp

lemma full_queue_run:
  "\<exists>b. steering_run full_queue_history new_steering_bus = Some b \<and> length (sb_registrations b) = 1
     \<and> \<not> rg_returned (registration_at b 0)
     \<and> length (rg_unsent (registration_at b 0)) = 64 \<and> length (rg_buffer (registration_at b 0)) = 1"
proof -
  let ?sig = "\<lambda>n. example_signal (replicate n CHR ''a'')"
  let ?key = "\<lambda>n. steering_signal_key ''s'' (?sig n)"
  have inj: "?key m = ?key n \<longleftrightarrow> m = n" for m n
    using length_example_key [of m] length_example_key [of n] by (metis add_right_cancel)
  have "distinct (map ?key [0..<64])" by (auto simp: distinct_map inj_on_def inj)
  then have "\<exists>c. steering_run (map (SignalSent 1 ''s'') (map ?sig [0..<64])) new_steering_bus = Some c
     \<and> dict_get_or [] (sb_pending c) ''s'' = map ?sig [0..<64]
     \<and> sb_channels c = [] \<and> sb_registrations c = []
     \<and> set (sb_seen c) = set (map (steering_signal_key ''s'') (map ?sig [0..<64]))"
    using fill_queue [of new_steering_bus "''s''" "map ?sig [0..<64]" 1]
    by (simp add: new_steering_bus_def comp_def list_all_iff example_signal_def trim_space_def is_space_def)
  then obtain c where c: "steering_run (map (SignalSent 1 ''s'') (map ?sig [0..<64])) new_steering_bus = Some c"
     "dict_get_or [] (sb_pending c) ''s'' = map ?sig [0..<64]" "sb_channels c = []" "sb_registrations c = []"
     "set (sb_seen c) = set (map (steering_signal_key ''s'') (map ?sig [0..<64]))" by blast
  have fresh: "?key 64 \<notin> set (sb_seen c)" by (auto simp: c(5) inj)
  have "steering_run full_queue_history new_steering_bus
      = steering_run [RegisterBegin ''s'', SignalSent 1 ''s'' (?sig 64)] c"
    using c(1) by (simp add: full_queue_history_def run_append comp_def)
  moreover have ts: "sg_timestamp (?sig 64) = 5" by (simp add: example_signal_def)
  have s: "trim_space ''s'' = ''s''" by code_simp
  have "\<exists>b. steering_run [RegisterBegin ''s'', SignalSent 1 ''s'' (?sig 64)] c = Some b
     \<and> length (sb_registrations b) = 1 \<and> \<not> rg_returned (registration_at b 0)
     \<and> length (rg_unsent (registration_at b 0)) = 64 \<and> length (rg_buffer (registration_at b 0)) = 1"
    using c(2-4) fresh ts
    by (simp add: register_begin_def queue_steering_signal_def Let_def s set_registration_def)
  ultimately show ?thesis by simp
qed

lemma registration_never_returns_witness:
  "\<exists>b. steering_steps new_steering_bus b \<and> sb_registrations b \<noteq> []
     \<and> (\<forall>es c. steering_run es b = Some c \<longrightarrow> \<not> rg_returned (registration_at c 0))"
proof -
  obtain b where r: "steering_run full_queue_history new_steering_bus = Some b"
    and b: "length (sb_registrations b) = 1" "\<not> rg_returned (registration_at b 0)"
      "length (rg_unsent (registration_at b 0)) = 64" "length (rg_buffer (registration_at b 0)) = 1"
    using full_queue_run by blast
  have "steering_steps new_steering_bus b" using steering_run_reaches [OF r] .
  moreover have "\<not> rg_returned (registration_at c 0)" if "steering_run es b = Some c" for es c
    using registration_never_returns [OF \<open>steering_steps new_steering_bus b\<close> _ b(2) _ steering_run_reaches [OF that]] b
    by simp
  ultimately show ?thesis using b(1) by auto
qed

section \<open>Lost signals stay lost\<close>

lemma lost_mono_set_registration:
  assumes "\<not> rg_ended (registration_at b i)"
  shows "set (lost b) \<subseteq> set (lost (set_registration i r b))"
proof
  fix p
  assume "p \<in> set (lost b)"
  then consider "p \<in> set (sb_evicted b)"
    | r' where "r' \<in> set (sb_registrations b)" "rg_ended r'" "p \<in> set (placed r')" by (auto simp: lost_def)
  then show "p \<in> set (lost (set_registration i r b))"
  proof cases
    case 1
    then show ?thesis by (simp add: lost_def)
  next
    case 2
    then obtain j where j: "j < length (sb_registrations b)" "r' = registration_at b j" by (auto simp: in_set_conv_nth)
    then have "r' \<in> set ((sb_registrations b)[i := r])"
      using assms 2(2) by (metis length_list_update nth_list_update_neq nth_mem)
    then show ?thesis using 2(2,3) by (auto simp: lost_def)
  qed
qed

lemma lost_simps [simp]:
  "lost (b\<lparr>sb_seen := s\<rparr>) = lost b" "lost (b\<lparr>sb_channels := ch\<rparr>) = lost b" "lost (b\<lparr>sb_applied := a\<rparr>) = lost b"
  by (simp_all add: lost_def)

lemma lost_push_pending: "set (lost b) \<subseteq> set (lost (push_pending key sig b))"
  by (auto simp: lost_def push_pending_def Let_def)

lemma lost_queue: "structure_ok b \<Longrightarrow> set (lost b) \<subseteq> set (lost (fst (queue_steering_signal now session sig b)))"
proof -
  assume b: "structure_ok b"
  define key where "key = trim_space session"
  define sig' where "sig' = (if sg_timestamp sig = 0 then sig\<lparr>sg_timestamp := now\<rparr> else sig)"
  define b' where "b' = b\<lparr>sb_seen := steering_signal_key key sig' # sb_seen b\<rparr>"
  have push: "set (lost b) \<subseteq> set (lost (push_pending key sig' b'))"
    using lost_push_pending [of b' key sig'] by (simp add: b'_def)
  have "set (lost b) \<subseteq> set (lost (set_registration i r b'))"
    if "dict_get (sb_channels b) key = Some i" for i r
    using lost_mono_set_registration [of b' i r] that b channels_okD [of b key i]
    by (simp add: b'_def structure_ok_def)
  then have "set (lost b) \<subseteq> set (lost (set_registration i ((registration_at b i)
      \<lparr>rg_buffer := rg_buffer (registration_at b i) @ [sig']\<rparr>) b'))"
    if "dict_get (sb_channels b) key = Some i" for i
    using that by blast
  moreover have "sb_channels b' = sb_channels b" "sb_registrations b' = sb_registrations b" by (simp_all add: b'_def)
  ultimately show ?thesis using push
    by (simp add: queue_steering_signal_def Let_def key_def [symmetric] sig'_def [symmetric] b'_def [symmetric]
        split: option.splits)
qed

lemma lost_step:
  assumes "structure_ok b" "steering_exec e b = Some c"
  shows "set (lost b) \<subseteq> set (lost c)"
proof (cases e)
  case (SignalSent now session sig)
  then show ?thesis using lost_queue [OF assms(1), of now session sig] assms(2) by simp
next
  case (RegisterBegin session)
  then show ?thesis using assms(2) by (auto simp: register_begin_def Let_def lost_def split: if_splits)
next
  case (RegisterSend i)
  then have i: "i < length (sb_registrations b)" "rg_unsent (registration_at b i) \<noteq> []"
    "\<exists>r. c = set_registration i r b"
    using assms(2) by (auto simp: register_send_def split: if_splits list.splits)
  then have "\<not> rg_ended (registration_at b i)"
    using structure_registration [OF assms(1) i(1)] by (auto simp: registration_ok_def)
  then show ?thesis using i(3) lost_mono_set_registration by blast
next
  case (RegisterReturn i)
  then have i: "i < length (sb_registrations b)" "\<not> rg_returned (registration_at b i)"
    "\<exists>r. c = set_registration i r b"
    using assms(2) by (auto simp: register_return_def split: if_splits)
  then have "\<not> rg_ended (registration_at b i)"
    using structure_registration [OF assms(1) i(1)] by (auto simp: registration_ok_def)
  then show ?thesis using i(3) lost_mono_set_registration by blast
next
  case (SignalTaken i)
  then have "\<not> rg_ended (registration_at b i)" "\<exists>r a. c = (set_registration i r b)\<lparr>sb_applied := a\<rparr>"
    using assms(2) by (auto simp: take_signal_def split: if_splits list.splits)
  then show ?thesis using lost_mono_set_registration [of b i] lost_simps(3) by metis
next
  case (Unregistered i)
  then have "\<not> rg_ended (registration_at b i)"
    "\<exists>r. c = set_registration i r b \<or> (\<exists>ch. c = (set_registration i r b)\<lparr>sb_channels := ch\<rparr>)"
    using assms(2) by (auto simp: unregister_def Let_def split: if_splits)
  then show ?thesis using lost_mono_set_registration [of b i] lost_simps(2) by metis
qed

lemma lost_steps: "steering_steps b c \<Longrightarrow> structure_ok b \<Longrightarrow> structure_ok c \<and> set (lost b) \<subseteq> set (lost c)"
  by (induction rule: steering_steps.induct) (auto dest: structure_step lost_step)

lemma seen_step: "structure_ok b \<Longrightarrow> steering_exec e b = Some c \<Longrightarrow> set (sb_seen b) \<subseteq> set (sb_seen c)"
  by (rule steering_exec_adds [of b e c]) (auto simp: adds_def structure_ok_def)

lemma seen_steps: "steering_steps b c \<Longrightarrow> structure_ok b \<Longrightarrow> structure_ok c \<and> set (sb_seen b) \<subseteq> set (sb_seen c)"
  by (induction rule: steering_steps.induct) (auto dest: structure_step seen_step)

lemma structure_reached: "steering_steps new_steering_bus b \<Longrightarrow> structure_ok b"
  using steering_inv_steps [OF _ steering_inv_new] by (simp add: steering_inv_def)

text \<open>
  A signal in the channel of a loop that has ended is lost for good, although the operator was told
  it was delivered: no later loop of the session applies it, and sending or replaying it again is
  refused, because its key has been seen.
\<close>

lemma lost_signal_never_applied:
  assumes "steering_steps new_steering_bus b" "(key, sig) \<in> set (lost b)"
    and "steering_steps b c" "trim_space key = key" "sg_timestamp sig \<noteq> 0" "key \<noteq> []"
  shows "(key, sig) \<notin> set (sb_applied c) \<and> queue_steering_signal now key sig c = (c, Some (False, False))"
proof -
  have c: "steering_steps new_steering_bus c" using steering_steps_trans assms(1,3) by blast
  have l: "(key, sig) \<in> set (lost c)" using lost_steps [OF assms(3) structure_reached [OF assms(1)]] assms(2) by blast
  have "distinct (map signal_key (sb_applied c @ waiting c @ lost c))" using steering_inv_steps [OF c steering_inv_new]
      places_parts [of c] mset_eq_imp_distinct_iff [of "map signal_key (sb_applied c @ waiting c @ lost c)" "sb_seen c"]
    by (simp only: mset_map steering_inv_def)
  then have "(key, sig) \<notin> set (sb_applied c)" using l by (auto simp: image_iff)
  moreover have "steering_signal_key key sig \<in> set (sb_seen c)"
  proof -
    have "(key, sig) \<in># places c" using l by (simp flip: places_parts)
    then have "steering_signal_key key sig \<in># image_mset signal_key (places c)" by force
    then show ?thesis using steering_inv_steps [OF c steering_inv_new] unfolding steering_inv_def
      by (metis set_mset_mset)
  qed
  ultimately show ?thesis using assms(4-6) by (simp add: queue_steering_signal_def Let_def)
qed

lemma example_bus_lost: "lost example_bus = [(''s'', example_signal ''b'')]"
  unfolding example_bus_def by code_simp

lemma lost_signal_never_applied_witness:
  "(''s'', example_signal ''b'') \<in> set (lost example_bus)
   \<and> queue_steering_signal 9 ''s'' (example_signal ''b'') example_bus = (example_bus, Some (False, False))"
proof -
  have "trim_space ''s'' = ''s''" "sg_timestamp (example_signal ''b'') \<noteq> 0" by code_simp+
  then show ?thesis
    using lost_signal_never_applied [OF example_bus_reached _ steps_refl, of "''s''" "example_signal ''b''" 9]
    by (simp add: example_bus_lost)
qed

section \<open>The journal\<close>

lemma trunc_of_int [simp]: "trunc_int (of_int k) = k"
  by (simp add: trunc_int_def)

lemma trimmed_map_json [simp]: "map (\<lambda>x. json_str (Some x)) (map JStr xs) = xs"
  by (induction xs) (simp_all add: json_str_def)

text \<open>A signal as the HTTP request makes it.\<close>

definition accepted_form :: "steering_signal \<Rightarrow> bool" where
  "accepted_form sig \<longleftrightarrow> sg_type sig \<noteq> [] \<and> trim_space (sg_type sig) = sg_type sig
     \<and> trim_space (sg_payload sig) = sg_payload sig \<and> trimmed (sg_queries sig) = sg_queries sig \<and> sg_timestamp sig \<noteq> 0"

lemma journal_decode:
  assumes "accepted_form sig"
  shows "steering_signal_from_journal_entry (steering_journal_entry now d sig)
     = Some (sig\<lparr>sg_queries := unique_trimmed_strings (sg_queries sig)\<rparr>)"
  using assms
  by (simp add: steering_signal_from_journal_entry_def steering_journal_entry_def accepted_form_def Let_def
      as_optional_string_def string_slice_from_any_def int64_from_any_def del: map_map)

lemma steering_signal_key_queries [simp]:
  "steering_signal_key s (sig\<lparr>sg_queries := unique_trimmed_strings (sg_queries sig)\<rparr>) = steering_signal_key s sig"
  by (simp add: steering_signal_key_def)

lemma steering_types_trimmed: "ty \<in> set steering_types \<Longrightarrow> ty \<noteq> [] \<and> trim_space ty = ty"
proof -
  have "list_all (\<lambda>ty. ty \<noteq> [] \<and> trim_space ty = ty) steering_types" by code_simp
  then show "ty \<in> set steering_types \<Longrightarrow> ty \<noteq> [] \<and> trim_space ty = ty" by (simp add: list_all_iff)
qed

lemma queue_sees:
  assumes "queue_steering_signal now session sig b = (c, Some r)" "sg_timestamp sig \<noteq> 0"
  shows "steering_signal_key (trim_space session) sig \<in> set (sb_seen c)"
  using assms by (auto simp: queue_steering_signal_def Let_def split: if_splits option.splits)

lemma accept_steering_signalD:
  assumes "accept_steering_signal now user owner session ty payload queries b = (c, Some (d, e))" "now \<noteq> 0"
  obtains sig where "accepted_form sig" "e = steering_journal_entry now d sig"
    "steering_signal_key (trim_space session) sig \<in> set (sb_seen c)"
    "\<exists>r. queue_steering_signal now (trim_space session) sig b = (c, Some r)"
proof -
  define sig where "sig = \<lparr>sg_type = to_lower (trim_space ty), sg_payload = trim_space payload,
      sg_queries = normalize_string_slice queries, sg_timestamp = now\<rparr>"
  have ty: "to_lower (trim_space ty) \<in> set steering_types"
    and q: "\<exists>r. queue_steering_signal now (trim_space session) sig b = (c, Some r)"
    and e: "e = steering_journal_entry now d sig"
    using assms(1) by (auto simp: accept_steering_signal_def Let_def sig_def split: if_splits option.splits prod.splits)
  have "accepted_form sig"
    using steering_types_trimmed [OF ty] assms(2) by (simp add: accepted_form_def sig_def normalize_string_slice_def)
  moreover have "sg_timestamp sig \<noteq> 0" using assms(2) by (simp add: sig_def)
  ultimately show thesis using that e q queue_sees [of now "trim_space session" sig b c] by auto
qed

lemma replay_skips_seen:
  assumes "accepted_form sig" "key \<noteq> []" "trim_space key = key" "steering_signal_key key sig \<in> set (sb_seen b)"
  shows "replay_entries now' key (steering_journal_entry now d sig # es) (b, n) = replay_entries now' key es (b, n)"
proof -
  let ?sig = "sig\<lparr>sg_queries := unique_trimmed_strings (sg_queries sig)\<rparr>"
  have "queue_steering_signal now' key ?sig b = (b, Some (False, False))"
    using assms by (simp add: queue_steering_signal_def Let_def accepted_form_def)
  moreover have "je_event_type (steering_journal_entry now d sig) = ''wisdev_steering_signal''"
    by (simp add: steering_journal_entry_def)
  ultimately show ?thesis by (simp add: journal_decode [OF assms(1)])
qed

lemma replay_entries_append: "replay_entries now key (es @ fs) r = replay_entries now key fs (replay_entries now key es r)"
proof (induction now key es r rule: replay_entries.induct)
  case (2 now key e es b n)
  then show ?case by (simp split: option.split prod.split bool.split)
qed simp

lemma replay_entries_steps: "replay_entries now key es (b, n) = (c, m) \<Longrightarrow> steering_steps b c"
proof (induction es arbitrary: b n)
  case Nil
  then show ?case using steps_refl by simp
next
  case (Cons e es)
  show ?case
  proof (cases "je_event_type e \<noteq> ''wisdev_steering_signal'' \<or> steering_signal_from_journal_entry e = None")
    case True
    then show ?thesis using Cons by (auto split: option.splits)
  next
    case False
    then obtain sig where sig: "steering_signal_from_journal_entry e = Some sig" by blast
    obtain b' r where q: "queue_steering_signal now key sig b = (b', r)" by fastforce
    then have "steering_exec (SignalSent now key sig) b = Some b'" by simp
    then have "steering_steps b b'" using steps_step [OF steps_refl] by blast
    moreover have "steering_steps b' c"
      using Cons False sig q by (auto split: option.splits prod.splits bool.splits)
    ultimately show ?thesis using steering_steps_trans by blast
  qed
qed

text \<open>
  C25. The journal never makes a signal act twice: what a request accepted and journaled reads back with
  the same key, so every later replay of the journal, by whatever loop and after whatever else happened,
  passes over it and leaves the bus to the other entries. This holds for the bus of one process, which
  remembers the keys in memory; the clock must not read zero.
\<close>

lemma journal_replay_idempotent:
  assumes "steering_steps new_steering_bus b" "now \<noteq> 0"
    and "accept_steering_signal now user owner session ty payload queries b = (c, Some (d, e))"
    and "steering_steps c c'"
  shows "replay_journaled_steering_signals now' session (Some (es @ e # fs)) c'
    = replay_entries now' (trim_space session) fs (replay_entries now' (trim_space session) es (c', 0))"
proof -
  let ?key = "trim_space session"
  obtain sig where sig: "accepted_form sig" "e = steering_journal_entry now d sig"
    "steering_signal_key ?key sig \<in> set (sb_seen c)"
    "\<exists>r. queue_steering_signal now ?key sig b = (c, Some r)"
    using accept_steering_signalD [OF assms(3,2)] .
  have key: "?key \<noteq> []" using assms(3) by (auto simp: accept_steering_signal_def authorize_steering_signal_def Let_def
        split: if_splits option.splits)
  have "steering_exec (SignalSent now ?key sig) b = Some c" using sig(4) by auto
  then have c: "structure_ok c" using structure_step [OF structure_reached [OF assms(1)]] by blast
  obtain c2 m where r: "replay_entries now' ?key es (c', 0) = (c2, m)" by fastforce
  have "steering_steps c c2" using replay_entries_steps [OF r] steering_steps_trans assms(4) by blast
  then have "steering_signal_key ?key sig \<in> set (sb_seen c2)" using seen_steps [OF _ c] sig(3) by blast
  then show ?thesis
    using replay_skips_seen [OF sig(1) key _, of c2 now' now d fs m] sig(2) key r
    by (simp add: replay_journaled_steering_signals_def Let_def replay_entries_append)
qed

lemma journal_replay_idempotent_witness:
  "\<exists>c d e. accept_steering_signal 7 ''u'' (Some ''u'') '' s '' ''Focus'' ''x'' [''A'', ''a ''] new_steering_bus = (c, Some (d, e))
     \<and> replay_journaled_steering_signals 8 '' s '' (Some [e]) c = (c, 0)"
proof -
  have "snd (accept_steering_signal 7 ''u'' (Some ''u'') '' s '' ''Focus'' ''x'' [''A'', ''a ''] new_steering_bus) \<noteq> None"
    by code_simp
  then obtain c d e where a: "accept_steering_signal 7 ''u'' (Some ''u'') '' s '' ''Focus'' ''x'' [''A'', ''a ''] new_steering_bus = (c, Some (d, e))"
    by (metis not_Some_eq prod.collapse)
  have "replay_journaled_steering_signals 8 '' s '' (Some [e]) c = (c, 0)"
    using journal_replay_idempotent [OF steps_refl _ a steps_refl, of 8 "[]" "[]"] by simp
  then show ?thesis using a by blast
qed

end
