(* ===== verification/Beliefs.thy ===== *)
theory Beliefs
  imports RankFusion "HOL-Library.Char_ord" "HOL-Library.List_Lexorder"
begin

text \<open>
  What the research loop believes: hypotheses and the evidence for them, the ledger of beliefs built
  from them, and the belief manager that adds, updates, triangulates, refutes and retires beliefs
  (\<open>orchestrator/internal/wisdev/belief_state.go\<close>, \<open>belief_hypothesis_sync.go\<close>, \<open>models.go\<close>,
  \<open>architecture.go\<close>). Confidences are exact reals. The ledger is a dictionary from belief ids to
  beliefs; its list order is the order in which Go happens to iterate over the map. Slices of pointers
  hold no nil here: every reader skips nil entries. Of the provenance entries, created only to be
  shown, the description texts are left out. The belief graph and the exported summary are not modelled.
\<close>

section \<open>Stable identifiers\<close>

text \<open>
  \<open>digest\<close> gives the bytes of the SHA-256 digest that are used; nothing depends on which bytes they are.
\<close>

definition hex_digit :: "nat \<Rightarrow> char" where
  "hex_digit n = char_of (if n mod 16 < 10 then 48 + n mod 16 else 87 + n mod 16)"

definition hex_encode :: "nat list \<Rightarrow> string" where
  "hex_encode bs = concat (map (\<lambda>b. [hex_digit (b div 16), hex_digit b]) bs)"

definition stable_wisdev_id :: "(string \<Rightarrow> nat list) \<Rightarrow> string \<Rightarrow> string list \<Rightarrow> string" where
  "stable_wisdev_id digest pre parts =
     (if trimmed parts = [] then pre
      else pre @ ''_'' @ hex_encode (take 6 (digest (join ''|'' (trimmed parts)))))"

section \<open>Evidence, hypotheses and beliefs\<close>

record evidence_finding =
  ef_id :: string
  ef_claim :: string
  ef_source_id :: string
  ef_paper_title :: string
  ef_snippet :: string
  ef_year :: int
  ef_confidence :: real
  ef_status :: string

record hypothesis =
  hy_id :: string
  hy_parent_id :: string
  hy_query :: string
  hy_text :: string
  hy_claim :: string
  hy_confidence_score :: real
  hy_status :: string
  hy_terminated :: bool
  hy_evidence :: "evidence_finding list"
  hy_contradictions :: "evidence_finding list"
  hy_contradiction_count :: int
  hy_evidence_count :: int
  hy_updated_at :: int
  hy_query_budget :: int
  hy_falsifiability :: string
  hy_confidence_threshold :: real

record provenance_entry =
  pv_gap_id :: string
  pv_query_id :: string
  pv_evidence_id :: string
  pv_timestamp :: int

datatype belief_status = BeliefStatusActive | BeliefStatusRevised | BeliefStatusRefuted

record belief =
  bl_id :: string
  bl_claim :: string
  bl_confidence :: real
  bl_supporting :: "string list"
  bl_contradicting :: "string list"
  bl_provenance :: "provenance_entry list"
  bl_source_families :: "string list"
  bl_triangulated :: bool
  bl_status :: belief_status
  bl_created_at :: int
  bl_updated_at :: int
  bl_revised_from :: string
  bl_superseded_by :: string

type_synonym belief_state = "belief dict"

definition add_belief :: "belief \<Rightarrow> belief_state \<Rightarrow> belief_state" where
  "add_belief b bs = dict_set (bl_id b) b bs"

definition update_belief :: "int \<Rightarrow> string \<Rightarrow> (belief \<Rightarrow> belief) \<Rightarrow> belief_state \<Rightarrow> belief_state" where
  "update_belief now bid updater bs =
     (case dict_get bs bid of
        Some b \<Rightarrow> dict_set bid ((updater b)\<lparr>bl_updated_at := now\<rparr>) bs
      | None \<Rightarrow> bs)"

definition revise_belief :: "int \<Rightarrow> string \<Rightarrow> belief \<Rightarrow> belief_state \<Rightarrow> belief_state" where
  "revise_belief now old new bs =
     add_belief (new\<lparr>bl_revised_from := old\<rparr>)
       (update_belief now old (\<lambda>b. b\<lparr>bl_status := BeliefStatusRevised, bl_superseded_by := bl_id new\<rparr>) bs)"

definition refute_belief :: "int \<Rightarrow> string \<Rightarrow> belief_state \<Rightarrow> belief_state" where
  "refute_belief now bid bs = update_belief now bid (\<lambda>b. b\<lparr>bl_status := BeliefStatusRefuted\<rparr>) bs"

definition active_beliefs :: "belief_state \<Rightarrow> belief list" where
  "active_beliefs bs = filter (\<lambda>b. bl_status b = BeliefStatusActive) (map snd bs)"

section \<open>From hypotheses to beliefs\<close>

definition evidence_ids :: "evidence_finding list \<Rightarrow> string list" where
  "evidence_ids evs = map ef_id (filter (\<lambda>ev. \<not> blank (ef_id ev)) evs)"

text \<open>Without evidence of its own the hypothesis is split over all the evidence, by confidence.\<close>

definition hypothesis_evidence_ids :: "hypothesis \<Rightarrow> evidence_finding list \<Rightarrow> string list \<times> string list" where
  "hypothesis_evidence_ids h evidence =
     (let sup = evidence_ids (hy_evidence h); con = evidence_ids (hy_contradictions h) in
      if sup = [] \<and> con = []
      then (trimmed (map ef_id (filter (\<lambda>ev. 1 / 2 \<le> ef_confidence ev) evidence)),
            trimmed (map ef_id (filter (\<lambda>ev. \<not> 1 / 2 \<le> ef_confidence ev) evidence)))
      else (sup, con))"

definition provenance_chain :: "int \<Rightarrow> string \<Rightarrow> string \<Rightarrow> string list \<Rightarrow> provenance_entry list" where
  "provenance_chain now gap query ids =
     (if gap \<noteq> [] \<or> query \<noteq> []
      then [\<lparr>pv_gap_id = gap, pv_query_id = query, pv_evidence_id = [], pv_timestamp = now\<rparr>] else [])
     @ map (\<lambda>i. \<lparr>pv_gap_id = gap, pv_query_id = query, pv_evidence_id = i, pv_timestamp = now\<rparr>) ids"

definition create_belief_from_hypothesis ::
  "(string \<Rightarrow> nat list) \<Rightarrow> int \<Rightarrow> hypothesis \<Rightarrow> evidence_finding list \<Rightarrow> string \<Rightarrow> string \<Rightarrow> belief option" where
  "create_belief_from_hypothesis digest now h evidence gap query =
     (if blank (hy_claim h) then None
      else (let (sup, con) = hypothesis_evidence_ids h evidence in
            Some \<lparr>bl_id = stable_wisdev_id digest ''belief'' [hy_claim h, gap, query], bl_claim = hy_claim h,
              bl_confidence = hy_confidence_score h, bl_supporting = unique_trimmed_strings sup,
              bl_contradicting = unique_trimmed_strings con,
              bl_provenance = provenance_chain now gap query (sup @ con),
              bl_source_families = [], bl_triangulated = False, bl_status = BeliefStatusActive,
              bl_created_at = now, bl_updated_at = now, bl_revised_from = [], bl_superseded_by = []\<rparr>))"

text \<open>An entry of the coverage ledger of a gap; the due iteration, which nothing modelled reads, is left out.\<close>

record coverage_ledger_entry =
  cl_id :: string
  cl_category :: string
  cl_status :: string
  cl_title :: string
  cl_description :: string
  cl_supporting_queries :: "string list"
  cl_source_families :: "string list"
  cl_closure_evidence :: "string list"
  cl_confidence :: real
  cl_required :: bool
  cl_priority :: int
  cl_obligation_type :: string
  cl_owner_worker :: string
  cl_severity :: string

definition supports_query :: "string \<Rightarrow> string \<Rightarrow> bool" where
  "supports_query q s \<longleftrightarrow>
     equal_fold (trim_space s) (trim_space q)
     \<or> contains (to_lower (trim_space s)) (to_lower (trim_space q))
     \<or> contains (to_lower (trim_space q)) (to_lower (trim_space s))"

definition gap_id_for_hypothesis :: "coverage_ledger_entry list option \<Rightarrow> hypothesis \<Rightarrow> string" where
  "gap_id_for_hypothesis gap h =
     (case gap of
        None \<Rightarrow> []
      | Some ledger \<Rightarrow>
          (case filter (\<lambda>e. equal_fold (trim_space (cl_status e)) ''open''
                          \<and> list_ex (supports_query (hy_query h)) (cl_supporting_queries e)) ledger of
             e # _ \<Rightarrow> trim_space (cl_id e)
           | [] \<Rightarrow> (case ledger of [] \<Rightarrow> [] | e # _ \<Rightarrow> trim_space (cl_id e))))"

definition build_belief ::
  "(string \<Rightarrow> nat list) \<Rightarrow> int \<Rightarrow> evidence_finding list \<Rightarrow> coverage_ledger_entry list option \<Rightarrow> string \<Rightarrow> hypothesis
     \<Rightarrow> belief_state \<Rightarrow> belief_state" where
  "build_belief digest now evidence gap query h bs =
     (case create_belief_from_hypothesis digest now h evidence (gap_id_for_hypothesis gap h) query of
        None \<Rightarrow> bs
      | Some b \<Rightarrow>
          (let bs = add_belief b bs in
           if equal_fold (hy_status h) ''refuted'' then refute_belief now (bl_id b) bs
           else if equal_fold (hy_status h) ''revised''
           then update_belief now (bl_id b) (\<lambda>b. b\<lparr>bl_status := BeliefStatusRevised\<rparr>) bs
           else bs))"

definition build_beliefs_from_hypotheses ::
  "(string \<Rightarrow> nat list) \<Rightarrow> int \<Rightarrow> hypothesis list \<Rightarrow> evidence_finding list \<Rightarrow> coverage_ledger_entry list option
     \<Rightarrow> string \<Rightarrow> belief_state \<Rightarrow> belief_state" where
  "build_beliefs_from_hypotheses digest now hs evidence gap query bs =
     fold (build_belief digest now evidence gap query) hs bs"

section \<open>Confidence\<close>

text \<open>The posterior of independent supporting and contradicting observations, in log odds.\<close>

definition bayesian_posterior :: "real \<Rightarrow> int \<Rightarrow> int \<Rightarrow> real \<Rightarrow> real \<Rightarrow> real" where
  "bayesian_posterior prior support contradict sl cl =
     (let prior = clamp_float prior (5 / 100) (95 / 100);
          sl = clamp_float sl (51 / 100) (95 / 100);
          cl = clamp_float cl (51 / 100) (95 / 100);
          logodds = ln (prior / (1 - prior)) + real_of_int (max support 0) * ln (sl / (1 - sl))
                      - real_of_int (max contradict 0) * ln (cl / (1 - cl))
      in if 20 < logodds then 95 / 100
         else if logodds < - 20 then 5 / 100
         else clamp_float (1 / (1 + exp (- logodds))) (5 / 100) (95 / 100))"

definition recalculate_belief_confidence :: "belief \<Rightarrow> belief" where
  "recalculate_belief_confidence b =
     (if bl_supporting b = [] \<and> bl_contradicting b = [] then b\<lparr>bl_confidence := 1 / 2\<rparr>
      else (let prior = clamp_float (bl_confidence b) (5 / 100) (95 / 100);
                prior = (if prior = 0 then 1 / 2 else prior)
            in b\<lparr>bl_confidence := bayesian_posterior prior (int (length (bl_supporting b)))
                   (int (length (bl_contradicting b))) (72 / 100) (72 / 100)\<rparr>))"

definition add_new_evidence :: "int \<Rightarrow> string \<Rightarrow> string \<Rightarrow> evidence_finding \<Rightarrow> belief \<Rightarrow> belief" where
  "add_new_evidence now gap query ev b =
     (let i = trim_space (ef_id ev) in
      if i = [] then b
      else (let b = (if 1 / 2 \<le> ef_confidence ev
                     then (if i \<in> set (bl_supporting b) then b else b\<lparr>bl_supporting := bl_supporting b @ [i]\<rparr>)
                     else (if i \<in> set (bl_contradicting b) then b else b\<lparr>bl_contradicting := bl_contradicting b @ [i]\<rparr>))
            in b\<lparr>bl_provenance := bl_provenance b @
                   [\<lparr>pv_gap_id = gap, pv_query_id = query, pv_evidence_id = i, pv_timestamp = now\<rparr>]\<rparr>))"

definition update_belief_with_new_evidence ::
  "int \<Rightarrow> string \<Rightarrow> evidence_finding list \<Rightarrow> string \<Rightarrow> string \<Rightarrow> belief_state \<Rightarrow> belief_state" where
  "update_belief_with_new_evidence now bid evidence gap query bs =
     update_belief now bid (\<lambda>b. recalculate_belief_confidence (fold (add_new_evidence now gap query) evidence b)) bs"

text \<open>The evidence found now, by id.\<close>

definition known_confidences :: "evidence_finding dict \<Rightarrow> string list \<Rightarrow> real list" where
  "known_confidences evs ids = map ef_confidence (List.map_filter (dict_get evs) ids)"

definition average :: "real list \<Rightarrow> real" where
  "average xs = sum_list xs / real (length xs)"

definition new_confidence :: "evidence_finding dict \<Rightarrow> belief \<Rightarrow> real" where
  "new_confidence evs b =
     (let sup = known_confidences evs (bl_supporting b);
          con = known_confidences evs (bl_contradicting b);
          c = (if sup \<noteq> [] then average sup else 1 / 2);
          c = (if con \<noteq> [] then c - average con * (3 / 10) else c)
      in if 1 < (if c < 0 then 0 else c) then 1 else (if c < 0 then 0 else c))"

definition recalculate_confidence :: "int \<Rightarrow> evidence_finding dict \<Rightarrow> belief_state \<Rightarrow> belief_state" where
  "recalculate_confidence now evs bs =
     fold (\<lambda>b bs. if new_confidence evs b \<noteq> bl_confidence b
                  then update_belief now (bl_id b) (\<lambda>x. x\<lparr>bl_confidence := new_confidence evs b\<rparr>) bs else bs)
       (active_beliefs bs) bs"

section \<open>Triangulation\<close>

definition resolve_source_family :: "paper \<Rightarrow> string" where
  "resolve_source_family p =
     (let source = to_lower (trim_space (p_source p)) in
      if contains source ''arxiv'' then ''arxiv''
      else if contains source ''pubmed'' \<or> contains source ''pmc'' then ''medicine''
      else if contains source ''semantic'' \<or> contains source ''openalex'' then ''academic_graph''
      else if contains source ''google'' then ''general_scholar''
      else if contains source ''ieee'' \<or> contains source ''acm'' then ''computer_science''
      else source)"

text \<open>\<open>strings.Split\<close> by a separator of one character.\<close>

fun split_char :: "char \<Rightarrow> string \<Rightarrow> string list" where
  "split_char c [] = [[]]"
| "split_char c (x # xs) =
     (if x = c then [] # split_char c xs
      else (case split_char c xs of [] \<Rightarrow> [[x]] | y # ys \<Rightarrow> (x # y) # ys))"

definition source_id_of :: "string \<Rightarrow> string" where
  "source_id_of ev =
     (let parts = split_char (CHR '':'') ev in if 2 \<le> length parts then parts ! 1 else ev)"

definition papers_by_id :: "paper list \<Rightarrow> paper dict" where
  "papers_by_id ps = fold (\<lambda>p d. dict_set (p_id p) p d) ps []"

text \<open>Keys of a Go set, sorted.\<close>

definition belief_families :: "paper dict \<Rightarrow> belief \<Rightarrow> string list" where
  "belief_families d b =
     sort (remdups (filter (\<lambda>f. f \<noteq> [])
       (map resolve_source_family (List.map_filter (\<lambda>ev. dict_get d (source_id_of ev)) (bl_supporting b)))))"

definition triangulate_belief :: "paper dict \<Rightarrow> belief \<Rightarrow> belief" where
  "triangulate_belief d b =
     (let fs = belief_families d b;
          b = b\<lparr>bl_source_families := fs, bl_triangulated := 2 \<le> length fs\<rparr>
      in if bl_triangulated b then b\<lparr>bl_confidence := clamp_float (bl_confidence b + 15 / 100) 0 1\<rparr> else b)"

definition triangulate_beliefs :: "int \<Rightarrow> paper list \<Rightarrow> belief_state \<Rightarrow> belief_state" where
  "triangulate_beliefs now papers bs =
     fold (\<lambda>b bs. update_belief now (bl_id b) (triangulate_belief (papers_by_id papers)) bs) (active_beliefs bs) bs"

section \<open>Refutation and retirement\<close>

text \<open>The contradiction score is the same for every belief: it looks at all the evidence.\<close>

definition contradiction_scores :: "evidence_finding list \<Rightarrow> real list" where
  "contradiction_scores evs = map (\<lambda>ev. 3 / 10 - ef_confidence ev) (filter (\<lambda>ev. ef_confidence ev < 3 / 10) evs)"

definition contradicts :: "evidence_finding list \<Rightarrow> real \<Rightarrow> bool" where
  "contradicts evs threshold \<longleftrightarrow>
     contradiction_scores evs \<noteq> [] \<and> threshold \<le> average (contradiction_scores evs)"

definition refute_beliefs_contradicted_by_evidence ::
  "int \<Rightarrow> evidence_finding list \<Rightarrow> real \<Rightarrow> belief_state \<Rightarrow> belief_state \<times> string list" where
  "refute_beliefs_contradicted_by_evidence now evs threshold bs =
     (let t = (if threshold \<le> 0 then 7 / 10 else threshold) in
      fold (\<lambda>b (bs, ids). if contradicts evs t then (refute_belief now (bl_id b) bs, ids @ [bl_id b]) else (bs, ids))
        (active_beliefs bs) (bs, []))"

definition normalized_belief_claim_key :: "string \<Rightarrow> string" where
  "normalized_belief_claim_key claim = join '' '' (str_fields (to_lower (trim_space claim)))"

definition hypothesis_status :: "hypothesis \<Rightarrow> string" where
  "hypothesis_status h = to_lower (trim_space (hy_status h))"

definition merged_claims :: "hypothesis list \<Rightarrow> string list" where
  "merged_claims hs = filter (\<lambda>k. k \<noteq> [])
     (map (normalized_belief_claim_key \<circ> hy_claim) (filter (\<lambda>h. hypothesis_status h = ''merged'') hs))"

definition refuted_claims :: "hypothesis list \<Rightarrow> string list" where
  "refuted_claims hs = filter (\<lambda>k. k \<noteq> [])
     (map (normalized_belief_claim_key \<circ> hy_claim)
       (filter (\<lambda>h. hypothesis_status h \<noteq> ''merged''
          \<and> (hy_terminated h \<or> hypothesis_status h = ''refuted'' \<or> hypothesis_status h = ''pruned'')) hs))"

definition retire_step ::
  "int \<Rightarrow> hypothesis list \<Rightarrow> string \<times> belief \<Rightarrow> belief_state \<times> nat \<Rightarrow> belief_state \<times> nat" where
  "retire_step now hs = (\<lambda>(bid, b) (bs, n).
     (let key = normalized_belief_claim_key (bl_claim b) in
      if bl_status b \<noteq> BeliefStatusActive \<or> key = [] then (bs, n)
      else if key \<in> set (refuted_claims hs) then (refute_belief now bid bs, Suc n)
      else if key \<in> set (merged_claims hs)
      then (update_belief now bid (\<lambda>b. b\<lparr>bl_status := BeliefStatusRevised\<rparr>) bs, Suc n)
      else (bs, n)))"

definition retire_beliefs_for_inactive_hypotheses ::
  "int \<Rightarrow> hypothesis list \<Rightarrow> belief_state \<Rightarrow> belief_state \<times> nat" where
  "retire_beliefs_for_inactive_hypotheses now hs bs =
     (if bs = [] \<or> (refuted_claims hs = [] \<and> merged_claims hs = []) then (bs, 0)
      else fold (retire_step now hs) bs (bs, 0))"

section \<open>Reading the ledger\<close>

definition get_average_confidence :: "belief_state \<Rightarrow> real" where
  "get_average_confidence bs =
     (let xs = map bl_confidence (active_beliefs bs) in if xs = [] then 0 else average xs)"

definition get_contradiction_pressure :: "belief_state \<Rightarrow> real" where
  "get_contradiction_pressure bs =
     (let xs = active_beliefs bs in
      if xs = [] then 0
      else real (length (filter (\<lambda>b. bl_contradicting b \<noteq> []) xs)) / real (length xs))"

definition get_uncertain_beliefs :: "real \<Rightarrow> belief_state \<Rightarrow> belief list" where
  "get_uncertain_beliefs t bs = filter (\<lambda>b. bl_confidence b < t) (active_beliefs bs)"

definition get_provenance_chain_for_belief :: "string \<Rightarrow> belief_state \<Rightarrow> provenance_entry list" where
  "get_provenance_chain_for_belief bid bs = (case dict_get bs bid of Some b \<Rightarrow> bl_provenance b | None \<Rightarrow> [])"

definition get_most_productive_gaps :: "belief_state \<Rightarrow> nat dict" where
  "get_most_productive_gaps bs =
     fold (\<lambda>pv d. if pv_gap_id pv \<noteq> [] then dict_set (pv_gap_id pv) (Suc (dict_get_or 0 d (pv_gap_id pv))) d else d)
       (concat (map bl_provenance (active_beliefs bs))) []"

definition evidence_for_belief :: "string \<Rightarrow> evidence_finding list \<Rightarrow> belief_state \<Rightarrow> evidence_finding list" where
  "evidence_for_belief bid evs bs =
     (case dict_get bs bid of None \<Rightarrow> [] | Some b \<Rightarrow> filter (\<lambda>ev. ef_id ev \<in> set (bl_supporting b)) evs)"

definition evidence_posteriors :: "belief_state \<Rightarrow> evidence_finding \<Rightarrow> real list" where
  "evidence_posteriors bs ev = concat (map (\<lambda>(_, b).
     (if ef_id ev \<in> set (bl_supporting b)
      then [bayesian_posterior (clamp_float (ef_confidence ev) (5 / 100) (95 / 100))
              (max 1 (int (length (bl_supporting b)))) (int (length (bl_contradicting b)))
              (clamp_float (bl_confidence b) (55 / 100) (95 / 100)) (68 / 100)] else [])
     @ (if ef_id ev \<in> set (bl_contradicting b)
        then [bayesian_posterior (clamp_float (ef_confidence ev) (5 / 100) (95 / 100))
              (int (length (bl_supporting b))) (max 1 (int (length (bl_contradicting b))))
              (62 / 100) (clamp_float (bl_confidence b) (55 / 100) (95 / 100))] else [])) bs)"

definition recalibrate_evidence_confidence :: "belief_state \<Rightarrow> evidence_finding list \<Rightarrow> evidence_finding list" where
  "recalibrate_evidence_confidence bs evs =
     (if bs = [] then evs
      else map (\<lambda>ev. if blank (ef_id ev) \<or> evidence_posteriors bs ev = [] then ev
                     else ev\<lparr>ef_confidence := clamp_float (average (evidence_posteriors bs ev)) (5 / 100) (95 / 100)\<rparr>) evs)"

section \<open>The posterior\<close>

definition odds :: "real \<Rightarrow> real" where
  "odds p = p / (1 - p)"

lemma odds_pos [simp]: "0 < p \<Longrightarrow> p < 1 \<Longrightarrow> 0 < odds p"
  by (simp add: odds_def)

lemma odds_half: "1 / 2 \<le> p \<Longrightarrow> p < 1 \<Longrightarrow> 1 \<le> odds p"
  by (simp add: odds_def)

lemma odds_inverse: "p < 1 \<Longrightarrow> odds p / (1 + odds p) = p"
  by (simp add: odds_def field_simps)

definition posterior_odds :: "real \<Rightarrow> nat \<Rightarrow> nat \<Rightarrow> real \<Rightarrow> real \<Rightarrow> real" where
  "posterior_odds p n m s c = odds p * odds s ^ n / odds c ^ m"

definition probability :: "real \<Rightarrow> real" where
  "probability x = x / (1 + x)"

lemma probability_mono: "0 < x \<Longrightarrow> x \<le> y \<Longrightarrow> probability x \<le> probability y"
  by (simp add: probability_def field_simps)

lemma clamp_posterior:
  assumes "(0::real) < x"
  shows "(if 20 < ln x then 95 / 100 else if ln x < - 20 then 5 / 100
      else clamp_float (1 / (1 + exp (- ln x))) (5 / 100) (95 / 100))
    = clamp_float (probability x) (5 / 100) (95 / 100)"
proof -
  have e: "1 / (1 + exp (- ln x)) = probability x"
    using assms by (simp add: exp_minus probability_def field_simps)
  have e20: "21 \<le> exp (20::real)" using exp_ge_add_one_self [of "20::real"] by simp
  have "95 / 100 < probability x" if "20 < ln x"
  proof -
    have "exp 20 < x" using that assms by (metis exp_less_mono exp_ln)
    then show ?thesis using e20 assms by (simp add: probability_def field_simps)
  qed
  moreover have "probability x < 5 / 100" if "ln x < - 20"
  proof -
    have "x < exp (- 20)" using that assms by (metis exp_less_mono exp_ln)
    also have "exp (- 20) \<le> 1 / (21::real)"
      using le_imp_inverse_le [OF e20] by (simp add: exp_minus inverse_eq_divide)
    finally show ?thesis using assms by (simp add: probability_def field_simps)
  qed
  ultimately show ?thesis by (auto simp: e clamp_float_def)
qed

lemma of_nat_nat_max: "real (nat k) = real_of_int (max k 0)"
  by (cases "0 \<le> k") (simp_all add: max_def)

text \<open>
  C27. The posterior is Bayes' rule on the clamped inputs: its odds are the prior odds times the odds of
  a supporting observation for each of them, divided by those of a contradicting one for each of those,
  and the cut-offs in log odds change nothing that the final clamp to [0.05, 0.95] would not.
\<close>

lemma bayesian_posterior_is_bayes:
  "bayesian_posterior p n m s c =
     clamp_float (probability (posterior_odds (clamp_float p (5 / 100) (95 / 100)) (nat n) (nat m)
        (clamp_float s (51 / 100) (95 / 100)) (clamp_float c (51 / 100) (95 / 100)))) (5 / 100) (95 / 100)"
proof -
  define p' where "p' = clamp_float p (5 / 100) (95 / 100)"
  define s' where "s' = clamp_float s (51 / 100) (95 / 100)"
  define c' where "c' = clamp_float c (51 / 100) (95 / 100)"
  define x where "x = posterior_odds p' (nat n) (nat m) s' c'"
  have b: "5 / 100 \<le> p'" "p' \<le> 95 / 100" "51 / 100 \<le> s'" "s' \<le> 95 / 100" "51 / 100 \<le> c'" "c' \<le> 95 / 100"
    unfolding p'_def s'_def c'_def by (rule clamp_float_bounds, simp)+
  then have pos: "0 < odds p'" "0 < odds s'" "0 < odds c'" by simp_all
  then have x: "0 < x" by (simp add: x_def posterior_odds_def)
  have "ln x = ln (odds p') + real (nat n) * ln (odds s') - real (nat m) * ln (odds c')"
    using pos by (simp add: x_def posterior_odds_def ln_mult ln_div ln_realpow)
  then have eq: "ln (p' / (1 - p')) + real_of_int (max n 0) * ln (s' / (1 - s'))
      - real_of_int (max m 0) * ln (c' / (1 - c')) = ln x"
    by (simp add: odds_def of_nat_nat_max)
  show ?thesis
    unfolding bayesian_posterior_def Let_def p'_def [symmetric] s'_def [symmetric] c'_def [symmetric] eq x_def [symmetric]
    by (rule clamp_posterior [OF x])
qed

lemma bayesian_posterior_range: "5 / 100 \<le> bayesian_posterior p n m s c \<and> bayesian_posterior p n m s c \<le> 95 / 100"
  by (simp add: bayesian_posterior_def Let_def clamp_float_def)

section \<open>Updates as maps over the ledger\<close>

definition ledger_ids :: "belief_state \<Rightarrow> bool" where
  "ledger_ids bs \<longleftrightarrow> wf_dict bs \<and> list_all (\<lambda>(i, b). bl_id b = i) bs"

abbreviation touch :: "int \<Rightarrow> belief \<Rightarrow> belief" where
  "touch now b \<equiv> b\<lparr>bl_updated_at := now\<rparr>"

definition map_beliefs :: "(string \<Rightarrow> belief \<Rightarrow> belief) \<Rightarrow> belief_state \<Rightarrow> belief_state" where
  "map_beliefs g bs = map (\<lambda>(i, b). (i, g i b)) bs"

lemma keys_map_beliefs [simp]: "map fst (map_beliefs g bs) = map fst bs"
  by (induction bs) (auto simp: map_beliefs_def)

lemma wf_map_beliefs [simp]: "wf_dict (map_beliefs g bs) = wf_dict bs"
  by (simp add: wf_dict_def)

lemma get_map_beliefs: "dict_get (map_beliefs g bs) i = map_option (g i) (dict_get bs i)"
  by (induction bs) (auto simp: map_beliefs_def)

lemma map_beliefs_compose: "map_beliefs g (map_beliefs h bs) = map_beliefs (\<lambda>i b. g i (h i b)) bs"
  by (simp add: map_beliefs_def case_prod_unfold comp_def)

lemma map_beliefs_cong:
  "(\<And>i b. (i, b) \<in> set bs \<Longrightarrow> g i b = h i b) \<Longrightarrow> map_beliefs g bs = map_beliefs h bs"
  by (auto simp: map_beliefs_def)

lemma map_beliefs_id: "(\<And>i b. (i, b) \<in> set bs \<Longrightarrow> g i b = b) \<Longrightarrow> map_beliefs g bs = bs"
  by (induction bs) (auto simp: map_beliefs_def)

lemma ledger_ids_map:
  "ledger_ids bs \<Longrightarrow> (\<And>i b. bl_id (g i b) = bl_id b) \<Longrightarrow> ledger_ids (map_beliefs g bs)"
  unfolding ledger_ids_def wf_map_beliefs by (auto simp: map_beliefs_def list_all_iff)

lemma update_belief_map:
  "wf_dict bs \<Longrightarrow> update_belief now i f bs = map_beliefs (\<lambda>j b. if j = i then touch now (f b) else b) bs"
proof -
  assume wf: "wf_dict bs"
  have upd: "dict_set i v d = map_beliefs (\<lambda>j b. if j = i then v else b) d" if "dict_get d i \<noteq> None" "wf_dict d"
    for v :: belief and d
    using that
  proof (induction d)
    case (Cons p d)
    obtain j b where p: "p = (j, b)" by (cases p)
    show ?case
    proof (cases "j = i")
      case True
      then have "i \<notin> fst ` set d" using Cons.prems(2) p by (simp add: wf_dict_def)
      then have "map_beliefs (\<lambda>j b. if j = i then v else b) d = d" by (intro map_beliefs_id) force
      then show ?thesis using True p by (simp add: map_beliefs_def)
    next
      case False
      then have "dict_set i v d = map_beliefs (\<lambda>j b. if j = i then v else b) d"
        using Cons p by (simp add: wf_dict_def)
      then show ?thesis using False p by (simp add: map_beliefs_def)
    qed
  qed simp
  show ?thesis
  proof (cases "dict_get bs i")
    case None
    then have "i \<notin> fst ` set bs" by (simp add: map_of_eq_None_iff)
    then show ?thesis using None by (auto simp: update_belief_def intro!: map_beliefs_id [symmetric]) force
  next
    case (Some b)
    then have "dict_set i (touch now (f b)) bs = map_beliefs (\<lambda>j x. if j = i then touch now (f b) else x) bs"
      using upd wf by simp
    also have "\<dots> = map_beliefs (\<lambda>j x. if j = i then touch now (f x) else x) bs"
      using Some wf by (intro map_beliefs_cong) (auto simp: wf_dict_def dest: map_of_SomeD eq_key_imp_eq_value)
    finally show ?thesis using Some by (simp add: update_belief_def)
  qed
qed

text \<open>Updating several beliefs with distinct ids.\<close>

lemma fold_update_belief:
  assumes "wf_dict bs" "distinct (map fst ups)"
  shows "fold (\<lambda>(i, f). update_belief now i f) ups bs
    = map_beliefs (\<lambda>i b. case map_of ups i of Some f \<Rightarrow> touch now (f b) | None \<Rightarrow> b) bs"
  using assms
proof (induction ups arbitrary: bs)
  case Nil
  then show ?case by (simp add: map_beliefs_id)
next
  case (Cons u ups)
  obtain i f where u: "u = (i, f)" by (cases u)
  have "map_of ups i = None" using Cons.prems(2) u by (simp add: map_of_eq_None_iff)
  then show ?case
    using Cons u
    by (simp add: update_belief_map map_beliefs_compose)
       (rule map_beliefs_cong, simp split: option.split)
qed

lemma fold_if_filter: "fold (\<lambda>x s. if P x then g x s else s) xs s = fold g (filter P xs) s"
  by (induction xs arbitrary: s) simp_all

lemma active_ids_distinct: "ledger_ids bs \<Longrightarrow> distinct (map bl_id (active_beliefs bs))"
proof -
  assume l: "ledger_ids bs"
  have "map bl_id (map snd bs) = map fst bs" using l by (induction bs) (auto simp: ledger_ids_def wf_dict_def)
  then have "distinct (map bl_id (map snd bs))" using l by (simp only: ledger_ids_def wf_dict_def)
  then show ?thesis unfolding active_beliefs_def by (rule distinct_map_filter)
qed

lemma ledger_ids_id: "ledger_ids bs \<Longrightarrow> (i, b) \<in> set bs \<Longrightarrow> bl_id b = i"
  by (auto simp: ledger_ids_def list_all_iff)

lemma ledger_ids_unique: "ledger_ids bs \<Longrightarrow> (i, b) \<in> set bs \<Longrightarrow> (i, c) \<in> set bs \<Longrightarrow> b = c"
  by (auto simp: ledger_ids_def wf_dict_def dest: eq_key_imp_eq_value)

lemma active_beliefs_mem:
  assumes "ledger_ids bs" "(i, b) \<in> set bs" "c \<in> set (active_beliefs bs)" "bl_id c = i"
  shows "c = b \<and> bl_status b = BeliefStatusActive"
proof -
  obtain j where j: "(j, c) \<in> set bs" "bl_status c = BeliefStatusActive"
    using assms(3) by (auto simp: active_beliefs_def)
  then have "j = i" using ledger_ids_id assms(1,4) by blast
  then show ?thesis using ledger_ids_unique assms(1,2) j by blast
qed

lemma active_beliefs_intro: "(i, b) \<in> set bs \<Longrightarrow> bl_status b = BeliefStatusActive \<Longrightarrow> b \<in> set (active_beliefs bs)"
  by (force simp: active_beliefs_def)

text \<open>The loops of the manager update each active belief that passes a test, by a function of itself.\<close>

lemma fold_update_active:
  assumes "ledger_ids bs"
  shows "fold (\<lambda>b. update_belief now (bl_id b) (g b)) (filter P (active_beliefs bs)) bs
    = map_beliefs (\<lambda>i b. if bl_status b = BeliefStatusActive \<and> P b then touch now (g b b) else b) bs"
proof -
  let ?xs = "filter P (active_beliefs bs)"
  let ?ups = "map (\<lambda>b. (bl_id b, g b)) ?xs"
  have d: "distinct (map fst ?ups)" using active_ids_distinct [OF assms] by (simp add: comp_def distinct_map_filter)
  have "fold (\<lambda>b. update_belief now (bl_id b) (g b)) ?xs bs = fold (\<lambda>(i, f). update_belief now i f) ?ups bs"
    by (simp add: fold_map comp_def)
  also have "\<dots> = map_beliefs (\<lambda>i b. case map_of ?ups i of Some f \<Rightarrow> touch now (f b) | None \<Rightarrow> b) bs"
    using assms d by (intro fold_update_belief) (simp_all add: ledger_ids_def)
  also have "\<dots> = map_beliefs (\<lambda>i b. if bl_status b = BeliefStatusActive \<and> P b then touch now (g b b) else b) bs"
  proof (rule map_beliefs_cong)
    fix i b
    assume ib: "(i, b) \<in> set bs"
    show "(case map_of ?ups i of Some f \<Rightarrow> touch now (f b) | None \<Rightarrow> b)
      = (if bl_status b = BeliefStatusActive \<and> P b then touch now (g b b) else b)"
    proof (cases "bl_status b = BeliefStatusActive \<and> P b")
      case True
      then have "b \<in> set ?xs" "bl_id b = i"
        using active_beliefs_intro [OF ib] ledger_ids_id [OF assms ib] by auto
      then have "map_of ?ups i = Some (g b)" using d by (intro map_of_is_SomeI) auto
      then show ?thesis using True by simp
    next
      case False
      have "i \<notin> fst ` set ?ups"
      proof
        assume "i \<in> fst ` set ?ups"
        then obtain c where "c \<in> set (active_beliefs bs)" "P c" "bl_id c = i" by auto
        then show False using active_beliefs_mem [OF assms ib] False by blast
      qed
      then have "map_of ?ups i = None" by (simp add: map_of_eq_None_iff)
      then show ?thesis using False by auto
    qed
  qed
  finally show ?thesis .
qed

text \<open>What the loops of the manager do to each belief.\<close>

lemma recalculate_confidence_map:
  "ledger_ids bs \<Longrightarrow> recalculate_confidence now evs bs
    = map_beliefs (\<lambda>i b. if bl_status b = BeliefStatusActive \<and> new_confidence evs b \<noteq> bl_confidence b
        then touch now (b\<lparr>bl_confidence := new_confidence evs b\<rparr>) else b) bs"
  unfolding recalculate_confidence_def fold_if_filter by (rule fold_update_active)

lemma triangulate_beliefs_map:
  assumes "ledger_ids bs"
  shows "triangulate_beliefs now papers bs
    = map_beliefs (\<lambda>i b. if bl_status b = BeliefStatusActive then touch now (triangulate_belief (papers_by_id papers) b) else b) bs"
  using fold_update_active [OF assms, of now "\<lambda>b. triangulate_belief (papers_by_id papers)" "\<lambda>_. True"]
  by (simp add: triangulate_beliefs_def)

lemma fold_pair_ids: "fold (\<lambda>b (s, ids). (g b s, ids @ [h b])) xs (s, ids) = (fold g xs s, ids @ map h xs)"
  by (induction xs arbitrary: s ids) simp_all

lemma fold_const_id: "fold (\<lambda>b. id) xs r = r"
  by (induction xs) simp_all

lemma fold_same: "fold (\<lambda>b (s, ids). (s, ids)) xs r = r"
  by (induction xs) simp_all

lemma refute_beliefs_map:
  assumes "ledger_ids bs"
  shows "refute_beliefs_contradicted_by_evidence now evs t bs =
    (if contradicts evs (if t \<le> 0 then 7 / 10 else t)
     then (map_beliefs (\<lambda>i b. if bl_status b = BeliefStatusActive then touch now (b\<lparr>bl_status := BeliefStatusRefuted\<rparr>) else b) bs,
           map bl_id (active_beliefs bs))
     else (bs, []))"
proof (cases "contradicts evs (if t \<le> 0 then 7 / 10 else t)")
  case True
  have "refute_belief now i = update_belief now i (\<lambda>b. b\<lparr>bl_status := BeliefStatusRefuted\<rparr>)" for i
    by (rule ext) (simp add: refute_belief_def)
  then show ?thesis using True
      fold_pair_ids [of "\<lambda>b. refute_belief now (bl_id b)" bl_id "active_beliefs bs" bs "[]"]
      fold_update_active [OF assms, of now "\<lambda>b x. x\<lparr>bl_status := BeliefStatusRefuted\<rparr>" "\<lambda>_. True"]
    by (simp add: refute_beliefs_contradicted_by_evidence_def Let_def del: fold_simps)
next
  case False
  then show ?thesis
    by (simp add: refute_beliefs_contradicted_by_evidence_def Let_def fold_same fold_const_id)
qed

section \<open>Contradicting evidence refutes nothing\<close>

lemma average_le: "xs \<noteq> [] \<Longrightarrow> list_all (\<lambda>x. x \<le> u) xs \<Longrightarrow> average xs \<le> u"
proof -
  assume xs: "xs \<noteq> []" "list_all (\<lambda>x. x \<le> u) xs"
  have "sum_list xs \<le> real (length xs) * u"
    using xs(2) by (induction xs) (auto simp: algebra_simps)
  then show ?thesis using xs(1) by (simp add: average_def divide_le_eq mult.commute)
qed

lemma average_ge: "xs \<noteq> [] \<Longrightarrow> list_all (\<lambda>x. l \<le> x) xs \<Longrightarrow> l \<le> average xs"
proof -
  assume xs: "xs \<noteq> []" "list_all (\<lambda>x. l \<le> x) xs"
  have "real (length xs) * l \<le> sum_list xs"
    using xs(2) by (induction xs) (auto simp: algebra_simps)
  then show ?thesis using xs(1) by (simp add: average_def le_divide_eq mult.commute)
qed

text \<open>
  Contradicting evidence refutes nothing. The score of a contradicting finding is what its
  confidence lacks to 0.3, so the average is at most 0.3, below the default threshold of 0.7 and the 0.7
  the loop passes: whatever evidence arrives, with whatever non-negative confidences, no belief is ever
  refuted and no reconciliation query is ever queued.
\<close>

lemma contradiction_never_refutes:
  assumes "ledger_ids bs" "list_all (\<lambda>ev. 0 \<le> ef_confidence ev) evs" "t \<le> 0 \<or> 3 / 10 < t"
  shows "refute_beliefs_contradicted_by_evidence now evs t bs = (bs, [])"
proof -
  have "list_all (\<lambda>x. x \<le> 3 / 10) (contradiction_scores evs)"
    using assms(2) by (auto simp: contradiction_scores_def list_all_iff)
  then have "\<not> contradicts evs (if t \<le> 0 then 7 / 10 else t)"
    using average_le [of "contradiction_scores evs" "3 / 10"] assms(3) by (auto simp: contradicts_def)
  then show ?thesis using refute_beliefs_map [OF assms(1)] by simp
qed

definition example_belief :: belief where
  "example_belief = \<lparr>bl_id = ''b'', bl_claim = ''Coffee cures colds'', bl_confidence = 1 / 2, bl_supporting = [''finding_1''],
     bl_contradicting = [], bl_provenance = [], bl_source_families = [], bl_triangulated = False,
     bl_status = BeliefStatusActive, bl_created_at = 0, bl_updated_at = 0, bl_revised_from = [], bl_superseded_by = []\<rparr>"

definition example_finding :: "string \<Rightarrow> real \<Rightarrow> evidence_finding" where
  "example_finding i c = \<lparr>ef_id = i, ef_claim = ''Coffee does not cure colds'', ef_source_id = i, ef_paper_title = [],
     ef_snippet = [], ef_year = 2024, ef_confidence = c, ef_status = []\<rparr>"

lemma contradiction_never_refutes_witness:
  "contradiction_scores [example_finding ''x'' 0, example_finding ''y'' 0] = [3 / 10, 3 / 10]
   \<and> refute_beliefs_contradicted_by_evidence 9 [example_finding ''x'' 0, example_finding ''y'' 0] (7 / 10) [(''b'', example_belief)]
       = ([(''b'', example_belief)], [])"
  using contradiction_never_refutes [of "[(''b'', example_belief)]" "[example_finding ''x'' 0, example_finding ''y'' 0]" "7 / 10" 9]
  by (simp add: ledger_ids_def wf_dict_def example_belief_def example_finding_def contradiction_scores_def)

section \<open>Triangulation never happens\<close>

lemma split_char_none: "c \<notin> set s \<Longrightarrow> split_char c s = [s]"
  by (induction s) auto

lemma source_id_of_plain: "CHR '':'' \<notin> set s \<Longrightarrow> source_id_of s = s"
  by (simp add: source_id_of_def split_char_none)

lemma hex_digit_no_colon: "hex_digit n \<noteq> CHR '':''"
proof
  assume "hex_digit n = CHR '':''"
  then have "(of_char (hex_digit n) :: nat) = of_char (CHR '':'')" by simp
  moreover have "n mod 16 < 16" by simp
  ultimately show False by (auto simp: hex_digit_def split: if_splits)
qed

lemma stable_id_no_colon: "CHR '':'' \<notin> set pre \<Longrightarrow> CHR '':'' \<notin> set (stable_wisdev_id digest pre parts)"
  using hex_digit_no_colon hex_digit_no_colon [symmetric] by (auto simp: stable_wisdev_id_def hex_encode_def)

lemma papers_by_id_keys: "dict_get (papers_by_id ps) i \<noteq> None \<Longrightarrow> i \<in> p_id ` set ps"
proof -
  have "dict_get (fold (\<lambda>p d. dict_set (p_id p) p d) ps d) i \<noteq> None \<Longrightarrow> i \<in> p_id ` set ps \<or> dict_get d i \<noteq> None" for d
    by (induction ps arbitrary: d) (force simp: dict_get_set split: if_splits)+
  then show "dict_get (papers_by_id ps) i \<noteq> None \<Longrightarrow> i \<in> p_id ` set ps" by (force simp: papers_by_id_def)
qed

text \<open>
  Triangulation never happens. It looks for the source of a finding after a colon in the finding's
  id, but the ids the program makes are a name, an underscore and hexadecimal digits, without a colon,
  so the whole id is looked up as if it were a paper's. A belief whose support consists of such findings
  ends up with no source family, unpromoted and unmarked - even if an operator had approved it.
\<close>

lemma triangulation_never_promotes:
  assumes "ledger_ids bs" "dict_get bs i = Some b" "bl_status b = BeliefStatusActive"
    and "\<And>ev. ev \<in> set (bl_supporting b) \<Longrightarrow> \<exists>pre parts. CHR '':'' \<notin> set pre \<and> ev = stable_wisdev_id digest pre parts"
    and "set (bl_supporting b) \<inter> p_id ` set papers = {}"
  shows "dict_get (triangulate_beliefs now papers bs) i
    = Some (b\<lparr>bl_source_families := [], bl_triangulated := False, bl_updated_at := now\<rparr>)"
proof -
  have "dict_get (papers_by_id papers) (source_id_of ev) = None" if "ev \<in> set (bl_supporting b)" for ev
  proof -
    have "source_id_of ev = ev" using assms(4) [OF that] stable_id_no_colon source_id_of_plain by metis
    then show ?thesis using papers_by_id_keys [of papers ev] assms(5) that by auto
  qed
  then have "List.map_filter (\<lambda>ev. dict_get (papers_by_id papers) (source_id_of ev)) (bl_supporting b) = []"
    by (simp add: map_filter_def filter_empty_conv)
  then have "triangulate_belief (papers_by_id papers) b = b\<lparr>bl_source_families := [], bl_triangulated := False\<rparr>"
    by (simp add: triangulate_belief_def belief_families_def Let_def)
  then show ?thesis
    using assms(2,3) by (simp add: triangulate_beliefs_map [OF assms(1)] get_map_beliefs)
qed

lemma triangulation_never_promotes_witness:
  "dict_get (triangulate_beliefs 9 [zero_paper\<lparr>p_id := ''p1'', p_source := ''arxiv''\<rparr>, zero_paper\<lparr>p_id := ''p2'', p_source := ''pubmed''\<rparr>]
       [(''b'', example_belief\<lparr>bl_supporting := [stable_wisdev_id (\<lambda>_. [1, 2]) ''finding'' [''p1'', ''x''],
            stable_wisdev_id (\<lambda>_. [3, 4]) ''finding'' [''p2'', ''y'']], bl_triangulated := True\<rparr>)]) ''b''
   = Some (example_belief\<lparr>bl_supporting := [stable_wisdev_id (\<lambda>_. [1, 2]) ''finding'' [''p1'', ''x''],
            stable_wisdev_id (\<lambda>_. [3, 4]) ''finding'' [''p2'', ''y'']], bl_triangulated := False, bl_updated_at := 9\<rparr>)"
proof -
  let ?s = "[stable_wisdev_id (\<lambda>_. [1, 2]) ''finding'' [''p1'', ''x''], stable_wisdev_id (\<lambda>_. [3, 4]) ''finding'' [''p2'', ''y'']]"
  let ?b = "example_belief\<lparr>bl_supporting := ?s, bl_triangulated := True\<rparr>"
  let ?ps = "[zero_paper\<lparr>p_id := ''p1'', p_source := ''arxiv''\<rparr>, zero_paper\<lparr>p_id := ''p2'', p_source := ''pubmed''\<rparr>]"
  have s: "?s = [stable_wisdev_id (\<lambda>s. if s = ''p1|x'' then [1, 2] else [3, 4]) ''finding'' [''p1'', ''x''],
      stable_wisdev_id (\<lambda>s. if s = ''p1|x'' then [1, 2] else [3, 4]) ''finding'' [''p2'', ''y'']]"
    by code_simp
  have "dict_get (triangulate_beliefs 9 ?ps [(''b'', ?b)]) ''b''
    = Some (?b\<lparr>bl_source_families := [], bl_triangulated := False, bl_updated_at := 9\<rparr>)"
  proof (rule triangulation_never_promotes)
    show "\<exists>pre parts. CHR '':'' \<notin> set pre
        \<and> ev = stable_wisdev_id (\<lambda>s. if s = ''p1|x'' then [1, 2] else [3, 4]) pre parts"
      if "ev \<in> set (bl_supporting ?b)" for ev
    proof -
      have "CHR '':'' \<notin> set ''finding''" by simp
      moreover have "\<exists>parts. ev = stable_wisdev_id (\<lambda>s. if s = ''p1|x'' then [1, 2] else [3, 4]) ''finding'' parts"
        using that unfolding s by auto
      ultimately show ?thesis by blast
    qed
    have "set ?s \<inter> {''p1'', ''p2''} = {}" by code_simp
    then show "set (bl_supporting ?b) \<inter> p_id ` set ?ps = {}" by (simp del: disjoint_insert)
  qed (simp_all add: ledger_ids_def wf_dict_def example_belief_def)
  then show ?thesis by (simp add: example_belief_def)
qed

end
