(* ===== verification/BeliefControl.thy ===== *)
theory BeliefControl
  imports Beliefs SteeringBus
begin

text \<open>
  How beliefs steer the research loop: when new evidence saturates, whether the loop goes on and with
  what strategy, which pending queries are obsolete, and what an operator's signal does to queries and
  beliefs (\<open>orchestrator/internal/wisdev/belief_state.go\<close>, \<open>autonomous.go\<close>, \<open>steering.go\<close>).
\<close>

section \<open>Words of a text\<close>

text \<open>Bytes above 127 belong to letters of other scripts and stay in the words.\<close>

definition token_char :: "char \<Rightarrow> char" where
  "token_char c = (let n = of_char c :: nat in
     if (48 \<le> n \<and> n \<le> 57) \<or> (65 \<le> n \<and> n \<le> 90) \<or> (97 \<le> n \<and> n \<le> 122) \<or> 128 \<le> n then lower_char c else CHR '' '')"

definition loop_evidence_stopwords :: "string list" where
  "loop_evidence_stopwords =
     [''and'', ''are'', ''for'', ''from'', ''into'', ''its'', ''not'', ''that'', ''the'', ''their'', ''these'',
      ''this'', ''with'']"

definition loop_evidence_tokens :: "string \<Rightarrow> string list" where
  "loop_evidence_tokens value =
     filter (\<lambda>t. 2 < length t \<and> t \<notin> set loop_evidence_stopwords) (str_fields (map token_char value))"

definition loop_evidence_token_set :: "string list \<Rightarrow> string list" where
  "loop_evidence_token_set values = remdups (concat (map loop_evidence_tokens values))"

definition token_set_jaccard :: "string list \<Rightarrow> string list \<Rightarrow> real" where
  "token_set_jaccard a b =
     (if a = [] \<and> b = [] then 1
      else (let inter = length (filter (\<lambda>t. t \<in> set b) a); union = int (length a) + int (length b) - int inter
            in if union \<le> 0 then 0 else real inter / real_of_int union))"

definition evidence_finding_token_set :: "evidence_finding \<Rightarrow> string list" where
  "evidence_finding_token_set ev = loop_evidence_token_set [ef_claim ev, ef_snippet ev, ef_paper_title ev, ef_source_id ev]"

section \<open>Saturation\<close>

text \<open>One finding goes into the first cluster whose first element is similar; the loop stops there.\<close>

fun place_finding ::
  "evidence_finding \<Rightarrow> real \<Rightarrow> evidence_finding list list \<Rightarrow> evidence_finding list list \<times> real \<times> bool" where
  "place_finding ev nearest [] = ([], nearest, False)"
| "place_finding ev nearest (c # cs) =
     (let s = token_set_jaccard (evidence_finding_token_set ev) (evidence_finding_token_set (hd c));
          nearest = (if nearest < s then s else nearest)
      in if 62 / 100 \<le> s then ((c @ [ev]) # cs, nearest, True)
         else (let (cs', n, placed) = place_finding ev nearest cs in (c # cs', n, placed)))"

record saturation_state =
  ss_clusters :: "evidence_finding list list"
  ss_nearest :: real
  ss_novel_evidence :: nat
  ss_novel_sources :: nat
  ss_seen_sources :: "string list"

text \<open>\<open>prior_sources\<close> is declared and read by the code, but nothing ever puts a source into it.\<close>

definition prior_evidence :: "belief_state \<Rightarrow> string list" where
  "prior_evidence bs = concat (map (\<lambda>(_, b). trimmed (bl_supporting b) @ trimmed (bl_contradicting b)) bs)"

definition prior_sources :: "belief_state \<Rightarrow> string list" where
  "prior_sources bs = []"

definition saturation_step :: "belief_state \<Rightarrow> evidence_finding \<Rightarrow> saturation_state \<Rightarrow> saturation_state" where
  "saturation_step bs ev s =
     (let novel = (\<not> blank (ef_id ev) \<and> trim_space (ef_id ev) \<notin> set (prior_evidence bs));
          src = trim_space (ef_source_id ev);
          new_src = (src \<noteq> [] \<and> src \<notin> set (prior_sources bs) \<and> src \<notin> set (ss_seen_sources s));
          (cs, nearest, placed) = place_finding ev 0 (ss_clusters s)
      in \<lparr>ss_clusters = (if placed then cs else cs @ [[ev]]), ss_nearest = ss_nearest s + nearest,
          ss_novel_evidence = ss_novel_evidence s + (if novel then 1 else 0),
          ss_novel_sources = ss_novel_sources s + (if new_src then 1 else 0),
          ss_seen_sources = (if new_src then src # ss_seen_sources s else ss_seen_sources s)\<rparr>)"

definition saturation_start :: saturation_state where
  "saturation_start = \<lparr>ss_clusters = [], ss_nearest = 0, ss_novel_evidence = 0, ss_novel_sources = 0, ss_seen_sources = []\<rparr>"

record saturation_result =
  sr_is_saturated :: bool
  sr_saturation_ratio :: real
  sr_diversity_score :: real
  sr_information_gain :: real
  sr_recommendation :: string

definition detect_evidence_saturation :: "evidence_finding list \<Rightarrow> belief_state \<Rightarrow> saturation_result" where
  "detect_evidence_saturation evs bs =
     (if bs = []
      then \<lparr>sr_is_saturated = False, sr_saturation_ratio = 0, sr_diversity_score = 0, sr_information_gain = 0,
            sr_recommendation = ''continue''\<rparr>
      else
        (let s = fold (saturation_step bs) evs saturation_start;
             n = real (length evs);
             diversity = (if evs \<noteq> [] then real (length (ss_clusters s)) / n else 1);
             nearest = (if evs \<noteq> [] then ss_nearest s / n else 0);
             gain = (if evs \<noteq> []
                     then clamp_float ((real (ss_novel_evidence s) + real (ss_novel_sources s)) / (2 * n)) 0 1 else 0);
             saturated = (5 \<le> length evs \<and> 72 / 100 \<le> nearest \<and> gain \<le> 2 / 10)
         in \<lparr>sr_is_saturated = saturated, sr_saturation_ratio = clamp_float (nearest * (1 - gain)) 0 1,
             sr_diversity_score = diversity, sr_information_gain = gain,
             sr_recommendation = (if saturated then ''reasoning-only''
               else if diversity < 35 / 100 \<or> gain < 25 / 100 then ''expand-diversity'' else ''continue'')\<rparr>))"

section \<open>Whether to go on\<close>

record loop_decision =
  ld_should_continue :: bool
  ld_reason :: string
  ld_targets :: "string list"
  ld_strategy :: string

definition decision :: "bool \<Rightarrow> string \<Rightarrow> string list \<Rightarrow> string \<Rightarrow> loop_decision" where
  "decision c r ts st = \<lparr>ld_should_continue = c, ld_reason = r, ld_targets = ts, ld_strategy = st\<rparr>"

definition active_belief_ids_by_confidence :: "belief list \<Rightarrow> nat \<Rightarrow> string list" where
  "active_belief_ids_by_confidence bs limit =
     (if limit = 0 then []
      else map (trim_space \<circ> bl_id) (take limit (sort_key (\<lambda>b. (bl_confidence b, trim_space (bl_id b)))
             (filter (\<lambda>b. bl_status b = BeliefStatusActive \<and> \<not> blank (bl_id b)) bs))))"

text \<open>\<open>bs\<close> is the ledger of the loop's belief manager, \<open>None\<close> without one.\<close>

definition belief_driven_continuation :: "belief_state option \<Rightarrow> int \<Rightarrow> int \<Rightarrow> loop_decision" where
  "belief_driven_continuation bs budget used =
     (let exhausted = (0 < budget \<and> budget \<le> used);
          active = (case bs of None \<Rightarrow> [] | Some l \<Rightarrow> active_beliefs l);
          ledger = (case bs of None \<Rightarrow> [] | Some l \<Rightarrow> l)
      in if active = []
         then (if exhausted then decision False ''search budget exhausted before beliefs formed'' [] []
               else decision True ''initial belief discovery'' [] ''breadth'')
         else
           (let avg = average (map bl_confidence active);
                contradicted = map bl_id (filter (\<lambda>b. bl_contradicting b \<noteq> []) active);
                pressure = get_contradiction_pressure ledger
            in if list_all (\<lambda>b. 3 / 4 \<le> bl_confidence b) active \<and> pressure < 2 / 10
               then decision False ''belief convergence'' [] []
               else if 1 / 2 < pressure
               then (if exhausted
                     then decision False ''search budget exhausted before contradiction resolved'' contradicted ''reconciliation''
                     else decision True ''high contradiction'' contradicted ''reconciliation'')
               else (let uncertain = get_uncertain_beliefs (4 / 10) ledger in
                     if uncertain \<noteq> []
                     then (if exhausted then decision False ''search budget exhausted with uncertain beliefs'' [] ''focus''
                           else decision True ''focus on uncertain beliefs''
                                  (active_belief_ids_by_confidence uncertain 4) ''focus'')
                     else if exhausted then decision False ''search budget exhausted after belief review'' [] []
                     else if 1 / 2 \<le> avg \<and> avg < 3 / 4
                     then decision True ''moderate confidence requires falsification''
                            (active_belief_ids_by_confidence active 4) ''falsification''
                     else decision True ''default continuation'' [] ''breadth'')))"

definition should_converge_by_belief_state :: "belief_state option \<Rightarrow> bool" where
  "should_converge_by_belief_state bs =
     (case bs of None \<Rightarrow> False
      | Some l \<Rightarrow> 3 \<le> length (active_beliefs l) \<and> list_all (\<lambda>b. 3 / 4 \<le> bl_confidence b) (active_beliefs l))"

section \<open>Obsolete queries\<close>

definition settled :: "belief \<Rightarrow> bool" where
  "settled b \<longleftrightarrow> bl_status b = BeliefStatusRefuted \<or> (bl_triangulated b \<and> 9 / 10 < bl_confidence b)"

definition prune_obsolete_queries :: "belief_state \<Rightarrow> string list \<Rightarrow> string list" where
  "prune_obsolete_queries bs pending =
     filter (\<lambda>q. \<not> list_ex (\<lambda>(_, b). settled b \<and> contains (to_lower q) (to_lower (bl_claim b))) bs) pending"

section \<open>Steering signals\<close>

definition contains_normalized_loop_query :: "string list \<Rightarrow> string \<Rightarrow> bool" where
  "contains_normalized_loop_query qs q \<longleftrightarrow>
     (let key = to_lower (trim_space q) in key \<noteq> [] \<and> list_ex (\<lambda>c. to_lower (trim_space c) = key) qs)"

definition matches_payload :: "steering_signal \<Rightarrow> belief \<Rightarrow> bool" where
  "matches_payload sig b \<longleftrightarrow> contains (to_lower (bl_claim b)) (to_lower (trim_space (sg_payload sig)))"

definition approve_beliefs :: "steering_signal \<Rightarrow> belief_state \<Rightarrow> belief_state" where
  "approve_beliefs sig bs = map (\<lambda>(bid, b). (bid, if matches_payload sig b
     then b\<lparr>bl_confidence := 1, bl_status := BeliefStatusActive, bl_triangulated := True\<rparr> else b)) bs"

definition reject_beliefs :: "steering_signal \<Rightarrow> belief_state \<Rightarrow> belief_state" where
  "reject_beliefs sig bs = map (\<lambda>(bid, b). (bid, if matches_payload sig b
     then b\<lparr>bl_confidence := 0, bl_status := BeliefStatusRefuted\<rparr> else b)) bs"

definition apply_steering_signal ::
  "steering_signal \<Rightarrow> string list \<Rightarrow> string list \<Rightarrow> belief_state option \<Rightarrow> string list \<times> belief_state option" where
  "apply_steering_signal sig executed pending bs =
     (if sg_type sig = ''redirect'' then (trimmed (sg_queries sig), bs)
      else if sg_type sig = ''focus''
      then (filter (\<lambda>q. \<not> contains_normalized_loop_query executed q) (trimmed (sg_queries sig)) @ pending, bs)
      else if sg_type sig = ''exclude''
      then (filter (\<lambda>q. \<not> list_ex (\<lambda>t. contains (to_lower q) (to_lower (trim_space t))) (sg_queries sig)) pending, bs)
      else if sg_type sig = ''approve'' then (pending, map_option (approve_beliefs sig) bs)
      else if sg_type sig = ''reject'' then (pending, map_option (reject_beliefs sig) bs)
      else (pending, bs))"

section \<open>When the loop goes on\<close>

definition budget_exhausted :: "int \<Rightarrow> int \<Rightarrow> bool" where
  "budget_exhausted budget used \<longleftrightarrow> 0 < budget \<and> budget \<le> used"

definition converged_ledger :: "belief_state option \<Rightarrow> bool" where
  "converged_ledger bs \<longleftrightarrow>
     (case bs of None \<Rightarrow> False
      | Some l \<Rightarrow> active_beliefs l \<noteq> [] \<and> list_all (\<lambda>b. 3 / 4 \<le> bl_confidence b) (active_beliefs l)
                   \<and> get_contradiction_pressure l < 2 / 10)"

text \<open>
  The decision to go on is exact: the loop stops if and only if the budget of search terms is used up
  or the beliefs have converged, all of them confident and less than a fifth of them contradicted. Its
  reason is \<open>belief convergence\<close> in the second case and in no other.
\<close>

lemma continuation_exact:
  "(ld_should_continue (belief_driven_continuation bs budget used)
      \<longleftrightarrow> \<not> budget_exhausted budget used \<and> \<not> converged_ledger bs)
   \<and> (ld_reason (belief_driven_continuation bs budget used) = ''belief convergence'' \<longleftrightarrow> converged_ledger bs)"
  by (cases bs)
     (simp_all add: belief_driven_continuation_def Let_def decision_def budget_exhausted_def converged_ledger_def)

lemma convergence_by_ledger:
  "should_converge_by_belief_state bs \<Longrightarrow> get_contradiction_pressure (the bs) < 2 / 10 \<Longrightarrow> converged_ledger bs"
  by (auto simp: should_converge_by_belief_state_def converged_ledger_def split: option.splits)

section \<open>New evidence does not saturate\<close>

lemma saturation_run_evidence:
  assumes "list_all (\<lambda>ev. \<not> blank (ef_id ev) \<and> trim_space (ef_id ev) \<notin> set (prior_evidence bs)) evs"
  shows "ss_novel_evidence (fold (saturation_step bs) evs s) = ss_novel_evidence s + length evs"
  using assms by (induction evs arbitrary: s) (auto simp: saturation_step_def Let_def split: prod.splits)

lemma saturation_run_sources:
  assumes "distinct (map (trim_space \<circ> ef_source_id) evs)" "list_all (\<lambda>ev. \<not> blank (ef_source_id ev)) evs"
    and "set (map (trim_space \<circ> ef_source_id) evs) \<inter> set (ss_seen_sources s) = {}"
  shows "ss_novel_sources (fold (saturation_step bs) evs s) = ss_novel_sources s + length evs"
  using assms
proof (induction evs arbitrary: s)
  case (Cons ev evs)
  define s' where "s' = saturation_step bs ev s"
  have "ss_novel_sources s' = Suc (ss_novel_sources s)"
    "ss_seen_sources s' = trim_space (ef_source_id ev) # ss_seen_sources s"
    using Cons.prems by (simp_all add: s'_def saturation_step_def Let_def prior_sources_def split: prod.split)
  moreover have "ss_novel_sources (fold (saturation_step bs) evs s') = ss_novel_sources s' + length evs"
    using Cons.prems calculation(2) by (intro Cons.IH) auto
  ultimately show ?case by (simp add: s'_def)
qed simp

lemma saturated_gain:
  assumes "sr_is_saturated (detect_evidence_saturation evs bs)"
  shows "10 * (ss_novel_evidence (fold (saturation_step bs) evs saturation_start)
      + ss_novel_sources (fold (saturation_step bs) evs saturation_start)) \<le> 4 * length evs"
proof -
  define k where "k = real (ss_novel_evidence (fold (saturation_step bs) evs saturation_start)
      + ss_novel_sources (fold (saturation_step bs) evs saturation_start))"
  have n: "evs \<noteq> []" and g: "clamp_float (k / (2 * real (length evs))) 0 1 \<le> 2 / 10"
    using assms by (auto simp: detect_evidence_saturation_def Let_def k_def split: if_splits)
  have "k / (2 * real (length evs)) \<le> 2 / 10"
    using g by (simp add: clamp_float_def split: if_splits)
  then have "10 * k \<le> 4 * real (length evs)" using n by (simp add: field_simps)
  then show ?thesis by (simp add: k_def)
qed

lemma gain_too_small: "l \<le> k \<Longrightarrow> 5 \<le> l \<Longrightarrow> 10 * k \<le> 4 * l \<Longrightarrow> False" for k l :: nat
  by linarith

text \<open>
  A batch of findings that are all new, or that come from pairwise different sources, is never
  judged saturated, whatever the beliefs know already. In the loop both hold for every batch: its
  findings have ids of their own kind, and the set of known sources is never filled. So saturation never
  stops the loop.
\<close>

lemma new_findings_never_saturate:
  assumes "list_all (\<lambda>ev. \<not> blank (ef_id ev) \<and> trim_space (ef_id ev) \<notin> set (prior_evidence bs)) evs
    \<or> (distinct (map (trim_space \<circ> ef_source_id) evs) \<and> list_all (\<lambda>ev. \<not> blank (ef_source_id ev)) evs)"
  shows "\<not> sr_is_saturated (detect_evidence_saturation evs bs)"
proof
  assume s: "sr_is_saturated (detect_evidence_saturation evs bs)"
  have "length evs \<le> ss_novel_evidence (fold (saturation_step bs) evs saturation_start)
      + ss_novel_sources (fold (saturation_step bs) evs saturation_start)"
    using assms saturation_run_evidence [of bs evs saturation_start] saturation_run_sources [of evs saturation_start bs]
    by (auto simp: saturation_start_def)
  moreover have "5 \<le> length evs"
    using s by (auto simp: detect_evidence_saturation_def Let_def split: if_splits)
  ultimately show False using gain_too_small saturated_gain [OF s] by blast
qed

definition repeated_findings :: "evidence_finding list" where
  "repeated_findings = map (\<lambda>i. (example_finding ''finding_1'' (1 / 2))\<lparr>ef_source_id := i\<rparr>) [''p1'', ''p2'', ''p3'', ''p4'', ''p5'']"

lemma new_findings_never_saturate_witness:
  "list_all (\<lambda>ev. ef_id ev \<in> set (prior_evidence [(''b'', example_belief)])) repeated_findings
   \<and> \<not> sr_is_saturated (detect_evidence_saturation repeated_findings [(''b'', example_belief)])"
proof
  show "list_all (\<lambda>ev. ef_id ev \<in> set (prior_evidence [(''b'', example_belief)])) repeated_findings" by code_simp
  show "\<not> sr_is_saturated (detect_evidence_saturation repeated_findings [(''b'', example_belief)])"
  proof (rule new_findings_never_saturate)
    show "list_all (\<lambda>ev. \<not> blank (ef_id ev) \<and> trim_space (ef_id ev) \<notin> set (prior_evidence [(''b'', example_belief)])) repeated_findings
      \<or> (distinct (map (trim_space \<circ> ef_source_id) repeated_findings)
          \<and> list_all (\<lambda>ev. \<not> blank (ef_source_id ev)) repeated_findings)"
      by code_simp
  qed
qed

section \<open>A blank approval\<close>

lemma contains_Nil [simp]: "contains s []"
  by (cases s) simp_all

text \<open>
  An approval without a payload approves everything: the HTTP endpoint accepts it, and applied it makes
  every belief, the refuted ones included, active, triangulated and fully confident. With three beliefs
  the loop then takes its research to have converged.
\<close>

definition settle :: "belief \<Rightarrow> belief" where
  "settle b = b\<lparr>bl_confidence := 1, bl_status := BeliefStatusActive, bl_triangulated := True\<rparr>"

lemma accept_result:
  "snd r \<noteq> None \<Longrightarrow> snd (case r of (b, None) \<Rightarrow> (b, None) | (b, Some (d, n)) \<Rightarrow> (b, Some (d, f d))) \<noteq> None"
  by (cases r; cases "snd r") auto

lemma blank_approval_settles_everything:
  assumes "\<not> blank session" "resolve_authorized_user_id user [] = Some uid" "trim_space owner = uid"
    and "blank payload" "3 \<le> length bs"
  shows "snd (accept_steering_signal now user (Some owner) session ''approve'' payload queries b) \<noteq> None
    \<and> apply_steering_signal \<lparr>sg_type = ''approve'', sg_payload = trim_space payload,
          sg_queries = normalize_string_slice queries, sg_timestamp = now\<rparr> executed pending (Some bs)
        = (pending, Some (map_beliefs (\<lambda>_. settle) bs))
    \<and> should_converge_by_belief_state (Some (map_beliefs (\<lambda>_. settle) bs))"
proof (intro conjI)
  have t: "to_lower (trim_space ''approve'') = ''approve''" "''approve'' \<in> set steering_types" by code_simp+
  have "uid \<noteq> []" using assms(2) by (auto simp: resolve_authorized_user_id_def Let_def split: if_splits)
  then have a: "authorize_steering_signal user (Some owner) (trim_space session) = Some uid"
    using assms(1-3) by (simp add: authorize_steering_signal_def)
  have "snd (queue_steering_signal now (trim_space session) sig b) \<noteq> None" for sig
    using assms(1) by (auto simp: queue_steering_signal_def Let_def split: option.splits)
  then show "snd (accept_steering_signal now user (Some owner) session ''approve'' payload queries b) \<noteq> None"
    unfolding accept_steering_signal_def Let_def t(1) a
    by (simp only: t(2) simp_thms if_False option.case) (rule accept_result)
  show "apply_steering_signal \<lparr>sg_type = ''approve'', sg_payload = trim_space payload,
          sg_queries = normalize_string_slice queries, sg_timestamp = now\<rparr> executed pending (Some bs)
        = (pending, Some (map_beliefs (\<lambda>_. settle) bs))"
    using assms(4) by (simp add: apply_steering_signal_def approve_beliefs_def matches_payload_def map_beliefs_def settle_def)
  have "active_beliefs (map_beliefs (\<lambda>_. settle) bs) = map (settle \<circ> snd) bs"
    by (simp add: active_beliefs_def map_beliefs_def settle_def case_prod_unfold comp_def)
  then show "should_converge_by_belief_state (Some (map_beliefs (\<lambda>_. settle) bs))"
    using assms(5) by (simp add: should_converge_by_belief_state_def list_all_iff settle_def)
qed

lemma blank_approval_settles_everything_witness:
  "should_converge_by_belief_state (Some (map_beliefs (\<lambda>_. settle) (map (\<lambda>i. (i, example_belief\<lparr>bl_id := i, bl_confidence := 0,
     bl_status := BeliefStatusRefuted\<rparr>)) [''a'', ''b'', ''c''])))"
proof -
  have "\<not> blank ''s''" "resolve_authorized_user_id ''u'' [] = Some ''u''" "trim_space ''u'' = ''u''" "blank '' ''"
    by code_simp+
  then show ?thesis
    using blank_approval_settles_everything [of "''s''" "''u''" "''u''" "''u''" "'' ''"
        "map (\<lambda>i. (i, example_belief\<lparr>bl_id := i, bl_confidence := 0, bl_status := BeliefStatusRefuted\<rparr>)) [''a'', ''b'', ''c'']"]
    by simp
qed

section \<open>The ledger's invariant\<close>

text \<open>Everything the loop and its operators do to the ledger.\<close>

datatype belief_event =
    HypothesesBuilt int "hypothesis list" "evidence_finding list" "coverage_ledger_entry list option" string
  | EvidenceAdded int string "evidence_finding list" string string
  | ConfidenceRecalculated int "evidence_finding dict"
  | Triangulated int "paper list"
  | EvidenceRefuted int "evidence_finding list" real
  | HypothesesRetired int "hypothesis list"
  | BeliefRevised int string belief
  | Steered steering_signal

fun belief_exec :: "(string \<Rightarrow> nat list) \<Rightarrow> belief_event \<Rightarrow> belief_state \<Rightarrow> belief_state" where
  "belief_exec digest (HypothesesBuilt now hs evs gap q) bs = build_beliefs_from_hypotheses digest now hs evs gap q bs"
| "belief_exec digest (EvidenceAdded now i evs gap q) bs = update_belief_with_new_evidence now i evs gap q bs"
| "belief_exec digest (ConfidenceRecalculated now evs) bs = recalculate_confidence now evs bs"
| "belief_exec digest (Triangulated now ps) bs = triangulate_beliefs now ps bs"
| "belief_exec digest (EvidenceRefuted now evs t) bs = fst (refute_beliefs_contradicted_by_evidence now evs t bs)"
| "belief_exec digest (HypothesesRetired now hs) bs = fst (retire_beliefs_for_inactive_hypotheses now hs bs)"
| "belief_exec digest (BeliefRevised now i b) bs = revise_belief now i b bs"
| "belief_exec digest (Steered sig) bs = the (snd (apply_steering_signal sig [] [] (Some bs)))"

definition unit_real :: "real \<Rightarrow> bool" where
  "unit_real x \<longleftrightarrow> 0 \<le> x \<and> x \<le> 1"

fun belief_event_ok :: "belief_event \<Rightarrow> bool" where
  "belief_event_ok (HypothesesBuilt now hs evs gap q) \<longleftrightarrow> list_all (unit_real \<circ> hy_confidence_score) hs"
| "belief_event_ok (BeliefRevised now i b) \<longleftrightarrow> unit_real (bl_confidence b)"
| "belief_event_ok e \<longleftrightarrow> True"

definition ledger_ok :: "belief_state \<Rightarrow> bool" where
  "ledger_ok bs \<longleftrightarrow> ledger_ids bs \<and> list_all (\<lambda>(i, b). unit_real (bl_confidence b)) bs"

lemma ledger_ok_map:
  assumes "ledger_ok bs" "\<And>i b. bl_id (g i b) = bl_id b"
    "\<And>i b. unit_real (bl_confidence b) \<Longrightarrow> unit_real (bl_confidence (g i b))"
  shows "ledger_ok (map_beliefs g bs)"
  using assms ledger_ids_map [of bs g] by (auto simp: ledger_ok_def list_all_iff map_beliefs_def)

lemma ledger_ok_update:
  assumes "ledger_ok bs" "\<And>b. bl_id (f b) = bl_id b"
    "\<And>b. unit_real (bl_confidence b) \<Longrightarrow> unit_real (bl_confidence (f b))"
  shows "ledger_ok (update_belief now i f bs)"
  using assms update_belief_map [of bs now i f]
  by (auto simp: ledger_ok_def [of bs] ledger_ids_def intro!: ledger_ok_map)

lemma ledger_ok_add: "ledger_ok bs \<Longrightarrow> unit_real (bl_confidence b) \<Longrightarrow> ledger_ok (add_belief b bs)"
  using set_dict_set_subset [of "bl_id b" b bs]
  by (auto simp: ledger_ok_def ledger_ids_def add_belief_def list_all_iff)

lemma ledger_ok_Nil: "ledger_ok []"
  by (simp add: ledger_ok_def ledger_ids_def)

lemma ledger_ok_ids: "ledger_ok bs \<Longrightarrow> ledger_ids bs"
  by (simp add: ledger_ok_def)

lemma ledger_ok_refute: "ledger_ok bs \<Longrightarrow> ledger_ok (refute_belief now i bs)"
  unfolding refute_belief_def by (rule ledger_ok_update) simp_all

lemma ledger_ok_revise: "ledger_ok bs \<Longrightarrow> ledger_ok (update_belief now i (\<lambda>b. b\<lparr>bl_status := BeliefStatusRevised\<rparr>) bs)"
  by (rule ledger_ok_update) simp_all

lemma ledger_ok_fold:
  "ledger_ok bs \<Longrightarrow> (\<And>x bs. x \<in> set xs \<Longrightarrow> ledger_ok bs \<Longrightarrow> ledger_ok (f x bs)) \<Longrightarrow> ledger_ok (fold f xs bs)"
  by (induction xs arbitrary: bs) auto

lemma ledger_ok_build:
  assumes "unit_real (hy_confidence_score h)" "ledger_ok bs"
  shows "ledger_ok (build_belief digest now evs gap q h bs)"
proof (cases "create_belief_from_hypothesis digest now h evs (gap_id_for_hypothesis gap h) q")
  case None
  then show ?thesis using assms by (simp add: build_belief_def)
next
  case (Some b)
  then have "bl_confidence b = hy_confidence_score h"
    by (auto simp: create_belief_from_hypothesis_def split: if_splits prod.splits)
  then have "ledger_ok (add_belief b bs)" using assms ledger_ok_add by simp
  then show ?thesis using Some
    by (auto simp: build_belief_def Let_def intro!: ledger_ok_refute ledger_ok_update)
qed

lemma unit_real_triangulate: "unit_real (bl_confidence b) \<Longrightarrow> unit_real (bl_confidence (triangulate_belief d b))"
  by (simp add: triangulate_belief_def Let_def unit_real_def clamp_float_def)

lemma triangulate_belief_id [simp]: "bl_id (triangulate_belief d b) = bl_id b"
  by (simp add: triangulate_belief_def Let_def)

lemma unit_real_new: "unit_real (new_confidence evs b)"
  by (simp add: new_confidence_def Let_def unit_real_def)

lemma add_new_evidence_fold [simp]:
  "bl_id (fold (add_new_evidence now gap q) evs b) = bl_id b"
  by (induction evs arbitrary: b) (simp_all add: add_new_evidence_def Let_def)

lemma unit_real_posterior: "unit_real (bayesian_posterior p n m s c)"
  using bayesian_posterior_range [of p n m s c] by (simp add: unit_real_def)

lemma ledger_ok_exec: "ledger_ok bs \<Longrightarrow> belief_event_ok e \<Longrightarrow> ledger_ok (belief_exec digest e bs)"
proof (cases e)
  case (HypothesesBuilt now hs evs gap q)
  moreover assume "ledger_ok bs" "belief_event_ok e"
  ultimately show ?thesis
    by (auto simp: build_beliefs_from_hypotheses_def list_all_iff intro!: ledger_ok_fold ledger_ok_build)
next
  case (EvidenceAdded now i evs gap q)
  moreover assume "ledger_ok bs"
  ultimately show ?thesis
    by (auto simp: update_belief_with_new_evidence_def recalculate_belief_confidence_def Let_def unit_real_posterior
        intro!: ledger_ok_update) (simp_all add: unit_real_def)
next
  case (ConfidenceRecalculated now evs)
  moreover assume "ledger_ok bs"
  ultimately show ?thesis
    by (auto simp: recalculate_confidence_map ledger_ok_ids unit_real_new intro!: ledger_ok_map)
next
  case (Triangulated now ps)
  moreover assume "ledger_ok bs"
  ultimately show ?thesis
    by (auto simp: triangulate_beliefs_map ledger_ok_ids unit_real_triangulate intro!: ledger_ok_map)
next
  case (EvidenceRefuted now evs t)
  moreover assume "ledger_ok bs"
  ultimately show ?thesis by (auto simp: refute_beliefs_map ledger_ok_ids intro!: ledger_ok_map)
next
  case (HypothesesRetired now hs)
  moreover assume bs: "ledger_ok bs"
  moreover have "ledger_ok (fst (fold (retire_step now hs) xs (bs, k)))" for xs k
    using bs
  proof (induction xs arbitrary: bs k)
    case (Cons x xs)
    have "ledger_ok (fst (retire_step now hs x (bs, k)))"
      using Cons.prems ledger_ok_refute ledger_ok_revise by (auto simp: retire_step_def Let_def split: prod.split)
    then show ?case using Cons.IH by (metis fold_simps(2) prod.collapse)
  qed simp
  ultimately show ?thesis by (simp add: retire_beliefs_for_inactive_hypotheses_def)
next
  case (BeliefRevised now i b)
  moreover assume "ledger_ok bs" "belief_event_ok e"
  ultimately show ?thesis by (auto simp: revise_belief_def intro!: ledger_ok_add ledger_ok_update)
next
  case (Steered sig)
  moreover assume "ledger_ok bs"
  moreover have "approve_beliefs sig bs = map_beliefs (\<lambda>_ b. if matches_payload sig b then settle b else b) bs"
    "reject_beliefs sig bs = map_beliefs (\<lambda>_ b. if matches_payload sig b
       then b\<lparr>bl_confidence := 0, bl_status := BeliefStatusRefuted\<rparr> else b) bs"
    by (simp_all add: approve_beliefs_def reject_beliefs_def map_beliefs_def settle_def case_prod_unfold)
  ultimately show ?thesis
    by (auto simp: apply_steering_signal_def settle_def unit_real_def intro!: ledger_ok_map)
qed

text \<open>
  C26. The ledger stays well formed: in every history of hypotheses, evidence, recalculations,
  triangulations, refutations, retirements, revisions and steering signals each belief is filed under
  its own id, once, with a confidence between zero and one - whatever the confidences of the evidence,
  as long as those given for hypotheses and revised beliefs lie there.
\<close>

lemma ledger_always_well_formed:
  assumes "list_all belief_event_ok es"
  shows "ledger_ok (fold (belief_exec digest) es [])"
  using assms by (intro ledger_ok_fold ledger_ok_Nil) (auto simp: list_all_iff intro: ledger_ok_exec)

definition example_hypothesis :: hypothesis where
  "example_hypothesis = \<lparr>hy_id = ''h'', hy_parent_id = [], hy_query = ''coffee'', hy_text = [], hy_claim = ''Coffee cures colds'',
     hy_confidence_score = 9 / 10, hy_status = ''active'', hy_terminated = False, hy_evidence = [], hy_contradictions = [],
     hy_contradiction_count = 0, hy_evidence_count = 0, hy_updated_at = 0, hy_query_budget = 0,
     hy_falsifiability = [], hy_confidence_threshold = 0\<rparr>"

lemma ledger_always_well_formed_witness:
  "ledger_ok (fold (belief_exec (\<lambda>_. [7])) [HypothesesBuilt 1 [example_hypothesis] [] None ''q'',
     Steered (example_signal ''coffee''), ConfidenceRecalculated 2 []] [])"
  by (rule ledger_always_well_formed) (simp add: unit_real_def example_hypothesis_def)

end
