(* ===== verification/Hypotheses.thy ===== *)
theory Hypotheses
  imports BeliefControl
begin

text \<open>
  The ledger of hypotheses: merging near duplicates
  (\<open>orchestrator/internal/wisdev/hypothesis_merge.go\<close>) and sharing a query budget among them
  (\<open>computeAdaptiveBudgets\<close> in \<open>autonomous.go\<close>). The merge works on the slice by index, with a flag for each entry
  that has been merged away.
\<close>

section \<open>Similarity of claims\<close>

definition trim_set :: "string \<Rightarrow> string \<Rightarrow> string" where
  "trim_set cs s = rev (dropWhile (\<lambda>c. c \<in> set cs) (rev (dropWhile (\<lambda>c. c \<in> set cs) s)))"

definition hypothesis_claim_tokens :: "hypothesis \<Rightarrow> string list" where
  "hypothesis_claim_tokens h =
     remdups (filter (\<lambda>t. 4 \<le> length t)
       (map (trim_set (''.,;:!?()[]'' @ [CHR 0x22, CHR 0x27]))
         (str_fields (to_lower (trim_space (first_non_empty [hy_claim h, hy_text h]))))))"

definition token_jaccard :: "string list \<Rightarrow> string list \<Rightarrow> real" where
  "token_jaccard a b =
     (if a = [] \<or> b = [] then 0
      else (let small = (if length b < length a then b else a); large = (if length b < length a then a else b);
                inter = length (filter (\<lambda>t. t \<in> set large) small);
                union = int (length a) + int (length b) - int inter
            in if union = 0 then 0 else real inter / real_of_int union))"

section \<open>Merging\<close>

fun absorbed_evidence :: "string list \<Rightarrow> evidence_finding list \<Rightarrow> evidence_finding list" where
  "absorbed_evidence seen [] = []"
| "absorbed_evidence seen (ev # evs) =
     (if ef_id ev = [] then ev # absorbed_evidence seen evs
      else if ef_id ev \<in> set seen then absorbed_evidence seen evs
      else ev # absorbed_evidence (ef_id ev # seen) evs)"

definition absorb_winner :: "int \<Rightarrow> hypothesis \<Rightarrow> hypothesis \<Rightarrow> hypothesis" where
  "absorb_winner now w l =
     (let evs = hy_evidence w @ absorbed_evidence (filter (\<lambda>i. i \<noteq> []) (map ef_id (hy_evidence w))) (hy_evidence l)
      in w\<lparr>hy_evidence := evs, hy_evidence_count := int (length evs),
           hy_contradiction_count := hy_contradiction_count w + hy_contradiction_count l,
           hy_contradictions := hy_contradictions w @ hy_contradictions l, hy_updated_at := now\<rparr>)"

definition absorb_loser :: "int \<Rightarrow> hypothesis \<Rightarrow> hypothesis \<Rightarrow> hypothesis" where
  "absorb_loser now w l =
     l\<lparr>hy_terminated := True, hy_status := ''merged'',
       hy_parent_id := first_non_empty [hy_parent_id l, hy_id w], hy_updated_at := now\<rparr>"

definition merge_into :: "int \<Rightarrow> nat \<Rightarrow> nat \<Rightarrow> hypothesis list \<times> bool list \<Rightarrow> hypothesis list \<times> bool list" where
  "merge_into now w l = (\<lambda>(hs, away).
     (hs[w := absorb_winner now (hs ! w) (hs ! l), l := absorb_loser now (hs ! w) (hs ! l)], away[l := True]))"

definition similar :: "string list list \<Rightarrow> nat \<Rightarrow> nat \<Rightarrow> bool" where
  "similar toks i j \<longleftrightarrow> 3 / 4 \<le> token_jaccard (toks ! i) (toks ! j)"

fun merge_inner ::
  "int \<Rightarrow> string list list \<Rightarrow> nat \<Rightarrow> nat list \<Rightarrow> hypothesis list \<times> bool list \<Rightarrow> hypothesis list \<times> bool list" where
  "merge_inner now toks i [] s = s"
| "merge_inner now toks i (j # js) (hs, away) =
     (if away ! j \<or> hy_terminated (hs ! j) \<or> \<not> similar toks i j then merge_inner now toks i js (hs, away)
      else if hy_confidence_score (hs ! i) < hy_confidence_score (hs ! j) then merge_into now j i (hs, away)
      else merge_inner now toks i js (merge_into now i j (hs, away)))"

definition merge_outer ::
  "int \<Rightarrow> string list list \<Rightarrow> nat \<Rightarrow> nat \<Rightarrow> hypothesis list \<times> bool list \<Rightarrow> hypothesis list \<times> bool list" where
  "merge_outer now toks n i = (\<lambda>(hs, away).
     if away ! i \<or> hy_terminated (hs ! i) then (hs, away) else merge_inner now toks i [Suc i..<n] (hs, away))"

definition merge_all :: "int \<Rightarrow> hypothesis list \<Rightarrow> hypothesis list \<times> bool list" where
  "merge_all now hs =
     (let n = length hs; toks = map hypothesis_claim_tokens hs
      in fold (merge_outer now toks n) [0..<n] (hs, replicate n False))"

definition merge_similar_hypotheses :: "int \<Rightarrow> hypothesis list \<Rightarrow> hypothesis list" where
  "merge_similar_hypotheses now hs =
     (if length hs < 2 then hs
      else (let (hs', away) = merge_all now hs in map ((!) hs') (filter (\<lambda>k. \<not> away ! k) [0..<length hs])))"

section \<open>What a merge keeps\<close>

definition evidence_id_set :: "hypothesis \<Rightarrow> string set" where
  "evidence_id_set h = ef_id ` set (hy_evidence h) - {[]}"

text \<open>
  Along the loops: entries not merged away keep their claim, status and termination, only active entries
  are merged away, and no evidence is lost.
\<close>

definition merge_inv :: "hypothesis list \<Rightarrow> hypothesis list \<times> bool list \<Rightarrow> bool" where
  "merge_inv hs0 s \<longleftrightarrow> (let (hs, away) = s in
     length hs = length hs0 \<and> length away = length hs0
     \<and> (\<forall>k < length hs0. \<not> away ! k \<longrightarrow> hy_terminated (hs ! k) = hy_terminated (hs0 ! k)
          \<and> hy_status (hs ! k) = hy_status (hs0 ! k) \<and> hy_claim (hs ! k) = hy_claim (hs0 ! k)
          \<and> hy_confidence_score (hs ! k) = hy_confidence_score (hs0 ! k))
     \<and> (\<forall>k < length hs0. away ! k \<longrightarrow> \<not> hy_terminated (hs0 ! k))
     \<and> (\<forall>k < length hs0. \<exists>m < length hs0. \<not> away ! m
          \<and> evidence_id_set (hs0 ! k) \<subseteq> evidence_id_set (hs ! m)
          \<and> hy_confidence_score (hs0 ! k) \<le> hy_confidence_score (hs0 ! m)))"

lemma absorbed_evidence_ids:
  "ef_id ` set (absorbed_evidence seen evs) \<union> set seen \<supseteq> ef_id ` set evs - {[]}"
  by (induction seen evs rule: absorbed_evidence.induct) auto

lemma absorb_winner_ids: "evidence_id_set w \<union> evidence_id_set l \<subseteq> evidence_id_set (absorb_winner now w l)"
  using absorbed_evidence_ids [of "hy_evidence l" "filter (\<lambda>i. i \<noteq> []) (map ef_id (hy_evidence w))"]
  by (auto simp: evidence_id_set_def absorb_winner_def Let_def)

lemma absorb_winner_simps [simp]:
  "hy_terminated (absorb_winner now w l) = hy_terminated w" "hy_status (absorb_winner now w l) = hy_status w"
  "hy_claim (absorb_winner now w l) = hy_claim w" "hy_confidence_score (absorb_winner now w l) = hy_confidence_score w"
  by (simp_all add: absorb_winner_def Let_def)

text \<open>One merge of two active entries keeps the invariant.\<close>

definition can_merge :: "nat \<Rightarrow> nat \<Rightarrow> hypothesis list \<times> bool list \<Rightarrow> bool" where
  "can_merge w l s \<longleftrightarrow> (let (hs, away) = s in
     w \<noteq> l \<and> w < length hs \<and> l < length hs \<and> \<not> away ! w \<and> \<not> away ! l
     \<and> \<not> hy_terminated (hs ! w) \<and> \<not> hy_terminated (hs ! l)
     \<and> hy_confidence_score (hs ! l) \<le> hy_confidence_score (hs ! w))"

lemma merge_inv_into:
  assumes inv: "merge_inv hs0 (hs, away)" and can: "can_merge w l (hs, away)"
  shows "merge_inv hs0 (merge_into now w l (hs, away))"
proof -
  let ?n = "length hs0"
  define hs' where "hs' = hs[w := absorb_winner now (hs ! w) (hs ! l), l := absorb_loser now (hs ! w) (hs ! l)]"
  define away' where "away' = away[l := True]"
  have len: "length hs = ?n" "length away = ?n" using inv by (auto simp: merge_inv_def)
  have wl: "w \<noteq> l" "w < ?n" "l < ?n" "\<not> away ! w" "\<not> away ! l"
    "hy_confidence_score (hs ! l) \<le> hy_confidence_score (hs ! w)"
    using can len by (auto simp: can_merge_def)
  have same: "\<not> away ! k \<Longrightarrow> k < ?n \<Longrightarrow> hy_terminated (hs ! k) = hy_terminated (hs0 ! k)
      \<and> hy_status (hs ! k) = hy_status (hs0 ! k) \<and> hy_claim (hs ! k) = hy_claim (hs0 ! k)
      \<and> hy_confidence_score (hs ! k) = hy_confidence_score (hs0 ! k)" for k
    using inv by (auto simp: merge_inv_def)
  have at_w: "hs' ! w = absorb_winner now (hs ! w) (hs ! l)" using wl len by (simp add: hs'_def)
  have at: "k \<noteq> w \<Longrightarrow> k \<noteq> l \<Longrightarrow> hs' ! k = hs ! k" for k by (simp add: hs'_def)
  have away: "away' ! k \<longleftrightarrow> away ! k \<or> k = l" if "k < ?n" for k
    using that wl len by (auto simp: away'_def nth_list_update)
  have "\<forall>k < ?n. \<not> away' ! k \<longrightarrow> hy_terminated (hs' ! k) = hy_terminated (hs0 ! k)
      \<and> hy_status (hs' ! k) = hy_status (hs0 ! k) \<and> hy_claim (hs' ! k) = hy_claim (hs0 ! k)
      \<and> hy_confidence_score (hs' ! k) = hy_confidence_score (hs0 ! k)"
  proof (intro allI impI)
    fix k assume k: "k < ?n" "\<not> away' ! k"
    then have "\<not> away ! k" "k \<noteq> l" using away by auto
    then show "hy_terminated (hs' ! k) = hy_terminated (hs0 ! k)
      \<and> hy_status (hs' ! k) = hy_status (hs0 ! k) \<and> hy_claim (hs' ! k) = hy_claim (hs0 ! k)
      \<and> hy_confidence_score (hs' ! k) = hy_confidence_score (hs0 ! k)"
      using same [of k] k(1) at_w at by (cases "k = w") auto
  qed
  moreover have "\<forall>k < ?n. away' ! k \<longrightarrow> \<not> hy_terminated (hs0 ! k)"
    using inv away same [of l] wl can by (auto simp: merge_inv_def can_merge_def)
  moreover have "\<forall>k < ?n. \<exists>m < ?n. \<not> away' ! m \<and> evidence_id_set (hs0 ! k) \<subseteq> evidence_id_set (hs' ! m)
      \<and> hy_confidence_score (hs0 ! k) \<le> hy_confidence_score (hs0 ! m)"
  proof (intro allI impI)
    fix k assume "k < ?n"
    then obtain m where m: "m < ?n" "\<not> away ! m" "evidence_id_set (hs0 ! k) \<subseteq> evidence_id_set (hs ! m)"
      "hy_confidence_score (hs0 ! k) \<le> hy_confidence_score (hs0 ! m)"
      using inv by (auto simp: merge_inv_def)
    have ids: "evidence_id_set (hs ! w) \<union> evidence_id_set (hs ! l) \<subseteq> evidence_id_set (hs' ! w)"
      unfolding at_w by (rule absorb_winner_ids)
    show "\<exists>m < ?n. \<not> away' ! m \<and> evidence_id_set (hs0 ! k) \<subseteq> evidence_id_set (hs' ! m)
      \<and> hy_confidence_score (hs0 ! k) \<le> hy_confidence_score (hs0 ! m)"
    proof (cases "m = w \<or> m = l")
      case True
      have "evidence_id_set (hs0 ! k) \<subseteq> evidence_id_set (hs' ! w)" using True m(3) ids by blast
      moreover have "hy_confidence_score (hs0 ! k) \<le> hy_confidence_score (hs0 ! w)"
        using True m(4) wl same [of w] same [of l] by auto
      moreover have "\<not> away' ! w" using away wl by auto
      ultimately show ?thesis using wl(2) by blast
    next
      case False
      then show ?thesis using m away at by metis
    qed
  qed
  moreover have "length hs' = ?n" "length away' = ?n" using len by (simp_all add: hs'_def away'_def)
  ultimately show ?thesis
    by (simp add: merge_inv_def merge_into_def hs'_def [symmetric] away'_def [symmetric])
qed

lemma merge_inv_inner:
  assumes "merge_inv hs0 s" "i < length hs0" "\<not> snd s ! i" "\<not> hy_terminated (fst s ! i)"
    and "\<forall>j \<in> set js. i < j \<and> j < length hs0"
  shows "merge_inv hs0 (merge_inner now toks i js s)"
  using assms
proof (induction now toks i js s rule: merge_inner.induct)
  case (2 now toks i j js hs away)
  have len: "length hs = length hs0" "length away = length hs0" using 2(3) by (auto simp: merge_inv_def)
  show ?case
  proof (cases "away ! j \<or> hy_terminated (hs ! j) \<or> \<not> similar toks i j")
    case True
    then show ?thesis using 2 by simp
  next
    case False
    note keep = False
    show ?thesis
    proof (cases "hy_confidence_score (hs ! i) < hy_confidence_score (hs ! j)")
      case True
      then have "can_merge j i (hs, away)" using keep 2 len by (auto simp: can_merge_def)
      then show ?thesis using keep True merge_inv_into [OF 2(3)] by simp
    next
      case False
      then have can: "can_merge i j (hs, away)" using keep 2 len by (auto simp: can_merge_def)
      have "merge_inv hs0 (merge_into now i j (hs, away))" using merge_inv_into [OF 2(3) can] .
      moreover have "i \<noteq> j" using 2 by auto
      ultimately have "merge_inv hs0 (merge_inner now toks i js (merge_into now i j (hs, away)))"
        using 2 keep False len by (intro 2(2)) (auto simp: merge_into_def nth_list_update)
      then show ?thesis using keep False by simp
    qed
  qed
qed simp

lemma nth_update_True: "away ! k \<Longrightarrow> k < length away \<Longrightarrow> away[j := True] ! k"
  by (cases "j = k") simp_all

lemma merge_inner_away: "k < length (snd s) \<Longrightarrow> snd s ! k \<Longrightarrow> snd (merge_inner now toks i js s) ! k"
proof (induction now toks i js s rule: merge_inner.induct)
  case (2 now toks i j js hs away)
  then show ?case by (auto simp: merge_into_def nth_update_True)
qed simp

lemma merge_inner_dissimilar:
  assumes "merge_inv hs0 s" "i < length hs0" "\<not> snd s ! i" "\<not> hy_terminated (fst s ! i)"
    and "\<forall>j \<in> set js. i < j \<and> j < length hs0" "\<not> snd (merge_inner now toks i js s) ! i"
  shows "\<forall>j \<in> set js. snd (merge_inner now toks i js s) ! j \<or> hy_terminated (hs0 ! j) \<or> \<not> similar toks i j"
  using assms
proof (induction now toks i js s rule: merge_inner.induct)
  case (2 now toks i j js hs away)
  have len: "length hs = length hs0" "length away = length hs0" using 2(3) by (auto simp: merge_inv_def)
  have j: "i < j" "j < length hs0" using 2(7) by auto
  show ?case
  proof (cases "away ! j \<or> hy_terminated (hs ! j) \<or> \<not> similar toks i j")
    case True
    then have res: "merge_inner now toks i (j # js) (hs, away) = merge_inner now toks i js (hs, away)" by simp
    have "snd (merge_inner now toks i js (hs, away)) ! j \<or> hy_terminated (hs0 ! j) \<or> \<not> similar toks i j"
      using True j len 2(3) merge_inner_away [of j "(hs, away)" now toks i js] by (auto simp: merge_inv_def)
    moreover have "\<forall>j \<in> set js. snd (merge_inner now toks i js (hs, away)) ! j \<or> hy_terminated (hs0 ! j) \<or> \<not> similar toks i j"
      using 2 True res by auto
    ultimately show ?thesis using res by simp
  next
    case False
    note keep = False
    show ?thesis
    proof (cases "hy_confidence_score (hs ! i) < hy_confidence_score (hs ! j)")
      case True
      then have "snd (merge_inner now toks i (j # js) (hs, away)) ! i"
        using keep len 2(4) by (simp add: merge_into_def)
      then show ?thesis using 2(8) by simp
    next
      case no: False
      then have res: "merge_inner now toks i (j # js) (hs, away) = merge_inner now toks i js (merge_into now i j (hs, away))"
        using keep by simp
      have can: "can_merge i j (hs, away)" using keep no 2 len by (auto simp: can_merge_def)
      have inv: "merge_inv hs0 (merge_into now i j (hs, away))" using merge_inv_into [OF 2(3) can] .
      have "snd (merge_into now i j (hs, away)) ! j" using j len by (simp add: merge_into_def)
      then have "snd (merge_inner now toks i js (merge_into now i j (hs, away))) ! j"
        using merge_inner_away j len by (simp add: merge_into_def)
      moreover have "\<forall>k \<in> set js. snd (merge_inner now toks i js (merge_into now i j (hs, away))) ! k
          \<or> hy_terminated (hs0 ! k) \<or> \<not> similar toks i k"
        using keep no inv j len 2(4-8) res by (intro 2(2)) (auto simp: merge_into_def nth_list_update)
      ultimately show ?thesis using res by simp
    qed
  qed
qed simp

text \<open>After the first \<open>m\<close> entries the remaining pairs with one of them are dissimilar.\<close>

definition separated :: "hypothesis list \<Rightarrow> string list list \<Rightarrow> nat \<Rightarrow> bool list \<Rightarrow> bool" where
  "separated hs0 toks m away \<longleftrightarrow>
     (\<forall>i < m. \<forall>j < length hs0. i < j \<longrightarrow> away ! i \<or> away ! j \<or> hy_terminated (hs0 ! i) \<or> hy_terminated (hs0 ! j)
        \<or> \<not> similar toks i j)"

lemma merge_outer_step:
  assumes "merge_inv hs0 s" "separated hs0 toks m (snd s)" "m < length hs0"
  shows "merge_inv hs0 (merge_outer now toks (length hs0) m s)
    \<and> separated hs0 toks (Suc m) (snd (merge_outer now toks (length hs0) m s))"
proof (cases "snd s ! m \<or> hy_terminated (fst s ! m)")
  case True
  have "snd s ! m \<or> hy_terminated (hs0 ! m)" using True assms(1,3) by (auto simp: merge_inv_def)
  then have "separated hs0 toks (Suc m) (snd s)" using assms(2) by (auto simp: separated_def less_Suc_eq)
  then show ?thesis using True assms(1) by (simp add: merge_outer_def case_prod_unfold)
next
  case False
  let ?r = "merge_inner now toks m [Suc m..<length hs0] s"
  have r: "merge_outer now toks (length hs0) m s = ?r" using False by (simp add: merge_outer_def case_prod_unfold)
  have inv: "merge_inv hs0 ?r" using False assms by (intro merge_inv_inner) auto
  have len: "length (snd s) = length hs0" using assms(1) by (auto simp: merge_inv_def)
  have "separated hs0 toks (Suc m) (snd ?r)"
    unfolding separated_def
  proof (intro allI impI)
    fix i j assume ij: "i < Suc m" "j < length hs0" "i < j"
    show "snd ?r ! i \<or> snd ?r ! j \<or> hy_terminated (hs0 ! i) \<or> hy_terminated (hs0 ! j) \<or> \<not> similar toks i j"
    proof (cases "i = m")
      case True
      note im = True
      show ?thesis
      proof (cases "snd ?r ! m")
        case True
        then show ?thesis using im by simp
      next
        case no: False
        have "\<forall>j \<in> set [Suc m..<length hs0]. snd ?r ! j \<or> hy_terminated (hs0 ! j) \<or> \<not> similar toks m j"
          using False no by (intro merge_inner_dissimilar [OF assms(1,3)]) auto
        moreover have "j \<in> set [Suc m..<length hs0]" using ij im by simp
        ultimately show ?thesis using im by blast
      qed
    next
      case other: False
      then have i: "i < m" using ij(1) by simp
      have "snd s ! i \<or> snd s ! j \<or> hy_terminated (hs0 ! i) \<or> hy_terminated (hs0 ! j) \<or> \<not> similar toks i j"
        using assms(2) i ij by (auto simp: separated_def)
      moreover have "k < length hs0 \<Longrightarrow> snd s ! k \<Longrightarrow> snd ?r ! k" for k
        using merge_inner_away [of k s now toks m] len by simp
      moreover have "i < length hs0" using i assms(3) by simp
      ultimately show ?thesis using ij(2) by blast
    qed
  qed
  then show ?thesis using inv r by simp
qed

lemma merge_all_inv:
  "merge_inv hs (merge_all now hs) \<and> separated hs (map hypothesis_claim_tokens hs) (length hs) (snd (merge_all now hs))"
proof -
  let ?t = "map hypothesis_claim_tokens hs"
  let ?s = "(hs, replicate (length hs) False)"
  have "m \<le> length hs \<Longrightarrow> merge_inv hs (fold (merge_outer now ?t (length hs)) [0..<m] ?s)
      \<and> separated hs ?t m (snd (fold (merge_outer now ?t (length hs)) [0..<m] ?s))" for m
  proof (induction m)
    case 0
    then show ?case by (auto simp: merge_inv_def separated_def)
  next
    case (Suc m)
    then show ?case using merge_outer_step [of hs _ ?t m now] by simp
  qed
  then show ?thesis by (simp add: merge_all_def Let_def)
qed

text \<open>The survivors by index.\<close>

definition survivors :: "int \<Rightarrow> hypothesis list \<Rightarrow> nat list" where
  "survivors now hs = filter (\<lambda>k. \<not> snd (merge_all now hs) ! k) [0..<length hs]"

lemma merge_similar_survivors:
  "2 \<le> length hs \<Longrightarrow> merge_similar_hypotheses now hs = map ((!) (fst (merge_all now hs))) (survivors now hs)"
  by (simp add: merge_similar_hypotheses_def survivors_def case_prod_unfold Let_def)

lemma survivors_dissimilar:
  assumes "i \<in> set (survivors now hs)" "j \<in> set (survivors now hs)" "i < j"
  shows "hy_terminated (hs ! i) \<or> hy_terminated (hs ! j) \<or> \<not> similar (map hypothesis_claim_tokens hs) i j"
proof -
  have "i < length hs" "j < length hs" "\<not> snd (merge_all now hs) ! i" "\<not> snd (merge_all now hs) ! j"
    using assms by (simp_all add: survivors_def)
  then show ?thesis using conjunct2 [OF merge_all_inv [of hs now], unfolded separated_def] assms(3) by blast
qed

lemma survivor_same:
  assumes "k \<in> set (survivors now hs)"
  shows "hy_terminated (fst (merge_all now hs) ! k) = hy_terminated (hs ! k)
    \<and> hy_status (fst (merge_all now hs) ! k) = hy_status (hs ! k)
    \<and> hy_claim (fst (merge_all now hs) ! k) = hy_claim (hs ! k)
    \<and> hy_confidence_score (fst (merge_all now hs) ! k) = hy_confidence_score (hs ! k)"
  using assms merge_all_inv [of hs now] by (auto simp: survivors_def merge_inv_def Let_def split: prod.splits)

text \<open>
  C28. Merging hypotheses leaves no near duplicates and loses nothing. Of any two active hypotheses that
  remain, the claims as they were compared are less than three quarters alike; and for every hypothesis
  there is one that remains, at least as confident, that holds all its identified evidence.
\<close>

lemma merge_leaves_no_duplicates:
  assumes "2 \<le> length hs"
  shows "\<exists>ks. merge_similar_hypotheses now hs = map ((!) (fst (merge_all now hs))) ks
    \<and> sorted_wrt (<) ks \<and> set ks \<subseteq> {0..<length hs}
    \<and> (\<forall>i \<in> set ks. \<forall>j \<in> set ks. i \<noteq> j \<longrightarrow> hy_terminated (hs ! i) \<or> hy_terminated (hs ! j)
         \<or> \<not> similar (map hypothesis_claim_tokens hs) (min i j) (max i j))
    \<and> (\<forall>h \<in> set hs. \<exists>g \<in> set (merge_similar_hypotheses now hs).
         evidence_id_set h \<subseteq> evidence_id_set g \<and> hy_confidence_score h \<le> hy_confidence_score g)"
proof (intro exI conjI)
  let ?ks = "survivors now hs"
  show eq: "merge_similar_hypotheses now hs = map ((!) (fst (merge_all now hs))) ?ks"
    using merge_similar_survivors [OF assms] .
  show "sorted_wrt (<) ?ks" by (simp add: survivors_def sorted_wrt_filter)
  show "set ?ks \<subseteq> {0..<length hs}" by (auto simp: survivors_def)
  show "\<forall>i \<in> set ?ks. \<forall>j \<in> set ?ks. i \<noteq> j \<longrightarrow> hy_terminated (hs ! i) \<or> hy_terminated (hs ! j)
         \<or> \<not> similar (map hypothesis_claim_tokens hs) (min i j) (max i j)"
  proof (intro ballI impI)
    fix i j assume ij: "i \<in> set ?ks" "j \<in> set ?ks" "i \<noteq> j"
    then have "min i j < max i j" "min i j \<in> set ?ks" "max i j \<in> set ?ks"
      by (auto simp: min_def max_def)
    then have "hy_terminated (hs ! min i j) \<or> hy_terminated (hs ! max i j)
        \<or> \<not> similar (map hypothesis_claim_tokens hs) (min i j) (max i j)"
      by (intro survivors_dissimilar)
    then show "hy_terminated (hs ! i) \<or> hy_terminated (hs ! j)
         \<or> \<not> similar (map hypothesis_claim_tokens hs) (min i j) (max i j)"
      by (auto simp: min_def max_def split: if_splits)
  qed
  show "\<forall>h \<in> set hs. \<exists>g \<in> set (merge_similar_hypotheses now hs).
         evidence_id_set h \<subseteq> evidence_id_set g \<and> hy_confidence_score h \<le> hy_confidence_score g"
  proof
    fix h assume "h \<in> set hs"
    then obtain k where "k < length hs" "h = hs ! k" by (auto simp: in_set_conv_nth)
    then obtain m where m: "m < length hs" "\<not> snd (merge_all now hs) ! m"
      "evidence_id_set h \<subseteq> evidence_id_set (fst (merge_all now hs) ! m)"
      "hy_confidence_score h \<le> hy_confidence_score (hs ! m)"
      using merge_all_inv [of hs now] by (auto simp: merge_inv_def Let_def split: prod.splits)
    then have "m \<in> set ?ks" by (simp add: survivors_def)
    then show "\<exists>g \<in> set (merge_similar_hypotheses now hs).
         evidence_id_set h \<subseteq> evidence_id_set g \<and> hy_confidence_score h \<le> hy_confidence_score g"
      unfolding eq using m(3,4) survivor_same [of m now hs] by auto
  qed
qed

section \<open>Beliefs of merged hypotheses\<close>

lemma merge_no_merged_status:
  assumes "list_all (\<lambda>h. hypothesis_status h \<noteq> ''merged'') hs"
  shows "merged_claims (merge_similar_hypotheses now hs) = []"
proof -
  have "list_all (\<lambda>h. hypothesis_status h \<noteq> ''merged'') (merge_similar_hypotheses now hs)"
  proof (cases "2 \<le> length hs")
    case True
    have "hypothesis_status (fst (merge_all now hs) ! k) \<noteq> ''merged''" if "k \<in> set (survivors now hs)" for k
      using survivor_same [OF that] that assms by (auto simp: hypothesis_status_def survivors_def list_all_length)
    then show ?thesis by (simp add: merge_similar_survivors [OF True] list_all_iff)
  next
    case False
    then show ?thesis using assms by (simp add: merge_similar_hypotheses_def)
  qed
  then show ?thesis by (simp add: merged_claims_def filter_empty_conv list_all_iff)
qed

lemma retire_unchanged:
  assumes "\<forall>(i, b) \<in> set xs. i = j \<longrightarrow> normalized_belief_claim_key (bl_claim b) \<notin> set (refuted_claims hs)"
    and "merged_claims hs = []"
  shows "dict_get (fst (fold (retire_step now hs) xs (bs, n))) j = dict_get bs j"
  using assms
proof (induction xs arbitrary: bs n)
  case (Cons x xs)
  obtain bs' n' where step: "retire_step now hs x (bs, n) = (bs', n')" by fastforce
  have "dict_get bs' j = dict_get bs j"
    using step Cons.prems
    by (cases x) (auto simp: retire_step_def Let_def refute_belief_def update_belief_def dict_get_set
        split: if_splits option.splits)
  then show ?case using Cons.IH [of bs' n'] Cons.prems step by simp
qed simp

text \<open>
  A merged hypothesis leaves its belief behind. The merge drops the losers from the list it returns,
  and the loop passes that list to the step that should retire their beliefs, which looks for entries
  marked as merged: it finds none. A belief whose claim is not refuted keeps its entry as it is, active
  if it was.
\<close>

lemma merged_hypothesis_keeps_belief:
  assumes "list_all (\<lambda>h. hypothesis_status h \<noteq> ''merged'') hs" "ledger_ids bs" "dict_get bs i = Some b"
    and "normalized_belief_claim_key (bl_claim b) \<notin> set (refuted_claims (merge_similar_hypotheses now hs))"
  shows "dict_get (fst (retire_beliefs_for_inactive_hypotheses now' (merge_similar_hypotheses now hs) bs)) i = Some b"
proof -
  let ?hs = "merge_similar_hypotheses now hs"
  have "\<forall>(j, c) \<in> set bs. j = i \<longrightarrow> normalized_belief_claim_key (bl_claim c) \<notin> set (refuted_claims ?hs)"
    using assms(4) ledger_ids_unique [OF assms(2) map_of_SomeD [OF assms(3)]] by auto
  then have "dict_get (fst (fold (retire_step now' ?hs) bs (bs, 0))) i = Some b"
    using retire_unchanged [OF _ merge_no_merged_status [OF assms(1)]] assms(3) by metis
  then show ?thesis using assms(3) by (simp add: retire_beliefs_for_inactive_hypotheses_def)
qed

definition twin_hypotheses :: "hypothesis list" where
  "twin_hypotheses = [example_hypothesis, example_hypothesis\<lparr>hy_id := ''h2'', hy_claim := ''coffee cures colds!''\<rparr>]"

lemma twins_merge: "map hy_id (merge_similar_hypotheses 1 twin_hypotheses) = [''h'']"
  by code_simp

lemma merged_hypothesis_keeps_belief_witness:
  "dict_get (fst (retire_beliefs_for_inactive_hypotheses 2 (merge_similar_hypotheses 1 twin_hypotheses)
     [(''b'', example_belief\<lparr>bl_claim := ''coffee cures colds!''\<rparr>)])) ''b''
   = Some (example_belief\<lparr>bl_claim := ''coffee cures colds!''\<rparr>)"
proof (rule merged_hypothesis_keeps_belief)
  show "list_all (\<lambda>h. hypothesis_status h \<noteq> ''merged'') twin_hypotheses" by code_simp
  show "normalized_belief_claim_key (bl_claim (example_belief\<lparr>bl_claim := ''coffee cures colds!''\<rparr>))
    \<notin> set (refuted_claims (merge_similar_hypotheses 1 twin_hypotheses))"
    by code_simp
qed (simp_all add: ledger_ids_def wf_dict_def example_belief_def)

lemma merge_leaves_no_duplicates_witness:
  "\<exists>g \<in> set (merge_similar_hypotheses 1 twin_hypotheses).
     evidence_id_set example_hypothesis \<subseteq> evidence_id_set g \<and> hy_confidence_score example_hypothesis \<le> hy_confidence_score g"
  using merge_leaves_no_duplicates [of twin_hypotheses 1] by (auto simp: twin_hypotheses_def)

section \<open>Sharing a budget of queries\<close>

fun even_budgets :: "int \<Rightarrow> int \<Rightarrow> hypothesis list \<Rightarrow> hypothesis list" where
  "even_budgets share remainder [] = []"
| "even_budgets share remainder (h # hs) =
     (if hy_terminated h then h # even_budgets share remainder hs
      else if 0 < remainder then h\<lparr>hy_query_budget := share + 1\<rparr> # even_budgets share (remainder - 1) hs
      else h\<lparr>hy_query_budget := share\<rparr> # even_budgets share remainder hs)"

definition proportional_budget :: "int \<Rightarrow> real \<Rightarrow> hypothesis \<Rightarrow> hypothesis" where
  "proportional_budget budget uncertainty h =
     (if hy_terminated h then h
      else h\<lparr>hy_query_budget := max 1 (trunc_int (real_of_int budget * ((1 - hy_confidence_score h) / uncertainty)))\<rparr>)"

fun adjust_first :: "int \<Rightarrow> hypothesis list \<Rightarrow> hypothesis list" where
  "adjust_first diff [] = []"
| "adjust_first diff (h # hs) =
     (if hy_terminated h then h # adjust_first diff hs
      else h\<lparr>hy_query_budget := max 1 (hy_query_budget h + diff)\<rparr> # hs)"

definition active_hypotheses :: "hypothesis list \<Rightarrow> hypothesis list" where
  "active_hypotheses hs = filter (\<lambda>h. \<not> hy_terminated h) hs"

definition allocated :: "hypothesis list \<Rightarrow> int" where
  "allocated hs = sum_list (map hy_query_budget (active_hypotheses hs))"

definition compute_adaptive_budgets :: "hypothesis list \<Rightarrow> int \<Rightarrow> hypothesis list" where
  "compute_adaptive_budgets hs budget =
     (let n = int (length (active_hypotheses hs)) in
      if hs = [] \<or> budget \<le> 0 \<or> n = 0 then hs
      else
        (let budget = max budget n;
             uncertainty = sum_list (map (\<lambda>h. 1 - hy_confidence_score h) (active_hypotheses hs))
         in if uncertainty \<le> 0 then even_budgets (budget div n) (budget mod n) hs
            else (let hs' = map (proportional_budget budget uncertainty) hs
                  in if allocated hs' \<noteq> budget then adjust_first (budget - allocated hs') hs' else hs')))"

lemma active_hypotheses_simps [simp]:
  "active_hypotheses [] = []"
  "active_hypotheses (h # hs) = (if hy_terminated h then active_hypotheses hs else h # active_hypotheses hs)"
  by (simp_all add: active_hypotheses_def)

lemma allocated_simps [simp]:
  "allocated [] = 0" "allocated (h # hs) = (if hy_terminated h then allocated hs else hy_query_budget h + allocated hs)"
  by (simp_all add: allocated_def)

lemma even_budgets_sum:
  assumes "0 \<le> r" "r \<le> int (length (active_hypotheses hs))"
  shows "allocated (even_budgets share r hs) = share * int (length (active_hypotheses hs)) + r"
  using assms
proof (induction share r hs rule: even_budgets.induct)
  case (2 share r h hs)
  then show ?case by (cases "0 < r") (auto simp: algebra_simps)
qed simp

lemma even_budgets_min:
  "1 \<le> share \<Longrightarrow> list_all (\<lambda>h. hy_terminated h \<or> 1 \<le> hy_query_budget h) (even_budgets share r hs)"
  by (induction share r hs rule: even_budgets.induct) auto

lemma proportional_min: "list_all (\<lambda>h. hy_terminated h \<or> 1 \<le> hy_query_budget h) (map (proportional_budget t u) hs)"
  by (induction hs) (simp_all add: proportional_budget_def)

lemma adjust_first_min:
  "list_all (\<lambda>h. hy_terminated h \<or> 1 \<le> hy_query_budget h) hs
    \<Longrightarrow> list_all (\<lambda>h. hy_terminated h \<or> 1 \<le> hy_query_budget h) (adjust_first d hs)"
  by (induction d hs rule: adjust_first.induct) auto

lemma adjust_first_sum:
  assumes "list_all (\<lambda>h. hy_terminated h \<or> 1 \<le> hy_query_budget h) hs" "active_hypotheses hs \<noteq> []"
  shows "allocated hs + d \<le> allocated (adjust_first d hs) \<and> allocated (adjust_first d hs) \<le> max (allocated hs) (allocated hs + d)"
  using assms by (induction d hs rule: adjust_first.induct) (auto split: if_splits)

lemma trunc_le: "0 \<le> x \<Longrightarrow> real_of_int (trunc_int x) \<le> x"
  by (simp add: trunc_int_def)

lemma proportional_sum:
  assumes "0 < u" "0 \<le> t" "list_all (\<lambda>h. hy_terminated h \<or> hy_confidence_score h \<le> 1) hs"
  shows "real_of_int (allocated (map (proportional_budget t u) hs))
    \<le> real_of_int t * (sum_list (map (\<lambda>h. 1 - hy_confidence_score h) (active_hypotheses hs)) / u)
       + real (length (active_hypotheses hs))"
  using assms(3)
proof (induction hs)
  case (Cons h hs)
  show ?case
  proof (cases "hy_terminated h")
    case True
    then show ?thesis using Cons by (simp add: proportional_budget_def)
  next
    case False
    let ?x = "real_of_int t * ((1 - hy_confidence_score h) / u)"
    have "0 \<le> ?x" using False Cons.prems assms(1,2) by simp
    then have "real_of_int (max 1 (trunc_int ?x)) \<le> ?x + 1" using trunc_le [of ?x] by (simp add: max_def)
    then show ?thesis using Cons False
      by (simp add: proportional_budget_def add_divide_distrib distrib_left)
  qed
qed simp

text \<open>
  Every active hypothesis gets a query, and all the queries of the budget are given out - or more:
  at most one for each active hypothesis beyond it. When only the later hypotheses are uncertain the
  budget is overspent, since the correction is made on the first alone and cannot take its last query.
\<close>

lemma adaptive_budgets_bounds:
  assumes "0 < budget" "active_hypotheses hs \<noteq> []"
    and "list_all (\<lambda>h. hy_terminated h \<or> hy_confidence_score h \<le> 1) hs"
  shows "list_all (\<lambda>h. hy_terminated h \<or> 1 \<le> hy_query_budget h) (compute_adaptive_budgets hs budget)
    \<and> max budget (int (length (active_hypotheses hs))) \<le> allocated (compute_adaptive_budgets hs budget)
    \<and> allocated (compute_adaptive_budgets hs budget)
        \<le> max budget (int (length (active_hypotheses hs))) + int (length (active_hypotheses hs))"
proof -
  define n where "n = int (length (active_hypotheses hs))"
  define t where "t = max budget n"
  define u where "u = sum_list (map (\<lambda>h. 1 - hy_confidence_score h) (active_hypotheses hs))"
  have n: "0 < n" using assms(2) by (simp add: n_def)
  have t: "n \<le> t" "0 < t" using assms(1) by (simp_all add: t_def)
  have nz: "hs \<noteq> []" using assms(2) by auto
  show ?thesis
  proof (cases "u \<le> 0")
    case True
    have eq: "compute_adaptive_budgets hs budget = even_budgets (t div n) (t mod n) hs"
      using True assms(1) n nz by (simp add: compute_adaptive_budgets_def Let_def n_def [symmetric] t_def [symmetric] u_def [symmetric])
    have "0 < t div n" using n t by (simp add: pos_imp_zdiv_pos_iff)
    then have "1 \<le> t div n" by simp
    moreover have "t mod n \<le> n" using pos_mod_bound [OF n, of t] by linarith
    ultimately show ?thesis
      using even_budgets_sum [of "t mod n" hs "t div n"] n t
      by (simp add: eq even_budgets_min n_def [symmetric] t_def [symmetric])
  next
    case False
    define hs' where "hs' = map (proportional_budget t u) hs"
    have act: "length (active_hypotheses hs') = length (active_hypotheses hs)"
      unfolding hs'_def by (induction hs) (auto simp: proportional_budget_def)
    then have act': "active_hypotheses hs' \<noteq> []" using assms(2) by auto
    have min: "list_all (\<lambda>h. hy_terminated h \<or> 1 \<le> hy_query_budget h) hs'" unfolding hs'_def by (rule proportional_min)
    have "real_of_int (allocated hs') \<le> real_of_int t * (u / u) + real_of_int n"
      using proportional_sum [of u t hs] False t assms(3) by (simp add: hs'_def u_def n_def)
    then have up: "allocated hs' \<le> t + n" using False by simp
    have eq: "compute_adaptive_budgets hs budget = (if allocated hs' \<noteq> t then adjust_first (t - allocated hs') hs' else hs')"
      using False assms(1) n nz
      by (simp add: compute_adaptive_budgets_def Let_def n_def [symmetric] t_def [symmetric] u_def [symmetric] hs'_def [symmetric])
    show ?thesis
      unfolding n_def [symmetric] t_def [symmetric]
      using adjust_first_sum [OF min act', of "t - allocated hs'"] adjust_first_min [OF min] min up n
      by (auto simp: eq max_def split: if_splits)
  qed
qed

lemma adaptive_budgets_bounds_witness:
  "allocated (compute_adaptive_budgets [example_hypothesis\<lparr>hy_confidence_score := 1\<rparr>, example_hypothesis\<lparr>hy_confidence_score := 1\<rparr>,
     example_hypothesis\<lparr>hy_confidence_score := 0\<rparr>] 5) = 7
   \<and> allocated (compute_adaptive_budgets [example_hypothesis\<lparr>hy_confidence_score := 1\<rparr>, example_hypothesis\<lparr>hy_confidence_score := 1\<rparr>,
     example_hypothesis\<lparr>hy_confidence_score := 0\<rparr>] 5) \<le> 5 + 3"
  using adaptive_budgets_bounds [of 5 "[example_hypothesis\<lparr>hy_confidence_score := 1\<rparr>, example_hypothesis\<lparr>hy_confidence_score := 1\<rparr>,
     example_hypothesis\<lparr>hy_confidence_score := 0\<rparr>]"]
  by (simp add: example_hypothesis_def compute_adaptive_budgets_def proportional_budget_def trunc_int_def Let_def)

end
