(* ===== verification/BranchSearch.thy ===== *)
theory BranchSearch
  imports LoopQueries
begin

text \<open>
  The search of a tree of hypotheses: branches with their own papers, evidence and beliefs
  (\<open>orchestrator/internal/wisdev/branch_manager.go\<close>), the runtime that forks, advances, prunes and merges
  them (\<open>tree_search_runtime.go\<close>) and the batch of searches of \<open>autonomous.go\<close>. \<open>search\<close> is what the
  registry of providers answers to a query - with an error, the papers that came with it - and the results
  of the hypothesis explorer are an argument. The map of branches is visited in the order of its list; the
  sort by score, which is unstable, leaves equal branches in that order.
\<close>

section \<open>A batch of searches\<close>

text \<open>
  The queries of a batch are distinct without regard to case, so the reordering at the end of the Go
  function puts every result where it is.
\<close>

type_synonym search_answers = "string \<Rightarrow> paper list"

definition execute_loop_search_batch ::
  "query_cache \<Rightarrow> search_answers \<Rightarrow> string list \<Rightarrow> (string \<times> paper list) list" where
  "execute_loop_search_batch cache search qs =
     map (\<lambda>q. (q, search (prepare_search_query_text cache q))) (normalize_loop_queries cache [] qs)"

definition calculate_initial_confidence :: "int \<Rightarrow> paper \<Rightarrow> real" where
  "calculate_initial_confidence yr p =
     (let venue = to_lower (p_venue p);
          c = 6 / 10 + (if contains_any venue [''arxiv'', ''preprint'', ''medrxiv'', ''biorxiv''] then - 5 / 100
                        else if venue \<noteq> [] then 5 / 100 else 0);
          c = c + (if yr - 3 \<le> p_year p then 12 / 100
                   else if yr - 8 \<le> p_year p then 4 / 100
                   else if 1900 < p_year p \<and> p_year p < yr - 12 then - 10 / 100 else 0);
          c = c + (if 8 / 10 < p_score p then 5 / 100 else 0)
      in clamp_float c (3 / 10) (85 / 100))"

definition evidence_text_from_paper :: "paper \<Rightarrow> string" where
  "evidence_text_from_paper p =
     (let full = trim_space (p_full_text p) in if full \<noteq> [] then take 6000 full else p_abstract p)"

definition finding_of_paper :: "int \<Rightarrow> string \<Rightarrow> paper \<Rightarrow> evidence_finding" where
  "finding_of_paper yr i p =
     \<lparr>ef_id = i, ef_claim = p_title p, ef_source_id = p_id p, ef_paper_title = p_title p,
      ef_snippet = evidence_text_from_paper p, ef_year = p_year p,
      ef_confidence = calculate_initial_confidence yr p, ef_status = []\<rparr>"

section \<open>Branches\<close>

record research_branch =
  rb_id :: string
  rb_parent_branch_id :: string
  rb_hypothesis :: hypothesis
  rb_papers :: "paper list"
  rb_evidence :: "evidence_finding list"
  rb_belief_state :: belief_state
  rb_confidence :: real
  rb_status :: string
  rb_pending_queries :: "string list"
  rb_executed_queries :: "string list"

record branch_manager =
  bm_branches :: "research_branch dict"
  bm_max_branches :: int
  bm_prune_below :: real

definition branch_belief_id :: "(string \<Rightarrow> nat list) \<Rightarrow> string \<Rightarrow> string \<Rightarrow> string" where
  "branch_belief_id digest bid claim = stable_wisdev_id digest ''branch-belief'' [bid, claim]"

definition fork_branch ::
  "(string \<Rightarrow> nat list) \<Rightarrow> int \<Rightarrow> string \<Rightarrow> hypothesis \<Rightarrow> branch_manager \<Rightarrow> branch_manager \<times> research_branch" where
  "fork_branch digest now parent h bm =
     (let bs = (case dict_get (bm_branches bm) (trim_space parent) of Some p \<Rightarrow> rb_belief_state p | None \<Rightarrow> []);
          bid = stable_wisdev_id digest ''branch'' [hy_id h];
          bs = (if blank (hy_claim h) then bs
                else add_belief
                  \<lparr>bl_id = branch_belief_id digest bid (hy_claim h), bl_claim = hy_claim h,
                   bl_confidence = clamp_float (hy_confidence_score h) (5 / 100) (95 / 100),
                   bl_supporting = unique_trimmed_strings (evidence_ids (hy_evidence h)),
                   bl_contradicting = unique_trimmed_strings (evidence_ids (hy_contradictions h)),
                   bl_provenance = [], bl_source_families = [], bl_triangulated = False,
                   bl_status = BeliefStatusActive, bl_created_at = now, bl_updated_at = now,
                   bl_revised_from = [], bl_superseded_by = []\<rparr> bs);
          b = \<lparr>rb_id = bid, rb_parent_branch_id = parent, rb_hypothesis = h, rb_papers = [], rb_evidence = [],
               rb_belief_state = bs, rb_confidence = 0, rb_status = ''active'', rb_pending_queries = [],
               rb_executed_queries = []\<rparr>
      in (bm\<lparr>bm_branches := dict_set bid b (bm_branches bm)\<rparr>, b))"

definition put_branch :: "research_branch \<Rightarrow> branch_manager \<Rightarrow> branch_manager" where
  "put_branch b bm = bm\<lparr>bm_branches := dict_set (rb_id b) b (bm_branches bm)\<rparr>"

definition average_branch_evidence_confidence :: "evidence_finding list \<Rightarrow> real" where
  "average_branch_evidence_confidence evs =
     (if evs = [] then 35 / 100 else average (map (\<lambda>ev. clamp_float (ef_confidence ev) 0 1) evs))"

definition branch_evidence_diversity :: "research_branch \<Rightarrow> real" where
  "branch_evidence_diversity b =
     (if rb_evidence b = [] then 0
      else (let keys = filter (\<lambda>k. k \<noteq> [])
                 (map (\<lambda>ev. first_non_empty [ef_source_id ev, ef_paper_title ev, ef_id ev]) (rb_evidence b))
            in clamp_float (real (length (remdups (map to_lower keys))) / real (length (rb_evidence b))) 0 1))"

definition branch_belief_confidence :: "belief_state \<Rightarrow> real" where
  "branch_belief_confidence bs =
     (let act = active_beliefs bs in
      if act = [] then 35 / 100 else average (map (\<lambda>b. clamp_float (bl_confidence b) 0 1) act))"

definition branch_contradiction_penalty :: "belief_state \<Rightarrow> real" where
  "branch_contradiction_penalty bs =
     (let act = active_beliefs bs in
      if act = [] then 0
      else 2 / 10 * real (length (filter (\<lambda>b. bl_contradicting b \<noteq> []) act)) / real (length act))"

definition score_branch :: "research_branch \<Rightarrow> real" where
  "score_branch b =
     clamp_float
       (clamp_float (hy_confidence_score (rb_hypothesis b)) 0 1 * (25 / 100)
        + average_branch_evidence_confidence (rb_evidence b) * (25 / 100)
        + clamp_float (real (length (rb_evidence b)) / 5) 0 1 * (20 / 100)
        + branch_evidence_diversity b * (15 / 100)
        + branch_belief_confidence (rb_belief_state b) * (15 / 100)
        - branch_contradiction_penalty (rb_belief_state b)) 0 1"

definition active_branches :: "branch_manager \<Rightarrow> research_branch list" where
  "active_branches bm = filter (\<lambda>b. rb_status b = ''active'') (map snd (bm_branches bm))"

definition prune_branches :: "branch_manager \<Rightarrow> branch_manager" where
  "prune_branches bm =
     (let act = sort_key (\<lambda>b. - score_branch b) (active_branches bm);
          out = map fst (filter (\<lambda>(b, i). bm_max_branches bm \<le> int i \<or> score_branch b < bm_prune_below bm)
                           (zip act [0..<length act]))
      in fold (\<lambda>b. put_branch (b\<lparr>rb_status := ''pruned''\<rparr>)) out bm)"

definition merge_belief :: "belief_state \<Rightarrow> string \<times> belief \<Rightarrow> belief_state" where
  "merge_belief dst = (\<lambda>(i, b).
     (case dict_get dst i of
        Some e \<Rightarrow> dict_set i (e\<lparr>bl_confidence := max (bl_confidence b) (bl_confidence e),
                   bl_supporting := unique_trimmed_strings (bl_supporting e @ bl_supporting b),
                   bl_contradicting := unique_trimmed_strings (bl_contradicting e @ bl_contradicting b),
                   bl_provenance := bl_provenance e @ bl_provenance b\<rparr>) dst
      | None \<Rightarrow> dict_set i b dst))"

definition merge_belief_state :: "belief_state \<Rightarrow> belief_state \<Rightarrow> belief_state" where
  "merge_belief_state dst src = foldl merge_belief dst src"

text \<open>The candidate of the merge; only the fields the code sets.\<close>

record merged_branch =
  mb_id :: string
  mb_papers :: "paper list"
  mb_evidence :: "evidence_finding list"
  mb_belief_state :: belief_state

definition merge_branches :: "(string \<Rightarrow> nat list) \<Rightarrow> research_branch list \<Rightarrow> merged_branch option" where
  "merge_branches digest bs =
     (if bs = [] then None
      else Some \<lparr>mb_id = stable_wisdev_id digest ''branch-merged'' [],
                 mb_papers = uniq_by p_id [] (concat (map rb_papers bs)),
                 mb_evidence = uniq_by ef_id [] (concat (map rb_evidence bs)),
                 mb_belief_state = foldl (\<lambda>d b. merge_belief_state d (rb_belief_state b)) [] bs\<rparr>)"

definition select_winner :: "branch_manager \<Rightarrow> research_branch option" where
  "select_winner bm =
     foldl (\<lambda>best b. case best of None \<Rightarrow> Some b | Some w \<Rightarrow> if score_branch w < score_branch b then Some b else best)
       None (active_branches bm)"

text \<open>Adds the evidence of the branch to the belief in its hypothesis.\<close>

definition attach_branch_evidence :: "(string \<Rightarrow> nat list) \<Rightarrow> int \<Rightarrow> research_branch \<Rightarrow> research_branch" where
  "attach_branch_evidence digest now b =
     (let ids = map (trim_space \<circ> ef_id) (filter (\<lambda>ev. \<not> blank (ef_id ev)) (rb_evidence b)) in
      if ids = [] then b
      else b\<lparr>rb_belief_state :=
        update_belief now (branch_belief_id digest (rb_id b) (hy_claim (rb_hypothesis b)))
          (\<lambda>x. x\<lparr>bl_supporting := unique_trimmed_strings (bl_supporting x @ ids),
                  bl_confidence := bayesian_posterior (clamp_float (bl_confidence x) (5 / 100) (95 / 100))
                    (int (length ids)) (int (length (bl_contradicting x)))
                    (average_branch_evidence_confidence (rb_evidence b)) (68 / 100)\<rparr>)
          (rb_belief_state b)\<rparr>)"

section \<open>The runtime of the tree search\<close>

record branch_evaluation =
  be_decision :: string
  be_sub_hypotheses :: "string list"
  be_suggested_queries :: "string list"

record exploration_result =
  xr_hypothesis :: hypothesis
  xr_new_evidence :: "paper list"
  xr_evaluation :: "branch_evaluation option"
  xr_suggested_queries :: "string list"
  xr_queries :: "string list"
  xr_confidence :: real
  xr_status :: string

record tree_search_config =
  tc_max_branches :: int
  tc_prune_below :: real
  tc_max_depth :: int
  tc_max_unique_papers :: int
  tc_queries_per_branch :: int
  tc_disable_advance :: bool

definition normalize_tree_config :: "tree_search_config \<Rightarrow> tree_search_config" where
  "normalize_tree_config c =
     c\<lparr>tc_max_branches := (if tc_max_branches c \<le> 0 then 5 else tc_max_branches c),
       tc_prune_below := (if tc_prune_below c \<le> 0 then 3 / 10 else tc_prune_below c),
       tc_max_depth := (if tc_max_depth c \<le> 0 then 2 else tc_max_depth c),
       tc_queries_per_branch := (if tc_queries_per_branch c \<le> 0 then 2 else tc_queries_per_branch c)\<rparr>"

text \<open>
  \<open>ts_explored\<close> holds the explored hypotheses as the search leaves them: they are the caller's, by pointer.
\<close>

record tree_state =
  ts_manager :: branch_manager
  ts_coverage :: "paper list dict"
  ts_explored :: "hypothesis list"
  ts_committed :: "paper list"
  ts_findings :: "evidence_finding list"
  ts_spawned :: "hypothesis list"

definition explored_status :: "string \<Rightarrow> string" where
  "explored_status s = (if s = [] \<or> s = ''completed'' \<or> s = ''insufficient_evidence'' then ''active'' else s)"

definition attach_initial_exploration ::
  "(string \<Rightarrow> nat list) \<Rightarrow> int \<Rightarrow> int \<Rightarrow> int \<Rightarrow> exploration_result \<Rightarrow> research_branch \<Rightarrow> paper list dict
     \<Rightarrow> research_branch \<times> paper list dict \<times> paper list" where
  "attach_initial_exploration digest now yr limit res b cov =
     (let (papers, acc) = append_unique_within_budget (rb_papers b) (sanitize_retrieved_papers (xr_new_evidence res)) limit;
          cov = (if acc = [] then cov
                 else fold (\<lambda>q. record_loop_query_coverage (''tree:'' @ rb_id b @ '':'' @ q) acc) (xr_queries res)
                        (record_loop_query_coverage (''tree:'' @ rb_id b) acc cov));
          evs = map (\<lambda>p. finding_of_paper yr (stable_wisdev_id digest ''treefinding'' [hy_id (xr_hypothesis res), p_id p]) p) acc;
          b = b\<lparr>rb_papers := papers, rb_evidence := rb_evidence b @ evs\<rparr>
      in (attach_branch_evidence digest now b, cov, acc))"

definition sub_hypothesis :: "(string \<Rightarrow> nat list) \<Rightarrow> hypothesis \<Rightarrow> string \<Rightarrow> string \<Rightarrow> hypothesis" where
  "sub_hypothesis digest parent query claim =
     \<lparr>hy_id = stable_wisdev_id digest ''branch-hyp'' [hy_id parent, claim], hy_parent_id = hy_id parent, hy_query = query,
      hy_text = claim, hy_claim = claim, hy_confidence_score = 1 / 2, hy_status = ''active'', hy_terminated = False,
      hy_evidence = [], hy_contradictions = [], hy_contradiction_count = 0, hy_evidence_count = 0,
      hy_updated_at = 0, hy_query_budget = 0,
      hy_falsifiability = ''Specific evidence refutes this sub-claim.'', hy_confidence_threshold = 0\<rparr>"

definition spawn_sub_branch ::
  "(string \<Rightarrow> nat list) \<Rightarrow> int \<Rightarrow> string \<Rightarrow> string \<Rightarrow> hypothesis \<Rightarrow> string list \<Rightarrow> string \<Rightarrow> tree_state \<Rightarrow> tree_state" where
  "spawn_sub_branch digest now query bid h suggested claim s =
     (let sub = sub_hypothesis digest h query claim;
          (bm, child) = fork_branch digest now bid sub (ts_manager s);
          child = child\<lparr>rb_pending_queries := append_unique_loop_queries (rb_pending_queries child) suggested\<rparr>
      in s\<lparr>ts_manager := put_branch child bm, ts_spawned := ts_spawned s @ [sub]\<rparr>)"

definition apply_branch_decision ::
  "(string \<Rightarrow> nat list) \<Rightarrow> int \<Rightarrow> string \<Rightarrow> exploration_result \<Rightarrow> branch_evaluation \<Rightarrow> research_branch \<Rightarrow> tree_state \<Rightarrow> tree_state" where
  "apply_branch_decision digest now query res ev b s =
     (let h = xr_hypothesis res in
      if be_decision ev = ''branch''
      then fold (spawn_sub_branch digest now query (rb_id b) h (be_suggested_queries ev)) (trimmed (be_sub_hypotheses ev))
             (s\<lparr>ts_explored := ts_explored s @ [h]\<rparr>)
      else if be_decision ev = ''prune''
      then (let h = h\<lparr>hy_terminated := True, hy_status := ''pruned''\<rparr> in
            s\<lparr>ts_manager := put_branch (b\<lparr>rb_status := ''pruned'', rb_hypothesis := h\<rparr>) (ts_manager s),
              ts_explored := ts_explored s @ [h]\<rparr>)
      else if be_decision ev = ''backtrack''
      then s\<lparr>ts_manager := put_branch (b\<lparr>rb_pending_queries := append_unique_loop_queries
                 (append_unique_loop_query (rb_pending_queries b) (''contradicting evidence: '' @ trim_space (hy_claim h)))
                 (be_suggested_queries ev)\<rparr>) (ts_manager s),
             ts_explored := ts_explored s @ [h]\<rparr>
      else s\<lparr>ts_explored := ts_explored s @ [h]\<rparr>)"

definition explore_branch ::
  "(string \<Rightarrow> nat list) \<Rightarrow> int \<Rightarrow> int \<Rightarrow> int \<Rightarrow> string \<Rightarrow> exploration_result \<Rightarrow> tree_state \<Rightarrow> tree_state" where
  "explore_branch digest now yr limit query res s =
     (let (bm, b) = fork_branch digest now [] (xr_hypothesis res) (ts_manager s);
          b = b\<lparr>rb_executed_queries := append_unique_loop_queries (rb_executed_queries b) (xr_queries res),
                rb_pending_queries := append_unique_loop_queries (rb_pending_queries b) (xr_suggested_queries res),
                rb_confidence := clamp_float (xr_confidence res) 0 1, rb_status := explored_status (xr_status res)\<rparr>;
          (b, cov, acc) = attach_initial_exploration digest now yr limit res b (ts_coverage s);
          s = s\<lparr>ts_manager := put_branch b bm, ts_coverage := cov,
                ts_committed := append_unique_search_papers (ts_committed s) acc\<rparr>
      in case xr_evaluation res of
           None \<Rightarrow> s\<lparr>ts_explored := ts_explored s @ [xr_hypothesis res]\<rparr>
         | Some ev \<Rightarrow> apply_branch_decision digest now query res ev b s)"

text \<open>One more query of a branch; the findings are those of this step.\<close>

definition advance_result ::
  "(string \<Rightarrow> nat list) \<Rightarrow> int \<Rightarrow> int \<Rightarrow> string \<times> paper list \<Rightarrow> research_branch \<times> paper list dict \<times> evidence_finding list
     \<Rightarrow> research_branch \<times> paper list dict \<times> evidence_finding list" where
  "advance_result digest yr limit = (\<lambda>(q, ps) (b, cov, fs).
     (let (papers, acc) = append_unique_within_budget (rb_papers b) (sanitize_retrieved_papers ps) limit;
          evs = map (\<lambda>p. finding_of_paper yr (stable_wisdev_id digest ''branchfinding'' [rb_id b, q, p_id p]) p) acc
      in if acc = [] then (b\<lparr>rb_papers := papers\<rparr>, cov, fs)
         else (b\<lparr>rb_papers := papers, rb_evidence := rb_evidence b @ evs\<rparr>,
               record_loop_query_coverage (''branch:'' @ rb_id b @ '':'' @ q) acc cov, fs @ evs)))"

definition advance_branch_session ::
  "(string \<Rightarrow> nat list) \<Rightarrow> int \<Rightarrow> int \<Rightarrow> query_cache \<Rightarrow> search_answers \<Rightarrow> int \<Rightarrow> research_branch \<times> paper list dict
     \<Rightarrow> research_branch \<times> paper list dict \<times> evidence_finding list" where
  "advance_branch_session digest now yr cache search limit = (\<lambda>(b, cov).
     if rb_status b \<noteq> ''active'' \<or> rb_pending_queries b = [] then (b, cov, [])
     else (case filter_unexecuted_loop_queries (rb_pending_queries b) (rb_executed_queries b) of
             [] \<Rightarrow> (b\<lparr>rb_pending_queries := []\<rparr>, cov, [])
           | q # rest \<Rightarrow>
               (let b = b\<lparr>rb_pending_queries := rest, rb_executed_queries := append_unique_loop_query (rb_executed_queries b) q\<rparr>;
                    (b, cov, fs) = fold (advance_result digest yr limit) (execute_loop_search_batch cache search [q]) (b, cov, [])
                in (attach_branch_evidence digest now b, cov, fs))))"

definition advance_active ::
  "(string \<Rightarrow> nat list) \<Rightarrow> int \<Rightarrow> int \<Rightarrow> query_cache \<Rightarrow> search_answers \<Rightarrow> int \<Rightarrow> research_branch \<Rightarrow> tree_state \<times> nat \<Rightarrow> tree_state \<times> nat" where
  "advance_active digest now yr cache search limit b = (\<lambda>(s, advanced).
     (let (b, cov, fs) = advance_branch_session digest now yr cache search limit (b, ts_coverage s);
          b = b\<lparr>rb_confidence := score_branch b\<rparr>
      in (s\<lparr>ts_manager := put_branch b (ts_manager s), ts_coverage := cov, ts_findings := ts_findings s @ fs\<rparr>,
          if fs = [] then advanced else Suc advanced)))"

fun advance_rounds ::
  "(string \<Rightarrow> nat list) \<Rightarrow> int \<Rightarrow> int \<Rightarrow> query_cache \<Rightarrow> search_answers \<Rightarrow> int \<Rightarrow> nat \<Rightarrow> tree_state \<Rightarrow> tree_state" where
  "advance_rounds digest now yr cache search limit 0 s = s"
| "advance_rounds digest now yr cache search limit (Suc n) s =
     (if active_branches (ts_manager s) = [] then s
      else (case fold (advance_active digest now yr cache search limit) (active_branches (ts_manager s)) (s, 0) of
              (s', advanced) \<Rightarrow> if advanced = 0 then s' else advance_rounds digest now yr cache search limit n s'))"

record tree_search_result =
  tr_branches :: "research_branch list"
  tr_merge_candidate :: "merged_branch option"
  tr_committed_papers :: "paper list"
  tr_findings :: "evidence_finding list"
  tr_spawned_hypotheses :: "hypothesis list"
  tr_coverage :: "paper list dict"
  tr_explored :: "hypothesis list"

definition empty_manager :: "tree_search_config \<Rightarrow> branch_manager" where
  "empty_manager c = \<lparr>bm_branches = [], bm_max_branches = tc_max_branches c, bm_prune_below = tc_prune_below c\<rparr>"

definition explore_branches ::
  "(string \<Rightarrow> nat list) \<Rightarrow> int \<Rightarrow> int \<Rightarrow> tree_search_config \<Rightarrow> string \<Rightarrow> exploration_result list \<Rightarrow> paper list dict \<Rightarrow> tree_state" where
  "explore_branches digest now yr c query results cov =
     fold (explore_branch digest now yr (tc_max_unique_papers c) query) results
       \<lparr>ts_manager = empty_manager c, ts_coverage = cov, ts_explored = [], ts_committed = [], ts_findings = [], ts_spawned = []\<rparr>"

definition tree_search_run ::
  "(string \<Rightarrow> nat list) \<Rightarrow> int \<Rightarrow> int \<Rightarrow> query_cache \<Rightarrow> search_answers \<Rightarrow> tree_search_config \<Rightarrow> string
     \<Rightarrow> exploration_result list \<Rightarrow> paper list dict \<Rightarrow> tree_search_result" where
  "tree_search_run digest now yr cache search config query results cov =
     (let c = normalize_tree_config config;
          s = explore_branches digest now yr c query results cov;
          s = (if tc_disable_advance c then s
               else advance_rounds digest now yr cache search (tc_max_unique_papers c) (nat (tc_max_depth c)) s);
          act = active_branches (prune_branches (ts_manager s));
          merged = merge_branches digest act
      in \<lparr>tr_branches = act, tr_merge_candidate = merged,
          tr_committed_papers = (case merged of None \<Rightarrow> ts_committed s
             | Some m \<Rightarrow> append_unique_search_papers (ts_committed s) (mb_papers m)),
          tr_findings = (case merged of None \<Rightarrow> ts_findings s | Some m \<Rightarrow> ts_findings s @ mb_evidence m),
          tr_spawned_hypotheses = ts_spawned s, tr_coverage = ts_coverage s, tr_explored = ts_explored s\<rparr>)"

section \<open>Counting the same evidence again\<close>

lemma ln_odds_bound: "5 / 100 \<le> p \<Longrightarrow> p < 1 \<Longrightarrow> - 18 \<le> ln (p / (1 - p))" for p :: real
proof -
  assume p: "5 / 100 \<le> p" "p < 1"
  have "ln ((1 - p) / p) \<le> (1 - p) / p - 1" using p by (intro ln_le_minus_one) simp
  also have "\<dots> \<le> 18" using p by (simp add: field_simps)
  finally have "ln ((1 - p) / p) \<le> 18" .
  moreover have "ln (p / (1 - p)) = - ln ((1 - p) / p)" using p by (simp add: ln_div)
  ultimately show ?thesis by simp
qed

lemma sigmoid_of_odds: "0 < p \<Longrightarrow> p < 1 \<Longrightarrow> 1 / (1 + exp (- ln (p / (1 - p)))) = p" for p :: real
proof -
  assume p: "0 < p" "p < 1"
  have "exp (- ln (p / (1 - p))) = (1 - p) / p" using p by (simp add: exp_minus exp_ln)
  then have "1 + exp (- ln (p / (1 - p))) = 1 / p" using p by (simp only:) (simp add: field_simps)
  then show ?thesis by simp
qed

lemma support_raises_posterior:
  assumes "5 / 100 \<le> p" "p < 95 / 100" "0 < n"
  shows "p < bayesian_posterior p n 0 sl cl"
proof -
  define s where "s = clamp_float sl (51 / 100) (95 / 100)"
  define l where "l = ln (p / (1 - p)) + real_of_int n * ln (s / (1 - s))"
  have s: "51 / 100 \<le> s" "s \<le> 95 / 100" by (simp_all add: s_def clamp_float_def)
  then have "0 < ln (s / (1 - s))" by (simp add: ln_gt_zero)
  then have l: "ln (p / (1 - p)) < l" using assms(3) by (simp add: l_def)
  then have "1 / (1 + exp (- ln (p / (1 - p)))) < 1 / (1 + exp (- l))"
    by (intro divide_strict_left_mono) (auto intro!: mult_pos_pos add_pos_pos)
  then have "p < 1 / (1 + exp (- l))" using assms by (simp add: sigmoid_of_odds)
  then have "p < clamp_float (1 / (1 + exp (- l))) (5 / 100) (95 / 100)"
    using assms(2) by (simp add: clamp_float_def)
  moreover have "- 20 \<le> l" using l ln_odds_bound [of p] assms by simp
  moreover have "bayesian_posterior p n 0 sl cl
      = (if 20 < l then 95 / 100 else if l < - 20 then 5 / 100 else clamp_float (1 / (1 + exp (- l))) (5 / 100) (95 / 100))"
    using assms by (simp add: bayesian_posterior_def Let_def l_def s_def clamp_float_def)
  ultimately show ?thesis using assms(2) by (simp split: if_splits)
qed

lemma empty_batch_advances_nothing:
  assumes "\<And>q. search q = []"
  shows "fold (advance_result digest yr limit) (execute_loop_search_batch cache search qs) (b, cov, fs)
    = (b\<lparr>rb_papers := rb_papers (fst (fold (advance_result digest yr limit) (execute_loop_search_batch cache search qs) (b, cov, fs)))\<rparr>, cov, fs)"
proof -
  have "list_all (\<lambda>r. snd r = []) rs \<Longrightarrow> \<exists>ps. fold (advance_result digest yr limit) rs (b, cov, fs) = (b\<lparr>rb_papers := ps\<rparr>, cov, fs)" for rs
  proof (induction rs arbitrary: b)
    case Nil
    have "b = b\<lparr>rb_papers := rb_papers b\<rparr>" by simp
    then show ?case by (auto intro!: exI [of _ "rb_papers b"])
  next
    case (Cons r rs)
    obtain q where r: "r = (q, [])" using Cons.prems by (cases r) simp
    have "advance_result digest yr limit r (b, cov, fs) = (b\<lparr>rb_papers := sanitize_retrieved_papers (rb_papers b)\<rparr>, cov, fs)"
      by (simp add: r advance_result_def append_unique_within_budget_def sanitize_retrieved_papers_def List.map_filter_simps)
    then show ?case using Cons.IH [of "b\<lparr>rb_papers := sanitize_retrieved_papers (rb_papers b)\<rparr>"] Cons.prems by simp
  qed
  then obtain ps where "fold (advance_result digest yr limit) (execute_loop_search_batch cache search qs) (b, cov, fs)
      = (b\<lparr>rb_papers := ps\<rparr>, cov, fs)"
    using assms by (fastforce simp: execute_loop_search_batch_def list_all_iff)
  then show ?thesis by simp
qed

text \<open>
  A step of a branch that finds nothing makes its hypothesis more credible. The evidence the branch
  already had is counted into the belief again, so its confidence rises with every further query,
  whatever the query brings.
\<close>

lemma idle_advance_inflates_belief:
  assumes "rb_status b = ''active''" "filter_unexecuted_loop_queries (rb_pending_queries b) (rb_executed_queries b) \<noteq> []"
    and "\<And>q. search q = []"
    and "dict_get (rb_belief_state b) (branch_belief_id digest (rb_id b) (hy_claim (rb_hypothesis b))) = Some x"
    and "5 / 100 \<le> bl_confidence x" "bl_confidence x < 95 / 100" "bl_contradicting x = []"
    and "ev \<in> set (rb_evidence b)" "\<not> blank (ef_id ev)"
  shows "\<exists>b' x'. advance_branch_session digest now yr cache search limit (b, cov) = (b', cov, [])
    \<and> rb_evidence b' = rb_evidence b
    \<and> dict_get (rb_belief_state b') (branch_belief_id digest (rb_id b) (hy_claim (rb_hypothesis b))) = Some x'
    \<and> bl_confidence x < bl_confidence x'"
proof -
  let ?ids = "map (trim_space \<circ> ef_id) (filter (\<lambda>ev. \<not> blank (ef_id ev)) (rb_evidence b))"
  obtain q rest where q: "filter_unexecuted_loop_queries (rb_pending_queries b) (rb_executed_queries b) = q # rest"
    using assms(2) by (cases "filter_unexecuted_loop_queries (rb_pending_queries b) (rb_executed_queries b)") auto
  define c where "c = b\<lparr>rb_pending_queries := rest, rb_executed_queries := append_unique_loop_query (rb_executed_queries b) q\<rparr>"
  obtain ps where c: "fold (advance_result digest yr limit) (execute_loop_search_batch cache search [q]) (c, cov, [])
      = (c\<lparr>rb_papers := ps\<rparr>, cov, [])"
    using empty_batch_advances_nothing [where search = search and qs = "[q]" and b = c and fs = "[]", OF assms(3)] by blast
  have p: "rb_pending_queries b \<noteq> []"
    using assms(2) by (auto simp: filter_unexecuted_loop_queries_def append_unique_loop_queries_def)
  have a: "advance_branch_session digest now yr cache search limit (b, cov)
      = (attach_branch_evidence digest now (c\<lparr>rb_papers := ps\<rparr>), cov, [])"
    using assms(1) p c by (simp add: advance_branch_session_def q c_def [symmetric])
  have i: "filter (\<lambda>ev. \<not> blank (ef_id ev)) (rb_evidence b) \<noteq> []"
    using assms(8,9) by (auto simp: filter_empty_conv)
  then have "bl_confidence x < bayesian_posterior (bl_confidence x) (int (length ?ids)) 0 sl cl" for sl cl
    using assms(5,6) by (intro support_raises_posterior) (simp_all only: length_map of_nat_0_less_iff length_greater_0_conv simp_thms)
  then show ?thesis
    using i assms(4-7) by (auto simp: a attach_branch_evidence_def c_def Let_def update_belief_def dict_get_set)
qed

definition digest0 :: "string \<Rightarrow> nat list" where
  "digest0 s = [length s]"

definition empty_branches :: branch_manager where
  "empty_branches = \<lparr>bm_branches = [], bm_max_branches = 5, bm_prune_below = 3 / 10\<rparr>"

definition idle_branch :: research_branch where
  "idle_branch =
     (snd (fork_branch digest0 0 [] example_hypothesis empty_branches))
       \<lparr>rb_pending_queries := [''more evidence''], rb_evidence := [example_finding ''f1'' (8 / 10)]\<rparr>"

lemma idle_advance_inflates_belief_witness:
  "\<exists>b' x'. advance_branch_session digest0 0 2024 (\<lambda>_. None) (\<lambda>_. []) 10 (idle_branch, []) = (b', [], [])
    \<and> rb_evidence b' = rb_evidence idle_branch
    \<and> dict_get (rb_belief_state b') (branch_belief_id digest0 (rb_id idle_branch) (hy_claim (rb_hypothesis idle_branch))) = Some x'
    \<and> hy_confidence_score example_hypothesis < bl_confidence x'"
proof -
  have p: "rb_status idle_branch = ''active''"
    "filter_unexecuted_loop_queries (rb_pending_queries idle_branch) (rb_executed_queries idle_branch) \<noteq> []"
    "rb_evidence idle_branch = [example_finding ''f1'' (8 / 10)]" "\<not> blank (ef_id (example_finding ''f1'' (8 / 10)))"
    by code_simp+
  have "case dict_get (rb_belief_state idle_branch) (branch_belief_id digest0 (rb_id idle_branch) (hy_claim (rb_hypothesis idle_branch))) of
      None \<Rightarrow> False | Some x \<Rightarrow> 5 / 100 \<le> bl_confidence x \<and> bl_confidence x < 95 / 100 \<and> bl_contradicting x = []
        \<and> bl_confidence x = hy_confidence_score example_hypothesis"
    by code_simp
  then obtain x where x: "dict_get (rb_belief_state idle_branch) (branch_belief_id digest0 (rb_id idle_branch) (hy_claim (rb_hypothesis idle_branch))) = Some x"
    "5 / 100 \<le> bl_confidence x" "bl_confidence x < 95 / 100" "bl_contradicting x = []"
    "bl_confidence x = hy_confidence_score example_hypothesis"
    by (auto split: option.splits)
  show ?thesis
    unfolding x(5) [symmetric]
    by (rule idle_advance_inflates_belief [where ev = "example_finding ''f1'' (8 / 10)", OF p(1,2) refl x(1-4) _ p(4)])
      (simp add: p(3))
qed

section \<open>What the result leaves out\<close>

definition dropped_exploration :: "exploration_result \<Rightarrow> bool" where
  "dropped_exploration r \<longleftrightarrow>
     (case xr_evaluation r of
        None \<Rightarrow> explored_status (xr_status r) \<noteq> ''active''
      | Some ev \<Rightarrow> be_decision ev = ''prune'' \<or> (explored_status (xr_status r) \<noteq> ''active'' \<and> be_decision ev \<noteq> ''branch''))"

lemma set_dict_set_sub: "set (dict_set k v d) \<subseteq> insert (k, v) (set d)"
  by (induction d) auto

lemma active_put_branch:
  "active_branches bm = [] \<Longrightarrow> rb_status b \<noteq> ''active'' \<Longrightarrow> active_branches (put_branch b bm) = []"
  using set_dict_set_sub [of "rb_id b" b "bm_branches bm"]
  by (auto simp: active_branches_def put_branch_def filter_empty_conv)

lemma put_fork_branch:
  "rb_id b = rb_id (snd (fork_branch digest now p h bm)) \<Longrightarrow> put_branch b (fst (fork_branch digest now p h bm)) = put_branch b bm"
  by (simp add: put_branch_def fork_branch_def Let_def)

lemma attach_branch_evidence_keeps [simp]:
  "rb_id (attach_branch_evidence digest now b) = rb_id b"
  "rb_status (attach_branch_evidence digest now b) = rb_status b"
  "rb_executed_queries (attach_branch_evidence digest now b) = rb_executed_queries b"
  "rb_evidence (attach_branch_evidence digest now b) = rb_evidence b"
  "rb_papers (attach_branch_evidence digest now b) = rb_papers b"
  by (simp_all add: attach_branch_evidence_def Let_def)

lemma dropped_stays_inactive:
  assumes "dropped_exploration r" "active_branches (ts_manager s) = []"
  shows "active_branches (ts_manager (explore_branch digest now yr limit query r s)) = []"
proof -
  obtain bm b where f: "fork_branch digest now [] (xr_hypothesis r) (ts_manager s) = (bm, b)" by fastforce
  define c where "c = b\<lparr>rb_executed_queries := append_unique_loop_queries (rb_executed_queries b) (xr_queries r),
      rb_pending_queries := append_unique_loop_queries (rb_pending_queries b) (xr_suggested_queries r),
      rb_confidence := clamp_float (xr_confidence r) 0 1, rb_status := explored_status (xr_status r)\<rparr>"
  obtain d cov acc where a: "attach_initial_exploration digest now yr limit r c (ts_coverage s) = (d, cov, acc)"
    by (cases "attach_initial_exploration digest now yr limit r c (ts_coverage s)") auto
  have d: "rb_id d = rb_id b" "rb_status d = explored_status (xr_status r)"
    using a by (auto simp: attach_initial_exploration_def Let_def c_def split: prod.splits)
  have p: "put_branch e bm = put_branch e (ts_manager s)" if "rb_id e = rb_id b" for e
    using put_fork_branch [of e digest now "[]" "xr_hypothesis r" "ts_manager s"] that f by simp
  have pp: "put_branch e (put_branch d m) = put_branch e m" if "rb_id e = rb_id b" for e m
    using that d(1) by (simp add: put_branch_def)
  show ?thesis
    using assms d unfolding explore_branch_def Let_def f prod.case c_def [symmetric] a
    by (auto simp: dropped_exploration_def apply_branch_decision_def Let_def p pp intro!: active_put_branch split: option.splits)
qed

lemma dropped_leave_nothing:
  "list_all dropped_exploration rs \<Longrightarrow> active_branches (ts_manager s) = []
    \<Longrightarrow> active_branches (ts_manager (fold (explore_branch digest now yr limit query) rs s)) = []"
  by (induction rs arbitrary: s) (simp_all add: dropped_stays_inactive)

text \<open>
  Searches of branches that end refuted or pruned are not reported: the result has no branch, hence none
  of their queries, and no paper to merge, whatever was searched and found.
\<close>

lemma dropped_branches_are_unreported:
  assumes "list_all dropped_exploration results"
  shows "tr_branches (tree_search_run digest now yr cache search config query results cov) = []
    \<and> tr_merge_candidate (tree_search_run digest now yr cache search config query results cov) = None"
proof -
  let ?c = "normalize_tree_config config"
  have "active_branches (ts_manager (explore_branches digest now yr ?c query results cov)) = []"
    unfolding explore_branches_def using assms
    by (rule dropped_leave_nothing) (simp add: active_branches_def empty_manager_def)
  moreover have "advance_rounds digest now yr cache search limit n s = s" if "active_branches (ts_manager s) = []" for limit n s
    using that by (cases n) simp_all
  moreover have "prune_branches bm = bm" if "active_branches bm = []" for bm
    using that by (simp add: prune_branches_def)
  ultimately show ?thesis by (simp add: tree_search_run_def Let_def merge_branches_def)
qed

section \<open>Merging\<close>

text \<open>
  The merged branch has each paper id once: of the papers that have none - those known by a DOI, a link or
  a title alone - it keeps one, however many the branches found.
\<close>

lemma merge_identifies_papers_by_id:
  assumes "merge_branches digest bs = Some m"
  shows "distinct (map p_id (mb_papers m)) \<and> p_id ` set (mb_papers m) = p_id ` (\<Union>b \<in> set bs. set (rb_papers b))
    \<and> length (filter (\<lambda>p. p_id p = []) (mb_papers m)) \<le> 1"
proof -
  have m: "mb_papers m = uniq_by p_id [] (concat (map rb_papers bs))"
    using assms by (auto simp: merge_branches_def split: if_splits)
  have d: "distinct (map p_id (mb_papers m))" unfolding m by (simp add: distinct_uniq_by)
  have "distinct (map p_id ps) \<Longrightarrow> length (filter (\<lambda>p. p_id p = []) ps) \<le> 1" for ps
  proof (induction ps)
    case (Cons p ps)
    have "filter (\<lambda>p. p_id p = []) ps = []" if "p_id p = []"
      using Cons.prems that by (auto simp: filter_empty_conv image_iff)
    then show ?case using Cons by simp
  qed simp
  moreover have "p_id ` set (mb_papers m) = p_id ` (\<Union>b \<in> set bs. set (rb_papers b))"
    unfolding m using uniq_by_keys [of p_id "[]" "concat (map rb_papers bs)"] by auto
  ultimately show ?thesis using d by blast
qed

definition refuted_exploration :: exploration_result where
  "refuted_exploration = \<lparr>xr_hypothesis = example_hypothesis,
     xr_new_evidence = [titled_paper ''a'' '''' ''Alpha'', titled_paper ''b'' '''' ''Beta'', titled_paper ''c'' '''' ''Gamma''],
     xr_evaluation = Some \<lparr>be_decision = ''keep'', be_sub_hypotheses = [], be_suggested_queries = []\<rparr>,
     xr_suggested_queries = [], xr_queries = [''coffee trial'', ''coffee cohort''], xr_confidence = 2 / 10, xr_status = ''refuted''\<rparr>"

definition example_tree_config :: tree_search_config where
  "example_tree_config = \<lparr>tc_max_branches = 5, tc_prune_below = 3 / 10, tc_max_depth = 2, tc_max_unique_papers = 20,
     tc_queries_per_branch = 2, tc_disable_advance = True\<rparr>"

lemma dropped_branches_are_unreported_witness:
  "tr_branches (tree_search_run digest0 0 2024 (\<lambda>_. None) (\<lambda>_. []) example_tree_config ''coffee'' [refuted_exploration] []) = []
   \<and> length (xr_queries refuted_exploration) = 2 \<and> length (sanitize_retrieved_papers (xr_new_evidence refuted_exploration)) = 3"
proof (intro conjI)
  have "list_all dropped_exploration [refuted_exploration]" by code_simp
  then show "tr_branches (tree_search_run digest0 0 2024 (\<lambda>_. None) (\<lambda>_. []) example_tree_config ''coffee'' [refuted_exploration] []) = []"
    using dropped_branches_are_unreported by blast
  show "length (xr_queries refuted_exploration) = 2" by (simp add: refuted_exploration_def)
  show "length (sanitize_retrieved_papers (xr_new_evidence refuted_exploration)) = 3" by code_simp
qed

lemma merge_identifies_papers_by_id_witness:
  "\<exists>m. merge_branches digest0 [idle_branch\<lparr>rb_papers := [titled_paper [] ''10.1/a'' ''Alpha'', titled_paper [] ''10.1/b'' ''Beta'']\<rparr>] = Some m
    \<and> length (filter (\<lambda>p. p_id p = []) (mb_papers m)) \<le> 1"
  using merge_identifies_papers_by_id [of digest0 "[idle_branch\<lparr>rb_papers := [titled_paper [] ''10.1/a'' ''Alpha'', titled_paper [] ''10.1/b'' ''Beta'']\<rparr>]"]
  by (simp add: merge_branches_def)

section \<open>Whose queries are covered\<close>

definition tree_key :: "string \<Rightarrow> bool" where
  "tree_key k \<longleftrightarrow> has_prefix k ''tree:'' \<or> has_prefix k ''branch:''"

lemma trim_space_keeps_prefix:
  assumes "p \<noteq> []" "\<not> is_space (hd p)" "\<not> is_space (last p)"
  shows "prefix p (trim_space (p @ s))"
proof -
  have "dropWhile is_space (p @ s) = p @ s" using assms(1,2) by (cases p) simp_all
  moreover have "dropWhile P (u @ v) = dropWhile P u @ v" if "v \<noteq> []" "\<not> P (hd v)" for P and u v :: string
    using that by (induction u) (cases v, simp_all)
  then have "dropWhile is_space (rev s @ rev p) = dropWhile is_space (rev s) @ rev p"
    using assms(1,3) by (simp add: hd_rev)
  ultimately show ?thesis by (simp add: trim_space_def)
qed

lemma tree_key_trim [simp]: "tree_key (trim_space (CHR ''t'' # ''ree:'' @ s))" "tree_key (trim_space (''branch:'' @ s))"
  using trim_space_keeps_prefix [of "''tree:''" s] trim_space_keeps_prefix [of "''branch:''" s]
  by (simp_all add: tree_key_def has_prefix_def is_space_def)

lemma record_other_key: "trim_space q \<noteq> k \<Longrightarrow> dict_get (record_loop_query_coverage q ps cov) k = dict_get cov k"
  by (simp add: record_loop_query_coverage_def Let_def dict_get_set)

lemma fold_record_other_keys:
  assumes "\<And>q. q \<in> set qs \<Longrightarrow> tree_key (trim_space (f q))" "\<not> tree_key k"
  shows "dict_get (fold (\<lambda>q. record_loop_query_coverage (f q) ps) qs cov) k = dict_get cov k"
  using assms(1)
proof (induction qs arbitrary: cov)
  case (Cons q qs)
  have "trim_space (f q) \<noteq> k" using Cons.prems [of q] assms(2) by auto
  then show ?case using Cons by (simp add: record_other_key)
qed simp

lemma explore_branch_other_key:
  assumes "\<not> tree_key k"
  shows "dict_get (ts_coverage (explore_branch digest now yr limit query r s)) k = dict_get (ts_coverage s) k"
proof -
  obtain bm b where f: "fork_branch digest now [] (xr_hypothesis r) (ts_manager s) = (bm, b)" by fastforce
  define c where "c = b\<lparr>rb_executed_queries := append_unique_loop_queries (rb_executed_queries b) (xr_queries r),
      rb_pending_queries := append_unique_loop_queries (rb_pending_queries b) (xr_suggested_queries r),
      rb_confidence := clamp_float (xr_confidence r) 0 1, rb_status := explored_status (xr_status r)\<rparr>"
  obtain d cov acc where a: "attach_initial_exploration digest now yr limit r c (ts_coverage s) = (d, cov, acc)"
    by (cases "attach_initial_exploration digest now yr limit r c (ts_coverage s)") auto
  have "trim_space (''tree:'' @ rb_id c) \<noteq> k" using assms tree_key_trim(1) [of "rb_id c"] by auto
  then have "dict_get cov k = dict_get (ts_coverage s) k"
    using a assms tree_key_trim(1) by (auto simp: attach_initial_exploration_def Let_def fold_record_other_keys record_other_key split: prod.splits if_splits)
  moreover have "ts_coverage (fold (spawn_sub_branch digest now query bid h sugg) cs t) = ts_coverage t" for bid h sugg cs t
    by (induction cs arbitrary: t) (simp_all add: spawn_sub_branch_def Let_def split: prod.split)
  ultimately show ?thesis
    unfolding explore_branch_def Let_def f prod.case c_def [symmetric] a
    by (simp add: apply_branch_decision_def Let_def split: option.split)
qed

lemma advance_active_other_key:
  assumes "\<not> tree_key k"
  shows "dict_get (ts_coverage (fst (advance_active digest now yr cache search limit b (s, n)))) k = dict_get (ts_coverage s) k"
proof -
  have "dict_get (fst (snd (advance_result digest yr limit r x))) k = dict_get (fst (snd x)) k" for r x
  proof -
    obtain q ps b cov fs where rx: "r = (q, ps)" "x = (b, cov, fs)" by (metis prod.exhaust)
    have "trim_space (''branch:'' @ rb_id b @ '':'' @ q) \<noteq> k"
      using assms tree_key_trim(2) [of "rb_id b @ '':'' @ q"] by auto
    then show ?thesis by (simp add: rx advance_result_def Let_def record_other_key split: prod.split)
  qed
  then have "dict_get (fst (snd (fold (advance_result digest yr limit) rs x))) k = dict_get (fst (snd x)) k" for rs x
    by (induction rs arbitrary: x) simp_all
  then have "dict_get (fst (snd (advance_branch_session digest now yr cache search limit (b, cov)))) k = dict_get cov k" for cov
    by (auto simp: advance_branch_session_def Let_def case_prod_unfold split: list.split)
  then show ?thesis by (simp add: advance_active_def Let_def case_prod_unfold)
qed

lemma advance_rounds_other_key:
  assumes "\<not> tree_key k"
  shows "dict_get (ts_coverage (advance_rounds digest now yr cache search limit n s)) k = dict_get (ts_coverage s) k"
proof (induction n arbitrary: s)
  case (Suc n)
  have "dict_get (ts_coverage (fst (fold (advance_active digest now yr cache search limit) bs x))) k = dict_get (ts_coverage (fst x)) k" for bs x
  proof (induction bs arbitrary: x)
    case (Cons b bs)
    then show ?case using advance_active_other_key [OF assms, where s = "fst x" and n = "snd x"] by simp
  qed simp
  from this [of "active_branches (ts_manager s)" "(s, 0)"] show ?case
    using Suc.IH by (simp add: case_prod_unfold)
qed simp

text \<open>
  A tree search records no coverage for the queries it runs: all it records is under keys of its own, so
  for every query the coverage stays what it was, whatever papers the query brought.
\<close>

lemma tree_search_covers_no_query:
  assumes "\<not> tree_key k"
  shows "dict_get (tr_coverage (tree_search_run digest now yr cache search config query results cov)) k = dict_get cov k"
proof -
  have "dict_get (ts_coverage (fold (explore_branch digest now yr limit query) rs s)) k = dict_get (ts_coverage s) k" for limit rs s
    by (induction rs arbitrary: s) (simp_all add: explore_branch_other_key [OF assms])
  then show ?thesis
    by (simp add: tree_search_run_def Let_def explore_branches_def advance_rounds_other_key [OF assms])
qed

lemma tree_search_covers_no_query_witness:
  "dict_get (tr_coverage (tree_search_run digest0 0 2024 (\<lambda>_. None) (\<lambda>_. []) example_tree_config ''coffee'' [refuted_exploration] [])) ''coffee trial'' = None"
proof -
  have "\<not> tree_key ''coffee trial''" by code_simp
  from tree_search_covers_no_query [OF this] show ?thesis by simp
qed

end
