(* ===== verification/Evidence.thy ===== *)
theory Evidence
  imports BranchSearch
begin

text \<open>
  How the text of papers becomes evidence (\<open>orchestrator/internal/wisdev/research_hardening.go\<close>,
  \<open>evidence_spans.go\<close>, \<open>autonomous.go\<close>, \<open>parallel_search.go\<close>): claims extracted from summaries,
  abstracts and full texts, the sentences quoted for a claim, the weights of findings and the evidence
  selected for a hypothesis. \<open>show_any\<close> is how \<open>fmt\<close> prints a number, an array or an object; \<open>yr\<close> is the year.
\<close>

section \<open>Trimming and splitting text\<close>

definition last_index :: "(char \<Rightarrow> bool) \<Rightarrow> string \<Rightarrow> nat option" where
  "last_index P s = (case filter (\<lambda>i. P (s ! i)) [0..<length s] of [] \<Rightarrow> None | is \<Rightarrow> Some (last is))"

definition at_least :: "nat \<Rightarrow> nat option \<Rightarrow> bool" where
  "at_least n v \<longleftrightarrow> (case v of None \<Rightarrow> False | Some i \<Rightarrow> n \<le> i)"

definition trim_evidence_text :: "string \<Rightarrow> nat \<Rightarrow> string" where
  "trim_evidence_text text limit =
     (let t = join '' '' (str_fields (trim_space text)); cut = take limit t;
          stop = last_index (\<lambda>c. c \<in> set ''.!?'') cut; space = last_index (\<lambda>c. c = CHR '' '') cut
      in if t = [] then []
         else if limit = 0 \<or> length t \<le> limit then t
         else if at_least (limit div 2) stop then trim_space (take (Suc (the stop)) cut)
         else if at_least (limit div 2) space then trim_space (take (the space) cut)
         else trim_space cut)"

definition sentence_stop :: "char \<Rightarrow> char" where
  "sentence_stop c = (if c \<in> set ''!?;'' then CHR ''.'' else if c = CHR 0x0A then CHR '' '' else c)"

definition split_evidence_sentences :: "string \<Rightarrow> nat \<Rightarrow> string list" where
  "split_evidence_sentences text limit =
     (let limit = (if limit = 0 then 1 else limit); t = map sentence_stop (trim_evidence_text text 1200);
          parts = filter (\<lambda>p. 24 \<le> length p) (map (\<lambda>p. trim_evidence_text p 320) (split_char (CHR ''.'') t));
          out = take limit (uniq_by to_lower [] parts)
      in if trim_evidence_text text 1200 = [] then []
         else if out = [] then [trim_evidence_text t 320] else out)"

definition lead_ins :: "string list" where
  "lead_ins = [''BACKGROUND:'', ''Background:'', ''BACKGROUND '', ''Background '', ''ABSTRACT:'', ''Abstract:'', ''OBJECTIVE:'',
     ''Objective:'', ''METHODS:'', ''Methods:'', ''RESULTS:'', ''Results:'', ''CONCLUSION:'', ''Conclusion:'', ''CONCLUSIONS:'',
     ''Conclusions:'', ''PURPOSE:'', ''Purpose:'', ''INTRODUCTION:'', ''Introduction:'']"

definition strip_lead_in :: "string \<Rightarrow> string \<Rightarrow> string" where
  "strip_lead_in p t = (if has_prefix t p then trim_space (trim_prefix t p) else t)"

text \<open>A pass that strips something makes the text shorter.\<close>

function strip_lead_ins :: "string \<Rightarrow> string" where
  "strip_lead_ins t =
     (let u = fold strip_lead_in lead_ins t in if length u < length t then strip_lead_ins u else t)"
  by pat_completeness auto
termination by (relation "measure length") auto

declare strip_lead_ins.simps [simp del]

definition clean_abstract_lead_in :: "string \<Rightarrow> string" where
  "clean_abstract_lead_in text = strip_lead_ins (trim_space text)"

definition first_evidence_sentence :: "string \<Rightarrow> string" where
  "first_evidence_sentence text =
     (let t = clean_abstract_lead_in text in
      case split_evidence_sentences t 1 of
        [] \<Rightarrow> trim_evidence_text t 320
      | s # _ \<Rightarrow> clean_abstract_lead_in s)"

section \<open>Sources and their claims\<close>

text \<open>The first arXiv number: four digits, a dot, four or five digits and an optional version, as a word.\<close>

definition word_char :: "char \<Rightarrow> bool" where
  "word_char c \<longleftrightarrow> (let n = of_char c :: nat in
     (48 \<le> n \<and> n \<le> 57) \<or> (65 \<le> n \<and> n \<le> 90) \<or> (97 \<le> n \<and> n \<le> 122) \<or> n = 95)"

definition word_end :: "string \<Rightarrow> bool" where
  "word_end s \<longleftrightarrow> (case s of [] \<Rightarrow> True | c # _ \<Rightarrow> \<not> word_char c)"

definition arxiv_number_at :: "string \<Rightarrow> string option" where
  "arxiv_number_at s =
     (let a = take 5 s; ds = takeWhile is_digit (drop 5 s); rest = drop (5 + length ds) s;
          vs = takeWhile is_digit (drop 1 rest)
      in if length a = 5 \<and> list_all is_digit (take 4 a) \<and> a ! 4 = CHR ''.'' \<and> length ds \<in> {4, 5}
         then (if has_prefix rest ''v'' \<and> vs \<noteq> [] \<and> word_end (drop (1 + length vs) rest)
               then Some (a @ ds @ ''v'' @ vs)
               else if word_end rest then Some (a @ ds) else None)
         else None)"

fun find_arxiv_number :: "bool \<Rightarrow> string \<Rightarrow> string option" where
  "find_arxiv_number w [] = None"
| "find_arxiv_number w (c # s) =
     (case (if w then None else arxiv_number_at (c # s)) of
        Some m \<Rightarrow> Some m
      | None \<Rightarrow> find_arxiv_number (word_char c) s)"

fun first_arxiv_id :: "string list \<Rightarrow> string" where
  "first_arxiv_id [] = []"
| "first_arxiv_id (c # cs) =
     (case find_arxiv_number False c of
        Some m \<Rightarrow> m
      | None \<Rightarrow> if has_prefix (to_lower c) ''arxiv:'' then trim_space (drop 6 c) else first_arxiv_id cs)"

definition resolve_paper_arxiv_id :: "paper \<Rightarrow> string" where
  "resolve_paper_arxiv_id p =
     (if \<not> blank (p_arxiv_id p) then trim_space (p_arxiv_id p)
      else first_arxiv_id (trimmed [p_id p, p_link p, p_title p]))"

definition optional_any_string :: "(json \<Rightarrow> string) \<Rightarrow> json option \<Rightarrow> string" where
  "optional_any_string show_any v =
     (let s = (case v of None \<Rightarrow> ''<nil>'' | Some JNull \<Rightarrow> ''<nil>'' | Some (JStr s) \<Rightarrow> s
                 | Some (JBool b) \<Rightarrow> (if b then ''true'' else ''false'') | Some j \<Rightarrow> show_any j)
      in if trim_space s = ''<nil>'' then [] else trim_space s)"

definition structure_snippet :: "(json \<Rightarrow> string) \<Rightarrow> json \<Rightarrow> string" where
  "structure_snippet show_any raw =
     (case raw of
        JObj d \<Rightarrow> trim_evidence_text (first_non_empty
          (map (\<lambda>k. optional_any_string show_any (dict_get d k)) [''summary'', ''caption'', ''text'', ''title'', ''label''])) 320
      | _ \<Rightarrow> [])"

definition extract_structure_map_snippets :: "(json \<Rightarrow> string) \<Rightarrow> json list \<Rightarrow> nat \<Rightarrow> string list" where
  "extract_structure_map_snippets show_any items limit =
     take (if limit = 0 then 1 else limit)
       (uniq_by to_lower [] (filter (\<lambda>t. t \<noteq> []) (map (structure_snippet show_any) items)))"

text \<open>Each seed is a claim, which is its own snippet, with its confidence.\<close>

definition claim_candidates :: "(json \<Rightarrow> string) \<Rightarrow> paper \<Rightarrow> (string \<times> real) list" where
  "claim_candidates show_any p =
     (if blank (p_abstract p) then [] else [(first_evidence_sentence (trim_space (p_abstract p)), 92 / 100)])
     @ map (\<lambda>s. (s, 84 / 100)) (split_evidence_sentences (p_abstract p) 2)
     @ map (\<lambda>s. (s, 72 / 100)) (split_evidence_sentences (p_full_text p) 2)
     @ map (\<lambda>s. (s, 76 / 100)) (extract_structure_map_snippets show_any (p_structure_map p) 2)"

definition seeds_of :: "(string \<times> real) list \<Rightarrow> (string \<times> real) list" where
  "seeds_of cs = uniq_by (to_lower \<circ> fst) []
     (filter (\<lambda>(t, _). t \<noteq> []) (map (\<lambda>(t, c). (trim_evidence_text t 320, clamp_float c (35 / 100) (99 / 100))) cs))"

definition extract_evidence_claim_seeds :: "(json \<Rightarrow> string) \<Rightarrow> paper \<Rightarrow> nat \<Rightarrow> (string \<times> real) list" where
  "extract_evidence_claim_seeds show_any p limit =
     (let seeds = seeds_of (claim_candidates show_any p);
          seeds = (if seeds = [] \<and> \<not> blank (p_title p) then seeds_of [(p_title p, 45 / 100)] else seeds)
      in take (if limit = 0 then 3 else limit) seeds)"

text \<open>The findings of the source a paper is mapped to; keywords are left out.\<close>

definition evidence_source_id :: "paper \<Rightarrow> string" where
  "evidence_source_id p = first_non_empty [p_doi p, resolve_paper_arxiv_id p, p_id p, p_link p, p_title p]"

definition build_evidence_findings ::
  "(string \<Rightarrow> nat list) \<Rightarrow> (json \<Rightarrow> string) \<Rightarrow> paper \<Rightarrow> nat \<Rightarrow> evidence_finding list" where
  "build_evidence_findings digest show_any p limit =
     (let base = clamp_float (if 0 < p_score p then p_score p else 62 / 100) (45 / 100) (98 / 100);
          seeds = extract_evidence_claim_seeds show_any p limit
      in map (\<lambda>(i, claim, c).
           \<lparr>ef_id = stable_wisdev_id digest ''finding'' [evidence_source_id p, claim, itoa (int i)], ef_claim = claim,
            ef_source_id = evidence_source_id p, ef_paper_title = trim_space (p_title p), ef_snippet = claim,
            ef_year = p_year p, ef_confidence = clamp_float ((base + c) / 2) (45 / 100) (99 / 100),
            ef_status = ''accepted''\<rparr>) (zip [0..<length seeds] seeds))"

record evidence_item =
  ei_claim :: string
  ei_snippet :: string
  ei_paper_title :: string
  ei_paper_id :: string
  ei_status :: string
  ei_confidence :: real

definition build_evidence_items :: "(string \<Rightarrow> nat list) \<Rightarrow> (json \<Rightarrow> string) \<Rightarrow> paper \<Rightarrow> nat \<Rightarrow> evidence_item list" where
  "build_evidence_items digest show_any p limit =
     map (\<lambda>f. \<lparr>ei_claim = ef_claim f, ei_snippet = ef_snippet f, ei_paper_title = ef_paper_title f,
               ei_paper_id = first_non_empty [p_id p, ef_source_id f], ei_status = [], ei_confidence = ef_confidence f\<rparr>)
       (build_evidence_findings digest show_any p limit)"

definition collect_evidence_items ::
  "(string \<Rightarrow> nat list) \<Rightarrow> (json \<Rightarrow> string) \<Rightarrow> paper list \<Rightarrow> nat \<Rightarrow> nat \<Rightarrow> evidence_item list" where
  "collect_evidence_items digest show_any ps per_paper limit =
     take limit (concat (map (\<lambda>p. build_evidence_items digest show_any p (if per_paper = 0 then 2 else per_paper)) ps))"

definition build_observed_source_families :: "paper list \<Rightarrow> string list" where
  "build_observed_source_families ps =
     sort (uniq_by (\<lambda>v. v) [] (map to_lower (trimmed (concat (map (\<lambda>p. p_source p # p_source p # p_source_apis p) ps)))))"

section \<open>Sentences quoted for a claim\<close>

record evidence_span =
  sp_paper_id :: string
  sp_paper_title :: string
  sp_quote :: string
  sp_match_score :: real

definition claim_keywords :: "string \<Rightarrow> string list" where
  "claim_keywords claim =
     filter (\<lambda>t. 4 \<le> length t) (map (trim_set (''.,;:!?()[]'' @ [CHR 0x22] @ [CHR 0x27])) (str_fields (to_lower claim)))"

definition span_match_score :: "string list \<Rightarrow> string \<Rightarrow> real" where
  "span_match_score ks s =
     (if ks = [] then 0 else real (length (filter (contains (to_lower s)) ks)) / real (length ks))"

fun split_sentences :: "string \<Rightarrow> string \<Rightarrow> string list" where
  "split_sentences acc [] = [rev acc]"
| "split_sentences acc (c # s) =
     (if c \<in> set ''.!?'' then rev (c # acc) # split_sentences [] s else split_sentences (c # acc) s)"

definition split_span_sentences :: "string \<Rightarrow> string list" where
  "split_span_sentences text = filter (\<lambda>s. 30 \<le> length s) (map trim_space (split_sentences [] (trim_space text)))"

text \<open>A long quote is cut and ends with the three bytes of an ellipsis.\<close>

definition span_quote :: "string \<Rightarrow> string" where
  "span_quote s = (if 320 < length s then trim_space (take 320 s) @ [CHR 0xE2, CHR 0x80, CHR 0xA6] else s)"

definition extract_evidence_spans :: "string \<Rightarrow> evidence_finding \<Rightarrow> evidence_span list" where
  "extract_evidence_spans claim f =
     (let ks = claim_keywords claim; ss = split_span_sentences (ef_snippet f) in
      if ks = [] \<or> ss = [] then []
      else take 3 (sort_key (\<lambda>s. - sp_match_score s)
        (map (\<lambda>s. \<lparr>sp_paper_id = ef_source_id f, sp_paper_title = ef_paper_title f, sp_quote = span_quote s,
                   sp_match_score = span_match_score ks s\<rparr>)
          (filter (\<lambda>s. 15 / 100 \<le> span_match_score ks s) ss))))"

section \<open>Weights of findings\<close>

text \<open>\<open>before\<close> are the sources of the findings already weighted.\<close>

fun re_weight :: "int \<Rightarrow> string list \<Rightarrow> evidence_finding list \<Rightarrow> evidence_finding list" where
  "re_weight yr before [] = []"
| "re_weight yr before (f # fs) =
     (let before = ef_source_id f # before; n = count_list before (ef_source_id f);
          specificity = min (real (length (str_fields (ef_snippet f))) / 200) 1;
          penalty = (if 3 < n then real (n - 3) * (5 / 100) else 0);
          score = ef_confidence f * (55 / 100) + specificity * (10 / 100) + recency_norm yr (ef_year f) * (30 / 100) - penalty
      in f\<lparr>ef_confidence := clamp_float score 0 1\<rparr> # re_weight yr before fs)"

definition re_weight_evidence_confidence :: "int \<Rightarrow> evidence_finding list \<Rightarrow> evidence_finding list" where
  "re_weight_evidence_confidence yr fs = re_weight yr [] fs"

section \<open>Evidence of a hypothesis\<close>

definition loop_evidence_source_key :: "string \<Rightarrow> string" where
  "loop_evidence_source_key v = to_lower (trim_space v)"

text \<open>The sources by query; of two queries with the same key the later one of the map wins.\<close>

definition build_loop_query_source_index :: "paper list dict \<Rightarrow> string list dict" where
  "build_loop_query_source_index cov =
     fold (\<lambda>(q, ps) d.
        (let key = to_lower (trim_space q); ids = filter (\<lambda>k. k \<noteq> []) (map (loop_evidence_source_key \<circ> p_id) ps) in
         if key = [] \<or> ids = [] then d else dict_set key ids d)) cov []"

definition loop_evidence_overlap :: "string list \<Rightarrow> string list \<Rightarrow> nat" where
  "loop_evidence_overlap keywords values =
     length (filter (\<lambda>t. t \<in> set (loop_evidence_token_set values)) keywords)"

definition scored_evidence ::
  "string \<Rightarrow> string \<Rightarrow> string \<Rightarrow> string list dict \<Rightarrow> evidence_finding \<Rightarrow> (evidence_finding \<times> real) option" where
  "scored_evidence claim source context index f =
     (let ids = dict_get_or [] index (to_lower (trim_space source));
          ct = loop_evidence_token_set [claim]; xt = loop_evidence_token_set [context];
          texts = [ef_claim f, ef_snippet f, ef_paper_title f];
          source_match = (loop_evidence_source_key (ef_source_id f) \<in> set ids);
          overlap = loop_evidence_overlap ct texts
      in if \<not> source_match \<and> overlap < (if 3 \<le> length ct then 2 else 1) then None
         else Some (f, ef_confidence f + real (overlap * 12) + (if source_match then 100 else 0)
                         + real (loop_evidence_overlap xt texts * 3)))"

definition evidence_text_key :: "evidence_finding \<Rightarrow> string" where
  "evidence_text_key f = first_non_empty [ef_id f, ef_source_id f, ef_claim f]"

fun keep_unique_evidence :: "string list \<Rightarrow> evidence_finding list \<Rightarrow> evidence_finding list" where
  "keep_unique_evidence seen [] = []"
| "keep_unique_evidence seen (f # fs) =
     (let k = to_lower (evidence_text_key f) in
      if k \<noteq> [] \<and> k \<in> set seen then keep_unique_evidence seen fs
      else f # keep_unique_evidence (if k = [] then seen else k # seen) fs)"

definition select_loop_hypothesis_evidence ::
  "string \<Rightarrow> string \<Rightarrow> string \<Rightarrow> evidence_finding list \<Rightarrow> string list dict \<Rightarrow> nat \<Rightarrow> evidence_finding list" where
  "select_loop_hypothesis_evidence claim source context fs index limit =
     take limit (keep_unique_evidence [] (map fst
       (sort_key (\<lambda>(f, s). (- s, - ef_confidence f, evidence_text_key f))
         (List.map_filter (scored_evidence claim source context index) fs))))"

definition average_loop_evidence_confidence :: "evidence_finding list \<Rightarrow> real \<Rightarrow> real" where
  "average_loop_evidence_confidence evs fallback =
     (if evs = [] then clamp_float (if fallback \<le> 0 then 55 / 100 else fallback) (45 / 100) (95 / 100)
      else clamp_float (average (map ef_confidence evs)) (45 / 100) (95 / 100))"

section \<open>What the claims of a paper are\<close>

lemma length_dropWhile: "length (dropWhile P xs) \<le> length xs"
  by (induction xs) auto

lemma length_trim_space: "length (trim_space s) \<le> length s"
  unfolding trim_space_def using length_dropWhile [of is_space "rev (dropWhile is_space s)"] length_dropWhile [of is_space s]
  by simp

lemma length_trim_evidence_text: "0 < limit \<Longrightarrow> length (trim_evidence_text t limit) \<le> limit"
proof -
  assume "0 < limit"
  moreover have "length (trim_space (take n (take limit u))) \<le> limit" for n u
    using length_trim_space [of "take n (take limit u)"] by simp
  moreover have "length (trim_space (take limit u)) \<le> limit" for u
    using length_trim_space [of "take limit u"] by simp
  ultimately show ?thesis by (simp add: trim_evidence_text_def Let_def)
qed

lemma clamp_between: "lo \<le> hi \<Longrightarrow> lo \<le> clamp_float v lo hi \<and> clamp_float v lo hi \<le> hi"
  by (simp add: clamp_float_def)

lemma seeds_of_props:
  assumes "(t, c) \<in> set (seeds_of cs)"
  shows "t \<noteq> [] \<and> length t \<le> 320 \<and> 35 / 100 \<le> c \<and> c \<le> 99 / 100"
proof -
  have "(t, c) \<in> set (filter (\<lambda>(t, _). t \<noteq> []) (map (\<lambda>(t, c). (trim_evidence_text t 320, clamp_float c (35 / 100) (99 / 100))) cs))"
    using assms unfolding seeds_of_def by (rule subsetD [OF set_uniq_by_subset])
  then obtain u d where "t \<noteq> []" "t = trim_evidence_text u 320" "c = clamp_float d (35 / 100) (99 / 100)" by auto
  then show ?thesis using length_trim_evidence_text [of 320 u] clamp_between [of "35 / 100" "99 / 100" d] by simp
qed

lemma distinct_seeds_of: "distinct (map (to_lower \<circ> fst) (seeds_of cs))"
  unfolding seeds_of_def by (rule distinct_uniq_by)

lemma extract_seeds_props:
  "distinct (map (to_lower \<circ> fst) (extract_evidence_claim_seeds show_any p limit))"
  "length (extract_evidence_claim_seeds show_any p limit) \<le> (if limit = 0 then 3 else limit)"
  "(t, c) \<in> set (extract_evidence_claim_seeds show_any p limit) \<Longrightarrow> t \<noteq> [] \<and> length t \<le> 320 \<and> 35 / 100 \<le> c \<and> c \<le> 99 / 100"
proof -
  define cs where "cs = (if seeds_of (claim_candidates show_any p) = [] \<and> \<not> blank (p_title p)
      then [(p_title p, 45 / 100)] else claim_candidates show_any p)"
  have cs: "extract_evidence_claim_seeds show_any p limit = take (if limit = 0 then 3 else limit) (seeds_of cs)"
    unfolding extract_evidence_claim_seeds_def Let_def cs_def by (simp only: if_distrib [of seeds_of])
  show "distinct (map (to_lower \<circ> fst) (extract_evidence_claim_seeds show_any p limit))"
    unfolding cs take_map [symmetric] using distinct_seeds_of by (rule distinct_take)
  show "length (extract_evidence_claim_seeds show_any p limit) \<le> (if limit = 0 then 3 else limit)"
    unfolding cs by (simp only: length_take)
  show "(t, c) \<in> set (extract_evidence_claim_seeds show_any p limit) \<Longrightarrow> t \<noteq> [] \<and> length t \<le> 320 \<and> 35 / 100 \<le> c \<and> c \<le> 99 / 100"
    unfolding cs by (rule seeds_of_props) (rule in_set_takeD)
qed

lemma map_zip_index: "map (\<lambda>(i, a, b). f a b) (zip [n..<n + length xs] xs) = map (\<lambda>(a, b). f a b) xs"
proof (induction xs arbitrary: n)
  case (Cons x xs)
  have "n < n + length (x # xs)" by simp
  then have "[n..<n + length (x # xs)] = n # [Suc n..<Suc n + length xs]" by (simp only: upt_conv_Cons list.size add_Suc_right add_Suc add_0_right)
  then show ?case using Cons.IH [of "Suc n"] by (simp only: zip_Cons_Cons list.map) (simp add: case_prod_unfold)
qed simp

text \<open>
  What a paper contributes as evidence: at most as many findings as allowed, each with a claim of its own,
  compared without regard to case, not empty and of at most 320 bytes, quoted as its snippet, all with the
  identity of the paper and a confidence between 45 and 99 percent.
\<close>

lemma findings_of_a_paper:
  "length (build_evidence_findings digest show_any p limit) \<le> (if limit = 0 then 3 else limit)
   \<and> distinct (map (to_lower \<circ> ef_claim) (build_evidence_findings digest show_any p limit))
   \<and> list_all (\<lambda>f. ef_claim f \<noteq> [] \<and> length (ef_claim f) \<le> 320 \<and> ef_snippet f = ef_claim f
        \<and> ef_source_id f = evidence_source_id p \<and> 45 / 100 \<le> ef_confidence f \<and> ef_confidence f \<le> 99 / 100)
       (build_evidence_findings digest show_any p limit)"
proof -
  let ?s = "extract_evidence_claim_seeds show_any p limit" and ?f = "build_evidence_findings digest show_any p limit"
  have "map ef_claim ?f = map (\<lambda>(i, a, b). a) (zip [0..<0 + length ?s] ?s)"
    by (simp add: build_evidence_findings_def Let_def case_prod_unfold comp_def)
  then have c: "map ef_claim ?f = map fst ?s" unfolding map_zip_index by (simp add: case_prod_unfold)
  then have "map (to_lower \<circ> ef_claim) ?f = map (to_lower \<circ> fst) ?s" by (metis map_map)
  then have d: "distinct (map (to_lower \<circ> ef_claim) ?f)" using extract_seeds_props(1) by metis
  have l: "length ?f \<le> (if limit = 0 then 3 else limit)"
    using extract_seeds_props(2) [of show_any p limit] arg_cong [OF c, of length] by simp
  have "ef_claim f \<noteq> [] \<and> length (ef_claim f) \<le> 320" if "f \<in> set ?f" for f
  proof -
    have "ef_claim f \<in> set (map fst ?s)" using that c by (metis image_eqI set_map)
    then show ?thesis using extract_seeds_props(3) [of _ _ show_any p limit] by fastforce
  qed
  moreover have "ef_snippet f = ef_claim f \<and> ef_source_id f = evidence_source_id p \<and> 45 / 100 \<le> ef_confidence f
      \<and> ef_confidence f \<le> 99 / 100" if "f \<in> set ?f" for f
  proof -
    obtain v where "ef_snippet f = ef_claim f" "ef_source_id f = evidence_source_id p"
      "ef_confidence f = clamp_float v (45 / 100) (99 / 100)"
      using \<open>f \<in> set ?f\<close> by (auto simp: build_evidence_findings_def Let_def)
    then show ?thesis using clamp_between [of "45 / 100" "99 / 100" v] by simp
  qed
  ultimately show ?thesis using l d by (simp add: list_all_iff)
qed

section \<open>Old evidence\<close>

lemma re_weighted:
  assumes "f \<in> set fs"
  shows "\<exists>g \<in> set (re_weight yr before fs). ef_id g = ef_id f
    \<and> ef_confidence g \<le> clamp_float (ef_confidence f * (55 / 100) + 10 / 100 + recency_norm yr (ef_year f) * (30 / 100)) 0 1"
  using assms
proof (induction fs arbitrary: before)
  case (Cons a fs)
  show ?case
  proof (cases "f = a")
    case True
    define r where "r = recency_norm yr (ef_year a) * (30 / 100)"
    have "clamp_float (ef_confidence a * (55 / 100) + min (real k / 200) 1 * (10 / 100) + r - (if 3 < n then real (n - 3) * (5 / 100) else 0)) 0 1
        \<le> clamp_float (ef_confidence a * (55 / 100) + 10 / 100 + r) 0 1" for k n :: nat
    proof (rule clamp_float_mono)
      have "min (real k / 200) 1 \<le> 1" "0 \<le> (if 3 < n then real (n - 3) * (5 / 100) else 0)" by simp_all
      then show "ef_confidence a * (55 / 100) + min (real k / 200) 1 * (10 / 100) + r - (if 3 < n then real (n - 3) * (5 / 100) else 0)
          \<le> ef_confidence a * (55 / 100) + 10 / 100 + r" by linarith
    qed simp
    note le = this
    have sel: "ef_confidence (a\<lparr>ef_confidence := v\<rparr>) = v" for v by simp
    have g: "hd (re_weight yr before (a # fs)) = a\<lparr>ef_confidence := clamp_float (ef_confidence a * (55 / 100)
        + min (real (length (str_fields (ef_snippet a))) / 200) 1 * (10 / 100) + r
        - (if 3 < count_list (ef_source_id a # before) (ef_source_id a)
           then real (count_list (ef_source_id a # before) (ef_source_id a) - 3) * (5 / 100) else 0)) 0 1\<rparr>"
      by (simp only: re_weight.simps Let_def list.sel r_def)
    have "ef_confidence (hd (re_weight yr before (a # fs))) \<le> clamp_float (ef_confidence a * (55 / 100) + 10 / 100 + r) 0 1"
      unfolding g sel by (rule le)
    moreover have "ef_id (hd (re_weight yr before (a # fs))) = ef_id a" unfolding g by simp
    moreover have "hd (re_weight yr before (a # fs)) \<in> set (re_weight yr before (a # fs))" by (simp add: Let_def)
    ultimately show ?thesis unfolding True r_def by blast
  next
    case False
    then have "f \<in> set fs" using Cons.prems by simp
    then show ?thesis using Cons.IH [of "ef_source_id a # before"] by (auto simp: Let_def)
  qed
qed simp

lemma unique_trimmed_keeps: "x \<in> set xs \<Longrightarrow> \<not> blank x \<Longrightarrow> to_lower (trim_space x) \<in> to_lower ` set (unique_trimmed_strings xs)"
  unfolding unique_trimmed_strings_def uniq_by_keys by auto

text \<open>
  Evidence from old papers counts against a hypothesis. A finding of a paper twelve or more years old, of
  a confidence up to 72 percent, weighs less than a half after the weighting, and a hypothesis without evidence of its own takes
  every finding below a half as contradicting it: the belief built from it lists the finding there.
\<close>

lemma old_evidence_contradicts:
  assumes "f \<in> set fs" "0 < ef_year f" "ef_year f \<le> yr - 12" "ef_confidence f \<le> 72 / 100" "\<not> blank (ef_id f)"
    and "hy_evidence h = []" "hy_contradictions h = []" "\<not> blank (hy_claim h)"
  shows "\<exists>b. create_belief_from_hypothesis digest now h (re_weight_evidence_confidence yr fs) gap query = Some b
    \<and> to_lower (trim_space (ef_id f)) \<in> to_lower ` set (bl_contradicting b)"
proof -
  have "recency_norm yr (ef_year f) = 0" using assms(2,3) by (simp add: recency_norm_def Let_def)
  then have "clamp_float (ef_confidence f * (55 / 100) + 10 / 100 + recency_norm yr (ef_year f) * (30 / 100)) 0 1 < 1 / 2"
    using assms(4) by (simp add: clamp_float_def)
  with re_weighted [OF assms(1), of yr "[]"] obtain g
    where g: "g \<in> set (re_weight_evidence_confidence yr fs)" "ef_id g = ef_id f" "ef_confidence g < 1 / 2"
    unfolding re_weight_evidence_confidence_def by fastforce
  let ?con = "trimmed (map ef_id (filter (\<lambda>ev. \<not> 1 / 2 \<le> ef_confidence ev) (re_weight_evidence_confidence yr fs)))"
  have "trim_space (ef_id f) \<in> set ?con"
    using g assms(5) by (auto simp: image_iff intro!: bexI [of _ g])
  then have "to_lower (trim_space (trim_space (ef_id f))) \<in> to_lower ` set (unique_trimmed_strings ?con)"
    by (rule unique_trimmed_keeps) (use assms(5) in simp)
  then show ?thesis
    using assms(6-8) by (simp add: create_belief_from_hypothesis_def hypothesis_evidence_ids_def evidence_ids_def)
qed

definition old_finding :: evidence_finding where
  "old_finding = (example_finding ''f1'' (7 / 10))\<lparr>ef_year := 2010\<rparr>"

lemma old_evidence_contradicts_witness:
  "\<exists>b. create_belief_from_hypothesis digest0 0 (example_hypothesis\<lparr>hy_evidence := [], hy_contradictions := []\<rparr>)
      (re_weight_evidence_confidence 2024 [old_finding]) [] ''q'' = Some b
    \<and> ''f1'' \<in> to_lower ` set (bl_contradicting b)"
proof -
  have "0 < ef_year old_finding" "ef_year old_finding \<le> 2024 - 12" "ef_confidence old_finding \<le> 72 / 100"
    "\<not> blank (ef_id old_finding)" "to_lower (trim_space (ef_id old_finding)) = ''f1''" "\<not> blank (hy_claim example_hypothesis)"
    by code_simp+
  then show ?thesis
    using old_evidence_contradicts [of old_finding "[old_finding]" 2024 "example_hypothesis\<lparr>hy_evidence := [], hy_contradictions := []\<rparr>" digest0 0 "[]" "''q''"]
    by simp
qed

section \<open>Quoted sentences\<close>

lemma split_sentences_parts: "s \<in> set (split_sentences acc t) \<Longrightarrow> sublist s (rev acc @ t)"
proof (induction acc t rule: split_sentences.induct)
  case (2 acc c t)
  show ?case
  proof (cases "c \<in> set ''.!?''")
    case True
    then have "s = rev (c # acc) \<or> s \<in> set (split_sentences [] t)" using 2(3) by simp
    then show ?thesis
    proof
      assume "s = rev (c # acc)"
      then show ?thesis using sublist_append_rightI [of "rev (c # acc)" t] by simp
    next
      assume "s \<in> set (split_sentences [] t)"
      then have "sublist s t" using 2(1) True by simp
      then show ?thesis using sublist_middle [of s t "rev acc @ [c]" "[]"] by simp
    qed
  next
    case False
    then show ?thesis using 2 by simp
  qed
qed simp

lemma sublist_trim_space: "sublist (trim_space s) s"
proof -
  obtain u where u: "s = u @ dropWhile is_space s" by (metis takeWhile_dropWhile_id)
  define t where "t = dropWhile is_space s"
  have "suffix (dropWhile is_space (rev t)) (rev t)" by (rule suffix_dropWhile)
  then have "prefix (trim_space s) t" by (simp add: trim_space_def t_def [symmetric] suffix_to_prefix)
  then show ?thesis using u t_def by (metis prefix_def sublist_appendI)
qed

lemma sorted_sort_key_neg: "sorted (map (\<lambda>x. - f x) (sort_key (\<lambda>x. - f x) xs))" for f :: "'a \<Rightarrow> real"
  by (rule sorted_sort_key)

text \<open>
  The quotes of a claim: at most three, the best first, each matching between 15 and 100 percent of the
  claim's words; a quote of up to 320 bytes is a passage of the finding's text, word for word.
\<close>

lemma quotes_are_passages:
  "length (extract_evidence_spans claim f) \<le> 3
   \<and> sorted (map (\<lambda>s. - sp_match_score s) (extract_evidence_spans claim f))
   \<and> list_all (\<lambda>s. 15 / 100 \<le> sp_match_score s \<and> sp_match_score s \<le> 1
        \<and> (\<exists>q. sublist q (ef_snippet f) \<and> 30 \<le> length q \<and> sp_quote s = span_quote q)) (extract_evidence_spans claim f)"
proof (cases "claim_keywords claim = [] \<or> split_span_sentences (ef_snippet f) = []")
  case True
  then show ?thesis by (auto simp: extract_evidence_spans_def Let_def)
next
  case False
  define ks where "ks = claim_keywords claim"
  define span where "span = (\<lambda>s. \<lparr>sp_paper_id = ef_source_id f, sp_paper_title = ef_paper_title f, sp_quote = span_quote s,
                   sp_match_score = span_match_score ks s\<rparr>)"
  define all where "all = map span (filter (\<lambda>s. 15 / 100 \<le> span_match_score ks s) (split_span_sentences (ef_snippet f)))"
  have e: "extract_evidence_spans claim f = take 3 (sort_key (\<lambda>s. - sp_match_score s) all)"
    using False by (simp add: extract_evidence_spans_def Let_def all_def span_def ks_def)
  have spans: "15 / 100 \<le> sp_match_score s \<and> sp_match_score s \<le> 1
      \<and> (\<exists>q. sublist q (ef_snippet f) \<and> 30 \<le> length q \<and> sp_quote s = span_quote q)" if s_in: "s \<in> set all" for s
  proof -
    obtain q where q: "q \<in> set (split_span_sentences (ef_snippet f))" "s = span q" "15 / 100 \<le> span_match_score ks q"
      using s_in unfolding all_def set_map set_filter by blast
    obtain r where "r \<in> set (split_sentences [] (trim_space (ef_snippet f)))" "q = trim_space r" "30 \<le> length q"
      using q(1) by (auto simp: split_span_sentences_def)
    then have "sublist q (ef_snippet f)"
      using split_sentences_parts [of r "[]"] sublist_trim_space [of r] sublist_trim_space [of "ef_snippet f"]
      by (auto intro: sublist_order.order.trans)
    moreover have "span_match_score ks q \<le> 1"
      by (simp add: span_match_score_def divide_le_eq)
    ultimately show ?thesis using q(2,3) \<open>30 \<le> length q\<close> by (auto simp: span_def)
  qed
  have "list_all (\<lambda>s. 15 / 100 \<le> sp_match_score s \<and> sp_match_score s \<le> 1
      \<and> (\<exists>q. sublist q (ef_snippet f) \<and> 30 \<le> length q \<and> sp_quote s = span_quote q)) (extract_evidence_spans claim f)"
    unfolding e list_all_iff
  proof
    fix s assume "s \<in> set (take 3 (sort_key (\<lambda>s. - sp_match_score s) all))"
    then have "s \<in> set all" by (auto dest: in_set_takeD)
    then show "15 / 100 \<le> sp_match_score s \<and> sp_match_score s \<le> 1
      \<and> (\<exists>q. sublist q (ef_snippet f) \<and> 30 \<le> length q \<and> sp_quote s = span_quote q)" by (rule spans)
  qed
  moreover have "sorted (map (\<lambda>s. - sp_match_score s) (extract_evidence_spans claim f))"
    unfolding e take_map [symmetric] by (rule sorted_wrt_take) (rule sorted_sort_key_neg)
  ultimately show ?thesis by (simp add: e)
qed

end
