(* ===== verification/CoverageLedger.thy ===== *)
theory CoverageLedger
  imports Evidence
begin

text \<open>
  What the research still owes: the coverage ledger with its obligations, the gap state of the loop and the
  follow-up queries drawn from them (\<open>orchestrator/internal/wisdev/research_hardening.go\<close>,
  \<open>research_worker_orchestration.go\<close>, \<open>autonomous.go\<close>, \<open>unified_research_runtime.go\<close>).
\<close>

section \<open>Obligations\<close>

abbreviation covers :: "string \<Rightarrow> string list \<Rightarrow> bool" where
  "covers \<equiv> contains_any"

definition infer_coverage_obligation_type :: "coverage_ledger_entry \<Rightarrow> string" where
  "infer_coverage_obligation_type e =
     (let category = to_lower (trim_space (cl_category e)); status = to_lower (trim_space (cl_status e));
          text = to_lower (join '' '' [cl_category e, cl_title e, cl_description e])
      in if contains category ''contradiction'' then ''missing_counter_evidence''
         else if covers category [''population'', ''population_gap'', ''query_coverage'', ''planned_query'', ''coverage_gap'']
         then ''missing_population''
         else if covers category [''source_diversity'', ''source diversity''] then ''missing_source_diversity''
         else if contains category ''citation'' then ''missing_citation_identity''
         else if contains category ''claim'' \<and> status \<noteq> ''resolved'' then ''unverified_claim''
         else if covers text [''counter'', ''contradiction'', ''failed replication'', ''null result''] then ''missing_counter_evidence''
         else if covers text [''replication'', ''benchmark'', ''reproduc'', ''validation''] then ''missing_replication''
         else if covers text [''population'', ''cohort'', ''demographics''] then ''missing_population''
         else if covers text [''source diversity'', ''source_diversity'', ''independent source'', ''triangulat''] then ''missing_source_diversity''
         else if covers text [''full text'', ''pdf'', ''source acquisition'', ''fetch''] then ''missing_full_text''
         else if covers text [''citation'', ''doi'', ''arxiv'', ''pubmed'', ''openalex'', ''identity''] then ''missing_citation_identity''
         else if covers text [''claim'', ''evidence''] then ''unverified_claim''
         else if covers text [''budget'', ''exhaust''] then ''budget_exhausted''
         else ''coverage_gap'')"

definition infer_coverage_obligation_owner :: "coverage_ledger_entry \<Rightarrow> string" where
  "infer_coverage_obligation_owner e =
     (let category = to_lower (trim_space (cl_category e)); ob = to_lower (trim_space (cl_obligation_type e))
      in if covers category [''citation_graph'', ''citation_identity''] \<or> ob = ''missing_citation_identity'' then ''citation_graph''
         else if contains category ''citation_verifier'' then ''citation_verifier''
         else if contains category ''source'' \<or> ob \<in> {''missing_source_diversity'', ''missing_full_text'', ''missing_population''}
         then ''source_diversifier''
         else if contains category ''contradiction'' \<or> ob \<in> {''missing_counter_evidence'', ''missing_replication''}
         then ''contradiction_critic''
         else if contains category ''claim'' \<or> ob = ''unverified_claim'' then ''independent_verifier''
         else ''scout'')"

definition infer_coverage_obligation_severity :: "coverage_ledger_entry \<Rightarrow> string" where
  "infer_coverage_obligation_severity e =
     (if cl_required e \<or> 95 \<le> cl_priority e then ''critical''
      else if 80 \<le> cl_priority e \<or> cl_status e = ''open'' then ''high''
      else if 50 \<le> cl_priority e then ''medium'' else ''low'')"

text \<open>\<open>fmt.Sprintf("%.2f", x)\<close> for a number that is not negative.\<close>

definition fmt_2f :: "real \<Rightarrow> string" where
  "fmt_2f x =
     (let y = 100 * x; f = \<lfloor>y\<rfloor>; r = y - of_int f; n = (if 1 / 2 < r \<or> (r = 1 / 2 \<and> odd f) then f + 1 else f) in
      itoa (n div 100) @ ''.'' @ digits_of (nat (n mod 100 div 10)) @ digits_of (nat (n mod 10)))"

definition infer_coverage_closure_evidence :: "coverage_ledger_entry \<Rightarrow> string list" where
  "infer_coverage_closure_evidence e =
     (let out = (if cl_source_families e = [] then [] else [''source_families:'' @ join '','' (cl_source_families e)])
                @ (if 0 < cl_confidence e then [''confidence:'' @ fmt_2f (cl_confidence e)] else [])
                @ (if cl_supporting_queries e = [] then [] else [''queries:'' @ join '' | '' (cl_supporting_queries e)])
      in dedupe_trimmed_strings
           (if out = [] then [first_non_empty [cl_description e, cl_title e, ''resolved'']] else out))"

definition normalize_coverage_ledger_obligation :: "query_cache \<Rightarrow> coverage_ledger_entry \<Rightarrow> coverage_ledger_entry" where
  "normalize_coverage_ledger_obligation cache e =
     (let e = e\<lparr>cl_category := trim_space (cl_category e), cl_status := first_non_empty [cl_status e, ''open''],
                cl_title := trim_space (cl_title e), cl_description := trim_space (cl_description e),
                cl_supporting_queries := normalize_loop_queries cache [] (cl_supporting_queries e),
                cl_source_families := dedupe_trimmed_strings (cl_source_families e),
                cl_closure_evidence := dedupe_trimmed_strings (cl_closure_evidence e)\<rparr>;
          e = (if blank (cl_obligation_type e) then e\<lparr>cl_obligation_type := infer_coverage_obligation_type e\<rparr> else e);
          e = (if blank (cl_owner_worker e) then e\<lparr>cl_owner_worker := infer_coverage_obligation_owner e\<rparr> else e);
          e = (if blank (cl_severity e) then e\<lparr>cl_severity := infer_coverage_obligation_severity e\<rparr> else e)
      in if cl_closure_evidence e = [] \<and> cl_status e = ''resolved''
         then e\<lparr>cl_closure_evidence := infer_coverage_closure_evidence e\<rparr> else e)"

definition ledger_key :: "coverage_ledger_entry \<Rightarrow> string" where
  "ledger_key e = to_lower (first_non_empty [cl_id e, cl_category e @ ''|'' @ cl_title e])"

definition merge_coverage_ledger_entries ::
  "query_cache \<Rightarrow> coverage_ledger_entry list \<Rightarrow> coverage_ledger_entry list \<Rightarrow> coverage_ledger_entry list" where
  "merge_coverage_ledger_entries cache primary secondary =
     (let p = map (normalize_coverage_ledger_obligation cache) primary;
          s = map (normalize_coverage_ledger_obligation cache) secondary
      in p @ uniq_by ledger_key (map ledger_key p) (filter (\<lambda>e. ledger_key e \<noteq> []) s))"

section \<open>The ledger of the loop\<close>

record sufficiency_analysis =
  sa_sufficient :: bool
  sa_reasoning :: string
  sa_next_query :: string
  sa_next_queries :: "string list"
  sa_missing_aspects :: "string list"
  sa_missing_source_types :: "string list"
  sa_contradictions :: "string list"
  sa_confidence :: real

record loop_coverage =
  lc_planned :: nat
  lc_executed :: nat
  lc_covered :: nat
  lc_unique_papers :: nat
  lc_without_coverage :: "string list"
  lc_unexecuted :: "string list"

text \<open>\<open>%q\<close> on text without control characters other than tab and the line ends.\<close>

definition go_quote :: "string \<Rightarrow> string" where
  "go_quote s = [CHR 0x22] @ concat (map (\<lambda>c.
     if c = CHR 0x22 then [CHR 0x5C, CHR 0x22] else if c = CHR 0x5C then [CHR 0x5C, CHR 0x5C]
     else if c = CHR 0x0A then [CHR 0x5C, CHR ''n''] else if c = CHR 0x0D then [CHR 0x5C, CHR ''r'']
     else if c = CHR 0x09 then [CHR 0x5C, CHR ''t''] else [c]) s) @ [CHR 0x22]"

definition infer_missing_aspect_obligation :: "string \<Rightarrow> string \<times> string \<times> string" where
  "infer_missing_aspect_obligation aspect =
     (let a = trim_space aspect;
          ob = infer_coverage_obligation_type
                 \<lparr>cl_id = [], cl_category = ''coverage'', cl_status = [], cl_title = a, cl_description = a,
                  cl_supporting_queries = [], cl_source_families = [], cl_closure_evidence = [], cl_confidence = 0,
                  cl_required = False, cl_priority = 0, cl_obligation_type = [], cl_owner_worker = [], cl_severity = []\<rparr>
      in (ob,
          if ob = ''missing_counter_evidence'' \<or> ob = ''missing_replication'' then ''contradiction_critic''
          else if ob = ''missing_citation_identity'' then ''citation_graph''
          else if ob = ''missing_source_diversity'' \<or> ob = ''missing_full_text'' then ''source_diversifier''
          else ''scout'',
          if ob = ''missing_counter_evidence'' \<or> ob = ''missing_replication'' then ''critical''
          else if ob \<in> {''missing_full_text'', ''missing_source_diversity'', ''missing_citation_identity''} then ''high''
          else ''medium''))"

text \<open>What is written into an entry; its number in the ledger is part of its id.\<close>

record ledger_line =
  ll_category :: string
  ll_status :: string
  ll_title :: string
  ll_description :: string
  ll_queries :: "string list"
  ll_confidence :: real
  ll_obligation :: string
  ll_owner :: string
  ll_severity :: string

definition ledger_entry :: "(string \<Rightarrow> nat list) \<Rightarrow> string list \<Rightarrow> nat \<Rightarrow> ledger_line \<Rightarrow> coverage_ledger_entry" where
  "ledger_entry digest families n l =
     \<lparr>cl_id = stable_wisdev_id digest ''coverage-ledger'' [ll_category l, ll_title l, itoa (int n + 1)],
      cl_category = trim_space (ll_category l), cl_status = first_non_empty [ll_status l, ''open''],
      cl_title = trim_space (ll_title l), cl_description = trim_space (ll_description l),
      cl_supporting_queries = dedupe_trimmed_strings (ll_queries l), cl_source_families = families,
      cl_closure_evidence = [], cl_confidence = clamp_float (ll_confidence l) (25 / 100) (99 / 100),
      cl_required = False, cl_priority = 0, cl_obligation_type = trim_space (ll_obligation l),
      cl_owner_worker = trim_space (ll_owner l), cl_severity = trim_space (ll_severity l)\<rparr>"

definition uncovered_lines :: "loop_coverage \<Rightarrow> ledger_line list" where
  "uncovered_lines c =
     map (\<lambda>q. \<lparr>ll_category = ''query_coverage'', ll_status = ''open'', ll_title = ''No grounded evidence for query: '' @ trim_space q,
            ll_description = ''The loop executed '' @ go_quote (trim_space q) @ '' without attaching grounded evidence.'',
            ll_queries = [trim_space q], ll_confidence = 55 / 100, ll_obligation = ''missing_population'', ll_owner = ''scout'',
            ll_severity = ''high''\<rparr>) (lc_without_coverage c)
     @ map (\<lambda>q. \<lparr>ll_category = ''planned_query'', ll_status = ''open'', ll_title = ''Unexecuted planned branch: '' @ trim_space q,
            ll_description = ''The loop stopped before executing planned query '' @ go_quote (trim_space q) @ ''.'',
            ll_queries = [trim_space q], ll_confidence = 1 / 2, ll_obligation = ''missing_population'', ll_owner = ''scout'',
            ll_severity = ''high''\<rparr>) (lc_unexecuted c)"

definition aspect_line :: "sufficiency_analysis \<Rightarrow> string \<Rightarrow> ledger_line" where
  "aspect_line a aspect =
     (case infer_missing_aspect_obligation (trim_space aspect) of (ob, owner, severity) \<Rightarrow>
        \<lparr>ll_category = ''coverage'', ll_status = ''open'', ll_title = trim_space aspect, ll_description = trim_space aspect,
         ll_queries = sa_next_queries a, ll_confidence = sa_confidence a, ll_obligation = ob, ll_owner = owner,
         ll_severity = severity\<rparr>)"

definition analysis_lines :: "sufficiency_analysis \<Rightarrow> ledger_line list" where
  "analysis_lines a =
     map (aspect_line a) (sa_missing_aspects a)
     @ map (\<lambda>t. \<lparr>ll_category = ''source_diversity'', ll_status = ''open'', ll_title = ''Missing source coverage: '' @ trim_space t,
            ll_description = ''The loop still needs stronger '' @ trim_space t @ '' evidence.'', ll_queries = sa_next_queries a,
            ll_confidence = sa_confidence a, ll_obligation = ''missing_source_diversity'', ll_owner = ''source_diversifier'',
            ll_severity = ''high''\<rparr>) (sa_missing_source_types a)
     @ map (\<lambda>c. \<lparr>ll_category = ''contradiction'', ll_status = ''open'', ll_title = ''Resolve contradiction'',
            ll_description = trim_space c, ll_queries = sa_next_queries a, ll_confidence = sa_confidence a,
            ll_obligation = ''missing_counter_evidence'', ll_owner = ''contradiction_critic'', ll_severity = ''critical''\<rparr>)
         (sa_contradictions a)"

definition satisfied_line :: "sufficiency_analysis \<Rightarrow> ledger_line" where
  "satisfied_line a =
     \<lparr>ll_category = ''coverage'', ll_status = ''resolved'', ll_title = ''Coverage satisfied'', ll_description = trim_space (sa_reasoning a),
      ll_queries = [], ll_confidence = sa_confidence a, ll_obligation = ''coverage_gap'', ll_owner = ''scout'', ll_severity = ''low''\<rparr>"

definition checkpoint_line :: "loop_coverage \<Rightarrow> ledger_line" where
  "checkpoint_line c =
     (if lc_unique_papers c = 0
      then \<lparr>ll_category = ''coverage'', ll_status = ''open'', ll_title = ''No grounded evidence collected'',
            ll_description = ''The loop did not collect grounded sources and must reopen retrieval before synthesis can be treated as comprehensive.'',
            ll_queries = [], ll_confidence = 36 / 100, ll_obligation = ''missing_population'', ll_owner = ''scout'', ll_severity = ''high''\<rparr>
      else \<lparr>ll_category = ''coverage'', ll_status = ''open'', ll_title = ''Structured sufficiency checkpoint unavailable'',
            ll_description = ''The loop completed without a structured sufficiency payload, so coverage remains open until a follow-up pass validates the evidence set.'',
            ll_queries = [], ll_confidence = 42 / 100, ll_obligation = ''missing_population'', ll_owner = ''scout'', ll_severity = ''high''\<rparr>)"

definition inventory_line :: "string list \<Rightarrow> ledger_line" where
  "inventory_line families =
     \<lparr>ll_category = ''source_inventory'', ll_status = ''resolved'', ll_title = ''Observed source families'',
      ll_description = join '', '' families, ll_queries = [], ll_confidence = 8 / 10, ll_obligation = ''coverage_gap'',
      ll_owner = ''scout'', ll_severity = ''low''\<rparr>"

definition ledger_lines :: "sufficiency_analysis option \<Rightarrow> loop_coverage \<Rightarrow> string list \<Rightarrow> ledger_line list" where
  "ledger_lines analysis c families =
     (let ls = uncovered_lines c;
          ls = (case analysis of
                  Some a \<Rightarrow> (let ls = ls @ analysis_lines a in if sa_sufficient a \<and> ls = [] then [satisfied_line a] else ls)
                | None \<Rightarrow> if ls = [] then [checkpoint_line c] else ls)
      in if families = [] then ls else ls @ [inventory_line families])"

section \<open>The rubric of coverage\<close>

definition research_families_of_paper :: "paper \<Rightarrow> string list" where
  "research_families_of_paper p =
     (let text = to_lower (trim_space (to_lower (join '' '' [p_source p, join '' '' (p_source_apis p), p_venue p,
                   p_evidence_level p, p_title p, p_abstract p])))
      in (if blank (p_abstract p) \<and> blank (p_full_text p) then [] else [''primary_evidence''])
         @ (if blank (p_doi p) \<and> blank (p_arxiv_id p) \<and> blank (p_id p) then [] else [''citation_metadata''])
         @ (if covers text [''systematic review'', ''meta-analysis'', ''meta analysis'', ''review''] then [''review_or_meta_analysis''] else [])
         @ (if covers text [''replication'', ''reproducibility'', ''reproduce'', ''benchmark'', ''ablation'', ''dataset''] then [''replication_or_benchmark''] else [])
         @ (if covers text [''limitation'', ''contradict'', ''conflict'', ''failed'', ''null result'', ''negative result''] then [''counter_evidence''] else [])
         @ (if covers text [''clinical trial'', ''randomized'', ''randomised'', ''cohort'', ''guideline'', ''pubmed'', ''clinical_trials''] then [''clinical_primary''] else []))"

definition sorted_keys :: "string list \<Rightarrow> string list" where
  "sorted_keys ks = sort (remdups (filter (\<lambda>k. \<not> blank k) ks))"

definition infer_research_coverage_families :: "paper list \<Rightarrow> string list" where
  "infer_research_coverage_families ps = sorted_keys (concat (map research_families_of_paper ps))"

text \<open>The family, title, description, suffix of the query, priority and confidence of each requirement.\<close>

definition rubric_requirements :: "(string \<times> string \<times> string \<times> string \<times> int \<times> real) list" where
  "rubric_requirements =
     [(''primary_evidence'', ''Primary evidence required'',
         ''The research set needs at least one grounded primary or full-text evidence source.'', ''primary evidence study full text'', 90, 62 / 100),
      (''review_or_meta_analysis'', ''Review or meta-analysis coverage required'',
         ''High-depth research should include review-level synthesis when available.'', ''systematic review meta analysis'', 75, 58 / 100),
      (''replication_or_benchmark'', ''Replication or benchmark coverage required'',
         ''The loop must search for independent replication, reproducibility, benchmark, dataset, or ablation evidence.'',
         ''replication reproducibility benchmark dataset ablation'', 80, 6 / 10),
      (''counter_evidence'', ''Counter-evidence coverage required'',
         ''The loop must actively search for limitations, null results, failed replication, or contradictory findings.'',
         ''limitations contradictory evidence failed replication null results'', 85, 57 / 100),
      (''citation_metadata'', ''Citation metadata integrity required'',
         ''At least one source must expose stable citation identity such as DOI, arXiv, OpenAlex, Semantic Scholar, or an equivalent ID.'',
         ''DOI arXiv OpenAlex citation metadata'', 88, 64 / 100)]"

definition infer_coverage_rubric_obligation :: "string \<Rightarrow> string" where
  "infer_coverage_rubric_obligation family =
     (let f = to_lower (trim_space family) in
      if f = ''primary_evidence'' then ''missing_full_text''
      else if f = ''review_or_meta_analysis'' then ''missing_source_diversity''
      else if f = ''replication_or_benchmark'' then ''missing_replication''
      else if f = ''counter_evidence'' then ''missing_counter_evidence''
      else if f = ''citation_metadata'' then ''missing_citation_identity''
      else ''coverage_gap'')"

definition infer_coverage_rubric_owner :: "string \<Rightarrow> string" where
  "infer_coverage_rubric_owner family =
     (let ob = infer_coverage_rubric_obligation family in
      if ob = ''missing_counter_evidence'' \<or> ob = ''missing_replication'' then ''contradiction_critic''
      else if ob = ''missing_citation_identity'' then ''citation_graph''
      else if ob = ''missing_source_diversity'' \<or> ob = ''missing_full_text'' then ''source_diversifier''
      else ''scout'')"

definition infer_coverage_rubric_severity :: "string \<Rightarrow> int \<Rightarrow> string" where
  "infer_coverage_rubric_severity family priority =
     (let ob = infer_coverage_rubric_obligation family in
      if ob = ''missing_citation_identity'' then ''critical''
      else if ob \<in> {''missing_counter_evidence'', ''missing_replication'', ''missing_full_text''}
      then (if 85 \<le> priority then ''critical'' else ''high'')
      else ''medium'')"

definition build_coverage_rubric_ledger ::
  "(string \<Rightarrow> nat list) \<Rightarrow> string list \<Rightarrow> paper list \<Rightarrow> string list \<Rightarrow> coverage_ledger_entry list" where
  "build_coverage_rubric_ledger digest planned ps families =
     (let base = first_non_empty planned;
          observed = map to_lower (trimmed (families @ infer_research_coverage_families ps));
          missing = filter (\<lambda>r. fst r \<notin> set observed) rubric_requirements;
          entries = map (\<lambda>(family, title, description, suff, priority, confidence).
            \<lparr>cl_id = stable_wisdev_id digest ''coverage-rubric'' [family, base], cl_category = ''coverage_rubric'', cl_status = ''open'',
             cl_title = title, cl_description = description,
             cl_supporting_queries = dedupe_trimmed_strings [trim_space (base @ '' '' @ suff)],
             cl_source_families = sorted_keys observed, cl_closure_evidence = [], cl_confidence = confidence, cl_required = True,
             cl_priority = priority, cl_obligation_type = infer_coverage_rubric_obligation family,
             cl_owner_worker = infer_coverage_rubric_owner family,
             cl_severity = infer_coverage_rubric_severity family priority\<rparr>) missing
      in if entries = [] \<and> ps \<noteq> []
         then [\<lparr>cl_id = stable_wisdev_id digest ''coverage-rubric'' [''passed'', base], cl_category = ''coverage_rubric'',
                cl_status = ''resolved'', cl_title = ''Deterministic coverage rubric passed'',
                cl_description = ''Primary evidence, review/synthesis, replication or benchmark, counter-evidence, and citation metadata families were observed.'',
                cl_supporting_queries = [], cl_source_families = sorted_keys observed, cl_closure_evidence = [],
                cl_confidence = 84 / 100, cl_required = True, cl_priority = 70, cl_obligation_type = ''coverage_gap'',
                cl_owner_worker = ''scout'', cl_severity = ''low''\<rparr>]
         else entries)"

definition build_loop_coverage_ledger ::
  "(string \<Rightarrow> nat list) \<Rightarrow> query_cache \<Rightarrow> sufficiency_analysis option \<Rightarrow> loop_coverage \<Rightarrow> paper list \<Rightarrow> string list
     \<Rightarrow> coverage_ledger_entry list" where
  "build_loop_coverage_ledger digest cache analysis c ps planned =
     (let families = build_observed_source_families ps; ls = ledger_lines analysis c families;
          entries = map (\<lambda>(n, l). ledger_entry digest families n l) (zip [0..<length ls] ls)
      in if 3 \<le> lc_unique_papers c
         then merge_coverage_ledger_entries cache entries (build_coverage_rubric_ledger digest planned ps families)
         else entries)"

section \<open>Acquiring full texts\<close>

record source_acquisition_stats =
  as_total :: nat
  as_full_text :: nat
  as_pdf_candidates :: nat
  as_open_access :: nat
  as_link_candidates :: nat
  as_stable_identities :: nat
  as_provider_families :: "string list"
  as_direct_candidate_id :: "string list"

definition source_acquisition_paper_identity :: "paper \<Rightarrow> string" where
  "source_acquisition_paper_identity p =
     first_non_empty [p_doi p, p_arxiv_id p, p_id p, p_open_access_url p, p_pdf_url p, p_link p, p_title p]"

definition acquisition_families_of_paper :: "paper \<Rightarrow> string list" where
  "acquisition_families_of_paper p =
     filter (\<lambda>f. f \<noteq> []) [to_lower (first_non_empty [p_source p, join '' '' (p_source_apis p)])]
     @ (if blank (p_full_text p) then [] else [''full_text_available''])
     @ (if blank (p_pdf_url p) then [] else [''pdf_url_candidate''])
     @ (if blank (p_open_access_url p) then [] else [''open_access_candidate''])
     @ (if blank (p_link p) then [] else [''landing_page_candidate''])"

definition analyze_source_acquisition :: "paper list \<Rightarrow> source_acquisition_stats" where
  "analyze_source_acquisition ps =
     (let n = (\<lambda>P. length (filter P ps));
          direct = filter (\<lambda>p. source_acquisition_paper_identity p \<noteq> [] \<and> (\<not> blank (p_pdf_url p) \<or> \<not> blank (p_open_access_url p))) ps
      in \<lparr>as_total = length ps, as_full_text = n (\<lambda>p. \<not> blank (p_full_text p)), as_pdf_candidates = n (\<lambda>p. \<not> blank (p_pdf_url p)),
          as_open_access = n (\<lambda>p. \<not> blank (p_open_access_url p)), as_link_candidates = n (\<lambda>p. \<not> blank (p_link p)),
          as_stable_identities = n (\<lambda>p. source_acquisition_paper_identity p \<noteq> []),
          as_provider_families = concat (map acquisition_families_of_paper ps),
          as_direct_candidate_id = dedupe_trimmed_strings (map source_acquisition_paper_identity direct)\<rparr>)"

definition required_full_text_source_count :: "nat \<Rightarrow> nat" where
  "required_full_text_source_count n = (if n = 0 then 0 else if 8 \<le> n then 3 else if 3 \<le> n then 2 else 1)"

definition build_source_acquisition_follow_up_queries :: "string \<Rightarrow> source_acquisition_stats \<Rightarrow> string list" where
  "build_source_acquisition_follow_up_queries query st =
     (let base = first_non_empty [query, ''research question''] in
      dedupe_trimmed_strings
        ([base @ '' open access PDF full text'']
         @ (if 0 < as_pdf_candidates st \<or> 0 < as_open_access st then [base @ '' full text PDF extraction source acquisition''] else [])
         @ (if 0 < as_stable_identities st then [base @ '' DOI arXiv PubMed OpenAlex full text''] else [])
         @ (if as_pdf_candidates st = 0 \<and> as_open_access st = 0 then [base @ '' Unpaywall open access full text PDF''] else [])))"

definition build_source_acquisition_families :: "source_acquisition_stats \<Rightarrow> string list" where
  "build_source_acquisition_families st =
     sorted_keys
       (map to_lower (trimmed (as_provider_families st))
        @ (if 0 < as_full_text st then [''full_text_present''] else [])
        @ (if as_full_text st < required_full_text_source_count (as_total st) then [''full_text_missing''] else [])
        @ map (\<lambda>i. ''candidate:'' @ to_lower i) (trimmed (as_direct_candidate_id st)))"

definition build_source_acquisition_ledger :: "(string \<Rightarrow> nat list) \<Rightarrow> string \<Rightarrow> paper list \<Rightarrow> coverage_ledger_entry list" where
  "build_source_acquisition_ledger digest query ps =
     (let st = analyze_source_acquisition ps; required = required_full_text_source_count (as_total st);
          num = (\<lambda>n::nat. itoa (int n)); satisfied = (required \<le> as_full_text st);
          none = (as_pdf_candidates st = 0 \<and> as_open_access st = 0)
      in if as_total st = 0 then []
         else [\<lparr>cl_id = stable_wisdev_id digest ''source-acquisition''
                   [query, num (as_total st), num (as_full_text st), num (as_pdf_candidates st), num (as_open_access st)],
                cl_category = ''source_acquisition'', cl_status = (if satisfied then ''resolved'' else ''open''),
                cl_title = (if satisfied then ''Full-text source acquisition satisfied''
                            else if 0 < as_full_text st then ''Full-text source acquisition is partial''
                            else if none then ''No direct full-text acquisition candidate found''
                            else ''Full-text source acquisition pending''),
                cl_description = ''Full text is available for '' @ num (as_full_text st) @ ''/'' @ num (as_total st)
                   @ '' source(s); high-depth research requires '' @ num required @ ''. Direct acquisition candidates: pdf=''
                   @ num (as_pdf_candidates st) @ '', open_access='' @ num (as_open_access st) @ '', links='' @ num (as_link_candidates st)
                   @ '', stable_identities='' @ num (as_stable_identities st) @ ''.'',
                cl_supporting_queries = (if satisfied then [] else build_source_acquisition_follow_up_queries query st),
                cl_source_families = build_source_acquisition_families st, cl_closure_evidence = [],
                cl_confidence = (if satisfied then 84 / 100 else if 0 < as_full_text st then 62 / 100
                                 else if none then 48 / 100 else 54 / 100),
                cl_required = True, cl_priority = (if satisfied then 74 else 94), cl_obligation_type = ''missing_full_text'',
                cl_owner_worker = ''source_diversifier'',
                cl_severity = (if as_full_text st = 0 \<and> none then ''critical'' else if satisfied then ''low'' else ''high'')\<rparr>])"

section \<open>Follow-up queries\<close>

definition summarize_loop_gap_terms :: "string \<Rightarrow> string" where
  "summarize_loop_gap_terms v = join '' '' (take 4 (loop_evidence_tokens v))"

definition coverage_ledger_entry_is_generic_validation_checkpoint :: "coverage_ledger_entry \<Rightarrow> bool" where
  "coverage_ledger_entry_is_generic_validation_checkpoint e \<longleftrightarrow>
     equal_fold (trim_space (cl_category e)) ''coverage''
     \<and> contains (to_lower (trim_space (cl_title e))) ''structured sufficiency checkpoint unavailable''"

definition ledger_information_gain_score :: "coverage_ledger_entry \<Rightarrow> real" where
  "ledger_information_gain_score e =
     (let c = to_lower (trim_space (cl_category e)) in
      clamp_float (1 - cl_confidence e) (5 / 100) (95 / 100)
      + (if c = ''coverage_rubric'' then 50 / 100 else if c = ''source_acquisition'' then 49 / 100
         else if c = ''citation_integrity'' then 46 / 100 else if c = ''contradiction'' then 45 / 100
         else if c = ''hypothesis_branch'' then 42 / 100 else if c = ''claim_evidence'' then 38 / 100
         else if c = ''claim_source_diversity'' \<or> c = ''source_diversity'' then 34 / 100
         else if c = ''citation_gate'' then 30 / 100
         else if c = ''query_coverage'' \<or> c = ''planned_query'' then 22 / 100
         else if has_prefix c ''worker_'' then 18 / 100 else 0)
      + (if cl_supporting_queries e \<noteq> [] then 10 / 100 else 0)
      + (if cl_source_families e = [] then 8 / 100 else 0))"

text \<open>The query derived from an open entry; a blank one is not added.\<close>

definition derived_follow_up :: "string \<Rightarrow> coverage_ledger_entry \<Rightarrow> string" where
  "derived_follow_up base e =
     (if cl_category e = ''coverage_rubric''
      then (if cl_supporting_queries e = [] \<and> \<not> blank (cl_title e) then base @ '' '' @ summarize_loop_gap_terms (cl_title e) else [])
      else if cl_category e = ''citation_integrity'' then base @ '' DOI arXiv OpenAlex Semantic Scholar citation metadata''
      else if cl_category e = ''source_diversity'' then base @ '' independent replication systematic review''
      else if cl_category e = ''source_acquisition'' then base @ '' open access PDF full text source acquisition''
      else if cl_category e = ''citation_gate'' then base @ '' DOI citation metadata''
      else if coverage_ledger_entry_is_generic_validation_checkpoint e then base @ '' independent corroborating evidence''
      else (let t = summarize_loop_gap_terms (first_non_empty [cl_description e, cl_title e]) in
            if t = [] then [] else base @ '' '' @ t))"

definition build_follow_up_queries_from_ledger :: "string \<Rightarrow> coverage_ledger_entry list \<Rightarrow> int \<Rightarrow> string list" where
  "build_follow_up_queries_from_ledger query ledger limit =
     (let limit = (if limit \<le> 0 then 3 else limit); base = trim_space query;
          op = filter (\<lambda>e. cl_status e = ''open'') ledger
      in take (nat limit) (uniq_by to_lower []
           (trimmed (concat (map cl_supporting_queries op)
                     @ map (derived_follow_up base) (sort_key (\<lambda>e. - ledger_information_gain_score e) op)))))"

definition informative_stopwords :: "string list" where
  "informative_stopwords =
     [''a'', ''an'', ''and'', ''for'', ''from'', ''the'', ''with'', ''of'', ''to'', ''in'', ''on'', ''by'', ''or'', ''via'', ''into'',
      ''using'', ''based'', ''study'', ''paper'', ''review'', ''background'', ''methods'', ''applications'', ''findings'', ''outcomes'',
      ''safety'', ''algorithms'', ''benchmarks'', ''systems'', ''mechanisms'', ''theory'', ''experiments'', ''overview'',
      ''introduction'', ''discussion'', ''results'', ''conclusion'']"

definition collect_informative_terms :: "paper list \<Rightarrow> nat \<Rightarrow> string list" where
  "collect_informative_terms ps limit =
     take limit (uniq_by (\<lambda>t. t) []
       (filter (\<lambda>t. 4 \<le> length t \<and> t \<notin> set informative_stopwords)
         (map (trim_set (''.,:;()[]{}'' @ [CHR 0x22, CHR 0x27, CHR 0x60]))
           (concat (map (\<lambda>p. str_fields (to_lower (p_title p)) @ str_fields (to_lower (p_abstract p))) ps)))))"

definition derive_loop_follow_up_queries :: "string \<Rightarrow> sufficiency_analysis option \<Rightarrow> paper list \<Rightarrow> string list" where
  "derive_loop_follow_up_queries original analysis ps =
     (let query = trim_space original;
          from_analysis = (case analysis of None \<Rightarrow> []
            | Some a \<Rightarrow>
                map (\<lambda>t. query @ '' '' @ t) (filter (\<lambda>t. t \<noteq> []) (map summarize_loop_gap_terms (sa_missing_aspects a)))
                @ (if sa_missing_source_types a \<noteq> [] \<and> query \<noteq> []
                   then [query @ '' '' @ join '' '' (take 2 (sa_missing_source_types a))] else [])
                @ map (\<lambda>t. query @ '' contradiction '' @ t) (filter (\<lambda>t. t \<noteq> []) (map summarize_loop_gap_terms (sa_contradictions a))));
          from_papers = map (\<lambda>t. if query = [] then t else query @ '' '' @ t) (collect_informative_terms ps 4)
      in take 4 (uniq_by to_lower [] (trimmed (from_analysis @ from_papers))))"

section \<open>Sufficiency\<close>

definition normalize_sufficiency_analysis ::
  "query_cache \<Rightarrow> string \<Rightarrow> sufficiency_analysis \<Rightarrow> paper list \<Rightarrow> sufficiency_analysis" where
  "normalize_sufficiency_analysis cache original a ps =
     (let a = a\<lparr>sa_reasoning := trim_space (sa_reasoning a),
                sa_missing_aspects := dedupe_trimmed_strings (sa_missing_aspects a),
                sa_missing_source_types := dedupe_trimmed_strings (sa_missing_source_types a),
                sa_contradictions := dedupe_trimmed_strings (sa_contradictions a)\<rparr>;
          qs = normalize_loop_queries cache [] (sa_next_query a # sa_next_queries a);
          qs = (if \<not> sa_sufficient a \<and> qs = [] then derive_loop_follow_up_queries original (Some a) ps else qs);
          a = a\<lparr>sa_next_queries := take 4 qs\<rparr>;
          a = (if blank (sa_next_query a) \<and> sa_next_queries a \<noteq> [] then a\<lparr>sa_next_query := hd (sa_next_queries a)\<rparr> else a);
          c = (if sa_confidence a \<le> 0 then (if sa_sufficient a then 82 / 100 else 45 / 100) else sa_confidence a)
      in a\<lparr>sa_confidence := clamp_float c 0 1\<rparr>)"

definition heuristic_sufficiency_analysis ::
  "(string \<Rightarrow> nat list) \<Rightarrow> (json \<Rightarrow> string) \<Rightarrow> query_cache \<Rightarrow> string \<Rightarrow> paper list \<Rightarrow> sufficiency_analysis" where
  "heuristic_sufficiency_analysis digest show_any cache original ps =
     (let none = (ps = [] \<or> collect_evidence_items digest show_any ps 2 8 = []) in
      normalize_sufficiency_analysis cache original
        \<lparr>sa_sufficient = False,
         sa_reasoning = ''Structured sufficiency checkpoint unavailable; heuristic evidence coverage used without declaring the research complete.'',
         sa_next_query = (if none then trim_space original else []), sa_next_queries = [],
         sa_missing_aspects =
           (if none then [''No grounded evidence snippets were extracted from retrieved papers.'']
            else [''Structured sufficiency confirmation is unavailable; continue retrieval until search budgets or explicit coverage gates stop the loop.'']),
         sa_missing_source_types =
           (if length (build_observed_source_families ps) < 2 then [''independent source diversity''] else []),
         sa_contradictions = [], sa_confidence = 45 / 100\<rparr> ps)"

section \<open>The gap state\<close>

record loop_gap_state =
  lg_sufficient :: bool
  lg_reasoning :: string
  lg_next_queries :: "string list"
  lg_missing_aspects :: "string list"
  lg_missing_source_types :: "string list"
  lg_contradictions :: "string list"
  lg_confidence :: real
  lg_source_families :: "string list"
  lg_evidence_count :: nat
  lg_ledger :: "coverage_ledger_entry list"
  lg_coverage :: loop_coverage

definition loop_coverage_state :: "string list \<Rightarrow> string list \<Rightarrow> paper list dict \<Rightarrow> paper list \<Rightarrow> loop_coverage" where
  "loop_coverage_state planned executed cov ps =
     (let ex = trimmed executed in
      \<lparr>lc_planned = length planned, lc_executed = length executed,
       lc_covered = length (filter (\<lambda>q. dict_get_or [] cov q \<noteq> []) ex), lc_unique_papers = length ps,
       lc_without_coverage = dedupe_trimmed_strings (filter (\<lambda>q. dict_get_or [] cov q = []) ex),
       lc_unexecuted = dedupe_trimmed_strings (filter (\<lambda>q. \<not> contains_normalized_loop_query executed q) (trimmed planned))\<rparr>)"

definition merge_source_acquisition_ledger ::
  "(string \<Rightarrow> nat list) \<Rightarrow> query_cache \<Rightarrow> loop_gap_state \<Rightarrow> string \<Rightarrow> paper list \<Rightarrow> string \<Rightarrow> loop_gap_state" where
  "merge_source_acquisition_ledger digest cache gap query ps plane =
     (let entries = build_source_acquisition_ledger digest query ps;
          n = length (filter (\<lambda>e. equal_fold (trim_space (cl_status e)) ''open'') entries);
          gap' = gap\<lparr>lg_ledger := merge_coverage_ledger_entries cache (lg_ledger gap) entries\<rparr>
      in if \<not> is_high_depth_research_plane plane \<or> entries = [] then gap
         else if n = 0 then gap'
         else gap'\<lparr>lg_sufficient := False,
                lg_missing_aspects := dedupe_trimmed_strings
                  (lg_missing_aspects gap @ [itoa (int n) @ '' full-text source acquisition gap(s) remain open'']),
                lg_next_queries := dedupe_trimmed_strings
                  (build_follow_up_queries_from_ledger query entries 3 @ lg_next_queries gap)\<rparr>)"

definition gap_lists :: "sufficiency_analysis option \<Rightarrow> loop_coverage \<Rightarrow> string list \<times> string list" where
  "gap_lists analysis c =
     (case analysis of
        None \<Rightarrow>
          (let ma = (if 0 < lc_executed c \<and> lc_covered c < lc_executed c
                     then [''Some planned research branches executed without adding grounded evidence.''] else []);
               ma = (if ma = [] then lc_unexecuted c else ma)
           in (if lc_without_coverage c \<noteq> [] then lc_without_coverage c else lc_unexecuted c, ma))
      | Some a \<Rightarrow>
          (let nq = dedupe_trimmed_strings (sa_next_queries a); ma = dedupe_trimmed_strings (sa_missing_aspects a)
           in (if nq = [] then lc_without_coverage c else nq, if ma = [] then lc_unexecuted c else ma)))"

definition build_loop_gap_state ::
  "(string \<Rightarrow> nat list) \<Rightarrow> (json \<Rightarrow> string) \<Rightarrow> query_cache \<Rightarrow> string list \<Rightarrow> string list \<Rightarrow> paper list dict \<Rightarrow> paper list
     \<Rightarrow> sufficiency_analysis option \<Rightarrow> bool \<Rightarrow> string \<Rightarrow> loop_gap_state" where
  "build_loop_gap_state digest show_any cache planned executed cov ps analysis converged plane =
     (let c = loop_coverage_state planned executed cov ps;
          fallback = (if converged then 82 / 100 else 45 / 100);
          (nq, ma) = gap_lists analysis c;
          conf = (case analysis of None \<Rightarrow> 0 | Some a \<Rightarrow> clamp_float (sa_confidence a) 0 1);
          gap = \<lparr>lg_sufficient = converged, lg_reasoning = (case analysis of None \<Rightarrow> [] | Some a \<Rightarrow> trim_space (sa_reasoning a)),
             lg_next_queries = nq, lg_missing_aspects = ma,
             lg_missing_source_types = (case analysis of None \<Rightarrow> [] | Some a \<Rightarrow> dedupe_trimmed_strings (sa_missing_source_types a)),
             lg_contradictions = (case analysis of None \<Rightarrow> [] | Some a \<Rightarrow> dedupe_trimmed_strings (sa_contradictions a)),
             lg_confidence = (if conf = 0 then fallback else conf),
             lg_source_families = build_observed_source_families ps,
             lg_evidence_count = length (collect_evidence_items digest show_any ps 2 8),
             lg_ledger = build_loop_coverage_ledger digest cache analysis c ps planned, lg_coverage = c\<rparr>
      in merge_source_acquisition_ledger digest cache gap (first_non_empty planned) ps plane)"

definition is_open_coverage_ledger_entry_actionable :: "coverage_ledger_entry \<Rightarrow> bool" where
  "is_open_coverage_ledger_entry_actionable e \<longleftrightarrow>
     (let ob = to_lower (trim_space (cl_obligation_type e)); ob = (if ob = [] then infer_coverage_obligation_type e else ob)
      in ob \<noteq> [] \<and> ob \<noteq> ''budget_exhausted'')"

definition has_open_actionable_coverage_gaps :: "loop_gap_state option \<Rightarrow> bool" where
  "has_open_actionable_coverage_gaps gap \<longleftrightarrow>
     (case gap of None \<Rightarrow> False
      | Some g \<Rightarrow>
          list_ex (\<lambda>e. equal_fold (trim_space (cl_status e)) ''open''
                       \<and> \<not> coverage_ledger_entry_is_generic_validation_checkpoint e
                       \<and> is_open_coverage_ledger_entry_actionable e) (lg_ledger g)
          \<or> lg_next_queries g \<noteq> [] \<or> lg_missing_aspects g \<noteq> [] \<or> lg_missing_source_types g \<noteq> [] \<or> lg_contradictions g \<noteq> [])"

text \<open>Why a run of the loop alone stopped: there is no verdict on claims and no verifier yet.\<close>

definition determine_autonomous_stop_reason :: "loop_gap_state option \<Rightarrow> paper list \<Rightarrow> bool \<Rightarrow> string" where
  "determine_autonomous_stop_reason gap ps converged =
     (if has_open_actionable_coverage_gaps gap then ''coverage_open''
      else if ps = [] then ''no_grounded_sources''
      else if converged then ''coverage_satisfied'' else ''budget_or_iteration_limit'')"

definition build_recursive_gap_follow_up_queries ::
  "query_cache \<Rightarrow> string \<Rightarrow> loop_gap_state \<Rightarrow> sufficiency_analysis option \<Rightarrow> int \<Rightarrow> string list" where
  "build_recursive_gap_follow_up_queries cache query gap analysis limit =
     (let cs = build_follow_up_queries_from_ledger query (lg_ledger gap) (limit + 2) @ lg_next_queries gap
               @ (case analysis of None \<Rightarrow> [] | Some a \<Rightarrow> sa_next_queries a);
          cs = (if cs = [] \<and> analysis \<noteq> None then derive_loop_follow_up_queries query analysis [] else cs);
          cs = normalize_loop_queries cache [] cs
      in if 0 < limit then take (nat limit) cs else cs)"

section \<open>When a run may call itself satisfied\<close>

lemma set_dedupe [simp]: "set (dedupe_trimmed_strings xs) = set (trimmed xs)"
proof -
  have "(\<lambda>v. v) ` set (dedupe_trimmed_strings xs) = (\<lambda>v. v) ` set (trimmed xs) - set []"
    unfolding dedupe_trimmed_strings_def by (rule uniq_by_keys)
  then show ?thesis by simp
qed

lemma dedupe_Nil_iff: "dedupe_trimmed_strings xs = [] \<longleftrightarrow> (\<forall>x \<in> set xs. blank x)"
proof -
  have "dedupe_trimmed_strings xs = [] \<longleftrightarrow> set (dedupe_trimmed_strings xs) = {}" by (simp only: set_empty)
  also have "\<dots> \<longleftrightarrow> (\<forall>x \<in> set xs. blank x)" by auto
  finally show ?thesis .
qed

lemma gap_lists_open:
  assumes "gap_lists analysis c = ([], [])"
  shows "lc_without_coverage c = []" "lc_unexecuted c = []"
  using assms by (auto simp: gap_lists_def Let_def split: option.splits if_splits)

lemma gap_lists_clean:
  assumes "gap_lists analysis (loop_coverage_state planned executed cov ps) = (nq, ma)"
  shows "\<forall>x \<in> set nq \<union> set ma. \<not> blank x"
proof -
  have s: "\<not> blank ''Some planned research branches executed without adding grounded evidence.''" by code_simp
  have "\<forall>x \<in> set (lc_without_coverage (loop_coverage_state planned executed cov ps)). \<not> blank x"
    "\<forall>x \<in> set (lc_unexecuted (loop_coverage_state planned executed cov ps)). \<not> blank x"
    by (auto simp: loop_coverage_state_def Let_def)
  then show ?thesis
    using assms s by (auto simp: gap_lists_def Let_def split: option.splits if_splits)
qed

lemma gap_state_lists:
  assumes "\<not> has_open_actionable_coverage_gaps (Some (build_loop_gap_state digest show_any cache planned executed cov ps analysis converged plane))"
  shows "gap_lists analysis (loop_coverage_state planned executed cov ps) = ([], [])"
proof -
  obtain nq ma where g: "gap_lists analysis (loop_coverage_state planned executed cov ps) = (nq, ma)" by fastforce
  have "dedupe_trimmed_strings (xs @ nq) = [] \<Longrightarrow> nq = []" "dedupe_trimmed_strings (ma @ xs) = [] \<Longrightarrow> ma = []" for xs
    using gap_lists_clean [OF g] unfolding dedupe_Nil_iff by (cases nq; cases ma; auto)+
  then show ?thesis using assms g
    by (auto simp: has_open_actionable_coverage_gaps_def build_loop_gap_state_def merge_source_acquisition_ledger_def Let_def split: if_splits)
qed

lemma coverage_state_complete:
  assumes "lc_without_coverage (loop_coverage_state planned executed cov ps) = []"
    and "lc_unexecuted (loop_coverage_state planned executed cov ps) = []"
  shows "(\<forall>q \<in> set planned. blank q \<or> contains_normalized_loop_query executed q)
    \<and> (\<forall>q \<in> set executed. blank q \<or> dict_get_or [] cov (trim_space q) \<noteq> [])"
proof (intro conjI ballI)
  have u: "\<forall>x \<in> set (filter (\<lambda>q. \<not> contains_normalized_loop_query executed q) (trimmed planned)). blank x"
    using assms(2) by (simp only: loop_coverage_state_def Let_def loop_coverage.simps dedupe_Nil_iff)
  have w: "\<forall>x \<in> set (filter (\<lambda>q. dict_get_or [] cov q = []) (trimmed executed)). blank x"
    using assms(1) by (simp only: loop_coverage_state_def Let_def loop_coverage.simps dedupe_Nil_iff)
  have c: "contains_normalized_loop_query executed (trim_space q) = contains_normalized_loop_query executed q" for q
    by (simp add: contains_normalized_loop_query_def)
  show "blank q \<or> contains_normalized_loop_query executed q" if "q \<in> set planned" for q
  proof (rule ccontr)
    assume n: "\<not> (blank q \<or> contains_normalized_loop_query executed q)"
    then have "trim_space q \<in> set (filter (\<lambda>q. \<not> contains_normalized_loop_query executed q) (trimmed planned))"
      using that by (simp add: c)
    from bspec [OF u this] show False using n by simp
  qed
  show "blank q \<or> dict_get_or [] cov (trim_space q) \<noteq> []" if "q \<in> set executed" for q
  proof (rule ccontr)
    assume n: "\<not> (blank q \<or> dict_get_or [] cov (trim_space q) \<noteq> [])"
    then have "trim_space q \<in> set (filter (\<lambda>q. dict_get_or [] cov q = []) (trimmed executed))"
      using that by simp
    from bspec [OF w this] show False using n by simp
  qed
qed

text \<open>
  C30. A run ends as satisfied only if it has covered what it planned: it has converged on papers it found, every
  planned query was executed, every executed query brought papers that are on record for it, and no
  contradiction and no missing kind of source is open.
\<close>

lemma satisfied_runs_covered_their_plan:
  assumes "determine_autonomous_stop_reason
      (Some (build_loop_gap_state digest show_any cache planned executed cov ps analysis converged plane)) ps converged = ''coverage_satisfied''"
  shows "converged \<and> ps \<noteq> []
    \<and> (\<forall>q \<in> set planned. blank q \<or> contains_normalized_loop_query executed q)
    \<and> (\<forall>q \<in> set executed. blank q \<or> dict_get_or [] cov (trim_space q) \<noteq> [])
    \<and> (\<forall>a. analysis = Some a \<longrightarrow> (\<forall>c \<in> set (sa_contradictions a) \<union> set (sa_missing_source_types a). blank c))"
proof -
  let ?g = "build_loop_gap_state digest show_any cache planned executed cov ps analysis converged plane"
  have o: "\<not> has_open_actionable_coverage_gaps (Some ?g)" and "converged" "ps \<noteq> []"
    using assms by (auto simp: determine_autonomous_stop_reason_def split: if_splits)
  moreover have "lg_contradictions ?g = []" "lg_missing_source_types ?g = []"
    using o by (simp_all add: has_open_actionable_coverage_gaps_def)
  then have "\<forall>a. analysis = Some a \<longrightarrow> (\<forall>c \<in> set (sa_contradictions a) \<union> set (sa_missing_source_types a). blank c)"
    by (auto simp: build_loop_gap_state_def merge_source_acquisition_ledger_def Let_def dedupe_Nil_iff split: if_splits prod.splits)
  ultimately show ?thesis
    using coverage_state_complete [OF gap_lists_open [OF gap_state_lists [OF o]]] by blast
qed

definition satisfied_analysis :: sufficiency_analysis where
  "satisfied_analysis = \<lparr>sa_sufficient = True, sa_reasoning = ''enough'', sa_next_query = [], sa_next_queries = [],
     sa_missing_aspects = [], sa_missing_source_types = [], sa_contradictions = [], sa_confidence = 9 / 10\<rparr>"

lemma satisfied_runs_covered_their_plan_witness:
  "contains_normalized_loop_query [''Coffee''] ''coffee''
   \<and> determine_autonomous_stop_reason (Some (build_loop_gap_state digest0 (\<lambda>_. []) (\<lambda>_. None) [''coffee''] [''Coffee'']
        [(''Coffee'', [zero_paper])] [zero_paper] (Some satisfied_analysis) True ''simple''))
        [zero_paper] True = ''coverage_satisfied''"
proof -
  have s: "determine_autonomous_stop_reason (Some (build_loop_gap_state digest0 (\<lambda>_. []) (\<lambda>_. None) [''coffee''] [''Coffee'']
        [(''Coffee'', [zero_paper])] [zero_paper] (Some satisfied_analysis) True ''simple''))
        [zero_paper] True = ''coverage_satisfied''"
    by code_simp
  moreover have "\<not> blank ''coffee''" by code_simp
  ultimately show ?thesis using satisfied_runs_covered_their_plan [OF s] by simp
qed

end
