(* ===== verification/BranchPlans.thy ===== *)
theory BranchPlans
  imports CoverageLedger
begin

text \<open>
  The plans of research branches (\<open>orchestrator/internal/wisdev/research_branch_plan.go\<close>): one for each
  planned query, with the dependencies between gathering evidence, comparing and verifying it, and those
  that test a hypothesis before the first retrieval. Plans decoded from the replies of models are not modelled.
\<close>

section \<open>Plans\<close>

definition unique_strings :: "string list \<Rightarrow> string list" where
  "unique_strings vs = sort (dedupe_trimmed_strings vs)"

record branch_plan =
  bp_id :: string
  bp_query :: string
  bp_hypothesis :: string
  bp_retrieval_plan :: "string list"
  bp_reasoning_strategy :: string
  bp_falsifiability :: string
  bp_closure :: string
  bp_parent_id :: string
  bp_depends_on :: "string list"
  bp_depth :: int
  bp_search_weight :: real
  bp_status :: string
  bp_stop_reason :: string

definition pad3 :: "nat \<Rightarrow> string" where
  "pad3 n = (let s = digits_of n in replicate (3 - length s) (CHR ''0'') @ s)"

definition default_research_branch_plan :: "query_cache \<Rightarrow> string \<Rightarrow> string \<Rightarrow> string \<Rightarrow> branch_plan" where
  "default_research_branch_plan cache rootq query i =
     (let q = trim_space query in
      \<lparr>bp_id = trim_space i, bp_query = q, bp_hypothesis = ''Investigate '' @ q,
       bp_retrieval_plan = normalize_loop_queries cache rootq [q], bp_reasoning_strategy = ''evidence_grounded_retrieval'',
       bp_falsifiability = ''credible contradictory or missing grounded evidence invalidates this branch'',
       bp_closure = ''grounded evidence, source diversity, citation identity, and contradiction checks are resolved'',
       bp_parent_id = [], bp_depends_on = [], bp_depth = 1, bp_search_weight = 1 / 2, bp_status = ''planned'',
       bp_stop_reason = ''pending_retrieval''\<rparr>)"

definition or_default :: "string \<Rightarrow> string \<Rightarrow> string" where
  "or_default d s = (if blank s then d else s)"

text \<open>\<open>n\<close> is the place of the plan among those given.\<close>

definition complete_branch_plan :: "query_cache \<Rightarrow> string \<Rightarrow> nat \<Rightarrow> branch_plan \<Rightarrow> branch_plan" where
  "complete_branch_plan cache rootq n p =
     (let q = trim_space (bp_query p);
          rp = (if bp_retrieval_plan p = [] then [q] else bp_retrieval_plan p);
          w = (if bp_search_weight p \<le> 0 then 1 / 2 else bp_search_weight p)
      in p\<lparr>bp_query := q, bp_id := or_default (''branch-'' @ pad3 (n + 1)) (bp_id p),
           bp_retrieval_plan := normalize_loop_queries cache rootq rp,
           bp_hypothesis := or_default (''Investigate '' @ q) (bp_hypothesis p),
           bp_reasoning_strategy := or_default ''evidence_grounded_retrieval'' (bp_reasoning_strategy p),
           bp_falsifiability := or_default ''credible contradictory or missing grounded evidence invalidates this branch'' (bp_falsifiability p),
           bp_closure := or_default ''grounded evidence, source diversity, citation identity, and contradiction checks are resolved'' (bp_closure p),
           bp_depends_on := unique_strings (bp_depends_on p),
           bp_depth := (if bp_depth p \<le> 0 then 1 else bp_depth p),
           bp_search_weight := clamp_float w (5 / 100) 1,
           bp_status := or_default ''planned'' (bp_status p),
           bp_stop_reason := or_default ''pending_retrieval'' (bp_stop_reason p)\<rparr>)"

definition normalize_research_branch_plans :: "query_cache \<Rightarrow> string \<Rightarrow> branch_plan list \<Rightarrow> branch_plan list" where
  "normalize_research_branch_plans cache rootq ps =
     map (\<lambda>(n, p). complete_branch_plan cache rootq n p)
       (uniq_by (\<lambda>(n, p). to_lower (trim_space (bp_query p))) []
         (filter (\<lambda>(n, p). \<not> blank (bp_query p)) (zip [0..<length ps] ps)))"

definition merge_research_branch_plans :: "query_cache \<Rightarrow> string \<Rightarrow> branch_plan list list \<Rightarrow> branch_plan list" where
  "merge_research_branch_plans cache rootq groups = normalize_research_branch_plans cache rootq (concat groups)"

definition research_branch_plan_queries :: "query_cache \<Rightarrow> branch_plan list \<Rightarrow> string list" where
  "research_branch_plan_queries cache ps = normalize_loop_queries cache [] (map bp_query ps)"

section \<open>Dependencies\<close>

definition is_primary_evidence_agenda_query :: "string \<Rightarrow> bool" where
  "is_primary_evidence_agenda_query q \<longleftrightarrow> contains_any q
     [''primary evidence'', ''mechanism evidence'', ''systematic review'', ''evidence and deployment'', ''pre-prints evidence'', ''materials synthesis'']"

definition is_facet_evidence_agenda_query :: "string \<Rightarrow> bool" where
  "is_facet_evidence_agenda_query q \<longleftrightarrow> contains_any q
     [''rag-based systems evidence'', ''fine-tuned model deployment evidence'', ''recent pre-prints evidence'', ''historical failed replications'']"

definition is_comparative_synthesis_agenda_query :: "string \<Rightarrow> bool" where
  "is_comparative_synthesis_agenda_query q \<longleftrightarrow> contains_any q [''comparative tradeoffs'', ''versus'', ''cross-referencing'']"

definition is_verification_agenda_query :: "string \<Rightarrow> bool" where
  "is_verification_agenda_query q \<longleftrightarrow> contains_any q
     [''limitations'', ''contradictory'', ''citation graph'', ''failed replication'', ''experimental pitfall'', ''falsification'', ''bias'']"

definition append_unique_plan_id :: "string list \<Rightarrow> string \<Rightarrow> string list" where
  "append_unique_plan_id vs v =
     (let v = trim_space v in
      if v = [] then vs else if list_ex (\<lambda>e. equal_fold (trim_space e) v) vs then vs else vs @ [v])"

definition root_plan_id :: "string \<Rightarrow> branch_plan list \<Rightarrow> string" where
  "root_plan_id rootq ps =
     (let i = (case filter (\<lambda>p. equal_fold (trim_space (bp_query p)) rootq) ps of
                 p # _ \<Rightarrow> trim_space (bp_id p) | [] \<Rightarrow> (case ps of p # _ \<Rightarrow> trim_space (bp_id p) | [] \<Rightarrow> []))
      in if i = [] then ''branch-001'' else i)"

text \<open>The ids of the plans that gather primary evidence and of those that gather evidence on a facet.\<close>

definition evidence_plans :: "string \<Rightarrow> branch_plan list \<Rightarrow> branch_plan list" where
  "evidence_plans rootq ps = filter (\<lambda>p. \<not> blank (bp_id p) \<and> \<not> equal_fold (trim_space (bp_query p)) rootq) ps"

definition primary_evidence_ids :: "string \<Rightarrow> branch_plan list \<Rightarrow> string list" where
  "primary_evidence_ids rootq ps =
     (let ids = foldl append_unique_plan_id []
          (map bp_id (filter (is_primary_evidence_agenda_query \<circ> to_lower \<circ> bp_query) (evidence_plans rootq ps)))
      in if ids = [] then append_unique_plan_id [] (root_plan_id rootq ps) else ids)"

definition facet_evidence_ids :: "string \<Rightarrow> branch_plan list \<Rightarrow> string list" where
  "facet_evidence_ids rootq ps =
     foldl append_unique_plan_id []
       (map bp_id (filter (is_facet_evidence_agenda_query \<circ> to_lower \<circ> bp_query) (evidence_plans rootq ps)))"

definition attach_dependencies :: "string \<Rightarrow> string list \<Rightarrow> string list \<Rightarrow> string \<Rightarrow> branch_plan \<Rightarrow> branch_plan" where
  "attach_dependencies root_id primary facet rootq p =
     (let q = trim_space (bp_query p); lower = to_lower q in
      if q = [] \<or> equal_fold q rootq
      then p\<lparr>bp_reasoning_strategy := first_non_empty [bp_reasoning_strategy p, ''root_research_goal'']\<rparr>
      else
        (let p = p\<lparr>bp_parent_id := first_non_empty [bp_parent_id p, root_id]\<rparr>;
             p = p\<lparr>bp_depends_on := append_unique_plan_id (bp_depends_on p) (bp_parent_id p),
                   bp_reasoning_strategy := first_non_empty [bp_reasoning_strategy p, ''recursive_query_decomposition''],
                   bp_depth := max (bp_depth p) 1\<rparr>
         in if is_comparative_synthesis_agenda_query lower \<and> facet \<noteq> []
            then p\<lparr>bp_parent_id := hd facet, bp_depends_on := unique_strings (facet @ [root_id]),
                   bp_reasoning_strategy := ''dependent_comparative_synthesis'', bp_depth := max (bp_depth p) 2\<rparr>
            else if is_verification_agenda_query lower
            then p\<lparr>bp_parent_id := hd primary, bp_depends_on := unique_strings (primary @ [root_id]),
                   bp_reasoning_strategy := ''dependent_verification'', bp_depth := max (bp_depth p) 2\<rparr>
            else p))"

definition attach_research_branch_plan_dependencies :: "query_cache \<Rightarrow> string \<Rightarrow> branch_plan list \<Rightarrow> branch_plan list" where
  "attach_research_branch_plan_dependencies cache rootq ps =
     (let r = trim_space rootq in
      if ps = [] then []
      else normalize_research_branch_plans cache r
        (map (attach_dependencies (root_plan_id r ps) (primary_evidence_ids r ps) (facet_evidence_ids r ps) r) ps))"

definition research_branch_plans_from_queries :: "query_cache \<Rightarrow> string \<Rightarrow> string list \<Rightarrow> branch_plan list" where
  "research_branch_plans_from_queries cache rootq queries =
     (let qs = normalize_loop_queries cache rootq queries in
      attach_research_branch_plan_dependencies cache rootq
        (map (\<lambda>(n, q). default_research_branch_plan cache rootq q (''branch-'' @ pad3 (n + 1))) (zip [0..<length qs] qs)))"

section \<open>Plans that test hypotheses, and what became of plans\<close>

definition first_positive :: "real list \<Rightarrow> real" where
  "first_positive vs = (case filter (\<lambda>v. 0 < v) vs of [] \<Rightarrow> 0 | v # _ \<Rightarrow> v)"

definition hypothesis_branch_plan :: "(string \<Rightarrow> nat list) \<Rightarrow> query_cache \<Rightarrow> string \<Rightarrow> hypothesis \<Rightarrow> branch_plan option" where
  "hypothesis_branch_plan digest cache rootq h =
     (let claim = first_non_empty [hy_claim h, hy_text h, hy_query h];
          fals = (if blank (hy_falsifiability h)
                  then ''credible contradictory or missing grounded evidence invalidates this hypothesis'' else trim_space (hy_falsifiability h));
          ev = normalize_agenda_focus cache rootq (''hypothesis evidence: '' @ claim);
          i = trim_space (hy_id h)
      in if claim = [] then None
         else Some \<lparr>bp_id = (if i = [] then stable_wisdev_id digest ''pre-retrieval-hypothesis'' [rootq, claim] else i),
            bp_query = ev, bp_hypothesis = claim,
            bp_retrieval_plan = normalize_loop_queries cache rootq
              [ev, normalize_agenda_focus cache rootq (''falsification check: '' @ fals),
               normalize_agenda_focus cache rootq (''contradiction and bias check: '' @ claim)],
            bp_reasoning_strategy = ''pre_retrieval_hypothesis_test'', bp_falsifiability = fals,
            bp_closure = ''supporting evidence, falsification probes, and contradiction checks are represented before synthesis'',
            bp_parent_id = [], bp_depends_on = [], bp_depth = 1,
            bp_search_weight = clamp_float (first_positive [hy_confidence_score h, hy_confidence_threshold h, 65 / 100]) (5 / 100) 1,
            bp_status = first_non_empty [hy_status h, ''planned''], bp_stop_reason = ''pending_retrieval''\<rparr>)"

definition research_branch_plans_from_hypotheses ::
  "(string \<Rightarrow> nat list) \<Rightarrow> query_cache \<Rightarrow> string \<Rightarrow> hypothesis list \<Rightarrow> branch_plan list" where
  "research_branch_plans_from_hypotheses digest cache rootq hs =
     normalize_research_branch_plans cache rootq (List.map_filter (hypothesis_branch_plan digest cache rootq) hs)"

definition loop_query_match_key :: "query_cache \<Rightarrow> string \<Rightarrow> string" where
  "loop_query_match_key cache q = to_lower (trim_space (apply_research_query_corrections cache (normalize_text q)))"

definition apply_research_branch_plan_execution_status ::
  "query_cache \<Rightarrow> string list \<Rightarrow> paper list dict \<Rightarrow> branch_plan list \<Rightarrow> branch_plan list" where
  "apply_research_branch_plan_execution_status cache executed cov ps =
     (let ex = filter (\<lambda>k. k \<noteq> []) (map (loop_query_match_key cache) executed);
          by_key = fold (\<lambda>(q, xs) d. let k = loop_query_match_key cache q in
             if k = [] then d else dict_set k (append_unique_search_papers (dict_get_or [] d k) xs) d) cov []
      in map (\<lambda>p. let k = loop_query_match_key cache (bp_query p) in
               if k \<notin> set ex then p
               else if dict_get_or [] by_key k \<noteq> [] then p\<lparr>bp_status := ''retrieved'', bp_stop_reason := ''sources_found''\<rparr>
               else p\<lparr>bp_status := ''executed'', bp_stop_reason := ''no_sources''\<rparr>) ps)"

section \<open>Ids of plans\<close>

lemma dropWhile_none: "s = [] \<or> \<not> P (hd s) \<Longrightarrow> dropWhile P s = s"
  by (cases s) simp_all

lemma trim_space_id: "s \<noteq> [] \<Longrightarrow> \<not> is_space (hd s) \<Longrightarrow> \<not> is_space (last s) \<Longrightarrow> trim_space s = s"
  using dropWhile_none [of s is_space] dropWhile_none [of "rev s" is_space] by (simp add: trim_space_def hd_rev)

lemma digits_of_chars: "c \<in> set (digits_of n) \<Longrightarrow> c \<in> set ''0123456789''"
proof (induction n rule: digits_of.induct)
  case (1 n)
  have d: "list_all (\<lambda>d. char_of (48 + d) \<in> set ''0123456789'') [0..<10::nat]" by code_simp
  show ?case
  proof (cases "n < 10")
    case True
    then show ?thesis using 1(2) d by (subst (asm) digits_of.simps) (simp add: list_all_iff)
  next
    case False
    have "n mod 10 \<in> set [0..<10]" by simp
    then have "char_of (48 + n mod 10) \<in> set ''0123456789''" using d unfolding list_all_iff by blast
    moreover have "c \<in> set (digits_of (n div 10)) \<or> c = char_of (48 + n mod 10)"
      using 1(2) False by (subst (asm) digits_of.simps) auto
    ultimately show ?thesis using 1(1) [OF False] by blast
  qed
qed

lemma digit_chars: "c \<in> set ''0123456789'' \<Longrightarrow> lower_char c = c \<and> \<not> is_space c"
proof -
  have "list_all (\<lambda>c. lower_char c = c \<and> \<not> is_space c) ''0123456789''" by code_simp
  then show "c \<in> set ''0123456789'' \<Longrightarrow> lower_char c = c \<and> \<not> is_space c" unfolding list_all_iff by blast
qed

definition plan_id :: "nat \<Rightarrow> string" where
  "plan_id n = ''branch-'' @ pad3 (n + 1)"

lemma digits_of_not_Nil [simp]: "digits_of n \<noteq> []"
  by (subst digits_of.simps) simp

lemma plan_id_chars: "c \<in> set (plan_id n) \<Longrightarrow> lower_char c = c \<and> \<not> is_space c"
proof -
  have p: "list_all (\<lambda>c. lower_char c = c \<and> \<not> is_space c) ''branch-0''" by code_simp
  assume "c \<in> set (plan_id n)"
  then have "c \<in> set ''branch-0'' \<or> c \<in> set (digits_of (n + 1))" by (auto simp: plan_id_def pad3_def Let_def)
  then show ?thesis
  proof
    assume "c \<in> set ''branch-0''"
    then show ?thesis using p unfolding list_all_iff by blast
  next
    assume "c \<in> set (digits_of (n + 1))"
    then show ?thesis by (rule digit_chars [OF digits_of_chars])
  qed
qed

lemma plan_id_plain [simp]: "to_lower (plan_id n) = plan_id n" "trim_space (plan_id n) = plan_id n" "plan_id n \<noteq> []"
proof -
  show ne: "plan_id n \<noteq> []" by (simp add: plan_id_def)
  show "to_lower (plan_id n) = plan_id n"
    unfolding to_lower_def by (rule map_idI) (simp add: plan_id_chars)
  show "trim_space (plan_id n) = plan_id n"
    by (rule trim_space_id) (use ne plan_id_chars in \<open>auto dest: hd_in_set last_in_set\<close>)
qed

lemma undigits_zeros: "undigits (replicate k (CHR ''0'') @ s) = undigits s"
  by (induction k) (simp_all add: undigits_def)

lemma plan_id_inject [simp]: "plan_id m = plan_id n \<longleftrightarrow> m = n"
proof
  assume "plan_id m = plan_id n"
  then have "undigits (pad3 (m + 1)) = undigits (pad3 (n + 1))" by (simp add: plan_id_def)
  then show "m = n" by (simp add: pad3_def Let_def undigits_zeros undigits_digits_of)
qed simp

lemma append_unique_plan_ids:
  "set vs \<subseteq> range plan_id \<Longrightarrow> set acc \<subseteq> range plan_id \<Longrightarrow> set (foldl append_unique_plan_id acc vs) = set acc \<union> set vs"
proof (induction vs arbitrary: acc)
  case (Cons v vs)
  obtain n where v: "v = plan_id n" using Cons.prems(1) by auto
  have "list_ex (\<lambda>e. equal_fold (trim_space e) v) acc \<longleftrightarrow> v \<in> set acc"
    using Cons.prems(2) by (auto simp: list_ex_iff equal_fold_def v image_iff subset_iff) (metis plan_id_inject plan_id_plain(1,2))+
  then have "set (append_unique_plan_id acc v) = insert v (set acc)"
    by (auto simp: append_unique_plan_id_def v)
  then show ?case using Cons.IH [of "append_unique_plan_id acc v"] Cons.prems by auto
qed simp

section \<open>What the dependencies are\<close>

lemma normalize_distinct_plans:
  assumes "\<And>p. p \<in> set ps \<Longrightarrow> \<not> blank (bp_query p)" "distinct (map (\<lambda>p. to_lower (trim_space (bp_query p))) ps)"
  shows "normalize_research_branch_plans cache rootq ps = map (\<lambda>(n, p). complete_branch_plan cache rootq n p) (zip [0..<length ps] ps)"
proof -
  have f: "filter (\<lambda>(n, p). \<not> blank (bp_query p)) (zip [0..<length ps] ps) = zip [0..<length ps] ps"
    using assms(1) by (auto intro!: filter_True dest: set_zip_rightD)
  have "map (\<lambda>(n, p). to_lower (trim_space (bp_query p))) (zip [0..<length ps] ps)
      = map (\<lambda>p. to_lower (trim_space (bp_query p))) (map snd (zip [0..<length ps] ps))"
    by (simp only: map_map comp_def case_prod_unfold)
  then have "distinct (map (\<lambda>(n, p). to_lower (trim_space (bp_query p))) (zip [0..<length ps] ps))"
    using assms(2) by (simp only: map_snd_zip length_upt minus_nat.diff_0)
  then show ?thesis unfolding normalize_research_branch_plans_def f by (subst uniq_by_id) simp_all
qed

lemma normalize_loop_queries_props:
  "distinct (map to_lower (normalize_loop_queries cache p qs))"
  "q \<in> set (normalize_loop_queries cache p qs) \<Longrightarrow> q \<noteq> [] \<and> trim_space q = q"
proof -
  show "distinct (map to_lower (normalize_loop_queries cache p qs))"
    unfolding normalize_loop_queries_def by (rule distinct_uniq_by)
  assume "q \<in> set (normalize_loop_queries cache p qs)"
  then have "q \<in> set (filter (\<lambda>q. q \<noteq> []) (map (prepare_search_query_text cache) (p # qs)))"
    unfolding normalize_loop_queries_def by (rule subsetD [OF set_uniq_by_subset])
  then have "q \<noteq> [] \<and> (\<exists>x. q = prepare_search_query_text cache x)" unfolding set_filter set_map by blast
  then show "q \<noteq> [] \<and> trim_space q = q" by (auto simp: prepare_search_query_text_def)
qed

text \<open>The plans before their dependencies are known, and the names under which these refer to them.\<close>

definition draft_plans :: "query_cache \<Rightarrow> string \<Rightarrow> string list \<Rightarrow> branch_plan list" where
  "draft_plans cache rootq qs = map (\<lambda>(n, q). default_research_branch_plan cache rootq q (plan_id n)) (zip [0..<length qs] qs)"

definition attach_all :: "string \<Rightarrow> branch_plan list \<Rightarrow> branch_plan \<Rightarrow> branch_plan" where
  "attach_all r ps = attach_dependencies (root_plan_id r ps) (primary_evidence_ids r ps) (facet_evidence_ids r ps) r"

lemma attach_keeps [simp]:
  "bp_id (attach_dependencies i pr fa r p) = bp_id p" "bp_query (attach_dependencies i pr fa r p) = bp_query p"
  by (simp_all add: attach_dependencies_def Let_def)

lemma draft_plan_nth:
  assumes "n < length qs" "trim_space (qs ! n) = qs ! n"
  shows "bp_id (draft_plans cache rootq qs ! n) = plan_id n" "bp_query (draft_plans cache rootq qs ! n) = qs ! n"
    "bp_depends_on (draft_plans cache rootq qs ! n) = []" "bp_parent_id (draft_plans cache rootq qs ! n) = []"
  using assms by (simp_all add: draft_plans_def default_research_branch_plan_def Let_def)

lemma length_draft_plans [simp]: "length (draft_plans cache rootq qs) = length qs"
  by (simp add: draft_plans_def)

lemma branch_plans_eq:
  assumes qs_def: "qs = normalize_loop_queries cache rootq queries"
  shows "research_branch_plans_from_queries cache rootq queries
    = map (\<lambda>n. complete_branch_plan cache (trim_space rootq) n (attach_all (trim_space rootq) (draft_plans cache rootq qs) (draft_plans cache rootq qs ! n)))
        [0..<length qs]"
proof -
  define ps where "ps = draft_plans cache rootq qs"
  define as where "as = map (attach_all (trim_space rootq) ps) ps"
  have q: "bp_query (ps ! n) = qs ! n \<and> qs ! n \<noteq> [] \<and> trim_space (qs ! n) = qs ! n" if "n < length qs" for n
    using that draft_plan_nth(2) [of n qs] normalize_loop_queries_props(2) [of "qs ! n" cache rootq queries] by (auto simp: ps_def qs_def)
  have bq: "map bp_query ps = qs" by (rule nth_equalityI) (use q in \<open>auto simp: ps_def\<close>)
  have "\<not> blank (bp_query p)" if p_in: "p \<in> set as" for p
  proof -
    obtain x where x: "x \<in> set ps" "p = attach_all (trim_space rootq) ps x" using p_in by (auto simp: as_def)
    then obtain n where n: "n < length qs" "x = ps ! n" by (auto simp: in_set_conv_nth ps_def)
    then show ?thesis using q [OF n(1)] x(2) by (simp add: attach_all_def)
  qed
  moreover have "map (\<lambda>p. to_lower (trim_space (bp_query p))) as = map to_lower qs"
  proof -
    have "map (\<lambda>p. to_lower (trim_space (bp_query p))) as = map (\<lambda>q. to_lower (trim_space q)) (map bp_query ps)"
      by (simp add: as_def attach_all_def)
    also have "\<dots> = map to_lower qs"
      unfolding bq by (rule map_cong [OF refl]) (use normalize_loop_queries_props(2) in \<open>auto simp: qs_def\<close>)
    finally show ?thesis .
  qed
  then have "distinct (map (\<lambda>p. to_lower (trim_space (bp_query p))) as)"
    using normalize_loop_queries_props(1) by (simp add: qs_def)
  ultimately have "normalize_research_branch_plans cache (trim_space rootq) as
      = map (\<lambda>(n, p). complete_branch_plan cache (trim_space rootq) n p) (zip [0..<length as] as)"
    by (rule normalize_distinct_plans)
  also have "\<dots> = map (\<lambda>n. complete_branch_plan cache (trim_space rootq) n (attach_all (trim_space rootq) ps (ps ! n))) [0..<length qs]"
    by (rule nth_equalityI) (simp_all add: as_def ps_def)
  also have "normalize_research_branch_plans cache (trim_space rootq) as = research_branch_plans_from_queries cache rootq queries"
    by (auto simp: research_branch_plans_from_queries_def attach_research_branch_plan_dependencies_def Let_def as_def
        attach_all_def ps_def draft_plans_def plan_id_def qs_def [symmetric] normalize_research_branch_plans_def)
  finally show ?thesis by (simp add: ps_def)
qed

lemma evidence_ids_of_drafts:
  assumes "\<And>n. n < length qs \<Longrightarrow> trim_space (qs ! n) = qs ! n \<and> qs ! n \<noteq> []"
  shows "set (foldl append_unique_plan_id [] (map bp_id (filter (P \<circ> to_lower \<circ> bp_query) (evidence_plans r (draft_plans cache rootq qs)))))
    = {plan_id n | n. n < length qs \<and> P (to_lower (qs ! n)) \<and> \<not> equal_fold (qs ! n) r}"
proof -
  let ?fs = "filter (P \<circ> to_lower \<circ> bp_query) (evidence_plans r (draft_plans cache rootq qs))"
  have "bp_id ` set ?fs = {plan_id n | n. n < length qs \<and> P (to_lower (qs ! n)) \<and> \<not> equal_fold (qs ! n) r}"
    by (auto simp: evidence_plans_def in_set_conv_nth draft_plan_nth assms image_iff) (metis assms draft_plan_nth(1,2) length_draft_plans plan_id_plain(2,3))
  moreover from this have "set (map bp_id ?fs) \<subseteq> range plan_id" by auto
  ultimately show ?thesis using append_unique_plan_ids [of "map bp_id ?fs" "[]"] by simp
qed

lemma set_unique_strings: "set vs \<subseteq> range plan_id \<Longrightarrow> set (unique_strings vs) = set vs"
  by (auto simp: unique_strings_def image_iff subset_iff) (metis plan_id_plain(2,3) rangeE)+

lemma drafts_ids: "(\<And>n. n < length qs \<Longrightarrow> trim_space (qs ! n) = qs ! n) \<Longrightarrow> map bp_id (draft_plans cache rootq qs) = map plan_id [0..<length qs]"
  by (rule nth_equalityI) (simp_all add: draft_plan_nth)

lemma root_plan_id_of_drafts:
  assumes "qs \<noteq> []" "\<And>n. n < length qs \<Longrightarrow> trim_space (qs ! n) = qs ! n"
  shows "root_plan_id r (draft_plans cache rootq qs) \<in> plan_id ` {..<length qs}"
proof -
  let ?ps = "draft_plans cache rootq qs"
  have ids: "bp_id p \<in> plan_id ` {..<length qs}" if p_in: "p \<in> set ?ps" for p
    using p_in drafts_ids [OF assms(2), of cache rootq] by (metis atLeast_upt image_set in_set_conv_nth length_map nth_map nth_mem)
  have t: "trim_space x = x \<and> x \<noteq> []" if x_in: "x \<in> plan_id ` {..<length qs}" for x using x_in by auto
  have "?ps \<noteq> []" using assms(1) by (metis length_0_conv length_draft_plans)
  then have h: "hd ?ps \<in> set ?ps" "?ps \<noteq> []" by simp_all
  show ?thesis
  proof (cases "filter (\<lambda>p. equal_fold (trim_space (bp_query p)) r) ?ps")
    case Nil
    then show ?thesis using h ids [OF h(1)] t [OF ids [OF h(1)]] by (cases ?ps) (auto simp: root_plan_id_def Let_def)
  next
    case (Cons p xs)
    then have "p \<in> set ?ps" by (metis filter_is_subset in_set_conv_nth length_greater_0_conv list.distinct(1) nth_Cons_0 subsetD)
    then show ?thesis using Cons t [OF ids] ids by (auto simp: root_plan_id_def Let_def)
  qed
qed

lemma plan_query_facts:
  assumes "n < length (normalize_loop_queries cache p qs)"
  shows "trim_space (normalize_loop_queries cache p qs ! n) = normalize_loop_queries cache p qs ! n"
    "normalize_loop_queries cache p qs ! n \<noteq> []"
  using normalize_loop_queries_props(2) [OF nth_mem [OF assms]] by simp_all

lemma evidence_ids_cover:
  assumes "qs = normalize_loop_queries cache rootq queries" "qs \<noteq> []"
  shows "set (primary_evidence_ids r (draft_plans cache rootq qs)) \<subseteq> plan_id ` {..<length qs}"
    "set (facet_evidence_ids r (draft_plans cache rootq qs)) \<subseteq> plan_id ` {..<length qs}"
    "primary_evidence_ids r (draft_plans cache rootq qs) \<noteq> []"
    "n < length qs \<Longrightarrow> is_primary_evidence_agenda_query (to_lower (qs ! n)) \<Longrightarrow> \<not> equal_fold (qs ! n) r \<Longrightarrow>
       plan_id n \<in> set (primary_evidence_ids r (draft_plans cache rootq qs))"
proof -
  have q: "\<And>n. n < length qs \<Longrightarrow> trim_space (qs ! n) = qs ! n \<and> qs ! n \<noteq> []" using plan_query_facts assms(1) by blast
  note e = evidence_ids_of_drafts [of qs _ r cache rootq, OF q]
  have r: "root_plan_id r (draft_plans cache rootq qs) \<in> plan_id ` {..<length qs}"
    using root_plan_id_of_drafts [OF assms(2)] q by blast
  then have sr: "append_unique_plan_id [] (root_plan_id r (draft_plans cache rootq qs)) = [root_plan_id r (draft_plans cache rootq qs)]"
    by (auto simp: append_unique_plan_id_def)
  show "set (primary_evidence_ids r (draft_plans cache rootq qs)) \<subseteq> plan_id ` {..<length qs}"
    using e [of is_primary_evidence_agenda_query] r by (auto simp: primary_evidence_ids_def Let_def sr)
  show "set (facet_evidence_ids r (draft_plans cache rootq qs)) \<subseteq> plan_id ` {..<length qs}"
    using e [of is_facet_evidence_agenda_query] by (auto simp: facet_evidence_ids_def)
  show "primary_evidence_ids r (draft_plans cache rootq qs) \<noteq> []"
    by (simp add: primary_evidence_ids_def Let_def sr)
  assume "n < length qs" "is_primary_evidence_agenda_query (to_lower (qs ! n))" "\<not> equal_fold (qs ! n) r"
  then have "plan_id n \<in> set (foldl append_unique_plan_id [] (map bp_id (filter (is_primary_evidence_agenda_query \<circ> to_lower \<circ> bp_query) (evidence_plans r (draft_plans cache rootq qs)))))"
    using e [of is_primary_evidence_agenda_query] by auto
  then show "plan_id n \<in> set (primary_evidence_ids r (draft_plans cache rootq qs))"
    by (auto simp: primary_evidence_ids_def Let_def)
qed

lemma attach_depends_on:
  assumes "bp_depends_on p = []" "bp_parent_id p = []" "I \<subseteq> range plan_id" "i \<in> I" "set pr \<subseteq> I" "set fa \<subseteq> I"
  shows "set (bp_depends_on (attach_dependencies i pr fa r p)) \<subseteq> I"
proof -
  obtain k where "i = plan_id k" using assms(3,4) by blast
  then have i: "trim_space i = i" "i \<noteq> []" by simp_all
  have "set (unique_strings (pr @ [i])) = insert i (set pr)" "set (unique_strings (fa @ [i])) = insert i (set fa)"
    using assms(3-6) by (auto simp: set_unique_strings subset_iff)
  moreover have "bp_depends_on p = [] \<Longrightarrow> append_unique_plan_id [] i = [i]" by (simp add: append_unique_plan_id_def i)
  moreover have "first_non_empty [[], i] = i" by (simp add: i)
  ultimately show ?thesis using assms by (auto simp: attach_dependencies_def Let_def)
qed

lemma complete_branch_plan_fields [simp]:
  "\<not> blank (bp_id p) \<Longrightarrow> bp_id (complete_branch_plan cache r n p) = bp_id p"
  "bp_depends_on (complete_branch_plan cache r n p) = unique_strings (bp_depends_on p)"
  "1 \<le> bp_depth (complete_branch_plan cache r n p)"
  "bp_query (complete_branch_plan cache r n p) = trim_space (bp_query p)"
  by (simp_all add: complete_branch_plan_def Let_def or_default_def)

lemma branch_plan_id:
  assumes "n < length (normalize_loop_queries cache rootq queries)"
  shows "bp_id (research_branch_plans_from_queries cache rootq queries ! n) = plan_id n"
  using draft_plan_nth(1) [OF assms plan_query_facts(1) [OF assms], of cache rootq] assms
  by (simp add: branch_plans_eq [OF refl] attach_all_def)

text \<open>
  C31. The plans of branches made from any root question and any planned queries are well formed: their
  identifiers are all different, and each plan depends only on plans of the same list, lies at a depth of
  at least one and keeps a query that is not blank.
\<close>

theorem branch_plans_well_formed:
  "distinct (map bp_id (research_branch_plans_from_queries cache rootq queries)) \<and>
   list_all (\<lambda>p. set (bp_depends_on p) \<subseteq> set (map bp_id (research_branch_plans_from_queries cache rootq queries))
       \<and> 1 \<le> bp_depth p \<and> \<not> blank (bp_query p))
     (research_branch_plans_from_queries cache rootq queries)"
proof (cases "normalize_loop_queries cache rootq queries = []")
  case True
  then show ?thesis by (simp add: branch_plans_eq)
next
  case False
  define qs where "qs = normalize_loop_queries cache rootq queries"
  define ds where "ds = draft_plans cache rootq qs"
  define f where "f n = complete_branch_plan cache (trim_space rootq) n (attach_all (trim_space rootq) ds (ds ! n))" for n
  let ?I = "plan_id ` {..<length qs}"
  have q: "\<And>n. n < length qs \<Longrightarrow> trim_space (qs ! n) = qs ! n \<and> qs ! n \<noteq> []" using plan_query_facts qs_def by blast
  have ps: "research_branch_plans_from_queries cache rootq queries = map f [0..<length qs]"
    by (simp add: branch_plans_eq [OF qs_def] f_def ds_def)
  have fid: "bp_id (f n) = plan_id n \<and> \<not> blank (bp_query (f n))" if n: "n < length qs" for n
    using draft_plan_nth(1,2) [OF n, of cache rootq] q [OF n] by (simp add: f_def attach_all_def ds_def)
  have ids: "map bp_id (map f [0..<length qs]) = map plan_id [0..<length qs]" by (simp add: fid)
  have dep: "set (bp_depends_on (f n)) \<subseteq> ?I" if n: "n < length qs" for n
  proof -
    have "set (bp_depends_on (attach_all (trim_space rootq) ds (ds ! n))) \<subseteq> ?I"
      unfolding attach_all_def ds_def
      by (rule attach_depends_on)
        (use draft_plan_nth(3,4) [OF n] q [OF n] evidence_ids_cover(1,2) [OF qs_def] root_plan_id_of_drafts [of qs] q False in \<open>auto simp: qs_def [symmetric]\<close>)
    then show ?thesis using set_unique_strings by (simp add: f_def) blast
  qed
  have "1 \<le> bp_depth (f n)" for n by (simp add: f_def)
  then show ?thesis unfolding ps ids using dep fid
    by (auto simp: list_all_iff distinct_map inj_on_def atLeast0LessThan)
qed

text \<open>
  A planned query that asks for primary evidence and for verification at once, such as a systematic
  review of the bias of something, yields a plan that depends on itself, so that no order of the plans
  respects their dependencies.
\<close>

theorem verification_plan_depends_on_itself:
  assumes "n < length (normalize_loop_queries cache rootq queries)" "q = to_lower (normalize_loop_queries cache rootq queries ! n)"
    and "is_primary_evidence_agenda_query q" "is_verification_agenda_query q" "\<not> is_comparative_synthesis_agenda_query q"
    and "\<not> equal_fold (normalize_loop_queries cache rootq queries ! n) (trim_space rootq)"
  shows "bp_id (research_branch_plans_from_queries cache rootq queries ! n)
      \<in> set (bp_depends_on (research_branch_plans_from_queries cache rootq queries ! n))"
proof -
  define qs where "qs = normalize_loop_queries cache rootq queries"
  define ds where "ds = draft_plans cache rootq qs"
  let ?r = "trim_space rootq"
  have n: "n < length qs" "qs \<noteq> []" using assms(1) by (auto simp: qs_def)
  have t: "trim_space (qs ! n) = qs ! n" "qs ! n \<noteq> []" using plan_query_facts assms(1) by (auto simp: qs_def)
  note d = draft_plan_nth(1,2) [OF n(1) t(1), of cache rootq]
  have ids: "set (primary_evidence_ids ?r ds @ [root_plan_id ?r ds]) \<subseteq> plan_id ` {..<length qs}"
    using evidence_ids_cover(1) [OF qs_def n(2)] root_plan_id_of_drafts [OF n(2)] plan_query_facts by (auto simp: ds_def qs_def)
  have "plan_id n \<in> set (primary_evidence_ids ?r ds)"
    unfolding ds_def by (rule evidence_ids_cover(4) [OF qs_def n(2,1)]) (use assms in \<open>simp_all add: qs_def\<close>)
  moreover have "bp_depends_on (attach_all ?r ds (ds ! n)) = unique_strings (primary_evidence_ids ?r ds @ [root_plan_id ?r ds])"
    using assms(2-6) t d by (simp add: attach_all_def attach_dependencies_def Let_def ds_def qs_def [symmetric])
  moreover have rng: "set (primary_evidence_ids ?r ds @ [root_plan_id ?r ds]) \<subseteq> range plan_id" using ids by blast
  ultimately have "plan_id n \<in> set (unique_strings (bp_depends_on (attach_all ?r ds (ds ! n))))"
    by (simp only: set_unique_strings [OF rng] set_unique_strings [of "unique_strings _"] Un_iff set_append simp_thms)
  then show ?thesis using n(1) d
    by (simp add: branch_plans_eq [OF qs_def] set_unique_strings ds_def attach_all_def)
qed

theorem verification_plan_depends_on_itself_witness:
  "''branch-002'' \<in> set (bp_depends_on (research_branch_plans_from_queries (\<lambda>_. None) ''caffeine'' [''systematic review of bias''] ! 1))"
proof -
  have n: "normalize_loop_queries (\<lambda>_. None) ''caffeine'' [''systematic review of bias''] = [''caffeine'', ''systematic review of bias'']"
    by code_simp
  have "bp_id (research_branch_plans_from_queries (\<lambda>_. None) ''caffeine'' [''systematic review of bias''] ! 1) = plan_id 1"
    by (rule branch_plan_id) (simp add: n)
  moreover have "plan_id 1 = ''branch-002''" by code_simp
  moreover have "is_primary_evidence_agenda_query (to_lower ''systematic review of bias'')"
    "is_verification_agenda_query (to_lower ''systematic review of bias'')"
    "\<not> is_comparative_synthesis_agenda_query (to_lower ''systematic review of bias'')"
    "\<not> equal_fold ''systematic review of bias'' (trim_space ''caffeine'')" by code_simp+
  ultimately show ?thesis
    using verification_plan_depends_on_itself [of 1 "\<lambda>_. None" "''caffeine''" "[''systematic review of bias'']", OF _ refl] by (simp add: n)
qed

end
