(* ===== verification/HypothesisReview.thy ===== *)
theory HypothesisReview
  imports Beliefs
begin

text \<open>
  Evaluation of hypotheses (\<open>orchestrator/internal/wisdev/hypothesis_evaluator.go\<close>) and the committee that
  deliberates on them (\<open>research_committee.go\<close>). What the language models answer is an argument; every fallback
  of the code, for no client, a provider that cools down, a failed call or an unreadable reply, is a branch.
  Prompts, the explanatory texts of an evaluation and its history, which nothing reads, are left out.
\<close>

section \<open>Evaluating one hypothesis\<close>

record evaluation_result =
  er_score :: real
  er_verdict :: string
  er_branching :: string
  er_sub_hypotheses :: "string list"
  er_suggested_queries :: "string list"

definition relevant_evidence :: "hypothesis \<Rightarrow> evidence_finding list \<Rightarrow> evidence_finding list" where
  "relevant_evidence h evidence = (if hy_evidence h \<noteq> [] then hy_evidence h else evidence)"

definition heuristic_score :: "hypothesis \<Rightarrow> evidence_finding list \<Rightarrow> real" where
  "heuristic_score h evs =
     (let penalty = real_of_int (hy_contradiction_count h) * (15 / 100);
          penalty = (if 1 / 2 < penalty then 1 / 2 else penalty);
          boost = (if 10 \<le> length evs then 10 / 100 else if 5 \<le> length evs then 5 / 100 else 0);
          score = average (map ef_confidence evs) - penalty + boost;
          score = (if score < 0 then 0 else score)
      in if 1 < score then 1 else score)"

definition heuristic_evaluation :: "hypothesis \<Rightarrow> evidence_finding list \<Rightarrow> evaluation_result" where
  "heuristic_evaluation h evidence =
     (let evs = relevant_evidence h evidence; score = heuristic_score h evs in
      if evs = []
      then \<lparr>er_score = 0, er_verdict = ''uncertain'', er_branching = [], er_sub_hypotheses = [],
             er_suggested_queries = [hy_claim h]\<rparr>
      else \<lparr>er_score = score,
             er_verdict = (if 7 / 10 \<le> score then ''supported'' else if score < 3 / 10 then ''refuted'' else ''uncertain''),
             er_branching = [], er_sub_hypotheses = [], er_suggested_queries = []\<rparr>)"

text \<open>What a reply is made into; \<open>parseEvaluationResponse\<close> and the rows of a batch do the same.\<close>

definition validate_evaluation :: "evaluation_result \<Rightarrow> evaluation_result" where
  "validate_evaluation r =
     r\<lparr>er_verdict := (if er_verdict r \<in> {''supported'', ''uncertain'', ''refuted''} then er_verdict r else ''uncertain''),
       er_score := (if er_score r < 0 then 0 else if 1 < er_score r then 1 else er_score r)\<rparr>"

text \<open>\<open>None\<close> stands for no client, a provider that cools down, an error, a panic or an unreadable reply.\<close>

definition evaluate_hypothesis :: "evaluation_result option \<Rightarrow> hypothesis \<Rightarrow> evidence_finding list \<Rightarrow> evaluation_result" where
  "evaluate_hypothesis reply h evidence =
     (case reply of None \<Rightarrow> heuristic_evaluation h evidence | Some r \<Rightarrow> validate_evaluation r)"

definition evaluated_sub_hypothesis :: "(string \<Rightarrow> nat list) \<Rightarrow> hypothesis \<Rightarrow> string \<Rightarrow> hypothesis" where
  "evaluated_sub_hypothesis digest h claim =
     \<lparr>hy_id = stable_wisdev_id digest ''sub-hyp'' [hy_id h, claim], hy_parent_id = hy_id h, hy_query = hy_query h,
      hy_text = [], hy_claim = claim, hy_confidence_score = 0, hy_status = ''active'', hy_terminated = False,
      hy_evidence = [], hy_contradictions = [], hy_contradiction_count = 0, hy_evidence_count = 0, hy_updated_at = 0,
      hy_query_budget = 0, hy_falsifiability = ''Specific evidence refutes this sub-claim.'', hy_confidence_threshold = 0\<rparr>"

definition apply_evaluation_result ::
  "(string \<Rightarrow> nat list) \<Rightarrow> hypothesis \<Rightarrow> evaluation_result \<Rightarrow> hypothesis \<times> hypothesis list" where
  "apply_evaluation_result digest h r =
     (let h = h\<lparr>hy_confidence_score := er_score r\<rparr>;
          h = (if er_verdict r = ''supported'' then h\<lparr>hy_status := ''supported'', hy_terminated := False\<rparr>
               else if er_verdict r = ''refuted'' then h\<lparr>hy_status := ''refuted'', hy_terminated := True\<rparr>
               else h\<lparr>hy_status := ''uncertain''\<rparr>);
          branching = (er_branching r = ''branch'' \<and> er_sub_hypotheses r \<noteq> []);
          new = (if branching then map (evaluated_sub_hypothesis digest h) (filter (\<lambda>c. \<not> blank c) (er_sub_hypotheses r)) else []);
          h = (if branching then h\<lparr>hy_status := ''branched''\<rparr>
               else if er_branching r = ''prune'' then h\<lparr>hy_terminated := True, hy_status := ''pruned''\<rparr> else h)
      in (h\<lparr>hy_query_budget := (if 8 / 10 \<le> er_score r then 1 else if 55 / 100 \<le> er_score r then 2 else 3)\<rparr>, new))"

section \<open>Evaluating all\<close>

text \<open>
  \<open>ev j h\<close> is the result for the \<open>j\<close>-th hypothesis that is not terminated; the others are skipped.
\<close>

fun evaluate_active ::
  "(string \<Rightarrow> nat list) \<Rightarrow> (nat \<Rightarrow> hypothesis \<Rightarrow> evaluation_result) \<Rightarrow> nat \<Rightarrow> hypothesis list
     \<Rightarrow> hypothesis list \<times> hypothesis list" where
  "evaluate_active digest ev j [] = ([], [])"
| "evaluate_active digest ev j (h # hs) =
     (if hy_terminated h
      then (case evaluate_active digest ev j hs of (hs', new) \<Rightarrow> (h # hs', new))
      else (case apply_evaluation_result digest h (ev j h) of
              (h', sub) \<Rightarrow> (case evaluate_active digest ev (Suc j) hs of (hs', new) \<Rightarrow> (h' # hs', sub @ new))))"

definition evaluate_all ::
  "(string \<Rightarrow> nat list) \<Rightarrow> (nat \<Rightarrow> evaluation_result option) \<Rightarrow> evidence_finding list \<Rightarrow> hypothesis list
     \<Rightarrow> hypothesis list \<times> hypothesis list" where
  "evaluate_all digest ask evidence hs =
     evaluate_active digest (\<lambda>j h. evaluate_hypothesis (ask j) h evidence) 0 hs"

datatype batch_reply = BatchRateLimited | BatchFailed | BatchRows "(int \<times> evaluation_result) list"

text \<open>Rows are stored by index, so that the last of several for one index counts.\<close>

definition row_of :: "(int \<times> evaluation_result) list \<Rightarrow> int \<Rightarrow> evaluation_result option" where
  "row_of rows k = map_option validate_evaluation (map_of (rev rows) k)"

definition batch_evaluation ::
  "batch_reply \<Rightarrow> evaluation_result option \<Rightarrow> int \<Rightarrow> evidence_finding list \<Rightarrow> hypothesis \<Rightarrow> evaluation_result" where
  "batch_evaluation reply single k evidence h =
     (case reply of
        BatchRateLimited \<Rightarrow> heuristic_evaluation h evidence
      | BatchFailed \<Rightarrow> evaluate_hypothesis single h evidence
      | BatchRows rows \<Rightarrow>
          (case row_of rows k of Some r \<Rightarrow> r | None \<Rightarrow> heuristic_evaluation h evidence))"

text \<open>The evaluator: whether it has a client, whether the provider cools down, the replies to batches and to single calls.\<close>

record evaluator =
  ev_has_client :: bool
  ev_cooling :: bool
  ev_batch :: "nat \<Rightarrow> batch_reply"
  ev_single :: "nat \<Rightarrow> evaluation_result option"

definition batch_size :: "int \<Rightarrow> nat" where
  "batch_size n = (if n \<le> 0 \<or> 10 < n then 8 else nat n)"

definition evaluate_all_batched ::
  "(string \<Rightarrow> nat list) \<Rightarrow> evaluator \<Rightarrow> int \<Rightarrow> evidence_finding list \<Rightarrow> hypothesis list \<Rightarrow> hypothesis list \<times> hypothesis list" where
  "evaluate_all_batched digest e n evidence hs =
     (let single = (if ev_has_client e \<and> \<not> ev_cooling e then ev_single e else (\<lambda>_. None)) in
      if length (filter (\<lambda>h. \<not> hy_terminated h) hs) \<le> 1 \<or> \<not> ev_has_client e then evaluate_all digest single evidence hs
      else if ev_cooling e then evaluate_active digest (\<lambda>j h. heuristic_evaluation h evidence) 0 hs
      else evaluate_active digest
             (\<lambda>j h. batch_evaluation (ev_batch e (j div batch_size n)) (ev_single e j) (int (j mod batch_size n)) evidence h) 0 hs)"

definition prune_hypotheses_by_score :: "real \<Rightarrow> hypothesis list \<Rightarrow> hypothesis list" where
  "prune_hypotheses_by_score threshold hs = filter (\<lambda>h. threshold \<le> hy_confidence_score h) hs"

section \<open>The committee\<close>

record committee_verdict =
  cv_role :: string
  cv_verdict :: string
  cv_reason :: string

definition normalize_committee_verdict :: "string \<Rightarrow> string" where
  "normalize_committee_verdict v =
     (let v = to_lower (trim_space v) in
      if v \<in> {''approve'', ''approved''} then ''approve''
      else if v \<in> {''reject'', ''rejected''} then ''reject''
      else if v \<in> {''revise'', ''revision'', ''needs_revision''} then ''revise'' else [])"

definition member_vote :: "committee_verdict \<Rightarrow> string" where
  "member_vote v = (let n = normalize_committee_verdict (cv_verdict v) in if n = [] then ''revise'' else n)"

definition votes :: "committee_verdict list \<Rightarrow> string \<Rightarrow> nat" where
  "votes vs w = length (filter (\<lambda>v. member_vote v = w) vs)"

definition majority_committee_verdict :: "committee_verdict list \<Rightarrow> committee_verdict" where
  "majority_committee_verdict vs =
     (if vs = [] then \<lparr>cv_role = [], cv_verdict = ''approve'', cv_reason = ''No member verdicts''\<rparr>
      else (let w = hd (sort_key (\<lambda>w. - int (votes vs w)) [''reject'', ''revise'', ''approve'']) in
            \<lparr>cv_role = ''Majority'', cv_verdict = w,
             cv_reason = join ''; '' (map (\<lambda>v. trim_space (cv_role v @ '': '' @ cv_reason v)) (filter (\<lambda>v. member_vote v = w) vs))\<rparr>))"

definition committee_members :: "string list" where
  "committee_members = [''FactChecker'', ''Synthesizer'', ''ContradictionAnalyst'']"

datatype member_reply = MemberCooling | MemberRateLimited | MemberFailed | MemberUnreadable | MemberVerdict string string

fun hear_members :: "(string \<times> member_reply) list \<Rightarrow> committee_verdict list \<times> bool \<times> bool" where
  "hear_members [] = ([], False, False)"
| "hear_members ((role, reply) # rest) =
     (case reply of
        MemberCooling \<Rightarrow> ([], True, False)
      | MemberRateLimited \<Rightarrow> ([], True, False)
      | MemberFailed \<Rightarrow> hear_members rest
      | MemberUnreadable \<Rightarrow> (case hear_members rest of (vs, limited, unreadable) \<Rightarrow> (vs, limited, True))
      | MemberVerdict v reason \<Rightarrow>
          (case hear_members rest of
             (vs, limited, unreadable) \<Rightarrow> (\<lparr>cv_role = role, cv_verdict = v, cv_reason = reason\<rparr> # vs, limited, unreadable)))"

text \<open>The session of a committee: its client, the cool-down at the start, the replies; \<open>None\<close> of the supervisor is any failure.\<close>

record committee_session =
  cs_has_client :: bool
  cs_cooling :: bool
  cs_members :: "string \<Rightarrow> member_reply"
  cs_supervisor :: "(string \<times> string) option"

definition deliberate :: "committee_session \<Rightarrow> committee_verdict" where
  "deliberate s =
     (let approve = (\<lambda>r. \<lparr>cv_role = [], cv_verdict = ''approve'', cv_reason = r\<rparr>) in
      if \<not> cs_has_client s then approve ''No LLM client''
      else if cs_cooling s then approve ''Provider cooldown active; deterministic fallback used.''
      else (case hear_members (map (\<lambda>m. (m, cs_members s m)) committee_members) of
              (vs, limited, unreadable) \<Rightarrow>
                if vs = []
                then (if limited then approve ''Provider cooldown active; deterministic fallback used.''
                      else if unreadable
                      then \<lparr>cv_role = [], cv_verdict = ''revise'', cv_reason = ''Committee structured output was invalid; revision required.''\<rparr>
                      else approve ''Committee failed to deliberate'')
                else if limited then majority_committee_verdict vs
                else (case cs_supervisor s of
                        None \<Rightarrow> majority_committee_verdict vs
                      | Some (v, reason) \<Rightarrow>
                          (let n = normalize_committee_verdict v in
                           if n = [] then majority_committee_verdict vs
                           else \<lparr>cv_role = ''Supervisor'', cv_verdict = n, cv_reason = reason\<rparr>))))"

text \<open>The verdict on the hypothesis, as \<open>refreshLoopReasoning\<close> of \<open>autonomous.go\<close> takes it over.\<close>

definition apply_committee_verdict :: "committee_verdict \<Rightarrow> hypothesis \<Rightarrow> hypothesis" where
  "apply_committee_verdict v h =
     h\<lparr>hy_confidence_score := (if cv_verdict v = ''approve'' then 8 / 10 else if cv_verdict v = ''reject'' then 1 / 10
                               else if cv_verdict v = ''revise'' then 4 / 10 else hy_confidence_score h),
       hy_status := cv_verdict v,
       hy_terminated := (cv_verdict v = ''reject'' \<or> hy_terminated h)\<rparr>"

definition needs_committee :: "bool \<Rightarrow> evidence_finding list \<Rightarrow> hypothesis \<Rightarrow> bool" where
  "needs_committee high_depth findings h \<longleftrightarrow>
     high_depth \<and> (2 \<le> length findings \<or> (0 < hy_confidence_score h \<and> hy_confidence_score h < 65 / 100) \<or> 0 < hy_contradiction_count h)"

text \<open>\<open>session n\<close> is the committee's session on the \<open>n\<close>-th hypothesis; there is no committee while the provider cools down.\<close>

definition deliberate_all ::
  "bool \<Rightarrow> (nat \<Rightarrow> committee_session) option \<Rightarrow> evidence_finding list \<Rightarrow> hypothesis list \<Rightarrow> hypothesis list" where
  "deliberate_all high_depth session findings hs =
     map (\<lambda>(n, h). case session of
            Some s \<Rightarrow> if \<not> hy_terminated h \<and> needs_committee high_depth findings h
                      then apply_committee_verdict (deliberate (s n)) h else h
          | None \<Rightarrow> h) (enumerate 0 hs)"

section \<open>What an evaluation leaves\<close>

definition reviewed :: "hypothesis \<Rightarrow> bool" where
  "reviewed h \<longleftrightarrow>
     0 \<le> hy_confidence_score h \<and> hy_confidence_score h \<le> 1 \<and> hy_query_budget h \<in> {1, 2, 3}
     \<and> hy_status h \<in> {''supported'', ''refuted'', ''uncertain'', ''branched'', ''pruned''}
     \<and> (hy_status h \<in> {''refuted'', ''pruned''} \<longrightarrow> hy_terminated h)"

definition valid_evaluation :: "evaluation_result \<Rightarrow> bool" where
  "valid_evaluation r \<longleftrightarrow>
     0 \<le> er_score r \<and> er_score r \<le> 1 \<and> er_verdict r \<in> {''supported'', ''uncertain'', ''refuted''}"

lemma valid_heuristic [simp]: "valid_evaluation (heuristic_evaluation h evidence)"
  by (simp add: heuristic_evaluation_def heuristic_score_def valid_evaluation_def Let_def)

lemma valid_validated [simp]: "valid_evaluation (validate_evaluation r)"
  by (simp add: validate_evaluation_def valid_evaluation_def)

lemma valid_evaluate [simp]: "valid_evaluation (evaluate_hypothesis reply h evidence)"
  by (simp add: evaluate_hypothesis_def split: option.split)

lemma valid_rows: "row_of rows k = Some r \<Longrightarrow> valid_evaluation r"
  by (auto simp: row_of_def)

lemma valid_batch [simp]: "valid_evaluation (batch_evaluation reply single k evidence h)"
  by (auto simp: batch_evaluation_def intro: valid_rows split: batch_reply.split option.split)

lemma reviewed_apply:
  assumes "valid_evaluation r"
  shows "reviewed (fst (apply_evaluation_result digest h r))"
  using assms by (auto simp: apply_evaluation_result_def reviewed_def valid_evaluation_def Let_def)

lemma apply_evaluation_sub:
  "x \<in> set (snd (apply_evaluation_result digest h r)) \<Longrightarrow>
     hy_parent_id x = hy_id h \<and> \<not> blank (hy_claim x) \<and> \<not> hy_terminated x \<and> hy_status (fst (apply_evaluation_result digest h r)) = ''branched''"
  by (auto simp: apply_evaluation_result_def evaluated_sub_hypothesis_def Let_def split: if_splits)

lemma apply_evaluation_id [simp]: "hy_id (fst (apply_evaluation_result digest h r)) = hy_id h"
  by (simp add: apply_evaluation_result_def Let_def)

lemma evaluate_active_sound:
  assumes "\<And>j h. valid_evaluation (ev j h)"
  shows "list_all2 (\<lambda>h h'. if hy_terminated h then h' = h else reviewed h' \<and> hy_id h' = hy_id h) hs (fst (evaluate_active digest ev j hs))
     \<and> (\<forall>x \<in> set (snd (evaluate_active digest ev j hs)).
          \<exists>h \<in> set (fst (evaluate_active digest ev j hs)).
            hy_status h = ''branched'' \<and> hy_parent_id x = hy_id h \<and> \<not> blank (hy_claim x) \<and> \<not> hy_terminated x)"
proof (induction hs arbitrary: j)
  case (Cons h hs)
  obtain h' sub where a: "apply_evaluation_result digest h (ev j h) = (h', sub)" by fastforce
  then have h': "reviewed h'" "hy_id h' = hy_id h"
    "\<forall>x \<in> set sub. hy_parent_id x = hy_id h' \<and> \<not> blank (hy_claim x) \<and> \<not> hy_terminated x \<and> hy_status h' = ''branched''"
    using reviewed_apply [OF assms, of digest h j h] apply_evaluation_id [of digest h "ev j h"] apply_evaluation_sub [of _ digest h "ev j h"]
    by auto
  obtain hs' new where r: "evaluate_active digest ev (if hy_terminated h then j else Suc j) hs = (hs', new)" by fastforce
  have "list_all2 (\<lambda>h h'. if hy_terminated h then h' = h else reviewed h' \<and> hy_id h' = hy_id h) hs hs'"
    "\<forall>x \<in> set new. \<exists>h \<in> set hs'. hy_status h = ''branched'' \<and> hy_parent_id x = hy_id h \<and> \<not> blank (hy_claim x) \<and> \<not> hy_terminated x"
    using Cons.IH [of "if hy_terminated h then j else Suc j"] r by simp_all
  then show ?case using r a h' by (cases "hy_terminated h") auto
qed simp

text \<open>
  C37. Whatever the language model answers, and with every fallback, an evaluation leaves a hypothesis that was
  already terminated alone and gives every other one a score between 0 and 1, a known status and a query budget
  of one to three; refuted and pruned hypotheses are terminated, and new hypotheses are children, with a claim,
  of evaluated ones that were branched.
\<close>

lemma evaluation_leaves_reviewed_hypotheses:
  "list_all2 (\<lambda>h h'. if hy_terminated h then h' = h else reviewed h' \<and> hy_id h' = hy_id h) hs
       (fst (evaluate_all_batched digest e n evidence hs))
   \<and> (\<forall>x \<in> set (snd (evaluate_all_batched digest e n evidence hs)).
        \<exists>h \<in> set (fst (evaluate_all_batched digest e n evidence hs)).
          hy_status h = ''branched'' \<and> hy_parent_id x = hy_id h \<and> \<not> blank (hy_claim x) \<and> \<not> hy_terminated x)"
proof -
  have "\<exists>ev. evaluate_all_batched digest e n evidence hs = evaluate_active digest ev 0 hs \<and> (\<forall>j h. valid_evaluation (ev j h))"
    by (auto simp: evaluate_all_batched_def evaluate_all_def Let_def)
  then obtain ev where "evaluate_all_batched digest e n evidence hs = evaluate_active digest ev 0 hs" "\<And>j h. valid_evaluation (ev j h)"
    by blast
  then show ?thesis using evaluate_active_sound [of ev hs digest 0] by simp
qed

lemma evaluation_leaves_reviewed_hypotheses_witness:
  "\<exists>h'. evaluate_all_batched (\<lambda>_. []) \<lparr>ev_has_client = False, ev_cooling = False, ev_batch = (\<lambda>_. BatchFailed), ev_single = (\<lambda>_. None)\<rparr> 8 []
      [evaluated_sub_hypothesis (\<lambda>_. []) undefined ''c''] = ([h'], []) \<and> reviewed h'"
  using evaluation_leaves_reviewed_hypotheses [of "[evaluated_sub_hypothesis (\<lambda>_. []) undefined ''c'']" "\<lambda>_. []"
     "\<lparr>ev_has_client = False, ev_cooling = False, ev_batch = (\<lambda>_. BatchFailed), ev_single = (\<lambda>_. None)\<rparr>" 8 "[]"]
  by (auto simp: list_all2_Cons1 evaluated_sub_hypothesis_def evaluate_all_batched_def evaluate_all_def apply_evaluation_result_def
     heuristic_evaluation_def evaluate_hypothesis_def relevant_evidence_def Let_def)

section \<open>Votes\<close>

lemma member_vote_known: "member_vote v \<in> {''reject'', ''revise'', ''approve''}"
  by (simp add: member_vote_def normalize_committee_verdict_def Let_def)

lemma majority_head:
  "hd (sort_key (\<lambda>w. - int (votes vs w)) [''reject'', ''revise'', ''approve'']) =
     (if votes vs ''revise'' \<le> votes vs ''reject'' \<and> votes vs ''approve'' \<le> votes vs ''reject'' then ''reject''
      else if votes vs ''approve'' \<le> votes vs ''revise'' then ''revise'' else ''approve'')"
  by auto






text \<open>
  Without a client the committee approves. On the high-depth planes every hypothesis that is not terminated then
  leaves the deliberation approved, with the score 0.8, whatever its evaluation was, and none of them is pruned.
\<close>

lemma absent_committee_approves:
  assumes "\<And>n. \<not> cs_has_client (session n)" and "2 \<le> length findings" and "h \<in> set (deliberate_all True (Some session) findings hs)"
    and "\<not> hy_terminated h"
  shows "hy_confidence_score h = 8 / 10 \<and> hy_status h = ''approve''
     \<and> h \<in> set (prune_hypotheses_by_score (3 / 10) (deliberate_all True (Some session) findings hs))"
proof -
  obtain n g where "(n, g) \<in> set (enumerate 0 hs)"
    and h: "h = (if \<not> hy_terminated g \<and> needs_committee True findings g then apply_committee_verdict (deliberate (session n)) g else g)"
    using assms(3) by (auto simp: deliberate_all_def)
  then have "\<not> hy_terminated g" using assms(4) by (auto split: if_splits)
  then have "h = apply_committee_verdict (deliberate (session n)) g" using h assms(2) by (simp add: needs_committee_def)
  then have "hy_confidence_score h = 8 / 10 \<and> hy_status h = ''approve''"
    using assms(1) by (simp add: apply_committee_verdict_def deliberate_def Let_def)
  then show ?thesis using assms(3) by (simp add: prune_hypotheses_by_score_def)
qed

definition unsupported_hypothesis :: hypothesis where
  "unsupported_hypothesis = evaluated_sub_hypothesis (\<lambda>_. []) undefined ''c''"

definition absent_session :: committee_session where
  "absent_session = \<lparr>cs_has_client = False, cs_cooling = False, cs_members = (\<lambda>_. MemberFailed), cs_supervisor = None\<rparr>"

lemma absent_committee_approves_witness:
  "\<exists>h. deliberate_all True (Some (\<lambda>_. absent_session)) [f, f] [unsupported_hypothesis] = [h] \<and> hy_confidence_score h = 8 / 10"
  using absent_committee_approves [of "\<lambda>_. absent_session" "[f, f]"
     "apply_committee_verdict (deliberate absent_session) unsupported_hypothesis" "[unsupported_hypothesis]"]
  by (simp add: deliberate_all_def absent_session_def needs_committee_def unsupported_hypothesis_def evaluated_sub_hypothesis_def
     deliberate_def apply_committee_verdict_def Let_def)

lemma deliberate_known: "cv_verdict (deliberate s) \<in> {''approve'', ''reject'', ''revise''}"
proof -
  have m: "cv_verdict (majority_committee_verdict vs) \<in> {''approve'', ''reject'', ''revise''}" for vs
    by (cases "vs = []") (simp_all only: majority_committee_verdict_def Let_def majority_head, auto)
  have n: "normalize_committee_verdict v \<noteq> [] \<Longrightarrow> normalize_committee_verdict v \<in> {''approve'', ''reject'', ''revise''}" for v
    by (auto simp: normalize_committee_verdict_def Let_def split: if_splits)
  show ?thesis using m n by (auto simp: deliberate_def Let_def split: prod.split option.split)
qed

end
