(* ===== verification/HypothesisExploration.thy ===== *)
theory HypothesisExploration
  imports HypothesisReview BranchSearch
begin

text \<open>
  Exploration of hypotheses (\<open>orchestrator/internal/wisdev/hypothesis_explorer.go\<close>): each one that is not terminated
  gets queries of its own, is searched for, evaluated and, where it stays uncertain, searched for and evaluated a
  second time. What the language model, the search and the full-text fetch answer is an argument.
\<close>

text \<open>The category is a field of the Go hypothesis that only the fallback queries read.\<close>

record exploration_answers =
  xa_category :: string
  xa_generated :: "string list option"
  xa_search :: "string \<Rightarrow> paper list option"
  xa_full_text :: "paper list \<Rightarrow> paper list"
  xa_has_evaluator :: bool
  xa_first :: "evaluation_result option"
  xa_refined :: "string option"
  xa_second :: "evaluation_result option"

section \<open>Queries and papers\<close>

definition add_query :: "string list \<Rightarrow> string \<Rightarrow> string list" where
  "add_query qs q =
     (let t = trim_space q in if t = [] \<or> list_ex (\<lambda>x. equal_fold (trim_space x) t) qs then qs else qs @ [t])"

definition heuristic_generate_queries :: "string \<Rightarrow> hypothesis \<Rightarrow> int \<Rightarrow> string list" where
  "heuristic_generate_queries category h n =
     (let n = (if n \<le> 0 then 2 else n); claim = trim_space (hy_claim h); few = (\<lambda>qs. int (length qs) < n);
          qs = add_query (add_query [] claim) (hy_falsifiability h);
          qs = (if blank category then qs else add_query qs (trim_space category @ '' evidence''));
          qs = (if few qs \<and> claim \<noteq> [] then add_query qs (claim @ '' replication'') else qs);
          qs = (if few qs \<and> claim \<noteq> [] then add_query qs (claim @ '' contradiction'') else qs);
          qs = (if few qs then add_query qs (''evidence for '' @ claim) else qs)
      in take (nat n) qs)"

definition generate_hypothesis_queries :: "exploration_answers \<Rightarrow> hypothesis \<Rightarrow> int \<Rightarrow> string list" where
  "generate_hypothesis_queries ans h n =
     (case xa_generated ans of
        None \<Rightarrow> heuristic_generate_queries (xa_category ans) h n
      | Some qs \<Rightarrow> if qs = [] then heuristic_generate_queries (xa_category ans) h n else qs)"

definition dedupe_key :: "paper \<Rightarrow> string" where
  "dedupe_key p = (if p_id p \<noteq> [] then p_id p else if p_doi p \<noteq> [] then p_doi p else p_title p)"

definition dedupe_papers :: "paper list \<Rightarrow> paper list" where
  "dedupe_papers ps = uniq_by dedupe_key [] (filter (\<lambda>p. dedupe_key p \<noteq> []) ps)"

definition search_queries :: "exploration_answers \<Rightarrow> string list \<Rightarrow> paper list" where
  "search_queries ans qs = concat (map (\<lambda>q. case xa_search ans q of None \<Rightarrow> [] | Some ps \<Rightarrow> ps) qs)"

definition neutral_finding :: "string \<Rightarrow> paper \<Rightarrow> evidence_finding" where
  "neutral_finding i p =
     \<lparr>ef_id = i, ef_claim = p_title p, ef_source_id = p_id p, ef_paper_title = p_title p, ef_snippet = evidence_text_from_paper p,
      ef_year = p_year p, ef_confidence = 1 / 2, ef_status = []\<rparr>"

section \<open>One hypothesis\<close>

definition refine_hypothesis_claim :: "exploration_answers \<Rightarrow> hypothesis \<Rightarrow> evidence_finding list \<Rightarrow> string" where
  "refine_hypothesis_claim ans h evidence =
     (case xa_refined ans of
        None \<Rightarrow> []
      | Some c \<Rightarrow>
          (let t = trim_space c in
           if evidence = [] \<or> t = [] \<or> equal_fold t (trim_space (hy_claim h)) then [] else take 500 t))"

definition with_claim :: "string \<Rightarrow> hypothesis \<Rightarrow> hypothesis" where
  "with_claim c h = h\<lparr>hy_claim := c, hy_text := (if blank (hy_text h) then hy_text h else c)\<rparr>"

definition plain_evaluation :: evaluation_result where
  "plain_evaluation = \<lparr>er_score = 1 / 2, er_verdict = ''uncertain'', er_branching = [], er_sub_hypotheses = [], er_suggested_queries = []\<rparr>"

definition second_pass_queries :: "evaluation_result \<Rightarrow> string list" where
  "second_pass_queries r = (if er_verdict r = ''uncertain'' then take 2 (er_suggested_queries r) else [])"

record hypothesis_exploration =
  hx_queries :: "string list"
  hx_second_pass :: "string list"
  hx_papers :: "paper list"
  hx_result :: evaluation_result
  hx_refined :: string
  hx_status :: string
  hx_terminated :: bool

definition explore_hypothesis :: "exploration_answers \<Rightarrow> hypothesis \<Rightarrow> int \<Rightarrow> hypothesis_exploration" where
  "explore_hypothesis ans h per =
     (let qs = generate_hypothesis_queries ans h (max per (hy_query_budget h));
          qs = (if qs = [] then [hy_claim h] else qs);
          ps = xa_full_text ans (dedupe_papers (search_queries ans qs));
          evs = map (\<lambda>(n, p). neutral_finding (''hyp_ev_'' @ hy_id h @ ''_'' @ itoa (int n)) p) (enumerate 0 ps);
          first = (if xa_has_evaluator ans then evaluate_hypothesis (xa_first ans) h evs else plain_evaluation);
          qs2 = second_pass_queries first;
          ps2 = search_queries ans qs2;
          evs2 = evs @ map (\<lambda>p. neutral_finding (''hyp_ev_ref_'' @ hy_id h @ ''_'' @ p_id p) p) ps2;
          refined = (if qs2 = [] then [] else refine_hypothesis_claim ans h evs2);
          target = (if refined = [] then h else with_claim refined h);
          r = (if qs2 = [] \<or> \<not> xa_has_evaluator ans then first else evaluate_hypothesis (xa_second ans) target evs2);
          all = ps @ ps2
      in \<lparr>hx_queries = qs, hx_second_pass = qs2, hx_papers = all, hx_result = r, hx_refined = refined,
          hx_status = (if length all < 3 then ''insufficient_evidence'' else if er_verdict r = ''refuted'' then ''refuted'' else ''completed''),
          hx_terminated = (3 \<le> length all \<and> er_verdict r = ''refuted'')\<rparr>)"

section \<open>All hypotheses\<close>

text \<open>After the workers have joined, the refined claim and the termination are written to the hypothesis.\<close>

definition explored_hypothesis :: "int \<Rightarrow> hypothesis_exploration \<Rightarrow> hypothesis \<Rightarrow> hypothesis" where
  "explored_hypothesis now x h =
     (let c = trim_space (hx_refined x);
          h = (if c \<noteq> [] \<and> \<not> equal_fold c (trim_space (hy_claim h)) then (with_claim c h)\<lparr>hy_updated_at := now\<rparr> else h)
      in if hx_terminated x then h\<lparr>hy_terminated := True\<rparr> else h)"

definition exploration_of :: "int \<Rightarrow> hypothesis_exploration \<Rightarrow> hypothesis \<Rightarrow> exploration_result" where
  "exploration_of now x h =
     \<lparr>xr_hypothesis = explored_hypothesis now x h, xr_new_evidence = hx_papers x,
      xr_evaluation = Some \<lparr>be_decision = er_branching (hx_result x), be_sub_hypotheses = er_sub_hypotheses (hx_result x),
                            be_suggested_queries = er_suggested_queries (hx_result x)\<rparr>,
      xr_suggested_queries = er_suggested_queries (hx_result x), xr_queries = hx_queries x,
      xr_confidence = er_score (hx_result x), xr_status = hx_status x\<rparr>"

text \<open>
  \<open>ans n\<close> answers the worker of the \<open>n\<close>-th hypothesis; \<open>None\<close> is a worker whose context ended before its turn.
  The results carry the position of their hypothesis and come in the order of falling confidence.
\<close>

definition explore_all ::
  "int \<Rightarrow> (nat \<Rightarrow> exploration_answers option) \<Rightarrow> int \<Rightarrow> hypothesis list \<Rightarrow> (nat \<times> exploration_result) list" where
  "explore_all now ans per hs =
     (let per = (if per \<le> 0 then 2 else per) in
      List.map_filter (\<lambda>(n, h). if hy_terminated h then None
                                else map_option (\<lambda>a. (n, exploration_of now (explore_hypothesis a h per) h)) (ans n))
        (sort_key (\<lambda>(n, h). - hy_confidence_score h) (enumerate 0 hs)))"

section \<open>What an exploration costs\<close>

lemma add_query_length: "length (add_query qs q) \<le> Suc (length qs)"
  by (simp add: add_query_def Let_def)

lemma heuristic_queries_length: "length (heuristic_generate_queries category h n) \<le> nat (if n \<le> 0 then 2 else n)"
  unfolding heuristic_generate_queries_def Let_def length_take by (rule min.cobounded2)

text \<open>
  Without a language model an exploration runs at most the queries of the branch, or of the budget allocated to
  the hypothesis if that is larger, and two more in the second pass; only the first are reported.
\<close>

lemma exploration_cost:
  assumes "xa_generated ans = None" and "0 < per"
  shows "length (hx_queries (explore_hypothesis ans h per)) \<le> nat (max per (hy_query_budget h))
     \<and> length (hx_second_pass (explore_hypothesis ans h per)) \<le> 2"
proof -
  have "length (generate_hypothesis_queries ans h (max per (hy_query_budget h))) \<le> nat (max per (hy_query_budget h))"
    using heuristic_queries_length [of "xa_category ans" h "max per (hy_query_budget h)"] assms
    by (simp add: generate_hypothesis_queries_def split: if_splits)
  moreover have "1 \<le> nat (max per (hy_query_budget h))" using assms(2) by simp
  moreover have "length (second_pass_queries x) \<le> 2" for x by (simp add: second_pass_queries_def)
  ultimately show ?thesis unfolding explore_hypothesis_def Let_def hypothesis_exploration.simps
    by (simp split: if_split)
qed

lemma explore_hypothesis_status:
  "hx_status (explore_hypothesis ans h per) \<in> {''completed'', ''insufficient_evidence'', ''refuted''}
   \<and> (hx_terminated (explore_hypothesis ans h per) \<longleftrightarrow> hx_status (explore_hypothesis ans h per) = ''refuted'')
   \<and> (hx_terminated (explore_hypothesis ans h per) \<longrightarrow> 3 \<le> length (hx_papers (explore_hypothesis ans h per)))
   \<and> hx_queries (explore_hypothesis ans h per) \<noteq> []"
  unfolding explore_hypothesis_def Let_def hypothesis_exploration.simps by (simp add: not_less)

lemma explored_hypothesis_simps [simp]:
  "hy_id (explored_hypothesis now x h) = hy_id h"
  "hy_terminated (explored_hypothesis now x h) \<longleftrightarrow> hx_terminated x \<or> hy_terminated h"
  by (simp_all add: explored_hypothesis_def with_claim_def Let_def)

lemma explored_in:
  "(n, r) \<in> set (explore_all now ans per hs) \<Longrightarrow>
     n < length hs \<and> \<not> hy_terminated (hs ! n)
     \<and> (\<exists>a. ans n = Some a \<and> r = exploration_of now (explore_hypothesis a (hs ! n) (if per \<le> 0 then 2 else per)) (hs ! n))"
  by (auto simp: explore_all_def Let_def map_filter_def in_set_enumerate_eq split: if_splits)

lemma explored_order: "sorted (map (\<lambda>(n, r). - hy_confidence_score (hs ! n)) (explore_all now ans per hs))"
proof -
  let ?f = "\<lambda>(n::nat, h). - hy_confidence_score h"
  have m: "map (\<lambda>(n, r). - hy_confidence_score (hs ! n))
         (List.map_filter (\<lambda>(n, h). if hy_terminated h then None else map_option (\<lambda>a. (n, e a h)) (ans n)) xs)
       = map ?f (filter (\<lambda>(n, h). \<not> hy_terminated h \<and> ans n \<noteq> None) xs)"
    if "\<forall>(n, h) \<in> set xs. h = hs ! n" for xs and e :: "exploration_answers \<Rightarrow> hypothesis \<Rightarrow> exploration_result"
    using that
  proof (induction xs)
    case (Cons x xs)
    obtain n h where "x = (n, h)" by fastforce
    then show ?case using Cons by (cases "hy_terminated h"; cases "ans n") (simp_all add: map_filter_simps)
  qed (simp add: map_filter_simps)
  have "sorted (map ?f (filter P (sort_key ?f (enumerate 0 hs))))" for P
    by (rule sorted_filter) simp
  then show ?thesis unfolding explore_all_def Let_def
    by (subst m) (auto simp: in_set_enumerate_eq)
qed

text \<open>
  Every result belongs to a hypothesis that was not terminated, the most confident come first, and the
  hypothesis is terminated by the exploration exactly if its status is refuted, for which at least three papers
  were found.
\<close>

lemma exploration_results_correct:
  "sorted (map (\<lambda>(n, r). - hy_confidence_score (hs ! n)) (explore_all now ans per hs))
   \<and> (\<forall>(n, r) \<in> set (explore_all now ans per hs).
        n < length hs \<and> \<not> hy_terminated (hs ! n) \<and> hy_id (xr_hypothesis r) = hy_id (hs ! n)
        \<and> xr_status r \<in> {''completed'', ''insufficient_evidence'', ''refuted''}
        \<and> (hy_terminated (xr_hypothesis r) \<longleftrightarrow> xr_status r = ''refuted'')
        \<and> (xr_status r = ''refuted'' \<longrightarrow> 3 \<le> length (xr_new_evidence r)) \<and> xr_queries r \<noteq> [])"
proof -
  have "n < length hs \<and> \<not> hy_terminated (hs ! n) \<and> hy_id (xr_hypothesis r) = hy_id (hs ! n)
        \<and> xr_status r \<in> {''completed'', ''insufficient_evidence'', ''refuted''}
        \<and> (hy_terminated (xr_hypothesis r) \<longleftrightarrow> xr_status r = ''refuted'')
        \<and> (xr_status r = ''refuted'' \<longrightarrow> 3 \<le> length (xr_new_evidence r)) \<and> xr_queries r \<noteq> []"
    if e: "(n, r) \<in> set (explore_all now ans per hs)" for n r
  proof -
    obtain a where "n < length hs" "\<not> hy_terminated (hs ! n)"
      and r: "r = exploration_of now (explore_hypothesis a (hs ! n) (if per \<le> 0 then 2 else per)) (hs ! n)"
      using explored_in [OF e] by blast
    then show ?thesis
      using explore_hypothesis_status [of a "hs ! n" "if per \<le> 0 then 2 else per"] unfolding r exploration_of_def by simp
  qed
  then show ?thesis using explored_order by auto
qed

section \<open>More queries than the branch was given\<close>

definition offline_answers :: exploration_answers where
  "offline_answers = \<lparr>xa_category = ''autonomous'', xa_generated = None, xa_search = (\<lambda>_. None), xa_full_text = (\<lambda>ps. ps),
     xa_has_evaluator = True, xa_first = None, xa_refined = None, xa_second = None\<rparr>"

definition budgeted_hypothesis :: hypothesis where
  "budgeted_hypothesis = \<lparr>hy_id = ''h'', hy_parent_id = [], hy_query = ''q'', hy_text = ''c'', hy_claim = ''c'', hy_confidence_score = 1 / 2,
     hy_status = [], hy_terminated = False, hy_evidence = [], hy_contradictions = [], hy_contradiction_count = 0,
     hy_evidence_count = 0, hy_updated_at = 0, hy_query_budget = 3, hy_falsifiability = ''f'', hy_confidence_threshold = 0\<rparr>"

text \<open>A branch with one query runs four: the three of the allocated budget and, unreported, one of the second pass.\<close>

lemma allocated_budget_exceeds_branch:
  "length (hx_queries (explore_hypothesis offline_answers budgeted_hypothesis 1)) = 3
   \<and> hx_second_pass (explore_hypothesis offline_answers budgeted_hypothesis 1) = [''c'']
   \<and> xr_queries (exploration_of 0 (explore_hypothesis offline_answers budgeted_hypothesis 1) budgeted_hypothesis)
       = hx_queries (explore_hypothesis offline_answers budgeted_hypothesis 1)"
proof -
  have q: "length (generate_hypothesis_queries offline_answers budgeted_hypothesis 3) = 3" by code_simp
  have "search_queries offline_answers qs = []" for qs by (simp add: search_queries_def offline_answers_def)
  moreover have "dedupe_papers [] = []" by (simp add: dedupe_papers_def)
  ultimately have e: "explore_hypothesis offline_answers budgeted_hypothesis 1 =
     (let h = budgeted_hypothesis; qs = generate_hypothesis_queries offline_answers h 3; first = heuristic_evaluation h [] in
      \<lparr>hx_queries = qs, hx_second_pass = second_pass_queries first, hx_papers = [],
       hx_result = (if second_pass_queries first = [] then first else heuristic_evaluation h []), hx_refined = [],
       hx_status = ''insufficient_evidence'', hx_terminated = False\<rparr>)"
    using q unfolding explore_hypothesis_def Let_def
    by (auto simp: offline_answers_def evaluate_hypothesis_def refine_hypothesis_claim_def budgeted_hypothesis_def)
  show ?thesis using q unfolding e Let_def exploration_of_def
    by (simp add: second_pass_queries_def heuristic_evaluation_def relevant_evidence_def budgeted_hypothesis_def)
qed

lemma exploration_cost_witness:
  "length (hx_queries (explore_hypothesis offline_answers budgeted_hypothesis 1)) \<le> 3"
  using exploration_cost [of offline_answers 1 budgeted_hypothesis] by (simp add: offline_answers_def budgeted_hypothesis_def)

lemma exploration_results_correct_witness:
  "\<exists>r. explore_all 0 (\<lambda>_. Some offline_answers) 1 [budgeted_hypothesis] = [(0, r)] \<and> hy_id (xr_hypothesis r) = ''h'' \<and> xr_queries r \<noteq> []"
proof -
  have e: "explore_all 0 (\<lambda>_. Some offline_answers) 1 [budgeted_hypothesis]
     = [(0, exploration_of 0 (explore_hypothesis offline_answers budgeted_hypothesis 1) budgeted_hypothesis)]"
    by (simp add: explore_all_def map_filter_def budgeted_hypothesis_def)
  then show ?thesis
    using exploration_results_correct [of "[budgeted_hypothesis]" 0 "\<lambda>_. Some offline_answers" 1] by (simp add: budgeted_hypothesis_def)
qed

end
