(* ===== verification/ReasoningGraph.thy ===== *)
theory ReasoningGraph
  imports Beliefs "HOL-Library.Product_Lexorder"
begin

text \<open>
  The reasoning graph (\<open>orchestrator/internal/wisdev/architecture.go\<close>): built from hypotheses and evidence, updated
  with more of both, merged with the belief ledger (\<open>belief_state.go\<close>), and asked for the hypotheses that lack
  support. The metadata of nodes, which only a user interface reads, is left out.
\<close>

datatype node_type = QuestionNode | HypothesisNode | EvidenceNode | ClaimNode | GapNode

record reasoning_node =
  rn_id :: string
  rn_type :: node_type
  rn_label :: string
  rn_confidence :: real
  rn_sources :: "string list"

record reasoning_edge =
  re_from :: string
  re_to :: string
  re_label :: string

record reasoning_graph =
  rg_query :: string
  rg_nodes :: "reasoning_node list"
  rg_edges :: "reasoning_edge list"
  rg_root :: string

definition node_ids :: "reasoning_graph \<Rightarrow> string list" where
  "node_ids g = map rn_id (rg_nodes g)"

definition edge_key :: "reasoning_edge \<Rightarrow> string" where
  "edge_key e = re_from e @ ''|'' @ re_to e @ ''|'' @ re_label e"

definition append_node :: "reasoning_node \<Rightarrow> reasoning_graph \<Rightarrow> reasoning_graph" where
  "append_node n g =
     (if blank (rn_id n) \<or> blank (rn_label n) \<or> rn_id n \<in> set (node_ids g) then g else g\<lparr>rg_nodes := rg_nodes g @ [n]\<rparr>)"

definition append_edge :: "string \<Rightarrow> string \<Rightarrow> string \<Rightarrow> reasoning_graph \<Rightarrow> reasoning_graph" where
  "append_edge a b l g =
     (let e = \<lparr>re_from = a, re_to = b, re_label = l\<rparr> in
      if blank a \<or> blank b \<or> edge_key e \<in> edge_key ` set (rg_edges g) then g else g\<lparr>rg_edges := rg_edges g @ [e]\<rparr>)"

definition hypothesis_node_id :: "(string \<Rightarrow> nat list) \<Rightarrow> hypothesis \<Rightarrow> string" where
  "hypothesis_node_id digest h = stable_wisdev_id digest ''hypothesis'' [hy_claim h, hy_falsifiability h]"

definition evidence_label :: "evidence_finding \<Rightarrow> string" where
  "evidence_label ev = first_non_empty [ef_claim ev, ef_paper_title ev, ef_snippet ev]"

definition evidence_node_id :: "(string \<Rightarrow> nat list) \<Rightarrow> evidence_finding \<Rightarrow> string" where
  "evidence_node_id digest ev =
     stable_wisdev_id digest ''evidence'' [ef_source_id ev, ef_paper_title ev, evidence_label ev, ef_snippet ev, ef_id ev]"

definition hypothesis_support_ids :: "hypothesis \<Rightarrow> string list \<times> string list" where
  "hypothesis_support_ids h =
     (unique_trimmed_strings (map ef_source_id (hy_evidence h)), unique_trimmed_strings (map ef_id (hy_evidence h)))"

definition append_unique_string :: "string list \<Rightarrow> string \<Rightarrow> string list" where
  "append_unique_string xs v =
     (let t = trim_space v in
      if t = [] \<or> list_ex (\<lambda>x. equal_fold (trim_space x) t) xs then xs else xs @ [t])"

section \<open>Building the graph\<close>

definition hypothesis_node :: "(string \<Rightarrow> nat list) \<Rightarrow> hypothesis \<Rightarrow> reasoning_node" where
  "hypothesis_node digest h =
     \<lparr>rn_id = hypothesis_node_id digest h, rn_type = HypothesisNode, rn_label = trim_space (hy_claim h),
      rn_confidence = hy_confidence_threshold h, rn_sources = fst (hypothesis_support_ids h)\<rparr>"

definition evidence_node :: "(string \<Rightarrow> nat list) \<Rightarrow> evidence_finding \<Rightarrow> reasoning_node" where
  "evidence_node digest ev =
     \<lparr>rn_id = evidence_node_id digest ev, rn_type = EvidenceNode, rn_label = evidence_label ev,
      rn_confidence = clamp_float (ef_confidence ev) 0 1, rn_sources = trimmed [ef_source_id ev]\<rparr>"

definition empty_graph :: "string \<Rightarrow> reasoning_graph" where
  "empty_graph query =
     (let q = trim_space query in
      \<lparr>rg_query = q,
       rg_nodes = (if q = [] then [] else
         [\<lparr>rn_id = ''question_root'', rn_type = QuestionNode, rn_label = q, rn_confidence = 0, rn_sources = []\<rparr>]),
       rg_edges = [], rg_root = (if q = [] then [] else ''question_root'')\<rparr>)"

definition add_hypothesis_node :: "(string \<Rightarrow> nat list) \<Rightarrow> hypothesis \<Rightarrow> reasoning_graph \<Rightarrow> reasoning_graph" where
  "add_hypothesis_node digest h g =
     (let g = append_node (hypothesis_node digest h) g in
      if rg_query g = [] then g else append_edge ''question_root'' (hypothesis_node_id digest h) ''generates'' g)"

text \<open>What evidence a reference and a source stand for; hypotheses of one node share the support of the last of them.\<close>

definition evidence_by_ref :: "(string \<Rightarrow> nat list) \<Rightarrow> evidence_finding list \<Rightarrow> string dict" where
  "evidence_by_ref digest evs =
     fold (\<lambda>ev d. let i = evidence_node_id digest ev; t = trim_space (ef_id ev) in
             dict_set i i (if t = [] then d else dict_set t i d)) evs []"

definition evidence_by_source :: "(string \<Rightarrow> nat list) \<Rightarrow> evidence_finding list \<Rightarrow> string list dict" where
  "evidence_by_source digest evs =
     fold (\<lambda>ev d. let t = trim_space (ef_source_id ev) in
             if t = [] then d
             else dict_set t (append_unique_string (dict_get_or [] d t) (evidence_node_id digest ev)) d) evs []"

definition supports_by_node :: "(string \<Rightarrow> nat list) \<Rightarrow> hypothesis list \<Rightarrow> (string list \<times> string list) dict" where
  "supports_by_node digest hs = fold (\<lambda>h. dict_set (hypothesis_node_id digest h) (hypothesis_support_ids h)) hs []"

definition supporting_nodes :: "string dict \<Rightarrow> string list dict \<Rightarrow> string list \<times> string list \<Rightarrow> string list" where
  "supporting_nodes by_ref by_source support =
     (let ns = filter (\<lambda>n. n \<noteq> []) (map (\<lambda>i. dict_get_or [] by_ref (trim_space i)) (snd support)) in
      if ns \<noteq> [] then ns else concat (map (\<lambda>s. dict_get_or [] by_source (trim_space s)) (fst support)))"

definition link_hypothesis ::
  "string dict \<Rightarrow> string list dict \<Rightarrow> (string list \<times> string list) dict \<Rightarrow> string \<Rightarrow> reasoning_graph \<times> string list
     \<Rightarrow> reasoning_graph \<times> string list" where
  "link_hypothesis by_ref by_source supports hid s =
     (let ns = supporting_nodes by_ref by_source (dict_get_or ([], []) supports hid) in
      (fold (\<lambda>n. append_edge hid n ''supported_by'') ns (fst s), filter (\<lambda>n. n \<notin> set ns) (snd s)))"

definition build_reasoning_graph :: "(string \<Rightarrow> nat list) \<Rightarrow> string \<Rightarrow> hypothesis list \<Rightarrow> evidence_finding list \<Rightarrow> reasoning_graph" where
  "build_reasoning_graph digest query hs evidence =
     (let hs = filter (\<lambda>h. \<not> blank (hy_claim h)) hs;
          evs = filter (\<lambda>ev. evidence_label ev \<noteq> []) evidence;
          g = fold (add_hypothesis_node digest) hs (empty_graph query);
          g = fold (append_node \<circ> evidence_node digest) evs g;
          linked = fold (link_hypothesis (evidence_by_ref digest evs) (evidence_by_source digest evs) (supports_by_node digest hs))
                     (map (hypothesis_node_id digest) hs) (g, map (evidence_node_id digest) evs)
      in if rg_query g = [] then fst linked
         else fold (\<lambda>n. append_edge ''question_root'' n ''supported_by'') (snd linked) (fst linked))"

section \<open>Updating the graph\<close>

text \<open>
  The nodes of the graph are a slice and its index maps an id to a pointer into it. \<open>gu_spare\<close> is the room left
  in the slice; an append without room moves the slice, and from then on the index points into the old one, so
  that a new confidence of a known node is lost.
\<close>

record graph_update =
  gu_graph :: reasoning_graph
  gu_indexed :: "string list"
  gu_spare :: nat
  gu_moved :: bool

definition upsert_node :: "reasoning_node \<Rightarrow> graph_update \<Rightarrow> graph_update" where
  "upsert_node n u =
     (let g = gu_graph u in
      if blank (rn_id n) \<or> blank (rn_label n) then u
      else if rn_id n \<in> set (node_ids g)
      then (if rn_id n \<in> set (gu_indexed u) \<and> \<not> gu_moved u
            then u\<lparr>gu_graph := g\<lparr>rg_nodes := map (\<lambda>m. if rn_id m = rn_id n then m\<lparr>rn_confidence := rn_confidence n\<rparr> else m) (rg_nodes g)\<rparr>\<rparr>
            else u)
      else u\<lparr>gu_graph := g\<lparr>rg_nodes := rg_nodes g @ [n]\<rparr>, gu_spare := gu_spare u - 1, gu_moved := (gu_moved u \<or> gu_spare u = 0)\<rparr>)"

definition update_edge :: "string \<Rightarrow> string \<Rightarrow> string \<Rightarrow> graph_update \<Rightarrow> graph_update" where
  "update_edge a b l u = u\<lparr>gu_graph := append_edge a b l (gu_graph u)\<rparr>"

definition update_hypothesis :: "(string \<Rightarrow> nat list) \<Rightarrow> hypothesis \<Rightarrow> graph_update \<Rightarrow> graph_update" where
  "update_hypothesis digest h u =
     (let hid = hypothesis_node_id digest h; r = rg_root (gu_graph u);
          u = upsert_node (hypothesis_node digest h) u;
          u = (if r = [] then u else update_edge r hid ''generates'' u)
      in fold (\<lambda>ev u. if evidence_node_id digest ev \<in> set (node_ids (gu_graph u))
                      then update_edge hid (evidence_node_id digest ev) ''supported_by'' u else u) (hy_evidence h) u)"

definition evolution_edge :: "(string \<Rightarrow> nat list) \<Rightarrow> hypothesis list \<Rightarrow> hypothesis \<Rightarrow> reasoning_graph \<Rightarrow> reasoning_graph" where
  "evolution_edge digest hs h g =
     (if hy_parent_id h = [] then g
      else (case filter (\<lambda>p. hy_id p = hy_parent_id h) hs of
              [] \<Rightarrow> g
            | p # _ \<Rightarrow>
                if hypothesis_node_id digest p \<in> set (node_ids g)
                then append_edge (hypothesis_node_id digest p) (hypothesis_node_id digest h) ''branched_into'' g else g))"

text \<open>The edges of a belief; its gap nodes come with it.\<close>

definition merge_provenance :: "string \<Rightarrow> provenance_entry \<Rightarrow> reasoning_graph \<Rightarrow> reasoning_graph" where
  "merge_provenance nid pv g =
     (if blank (pv_gap_id pv) then g
      else (let gid = ''gap:'' @ trim_space (pv_gap_id pv);
                g = append_node \<lparr>rn_id = gid, rn_type = GapNode,
                      rn_label = ''Gap: '' @ map (\<lambda>c. if c = CHR ''_'' then CHR '' '' else c) (pv_gap_id pv),
                      rn_confidence = 0, rn_sources = []\<rparr> g;
                g = append_edge gid nid ''derived_from_gap'' g
            in if rg_root g = [] then g else append_edge (rg_root g) gid ''uncovered_gap'' g))"

definition belief_edge_label :: "belief_status \<Rightarrow> string" where
  "belief_edge_label s =
     (case s of BeliefStatusActive \<Rightarrow> ''supported_by'' | BeliefStatusRevised \<Rightarrow> ''refined_to'' | BeliefStatusRefuted \<Rightarrow> ''refuted_by'')"

definition merge_belief_node :: "(string \<Rightarrow> nat list) \<Rightarrow> belief \<Rightarrow> reasoning_graph \<Rightarrow> reasoning_graph" where
  "merge_belief_node digest b g =
     (let nid = first_non_empty [bl_id b, stable_wisdev_id digest ''belief'' [bl_claim b]];
          g = append_node \<lparr>rn_id = nid, rn_type = ClaimNode, rn_label = bl_claim b,
                rn_confidence = clamp_float (bl_confidence b) 0 1, rn_sources = []\<rparr> g;
          g = fold (merge_provenance nid) (bl_provenance b) g;
          g = (if rg_root g = [] then g else append_edge (rg_root g) nid (belief_edge_label (bl_status b)) g)
      in if blank (bl_revised_from b) then g else append_edge (bl_revised_from b) nid ''superseded_by'' g)"

definition merge_belief_state_into_graph :: "(string \<Rightarrow> nat list) \<Rightarrow> belief_state \<Rightarrow> reasoning_graph \<Rightarrow> reasoning_graph" where
  "merge_belief_state_into_graph digest bs g =
     fold (merge_belief_node digest)
       (sort_key (\<lambda>b. (- bl_confidence b, to_lower (bl_claim b))) (filter (\<lambda>b. \<not> blank (bl_claim b)) (map snd bs))) g"

definition update_reasoning_graph ::
  "(string \<Rightarrow> nat list) \<Rightarrow> nat \<Rightarrow> string \<Rightarrow> hypothesis list \<Rightarrow> evidence_finding list \<Rightarrow> belief_state option
     \<Rightarrow> reasoning_graph option \<Rightarrow> reasoning_graph" where
  "update_reasoning_graph digest spare query hs evidence beliefs existing =
     (let merge = (\<lambda>g. case beliefs of None \<Rightarrow> g | Some bs \<Rightarrow> merge_belief_state_into_graph digest bs g);
          cold = merge (fold (evolution_edge digest hs) hs (build_reasoning_graph digest query hs evidence))
      in case existing of
           None \<Rightarrow> cold
         | Some g \<Rightarrow>
             if rg_nodes g = [] then cold
             else (let u = \<lparr>gu_graph = g, gu_indexed = node_ids g, gu_spare = spare, gu_moved = False\<rparr>;
                       u = fold (update_hypothesis digest) (filter (\<lambda>h. \<not> blank (hy_claim h)) hs) u;
                       u = fold (upsert_node \<circ> evidence_node digest) (filter (\<lambda>ev. evidence_label ev \<noteq> []) evidence) u
                   in merge (fold (evolution_edge digest hs) hs (gu_graph u))))"

section \<open>Hypotheses that lack support\<close>

definition support_count :: "reasoning_graph \<Rightarrow> string \<Rightarrow> nat" where
  "support_count g hid = length (filter (\<lambda>e. re_label e = ''supported_by'' \<and> re_from e = hid) (rg_edges g))"

definition identify_under_supported :: "reasoning_graph \<Rightarrow> int \<Rightarrow> string list" where
  "identify_under_supported g m =
     (if m \<le> 0 then []
      else sort_key (support_count g)
             (filter (\<lambda>i. int (support_count g i) < m) (remdups (map rn_id (filter (\<lambda>n. rn_type n = HypothesisNode) (rg_nodes g))))))"

definition suggest_exploration_targets :: "(string \<Rightarrow> nat list) \<Rightarrow> reasoning_graph \<Rightarrow> hypothesis list \<Rightarrow> int \<Rightarrow> hypothesis list" where
  "suggest_exploration_targets digest g hs m =
     (if m \<le> 0 then []
      else take (nat m) (sort_key (\<lambda>h. - (1 - hy_confidence_score h))
             (filter (\<lambda>h. \<not> hy_terminated h \<and> hypothesis_node_id digest h \<in> set (identify_under_supported g 2)) hs)))"

section \<open>The graph is well formed\<close>

definition graph_ok :: "reasoning_graph \<Rightarrow> bool" where
  "graph_ok g \<longleftrightarrow> distinct (node_ids g) \<and> distinct (map edge_key (rg_edges g))
     \<and> (\<forall>e \<in> set (rg_edges g). re_from e \<in> set (node_ids g) \<and> re_to e \<in> set (node_ids g))"

definition has_edge :: "reasoning_graph \<Rightarrow> string \<Rightarrow> string \<Rightarrow> string \<Rightarrow> bool" where
  "has_edge g a b l \<longleftrightarrow> \<lparr>re_from = a, re_to = b, re_label = l\<rparr> \<in> set (rg_edges g)"

lemma append_node_simps [simp]:
  "rg_edges (append_node n g) = rg_edges g" "rg_query (append_node n g) = rg_query g" "rg_root (append_node n g) = rg_root g"
  "set (node_ids (append_node n g)) = (if blank (rn_id n) \<or> blank (rn_label n) then set (node_ids g) else insert (rn_id n) (set (node_ids g)))"
  by (auto simp: append_node_def node_ids_def)

lemma append_edge_simps [simp]:
  "rg_nodes (append_edge a b l g) = rg_nodes g" "rg_query (append_edge a b l g) = rg_query g" "rg_root (append_edge a b l g) = rg_root g"
  "node_ids (append_edge a b l g) = node_ids g"
  by (auto simp: append_edge_def Let_def node_ids_def)

lemma append_edge_mono: "e \<in> set (rg_edges g) \<Longrightarrow> e \<in> set (rg_edges (append_edge a b l g))"
  by (simp add: append_edge_def Let_def)

lemma append_edge_set:
  "e \<in> set (rg_edges (append_edge a b l g)) \<Longrightarrow> e \<in> set (rg_edges g) \<or> e = \<lparr>re_from = a, re_to = b, re_label = l\<rparr>"
  by (auto simp: append_edge_def Let_def split: if_splits)

lemma graph_ok_node [intro]: "graph_ok g \<Longrightarrow> graph_ok (append_node n g)"
  by (auto simp: graph_ok_def append_node_def node_ids_def)

lemma graph_ok_edge [intro]: "graph_ok g \<Longrightarrow> a \<in> set (node_ids g) \<Longrightarrow> b \<in> set (node_ids g) \<Longrightarrow> graph_ok (append_edge a b l g)"
  by (auto simp: graph_ok_def append_edge_def Let_def node_ids_def)

text \<open>Identifiers and labels hold no bar, so that an edge with the same key is the same edge.\<close>

definition bar_free :: "string \<Rightarrow> bool" where
  "bar_free s \<longleftrightarrow> CHR ''|'' \<notin> set s"

definition bars_free :: "reasoning_graph \<Rightarrow> bool" where
  "bars_free g \<longleftrightarrow> (\<forall>e \<in> set (rg_edges g). bar_free (re_from e) \<and> bar_free (re_to e))"

lemma append_bar_eq: "bar_free a \<Longrightarrow> bar_free b \<Longrightarrow> a @ CHR ''|'' # x = b @ CHR ''|'' # y \<longleftrightarrow> a = b \<and> x = y"
  by (induction a arbitrary: b; case_tac b) (auto simp: bar_free_def)

lemma edge_key_inject:
  assumes "bar_free (re_from e)" "bar_free (re_to e)" "bar_free (re_from f)" "bar_free (re_to f)"
  shows "edge_key e = edge_key f \<longleftrightarrow> e = f"
  using assms by (cases e; cases f) (simp add: edge_key_def append_bar_eq)

lemma append_edge_has:
  assumes "bars_free g" "bar_free a" "bar_free b" "\<not> blank a" "\<not> blank b"
  shows "has_edge (append_edge a b l g) a b l"
proof (cases "edge_key \<lparr>re_from = a, re_to = b, re_label = l\<rparr> \<in> edge_key ` set (rg_edges g)")
  case True
  then obtain f where "f \<in> set (rg_edges g)" "edge_key \<lparr>re_from = a, re_to = b, re_label = l\<rparr> = edge_key f" by auto
  then have "f = \<lparr>re_from = a, re_to = b, re_label = l\<rparr>"
    using assms(1-3) edge_key_inject [of "\<lparr>re_from = a, re_to = b, re_label = l\<rparr>" f] by (simp add: bars_free_def)
  then show ?thesis using \<open>f \<in> set (rg_edges g)\<close> True by (simp add: has_edge_def append_edge_def)
qed (use assms(4,5) in \<open>simp add: has_edge_def append_edge_def Let_def\<close>)

lemma bars_free_edge [intro]: "bars_free g \<Longrightarrow> bar_free a \<Longrightarrow> bar_free b \<Longrightarrow> bars_free (append_edge a b l g)"
  using append_edge_set by (fastforce simp: bars_free_def)

lemma bars_free_node [simp]: "bars_free (append_node n g) = bars_free g"
  by (simp add: bars_free_def)

text \<open>The characters of an id are those of its prefix, an underscore and hexadecimal digits.\<close>

lemma hex_digit_set: "hex_digit n \<in> set ''0123456789abcdef''"
proof -
  have "list_all (\<lambda>k. hex_digit k \<in> set ''0123456789abcdef'') [0..<16]" by code_simp
  then have "hex_digit (n mod 16) \<in> set ''0123456789abcdef''" unfolding list_all_iff by (rule bspec) simp
  moreover have "hex_digit (n mod 16) = hex_digit n" by (simp add: hex_digit_def)
  ultimately show ?thesis by (simp only:)
qed

lemma stable_id_chars:
  assumes "list_all P pre" "P CHR ''_''" "\<And>n. P (hex_digit n)"
  shows "list_all P (stable_wisdev_id digest pre parts)"
proof -
  have "\<forall>x \<in> set (hex_encode bs). P x" for bs using assms(3) by (auto simp: hex_encode_def)
  then show ?thesis using assms(1,2) by (auto simp: stable_wisdev_id_def list_all_iff)
qed

lemma hex_digit_no_bar: "hex_digit n \<noteq> CHR ''|''"
  using hex_digit_set [of n] by auto

lemma hex_digit_no_space: "\<not> is_space (hex_digit n)"
  using hex_digit_set [of n] by (auto simp: is_space_def)

lemma stable_id_bar_free [simp]: "bar_free pre \<Longrightarrow> bar_free (stable_wisdev_id digest pre parts)"
  using stable_id_chars [of "\<lambda>c. c \<noteq> CHR ''|''" pre digest parts] hex_digit_no_bar
  by (auto simp: bar_free_def list_all_iff)

lemma trim_space_no_space: "list_all (\<lambda>c. \<not> is_space c) s \<Longrightarrow> trim_space s = s"
proof -
  assume a: "list_all (\<lambda>c. \<not> is_space c) s"
  then have "dropWhile is_space s = s" by (cases s) auto
  moreover have "dropWhile is_space (rev s) = rev s" using a by (cases "rev s") (auto simp: list_all_iff dest: arg_cong [of _ _ set])
  ultimately show ?thesis by (simp add: trim_space_def)
qed

lemma stable_id_trim:
  "list_all (\<lambda>c. \<not> is_space c) pre \<Longrightarrow> trim_space (stable_wisdev_id digest pre parts) = stable_wisdev_id digest pre parts"
  by (intro trim_space_no_space stable_id_chars hex_digit_no_space) (simp_all add: is_space_def)

lemma node_id_facts [simp]:
  "bar_free (hypothesis_node_id digest h)" "trim_space (hypothesis_node_id digest h) = hypothesis_node_id digest h"
  "hypothesis_node_id digest h \<noteq> []" "bar_free (evidence_node_id digest ev)"
  "trim_space (evidence_node_id digest ev) = evidence_node_id digest ev" "evidence_node_id digest ev \<noteq> []"
proof -
  have "bar_free ''hypothesis''" "bar_free ''evidence''" by (simp_all add: bar_free_def)
  then show "bar_free (hypothesis_node_id digest h)" "bar_free (evidence_node_id digest ev)"
    unfolding hypothesis_node_id_def evidence_node_id_def by simp_all
  show "trim_space (hypothesis_node_id digest h) = hypothesis_node_id digest h"
    "trim_space (evidence_node_id digest ev) = evidence_node_id digest ev"
    unfolding hypothesis_node_id_def evidence_node_id_def by (simp_all add: stable_id_trim is_space_def)
  show "hypothesis_node_id digest h \<noteq> []" "evidence_node_id digest ev \<noteq> []"
    unfolding hypothesis_node_id_def evidence_node_id_def by (simp_all add: stable_wisdev_id_def)
qed

definition grows :: "reasoning_graph \<Rightarrow> reasoning_graph \<Rightarrow> bool" where
  "grows g g' \<longleftrightarrow> set (node_ids g) \<subseteq> set (node_ids g') \<and> set (rg_edges g) \<subseteq> set (rg_edges g') \<and> rg_query g' = rg_query g
     \<and> (graph_ok g \<and> bars_free g \<longrightarrow> graph_ok g' \<and> bars_free g')"

lemma grows_refl [simp]: "grows g g"
  by (simp add: grows_def)

lemma grows_trans: "grows g h \<Longrightarrow> grows h k \<Longrightarrow> grows g k"
  by (auto simp: grows_def)

lemma grows_fold: "(\<And>x g. x \<in> set xs \<Longrightarrow> grows g (f x g)) \<Longrightarrow> grows g (fold f xs g)"
proof (induction xs arbitrary: g)
  case (Cons x xs)
  then have "grows g (f x g)" "grows (f x g) (fold f xs (f x g))" by auto
  then show ?case using grows_trans by simp
qed simp

lemma grows_node [simp]: "grows g (append_node n g)"
  by (auto simp: grows_def)

lemma grows_edge: "a \<in> set (node_ids g) \<Longrightarrow> b \<in> set (node_ids g) \<Longrightarrow> bar_free a \<Longrightarrow> bar_free b \<Longrightarrow> grows g (append_edge a b l g)"
  by (auto simp: grows_def intro: append_edge_mono)

lemma hypothesis_label: "\<not> blank (hy_claim h) \<Longrightarrow> hypothesis_node_id digest h \<in> set (node_ids (append_node (hypothesis_node digest h) g))"
  by (simp add: hypothesis_node_def)

lemma first_non_empty_trim: "trim_space (first_non_empty xs) = first_non_empty xs"
  by (induction xs) auto

lemma evidence_label_trim: "trim_space (evidence_label ev) = evidence_label ev"
  by (simp only: evidence_label_def first_non_empty_trim)

lemma evidence_in: "evidence_label ev \<noteq> [] \<Longrightarrow> evidence_node_id digest ev \<in> set (node_ids (append_node (evidence_node digest ev) g))"
  by (simp add: evidence_node_def evidence_label_trim)

lemma root_bar_free [simp]: "bar_free ''question_root''"
  by (simp add: bar_free_def)

lemma root_not_blank: "\<not> blank ''question_root''"
  by code_simp

definition rooted :: "reasoning_graph \<Rightarrow> bool" where
  "rooted g \<longleftrightarrow> rg_query g \<noteq> [] \<longrightarrow> ''question_root'' \<in> set (node_ids g)"

lemma grows_rooted: "grows g g' \<Longrightarrow> rooted g \<Longrightarrow> rooted g'"
  by (auto simp: grows_def rooted_def)

lemma grows_hypothesis:
  assumes "rooted g" "\<not> blank (hy_claim h)" "bars_free g"
  shows "grows g (add_hypothesis_node digest h g)" "hypothesis_node_id digest h \<in> set (node_ids (add_hypothesis_node digest h g))"
    "rg_query g \<noteq> [] \<Longrightarrow> has_edge (add_hypothesis_node digest h g) ''question_root'' (hypothesis_node_id digest h) ''generates''"
proof -
  let ?g = "append_node (hypothesis_node digest h) g"
  have i: "hypothesis_node_id digest h \<in> set (node_ids ?g)" by (rule hypothesis_label [OF assms(2)])
  have r: "rooted ?g" by (rule grows_rooted [OF grows_node assms(1)])
  have e: "grows ?g (append_edge ''question_root'' (hypothesis_node_id digest h) ''generates'' ?g)" if "rg_query g \<noteq> []"
    using that i r by (intro grows_edge) (auto simp: rooted_def)
  show "grows g (add_hypothesis_node digest h g)"
    using grows_trans [OF grows_node e] by (auto simp: add_hypothesis_node_def Let_def)
  show "hypothesis_node_id digest h \<in> set (node_ids (add_hypothesis_node digest h g))"
    using i by (simp add: add_hypothesis_node_def Let_def)
  show "rg_query g \<noteq> [] \<Longrightarrow> has_edge (add_hypothesis_node digest h g) ''question_root'' (hypothesis_node_id digest h) ''generates''"
    using append_edge_has [of ?g "''question_root''" "hypothesis_node_id digest h" "''generates''"] assms(3) root_not_blank
    by (simp add: add_hypothesis_node_def Let_def)
qed

lemma has_edge_grows: "grows g g' \<Longrightarrow> has_edge g a b l \<Longrightarrow> has_edge g' a b l"
  by (auto simp: grows_def has_edge_def)

text \<open>A growing step that makes a fact of its element true, and facts that growth keeps, hold after the fold.\<close>

lemma fold_establishes:
  assumes step: "\<And>x g. I g \<Longrightarrow> x \<in> set xs \<Longrightarrow> grows g (f x g) \<and> I (f x g) \<and> Q x (f x g)"
    and keep: "\<And>x g g'. grows g g' \<Longrightarrow> Q x g \<Longrightarrow> Q x g'" and start: "I g"
  shows "grows g (fold f xs g) \<and> I (fold f xs g) \<and> (\<forall>x \<in> set xs. Q x (fold f xs g))"
  using step start
proof (induction xs arbitrary: g)
  case (Cons x xs)
  have x: "grows g (f x g) \<and> I (f x g) \<and> Q x (f x g)" using Cons.prems by simp
  have r: "grows (f x g) (fold f xs (f x g)) \<and> I (fold f xs (f x g)) \<and> (\<forall>y \<in> set xs. Q y (fold f xs (f x g)))"
    using Cons.IH [of "f x g"] Cons.prems(1) x by auto
  then have "Q x (fold f xs (f x g))" using keep x by blast
  then have q: "\<forall>y \<in> set (x # xs). Q y (fold f xs (f x g))" using r by simp
  have "grows g (fold f xs (f x g))" using grows_trans x r by blast
  then show ?case using q r by (simp only: fold_Cons comp_apply)
qed simp

definition sound_graph :: "reasoning_graph \<Rightarrow> bool" where
  "sound_graph g \<longleftrightarrow> graph_ok g \<and> bars_free g \<and> rooted g"

lemma grows_sound: "grows g g' \<Longrightarrow> sound_graph g \<Longrightarrow> sound_graph g'"
  using grows_rooted by (auto simp: sound_graph_def grows_def)

lemma sound_empty: "sound_graph (empty_graph query)"
  by (simp add: sound_graph_def graph_ok_def bars_free_def rooted_def empty_graph_def node_ids_def Let_def)

lemma nodes_built:
  fixes digest
  assumes "sound_graph g" "\<forall>h \<in> set hs. \<not> blank (hy_claim h)" "\<forall>ev \<in> set evs. evidence_label ev \<noteq> []"
  defines "g' \<equiv> fold (append_node \<circ> evidence_node digest) evs (fold (add_hypothesis_node digest) hs g)"
  shows "grows g g' \<and> sound_graph g' \<and> (\<forall>ev \<in> set evs. evidence_node_id digest ev \<in> set (node_ids g'))
     \<and> (\<forall>h \<in> set hs. hypothesis_node_id digest h \<in> set (node_ids g')
          \<and> (rg_query g \<noteq> [] \<longrightarrow> has_edge g' ''question_root'' (hypothesis_node_id digest h) ''generates''))"
proof -
  let ?Q = "\<lambda>h g'. hypothesis_node_id digest h \<in> set (node_ids g') \<and> (rg_query g' \<noteq> [] \<longrightarrow> has_edge g' ''question_root'' (hypothesis_node_id digest h) ''generates'')"
  let ?g = "fold (add_hypothesis_node digest) hs g"
  have Q: "?Q h g'" if "grows g g'" "?Q h g" for g g' h
  proof -
    have "set (node_ids g) \<subseteq> set (node_ids g')" "rg_query g' = rg_query g" using that(1) by (simp_all add: grows_def)
    then show ?thesis using has_edge_grows [OF that(1)] that(2) by auto
  qed
  have h: "grows g ?g \<and> sound_graph ?g \<and> (\<forall>h \<in> set hs. ?Q h ?g)"
  proof (rule fold_establishes [where I = sound_graph])
    fix h g assume "sound_graph g" "h \<in> set hs"
    then have a: "rooted g" "\<not> blank (hy_claim h)" "bars_free g" using assms(2) by (auto simp: sound_graph_def)
    show "grows g (add_hypothesis_node digest h g) \<and> sound_graph (add_hypothesis_node digest h g) \<and> ?Q h (add_hypothesis_node digest h g)"
      using grows_hypothesis [OF a, of digest] grows_sound [OF _ \<open>sound_graph g\<close>] by (auto simp: grows_def)
  qed (use assms(1) Q in auto)
  have "grows ?g g' \<and> sound_graph g' \<and> (\<forall>ev \<in> set evs. evidence_node_id digest ev \<in> set (node_ids g'))"
    unfolding g'_def
  proof (rule fold_establishes [where I = sound_graph])
    fix ev g assume "sound_graph g" "ev \<in> set evs"
    then show "grows g ((append_node \<circ> evidence_node digest) ev g) \<and> sound_graph ((append_node \<circ> evidence_node digest) ev g)
       \<and> evidence_node_id digest ev \<in> set (node_ids ((append_node \<circ> evidence_node digest) ev g))"
      using assms(3) evidence_in grows_sound [OF grows_node] by (simp del: append_node_simps)
  qed (use h in \<open>auto simp: grows_def\<close>)
  moreover from this h have "grows g g'" using grows_trans by blast
  moreover have "\<forall>h \<in> set hs. ?Q h g'" using h Q calculation(1) by blast
  ultimately show ?thesis by (auto simp: grows_def)
qed

lemma evidence_by_ref_nodes:
  "dict_get_or [] (evidence_by_ref digest evs) k \<in> insert [] (evidence_node_id digest ` set evs)"
proof -
  define f where "f = (\<lambda>ev d. let i = evidence_node_id digest ev; t = trim_space (ef_id ev) in
             dict_set i i (if t = [] then d else dict_set t i d))"
  have "\<forall>k. dict_get_or [] d k \<in> insert [] V \<Longrightarrow>
          dict_get_or [] (fold f evs d) k \<in> insert [] (V \<union> evidence_node_id digest ` set evs)" for d V
  proof (induction evs arbitrary: d V)
    case (Cons ev evs)
    have "\<forall>k. dict_get_or [] (f ev d) k \<in> insert [] (insert (evidence_node_id digest ev) V)"
      using Cons.prems by (auto simp: f_def Let_def)
    from Cons.IH [OF this] show ?case by simp
  qed auto
  from this [of "[]" "{}"] show ?thesis by (simp add: evidence_by_ref_def f_def)
qed

lemma evidence_by_source_nodes:
  "set (dict_get_or [] (evidence_by_source digest evs) k) \<subseteq> evidence_node_id digest ` set evs"
proof -
  define f where "f = (\<lambda>ev d. let t = trim_space (ef_source_id ev) in
             if t = [] then d
             else dict_set t (append_unique_string (dict_get_or [] d t) (evidence_node_id digest ev)) d)"
  have "\<forall>k. set (dict_get_or [] d k) \<subseteq> V \<Longrightarrow> set (dict_get_or [] (fold f evs d) k) \<subseteq> V \<union> evidence_node_id digest ` set evs" for d V
  proof (induction evs arbitrary: d V)
    case (Cons ev evs)
    have "\<forall>k. set (dict_get_or [] (f ev d) k) \<subseteq> insert (evidence_node_id digest ev) V"
      using Cons.prems by (auto simp: f_def append_unique_string_def Let_def)
    from Cons.IH [OF this] show ?case by auto
  qed auto
  from this [of "[]" "{}"] show ?thesis by (simp add: evidence_by_source_def f_def)
qed

lemma supporting_nodes_evidence:
  "set (supporting_nodes (evidence_by_ref digest evs) (evidence_by_source digest evs) support) \<subseteq> evidence_node_id digest ` set evs"
  using evidence_by_ref_nodes [of digest evs] evidence_by_source_nodes [of digest evs]
  unfolding supporting_nodes_def Let_def by (auto split: if_splits)

lemma edges_established:
  fixes l
  assumes "sound_graph g" "\<forall>(a, b) \<in> set ps. a \<in> set (node_ids g) \<and> b \<in> set (node_ids g) \<and> bar_free a \<and> bar_free b \<and> \<not> blank a \<and> \<not> blank b"
  defines "g' \<equiv> fold (\<lambda>(a, b). append_edge a b l) ps g"
  shows "grows g g' \<and> sound_graph g' \<and> (\<forall>(a, b) \<in> set ps. has_edge g' a b l)"
proof -
  have "grows g g' \<and> (sound_graph g' \<and> set (node_ids g') = set (node_ids g)) \<and> (\<forall>p \<in> set ps. has_edge g' (fst p) (snd p) l)"
    unfolding g'_def
  proof (rule fold_establishes [where I = "\<lambda>h. sound_graph h \<and> set (node_ids h) = set (node_ids g)"])
    fix p h assume h: "sound_graph h \<and> set (node_ids h) = set (node_ids g)" and p: "p \<in> set ps"
    obtain a b where ab: "p = (a, b)" by fastforce
    then have c: "a \<in> set (node_ids h)" "b \<in> set (node_ids h)" "bar_free a" "bar_free b" "\<not> blank a" "\<not> blank b"
      using assms(2) p h by auto
    then have "grows h (append_edge a b l h)" by (rule_tac grows_edge)
    moreover have "has_edge (append_edge a b l h) a b l"
      using h c by (intro append_edge_has) (auto simp: sound_graph_def)
    ultimately show "grows h ((\<lambda>(a, b). append_edge a b l) p h)
       \<and> (sound_graph ((\<lambda>(a, b). append_edge a b l) p h) \<and> set (node_ids ((\<lambda>(a, b). append_edge a b l) p h)) = set (node_ids g))
       \<and> has_edge ((\<lambda>(a, b). append_edge a b l) p h) (fst p) (snd p) l"
      using ab h grows_sound by auto
  qed (use assms(1) has_edge_grows in auto)
  then show ?thesis by auto
qed

lemma fold_edges_from:
  "e \<in> set (rg_edges (fold (\<lambda>n. append_edge i n l) ns g)) \<Longrightarrow>
     e \<in> set (rg_edges g) \<or> (\<exists>n \<in> set ns. e = \<lparr>re_from = i, re_to = n, re_label = l\<rparr>)"
  by (induction ns arbitrary: g) (auto dest!: append_edge_set)

lemma has_edge_fold:
  "has_edge (fold (\<lambda>n. append_edge i n l) ns g) a b k \<Longrightarrow> has_edge g a b k \<or> a = i \<and> b \<in> set ns"
  unfolding has_edge_def using fold_edges_from by fastforce

text \<open>A linked node has its support from one of the hypotheses; a node that still waits has none.\<close>

lemma links_come_from_hypotheses:
  fixes by_ref by_source supports hids
  assumes "\<forall>n \<in> set att. \<forall>a. \<not> has_edge g a n ''supported_by''"
  defines "s \<equiv> fold (link_hypothesis by_ref by_source supports) hids (g, att)"
  shows "(\<forall>n \<in> set (snd s). \<forall>a. \<not> has_edge (fst s) a n ''supported_by'')
    \<and> (\<forall>a n. has_edge (fst s) a n ''supported_by'' \<longrightarrow> has_edge g a n ''supported_by'' \<or> a \<in> set hids)"
  unfolding s_def using assms(1)
proof (induction hids arbitrary: g att)
  case (Cons i hids)
  define ns where "ns = supporting_nodes by_ref by_source (dict_get_or ([], []) supports i)"
  let ?g = "fold (\<lambda>n. append_edge i n ''supported_by'') ns g" and ?att = "filter (\<lambda>n. n \<notin> set ns) att"
  have link: "link_hypothesis by_ref by_source supports i (g, att) = (?g, ?att)"
    by (simp add: link_hypothesis_def ns_def Let_def)
  have att: "\<forall>n \<in> set ?att. \<forall>a. \<not> has_edge ?g a n ''supported_by''"
    using Cons.prems has_edge_fold [of i "''supported_by''" ns g] by fastforce
  show ?case unfolding fold_Cons comp_apply link
    using Cons.IH [OF att] has_edge_fold [of i "''supported_by''" ns g] by fastforce
qed simp

text \<open>While hypotheses are linked, every evidence node is waiting for the root or supports one of them.\<close>

lemma hypotheses_linked:
  fixes digest supports
  assumes "sound_graph g" "\<forall>ev \<in> set evs. evidence_node_id digest ev \<in> set (node_ids g)"
    "\<forall>i \<in> set hids. i \<in> set (node_ids g) \<and> bar_free i \<and> \<not> blank i"
    "\<forall>ev \<in> set evs. evidence_node_id digest ev \<in> set att \<or> (\<exists>a. has_edge g a (evidence_node_id digest ev) ''supported_by'')"
  defines "s \<equiv> fold (link_hypothesis (evidence_by_ref digest evs) (evidence_by_source digest evs) supports) hids (g, att)"
  shows "grows g (fst s) \<and> sound_graph (fst s) \<and> set (snd s) \<subseteq> set att
     \<and> (\<forall>ev \<in> set evs. evidence_node_id digest ev \<in> set (snd s) \<or> (\<exists>a. has_edge (fst s) a (evidence_node_id digest ev) ''supported_by''))"
  unfolding s_def using assms(1-4)
proof (induction hids arbitrary: g att)
  case (Cons i hids)
  define ns where "ns = supporting_nodes (evidence_by_ref digest evs) (evidence_by_source digest evs) (dict_get_or ([], []) supports i)"
  let ?g = "fold (\<lambda>n. append_edge i n ''supported_by'') ns g" and ?att = "filter (\<lambda>n. n \<notin> set ns) att"
  have "set ns \<subseteq> evidence_node_id digest ` set evs" unfolding ns_def by (rule supporting_nodes_evidence)
  then have p: "\<forall>(a, b) \<in> set (map (Pair i) ns). a \<in> set (node_ids g) \<and> b \<in> set (node_ids g) \<and> bar_free a \<and> bar_free b \<and> \<not> blank a \<and> \<not> blank b"
    using Cons.prems by auto
  have e: "grows g ?g \<and> sound_graph ?g \<and> (\<forall>n \<in> set ns. has_edge ?g i n ''supported_by'')"
    using edges_established [OF Cons.prems(1) p, of "''supported_by''"] by (simp add: fold_map comp_def)
  have link: "link_hypothesis (evidence_by_ref digest evs) (evidence_by_source digest evs) supports i (g, att) = (?g, ?att)"
    by (simp add: link_hypothesis_def ns_def Let_def)
  have a: "\<forall>ev \<in> set evs. evidence_node_id digest ev \<in> set ?att \<or> (\<exists>a. has_edge ?g a (evidence_node_id digest ev) ''supported_by'')"
  proof
    fix ev assume ev: "ev \<in> set evs"
    show "evidence_node_id digest ev \<in> set ?att \<or> (\<exists>a. has_edge ?g a (evidence_node_id digest ev) ''supported_by'')"
    proof (cases "evidence_node_id digest ev \<in> set ns")
      case True
      then show ?thesis using e by blast
    next
      case False
      then show ?thesis using bspec [OF Cons.prems(4) ev] has_edge_grows [OF conjunct1 [OF e]] by auto
    qed
  qed
  have n: "set (node_ids g) \<subseteq> set (node_ids ?g)" using e by (simp add: grows_def)
  have "\<forall>ev \<in> set evs. evidence_node_id digest ev \<in> set (node_ids ?g)"
    "\<forall>i \<in> set hids. i \<in> set (node_ids ?g) \<and> bar_free i \<and> \<not> blank i"
    using n Cons.prems(2,3) by auto
  note r = Cons.IH [OF conjunct1 [OF conjunct2 [OF e]] this a]
  moreover have "set ?att \<subseteq> set att" by auto
  moreover note grows_trans [OF conjunct1 [OF e] conjunct1 [OF r]]
  ultimately show ?case unfolding fold_Cons comp_apply link by (intro conjI) (blast+)
qed simp

lemma root_no_hypothesis: "''question_root'' \<noteq> hypothesis_node_id digest h"
  by (simp add: hypothesis_node_id_def stable_wisdev_id_def)

lemma no_support_built:
  "\<not> has_edge (fold (append_node \<circ> evidence_node digest) evs (fold (add_hypothesis_node digest) hs (empty_graph query))) a n ''supported_by''"
proof -
  have h: "\<not> has_edge (add_hypothesis_node digest h g) a n ''supported_by''" if "\<not> has_edge g a n ''supported_by''" for h g
    using that by (auto simp: add_hypothesis_node_def has_edge_def Let_def dest!: append_edge_set)
  have "\<not> has_edge (fold (add_hypothesis_node digest) hs g) a n ''supported_by''" if "\<not> has_edge g a n ''supported_by''" for g
    using that by (induction hs arbitrary: g) (simp_all add: h)
  then have "\<not> has_edge (fold (add_hypothesis_node digest) hs (empty_graph query)) a n ''supported_by''"
    by (simp add: empty_graph_def has_edge_def Let_def)
  moreover have "rg_edges (fold (append_node \<circ> evidence_node digest) evs g) = rg_edges g" for g
    by (induction evs arbitrary: g) simp_all
  ultimately show ?thesis by (simp add: has_edge_def)
qed

text \<open>
  C35. For a query that is not blank the graph has no two nodes with the same id and no edge twice, every edge joins
  two of its nodes, the question generates every hypothesis with a claim, and no evidence is left alone: every finding
  with a label is a node that is the support of such a hypothesis or, exactly when no hypothesis has it, of the
  question itself.
\<close>

lemma reasoning_graph_well_formed:
  fixes digest hs evidence
  assumes "\<not> blank query"
  defines "g \<equiv> build_reasoning_graph digest query hs evidence"
  shows "graph_ok g
     \<and> (\<forall>h \<in> set hs. \<not> blank (hy_claim h) \<longrightarrow> has_edge g ''question_root'' (hypothesis_node_id digest h) ''generates'')
     \<and> (\<forall>ev \<in> set evidence. evidence_label ev \<noteq> [] \<longrightarrow>
          (has_edge g ''question_root'' (evidence_node_id digest ev) ''supported_by'' \<longleftrightarrow>
             \<not> (\<exists>h \<in> set hs. \<not> blank (hy_claim h)
                    \<and> has_edge g (hypothesis_node_id digest h) (evidence_node_id digest ev) ''supported_by'')))"
proof -
  define hs' evs where "hs' = filter (\<lambda>h. \<not> blank (hy_claim h)) hs" and "evs = filter (\<lambda>ev. evidence_label ev \<noteq> []) evidence"
  define g1 where "g1 = fold (append_node \<circ> evidence_node digest) evs (fold (add_hypothesis_node digest) hs' (empty_graph query))"
  define s where "s = fold (link_hypothesis (evidence_by_ref digest evs) (evidence_by_source digest evs) (supports_by_node digest hs'))
     (map (hypothesis_node_id digest) hs') (g1, map (evidence_node_id digest) evs)"
  let ?g = "fold (\<lambda>n. append_edge ''question_root'' n ''supported_by'') (snd s) (fst s)"
  have q: "rg_query (empty_graph query) \<noteq> []" using assms by (simp add: empty_graph_def Let_def)
  have b: "grows (empty_graph query) g1 \<and> sound_graph g1 \<and> (\<forall>ev \<in> set evs. evidence_node_id digest ev \<in> set (node_ids g1))
     \<and> (\<forall>h \<in> set hs'. hypothesis_node_id digest h \<in> set (node_ids g1) \<and> has_edge g1 ''question_root'' (hypothesis_node_id digest h) ''generates'')"
    using nodes_built [OF sound_empty, of hs' evs query digest] q unfolding g1_def by (simp add: hs'_def evs_def)
  then have q1: "rg_query g1 \<noteq> []" using q by (simp add: grows_def)
  have l: "grows g1 (fst s) \<and> sound_graph (fst s) \<and> set (snd s) \<subseteq> set (map (evidence_node_id digest) evs)
     \<and> (\<forall>ev \<in> set evs. evidence_node_id digest ev \<in> set (snd s) \<or> (\<exists>a. has_edge (fst s) a (evidence_node_id digest ev) ''supported_by''))"
    unfolding s_def by (rule hypotheses_linked) (use b in auto)
  then have q2: "rg_query (fst s) \<noteq> []" using q1 by (simp add: grows_def)
  have p: "\<forall>(a, b) \<in> set (map (Pair ''question_root'') (snd s)). a \<in> set (node_ids (fst s)) \<and> b \<in> set (node_ids (fst s))
     \<and> bar_free a \<and> bar_free b \<and> \<not> blank a \<and> \<not> blank b"
  proof -
    have "''question_root'' \<in> set (node_ids (fst s))" using l q2 by (simp add: sound_graph_def rooted_def)
    moreover have "set (node_ids g1) \<subseteq> set (node_ids (fst s))" using l by (simp add: grows_def)
    moreover have "\<forall>n \<in> set (snd s). n \<in> set (node_ids g1) \<and> bar_free n \<and> \<not> blank n"
    proof
      fix n assume "n \<in> set (snd s)"
      then obtain ev where "ev \<in> set evs" "n = evidence_node_id digest ev" using l by auto
      then show "n \<in> set (node_ids g1) \<and> bar_free n \<and> \<not> blank n" using b by simp
    qed
    ultimately show ?thesis using root_not_blank root_bar_free by (simp add: subset_iff)
  qed
  have e: "grows (fst s) ?g \<and> sound_graph ?g \<and> (\<forall>n \<in> set (snd s). has_edge ?g ''question_root'' n ''supported_by'')"
    using edges_established [of "fst s" "map (Pair ''question_root'') (snd s)" "''supported_by''"] l p by (simp add: fold_map comp_def)
  have g: "g = ?g" using q1 unfolding g_def build_reasoning_graph_def Let_def hs'_def [symmetric] evs_def [symmetric] g1_def [symmetric] s_def [symmetric]
    by simp
  have lift: "has_edge g1 a b l \<Longrightarrow> has_edge ?g a b l" "has_edge (fst s) a b l \<Longrightarrow> has_edge ?g a b l" for a b l
    using has_edge_grows [OF conjunct1 [OF l]] has_edge_grows [OF conjunct1 [OF e]] by simp_all
  have hyps: "\<forall>h \<in> set hs'. has_edge ?g ''question_root'' (hypothesis_node_id digest h) ''generates''"
    using b lift(1) by simp
  have g1_edges: "\<not> has_edge g1 a n ''supported_by''" for a n
    unfolding g1_def by (rule no_support_built)
  have src: "(\<forall>n \<in> set (snd s). \<forall>a. \<not> has_edge (fst s) a n ''supported_by'')
      \<and> (\<forall>a n. has_edge (fst s) a n ''supported_by'' \<longrightarrow> a \<in> hypothesis_node_id digest ` set hs')"
    using links_come_from_hypotheses [of "map (evidence_node_id digest) evs" g1] g1_edges unfolding s_def by fastforce
  have evid: "has_edge ?g ''question_root'' (evidence_node_id digest ev) ''supported_by'' \<longleftrightarrow>
      \<not> (\<exists>h \<in> set hs'. has_edge ?g (hypothesis_node_id digest h) (evidence_node_id digest ev) ''supported_by'')"
    if ev: "ev \<in> set evs" for ev
  proof (cases "evidence_node_id digest ev \<in> set (snd s)")
    case True
    then have "\<not> has_edge ?g (hypothesis_node_id digest h) (evidence_node_id digest ev) ''supported_by''" for h
      using src True has_edge_fold [of "''question_root''" "''supported_by''" "snd s" "fst s"]
        not_sym [OF root_no_hypothesis [of digest h]] by metis
    then show ?thesis using e True by blast
  next
    case False
    then obtain a where "has_edge (fst s) a (evidence_node_id digest ev) ''supported_by''" using l ev by blast
    then have "\<exists>h \<in> set hs'. has_edge ?g (hypothesis_node_id digest h) (evidence_node_id digest ev) ''supported_by''"
      using src lift(2) by blast
    moreover have "\<not> has_edge ?g ''question_root'' (evidence_node_id digest ev) ''supported_by''"
    proof
      assume "has_edge ?g ''question_root'' (evidence_node_id digest ev) ''supported_by''"
      from has_edge_fold [OF this] have "has_edge (fst s) ''question_root'' (evidence_node_id digest ev) ''supported_by''"
        using False by simp
      then have "''question_root'' \<in> hypothesis_node_id digest ` set hs'" using src by blast
      then show False using root_no_hypothesis by (metis imageE)
    qed
    ultimately show ?thesis by blast
  qed
  have "graph_ok ?g" using e by (simp add: sound_graph_def)
  then show ?thesis using hyps evid unfolding g hs'_def evs_def set_filter by blast
qed

definition graph_hypothesis :: hypothesis where
  "graph_hypothesis = \<lparr>hy_id = ''h'', hy_parent_id = [], hy_query = ''q'', hy_text = ''c'', hy_claim = ''c'', hy_confidence_score = 0,
     hy_status = [], hy_terminated = False, hy_evidence = [], hy_contradictions = [], hy_contradiction_count = 0,
     hy_evidence_count = 0, hy_updated_at = 0, hy_query_budget = 0, hy_falsifiability = [], hy_confidence_threshold = 1 / 2\<rparr>"

definition graph_finding :: evidence_finding where
  "graph_finding = \<lparr>ef_id = ''f'', ef_claim = ''c'', ef_source_id = ''p'', ef_paper_title = [], ef_snippet = [], ef_year = 0,
     ef_confidence = 1 / 2, ef_status = []\<rparr>"

lemma reasoning_graph_well_formed_witness:
  "has_edge (build_reasoning_graph (\<lambda>_. [1]) ''q'' [graph_hypothesis] [graph_finding]) ''question_root''
     (evidence_node_id (\<lambda>_. [1]) graph_finding) ''supported_by''"
proof -
  have "\<not> blank ''q''" "evidence_label graph_finding \<noteq> []"
    "\<not> has_edge (build_reasoning_graph (\<lambda>_. [1]) ''q'' [graph_hypothesis] [graph_finding])
        (hypothesis_node_id (\<lambda>_. [1]) graph_hypothesis) (evidence_node_id (\<lambda>_. [1]) graph_finding) ''supported_by''"
    by code_simp+
  then show ?thesis using reasoning_graph_well_formed [of "''q''" "\<lambda>_. [1]" "[graph_hypothesis]" "[graph_finding]"] by simp
qed

section \<open>Updates that are lost\<close>

lemma ids_differ: "evidence_node_id digest ev \<noteq> hypothesis_node_id digest' h"
  by (simp add: evidence_node_id_def hypothesis_node_id_def stable_wisdev_id_def)

lemma upsert_node_edges [simp]: "rg_edges (gu_graph (upsert_node n u)) = rg_edges (gu_graph u)"
  by (simp add: upsert_node_def Let_def)

lemma upsert_node_ids: "set (node_ids (gu_graph (upsert_node n u))) \<subseteq> insert (rn_id n) (set (node_ids (gu_graph u)))"
  by (auto simp: upsert_node_def node_ids_def Let_def)

text \<open>Edges to the node \<open>k\<close>, which is no hypothesis, come from a known node only.\<close>

definition no_news :: "string \<Rightarrow> reasoning_graph \<Rightarrow> reasoning_graph \<Rightarrow> bool" where
  "no_news k g g' \<longleftrightarrow> {e \<in> set (rg_edges g'). re_to e = k} \<subseteq> set (rg_edges g)"

lemma no_news_edge: "no_news k g g' \<Longrightarrow> b \<noteq> k \<Longrightarrow> no_news k g (append_edge a b l g')"
  by (auto simp: no_news_def dest!: append_edge_set)

lemma no_news_hypothesis:
  assumes "no_news k g (gu_graph u)" "k \<notin> set (node_ids (gu_graph u))" "\<And>h. k \<noteq> hypothesis_node_id digest h"
  shows "no_news k g (gu_graph (update_hypothesis digest h u)) \<and> k \<notin> set (node_ids (gu_graph (update_hypothesis digest h u)))"
proof -
  define v where "v = (let u' = upsert_node (hypothesis_node digest h) u in
     if rg_root (gu_graph u) = [] then u' else update_edge (rg_root (gu_graph u)) (hypothesis_node_id digest h) ''generates'' u')"
  let ?f = "\<lambda>ev u. if evidence_node_id digest ev \<in> set (node_ids (gu_graph u))
                      then update_edge (hypothesis_node_id digest h) (evidence_node_id digest ev) ''supported_by'' u else u"
  have ne: "hypothesis_node_id digest h \<noteq> k" using assms(3) [of h] by simp
  have up: "no_news k g (gu_graph (upsert_node (hypothesis_node digest h) u))" using assms(1) by (simp add: no_news_def)
  have "k \<notin> set (node_ids (gu_graph (upsert_node (hypothesis_node digest h) u)))"
    using upsert_node_ids [of "hypothesis_node digest h" u] assms(2) ne by (auto simp: hypothesis_node_def)
  then have v: "no_news k g (gu_graph v) \<and> k \<notin> set (node_ids (gu_graph v))"
    using up no_news_edge [OF up ne] by (simp add: v_def update_edge_def Let_def)
  have "no_news k g (gu_graph w) \<and> k \<notin> set (node_ids (gu_graph w))
     \<Longrightarrow> no_news k g (gu_graph (fold ?f evs w)) \<and> k \<notin> set (node_ids (gu_graph (fold ?f evs w)))" for evs w
  proof (induction evs arbitrary: w)
    case (Cons ev evs)
    have "no_news k g (gu_graph (?f ev w)) \<and> k \<notin> set (node_ids (gu_graph (?f ev w)))"
    proof (cases "evidence_node_id digest ev \<in> set (node_ids (gu_graph w))")
      case True
      then have "evidence_node_id digest ev \<noteq> k" using Cons.prems by blast
      then show ?thesis using Cons.prems True no_news_edge by (simp add: update_edge_def)
    qed (use Cons.prems in simp)
    then show ?case using Cons.IH by simp
  qed simp
  from this [OF v] show ?thesis by (simp add: update_hypothesis_def Let_def v_def)
qed

lemma no_news_evolution:
  "no_news k g g' \<Longrightarrow> (\<And>h. k \<noteq> hypothesis_node_id digest h) \<Longrightarrow> no_news k g (evolution_edge digest hs h g')"
  by (auto simp: evolution_edge_def intro!: no_news_edge split: list.split)

text \<open>
  Updating a graph adds the edges of the hypotheses before the new evidence has its nodes: no edge leads to
  evidence that is new in the update, whatever hypotheses it was collected for, so that these still count as
  lacking support.
\<close>

lemma new_evidence_is_not_linked:
  assumes "rg_nodes g \<noteq> []" and "evidence_node_id digest ev \<notin> set (node_ids g)"
    and "\<forall>e \<in> set (rg_edges g). re_to e \<in> set (node_ids g)"
  shows "\<not> has_edge (update_reasoning_graph digest spare query hs evidence None (Some g)) a (evidence_node_id digest ev) l"
proof -
  let ?k = "evidence_node_id digest ev"
  define u where "u = \<lparr>gu_graph = g, gu_indexed = node_ids g, gu_spare = spare, gu_moved = False\<rparr>"
  have k: "\<And>h. ?k \<noteq> hypothesis_node_id digest h" by (rule ids_differ)
  have "no_news ?k g (gu_graph (fold (update_hypothesis digest) xs u)) \<and> ?k \<notin> set (node_ids (gu_graph (fold (update_hypothesis digest) xs u)))" for xs
  proof -
    have "no_news ?k g (gu_graph v) \<Longrightarrow> ?k \<notin> set (node_ids (gu_graph v))
       \<Longrightarrow> no_news ?k g (gu_graph (fold (update_hypothesis digest) xs v)) \<and> ?k \<notin> set (node_ids (gu_graph (fold (update_hypothesis digest) xs v)))" for v
      by (induction xs arbitrary: v) (use no_news_hypothesis [OF _ _ k] in auto)
    then show ?thesis using assms(2) by (simp add: u_def no_news_def)
  qed
  moreover have "rg_edges (gu_graph (fold (upsert_node \<circ> evidence_node digest) evs v)) = rg_edges (gu_graph v)" for evs v
    by (induction evs arbitrary: v) auto
  ultimately have n: "no_news ?k g (gu_graph (fold (upsert_node \<circ> evidence_node digest) evs (fold (update_hypothesis digest) xs u)))" for evs xs
    by (simp add: no_news_def)
  have "no_news ?k g g' \<Longrightarrow> no_news ?k g (fold (evolution_edge digest hs) ys g')" for ys g'
    by (induction ys arbitrary: g') (use no_news_evolution k in auto)
  with n have "no_news ?k g (update_reasoning_graph digest spare query hs evidence None (Some g))"
    using assms(1) by (simp add: update_reasoning_graph_def u_def Let_def)
  then show ?thesis using assms(2,3) unfolding no_news_def has_edge_def by fastforce
qed

definition question_graph :: reasoning_graph where
  "question_graph = empty_graph ''q''"

lemma new_evidence_is_not_linked_witness:
  "support_count (update_reasoning_graph (\<lambda>_. [1]) 0 ''q'' [graph_hypothesis\<lparr>hy_evidence := [graph_finding]\<rparr>] [graph_finding] None (Some question_graph))
     (hypothesis_node_id (\<lambda>_. [1]) graph_hypothesis) = 0
   \<and> (\<forall>a l. \<not> has_edge (update_reasoning_graph (\<lambda>_. [1]) 0 ''q'' [graph_hypothesis\<lparr>hy_evidence := [graph_finding]\<rparr>] [graph_finding] None (Some question_graph))
          a (evidence_node_id (\<lambda>_. [1]) graph_finding) l)"
proof -
  have "rg_nodes question_graph \<noteq> []" "evidence_node_id (\<lambda>_. [1]) graph_finding \<notin> set (node_ids question_graph)" "rg_edges question_graph = []"
    by code_simp+
  then show ?thesis
    using new_evidence_is_not_linked [of question_graph "\<lambda>_. [1]" graph_finding 0 "''q''"] by simp code_simp
qed

text \<open>
  Once a node is appended to a full slice the confidences that the rest of the update brings are lost: after a
  new first hypothesis no old node changes, whatever evidence comes with it.
\<close>

lemma moved_keeps_nodes:
  assumes "gu_moved u"
  shows "set (rg_nodes (gu_graph u)) \<subseteq> set (rg_nodes (gu_graph (upsert_node n u))) \<and> gu_moved (upsert_node n u)"
  using assms by (auto simp: upsert_node_def Let_def)

lemma moved_keeps_hypothesis:
  assumes "gu_moved u"
  shows "set (rg_nodes (gu_graph u)) \<subseteq> set (rg_nodes (gu_graph (update_hypothesis digest h u))) \<and> gu_moved (update_hypothesis digest h u)"
proof -
  have e: "rg_nodes (gu_graph (update_edge a b l v)) = rg_nodes (gu_graph v)" "gu_moved (update_edge a b l v) = gu_moved v" for a b l v
    by (simp_all add: update_edge_def)
  let ?f = "\<lambda>ev u. if evidence_node_id digest ev \<in> set (node_ids (gu_graph u))
                      then update_edge (hypothesis_node_id digest h) (evidence_node_id digest ev) ''supported_by'' u else u"
  have "rg_nodes (gu_graph (fold ?f evs v)) = rg_nodes (gu_graph v) \<and> gu_moved (fold ?f evs v) = gu_moved v" for evs v
    by (induction evs arbitrary: v) (simp_all add: e)
  then show ?thesis using moved_keeps_nodes [OF assms, of "hypothesis_node digest h"] by (simp add: update_hypothesis_def Let_def e)
qed

lemma confidence_update_is_lost:
  assumes "rg_nodes g \<noteq> []" and "\<not> blank (hy_claim h)" and "hypothesis_node_id digest h \<notin> set (node_ids g)"
  shows "set (rg_nodes g) \<subseteq> set (rg_nodes (update_reasoning_graph digest 0 query (h # hs) evidence None (Some g)))"
proof -
  define u where "u = \<lparr>gu_graph = g, gu_indexed = node_ids g, gu_spare = 0, gu_moved = False\<rparr>"
  define P where "P = (\<lambda>v::graph_update. set (rg_nodes g) \<subseteq> set (rg_nodes (gu_graph v)) \<and> gu_moved v)"
  have i: "rn_id (hypothesis_node digest h) = hypothesis_node_id digest h" "rn_label (hypothesis_node digest h) = trim_space (hy_claim h)"
    by (simp_all add: hypothesis_node_def)
  have start: "P (upsert_node (hypothesis_node digest h) u)"
    using assms(2,3) by (auto simp: P_def u_def upsert_node_def Let_def i)
  have e: "P (update_edge a b l v) = P v" for a b l v
    by (simp add: P_def update_edge_def)
  have f: "P v \<Longrightarrow> P (fold (\<lambda>ev u. if evidence_node_id digest ev \<in> set (node_ids (gu_graph u))
                      then update_edge (hypothesis_node_id digest h) (evidence_node_id digest ev) ''supported_by'' u else u) evs v)" for evs v
    by (induction evs arbitrary: v) (simp_all add: e)
  have h: "P (update_hypothesis digest h u)"
    unfolding update_hypothesis_def Let_def by (rule f) (use start e in simp)
  have s1: "P v \<Longrightarrow> P (update_hypothesis digest x v)" for x v
    using moved_keeps_hypothesis [of v digest x] by (auto simp: P_def)
  have s2: "P v \<Longrightarrow> P (upsert_node n v)" for n v
    using moved_keeps_nodes [of v n] by (auto simp: P_def)
  have "P v \<Longrightarrow> P (fold (update_hypothesis digest) xs v)" for xs v
    by (induction xs arbitrary: v) (simp_all add: s1)
  moreover have "P v \<Longrightarrow> P (fold (upsert_node \<circ> evidence_node digest) evs v)" for evs v
    by (induction evs arbitrary: v) (simp_all add: s2)
  ultimately have p: "P (fold (upsert_node \<circ> evidence_node digest) evs (fold (update_hypothesis digest) xs (update_hypothesis digest h u)))" for evs xs
    using h by blast
  have ev1: "rg_nodes (evolution_edge digest hs' x g') = rg_nodes g'" for hs' x g'
    by (simp add: evolution_edge_def split: list.split)
  then have ev: "rg_nodes (fold (evolution_edge digest hs') xs g') = rg_nodes g'" for hs' xs g'
    by (induction xs arbitrary: g') simp_all
  have "rg_nodes (update_reasoning_graph digest 0 query (h # hs) evidence None (Some g))
     = rg_nodes (gu_graph (fold (upsert_node \<circ> evidence_node digest) (filter (\<lambda>ev. evidence_label ev \<noteq> []) evidence)
         (fold (update_hypothesis digest) (filter (\<lambda>h. \<not> blank (hy_claim h)) hs) (update_hypothesis digest h u))))"
    using assms(1,2) unfolding update_reasoning_graph_def Let_def option.case u_def [symmetric] by (simp add: ev ev1)
  then show ?thesis using p unfolding P_def by simp
qed

lemma confidence_update_is_lost_witness:
  "evidence_node (\<lambda>_. [1]) graph_finding \<in>
     set (rg_nodes (update_reasoning_graph (\<lambda>_. [1]) 0 ''q'' [graph_hypothesis] [graph_finding\<lparr>ef_confidence := 1\<rparr>] None
       (Some (append_node (evidence_node (\<lambda>_. [1]) graph_finding) question_graph))))"
proof -
  let ?g = "append_node (evidence_node (\<lambda>_. [1]) graph_finding) question_graph"
  have "rg_nodes ?g \<noteq> []" "\<not> blank (hy_claim graph_hypothesis)" "hypothesis_node_id (\<lambda>_. [1]) graph_hypothesis \<notin> set (node_ids ?g)"
    by code_simp+
  moreover have "evidence_node (\<lambda>_. [1]) graph_finding \<in> set (rg_nodes ?g)"
  proof -
    have "\<not> (blank (rn_id n) \<or> blank (rn_label n) \<or> rn_id n \<in> set (node_ids question_graph)) \<Longrightarrow> n \<in> set (rg_nodes (append_node n question_graph))" for n
      by (simp add: append_node_def)
    moreover have "\<not> (blank (rn_id (evidence_node (\<lambda>_. [1]) graph_finding)) \<or> blank (rn_label (evidence_node (\<lambda>_. [1]) graph_finding))
       \<or> rn_id (evidence_node (\<lambda>_. [1]) graph_finding) \<in> set (node_ids question_graph))" by code_simp
    ultimately show ?thesis by blast
  qed
  ultimately show ?thesis using confidence_update_is_lost [of ?g graph_hypothesis "\<lambda>_. [1]"] by blast
qed

end
