(* ===== verification/LoopReasoning.thy ===== *)
theory LoopReasoning
  imports PlanModel CoverageLedger BranchPlans HypothesisExploration ReasoningGraph
begin

text \<open>
  What the research loop asks about its evidence (\<open>orchestrator/internal/wisdev/autonomous.go\<close>,
  \<open>loop_replan.go\<close>): the hypotheses it proposes and has evaluated, whether the evidence is sufficient and a
  second opinion on that, the queries that follow from beliefs, gaps and hypotheses, and how many iterations are
  the minimum. The replies of language models are arguments.
\<close>

section \<open>The request\<close>

record loop_request =
  lr_query :: string
  lr_mode :: string
  lr_plane :: string
  lr_seed_queries :: "string list"
  lr_initial_papers :: "paper list"
  lr_initial_coverage :: "paper list dict"
  lr_initial_executed :: "string list"
  lr_max_iterations :: int
  lr_min_iterations :: int
  lr_max_search_terms :: int
  lr_hits_per_search :: int
  lr_max_unique_papers :: int
  lr_disable_hypotheses :: bool

definition yolo :: "loop_request \<Rightarrow> bool" where
  "yolo req \<longleftrightarrow> normalize_wisdev_mode (lr_mode req) = WisDevModeYOLO"

definition loop_minimum_iterations_met :: "bool \<Rightarrow> loop_request \<Rightarrow> nat \<Rightarrow> bool" where
  "loop_minimum_iterations_met unleashed req completed \<longleftrightarrow>
     (let m = max (lr_min_iterations req) (unleashed_min_loop_iterations unleashed (lr_max_iterations req))
      in m \<le> 0 \<or> m \<le> int completed)"

definition loop_exhaustive_mode :: "loop_request \<Rightarrow> bool" where
  "loop_exhaustive_mode req \<longleftrightarrow>
     0 < lr_min_iterations req \<and> 0 < lr_max_iterations req \<and> lr_max_iterations req \<le> lr_min_iterations req"

definition exhaustive_candidates :: "loop_request \<Rightarrow> string list \<Rightarrow> string list" where
  "exhaustive_candidates req executed =
     map (\<lambda>t. lr_query req @ t)
       ['' systematic review'', '' randomized controlled trial'', '' meta-analysis outcomes'', '' recent advances'',
        '' clinical outcomes long-term follow-up'']
     @ concat (map (\<lambda>c. [c @ '' systematic review'', c @ '' clinical trial'']) (filter (\<lambda>c. \<not> blank c) (query_topic_clauses (lr_query req))))
     @ lr_seed_queries req
     @ map (\<lambda>q. q @ '' corroborating evidence'') executed"

section \<open>The agenda\<close>

definition offline_agenda_queries :: "string list" where
  "offline_agenda_queries = [''systematic review meta analysis'', ''limitations contradictory evidence'']"

definition offline_seed_queries :: "string \<Rightarrow> string list" where
  "offline_seed_queries rootq =
     (let clauses = query_topic_clauses rootq; anchors = query_anchor_terms rootq; focus = join '' '' (take 2 anchors) in
      if 2 \<le> length clauses then dedupe_trimmed_strings (rootq # clauses)
      else if anchors = [] then []
      else dedupe_trimmed_strings [focus, focus @ '' systematic review''])"

fun agenda_foci :: "query_cache \<Rightarrow> string \<Rightarrow> string list \<Rightarrow> string list" where
  "agenda_foci cache rootq [] = []"
| "agenda_foci cache rootq (a # as) =
     (let item = prepare_search_query_text cache a; suff = trim_space (drop (length rootq) item); rest = agenda_foci cache rootq as in
      if item = [] \<or> (rootq \<noteq> [] \<and> equal_fold item rootq) then rest
      else if rootq \<noteq> [] \<and> has_prefix (to_lower item) (to_lower rootq @ '' '') \<and> suff \<noteq> [] then suff # rest
      else item # rest)"

definition sanitize_agenda_foci :: "query_cache \<Rightarrow> string \<Rightarrow> string list \<Rightarrow> string list" where
  "sanitize_agenda_foci cache rootq agenda =
     (let out = agenda_foci cache (prepare_search_query_text cache rootq) (dedupe_trimmed_strings agenda) in
      if out = [] then offline_agenda_queries else out)"

definition lookup_agenda_queries :: "query_cache \<Rightarrow> string \<Rightarrow> string list" where
  "lookup_agenda_queries cache query =
     (let q = prepare_search_query_text cache query in
      case cache q of
        Some p \<Rightarrow> if pq_agenda_queries p \<noteq> [] then sanitize_agenda_foci cache q (pq_agenda_queries p) else offline_agenda_queries
      | None \<Rightarrow> offline_agenda_queries)"

text \<open>\<open>seeds\<close> are the seed queries of a preparation made now, when the cache holds none.\<close>

definition build_topic_focused_queries :: "query_cache \<Rightarrow> string list \<Rightarrow> string \<Rightarrow> string list" where
  "build_topic_focused_queries cache seeds rootq =
     (let fresh = (if seeds \<noteq> [] then seeds else offline_seed_queries rootq) in
      case cache rootq of
        Some p \<Rightarrow> if pq_seed_queries p \<noteq> [] then pq_seed_queries p else fresh
      | None \<Rightarrow> fresh)"

definition build_research_agenda_queries :: "query_cache \<Rightarrow> string list \<Rightarrow> loop_request \<Rightarrow> string list" where
  "build_research_agenda_queries cache seeds req =
     (let primary = prepare_search_query_text cache (lr_query req);
          qs = normalize_loop_queries cache primary (lr_seed_queries req);
          rootq = trim_space primary
      in if rootq = [] \<or> (\<not> yolo req \<and> \<not> is_high_depth_research_plane (lr_plane req)) then qs
         else append_unique_loop_queries (append_unique_loop_queries qs (build_topic_focused_queries cache seeds rootq))
                (map (normalize_agenda_focus cache rootq) (lookup_agenda_queries cache rootq)))"

section \<open>Feedback of beliefs, and interjections\<close>

definition loop_agenda_covered :: "query_cache \<Rightarrow> string list \<Rightarrow> string list \<Rightarrow> bool" where
  "loop_agenda_covered cache agenda executed \<longleftrightarrow>
     (let qs = normalize_loop_queries cache [] agenda in qs \<noteq> [] \<and> list_all (contains_normalized_loop_query executed) qs)"

definition should_enable_belief_feedback :: "query_cache \<Rightarrow> loop_request \<Rightarrow> string list \<Rightarrow> string list \<Rightarrow> bool" where
  "should_enable_belief_feedback cache req agenda executed \<longleftrightarrow>
     yolo req \<or> (is_high_depth_research_plane (lr_plane req) \<and> loop_agenda_covered cache agenda executed)"

definition should_bootstrap_loop_hypotheses ::
  "query_cache \<Rightarrow> loop_request \<Rightarrow> hypothesis list \<Rightarrow> evidence_finding list \<Rightarrow> string list \<Rightarrow> string list \<Rightarrow> bool" where
  "should_bootstrap_loop_hypotheses cache req hs findings agenda executed \<longleftrightarrow>
     \<not> lr_disable_hypotheses req \<and> hs = [] \<and> findings \<noteq> [] \<and> should_enable_belief_feedback cache req agenda executed"

definition should_seed_pre_retrieval_hypotheses :: "loop_request \<Rightarrow> bool" where
  "should_seed_pre_retrieval_hypotheses req \<longleftrightarrow> \<not> lr_disable_hypotheses req \<and> yolo req"

definition belief_feedback_query_foci :: "string \<Rightarrow> belief \<Rightarrow> string list" where
  "belief_feedback_query_foci strategy b =
     (let s = to_lower (trim_space strategy) in
      if s = ''reconciliation'' then [''contradiction resolution'', ''falsification check'', ''independent replication'']
      else if s = ''focus'' then [''primary evidence for'', ''methodology evidence for'', ''limitations counter evidence'']
      else if s = ''falsification'' then [''falsification check'', ''independent replication'', ''failed replication null results'']
      else if bl_contradicting b \<noteq> [] then [''contradiction resolution'', ''falsification check'']
      else [''primary evidence for''])"

definition feedback_candidates :: "query_cache \<Rightarrow> string \<Rightarrow> loop_decision \<Rightarrow> belief_state \<Rightarrow> string list" where
  "feedback_candidates cache primary d bs =
     concat (map (\<lambda>i. case dict_get bs (trim_space i) of
         None \<Rightarrow> []
       | Some b \<Rightarrow>
           if bl_status b \<noteq> BeliefStatusActive \<or> blank (bl_claim b) then []
           else map (\<lambda>focus. normalize_agenda_focus cache primary (focus @ '': '' @ trim_space (bl_claim b)))
                  (belief_feedback_query_foci (ld_strategy d) b)) (ld_targets d))"

definition build_belief_feedback_queries ::
  "query_cache \<Rightarrow> string \<Rightarrow> loop_decision \<Rightarrow> belief_state option \<Rightarrow> int \<Rightarrow> string list" where
  "build_belief_feedback_queries cache primary d bs limit =
     (case bs of
        None \<Rightarrow> []
      | Some l \<Rightarrow>
          if \<not> ld_should_continue d \<or> limit \<le> 0 then []
          else foldl (\<lambda>qs q. if limit \<le> int (length qs) then qs else append_unique_loop_query qs q) []
                 (feedback_candidates cache primary d l))"

definition execute_swarm_interjections ::
  "query_cache \<Rightarrow> string \<Rightarrow> sufficiency_analysis \<Rightarrow> hypothesis list \<Rightarrow> string list" where
  "execute_swarm_interjections cache query a hs =
     normalize_loop_queries cache []
       (map (\<lambda>c. normalize_agenda_focus cache query (''contradiction resolution: '' @ c)) (sa_contradictions a)
        @ map (\<lambda>t. normalize_agenda_focus cache query (''source family: '' @ t)) (sa_missing_source_types a)
        @ map (\<lambda>h. normalize_agenda_focus cache query (''evidence for sub-claim: '' @ hy_claim h))
            (filter (\<lambda>h. \<not> hy_terminated h \<and> hy_confidence_score h < 1 / 2 \<and> 0 < hy_confidence_score h) hs))"

text \<open>
  The hypotheses to explore and whether they are still the caller's own slice, so that what the exploration
  writes to them is not lost.
\<close>

definition deprioritize_high_confidence ::
  "(string \<Rightarrow> nat list) \<Rightarrow> belief_state option \<Rightarrow> hypothesis list \<Rightarrow> hypothesis list \<times> bool" where
  "deprioritize_high_confidence digest bs hs =
     (case bs of
        None \<Rightarrow> (hs, True)
      | Some l \<Rightarrow>
          (let act = filter (\<lambda>h. \<not> hy_terminated h) hs;
               sure = (\<lambda>h. case dict_get l (stable_wisdev_id digest ''belief'' [hy_claim h, [], []]) of
                             None \<Rightarrow> False | Some b \<Rightarrow> 3 / 4 \<le> bl_confidence b);
               uncertain = filter (\<lambda>h. \<not> sure h) act
           in if hs = [] \<or> uncertain = [] then (hs, True) else (uncertain @ take 1 (filter sure act), False)))"

section \<open>Proposing hypotheses\<close>

definition fallback_hypothesis :: "(string \<Rightarrow> nat list) \<Rightarrow> evidence_finding list \<Rightarrow> string list dict \<Rightarrow> string \<Rightarrow> hypothesis" where
  "fallback_hypothesis digest findings index q =
     (let evs = select_loop_hypothesis_evidence q q q findings index 3 in
      \<lparr>hy_id = stable_wisdev_id digest ''loop_hyp'' [q], hy_parent_id = [], hy_query = q, hy_text = q, hy_claim = q,
       hy_confidence_score = average_loop_evidence_confidence evs (55 / 100),
       hy_status = (if evs = [] then ''candidate'' else ''validated''), hy_terminated = False,
       hy_evidence = evs, hy_contradictions = [], hy_contradiction_count = 0, hy_evidence_count = int (length evs),
       hy_updated_at = 0, hy_query_budget = 0, hy_falsifiability = [], hy_confidence_threshold = 0\<rparr>)"

definition build_fallback_hypotheses ::
  "(string \<Rightarrow> nat list) \<Rightarrow> query_cache \<Rightarrow> string \<Rightarrow> string list \<Rightarrow> evidence_finding list \<Rightarrow> string list dict \<Rightarrow> hypothesis list" where
  "build_fallback_hypotheses digest cache primary seeds findings index =
     map (fallback_hypothesis digest findings index) (normalize_loop_queries cache primary seeds)"

definition capability_hypothesis ::
  "(string \<Rightarrow> nat list) \<Rightarrow> int \<Rightarrow> string \<Rightarrow> evidence_finding list \<Rightarrow> string list dict \<Rightarrow> real \<Rightarrow> hypothesis \<Rightarrow> hypothesis" where
  "capability_hypothesis digest now primary findings index confidence h =
     (let claim = first_non_empty [hy_claim h, hy_text h, hy_query h];
          evs = select_loop_hypothesis_evidence (trim_space (claim @ '' '' @ trim_space (hy_falsifiability h))) [] primary findings index 3
      in \<lparr>hy_id = first_non_empty [hy_id h, stable_wisdev_id digest ''loop_hyp'' [claim]], hy_parent_id = [], hy_query = primary,
          hy_text = claim, hy_claim = claim,
          hy_confidence_score = clamp_float (first_positive
            [hy_confidence_score h, hy_confidence_threshold h, average_loop_evidence_confidence evs confidence]) 0 1,
          hy_status = first_non_empty [hy_status h, (if evs = [] then ''candidate'' else ''validated'')], hy_terminated = False,
          hy_evidence = evs, hy_contradictions = [], hy_contradiction_count = 0, hy_evidence_count = int (length evs),
          hy_updated_at = now, hy_query_budget = 0, hy_falsifiability = trim_space (hy_falsifiability h),
          hy_confidence_threshold = clamp_float (first_positive [hy_confidence_threshold h, confidence]) 0 1\<rparr>)"

definition normalize_capability_hypotheses ::
  "(string \<Rightarrow> nat list) \<Rightarrow> int \<Rightarrow> string \<Rightarrow> hypothesis list \<Rightarrow> evidence_finding list \<Rightarrow> string list dict \<Rightarrow> real \<Rightarrow> hypothesis list" where
  "normalize_capability_hypotheses digest now primary proposed findings index sumc =
     (let confidence = (if findings = [] then 55 / 100 else clamp_float (sumc / real (length findings)) (45 / 100) (95 / 100));
          claim = (\<lambda>h. first_non_empty [hy_claim h, hy_text h, hy_query h])
      in map (capability_hypothesis digest now primary findings index confidence)
           (uniq_by (\<lambda>h. to_lower (claim h)) [] (filter (\<lambda>h. claim h \<noteq> []) proposed)))"

text \<open>\<open>None\<close> is no proposal: no capability, a provider that cools down, an error, a panic.\<close>

definition propose_loop_hypotheses ::
  "(string \<Rightarrow> nat list) \<Rightarrow> int \<Rightarrow> query_cache \<Rightarrow> hypothesis list option \<Rightarrow> bool \<Rightarrow> string \<Rightarrow> string list \<Rightarrow> evidence_finding list
     \<Rightarrow> paper list dict \<Rightarrow> real \<Rightarrow> hypothesis list" where
  "propose_loop_hypotheses digest now cache proposal disabled primary seeds findings cov sumc =
     (let index = build_loop_query_source_index cov;
          fallback = build_fallback_hypotheses digest cache primary seeds findings index
      in if disabled then []
         else (case proposal of
                 None \<Rightarrow> fallback
               | Some proposed \<Rightarrow>
                   (let hs = (if blank primary then [] else
                        normalize_capability_hypotheses digest now (trim_space primary) proposed findings index sumc)
                    in if hs = [] then fallback else hs)))"

section \<open>Reasoning about the evidence\<close>

text \<open>The answers to one call of \<open>refreshLoopReasoning\<close>; \<open>ra_evaluator\<close> is \<open>None\<close> in a loop without an evaluator.\<close>

record reasoning_answers =
  ra_dossier :: "evidence_item list"
  ra_proposal :: "hypothesis list option"
  ra_evaluator :: "evaluator option"
  ra_cooling :: bool
  ra_committee :: "nat \<Rightarrow> committee_session"

definition finding_of_item :: "(string \<Rightarrow> nat list) \<Rightarrow> nat \<times> evidence_item \<Rightarrow> evidence_finding" where
  "finding_of_item digest = (\<lambda>(n, it).
     \<lparr>ef_id = stable_wisdev_id digest ''finding'' [ei_paper_id it, ei_claim it, itoa (int n)], ef_claim = ei_claim it,
      ef_source_id = ei_paper_id it, ef_paper_title = ei_paper_title it, ef_snippet = ei_snippet it, ef_year = 0,
      ef_confidence = ei_confidence it, ef_status = first_non_empty [ei_status it, ''verified'']\<rparr>)"

definition no_evaluator :: evaluator where
  "no_evaluator = \<lparr>ev_has_client = False, ev_cooling = False, ev_batch = (\<lambda>_. BatchFailed), ev_single = (\<lambda>_. None)\<rparr>"

definition chosen_evaluator :: "reasoning_answers \<Rightarrow> loop_gap_state option \<Rightarrow> string \<Rightarrow> evaluator \<Rightarrow> evaluator" where
  "chosen_evaluator ans gap plane e =
     (if ra_cooling ans \<or> plane \<noteq> ''multi_agent'' \<or> (case gap of None \<Rightarrow> True | Some g \<Rightarrow> blank (lg_reasoning g))
      then no_evaluator else e)"

definition update_loop_beliefs ::
  "(string \<Rightarrow> nat list) \<Rightarrow> int \<Rightarrow> hypothesis list \<Rightarrow> evidence_finding list \<Rightarrow> loop_gap_state option \<Rightarrow> string \<Rightarrow> paper list
     \<Rightarrow> belief_state \<Rightarrow> belief_state" where
  "update_loop_beliefs digest now hs findings gap query ps bs =
     triangulate_beliefs now ps (build_beliefs_from_hypotheses digest now hs findings (map_option lg_ledger gap) query bs)"

record reasoning_result =
  rs_findings :: "evidence_finding list"
  rs_hypotheses :: "hypothesis list"
  rs_beliefs :: "belief_state option"

definition refresh_loop_reasoning ::
  "(string \<Rightarrow> nat list) \<Rightarrow> int \<Rightarrow> int \<Rightarrow> query_cache \<Rightarrow> loop_request \<Rightarrow> reasoning_answers \<Rightarrow> paper list \<Rightarrow> paper list dict
     \<Rightarrow> loop_gap_state option \<Rightarrow> string \<Rightarrow> belief_state option \<Rightarrow> reasoning_result" where
  "refresh_loop_reasoning digest now yr cache req ans ps cov gap queryid beliefs =
     (let findings = re_weight_evidence_confidence yr (map (finding_of_item digest) (enumerate 0 (ra_dossier ans)));
          sumc = sum_list (map ei_confidence (ra_dossier ans));
          hs = propose_loop_hypotheses digest now cache (ra_proposal ans) (lr_disable_hypotheses req) (lr_query req)
                 (lr_seed_queries req) findings cov sumc
      in case ra_evaluator ans of
           None \<Rightarrow> \<lparr>rs_findings = findings, rs_hypotheses = hs, rs_beliefs = beliefs\<rparr>
         | Some e \<Rightarrow>
             if hs = [] then \<lparr>rs_findings = findings, rs_hypotheses = hs, rs_beliefs = beliefs\<rparr>
             else
               (let (evaluated, branched) = evaluate_all_batched digest (chosen_evaluator ans gap (lr_plane req) e) 8 findings hs;
                    beliefs' = map_option (update_loop_beliefs digest now evaluated findings gap queryid ps) beliefs;
                    findings' = (case beliefs' of None \<Rightarrow> findings | Some l \<Rightarrow> recalibrate_evidence_confidence l findings);
                    debated = deliberate_all (is_high_depth_research_plane (lr_plane req))
                                (if ra_cooling ans then None else Some (ra_committee ans)) findings' evaluated
                in \<lparr>rs_findings = findings', rs_hypotheses = prune_hypotheses_by_score (3 / 10) debated @ branched,
                    rs_beliefs = beliefs'\<rparr>))"

section \<open>Sufficiency\<close>

datatype judge_reply = JudgeCooling | JudgeFailed go_error | JudgeReply sufficiency_analysis

definition evaluate_sufficiency ::
  "(string \<Rightarrow> nat list) \<Rightarrow> (json \<Rightarrow> string) \<Rightarrow> query_cache \<Rightarrow> bool \<Rightarrow> judge_reply \<Rightarrow> string \<Rightarrow> paper list \<Rightarrow> go_error + sufficiency_analysis" where
  "evaluate_sufficiency digest show_any cache client reply query papers =
     (let ps = sanitize_retrieved_papers papers; heuristic = Inr (heuristic_sufficiency_analysis digest show_any cache query ps) in
      if ps = []
      then Inr (normalize_sufficiency_analysis cache query
             \<lparr>sa_sufficient = False, sa_reasoning = ''No evidence has been retrieved yet.'', sa_next_query = query, sa_next_queries = [],
              sa_missing_aspects = [], sa_missing_source_types = [], sa_contradictions = [], sa_confidence = 0\<rparr> ps)
      else if \<not> client then heuristic
      else (case reply of
              JudgeCooling \<Rightarrow> heuristic
            | JudgeFailed e \<Rightarrow> Inl e
            | JudgeReply a \<Rightarrow> Inr (normalize_sufficiency_analysis cache query a ps)))"

text \<open>
  \<open>opinion\<close> is the result of the second evaluation, \<open>None\<close> without a client or while the provider cools down.
  The analysis is changed in place.
\<close>

definition confirm_borderline_sufficiency ::
  "(go_error + sufficiency_analysis) option \<Rightarrow> sufficiency_analysis \<Rightarrow> bool \<times> sufficiency_analysis" where
  "confirm_borderline_sufficiency opinion a =
     (if \<not> sa_sufficient a then (False, a)
      else if 65 / 100 \<le> sa_confidence a then (True, a)
      else (case opinion of
              Some (Inr b) \<Rightarrow>
                if sa_sufficient b then (True, a\<lparr>sa_confidence := max (sa_confidence a) (sa_confidence b)\<rparr>)
                else (False, a\<lparr>sa_missing_aspects := dedupe_trimmed_strings (sa_missing_aspects a @ sa_missing_aspects b),
                             sa_next_queries := dedupe_trimmed_strings (sa_next_queries a @ sa_next_queries b)\<rparr>)
            | _ \<Rightarrow> (True, a)))"

text \<open>\<open>reply\<close> holds the queries of the language model, \<open>None\<close> without a client, while it cools down or on an error.\<close>

definition regenerate_loop_agenda :: "query_cache \<Rightarrow> string list option \<Rightarrow> sufficiency_analysis \<Rightarrow> string list" where
  "regenerate_loop_agenda cache reply a =
     (case reply of
        None \<Rightarrow> []
      | Some qs \<Rightarrow> if sa_sufficient a then [] else take 5 (normalize_loop_queries cache [] qs))"

datatype synthesis_reply = SynthesisCooling | SynthesisFailed | SynthesisReply sufficiency_analysis

definition intermediate_synthesis ::
  "(string \<Rightarrow> nat list) \<Rightarrow> (json \<Rightarrow> string) \<Rightarrow> query_cache \<Rightarrow> bool \<Rightarrow> synthesis_reply \<Rightarrow> string \<Rightarrow> paper list \<Rightarrow> sufficiency_analysis option" where
  "intermediate_synthesis digest show_any cache client reply query papers =
     (let ps = sanitize_retrieved_papers papers in
      if \<not> client \<or> length ps < 3 then None
      else (case reply of
              SynthesisCooling \<Rightarrow> Some (heuristic_sufficiency_analysis digest show_any cache query ps)
            | SynthesisFailed \<Rightarrow> None
            | SynthesisReply a \<Rightarrow> Some a))"

definition should_abort_autonomous_loop :: "go_error \<Rightarrow> bool" where
  "should_abort_autonomous_loop e \<longleftrightarrow> errors_is e ContextCanceled \<or> contains (to_lower (trim_space (err_text e))) ''context canceled''"

end
