(* ===== verification/AutonomousLoop.thy ===== *)
theory AutonomousLoop
  imports LoopReasoning
begin

text \<open>
  The research loop (\<open>AutonomousLoop.Run\<close> in \<open>orchestrator/internal/wisdev/autonomous.go\<close>) from its agenda to the
  closure of the gaps that remain. An iteration hears the operator, asks the beliefs whether to go on, explores
  hypotheses in a tree of branches, or searches a batch of queries when that found nothing, and judges the
  evidence. What comes from outside - searches, language models, the operator, the clock - are functions of the
  iteration, those named \<open>gap\<close> of the cycle that closes gaps. The request holds the query as prepared for research. Traces, progress events and logs are left
  out; the draft, its critique and the retrieval the critique reopens follow the part modelled here.
\<close>

section \<open>The state of a run\<close>

record loop_env =
  le_digest :: "string \<Rightarrow> nat list"
  le_show_any :: "json \<Rightarrow> string"
  le_cache :: query_cache
  le_unleashed :: bool
  le_weak_domain :: bool
  le_year :: int
  le_now :: "nat \<Rightarrow> int"
  le_client :: bool
  le_explorer :: bool
  le_seeds :: "string list"
  le_proposal :: "hypothesis list option"
  le_steering :: "nat \<Rightarrow> steering_signal option"
  le_cooldown :: "nat \<Rightarrow> int"
  le_search :: "nat \<Rightarrow> int \<Rightarrow> search_answers"
  le_tree_search :: "nat \<Rightarrow> int \<Rightarrow> search_answers"
  le_explore :: "nat \<Rightarrow> nat \<Rightarrow> exploration_answers option"
  le_tree_reason :: "nat \<Rightarrow> reasoning_answers"
  le_bootstrap_reason :: "nat \<Rightarrow> reasoning_answers"
  le_judge :: "nat \<Rightarrow> judge_reply"
  le_opinion :: "nat \<Rightarrow> (go_error + sufficiency_analysis) option"
  le_critique :: "nat \<Rightarrow> sufficiency_analysis option"
  le_synthesis :: "nat \<Rightarrow> synthesis_reply"
  le_replan :: "nat \<Rightarrow> string list option"
  le_ctx_error :: "nat \<Rightarrow> go_error option"
  le_gap_now :: "nat \<Rightarrow> int"
  le_gap_cooldown :: "nat \<Rightarrow> int"
  le_gap_search :: "nat \<Rightarrow> int \<Rightarrow> search_answers"
  le_gap_judge :: "nat \<Rightarrow> judge_reply"
  le_gap_ctx_error :: "nat \<Rightarrow> go_error option"

record loop_state =
  ls_papers :: "paper list"
  ls_iterations :: nat
  ls_executed :: "string list"
  ls_coverage :: "paper list dict"
  ls_planned :: "string list"
  ls_pending :: "string list"
  ls_seen :: "string list"
  ls_analysis :: "sufficiency_analysis option"
  ls_hypotheses :: "hypothesis list"
  ls_findings :: "evidence_finding list"
  ls_beliefs :: "belief_state option"
  ls_branches :: "research_branch list"

text \<open>How an iteration ends; a loop that stops has converged or not.\<close>

datatype loop_step = Continue loop_state | Stop bool loop_state | Fail go_error

definition queue_candidate :: "string \<Rightarrow> loop_state \<Rightarrow> loop_state \<times> bool" where
  "queue_candidate q s =
     (case enqueue_loop_query q (ls_pending s, ls_seen s) of
        ((p, k), ok) \<Rightarrow>
          if ok then (s\<lparr>ls_pending := p, ls_seen := k, ls_planned := append_unique_loop_query (ls_planned s) q\<rparr>, True)
          else (s, False))"

definition queue_candidates :: "string list \<Rightarrow> loop_state \<Rightarrow> loop_state \<times> bool" where
  "queue_candidates qs s = fold (\<lambda>q (s, any). case queue_candidate q s of (s, ok) \<Rightarrow> (s, any \<or> ok)) qs (s, False)"

definition queue_priority_candidate :: "string \<Rightarrow> loop_state \<Rightarrow> loop_state \<times> bool" where
  "queue_priority_candidate q s =
     (let t = trim_space q in
      if t = [] \<or> to_lower t \<in> set (ls_seen s) then (s, False)
      else (s\<lparr>ls_seen := to_lower t # ls_seen s, ls_pending := t # ls_pending s,
              ls_planned := append_unique_loop_query (ls_planned s) t\<rparr>, True))"

section \<open>The start of a run\<close>

definition loop_hits_per_search :: "loop_env \<Rightarrow> loop_request \<Rightarrow> int" where
  "loop_hits_per_search env req =
     (let h = lr_hits_per_search req in
      resolve_loop_hits_per_search (if le_weak_domain env \<and> 0 < h then min (h + 2) (h * 2) else h))"

definition loop_budget :: "loop_env \<Rightarrow> loop_request \<Rightarrow> int" where
  "loop_budget env req = resolve_loop_search_term_budget (le_unleashed env) (lr_max_iterations req) (lr_max_search_terms req)"

definition loop_max_iterations :: "loop_env \<Rightarrow> loop_request \<Rightarrow> int" where
  "loop_max_iterations env req =
     (let m = max (lr_max_iterations req) 0 in if m \<le> 0 then loop_budget env req else m)"

definition paper_limit :: "loop_request \<Rightarrow> int" where
  "paper_limit req = max (lr_max_unique_papers req) 0"

definition loop_agenda :: "loop_env \<Rightarrow> loop_request \<Rightarrow> string list" where
  "loop_agenda env req = build_research_agenda_queries (le_cache env) (le_seeds env) req"

definition seed_probe :: "int \<Rightarrow> string \<Rightarrow> loop_state \<times> int \<Rightarrow> loop_state \<times> int" where
  "seed_probe cap q = (\<lambda>(s, n). if cap \<le> n then (s, n)
     else (case queue_priority_candidate q s of (s, ok) \<Rightarrow> (s, if ok then n + 1 else n)))"

definition seed_hypotheses :: "loop_env \<Rightarrow> loop_request \<Rightarrow> loop_state \<Rightarrow> loop_state" where
  "seed_hypotheses env req s =
     (if \<not> should_seed_pre_retrieval_hypotheses req then s
      else (let hs = propose_loop_hypotheses (le_digest env) (le_now env 0) (le_cache env) (le_proposal env)
                       (lr_disable_hypotheses req) (lr_query req) (ls_planned s) [] (ls_coverage s) 0;
                plans = research_branch_plans_from_hypotheses (le_digest env) (le_cache env) (lr_query req) hs;
                s = s\<lparr>ls_hypotheses := hs\<rparr>
            in if plans = [] then s
               else (let cap = max 1 (loop_budget env req div 2);
                         s = fst (fold (seed_probe cap) (concat (map (\<lambda>p. rev (bp_retrieval_plan p)) (rev plans))) (s, 0))
                     in s\<lparr>ls_beliefs := map_option
                            (build_beliefs_from_hypotheses (le_digest env) (le_now env 0) hs [] None (lr_query req)) (ls_beliefs s)\<rparr>)))"

definition loop_start :: "loop_env \<Rightarrow> loop_request \<Rightarrow> belief_state option \<Rightarrow> loop_state" where
  "loop_start env req beliefs =
     (let planned = loop_agenda env req;
          executed = normalize_loop_queries (le_cache env) [] (lr_initial_executed req)
      in seed_hypotheses env req
           \<lparr>ls_papers = fst (admit_search_papers_for_query (le_cache env) (le_now env 0) [] (lr_query req) (lr_initial_papers req) (paper_limit req)),
            ls_iterations = 0, ls_executed = executed, ls_coverage = clone_loop_query_coverage (lr_initial_coverage req),
            ls_planned = planned, ls_pending = filter_unexecuted_loop_queries planned executed, ls_seen = map to_lower planned,
            ls_analysis = None, ls_hypotheses = [], ls_findings = [], ls_beliefs = beliefs, ls_branches = []\<rparr>)"

section \<open>The operator and the beliefs\<close>

definition hear_operator :: "loop_env \<Rightarrow> nat \<Rightarrow> loop_state \<Rightarrow> loop_state" where
  "hear_operator env i s =
     (case le_steering env i of
        None \<Rightarrow> s
      | Some sig \<Rightarrow> (case apply_steering_signal sig (ls_executed s) (ls_pending s) (ls_beliefs s) of
                      (p, bs) \<Rightarrow> s\<lparr>ls_pending := p, ls_beliefs := bs\<rparr>))"

definition remaining_terms :: "loop_env \<Rightarrow> loop_request \<Rightarrow> loop_state \<Rightarrow> int" where
  "remaining_terms env req s = loop_budget env req - int (length (ls_executed s))"

definition minimum_met :: "loop_env \<Rightarrow> loop_request \<Rightarrow> loop_state \<Rightarrow> bool" where
  "minimum_met env req s = loop_minimum_iterations_met (le_unleashed env) req (ls_iterations s)"

definition consume_feedback :: "loop_env \<Rightarrow> loop_request \<Rightarrow> loop_decision \<Rightarrow> loop_state \<Rightarrow> loop_state" where
  "consume_feedback env req d s =
     (let qs = (if should_enable_belief_feedback (le_cache env) req (loop_agenda env req) (ls_executed s)
                then build_belief_feedback_queries (le_cache env) (lr_query req) d (ls_beliefs s) (min (remaining_terms env req s) 4)
                else [])
      in fold (\<lambda>q s. fst (queue_priority_candidate q s)) (rev qs) s)"

definition prune_pending :: "loop_state \<Rightarrow> loop_state" where
  "prune_pending s =
     (case ls_beliefs s of None \<Rightarrow> s | Some l \<Rightarrow> s\<lparr>ls_pending := prune_obsolete_queries l (ls_pending s)\<rparr>)"

definition current_parallelism :: "loop_env \<Rightarrow> loop_request \<Rightarrow> nat \<Rightarrow> loop_state \<Rightarrow> int" where
  "current_parallelism env req i s =
     resolve_cooldown_aware_parallelism
       (resolve_adaptive_parallelism (case ls_analysis s of None \<Rightarrow> 0 | Some a \<Rightarrow> sa_confidence a) (lr_plane req)) (le_cooldown env i)"

definition current_search_limit :: "loop_env \<Rightarrow> loop_request \<Rightarrow> loop_state \<Rightarrow> int" where
  "current_search_limit env req s =
     remaining_loop_search_limit (length (ls_papers s)) (loop_hits_per_search env req) (paper_limit req)"

definition paper_budget_reached :: "loop_request \<Rightarrow> loop_state \<Rightarrow> bool" where
  "paper_budget_reached req s \<longleftrightarrow> 0 < paper_limit req \<and> paper_limit req \<le> int (length (ls_papers s))"

section \<open>Exploring hypotheses in a tree\<close>

definition tree_phase_active :: "loop_env \<Rightarrow> loop_request \<Rightarrow> nat \<Rightarrow> loop_state \<Rightarrow> bool" where
  "tree_phase_active env req i s \<longleftrightarrow>
     0 < remaining_terms env req s \<and> le_cooldown env i \<le> 0 \<and> ls_analysis s \<noteq> None
     \<and> is_high_depth_research_plane (lr_plane req) \<and> ls_papers s \<noteq> [] \<and> le_explorer env \<and> \<not> lr_disable_hypotheses req"

definition reason :: "loop_env \<Rightarrow> loop_request \<Rightarrow> nat \<Rightarrow> reasoning_answers \<Rightarrow> loop_gap_state option \<Rightarrow> string \<Rightarrow> loop_state \<Rightarrow> loop_state" where
  "reason env req i ans gap queryid s =
     (let r = refresh_loop_reasoning (le_digest env) (le_now env i) (le_year env) (le_cache env) req ans (ls_papers s)
                (ls_coverage s) gap queryid (ls_beliefs s)
      in s\<lparr>ls_findings := rs_findings r, ls_hypotheses := rs_hypotheses r, ls_beliefs := rs_beliefs r\<rparr>)"

text \<open>
  What the exploration writes to its hypotheses reaches the loop only if they are a prefix of the loop's own
  slice: the targets of the graph and the reordered slice are copies.
\<close>

definition write_back :: "(nat \<times> hypothesis) list \<Rightarrow> hypothesis list \<Rightarrow> hypothesis list" where
  "write_back ws hs = fold (\<lambda>(n, h) hs. hs[n := h]) ws hs"

definition exploration_candidates :: "loop_env \<Rightarrow> loop_request \<Rightarrow> int \<Rightarrow> loop_state \<Rightarrow> hypothesis list \<times> bool" where
  "exploration_candidates env req par s =
     (let targets = suggest_exploration_targets (le_digest env)
                      (build_reasoning_graph (le_digest env) (lr_query req) (ls_hypotheses s) (ls_findings s)) (ls_hypotheses s) par;
          (hs, same) = deprioritize_high_confidence (le_digest env) (ls_beliefs s)
                         (if targets = [] then ls_hypotheses s else targets)
      in (hs, targets = [] \<and> same))"

definition tree_queries_per_branch :: "int \<Rightarrow> int" where
  "tree_queries_per_branch available = min 2 (max 1 available)"

definition tree_max_branches :: "int \<Rightarrow> int" where
  "tree_max_branches available = min 5 (max 1 (available div tree_queries_per_branch available))"

definition tree_config :: "loop_request \<Rightarrow> int \<Rightarrow> tree_search_config" where
  "tree_config req available =
     \<lparr>tc_max_branches = tree_max_branches available, tc_prune_below = 3 / 10, tc_max_depth = 2,
      tc_max_unique_papers = paper_limit req, tc_queries_per_branch = tree_queries_per_branch available,
      tc_disable_advance = (0 < lr_max_search_terms req)\<rparr>"

definition commit_tree :: "loop_env \<Rightarrow> loop_request \<Rightarrow> nat \<Rightarrow> tree_search_result \<Rightarrow> loop_state \<Rightarrow> loop_state" where
  "commit_tree env req i tree s =
     (let now = le_now env i;
          hs = merge_similar_hypotheses now (ls_hypotheses s @ tr_spawned_hypotheses tree);
          qs = concat (map rb_executed_queries (tr_branches tree));
          papers = (case tr_merge_candidate tree of
             None \<Rightarrow> ls_papers s
           | Some m \<Rightarrow> fst (admit_search_papers_for_query (le_cache env) now (ls_papers s) (lr_query req) (mb_papers m) (paper_limit req)));
          bs = map_option (\<lambda>l. fst (retire_beliefs_for_inactive_hypotheses now hs l)) (ls_beliefs s);
          bs = (if tr_findings tree = [] then bs
                else map_option (\<lambda>l. triangulate_beliefs now papers
                       (build_beliefs_from_hypotheses (le_digest env) now hs (tr_findings tree) None (lr_query req) l)) bs)
      in s\<lparr>ls_hypotheses := hs, ls_planned := append_unique_loop_queries (ls_planned s) qs,
           ls_executed := append_unique_loop_queries (ls_executed s) qs, ls_papers := papers, ls_beliefs := bs,
           ls_coverage := tr_coverage tree, ls_branches := ls_branches s @ tr_branches tree\<rparr>)"

definition explore_tree :: "loop_env \<Rightarrow> loop_request \<Rightarrow> nat \<Rightarrow> int \<Rightarrow> int \<Rightarrow> loop_state \<Rightarrow> loop_state" where
  "explore_tree env req i par limit s =
     (let available = remaining_terms env req s;
          m = nat (tree_max_branches available);
          (hs, own) = exploration_candidates env req par s;
          hs = compute_adaptive_budgets (take m hs) par;
          found = explore_all (le_now env i) (le_explore env i) (tree_queries_per_branch available) hs;
          tree = tree_search_run (le_digest env) (le_now env i) (le_year env) (le_cache env) (le_tree_search env i limit)
                   (tree_config req available) (lr_query req) (map snd found) (ls_coverage s);
          explored = write_back (zip (map fst found) (tr_explored tree)) hs
      in commit_tree env req i tree
           (if own then s\<lparr>ls_hypotheses := explored @ drop m (ls_hypotheses s)\<rparr> else s))"

text \<open>The second component is the number of new papers, the third whether the loop converged.\<close>

definition tree_phase :: "loop_env \<Rightarrow> loop_request \<Rightarrow> nat \<Rightarrow> int \<Rightarrow> int \<Rightarrow> loop_state \<Rightarrow> loop_state \<times> int \<times> bool" where
  "tree_phase env req i par limit s =
     (if \<not> tree_phase_active env req i s then (s, 0, False)
      else (let s = reason env req i (le_tree_reason env i) None [] s in
            if ls_hypotheses s = [] then (s, 0, False)
            else (let s' = explore_tree env req i par limit s in
                  (s', int (length (ls_papers s')) - int (length (ls_papers s)),
                   should_converge_by_belief_state (ls_beliefs s') \<and> minimum_met env req s'))))"

section \<open>Searching a batch of queries\<close>

definition enqueue_exhaustive :: "loop_request \<Rightarrow> loop_state \<Rightarrow> loop_state \<times> bool" where
  "enqueue_exhaustive req s =
     (if \<not> loop_exhaustive_mode req then (s, False)
      else (case fold (\<lambda>q (ps, any). case enqueue_loop_query q ps of (ps, ok) \<Rightarrow> (ps, any \<or> ok))
                   (exhaustive_candidates req (ls_executed s)) ((ls_pending s, ls_seen s), False) of
              ((p, k), any) \<Rightarrow> (s\<lparr>ls_pending := p, ls_seen := k\<rparr>, any)))"

definition take_batch :: "int \<Rightarrow> loop_state \<Rightarrow> string list \<times> loop_state" where
  "take_batch n s = (case next_loop_query_batch (ls_pending s) n of (b, p) \<Rightarrow> (b, s\<lparr>ls_pending := p\<rparr>))"

definition next_batch :: "loop_env \<Rightarrow> loop_request \<Rightarrow> int \<Rightarrow> loop_state \<Rightarrow> string list \<times> loop_state" where
  "next_batch env req n s =
     (case take_batch n s of
        (b, s') \<Rightarrow>
          if b \<noteq> [] \<or> minimum_met env req s' then (b, s')
          else (case enqueue_exhaustive req s' of (s'', any) \<Rightarrow> if any then take_batch n s'' else ([], s'')))"

text \<open>The results of a batch, until the budget of papers is used up.\<close>

definition admit_result :: "loop_env \<Rightarrow> loop_request \<Rightarrow> int \<Rightarrow> string \<Rightarrow> paper list \<Rightarrow> loop_state \<Rightarrow> loop_state \<times> paper list" where
  "admit_result env req now q ps s =
     (case admit_search_papers_for_retrieval_query (le_cache env) now (ls_papers s) (lr_query req) q ps (paper_limit req) of
        (papers, acc) \<Rightarrow> (s\<lparr>ls_executed := append_unique_loop_query (ls_executed s) q, ls_papers := papers,
                            ls_coverage := record_loop_query_coverage q acc (ls_coverage s)\<rparr>, acc))"

definition phase1_findings :: "loop_env \<Rightarrow> string \<Rightarrow> paper list \<Rightarrow> evidence_finding list" where
  "phase1_findings env q acc =
     map (\<lambda>p. finding_of_paper (le_year env) (stable_wisdev_id (le_digest env) ''p1finding'' [q, p_id p]) p) acc"

fun admit_results :: "loop_env \<Rightarrow> loop_request \<Rightarrow> nat \<Rightarrow> (string \<times> paper list) list \<Rightarrow> loop_state \<Rightarrow> loop_state \<times> evidence_finding list" where
  "admit_results env req i [] s = (s, [])"
| "admit_results env req i ((q, ps) # rest) s =
     (case admit_result env req (le_now env i) q ps s of
        (s, acc) \<Rightarrow>
          if paper_budget_reached req s then (s, phase1_findings env q acc)
          else (case admit_results env req i rest s of (s, fs) \<Rightarrow> (s, phase1_findings env q acc @ fs)))"

definition findings_by_id :: "evidence_finding list \<Rightarrow> evidence_finding dict" where
  "findings_by_id fs = fold (\<lambda>f. dict_set (ef_id f) f) fs []"

definition confidence_dropped :: "belief_state \<Rightarrow> string \<times> belief \<Rightarrow> bool" where
  "confidence_dropped before = (\<lambda>(i, b). bl_status b = BeliefStatusActive
     \<and> (case dict_get before i of None \<Rightarrow> False | Some old \<Rightarrow> bl_confidence b < bl_confidence old - 1 / 10))"

text \<open>The map of beliefs is visited in the order of its list.\<close>

definition queue_rebuttal :: "int \<Rightarrow> string \<times> belief \<Rightarrow> loop_state \<times> int \<Rightarrow> loop_state \<times> int" where
  "queue_rebuttal cap = (\<lambda>(_, b) (s, n). if cap \<le> n then (s, n)
     else (case queue_candidate (''counter-evidence: '' @ trim_space (bl_claim b)) s of (s, ok) \<Rightarrow> (s, if ok then n + 1 else n)))"

definition reconciliation_queries :: "belief_state \<Rightarrow> string list \<Rightarrow> string list" where
  "reconciliation_queries l refuted =
     map (\<lambda>b. ''reconcile contradiction: '' @ trim_space (bl_claim b)) (List.map_filter (dict_get l) refuted)"

definition control_beliefs :: "loop_env \<Rightarrow> loop_request \<Rightarrow> nat \<Rightarrow> evidence_finding list \<Rightarrow> belief_state \<Rightarrow> loop_state \<Rightarrow> loop_state \<times> bool" where
  "control_beliefs env req i fs before s =
     (let now = le_now env i;
          l = recalculate_confidence now (findings_by_id fs) before;
          s = fst (fold (queue_rebuttal (max_belief_rebuttal_queries_per_iteration (le_cooldown env i))) (filter (confidence_dropped before) l) (s, 0));
          (l, refuted) = refute_beliefs_contradicted_by_evidence now fs (7 / 10) l;
          s = fst (queue_candidates (reconciliation_queries l refuted) (s\<lparr>ls_beliefs := Some l\<rparr>));
          sat = detect_evidence_saturation fs l
      in if sr_is_saturated sat then (s, minimum_met env req s)
         else if sr_recommendation sat = ''expand-diversity'' then (fst (queue_candidate (lr_query req @ '' alternative perspectives'') s), False)
         else (s, False))"

definition loop_gap :: "loop_env \<Rightarrow> loop_request \<Rightarrow> bool \<Rightarrow> loop_state \<Rightarrow> loop_gap_state" where
  "loop_gap env req converged s =
     build_loop_gap_state (le_digest env) (le_show_any env) (le_cache env) (ls_planned s) (ls_executed s) (ls_coverage s)
       (ls_papers s) (ls_analysis s) converged (lr_plane req)"

definition bootstrap_hypotheses :: "loop_env \<Rightarrow> loop_request \<Rightarrow> nat \<Rightarrow> evidence_finding list \<Rightarrow> loop_state \<Rightarrow> loop_state" where
  "bootstrap_hypotheses env req i fs s =
     (if should_bootstrap_loop_hypotheses (le_cache env) req (ls_hypotheses s) fs (loop_agenda env req) (ls_executed s)
      then reason env req i (le_bootstrap_reason env i) (Some (loop_gap env req False s)) (lr_query req) s else s)"

text \<open>
  \<open>remaining\<close> is what the budget left before the tree was explored. A batch without queries ends the loop.
\<close>

definition batch_phase :: "loop_env \<Rightarrow> loop_request \<Rightarrow> nat \<Rightarrow> int \<Rightarrow> int \<Rightarrow> int \<Rightarrow> loop_state \<Rightarrow> loop_step" where
  "batch_phase env req i par remaining limit s =
     (case next_batch env req (min par remaining) s of
        ([], s) \<Rightarrow> Stop False s
      | (b, s) \<Rightarrow>
          (let (s, fs) = admit_results env req i (execute_loop_search_batch (le_cache env) (le_search env i limit) b) s;
               (s, saturated) = (case ls_beliefs s of
                  Some l \<Rightarrow> if fs = [] then (s, False) else control_beliefs env req i fs l s
                | None \<Rightarrow> (s, False))
           in if saturated then Stop True s else Continue (bootstrap_hypotheses env req i fs s)))"

section \<open>Judging the evidence\<close>

definition analyse :: "loop_env \<Rightarrow> loop_request \<Rightarrow> nat \<Rightarrow> loop_state \<Rightarrow> go_error + sufficiency_analysis" where
  "analyse env req i s =
     (if 8 / 10 < (real (length (ls_executed s)) / real_of_int (max (loop_budget env req) 1)) \<and> 10 < loop_budget env req
      then Inr (heuristic_sufficiency_analysis (le_digest env) (le_show_any env) (le_cache env) (lr_query req) (ls_papers s))
      else evaluate_sufficiency (le_digest env) (le_show_any env) (le_cache env) (le_client env) (le_judge env i) (lr_query req) (ls_papers s))"

definition gap_belief :: "loop_env \<Rightarrow> loop_request \<Rightarrow> nat \<Rightarrow> string \<Rightarrow> belief" where
  "gap_belief env req i aspect =
     (let b = stable_wisdev_id (le_digest env) ''gap-belief'' [lr_query req, aspect] in
      \<lparr>bl_id = b, bl_claim = ''Gap: '' @ aspect, bl_confidence = 1 / 10, bl_supporting = [], bl_contradicting = [],
       bl_provenance = [\<lparr>pv_gap_id = b, pv_query_id = [], pv_evidence_id = [], pv_timestamp = le_now env i\<rparr>],
       bl_source_families = [], bl_triangulated = False, bl_status = BeliefStatusActive,
       bl_created_at = le_now env i, bl_updated_at = le_now env i, bl_revised_from = [], bl_superseded_by = []\<rparr>)"

definition add_gap_belief :: "loop_env \<Rightarrow> loop_request \<Rightarrow> nat \<Rightarrow> string \<Rightarrow> belief_state \<Rightarrow> belief_state" where
  "add_gap_belief env req i aspect l =
     (let b = gap_belief env req i aspect in if dict_get l (bl_id b) \<noteq> None then l else dict_set (bl_id b) b l)"

definition qualitative_analysis :: "loop_env \<Rightarrow> loop_request \<Rightarrow> nat \<Rightarrow> loop_state \<Rightarrow> sufficiency_analysis option" where
  "qualitative_analysis env req i s =
     (if i = 0 \<or> Suc i mod 2 \<noteq> 0 then None
      else if Suc i mod 4 = 0
      then intermediate_synthesis (le_digest env) (le_show_any env) (le_cache env) (le_client env) (le_synthesis env i) (lr_query req) (ls_papers s)
      else le_critique env i)"

definition apply_qualitative :: "loop_env \<Rightarrow> loop_request \<Rightarrow> nat \<Rightarrow> sufficiency_analysis \<times> loop_state \<Rightarrow> sufficiency_analysis \<times> loop_state" where
  "apply_qualitative env req i = (\<lambda>(a, s).
     (case qualitative_analysis env req i s of
        None \<Rightarrow> (a, s)
      | Some q \<Rightarrow>
          (let s = fst (queue_candidates (sa_next_queries q) s) in
           (a\<lparr>sa_missing_aspects := sa_missing_aspects a @ sa_missing_aspects q\<rparr>,
            s\<lparr>ls_beliefs := map_option (fold (add_gap_belief env req i) (sa_missing_aspects q)) (ls_beliefs s)\<rparr>))))"

text \<open>The analysis is the loop's last one, by pointer, so its changes stay with the loop.\<close>

definition follow_up :: "loop_env \<Rightarrow> loop_request \<Rightarrow> nat \<Rightarrow> sufficiency_analysis \<Rightarrow> loop_state \<Rightarrow> loop_state" where
  "follow_up env req i a s =
     (let s = fst (queue_candidates (execute_swarm_interjections (le_cache env) (lr_query req) a (ls_hypotheses s)) s);
          (a, s) = apply_qualitative env req i (a, s);
          s = s\<lparr>ls_analysis := Some a\<rparr>;
          gap = loop_gap env req False s;
          (s, any1) = queue_candidates (sa_next_queries a) s;
          (s, any2) = queue_candidates (build_follow_up_queries_from_ledger (lr_query req) (lg_ledger gap) 4) s;
          s = (if any1 \<or> any2 then s else fst (queue_candidates (derive_loop_follow_up_queries (lr_query req) (Some a) (ls_papers s)) s))
      in if ls_pending s = [] then fst (queue_candidates (regenerate_loop_agenda (le_cache env) (le_replan env i) a) s) else s)"

definition judged :: "loop_env \<Rightarrow> loop_request \<Rightarrow> nat \<Rightarrow> sufficiency_analysis \<Rightarrow> loop_state \<Rightarrow> loop_step" where
  "judged env req i a s =
     (if int i = loop_max_iterations env req - 1 \<or> paper_budget_reached req s
      then Stop (sa_sufficient a) (s\<lparr>ls_analysis := Some a\<rparr>)
      else if sa_sufficient a \<and> minimum_met env req s
      then (case confirm_borderline_sufficiency (le_opinion env i) a of
              (agreed, a) \<Rightarrow> if agreed then Stop True (s\<lparr>ls_analysis := Some a\<rparr>)
                             else Continue (follow_up env req i (a\<lparr>sa_sufficient := False\<rparr>) s))
      else Continue (follow_up env req i a s))"

definition unjudged :: "loop_env \<Rightarrow> loop_request \<Rightarrow> nat \<Rightarrow> go_error \<Rightarrow> loop_state \<Rightarrow> loop_step" where
  "unjudged env req i e s =
     (case le_ctx_error env i of
        Some c \<Rightarrow> Fail c
      | None \<Rightarrow>
          if should_abort_autonomous_loop e then Fail e
          else (let a = heuristic_sufficiency_analysis (le_digest env) (le_show_any env) (le_cache env) (lr_query req) (ls_papers s);
                    s = s\<lparr>ls_analysis := Some a\<rparr>
                in if paper_budget_reached req s \<or> (sa_sufficient a \<and> minimum_met env req s)
                   then Stop (sa_sufficient a \<or> paper_budget_reached req s) s
                   else Continue s))"

definition judge_evidence :: "loop_env \<Rightarrow> loop_request \<Rightarrow> nat \<Rightarrow> loop_state \<Rightarrow> loop_step" where
  "judge_evidence env req i s =
     (if should_converge_by_belief_state (ls_beliefs s) \<and> minimum_met env req s then Stop True s
      else (case analyse env req i s of Inr a \<Rightarrow> judged env req i a s | Inl e \<Rightarrow> unjudged env req i e s))"

section \<open>The loop\<close>

definition research_iteration :: "loop_env \<Rightarrow> loop_request \<Rightarrow> nat \<Rightarrow> loop_decision \<Rightarrow> loop_state \<Rightarrow> loop_step" where
  "research_iteration env req i d s =
     (let s = s\<lparr>ls_iterations := Suc (ls_iterations s)\<rparr>;
          remaining = remaining_terms env req s;
          s = prune_pending (consume_feedback env req d s);
          par = current_parallelism env req i s;
          limit = current_search_limit env req s
      in if limit \<le> 0 then Stop False s
         else (case tree_phase env req i par limit s of
                 (s, found, converged) \<Rightarrow>
                   if converged then Stop True s
                   else if found \<noteq> 0 then judge_evidence env req i s
                   else (case batch_phase env req i par remaining limit s of
                           Continue s \<Rightarrow> judge_evidence env req i s
                         | r \<Rightarrow> r)))"

definition loop_iteration :: "loop_env \<Rightarrow> loop_request \<Rightarrow> nat \<Rightarrow> loop_state \<Rightarrow> loop_step" where
  "loop_iteration env req i s =
     (let s = hear_operator env i s;
          d = belief_driven_continuation (ls_beliefs s) (loop_budget env req) (int (length (ls_executed s)))
      in if \<not> ld_should_continue d \<and> minimum_met env req s then Stop (ld_reason d = ''belief convergence'') s
         else research_iteration env req i d s)"

fun run_iterations :: "loop_env \<Rightarrow> loop_request \<Rightarrow> nat \<Rightarrow> nat \<Rightarrow> loop_state \<Rightarrow> loop_step" where
  "run_iterations env req i 0 s = Stop False s"
| "run_iterations env req i (Suc n) s =
     (case loop_iteration env req i s of Continue s \<Rightarrow> run_iterations env req (Suc i) n s | r \<Rightarrow> r)"

definition run_loop :: "loop_env \<Rightarrow> loop_request \<Rightarrow> belief_state option \<Rightarrow> loop_step" where
  "run_loop env req beliefs = run_iterations env req 0 (nat (loop_max_iterations env req)) (loop_start env req beliefs)"

section \<open>Closing the gaps that remain\<close>

record gap_closure =
  gc_state :: loop_state
  gc_converged :: bool
  gc_gap :: loop_gap_state

fun select_gap_queries :: "nat \<Rightarrow> string list \<Rightarrow> loop_state \<Rightarrow> string list \<times> loop_state" where
  "select_gap_queries m [] s = ([], s)"
| "select_gap_queries m (c # cs) s =
     (let t = trim_space c in
      if t = [] \<or> to_lower t \<in> set (ls_seen s) then select_gap_queries m cs s
      else (let s = s\<lparr>ls_seen := to_lower t # ls_seen s, ls_planned := append_unique_loop_query (ls_planned s) t\<rparr> in
            if m \<le> 1 then ([t], s) else (case select_gap_queries (m - 1) cs s of (ts, s) \<Rightarrow> (t # ts, s))))"

definition gap_analysis :: "loop_env \<Rightarrow> loop_request \<Rightarrow> nat \<Rightarrow> bool \<Rightarrow> loop_state \<Rightarrow> go_error + sufficiency_analysis \<times> bool" where
  "gap_analysis env req k converged s =
     (case evaluate_sufficiency (le_digest env) (le_show_any env) (le_cache env) (le_client env) (le_gap_judge env k) (lr_query req) (ls_papers s) of
        Inr a \<Rightarrow> Inr (a, sa_sufficient a)
      | Inl e \<Rightarrow>
          (case le_gap_ctx_error env k of
             Some c \<Rightarrow> Inl c
           | None \<Rightarrow>
               if should_abort_autonomous_loop e then Inl e
               else (let a = heuristic_sufficiency_analysis (le_digest env) (le_show_any env) (le_cache env) (lr_query req) (ls_papers s)
                     in Inr (a, converged \<or> sa_sufficient a \<or> paper_budget_reached req s))))"

definition admit_gap_result :: "loop_env \<Rightarrow> loop_request \<Rightarrow> int \<Rightarrow> string \<times> paper list \<Rightarrow> loop_state \<Rightarrow> loop_state" where
  "admit_gap_result env req now = (\<lambda>(q, ps) s. fst (admit_result env req now q ps s))"

definition settle_gaps :: "loop_env \<Rightarrow> loop_request \<Rightarrow> bool \<Rightarrow> loop_state \<Rightarrow> gap_closure" where
  "settle_gaps env req converged s = \<lparr>gc_state = s, gc_converged = converged, gc_gap = loop_gap env req converged s\<rparr>"

text \<open>One cycle; the second component says whether another may follow.\<close>

definition gap_cycle :: "loop_env \<Rightarrow> loop_request \<Rightarrow> int \<Rightarrow> nat \<Rightarrow> gap_closure \<Rightarrow> go_error + gap_closure \<times> bool" where
  "gap_cycle env req par k r =
     (let s = gc_state r; limit = current_search_limit env req s in
      if \<not> has_open_actionable_coverage_gaps (Some (gc_gap r)) \<or> remaining_terms env req s \<le> 0 \<or> limit \<le> 0 then Inr (r, False)
      else (let par = resolve_cooldown_aware_parallelism par (le_gap_cooldown env (Suc k));
                (qs, s) = select_gap_queries (nat (min (remaining_terms env req s) par))
                            (build_recursive_gap_follow_up_queries (le_cache env) (lr_query req) (gc_gap r) (ls_analysis s) (par + 1)) s
            in if qs = [] then Inr (r, False)
               else (let s = fold (admit_gap_result env req (le_gap_now env k))
                               (execute_loop_search_batch (le_cache env) (le_gap_search env k limit) qs) s
                     in case gap_analysis env req k (gc_converged r) s of
                          Inl e \<Rightarrow> Inl e
                        | Inr (a, converged) \<Rightarrow>
                            (let r = settle_gaps env req converged (s\<lparr>ls_analysis := Some a\<rparr>)
                             in Inr (r, \<not> converged \<or> has_open_actionable_coverage_gaps (Some (gc_gap r)))))))"

fun gap_cycles :: "loop_env \<Rightarrow> loop_request \<Rightarrow> int \<Rightarrow> nat \<Rightarrow> nat \<Rightarrow> gap_closure \<Rightarrow> go_error + gap_closure" where
  "gap_cycles env req par k 0 r = Inr r"
| "gap_cycles env req par k (Suc n) r =
     (case gap_cycle env req par k r of
        Inl e \<Rightarrow> Inl e
      | Inr (r, again) \<Rightarrow> if again then gap_cycles env req par (Suc k) n r else Inr r)"

definition close_recursive_coverage_gaps :: "loop_env \<Rightarrow> loop_request \<Rightarrow> bool \<Rightarrow> loop_state \<Rightarrow> go_error + gap_closure" where
  "close_recursive_coverage_gaps env req converged s =
     (let r = settle_gaps env req converged s;
          par = resolve_cooldown_aware_parallelism (resolve_adaptive_parallelism (lg_confidence (gc_gap r)) (lr_plane req)) (le_gap_cooldown env 0)
      in if (converged \<and> \<not> has_open_actionable_coverage_gaps (Some (gc_gap r))) \<or> loop_budget env req \<le> 0 \<or> par \<le> 0 then Inr r
         else gap_cycles env req par 0 (resolve_loop_gap_recursion_depth (lr_plane req)) r)"

definition run_research :: "loop_env \<Rightarrow> loop_request \<Rightarrow> belief_state option \<Rightarrow> go_error + gap_closure" where
  "run_research env req beliefs =
     (case run_loop env req beliefs of
        Fail e \<Rightarrow> Inl e
      | Stop converged s \<Rightarrow> close_recursive_coverage_gaps env req converged s
      | Continue s \<Rightarrow> close_recursive_coverage_gaps env req False s)"

section \<open>What an iteration keeps\<close>

definition query_keys :: "string list \<Rightarrow> string set" where
  "query_keys qs = query_key ` set qs"

definition tree_off :: "loop_env \<Rightarrow> loop_request \<Rightarrow> bool" where
  "tree_off env req \<longleftrightarrow> \<not> le_explorer env \<or> \<not> is_high_depth_research_plane (lr_plane req) \<or> lr_disable_hypotheses req"

definition loop_core :: "loop_request \<Rightarrow> loop_state \<Rightarrow> bool" where
  "loop_core req s \<longleftrightarrow>
     (0 < paper_limit req \<longrightarrow> int (length (ls_papers s)) \<le> paper_limit req)
     \<and> query_keys (ls_planned s) \<subseteq> set (ls_seen s) \<union> query_keys (ls_executed s)"

definition loop_inv :: "loop_env \<Rightarrow> loop_request \<Rightarrow> nat \<Rightarrow> loop_state \<Rightarrow> bool" where
  "loop_inv env req n s \<longleftrightarrow>
     loop_core req s \<and> (tree_off env req \<longrightarrow> int (length (ls_executed s)) \<le> max (int n) (loop_budget env req))"

lemma append_unique_keys:
  "query_keys (append_unique_loop_query e q) = (if blank q then query_keys e else insert (query_key q) (query_keys e))"
proof (cases "list_ex (\<lambda>c. query_key c = query_key q) e")
  case True
  then show ?thesis by (simp add: append_unique_loop_query_def query_keys_def list_ex_iff) (metis image_eqI insert_absorb)
next
  case False
  then show ?thesis by (simp add: append_unique_loop_query_def query_keys_def query_key_def)
qed

lemma append_unique_length: "length (append_unique_loop_query e q) \<le> Suc (length e)"
  by (simp add: append_unique_loop_query_def)

lemma append_uniques_keys:
  "query_keys (append_unique_loop_queries e qs) = query_keys e \<union> query_key ` {q \<in> set qs. \<not> blank q}"
proof (induction qs arbitrary: e)
  case Nil
  then show ?case by (simp add: append_unique_loop_queries_def)
next
  case (Cons q qs)
  have "query_key ` {x \<in> set (q # qs). \<not> blank x}
      = (if blank q then {} else {query_key q}) \<union> query_key ` {x \<in> set qs. \<not> blank x}" by auto
  then show ?case using Cons [of "append_unique_loop_query e q"]
    by (simp add: append_unique_loop_queries_def append_unique_keys)
qed

text \<open>The queue of queries leaves everything else as it is.\<close>

definition queue_step :: "loop_state \<Rightarrow> loop_state \<Rightarrow> bool" where
  "queue_step s t \<longleftrightarrow>
     ls_papers t = ls_papers s \<and> ls_iterations t = ls_iterations s \<and> ls_executed t = ls_executed s
     \<and> ls_coverage t = ls_coverage s \<and> ls_analysis t = ls_analysis s \<and> ls_hypotheses t = ls_hypotheses s
     \<and> ls_findings t = ls_findings s \<and> ls_beliefs t = ls_beliefs s
     \<and> query_keys (ls_planned t) \<subseteq> query_keys (ls_planned s) \<union> set (ls_seen t) \<and> set (ls_seen s) \<subseteq> set (ls_seen t)"

lemma queue_step_refl [simp]: "queue_step s s"
  by (simp add: queue_step_def)

lemma queue_step_trans: "queue_step s t \<Longrightarrow> queue_step t u \<Longrightarrow> queue_step s u"
  unfolding queue_step_def by (elim conjE) (intro conjI; simp; blast)

lemma queue_candidate_step: "queue_step s (fst (queue_candidate q s))"
  by (auto simp: queue_candidate_def enqueue_loop_query_def queue_step_def append_unique_keys query_key_def)

lemma queue_priority_step: "queue_step s (fst (queue_priority_candidate q s))"
  by (auto simp: queue_priority_candidate_def queue_step_def append_unique_keys query_key_def Let_def)

lemma queue_candidates_step: "queue_step s (fst (queue_candidates qs s))"
proof -
  have "queue_step s (fst p) \<Longrightarrow> queue_step s (fst (fold (\<lambda>q (s, any). case queue_candidate q s of (s, ok) \<Rightarrow> (s, any \<or> ok)) qs p))" for p
  proof (induction qs arbitrary: p)
    case (Cons q qs)
    have "queue_step s (fst (queue_candidate q (fst p)))"
      using Cons.prems queue_candidate_step queue_step_trans by blast
    then show ?case using Cons.IH by (simp add: split_beta)
  qed simp
  then show ?thesis by (simp add: queue_candidates_def)
qed

lemma loop_inv_queue: "queue_step s t \<Longrightarrow> loop_inv env req n s \<Longrightarrow> loop_inv env req n t"
  unfolding loop_inv_def loop_core_def queue_step_def by auto

lemma loop_inv_cong:
  "ls_papers t = ls_papers s \<Longrightarrow> ls_planned t = ls_planned s \<Longrightarrow> ls_seen t = ls_seen s \<Longrightarrow> ls_executed t = ls_executed s
    \<Longrightarrow> loop_inv env req n t = loop_inv env req n s"
  by (simp add: loop_inv_def loop_core_def)

lemma sanitize_length: "length (sanitize_retrieved_papers ps) \<le> length ps"
  by (induction ps) (auto simp: sanitize_retrieved_papers_def map_filter_simps split: option.splits)

lemma admitted_within_budget:
  assumes "0 < limit"
  shows "int (length (fst (append_unique_within_budget ex inc limit))) \<le> max (int (length ex)) limit"
proof -
  let ?e = "sanitize_retrieved_papers ex" and ?i = "sanitize_retrieved_papers inc"
  let ?a = "\<lparr>ad_merged = ?e, ad_admitted = [], ad_seen = filter (\<lambda>k. k \<noteq> []) (map search_paper_dedup_key ?e), ad_offered = []\<rparr>"
  have "admission_inv ?e limit (set ?i) (fold (admit_paper limit) ?i ?a)"
    by (rule fold_admit_inv) (simp_all add: admission_inv_def merged_keys_def)
  then have "int (length (ad_merged (fold (admit_paper limit) ?i ?a))) \<le> max (int (length ?e)) limit"
    using assms by (simp add: admission_inv_def)
  then show ?thesis using sanitize_length [of ex] by (auto simp: append_unique_within_budget_def Let_def)
qed

lemma admit_result_core:
  assumes "loop_core req s"
  shows "loop_core req (fst (admit_result env req now q ps s))"
    and "length (ls_executed (fst (admit_result env req now q ps s))) \<le> Suc (length (ls_executed s))"
    and "ls_iterations (fst (admit_result env req now q ps s)) = ls_iterations s"
    and "ls_seen (fst (admit_result env req now q ps s)) = ls_seen s"
    and "ls_beliefs (fst (admit_result env req now q ps s)) = ls_beliefs s"
    and "query_keys (ls_executed (fst (admit_result env req now q ps s))) \<subseteq> insert (query_key q) (query_keys (ls_executed s))"
    and "ls_planned (fst (admit_result env req now q ps s)) = ls_planned s"
proof -
  show "loop_core req (fst (admit_result env req now q ps s))"
    using assms admitted_within_budget [of "paper_limit req" "ls_papers s"
        "filter_papers_by_retrieval_relevance (le_cache env) now (lr_query req) q ps"]
    by (auto simp: loop_core_def admit_result_def admit_search_papers_for_retrieval_query_def split_beta append_unique_keys)
qed (simp_all add: admit_result_def split_beta append_unique_length append_unique_keys subset_insertI)

lemma admit_results_core:
  assumes "loop_core req s"
  shows "loop_core req (fst (admit_results env req i rs s))
    \<and> length (ls_executed (fst (admit_results env req i rs s))) \<le> length (ls_executed s) + length rs
    \<and> ls_iterations (fst (admit_results env req i rs s)) = ls_iterations s"
  using assms
proof (induction rs arbitrary: s)
  case (Cons r rs)
  obtain q ps where r: "r = (q, ps)" by force
  define t where "t = fst (admit_result env req (le_now env i) q ps s)"
  have t: "loop_core req t" "length (ls_executed t) \<le> Suc (length (ls_executed s))" "ls_iterations t = ls_iterations s"
    unfolding t_def using admit_result_core [OF Cons.prems] by blast+
  show ?case using Cons.IH [OF t(1)] t by (auto simp: r split_beta t_def [symmetric])
qed simp

text \<open>The cache of prepared queries has no entry for the empty query: keys are stored trimmed and without blanks.\<close>

lemma prepare_empty: "cache [] = None \<Longrightarrow> prepare_search_query_text cache [] = []"
proof -
  have "trim_space (prepare_for_provider_search []) = []" by code_simp
  then show "cache [] = None \<Longrightarrow> prepare_search_query_text cache [] = []"
    by (simp add: prepare_search_query_text_def apply_research_query_corrections_def)
qed

lemma uniq_by_length: "length (uniq_by f seen xs) \<le> length xs"
  by (induction xs arbitrary: seen) (auto simp: le_SucI)

lemma uniq_by_subset: "set (uniq_by f seen xs) \<subseteq> set xs"
  by (induction xs arbitrary: seen) auto

lemma normalized_length: "cache [] = None \<Longrightarrow> length (normalize_loop_queries cache [] qs) \<le> length qs"
  by (simp add: normalize_loop_queries_def prepare_empty)
    (metis le_trans uniq_by_length length_filter_le length_map)

lemma batch_length: "cache [] = None \<Longrightarrow> length (execute_loop_search_batch cache search qs) \<le> length qs"
  by (simp add: execute_loop_search_batch_def normalized_length)

lemma normalized_trimmed: "q \<in> set (normalize_loop_queries cache primary seeds) \<Longrightarrow> trim_space q = q"
  by (auto simp: normalize_loop_queries_def prepare_search_query_text_def simp del: uniq_by.simps
      dest!: subsetD [OF uniq_by_subset] split: if_splits)

lemma append_unique_trimmed:
  "\<forall>q \<in> set e. trim_space q = q \<Longrightarrow> \<forall>q \<in> set (append_unique_loop_queries e qs). trim_space q = q"
proof (induction qs arbitrary: e)
  case (Cons q qs)
  have "\<forall>x \<in> set (append_unique_loop_query e q). trim_space x = x"
    using Cons.prems by (auto simp: append_unique_loop_query_def)
  then show ?case using Cons.IH by (simp add: append_unique_loop_queries_def)
qed (simp add: append_unique_loop_queries_def)

lemma agenda_trimmed: "\<forall>q \<in> set (loop_agenda env req). trim_space q = q"
  using append_unique_trimmed [OF append_unique_trimmed] normalized_trimmed
  unfolding loop_agenda_def build_research_agenda_queries_def Let_def by (simp split: if_split) blast

text \<open>The steps before the retrieval; \<open>same_run\<close> is what they all keep.\<close>

definition same_run :: "loop_state \<Rightarrow> loop_state \<Rightarrow> bool" where
  "same_run s t \<longleftrightarrow>
     ls_papers t = ls_papers s \<and> ls_iterations t = ls_iterations s \<and> ls_executed t = ls_executed s
     \<and> query_keys (ls_planned t) \<subseteq> query_keys (ls_planned s) \<union> set (ls_seen t) \<and> set (ls_seen s) \<subseteq> set (ls_seen t)"

lemma same_run_refl [simp]: "same_run s s"
  by (simp add: same_run_def)

lemma same_run_trans: "same_run s t \<Longrightarrow> same_run t u \<Longrightarrow> same_run s u"
  unfolding same_run_def by (elim conjE) (intro conjI; simp; blast)

lemma same_run_queue: "queue_step s t \<Longrightarrow> same_run s t"
  by (simp add: same_run_def queue_step_def)

lemma same_run_inv: "same_run s t \<Longrightarrow> loop_inv env req n s \<Longrightarrow> loop_inv env req n t"
  unfolding loop_inv_def loop_core_def same_run_def by auto

lemma same_run_core: "same_run s t \<Longrightarrow> loop_core req s \<Longrightarrow> loop_core req t"
  unfolding loop_core_def same_run_def by auto

lemma same_run_updates [simp]:
  "same_run s (t\<lparr>ls_beliefs := bs\<rparr>) = same_run s t" "same_run s (t\<lparr>ls_pending := p\<rparr>) = same_run s t"
  "same_run s (t\<lparr>ls_analysis := a\<rparr>) = same_run s t" "same_run s (t\<lparr>ls_findings := f\<rparr>) = same_run s t"
  "same_run s (t\<lparr>ls_hypotheses := h\<rparr>) = same_run s t"
  "same_run (s\<lparr>ls_analysis := a\<rparr>) t = same_run s t" "same_run (s\<lparr>ls_beliefs := bs\<rparr>) t = same_run s t"
  by (simp_all add: same_run_def)

lemma same_run_fold: "(\<And>x t. same_run t (f x t)) \<Longrightarrow> same_run s (fold f xs s)"
proof (induction xs arbitrary: s)
  case (Cons x xs)
  then show ?case using same_run_trans [of s "f x s"] by simp
qed simp

lemma same_run_fold_fst: "(\<And>x p. same_run (fst p) (fst (f x p))) \<Longrightarrow> same_run (fst p) (fst (fold f xs p))"
proof (induction xs arbitrary: p)
  case (Cons x xs)
  then show ?case using same_run_trans [of "fst p" "fst (f x p)"] by simp
qed simp

lemmas queue_same_run =
  queue_candidate_step [THEN same_run_queue] queue_priority_step [THEN same_run_queue] queue_candidates_step [THEN same_run_queue]

lemma hear_operator_same_run: "same_run s (hear_operator env i s)"
  by (simp add: hear_operator_def split: option.split prod.split)

lemma consume_feedback_same_run: "same_run s (consume_feedback env req d s)"
  unfolding consume_feedback_def Let_def by (rule same_run_fold) (rule queue_same_run)

lemma prune_pending_same_run: "same_run s (prune_pending s)"
  by (simp add: prune_pending_def split: option.split)

lemma reason_same_run: "same_run s (reason env req i ans gap queryid s)"
  by (simp add: reason_def Let_def)

lemma bootstrap_same_run: "same_run s (bootstrap_hypotheses env req i fs s)"
  by (simp add: bootstrap_hypotheses_def reason_same_run)

lemma enqueue_exhaustive_same_run: "same_run s (fst (enqueue_exhaustive req s))"
proof -
  define f :: "string \<Rightarrow> (string list \<times> string list) \<times> bool \<Rightarrow> (string list \<times> string list) \<times> bool" where
    "f = (\<lambda>q (ps, any). case enqueue_loop_query q ps of (ps, ok) \<Rightarrow> (ps, any \<or> ok))"
  have step: "set (snd (fst x)) \<subseteq> set (snd (fst (f q x)))" for q x
    by (cases x) (auto simp: f_def enqueue_loop_query_def split: prod.split)
  have "set (snd (fst x)) \<subseteq> set (snd (fst (fold f qs x)))" for qs x
  proof (induction qs arbitrary: x)
    case (Cons q qs)
    then show ?case using step [of x q] by (simp add: subset_trans)
  qed simp
  from this [of "((ls_pending s, ls_seen s), False)" "exhaustive_candidates req (ls_executed s)"]
  show ?thesis by (auto simp: enqueue_exhaustive_def same_run_def f_def [symmetric] split: prod.split)
qed

lemma take_batch_props:
  "same_run s (snd (take_batch n s))" "int (length (fst (take_batch n s))) \<le> max 0 n"
  by (auto simp: take_batch_def next_loop_query_batch_def split: prod.split)

lemma next_batch_props:
  "same_run s (snd (next_batch env req n s))" "int (length (fst (next_batch env req n s))) \<le> max 0 n"
proof -
  let ?t = "snd (take_batch n s)"
  let ?u = "fst (enqueue_exhaustive req ?t)"
  have t: "same_run s ?t" "same_run s ?u"
    using take_batch_props(1) enqueue_exhaustive_same_run same_run_trans by (force, force)
  show "same_run s (snd (next_batch env req n s))" "int (length (fst (next_batch env req n s))) \<le> max 0 n"
    using t same_run_trans [OF t(2) take_batch_props(1)] take_batch_props(2) [of n s] take_batch_props(2) [of n ?u]
    by (auto simp: next_batch_def split_beta)
qed

lemma control_beliefs_same_run: "same_run s (fst (control_beliefs env req i fs before s))"
proof -
  have r: "same_run (fst p) (fst (queue_rebuttal cap x p))" for cap x p
    by (cases p; cases x) (auto simp: queue_rebuttal_def split_beta queue_same_run)
  have r: "same_run s (fst (fold (queue_rebuttal cap) xs (s, 0)))" for cap xs
    using same_run_fold_fst [of "queue_rebuttal cap", OF r] by (metis fst_conv)
  have q1: "same_run s t \<Longrightarrow> same_run s (fst (queue_candidates qs (t\<lparr>ls_beliefs := b\<rparr>)))" for t qs b
    by (rule same_run_trans [OF _ queue_same_run(3)]) simp
  have q2: "same_run s t \<Longrightarrow> same_run s (fst (queue_candidate q t))" for t q
    by (rule same_run_trans [OF _ queue_same_run(1)])
  show ?thesis
    unfolding control_beliefs_def Let_def split_beta
    by (auto intro!: q1 q2 r)
qed

text \<open>The tree, the batch and the judgement.\<close>

lemma commit_tree_core:
  assumes "loop_core req s"
  shows "loop_core req (commit_tree env req i tree s) \<and> ls_iterations (commit_tree env req i tree s) = ls_iterations s"
proof (cases "tr_merge_candidate tree")
  case None
  then show ?thesis using assms by (auto simp: commit_tree_def Let_def loop_core_def append_uniques_keys)
next
  case (Some m)
  then show ?thesis
    using assms admitted_within_budget [of "paper_limit req" "ls_papers s"
        "filter_papers_by_query_relevance (le_cache env) (le_now env i) (lr_query req) (mb_papers m)"]
    by (auto simp: commit_tree_def Let_def loop_core_def append_uniques_keys admit_search_papers_for_query_def)
qed

lemma explore_tree_core:
  assumes "loop_core req s"
  shows "loop_core req (explore_tree env req i par limit s) \<and> ls_iterations (explore_tree env req i par limit s) = ls_iterations s"
proof -
  have h: "loop_core req (s\<lparr>ls_hypotheses := h\<rparr>)" for h using assms by (simp add: loop_core_def)
  show ?thesis
    using commit_tree_core [OF h] commit_tree_core [OF assms]
    by (simp add: explore_tree_def Let_def split_beta)
qed

lemma tree_phase_core:
  assumes "loop_core req s" "tree_phase env req i par limit s = (t, found, conv)"
  shows "loop_core req t" "ls_iterations t = ls_iterations s" "conv \<Longrightarrow> should_converge_by_belief_state (ls_beliefs t) \<and> minimum_met env req t"
    "tree_off env req \<Longrightarrow> t = s"
proof -
  have r: "loop_core req (reason env req i (le_tree_reason env i) None [] s)"
    "ls_iterations (reason env req i (le_tree_reason env i) None [] s) = ls_iterations s"
    using same_run_core [OF reason_same_run assms(1)] reason_same_run [of s] by (auto simp: same_run_def)
  show "loop_core req t" "ls_iterations t = ls_iterations s"
    "conv \<Longrightarrow> should_converge_by_belief_state (ls_beliefs t) \<and> minimum_met env req t"
    using assms r explore_tree_core [OF r(1)] by (auto simp: tree_phase_def Let_def split: if_splits)
  show "tree_off env req \<Longrightarrow> t = s"
    using assms(2) by (auto simp: tree_phase_def tree_phase_active_def tree_off_def)
qed

fun step_state :: "loop_step \<Rightarrow> loop_state option" where
  "step_state (Continue s) = Some s"
| "step_state (Stop b s) = Some s"
| "step_state (Fail e) = None"

text \<open>Why a loop may say that it converged.\<close>

definition saturated_on :: "evidence_finding list \<Rightarrow> loop_state \<Rightarrow> bool" where
  "saturated_on fs s \<longleftrightarrow> fs \<noteq> [] \<and> (\<exists>l. ls_beliefs s = Some l \<and> sr_is_saturated (detect_evidence_saturation fs l))"

text \<open>The findings of the batch that the iteration searches: one for every paper it admits.\<close>

definition findings_of_batch :: "loop_env \<Rightarrow> loop_request \<Rightarrow> nat \<Rightarrow> int \<Rightarrow> int \<Rightarrow> int \<Rightarrow> loop_state \<Rightarrow> evidence_finding list" where
  "findings_of_batch env req i par remaining limit u =
     (case next_batch env req (min par remaining) u of
        (b, v) \<Rightarrow> snd (admit_results env req i (execute_loop_search_batch (le_cache env) (le_search env i limit) b) v))"

definition findings_of_iteration :: "loop_env \<Rightarrow> loop_request \<Rightarrow> nat \<Rightarrow> loop_decision \<Rightarrow> loop_state \<Rightarrow> evidence_finding list" where
  "findings_of_iteration env req i d s =
     (let s = s\<lparr>ls_iterations := Suc (ls_iterations s)\<rparr>;
          remaining = remaining_terms env req s;
          s = prune_pending (consume_feedback env req d s);
          par = current_parallelism env req i s;
          limit = current_search_limit env req s
      in findings_of_batch env req i par remaining limit (fst (tree_phase env req i par limit s)))"

definition batch_findings :: "loop_env \<Rightarrow> loop_request \<Rightarrow> nat \<Rightarrow> loop_state \<Rightarrow> evidence_finding list" where
  "batch_findings env req i s =
     (let s = hear_operator env i s
      in findings_of_iteration env req i
           (belief_driven_continuation (ls_beliefs s) (loop_budget env req) (int (length (ls_executed s)))) s)"

text \<open>The state in which the iteration \<open>i\<close> of a run starts.\<close>

fun loop_at :: "loop_env \<Rightarrow> loop_request \<Rightarrow> belief_state option \<Rightarrow> nat \<Rightarrow> loop_state option" where
  "loop_at env req beliefs 0 = Some (loop_start env req beliefs)"
| "loop_at env req beliefs (Suc i) =
     (case loop_at env req beliefs i of
        None \<Rightarrow> None
      | Some s \<Rightarrow> (case loop_iteration env req i s of Continue t \<Rightarrow> Some t | _ \<Rightarrow> None))"

text \<open>The findings of the last iteration's own batch saturate the beliefs that the run ends with.\<close>

definition saturated_by :: "loop_env \<Rightarrow> loop_request \<Rightarrow> belief_state option \<Rightarrow> loop_state \<Rightarrow> bool" where
  "saturated_by env req beliefs s \<longleftrightarrow>
     (\<exists>i w. ls_iterations s = Suc i \<and> loop_at env req beliefs i = Some w \<and> saturated_on (batch_findings env req i w) s)"

definition settled_beliefs :: "loop_env \<Rightarrow> loop_request \<Rightarrow> loop_state \<Rightarrow> bool" where
  "settled_beliefs env req s \<longleftrightarrow>
     should_converge_by_belief_state (ls_beliefs s)
     \<or> ld_reason (belief_driven_continuation (ls_beliefs s) (loop_budget env req) (int (length (ls_executed s)))) = ''belief convergence''"

definition found_sufficient :: "loop_state \<Rightarrow> bool" where
  "found_sufficient s \<longleftrightarrow> (\<exists>a. ls_analysis s = Some a \<and> sa_sufficient a)"

definition convergence_ok :: "loop_env \<Rightarrow> loop_request \<Rightarrow> bool \<Rightarrow> loop_state \<Rightarrow> bool" where
  "convergence_ok env req saturated s \<longleftrightarrow>
     minimum_met env req s \<and> (settled_beliefs env req s \<or> saturated \<or> found_sufficient s)
     \<or> int (ls_iterations s) = loop_max_iterations env req \<and> found_sufficient s
     \<or> paper_budget_reached req s"

lemma control_beliefs_ledger:
  assumes "refute_beliefs_contradicted_by_evidence (le_now env i) fs (7 / 10)
      (recalculate_confidence (le_now env i) (findings_by_id fs) before) = (l, r)"
  shows "ls_beliefs (fst (control_beliefs env req i fs before s)) = Some l"
proof -
  have q: "ls_beliefs (fst (queue_candidates qs t)) = ls_beliefs t" "ls_beliefs (fst (queue_candidate x t)) = ls_beliefs t" for qs t x
    using queue_candidates_step [of t qs] queue_candidate_step [of t x] by (simp_all add: queue_step_def)
  show ?thesis by (simp add: control_beliefs_def Let_def assms q)
qed

lemma control_beliefs_saturated:
  assumes "snd (control_beliefs env req i fs before s)" "fs \<noteq> []"
  shows "minimum_met env req (fst (control_beliefs env req i fs before s)) \<and> saturated_on fs (fst (control_beliefs env req i fs before s))"
proof -
  obtain l r where l: "refute_beliefs_contradicted_by_evidence (le_now env i) fs (7 / 10)
      (recalculate_confidence (le_now env i) (findings_by_id fs) before) = (l, r)" by force
  show ?thesis
    using assms control_beliefs_ledger [OF l, of req s]
    by (auto simp: control_beliefs_def Let_def l saturated_on_def split: if_splits)
qed

lemma batch_phase_core:
  assumes "loop_inv env req n s" "le_cache env [] = None" "remaining = remaining_terms env req s"
    and "tree_off env req \<Longrightarrow> s' = s" "loop_core req s'" "ls_iterations s' = ls_iterations s"
    and "step_state (batch_phase env req i par remaining limit s') = Some t"
  shows "loop_inv env req n t" "ls_iterations t = ls_iterations s"
    "batch_phase env req i par remaining limit s' = Stop True t \<Longrightarrow>
       minimum_met env req t \<and> saturated_on (findings_of_batch env req i par remaining limit s') t"
proof -
  obtain b u where b: "next_batch env req (min par remaining) s' = (b, u)" by force
  have u: "same_run s' u" "int (length b) \<le> max 0 (min par remaining)"
    using next_batch_props [where s = s' and env = env and req = req and n = "min par remaining"] b by auto
  define rs where "rs = execute_loop_search_batch (le_cache env) (le_search env i limit) b"
  obtain v fs where v: "admit_results env req i rs u = (v, fs)" by force
  have rs: "length rs \<le> length b" unfolding rs_def using assms(2) by (rule batch_length)
  have cu: "loop_core req u" using u(1) assms(5) by (rule same_run_core)
  have cv: "loop_core req v" "length (ls_executed v) \<le> length (ls_executed u) + length rs" "ls_iterations v = ls_iterations u"
    using admit_results_core [OF cu, of env i rs] v by auto
  have iv: "loop_inv env req n v"
  proof -
    have "int (length (ls_executed v)) \<le> max (int n) (loop_budget env req)" if "tree_off env req"
      using that assms(1,3,4) u cv(2) rs by (auto simp: loop_inv_def same_run_def remaining_terms_def)
    then show ?thesis using cv(1) by (simp add: loop_inv_def)
  qed
  have iu: "loop_inv env req n u"
    using cu assms(1,4) u(1) by (auto simp: loop_inv_def same_run_def)
  obtain w sat where w: "(case ls_beliefs v of Some l \<Rightarrow> if fs = [] then (v, False) else control_beliefs env req i fs l v
      | None \<Rightarrow> (v, False)) = (w, sat)" by force
  have fs: "findings_of_batch env req i par remaining limit s' = fs"
    using v by (simp add: findings_of_batch_def b rs_def)
  have sw: "same_run v w" "sat \<Longrightarrow> minimum_met env req w \<and> saturated_on fs w"
  proof -
    show "same_run v w" using w control_beliefs_same_run [of v env req i fs] by (auto split: option.splits if_splits) (metis fst_conv)
    show "sat \<Longrightarrow> minimum_met env req w \<and> saturated_on fs w"
      using w control_beliefs_saturated [of env req i fs] by (auto split: option.splits if_splits) (metis fst_conv snd_conv)+
  qed
  have it: "ls_iterations w = ls_iterations s" "ls_iterations u = ls_iterations s"
    using sw(1) cv(3) u(1) assms(6) by (auto simp: same_run_def)
  have iw: "loop_inv env req n w" "loop_inv env req n (bootstrap_hypotheses env req i fs w)"
    using same_run_inv [OF sw(1) iv] same_run_inv [OF bootstrap_same_run] by blast+
  have ib: "ls_iterations (bootstrap_hypotheses env req i fs w) = ls_iterations s"
    using bootstrap_same_run [of w env req i fs] it(1) by (simp add: same_run_def)
  have e: "batch_phase env req i par remaining limit s' = (if b = [] then Stop False u
      else if sat then Stop True w else Continue (bootstrap_hypotheses env req i fs w))"
    using w v by (cases b) (simp_all add: batch_phase_def b rs_def)
  show "loop_inv env req n t" "ls_iterations t = ls_iterations s"
    "batch_phase env req i par remaining limit s' = Stop True t \<Longrightarrow>
       minimum_met env req t \<and> saturated_on (findings_of_batch env req i par remaining limit s') t"
    using assms(7) e iu iw it ib sw(2) unfolding fs by (auto split: if_splits)
qed

lemma judge_evidence_core:
  assumes "loop_inv env req n s" "step_state (judge_evidence env req i s) = Some t"
  shows "loop_inv env req n t \<and> ls_iterations t = ls_iterations s"
proof -
  have f: "same_run s (follow_up env req i a s)" for a
  proof -
    have q: "same_run s t \<Longrightarrow> same_run s (fst (queue_candidates qs t))" for t qs
      by (rule same_run_trans [OF _ queue_same_run(3)])
    have p: "same_run s (snd (apply_qualitative env req i (a, t)))" if "same_run s t" for a t
      using q [OF that] that by (simp add: apply_qualitative_def Let_def split: option.split)
    show ?thesis unfolding follow_up_def Let_def split_beta by (auto intro!: q p)
  qed
  have "same_run s t"
    using assms(2) f
    by (auto simp: judge_evidence_def judged_def unjudged_def Let_def split: if_splits sum.splits option.splits prod.splits)
  then show ?thesis using same_run_inv assms(1) by (auto simp: same_run_def)
qed

lemma judge_evidence_converged:
  assumes "judge_evidence env req i s = Stop True t" "ls_iterations s = Suc i"
  shows "convergence_ok env req saturated t"
proof -
  have m: "minimum_met env req (s\<lparr>ls_analysis := x\<rparr>) = minimum_met env req s"
    "paper_budget_reached req (s\<lparr>ls_analysis := x\<rparr>) = paper_budget_reached req s" for x
    by (simp_all add: minimum_met_def paper_budget_reached_def)
  have "sa_sufficient b" if "confirm_borderline_sufficiency o' a = (True, b)" for o' a b
    using that by (auto simp: confirm_borderline_sufficiency_def split: if_splits option.splits sum.splits)
  then show ?thesis
    using assms m
    by (auto simp: judge_evidence_def judged_def unjudged_def convergence_ok_def settled_beliefs_def found_sufficient_def Let_def
        split: if_splits sum.splits option.splits prod.splits)
qed

lemma research_iteration_core:
  assumes "loop_inv env req n s" "le_cache env [] = None" "ls_iterations s = i"
    and "step_state (research_iteration env req i d s) = Some t"
  shows "loop_inv env req n t \<and> ls_iterations t = Suc i"
    and "research_iteration env req i d s = Stop True t \<Longrightarrow>
           convergence_ok env req (saturated_on (findings_of_iteration env req i d s) t) t"
proof -
  define u where "u = prune_pending (consume_feedback env req d (s\<lparr>ls_iterations := Suc (ls_iterations s)\<rparr>))"
  have su: "same_run (s\<lparr>ls_iterations := Suc (ls_iterations s)\<rparr>) u"
    unfolding u_def using consume_feedback_same_run prune_pending_same_run same_run_trans by blast
  have s1: "loop_inv env req n (s\<lparr>ls_iterations := Suc (ls_iterations s)\<rparr>)"
    using assms(1) by (simp cong: loop_inv_cong)
  have iu: "loop_inv env req n u" "ls_iterations u = Suc i" "ls_executed u = ls_executed s"
    using same_run_inv [OF su s1] su assms(3) by (auto simp: same_run_def)
  let ?par = "current_parallelism env req i u" and ?limit = "current_search_limit env req u" and ?r = "remaining_terms env req u"
  obtain v found conv where v: "tree_phase env req i ?par ?limit u = (v, found, conv)" by (metis prod_cases3)
  have cu: "loop_core req u" using iu(1) by (simp add: loop_inv_def)
  note tp = tree_phase_core [OF cu v]
  have iv: "loop_inv env req n v" using tp(1,4) iu(1) by (auto simp: loop_inv_def)
  note bp = batch_phase_core [OF iu(1) assms(2) refl tp(4,1,2)]
  have e: "research_iteration env req i d s = (if ?limit \<le> 0 then Stop False u else if conv then Stop True v
     else if found \<noteq> 0 then judge_evidence env req i v
     else case batch_phase env req i ?par ?r ?limit v of Continue w \<Rightarrow> judge_evidence env req i w | r \<Rightarrow> r)"
    using v su by (simp add: research_iteration_def Let_def u_def [symmetric] remaining_terms_def same_run_def)
  have iv2: "ls_iterations v = Suc i" using tp(2) iu(2) by simp
  let ?fs = "findings_of_iteration env req i d s"
  have fs: "?fs = findings_of_batch env req i ?par ?r ?limit v"
    using v su by (simp add: findings_of_iteration_def Let_def u_def [symmetric] remaining_terms_def same_run_def)
  have "(loop_inv env req n t \<and> ls_iterations t = Suc i)
    \<and> (research_iteration env req i d s = Stop True t \<longrightarrow> convergence_ok env req (saturated_on ?fs t) t)"
  proof (cases "?limit \<le> 0 \<or> conv \<or> found \<noteq> 0")
    case True
    moreover have "conv \<Longrightarrow> convergence_ok env req (saturated_on ?fs v) v" using tp(3) by (simp add: convergence_ok_def settled_beliefs_def)
    ultimately show ?thesis
      using assms(4) iu iv iv2 judge_evidence_core [OF iv, of i t] judge_evidence_converged [of env req i v t]
      by (auto simp: e split: if_splits)
  next
    case False
    show ?thesis
    proof (cases "batch_phase env req i ?par ?r ?limit v")
      case (Continue w)
      then have w: "loop_inv env req n w" "ls_iterations w = Suc i" using bp(1,2) [of i ?par ?limit w] iu(2) by auto
      then show ?thesis
        using assms(4) False Continue judge_evidence_core [OF w(1), of i t] judge_evidence_converged [of env req i w t]
        by (simp add: e)
    next
      case (Stop b w)
      then show ?thesis
        using assms(4) False bp [of i ?par ?limit w] iu(2) by (auto simp: e convergence_ok_def fs)
    next
      case (Fail x)
      then show ?thesis using assms(4) False by (simp add: e)
    qed
  qed
  then show "loop_inv env req n t \<and> ls_iterations t = Suc i"
    "research_iteration env req i d s = Stop True t \<Longrightarrow> convergence_ok env req (saturated_on ?fs t) t" by blast+
qed

lemma loop_iteration_core:
  assumes "loop_inv env req n s" "le_cache env [] = None" "ls_iterations s = i"
    and "step_state (loop_iteration env req i s) = Some t"
  shows "loop_inv env req n t \<and> ls_iterations t \<le> Suc i"
    and "loop_iteration env req i s = Continue t \<Longrightarrow> ls_iterations t = Suc i"
    and "loop_iteration env req i s = Stop True t \<Longrightarrow>
           convergence_ok env req (ls_iterations t = Suc i \<and> saturated_on (batch_findings env req i s) t) t"
proof -
  have h: "loop_inv env req n (hear_operator env i s)" "ls_iterations (hear_operator env i s) = i"
    using same_run_inv [OF hear_operator_same_run assms(1)] hear_operator_same_run [of s] assms(3) by (auto simp: same_run_def)
  note r = research_iteration_core [OF h(1) assms(2) h(2)]
  show "loop_inv env req n t \<and> ls_iterations t \<le> Suc i"
    using assms(4) h r(1) by (auto simp: loop_iteration_def Let_def split: if_splits)
  show "loop_iteration env req i s = Continue t \<Longrightarrow> ls_iterations t = Suc i"
    using r(1) [where t = t and d = "belief_driven_continuation (ls_beliefs (hear_operator env i s))
        (loop_budget env req) (int (length (ls_executed (hear_operator env i s))))"]
    by (auto simp: loop_iteration_def Let_def split: if_splits)
  let ?d = "belief_driven_continuation (ls_beliefs (hear_operator env i s))
      (loop_budget env req) (int (length (ls_executed (hear_operator env i s))))"
  assume stop: "loop_iteration env req i s = Stop True t"
  show "convergence_ok env req (ls_iterations t = Suc i \<and> saturated_on (batch_findings env req i s) t) t"
  proof (cases "\<not> ld_should_continue ?d \<and> minimum_met env req (hear_operator env i s)")
    case True
    then show ?thesis using stop by (auto simp: loop_iteration_def Let_def convergence_ok_def settled_beliefs_def)
  next
    case False
    then have "research_iteration env req i ?d (hear_operator env i s) = Stop True t"
      using stop by (simp add: loop_iteration_def Let_def split: if_splits)
    then show ?thesis using r [of ?d t] by (simp add: batch_findings_def Let_def)
  qed
qed

lemma run_iterations_core:
  assumes "loop_inv env req n s" "le_cache env [] = None" "ls_iterations s = i" "loop_at env req beliefs i = Some s"
    and "step_state (run_iterations env req i m s) = Some t"
  shows "loop_inv env req n t \<and> ls_iterations t \<le> i + m
    \<and> (run_iterations env req i m s = Stop True t \<longrightarrow> convergence_ok env req (saturated_by env req beliefs t) t)
    \<and> run_iterations env req i m s \<noteq> Continue t"
  using assms
proof (induction m arbitrary: i s)
  case (Suc m)
  note c = loop_iteration_core [OF Suc.prems(1,2,3)]
  show ?case
  proof (cases "loop_iteration env req i s")
    case (Continue u)
    then have "loop_inv env req n u" "ls_iterations u = Suc i" "loop_at env req beliefs (Suc i) = Some u"
      using c(1,2) [of u] Suc.prems(4) by auto
    then show ?thesis using Suc.IH [OF _ Suc.prems(2)] Suc.prems(5) Continue by fastforce
  next
    case (Stop b u)
    have "convergence_ok env req (ls_iterations u = Suc i \<and> saturated_on (batch_findings env req i s) u) u
        \<Longrightarrow> convergence_ok env req (saturated_by env req beliefs u) u"
      using Suc.prems(4) by (auto simp: convergence_ok_def saturated_by_def)
    then show ?thesis using c [of u] Suc.prems(5) Stop by auto
  qed (use Suc.prems(5) in simp)
qed simp

section \<open>A whole run\<close>

lemma seed_hypotheses_same_run: "same_run s (seed_hypotheses env req s)"
proof -
  have p: "same_run (fst x) (fst (seed_probe cap q x))" for cap q x
    by (cases x) (auto simp: seed_probe_def split_beta queue_same_run)
  have f: "same_run s (fst (fold (seed_probe cap) qs (t, 0)))" if "same_run s t" for cap qs t
    using same_run_trans [OF that] same_run_fold_fst [of "seed_probe cap" "(t, 0)", OF p] by simp
  show ?thesis by (simp add: seed_hypotheses_def Let_def f)
qed

lemma loop_start_inv:
  "loop_inv env req (length (normalize_loop_queries (le_cache env) [] (lr_initial_executed req))) (loop_start env req beliefs)"
  "ls_iterations (loop_start env req beliefs) = 0"
proof -
  let ?p = "fst (admit_search_papers_for_query (le_cache env) (le_now env 0) [] (lr_query req) (lr_initial_papers req) (paper_limit req))"
  let ?e = "normalize_loop_queries (le_cache env) [] (lr_initial_executed req)"
  define s where "s = \<lparr>ls_papers = ?p, ls_iterations = 0, ls_executed = ?e, ls_coverage = clone_loop_query_coverage (lr_initial_coverage req),
      ls_planned = loop_agenda env req, ls_pending = filter_unexecuted_loop_queries (loop_agenda env req) ?e,
      ls_seen = map to_lower (loop_agenda env req), ls_analysis = None, ls_hypotheses = [], ls_findings = [],
      ls_beliefs = beliefs, ls_branches = []\<rparr>"
  have e: "loop_start env req beliefs = seed_hypotheses env req s" by (simp add: loop_start_def s_def Let_def)
  have "query_keys (loop_agenda env req) \<subseteq> set (map to_lower (loop_agenda env req))"
    using agenda_trimmed by (auto simp: query_keys_def query_key_def)
  moreover have "0 < paper_limit req \<Longrightarrow> int (length ?p) \<le> paper_limit req"
    using admitted_within_budget [of "paper_limit req" "[]"] by (simp add: admit_search_papers_for_query_def)
  ultimately have "loop_inv env req (length ?e) s" by (auto simp: loop_inv_def loop_core_def s_def)
  then show "loop_inv env req (length ?e) (loop_start env req beliefs)"
    unfolding e by (rule same_run_inv [OF seed_hypotheses_same_run])
  show "ls_iterations (loop_start env req beliefs) = 0"
    using seed_hypotheses_same_run [of s env req] by (simp add: e same_run_def s_def)
qed

lemma select_gap_queries_props:
  assumes "select_gap_queries m cs s = (ts, t)"
  shows "same_run s t" "length ts \<le> max 1 m" "\<forall>q \<in> set ts. query_key q \<notin> set (ls_seen s)"
    "ls_analysis t = ls_analysis s" "distinct (map query_key ts)"
    "set ts \<subseteq> trim_space ` set cs" "set (ls_planned s) \<subseteq> set (ls_planned t)"
proof -
  have "same_run s t \<and> length ts \<le> max 1 m \<and> (\<forall>q \<in> set ts. query_key q \<notin> set (ls_seen s))
    \<and> ls_analysis t = ls_analysis s \<and> distinct (map query_key ts)
    \<and> set ts \<subseteq> trim_space ` set cs \<and> set (ls_planned s) \<subseteq> set (ls_planned t)"
    using assms
  proof (induction m cs s arbitrary: ts t rule: select_gap_queries.induct)
    case (2 m c cs s)
    define u where "u = s\<lparr>ls_seen := query_key c # ls_seen s, ls_planned := append_unique_loop_query (ls_planned s) (trim_space c)\<rparr>"
    have u: "\<not> blank c \<Longrightarrow> same_run s u" "set (ls_seen u) = insert (query_key c) (set (ls_seen s))" "ls_analysis u = ls_analysis s"
      by (auto simp: u_def same_run_def append_unique_keys query_key_def)
    have up: "set (ls_planned s) \<subseteq> set (ls_planned u)" by (auto simp: u_def append_unique_loop_query_def)
    show ?case
    proof (cases "blank c \<or> query_key c \<in> set (ls_seen s)")
      case True
      then show ?thesis using 2 by (auto simp: Let_def query_key_def)
    next
      case new: False
      obtain us v where v: "select_gap_queries (m - 1) cs u = (us, v)" by force
      have k: "query_key (trim_space c) = query_key c" by (simp add: query_key_def)
      show ?thesis
      proof (cases "m \<le> 1")
        case True
        then have r: "ts = [trim_space c]" "t = u" using 2(3) new by (auto simp: Let_def query_key_def u_def)
        show ?thesis using new u up k by (auto simp: r)
      next
        case False
        then have r: "ts = trim_space c # us" "t = v"
          using 2(3) new v by (auto simp: Let_def query_key_def u_def)
        have "same_run u v \<and> length us \<le> max 1 (m - 1) \<and> (\<forall>q \<in> set us. query_key q \<notin> set (ls_seen u))
            \<and> ls_analysis v = ls_analysis u \<and> distinct (map query_key us)
            \<and> set us \<subseteq> trim_space ` set cs \<and> set (ls_planned u) \<subseteq> set (ls_planned v)"
          using 2(2) [OF refl _ refl False, of us v] new v by (auto simp: query_key_def [abs_def] u_def)
        then show ?thesis using u up new k same_run_trans [of s u v] False by (auto simp: r)
      qed
    qed
  qed simp
  then show "same_run s t" "length ts \<le> max 1 m" "\<forall>q \<in> set ts. query_key q \<notin> set (ls_seen s)"
    "ls_analysis t = ls_analysis s" "distinct (map query_key ts)"
    "set ts \<subseteq> trim_space ` set cs" "set (ls_planned s) \<subseteq> set (ls_planned t)" by blast+
qed

lemma follow_ups_prepared:
  "set (build_recursive_gap_follow_up_queries cache query gap a limit) \<subseteq> range (prepare_search_query_text cache)"
  by (auto simp: build_recursive_gap_follow_up_queries_def normalize_loop_queries_def Let_def
      simp del: uniq_by.simps dest!: in_set_takeD subsetD [OF uniq_by_subset])

text \<open>What a cycle of the closure keeps, and which queries it adds to the executed ones.\<close>

definition gap_step :: "loop_env \<Rightarrow> loop_request \<Rightarrow> nat \<Rightarrow> loop_state \<Rightarrow> loop_state \<Rightarrow> bool" where
  "gap_step env req n s t \<longleftrightarrow>
     loop_inv env req n t \<and> int (length (ls_executed t)) \<le> max (int (length (ls_executed s))) (loop_budget env req)
     \<and> ls_iterations t = ls_iterations s \<and> set (ls_seen s) \<subseteq> set (ls_seen t) \<and> set (ls_planned s) \<subseteq> set (ls_planned t)
     \<and> (\<forall>k \<in> query_keys (ls_executed t). k \<in> query_keys (ls_executed s)
          \<or> (\<exists>q. k = query_key (prepare_search_query_text (le_cache env) (prepare_search_query_text (le_cache env) q))
                 \<and> query_key (prepare_search_query_text (le_cache env) q) \<notin> set (ls_seen s)))"

lemma gap_step_trans: "gap_step env req n s t \<Longrightarrow> gap_step env req n t u \<Longrightarrow> gap_step env req n s u"
  unfolding gap_step_def by (elim conjE, intro conjI) (auto, blast+)

lemma admit_gap_results:
  assumes "loop_core req s"
  shows "loop_core req (fold (admit_gap_result env req now) rs s)
    \<and> length (ls_executed (fold (admit_gap_result env req now) rs s)) \<le> length (ls_executed s) + length rs
    \<and> ls_iterations (fold (admit_gap_result env req now) rs s) = ls_iterations s
    \<and> ls_seen (fold (admit_gap_result env req now) rs s) = ls_seen s
    \<and> ls_planned (fold (admit_gap_result env req now) rs s) = ls_planned s
    \<and> query_keys (ls_executed (fold (admit_gap_result env req now) rs s))
        \<subseteq> query_keys (ls_executed s) \<union> query_keys (map fst rs)"
  using assms
proof (induction rs arbitrary: s)
  case (Cons r rs)
  obtain q ps where r: "r = (q, ps)" by force
  define t where "t = admit_gap_result env req now r s"
  have t: "loop_core req t" "length (ls_executed t) \<le> Suc (length (ls_executed s))" "ls_iterations t = ls_iterations s"
    "ls_seen t = ls_seen s" "query_keys (ls_executed t) \<subseteq> insert (query_key q) (query_keys (ls_executed s))"
    "ls_planned t = ls_planned s"
    using admit_result_core [OF Cons.prems, of env now q ps] by (simp_all add: t_def r admit_gap_result_def)
  have k: "query_keys (map fst (r # rs)) = insert (query_key q) (query_keys (map fst rs))" by (simp add: r query_keys_def)
  have e: "fold (admit_gap_result env req now) (r # rs) s = fold (admit_gap_result env req now) rs t" by (simp add: t_def)
  define v where "v = fold (admit_gap_result env req now) rs t"
  note ih = Cons.IH [OF t(1), folded v_def]
  have "query_keys (ls_executed v) \<subseteq> query_keys (ls_executed s) \<union> insert (query_key q) (query_keys (map fst rs))"
    using ih t(5) by blast
  then show ?case unfolding e k v_def [symmetric] using ih t(2,3,4,6) by (simp add: r)
qed simp

lemma gap_cycle_step:
  assumes "loop_inv env req n (gc_state r)" "le_cache env [] = None" "gap_cycle env req par k r = Inr (r', again)"
  shows "gap_step env req n (gc_state r) (gc_state r')"
proof -
  let ?s = "gc_state r" and ?par = "resolve_cooldown_aware_parallelism par (le_gap_cooldown env (Suc k))"
  let ?limit = "current_search_limit env req ?s"
  have same: "gap_step env req n ?s ?s" using assms(1) by (simp add: gap_step_def)
  show ?thesis
  proof (cases "\<not> has_open_actionable_coverage_gaps (Some (gc_gap r)) \<or> remaining_terms env req ?s \<le> 0 \<or> ?limit \<le> 0")
    case True
    then show ?thesis using assms(3) same by (simp add: gap_cycle_def Let_def)
  next
    case go: False
    let ?m = "nat (min (remaining_terms env req ?s) ?par)"
    obtain qs t where q: "select_gap_queries ?m (build_recursive_gap_follow_up_queries (le_cache env) (lr_query req) (gc_gap r)
        (ls_analysis ?s) (?par + 1)) ?s = (qs, t)" by force
    note sel = select_gap_queries_props [OF q]
    define rs where "rs = execute_loop_search_batch (le_cache env) (le_gap_search env k ?limit) qs"
    define u where "u = fold (admit_gap_result env req (le_gap_now env k)) rs t"
    have rs1: "length rs \<le> length qs" unfolding rs_def using assms(2) by (rule batch_length)
    have rs2: "set (map fst rs) \<subseteq> prepare_search_query_text (le_cache env) ` set qs"
      unfolding rs_def using assms(2)
      by (auto simp: execute_loop_search_batch_def normalize_loop_queries_def prepare_empty
          simp del: uniq_by.simps dest!: subsetD [OF uniq_by_subset])
    have qs: "\<exists>x. q = prepare_search_query_text (le_cache env) x" if q: "q \<in> set qs" for q
    proof -
      obtain c where c: "q = trim_space c" "c \<in> set (build_recursive_gap_follow_up_queries (le_cache env) (lr_query req) (gc_gap r)
          (ls_analysis ?s) (?par + 1))" using sel(6) q by blast
      then obtain x where "c = prepare_search_query_text (le_cache env) x" using follow_ups_prepared by blast
      with c(1) have "q = trim_space (prepare_search_query_text (le_cache env) x)" by simp
      then show ?thesis by (auto simp: prepare_search_query_text_def)
    qed
    have ct: "loop_core req t" using same_run_core [OF sel(1)] assms(1) by (simp add: loop_inv_def)
    note u = admit_gap_results [OF ct, of env "le_gap_now env k" rs, folded u_def]
    have len: "int (length (ls_executed u)) \<le> max (int (length (ls_executed ?s))) (loop_budget env req)"
      using u rs1 sel(1,2) go by (auto simp: same_run_def remaining_terms_def)
    have inv: "loop_inv env req n u" using u len assms(1) by (auto simp: loop_inv_def)
    have keys: "\<forall>x \<in> query_keys (ls_executed u). x \<in> query_keys (ls_executed ?s)
        \<or> (\<exists>q. x = query_key (prepare_search_query_text (le_cache env) (prepare_search_query_text (le_cache env) q))
               \<and> query_key (prepare_search_query_text (le_cache env) q) \<notin> set (ls_seen ?s))"
    proof
      fix x assume "x \<in> query_keys (ls_executed u)"
      then consider "x \<in> query_keys (ls_executed t)" | "x \<in> query_keys (map fst rs)" using u by blast
      then show "x \<in> query_keys (ls_executed ?s)
        \<or> (\<exists>q. x = query_key (prepare_search_query_text (le_cache env) (prepare_search_query_text (le_cache env) q))
               \<and> query_key (prepare_search_query_text (le_cache env) q) \<notin> set (ls_seen ?s))"
      proof cases
        case 2
        then obtain q where "q \<in> set qs" "x = query_key (prepare_search_query_text (le_cache env) q)"
          unfolding query_keys_def using rs2 by blast
        then show ?thesis using sel(3) qs by blast
      qed (use sel(1) in \<open>simp add: same_run_def\<close>)
    qed
    have gs: "gap_step env req n ?s (u\<lparr>ls_analysis := a\<rparr>)" for a
      using inv len keys u sel(1,7) by (auto simp: gap_step_def same_run_def cong: loop_inv_cong)
    show ?thesis
      using assms(3) go same gs q
      by (auto simp: gap_cycle_def Let_def settle_gaps_def u_def rs_def split: if_splits sum.splits)
  qed
qed

lemma gap_cycles_step:
  "loop_inv env req n (gc_state r) \<Longrightarrow> le_cache env [] = None \<Longrightarrow> gap_cycles env req par k m r = Inr r'
    \<Longrightarrow> gap_step env req n (gc_state r) (gc_state r')"
proof (induction m arbitrary: k r)
  case 0
  then show ?case by (simp add: gap_step_def)
next
  case (Suc m)
  then obtain u again where u: "gap_cycle env req par k r = Inr (u, again)" "again \<longrightarrow> gap_cycles env req par (Suc k) m u = Inr r'"
    "\<not> again \<longrightarrow> u = r'" by (auto split: sum.splits if_splits)
  note g = gap_cycle_step [OF Suc.prems(1,2) u(1)]
  then have "loop_inv env req n (gc_state u)" by (simp add: gap_step_def)
  then show ?case using Suc.IH Suc.prems(2) u g gap_step_trans by (cases again) blast+
qed

lemma close_gaps_step:
  assumes "loop_inv env req n s" "le_cache env [] = None" "close_recursive_coverage_gaps env req converged s = Inr r"
  shows "gap_step env req n s (gc_state r)"
proof -
  have i: "loop_inv env req n (gc_state (settle_gaps env req converged s))" using assms(1) by (simp add: settle_gaps_def)
  have "gap_step env req n s s" using assms(1) by (simp add: gap_step_def)
  then show ?thesis
    using assms(3) gap_cycles_step [OF i assms(2)]
    by (auto simp: close_recursive_coverage_gaps_def Let_def settle_gaps_def split: if_splits)
qed

text \<open>After every cycle the gaps are those of the state it ends with.\<close>

definition gaps_settled :: "loop_env \<Rightarrow> loop_request \<Rightarrow> gap_closure \<Rightarrow> bool" where
  "gaps_settled env req r \<longleftrightarrow> gc_gap r = loop_gap env req (gc_converged r) (gc_state r)"

lemma gap_cycle_settled:
  "gaps_settled env req r \<Longrightarrow> gap_cycle env req par k r = Inr (r', again) \<Longrightarrow> gaps_settled env req r'"
  by (auto simp: gap_cycle_def gaps_settled_def settle_gaps_def Let_def split: if_splits sum.splits prod.splits)

lemma gap_cycles_settled:
  "gaps_settled env req r \<Longrightarrow> gap_cycles env req par k m r = Inr r' \<Longrightarrow> gaps_settled env req r'"
proof (induction m arbitrary: k r)
  case (Suc m)
  then obtain u again where u: "gap_cycle env req par k r = Inr (u, again)" "again \<longrightarrow> gap_cycles env req par (Suc k) m u = Inr r'"
    "\<not> again \<longrightarrow> u = r'" by (auto split: sum.splits if_splits)
  then show ?case using Suc.IH gap_cycle_settled [OF Suc.prems(1) u(1)] by (cases again) blast+
qed simp

lemma close_gaps_settled:
  assumes "close_recursive_coverage_gaps env req converged s = Inr r"
  shows "gaps_settled env req r"
proof -
  have "gaps_settled env req (settle_gaps env req converged s)" by (simp add: gaps_settled_def settle_gaps_def)
  then show ?thesis
    using assms gap_cycles_settled by (auto simp: close_recursive_coverage_gaps_def Let_def split: if_splits)
qed

text \<open>A planned query that was not executed is listed with the gaps.\<close>

lemma unexecuted_query_listed:
  assumes "q \<in> set (ls_planned s)" "\<not> blank q" "query_key q \<notin> query_keys (ls_executed s)"
  shows "trim_space q \<in> set (lc_unexecuted (lg_coverage (loop_gap env req converged s)))"
proof -
  have c: "lg_coverage (merge_source_acquisition_ledger digest cache gap x ps plane) = lg_coverage gap" for digest cache gap x ps plane
    by (simp add: merge_source_acquisition_ledger_def Let_def)
  have "\<not> contains_normalized_loop_query (ls_executed s) (trim_space q)"
    using assms(3) unfolding query_keys_def query_key_def
    by (simp add: contains_normalized_loop_query_def list_ex_iff Let_def image_iff) metis
  then have "trim_space q \<in> set (filter (\<lambda>q. \<not> contains_normalized_loop_query (ls_executed s) q) (trimmed (ls_planned s)))"
    using assms(1,2) by simp
  then have "trim_space q \<in> set (trimmed (filter (\<lambda>q. \<not> contains_normalized_loop_query (ls_executed s) q) (trimmed (ls_planned s))))"
    using assms(2) unfolding set_trimmed [of "filter p xs" for p xs] by (intro DiffI image_eqI [where x = "trim_space q"]) simp_all
  then show ?thesis
    by (simp only: loop_gap_def build_loop_gap_state_def loop_coverage_state_def c Let_def split_beta set_dedupe loop_coverage.simps loop_gap_state.simps)
qed

lemma run_loop_core:
  assumes "le_cache env [] = None" "run_loop env req beliefs = Stop converged s"
  shows "loop_inv env req (length (normalize_loop_queries (le_cache env) [] (lr_initial_executed req))) s"
    "ls_iterations s \<le> nat (loop_max_iterations env req)" "converged \<Longrightarrow> convergence_ok env req (saturated_by env req beliefs s) s"
  using run_iterations_core [OF loop_start_inv(1) [of env req beliefs] assms(1) loop_start_inv(2) [of env req beliefs],
      of beliefs "nat (loop_max_iterations env req)" s]
    assms(2) by (auto simp: run_loop_def)

lemma run_research_stops:
  assumes "le_cache env [] = None" "run_research env req beliefs = Inr r"
  obtains converged s where "run_loop env req beliefs = Stop converged s" "close_recursive_coverage_gaps env req converged s = Inr r"
proof (cases "run_loop env req beliefs")
  case (Continue s)
  then show ?thesis
    using run_iterations_core [OF loop_start_inv(1) [of env req beliefs] assms(1) loop_start_inv(2) [of env req beliefs],
      of beliefs "nat (loop_max_iterations env req)" s]
    by (simp add: run_loop_def)
qed (use assms(2) that in \<open>simp_all add: run_research_def\<close>)

text \<open>
  C10. A research run is bounded, whatever the models, the operator and the providers answer: it makes at most the
  configured number of iterations, keeps at most the configured number of papers, and, unless it explores
  hypotheses in a tree, never executes more queries than its budget or than it was handed at the start. The cache of
  prepared queries is taken to have no entry for the empty query.
\<close>

theorem research_run_bounded:
  assumes "le_cache env [] = None" "run_research env req beliefs = Inr r"
  shows "int (ls_iterations (gc_state r)) \<le> max 0 (loop_max_iterations env req)
    \<and> (0 < lr_max_unique_papers req \<longrightarrow> int (length (ls_papers (gc_state r))) \<le> lr_max_unique_papers req)
    \<and> (\<not> le_explorer env \<or> \<not> is_high_depth_research_plane (lr_plane req) \<or> lr_disable_hypotheses req
         \<longrightarrow> int (length (ls_executed (gc_state r)))
             \<le> max (int (length (normalize_loop_queries (le_cache env) [] (lr_initial_executed req)))) (loop_budget env req))"
proof -
  obtain c s where s: "run_loop env req beliefs = Stop c s" "close_recursive_coverage_gaps env req c s = Inr r"
    using run_research_stops [OF assms] .
  note l = run_loop_core [OF assms(1) s(1)]
  note g = close_gaps_step [OF l(1) assms(1) s(2)]
  show ?thesis using g l(2) by (auto simp: gap_step_def loop_inv_def loop_core_def tree_off_def paper_limit_def max_def)
qed

text \<open>
  C11. Convergence is earned: when the loop stops and says that it converged, then the minimum number of iterations
  was made and the beliefs were settled, the findings of the very batch that the last iteration searched saturate
  the beliefs, or the last analysis found the evidence sufficient; or it was the last iteration and the analysis
  found the evidence sufficient; or the budget of papers was used up. The cache of prepared queries is taken to
  have no entry for the empty query.
\<close>

theorem convergence_is_earned:
  assumes "le_cache env [] = None" "run_loop env req beliefs = Stop True s"
  shows "minimum_met env req s \<and> (settled_beliefs env req s \<or> saturated_by env req beliefs s \<or> found_sufficient s)
    \<or> int (ls_iterations s) = loop_max_iterations env req \<and> found_sufficient s
    \<or> 0 < lr_max_unique_papers req \<and> lr_max_unique_papers req \<le> int (length (ls_papers s))"
  using run_loop_core(3) [OF assms] by (auto simp: convergence_ok_def paper_budget_reached_def paper_limit_def)

text \<open>
  C40. The closure of gaps searches only for queries that were never queued, as long as preparing a query again
  changes nothing (and the empty query is not in the cache): no query that the loop ever queued is executed by the
  closure, unless it had been executed before. So a query that the loop planned and did not execute is listed among
  the unexecuted ones when the closure returns, and was never searched.
\<close>

theorem closure_skips_planned_queries:
  assumes "le_cache env [] = None"
    and "\<And>q. prepare_search_query_text (le_cache env) (prepare_search_query_text (le_cache env) q) = prepare_search_query_text (le_cache env) q"
    and "run_loop env req beliefs = Stop converged s" "close_recursive_coverage_gaps env req converged s = Inr r"
  shows "(\<forall>k \<in> set (ls_seen s). k \<in> query_key ` set (ls_executed (gc_state r)) \<longrightarrow> k \<in> query_key ` set (ls_executed s))
    \<and> (\<forall>q \<in> set (ls_planned s). \<not> blank q \<longrightarrow> query_key q \<notin> query_key ` set (ls_executed s) \<longrightarrow>
         query_key q \<notin> query_key ` set (ls_executed (gc_state r))
         \<and> trim_space q \<in> set (lc_unexecuted (lg_coverage (gc_gap r))))"
proof -
  note l = run_loop_core [OF assms(1,3)]
  note g = close_gaps_step [OF l(1) assms(1,4)]
  have seen: "k \<in> query_keys (ls_executed s)" if "k \<in> set (ls_seen s)" "k \<in> query_keys (ls_executed (gc_state r))" for k
    using g that by (auto simp: gap_step_def assms(2))
  have known: "query_key q \<in> set (ls_seen s) \<union> query_keys (ls_executed s)" if "q \<in> set (ls_planned s)" for q
    using l(1) that by (auto simp: loop_inv_def loop_core_def query_keys_def)
  have kept: "set (ls_planned s) \<subseteq> set (ls_planned (gc_state r))" using g by (simp add: gap_step_def)
  have gap: "gc_gap r = loop_gap env req (gc_converged r) (gc_state r)"
    using close_gaps_settled [OF assms(4)] by (simp add: gaps_settled_def)
  have "query_key q \<notin> query_keys (ls_executed (gc_state r)) \<and> trim_space q \<in> set (lc_unexecuted (lg_coverage (gc_gap r)))"
    if "q \<in> set (ls_planned s)" "\<not> blank q" "query_key q \<notin> query_keys (ls_executed s)" for q
    using that known [OF that(1)] seen kept unexecuted_query_listed [of q "gc_state r"] unfolding gap by blast
  then show ?thesis using seen unfolding query_keys_def by blast
qed

section \<open>Evidence of one batch\<close>

lemma new_confidence_unrelated:
  assumes "set (bl_supporting b) \<inter> fst ` set evs = {}" "set (bl_contradicting b) \<inter> fst ` set evs = {}"
  shows "new_confidence evs b = 1 / 2"
proof -
  have k: "known_confidences evs ids = []" if "set ids \<inter> fst ` set evs = {}" for ids
  proof -
    have "List.map_filter (dict_get evs) ids = []"
      using that
    proof (induction ids)
      case (Cons j js)
      then have "dict_get evs j = None" by (simp add: map_of_eq_None_iff)
      then show ?case using Cons by (simp add: map_filter_simps)
    qed (simp add: map_filter_simps)
    then show ?thesis by (simp add: known_confidences_def)
  qed
  show ?thesis using k [OF assms(1)] k [OF assms(2)] by (simp add: new_confidence_def)
qed

lemma findings_by_id_keys: "fst ` set (findings_by_id fs) = ef_id ` set fs"
proof -
  have "fst ` set (fold (\<lambda>f. dict_set (ef_id f) f) fs d) = ef_id ` set fs \<union> fst ` set d" for d
    by (induction fs arbitrary: d) (auto simp: dom_update)
  then show ?thesis by (simp add: findings_by_id_def)
qed

text \<open>
  C39. One batch resets the beliefs. Every active belief whose evidence is not among the findings of the batch - and
  their ids are new - is at confidence one half afterwards: what hypotheses, trees and earlier batches
  established, and also a belief the operator approved, which stood at one.
\<close>

theorem batch_resets_beliefs:
  assumes "ledger_ids before" "(bid, b) \<in> set before" "bl_status b = BeliefStatusActive"
    and "(set (bl_supporting b) \<union> set (bl_contradicting b)) \<inter> ef_id ` set fs = {}"
  shows "\<exists>l b'. ls_beliefs (fst (control_beliefs env req i fs before s)) = Some l \<and> (bid, b') \<in> set l \<and> bl_confidence b' = 1 / 2"
proof -
  let ?now = "le_now env i" and ?d = "findings_by_id fs"
  obtain l r where l: "refute_beliefs_contradicted_by_evidence ?now fs (7 / 10) (recalculate_confidence ?now ?d before) = (l, r)" by force
  let ?f = "\<lambda>i b. if bl_status b = BeliefStatusActive \<and> new_confidence ?d b \<noteq> bl_confidence b
      then touch ?now (b\<lparr>bl_confidence := new_confidence ?d b\<rparr>) else b"
  have n: "new_confidence ?d b = 1 / 2"
    by (rule new_confidence_unrelated) (use assms(4) findings_by_id_keys [of fs] in blast)+
  have u: "(bid, ?f bid b) \<in> set (recalculate_confidence ?now ?d before)"
    unfolding recalculate_confidence_map [OF assms(1)] map_beliefs_def set_map by (rule image_eqI [OF _ assms(2)]) simp
  have c: "bl_confidence (?f bid b) = 1 / 2" using n assms(3) by simp
  have lr: "ledger_ids (recalculate_confidence ?now ?d before)"
    unfolding recalculate_confidence_map [OF assms(1)] by (rule ledger_ids_map [OF assms(1)]) simp
  have "\<exists>b'. (bid, b') \<in> set l \<and> bl_confidence b' = 1 / 2"
  proof (cases "contradicts fs (7 / 10)")
    case True
    then have "l = map_beliefs (\<lambda>i b. if bl_status b = BeliefStatusActive then touch ?now (b\<lparr>bl_status := BeliefStatusRefuted\<rparr>) else b)
        (recalculate_confidence ?now ?d before)"
      using l refute_beliefs_map [OF lr, of ?now fs "7 / 10"] by simp
    then show ?thesis using u c by (force simp: map_beliefs_def)
  next
    case False
    then have "l = recalculate_confidence ?now ?d before"
      using l refute_beliefs_map [OF lr, of ?now fs "7 / 10"] by simp
    then show ?thesis using u c by blast
  qed
  moreover have "ls_beliefs (fst (control_beliefs env req i fs before s)) = Some l"
    using control_beliefs_ledger [OF l] .
  ultimately show ?thesis by blast
qed

section \<open>A run whose budget is spent\<close>

definition quiet_reason :: reasoning_answers where
  "quiet_reason = \<lparr>ra_dossier = [], ra_proposal = None, ra_evaluator = None, ra_cooling = False,
     ra_committee = (\<lambda>_. \<lparr>cs_has_client = False, cs_cooling = False, cs_members = (\<lambda>_. MemberFailed), cs_supervisor = None\<rparr>)\<rparr>"

text \<open>Every query is in the cache as it is.\<close>

definition known_queries :: query_cache where
  "known_queries q = (if blank q then None
     else Some \<lparr>pq_corrected = q, pq_seed_queries = [], pq_agenda_queries = [], pq_keywords = [], pq_synonyms = []\<rparr>)"

lemma known_prepared: "prepare_search_query_text known_queries q = (if blank q then trim_space (prepare_for_provider_search q) else trim_space q)"
  by (simp add: prepare_search_query_text_def apply_research_query_corrections_def known_queries_def)

definition offline_env :: "paper list \<Rightarrow> loop_env" where
  "offline_env ps = \<lparr>le_digest = (\<lambda>_. []), le_show_any = (\<lambda>_. []), le_cache = known_queries, le_unleashed = False,
     le_weak_domain = False, le_year = 2025, le_now = (\<lambda>_. 0), le_client = False, le_explorer = False, le_seeds = [],
     le_proposal = None, le_steering = (\<lambda>_. None), le_cooldown = (\<lambda>_. 0), le_search = (\<lambda>_ _ _. ps),
     le_tree_search = (\<lambda>_ _ _. []), le_explore = (\<lambda>_ _. None), le_tree_reason = (\<lambda>_. quiet_reason),
     le_bootstrap_reason = (\<lambda>_. quiet_reason), le_judge = (\<lambda>_. JudgeCooling), le_opinion = (\<lambda>_. None),
     le_critique = (\<lambda>_. None), le_synthesis = (\<lambda>_. SynthesisCooling), le_replan = (\<lambda>_. None),
     le_ctx_error = (\<lambda>_. None), le_gap_now = (\<lambda>_. 0), le_gap_cooldown = (\<lambda>_. 0), le_gap_search = (\<lambda>_ _ _. ps),
     le_gap_judge = (\<lambda>_. JudgeCooling), le_gap_ctx_error = (\<lambda>_. None)\<rparr>"

definition spent_request :: loop_request where
  "spent_request = \<lparr>lr_query = ''dna'', lr_mode = [], lr_plane = [], lr_seed_queries = [''rna''], lr_initial_papers = [], lr_initial_coverage = [],
     lr_initial_executed = [''dna''], lr_max_iterations = 1, lr_min_iterations = 0, lr_max_search_terms = 0, lr_hits_per_search = 0,
     lr_max_unique_papers = 5, lr_disable_hypotheses = False\<rparr>"

definition sure_belief :: "string \<Rightarrow> belief" where
  "sure_belief i = example_belief\<lparr>bl_id := i, bl_confidence := 9 / 10\<rparr>"

definition sure_ledger :: belief_state where
  "sure_ledger = map (\<lambda>i. (i, sure_belief i)) [''a'', ''b'', ''c'']"

lemma spent_start:
  "loop_start (offline_env []) spent_request (Some sure_ledger) =
    \<lparr>ls_papers = [], ls_iterations = 0, ls_executed = [''dna''], ls_coverage = [], ls_planned = [''dna'', ''rna''], ls_pending = [''rna''],
     ls_seen = [''dna'', ''rna''], ls_analysis = None, ls_hypotheses = [], ls_findings = [], ls_beliefs = Some sure_ledger, ls_branches = []\<rparr>"
proof -
  have a: "loop_agenda (offline_env []) spent_request = [''dna'', ''rna'']" by code_simp
  have n: "normalize_loop_queries (le_cache (offline_env [])) [] (lr_initial_executed spent_request) = [''dna'']" by code_simp
  have p: "\<not> should_seed_pre_retrieval_hypotheses spent_request" by code_simp
  have u: "filter_unexecuted_loop_queries [''dna'', ''rna''] [''dna''] = [''rna'']" "to_lower ''dna'' = ''dna''" "to_lower ''rna'' = ''rna''"
    by code_simp+
  have i: "lr_initial_papers spent_request = []" "lr_initial_coverage spent_request = []" by (simp_all add: spent_request_def)
  show ?thesis
    by (simp add: loop_start_def seed_hypotheses_def a n p u i clone_loop_query_coverage_def admit_search_papers_for_query_def
        filter_papers_by_query_relevance_def append_unique_within_budget_def sanitize_retrieved_papers_def map_filter_simps Let_def)
qed

lemma spent_budget: "loop_budget (offline_env []) spent_request = 1" "loop_max_iterations (offline_env []) spent_request = 1"
  by code_simp+

lemma spent_decision:
  "belief_driven_continuation (Some sure_ledger) 1 1 = decision False ''belief convergence'' [] []"
  by code_simp

lemma spent_loop:
  "run_loop (offline_env []) spent_request (Some sure_ledger)
    = Stop True (loop_start (offline_env []) spent_request (Some sure_ledger))"
proof -
  have h: "hear_operator (offline_env []) 0 s = s" for s by (simp add: hear_operator_def offline_env_def)
  have m: "minimum_met (offline_env []) spent_request s" for s
    by (simp add: minimum_met_def loop_minimum_iterations_met_def spent_request_def offline_env_def unleashed_min_loop_iterations_def)
  have d: "ld_should_continue (decision False r [] []) = False" "ld_reason (decision False r [] []) = r" for r
    by (simp_all add: decision_def)
  show ?thesis
    by (simp add: run_loop_def spent_budget loop_iteration_def h m spent_start spent_decision d Let_def numeral_eq_Suc)
qed

lemma spent_closure:
  "close_recursive_coverage_gaps (offline_env []) spent_request True (loop_start (offline_env []) spent_request (Some sure_ledger))
    = Inr (settle_gaps (offline_env []) spent_request True (loop_start (offline_env []) spent_request (Some sure_ledger)))"
proof -
  have r: "remaining_terms (offline_env []) spent_request (loop_start (offline_env []) spent_request (Some sure_ledger)) = 0"
    by (simp add: remaining_terms_def spent_budget spent_start)
  have s: "gc_state (settle_gaps env req c s) = s" for env req c s by (simp add: settle_gaps_def)
  have g: "gap_cycles (offline_env []) spent_request par 0 n (settle_gaps (offline_env []) spent_request True (loop_start (offline_env []) spent_request (Some sure_ledger)))
    = Inr (settle_gaps (offline_env []) spent_request True (loop_start (offline_env []) spent_request (Some sure_ledger)))" for par n
    by (cases n) (simp_all add: gap_cycle_def r s Let_def)
  show ?thesis by (simp add: close_recursive_coverage_gaps_def g Let_def)
qed

lemma no_empty_entry: "le_cache (offline_env ps) [] = None"
  by (simp add: offline_env_def known_queries_def trim_space_def)

lemma prepared_once:
  "prepare_search_query_text (le_cache (offline_env ps)) (prepare_search_query_text (le_cache (offline_env ps)) q)
    = prepare_search_query_text (le_cache (offline_env ps)) q"
proof -
  have "blank (prepare_for_provider_search [])" by code_simp
  moreover have "le_cache (offline_env ps) = known_queries" by (simp add: offline_env_def)
  ultimately show ?thesis by (simp add: known_prepared)
qed

lemma research_run_bounded_witness:
  "\<exists>r. run_research (offline_env []) spent_request (Some sure_ledger) = Inr r \<and> int (ls_iterations (gc_state r)) \<le> 1
    \<and> int (length (ls_papers (gc_state r))) \<le> 5 \<and> int (length (ls_executed (gc_state r))) \<le> 1"
proof -
  have r: "run_research (offline_env []) spent_request (Some sure_ledger)
      = Inr (settle_gaps (offline_env []) spent_request True (loop_start (offline_env []) spent_request (Some sure_ledger)))"
    by (simp add: run_research_def spent_loop spent_closure)
  have n: "normalize_loop_queries (le_cache (offline_env [])) [] (lr_initial_executed spent_request) = [''dna'']" by code_simp
  have e: "\<not> le_explorer (offline_env [])" "lr_max_unique_papers spent_request = 5" by (simp_all add: offline_env_def spent_request_def)
  show ?thesis
    using research_run_bounded [OF no_empty_entry r] e r unfolding n spent_budget by auto
qed

lemma convergence_is_earned_witness:
  "\<exists>s. run_loop (offline_env []) spent_request (Some sure_ledger) = Stop True s \<and> minimum_met (offline_env []) spent_request s
    \<and> settled_beliefs (offline_env []) spent_request s"
proof -
  let ?s = "loop_start (offline_env []) spent_request (Some sure_ledger)"
  have "\<not> found_sufficient ?s" "ls_papers ?s = []"
    "lr_max_unique_papers spent_request = 5" "settled_beliefs (offline_env []) spent_request ?s"
    by (simp_all add: spent_start found_sufficient_def settled_beliefs_def spent_budget spent_decision)
      (simp_all add: spent_request_def decision_def)
  then show ?thesis using convergence_is_earned [OF no_empty_entry spent_loop] spent_loop by auto
qed

text \<open>The planned query "rna" was not executed: the closure neither searches it nor strikes it off the list.\<close>

lemma closure_skips_planned_queries_witness:
  "\<exists>s r. run_loop (offline_env []) spent_request (Some sure_ledger) = Stop True s
    \<and> close_recursive_coverage_gaps (offline_env []) spent_request True s = Inr r
    \<and> ''rna'' \<in> set (ls_planned s) \<and> query_key ''rna'' \<notin> query_key ` set (ls_executed (gc_state r))
    \<and> ''rna'' \<in> set (lc_unexecuted (lg_coverage (gc_gap r)))"
proof -
  have "\<not> blank ''rna''" "trim_space ''rna'' = ''rna''" "query_key ''rna'' \<notin> query_key ` set [''dna'']" by code_simp+
  then show ?thesis
    using closure_skips_planned_queries [OF no_empty_entry prepared_once spent_loop spent_closure] spent_loop spent_closure
    by (simp add: spent_start)
qed

lemma batch_resets_beliefs_witness:
  "bl_confidence (sure_belief ''a'') = 9 / 10 \<and>
   (\<exists>l b'. ls_beliefs (fst (control_beliefs (offline_env []) spent_request 0 [example_finding ''p1finding_1'' (8 / 10)] sure_ledger
        (loop_start (offline_env []) spent_request (Some sure_ledger)))) = Some l \<and> (''a'', b') \<in> set l \<and> bl_confidence b' = 1 / 2)"
proof -
  have l: "ledger_ids sure_ledger" "(''a'', sure_belief ''a'') \<in> set sure_ledger"
    by (simp_all add: sure_ledger_def ledger_ids_def wf_dict_def sure_belief_def)
  have b: "bl_status (sure_belief ''a'') = BeliefStatusActive" "bl_confidence (sure_belief ''a'') = 9 / 10"
    "(set (bl_supporting (sure_belief ''a'')) \<union> set (bl_contradicting (sure_belief ''a''))) \<inter> ef_id ` set [example_finding ''p1finding_1'' (8 / 10)] = {}"
    by (simp_all add: sure_belief_def example_belief_def example_finding_def)
  show ?thesis by (rule conjI [OF b(2) batch_resets_beliefs [OF l b(1,3)]])
qed

end
