(* ===== verification/ResearchDag.thy ===== *)
theory ResearchDag
  imports PlanModel
begin

text \<open>
  The concurrent engine for the steps of a plan (\<open>orchestrator/internal/wisdev/dag.go\<close>). The goroutine of
  \<open>Execute\<close> and those of the tasks share two channels with room for as many entries as the plan has steps.
  Every point at which one of them can wait is a step of its own: a send into the ready channel while the
  lock is held, the head of the loop, the \<open>select\<close>, the end of a task, the final wait. Maps are iterated in
  an order that Go leaves open, so the order is part of the event. What a task does is a parameter:
  \<open>answers c r\<close> says that the executor may return \<open>r\<close> for the context \<open>c\<close>. The scratchpad and the thought
  signature, which are only handed through, are left out.
\<close>

section \<open>State\<close>

datatype task_status = TaskPending | TaskRunning | TaskCompleted | TaskFailed | TaskSkipped

record task_result =
  tr_id :: string
  tr_error :: "go_error option"
  tr_result :: "json dict"
  tr_sources :: "string list"
  tr_confidence :: real

record task_context =
  tc_step :: plan_step
  tc_upstream :: "task_result dict"

text \<open>Where the goroutine of \<open>Execute\<close> is; while it triggers it holds the lock, and the list is what it has still to look at.\<close>

datatype dag_error = DagInvalid string | DagDeadlock | DagCancelled
datatype dag_control = Triggering "string list" | LoopHead | Selecting | Waiting "dag_error option" | Returned "dag_error option"

record research_dag =
  dg_steps :: "plan_step dict"
  dg_status :: "task_status dict"
  dg_results :: "task_result dict"
  dg_capacity :: nat
  dg_ready :: "string list"
  dg_done :: "task_result list"
  dg_working :: "task_context list"
  dg_cancelled :: bool
  dg_control :: dag_control

definition new_research_dag :: "plan_step list \<Rightarrow> research_dag" where
  "new_research_dag ps =
     \<lparr>dg_steps = fold (\<lambda>p. dict_set (step_id p) p) ps [],
      dg_status = fold (\<lambda>p. dict_set (step_id p) TaskPending) ps [],
      dg_results = [], dg_capacity = length ps, dg_ready = [], dg_done = [], dg_working = [],
      dg_cancelled = False, dg_control = LoopHead\<rparr>"

section \<open>Validation\<close>

definition step_dependencies :: "plan_step dict \<Rightarrow> string \<Rightarrow> string list" where
  "step_dependencies ss i = (case dict_get ss i of None \<Rightarrow> [] | Some p \<Rightarrow> depends_on p)"

definition unvisited :: "plan_step dict \<Rightarrow> string list \<Rightarrow> nat" where
  "unvisited ss path = card (set (map fst ss) - set path)"

lemma dict_get_key: "dict_get d k = Some v \<Longrightarrow> k \<in> set (map fst d)"
  by (force dest: map_of_SomeD)

text \<open>\<open>path\<close> holds the ids from the root down to the current one; a step on it closes a cycle.\<close>

function check_depth :: "plan_step dict \<Rightarrow> string \<Rightarrow> string list \<Rightarrow> nat" where
  "check_depth ss i path =
     (if i \<in> set path then 1000
      else case step_dependencies ss i of
             [] \<Rightarrow> 1
           | ds \<Rightarrow> 1 + fold max (map (\<lambda>d. check_depth ss d (i # path)) ds) 0)"
  by pat_completeness auto

termination
proof (relation "measure (\<lambda>(ss, i, path). unvisited ss path)", goal_cases)
  case (2 ss i path d ds x)
  then have "i \<in> set (map fst ss)"
    by (auto simp: step_dependencies_def dest: dict_get_key split: option.splits)
  then have "set (map fst ss) - set (i # path) \<subset> set (map fst ss) - set path" using 2(1) by auto
  then show ?case by (simp only: in_measure case_prod_conv unvisited_def) (rule psubset_card_mono, simp_all)
qed simp

declare check_depth.simps [simp del]

definition validate_dag :: "research_dag \<Rightarrow> string option" where
  "validate_dag d =
     (if 20 < length (dg_steps d) then Some ''DAG width exceeds safety limit''
      else case filter (\<lambda>i. 10 < check_depth (dg_steps d) i []) (map fst (dg_steps d)) of
             [] \<Rightarrow> None
           | i # _ \<Rightarrow> Some (''DAG depth exceeds safety limit for step '' @ i))"

section \<open>Execution\<close>

definition status_of :: "research_dag \<Rightarrow> string \<Rightarrow> task_status option" where
  "status_of d i = dict_get (dg_status d) i"

definition dependencies_completed :: "research_dag \<Rightarrow> string \<Rightarrow> bool" where
  "dependencies_completed d i \<longleftrightarrow> list_all (\<lambda>j. status_of d j = Some TaskCompleted) (step_dependencies (dg_steps d) i)"

definition all_terminal :: "research_dag \<Rightarrow> bool" where
  "all_terminal d \<longleftrightarrow> list_all (\<lambda>(_, st). st \<noteq> TaskPending \<and> st \<noteq> TaskRunning) (dg_status d)"

definition running_count :: "research_dag \<Rightarrow> nat" where
  "running_count d = length (filter (\<lambda>(_, st). st = TaskRunning) (dg_status d))"

text \<open>The start of \<open>Execute\<close> and every result make the goroutine look at all steps, in an order of the map's.\<close>

definition begin_execute :: "string list \<Rightarrow> research_dag \<Rightarrow> research_dag" where
  "begin_execute order d =
     (case validate_dag d of
        Some e \<Rightarrow> d\<lparr>dg_control := Returned (Some (DagInvalid e))\<rparr>
      | None \<Rightarrow> d\<lparr>dg_control := Triggering order\<rparr>)"

text \<open>One round of \<open>triggerReadySteps\<close>; the send waits while the channel is full.\<close>

definition trigger_step :: "research_dag \<Rightarrow> research_dag option" where
  "trigger_step d =
     (case dg_control d of
        Triggering [] \<Rightarrow> Some (d\<lparr>dg_control := LoopHead\<rparr>)
      | Triggering (i # is) \<Rightarrow>
          if status_of d i = Some TaskPending \<and> dependencies_completed d i
          then (if length (dg_ready d) < dg_capacity d
                then Some (d\<lparr>dg_ready := dg_ready d @ [i], dg_control := Triggering is\<rparr>) else None)
          else Some (d\<lparr>dg_control := Triggering is\<rparr>)
      | _ \<Rightarrow> None)"

definition loop_head :: "research_dag \<Rightarrow> research_dag option" where
  "loop_head d =
     (if dg_control d \<noteq> LoopHead then None
      else Some (d\<lparr>dg_control :=
        (if all_terminal d then Waiting None
         else if running_count d = 0 \<and> dg_ready d = [] then Waiting (Some DagDeadlock) else Selecting)\<rparr>))"

definition upstream_results :: "research_dag \<Rightarrow> plan_step \<Rightarrow> task_result dict" where
  "upstream_results d p =
     fold (\<lambda>j u. case dict_get (dg_results d) j of None \<Rightarrow> u | Some r \<Rightarrow> dict_set j r u) (depends_on p) []"

text \<open>The three cases of the \<open>select\<close>.\<close>

definition take_ready :: "research_dag \<Rightarrow> research_dag option" where
  "take_ready d =
     (case (dg_control d, dg_ready d) of
        (Selecting, i # is) \<Rightarrow>
          Some (if status_of d i \<noteq> Some TaskPending then d\<lparr>dg_ready := is, dg_control := LoopHead\<rparr>
                else (case dict_get (dg_steps d) i of
                        None \<Rightarrow> d\<lparr>dg_ready := is, dg_control := LoopHead\<rparr>
                      | Some p \<Rightarrow> d\<lparr>dg_ready := is, dg_status := dict_set i TaskRunning (dg_status d),
                                  dg_working := dg_working d @ [\<lparr>tc_step = p, tc_upstream = upstream_results d p\<rparr>],
                                  dg_control := LoopHead\<rparr>))
      | _ \<Rightarrow> None)"

definition take_done :: "string list \<Rightarrow> research_dag \<Rightarrow> research_dag option" where
  "take_done order d =
     (case (dg_control d, dg_done d) of
        (Selecting, r # rs) \<Rightarrow>
          Some (d\<lparr>dg_done := rs, dg_results := dict_set (tr_id r) r (dg_results d),
                  dg_status := dict_set (tr_id r) (if tr_error r = None then TaskCompleted else TaskFailed) (dg_status d),
                  dg_control := Triggering order\<rparr>)
      | _ \<Rightarrow> None)"

definition take_cancel :: "research_dag \<Rightarrow> research_dag option" where
  "take_cancel d =
     (if dg_control d = Selecting \<and> dg_cancelled d then Some (d\<lparr>dg_control := Waiting (Some DagCancelled)\<rparr>) else None)"

text \<open>After the loop the context of the tasks is cancelled and \<open>Execute\<close> waits for all of them.\<close>

definition finish_wait :: "research_dag \<Rightarrow> research_dag option" where
  "finish_wait d =
     (case dg_control d of
        Waiting e \<Rightarrow> (if dg_working d = [] then Some (d\<lparr>dg_control := Returned e\<rparr>) else None)
      | _ \<Rightarrow> None)"

definition task_context_cancelled :: "research_dag \<Rightarrow> bool" where
  "task_context_cancelled d \<longleftrightarrow> dg_cancelled d \<or> (case dg_control d of Waiting _ \<Rightarrow> True | _ \<Rightarrow> False)"

text \<open>The goroutine of the \<open>n\<close>-th task ends: its result is sent, or dropped (\<open>keep\<close> is false) once the context is cancelled.\<close>

definition task_ends ::
  "(task_context \<Rightarrow> task_result \<Rightarrow> bool) \<Rightarrow> nat \<Rightarrow> task_result \<Rightarrow> bool \<Rightarrow> research_dag \<Rightarrow> research_dag option" where
  "task_ends answers n r keep d =
     (if n < length (dg_working d) \<and> answers (dg_working d ! n) r
      then (let d' = d\<lparr>dg_working := take n (dg_working d) @ drop (Suc n) (dg_working d)\<rparr> in
            if keep then (if length (dg_done d) < dg_capacity d then Some (d'\<lparr>dg_done := dg_done d @ [r]\<rparr>) else None)
            else if task_context_cancelled d then Some d' else None)
      else None)"

datatype dag_event =
    TriggerStep | DecideLoop | TakeReady | TakeDone "string list" | TakeCancel | FinishWait
  | TaskEnds nat task_result bool | ContextCancelled

text \<open>An order of the map is any list with the keys of the steps.\<close>

definition map_iteration :: "research_dag \<Rightarrow> string list \<Rightarrow> bool" where
  "map_iteration d order \<longleftrightarrow> mset order = mset (map fst (dg_steps d))"

fun dag_exec :: "(task_context \<Rightarrow> task_result \<Rightarrow> bool) \<Rightarrow> dag_event \<Rightarrow> research_dag \<Rightarrow> research_dag option" where
  "dag_exec answers TriggerStep d = trigger_step d"
| "dag_exec answers DecideLoop d = loop_head d"
| "dag_exec answers TakeReady d = take_ready d"
| "dag_exec answers (TakeDone order) d = (if map_iteration d order then take_done order d else None)"
| "dag_exec answers TakeCancel d = take_cancel d"
| "dag_exec answers FinishWait d = finish_wait d"
| "dag_exec answers (TaskEnds n r keep) d = task_ends answers n r keep d"
| "dag_exec answers ContextCancelled d = Some (d\<lparr>dg_cancelled := True\<rparr>)"

inductive dag_steps_to :: "(task_context \<Rightarrow> task_result \<Rightarrow> bool) \<Rightarrow> research_dag \<Rightarrow> research_dag \<Rightarrow> bool" for answers where
  dag_refl: "dag_steps_to answers d d"
| dag_step: "dag_steps_to answers d e \<Longrightarrow> dag_exec answers ev e = Some f \<Longrightarrow> dag_steps_to answers d f"

fun dag_run :: "(task_context \<Rightarrow> task_result \<Rightarrow> bool) \<Rightarrow> dag_event list \<Rightarrow> research_dag \<Rightarrow> research_dag option" where
  "dag_run answers [] d = Some d"
| "dag_run answers (ev # evs) d = (case dag_exec answers ev d of None \<Rightarrow> None | Some e \<Rightarrow> dag_run answers evs e)"

section \<open>What validation means\<close>

definition dependencies :: "plan_step dict \<Rightarrow> (string \<times> string) set" where
  "dependencies ss = {(i, j). j \<in> set (step_dependencies ss i)}"

lemma fold_max_less: "n < fold max ns (m :: nat) \<longleftrightarrow> n < m \<or> (\<exists>k \<in> set ns. n < k)"
  by (induction ns arbitrary: m) auto

lemma check_depth_on_path: "i \<in> set path \<Longrightarrow> check_depth ss i path = 1000"
  by (simp add: check_depth.simps)

lemma check_depth_less:
  assumes "i \<notin> set path"
  shows "n < check_depth ss i path \<longleftrightarrow> n = 0 \<or> (\<exists>j. (i, j) \<in> dependencies ss \<and> n - 1 < check_depth ss j (i # path))"
proof (cases "step_dependencies ss i")
  case Nil
  then show ?thesis using assms by (subst check_depth.simps) (auto simp: dependencies_def)
next
  case (Cons d ds)
  have "n < check_depth ss i path \<longleftrightarrow> n < 1 + fold max (map (\<lambda>d. check_depth ss d (i # path)) (step_dependencies ss i)) 0"
    using assms Cons by (subst check_depth.simps) simp
  also have "\<dots> \<longleftrightarrow> n = 0 \<or> n - 1 < fold max (map (\<lambda>d. check_depth ss d (i # path)) (step_dependencies ss i)) 0"
    by linarith
  also have "\<dots> \<longleftrightarrow> n = 0 \<or> (\<exists>j. (i, j) \<in> dependencies ss \<and> n - 1 < check_depth ss j (i # path))"
    by (auto simp: fold_max_less dependencies_def)
  finally show ?thesis .
qed

lemma long_chain_is_deep: "(i, b) \<in> dependencies ss ^^ n \<Longrightarrow> n < 1000 \<Longrightarrow> n < check_depth ss i path"
proof (induction n arbitrary: i path)
  case 0
  then show ?case by (cases "i \<in> set path") (simp_all add: check_depth_on_path check_depth_less)
next
  case (Suc n)
  obtain j where "(i, j) \<in> dependencies ss" "(j, b) \<in> dependencies ss ^^ n" using relpow_Suc_D2 [OF Suc.prems(1)] by blast
  then have "\<exists>j. (i, j) \<in> dependencies ss \<and> Suc n - 1 < check_depth ss j (i # path)" using Suc by auto
  then show ?case using Suc.prems(2)
    by (cases "i \<in> set path") (simp_all only: check_depth_on_path check_depth_less not_False_eq_True simp_thms)
qed

lemma cycle_has_chains: "(x, x) \<in> R\<^sup>+ \<Longrightarrow> (z, x) \<in> R\<^sup>* \<Longrightarrow> \<exists>b. (z, b) \<in> R ^^ n"
proof (induction n arbitrary: z)
  case (Suc n)
  have "(z, x) \<in> R\<^sup>+" using Suc.prems by (auto simp: rtrancl_eq_or_trancl)
  then obtain y where "(z, y) \<in> R" "(y, x) \<in> R\<^sup>*" by (auto dest: tranclD)
  then show ?case using Suc.IH [OF Suc.prems(1)] relpow_Suc_I2 by metis
qed auto

lemma deep_has_chain:
  "\<forall>y \<in> set path. (y, i) \<in> (dependencies ss)\<^sup>+ \<Longrightarrow> n < check_depth ss i path \<Longrightarrow> \<exists>b. (i, b) \<in> dependencies ss ^^ n"
proof (induction n arbitrary: i path)
  case (Suc n)
  show ?case
  proof (cases "i \<in> set path")
    case True
    then show ?thesis using Suc.prems(1) cycle_has_chains [of i] by blast
  next
    case False
    then obtain j where j: "(i, j) \<in> dependencies ss" "n < check_depth ss j (i # path)"
      using Suc.prems(2) by (auto simp: check_depth_less)
    moreover have "\<forall>y \<in> set (i # path). (y, j) \<in> (dependencies ss)\<^sup>+"
      using j(1) Suc.prems(1) by (auto intro: trancl_into_trancl)
    ultimately obtain b where "(j, b) \<in> dependencies ss ^^ n" using Suc.IH by blast
    then show ?thesis using j(1) relpow_Suc_I2 by metis
  qed
qed auto

lemma validate_dag_None:
  "validate_dag d = None \<longleftrightarrow> length (dg_steps d) \<le> 20 \<and> dependencies (dg_steps d) ^^ 10 = {}"
proof -
  have "10 < check_depth (dg_steps d) i [] \<longleftrightarrow> (\<exists>b. (i, b) \<in> dependencies (dg_steps d) ^^ 10)" for i
    using long_chain_is_deep [of i _ 10 "dg_steps d" "[]"] deep_has_chain [of "[]" i "dg_steps d" 10] by auto
  moreover have "i \<in> set (map fst (dg_steps d))" if chain: "(i, b) \<in> dependencies (dg_steps d) ^^ 10" for i b
  proof -
    obtain j where "(i, j) \<in> dependencies (dg_steps d)"
      using chain relpow_Suc_D2 [of i b 9 "dependencies (dg_steps d)"] by auto
    then show ?thesis using dict_get_key [of "dg_steps d" i]
      by (cases "dict_get (dg_steps d) i") (simp_all add: dependencies_def step_dependencies_def)
  qed
  ultimately have "filter (\<lambda>i. 10 < check_depth (dg_steps d) i []) (map fst (dg_steps d)) = [] \<longleftrightarrow> dependencies (dg_steps d) ^^ 10 = {}"
    unfolding filter_empty_conv by (metis (no_types, lifting) equals0D equals0I prod.exhaust)
  then show ?thesis unfolding validate_dag_def by (auto split: list.splits)
qed

text \<open>
  C33. The validation is exact: a plan passes if and only if it has at most twenty steps and no chain of
  dependencies of length ten. In particular a plan that passes has no cycle.
\<close>

theorem validation_exact:
  "validate_dag d = None \<longleftrightarrow> length (dg_steps d) \<le> 20 \<and> dependencies (dg_steps d) ^^ 10 = {}"
  by (rule validate_dag_None)

section \<open>What holds in every state\<close>

definition honest :: "(task_context \<Rightarrow> task_result \<Rightarrow> bool) \<Rightarrow> bool" where
  "honest answers \<longleftrightarrow> (\<forall>c r. answers c r \<longrightarrow> tr_id r = step_id (tc_step c))"

definition task_id :: "task_context \<Rightarrow> string" where
  "task_id c = step_id (tc_step c)"

text \<open>The statuses are those of the steps; only a step whose dependencies are all completed has left the pending status.\<close>

definition statuses_ok :: "research_dag \<Rightarrow> bool" where
  "statuses_ok d \<longleftrightarrow> distinct (map fst (dg_steps d)) \<and> distinct (map fst (dg_status d))
     \<and> fst ` set (dg_status d) = fst ` set (dg_steps d)
     \<and> (\<forall>i p. dict_get (dg_steps d) i = Some p \<longrightarrow> step_id p = i)
     \<and> (\<forall>i st. status_of d i = Some st \<longrightarrow> st \<noteq> TaskPending \<longrightarrow> st \<noteq> TaskSkipped \<and> dependencies_completed d i)"

text \<open>Tasks at work and results on their way belong to different running steps, and a task has the results of all its dependencies.\<close>

definition good_result :: "string \<Rightarrow> task_result option \<Rightarrow> bool" where
  "good_result j r \<longleftrightarrow> (case r of None \<Rightarrow> False | Some r \<Rightarrow> tr_id r = j \<and> tr_error r = None)"

definition tasks_ok :: "research_dag \<Rightarrow> bool" where
  "tasks_ok d \<longleftrightarrow> distinct (map task_id (dg_working d) @ map tr_id (dg_done d))
     \<and> (\<forall>i \<in> task_id ` set (dg_working d) \<union> tr_id ` set (dg_done d). status_of d i = Some TaskRunning)
     \<and> (\<forall>c \<in> set (dg_working d). dict_get (dg_steps d) (task_id c) = Some (tc_step c)
          \<and> (\<forall>j \<in> set (depends_on (tc_step c)). good_result j (dict_get (tc_upstream c) j)))
     \<and> (\<forall>j. status_of d j = Some TaskCompleted \<longrightarrow> good_result j (dict_get (dg_results d) j))"

text \<open>Between two triggers every step that could run is in the channel, during a trigger it can also be still to come.\<close>

definition runnable :: "research_dag \<Rightarrow> string \<Rightarrow> bool" where
  "runnable d i \<longleftrightarrow> status_of d i = Some TaskPending \<and> dependencies_completed d i"

definition queue_ok :: "research_dag \<Rightarrow> bool" where
  "queue_ok d \<longleftrightarrow> (\<forall>i \<in> set (dg_ready d). i \<in> fst ` set (dg_steps d) \<and> dependencies_completed d i)
     \<and> length (dg_ready d) \<le> dg_capacity d
     \<and> (case dg_control d of
          Triggering is \<Rightarrow> (\<forall>i. runnable d i \<longrightarrow> i \<in> set (dg_ready d) \<union> set is)
        | LoopHead \<Rightarrow> (\<forall>i. runnable d i \<longrightarrow> i \<in> set (dg_ready d))
        | Selecting \<Rightarrow> (\<forall>i. runnable d i \<longrightarrow> i \<in> set (dg_ready d))
        | _ \<Rightarrow> True)"

definition outcome_ok :: "research_dag \<Rightarrow> dag_error option \<Rightarrow> bool" where
  "outcome_ok d e \<longleftrightarrow>
     (case e of
        None \<Rightarrow> (\<forall>i \<in> fst ` set (dg_steps d). status_of d i = Some TaskCompleted \<or> status_of d i = Some TaskFailed)
      | Some DagDeadlock \<Rightarrow> (\<exists>i. status_of d i = Some TaskPending) \<and> (\<forall>i. status_of d i \<noteq> Some TaskRunning)
          \<and> (\<forall>i. status_of d i = Some TaskPending \<longrightarrow> \<not> dependencies_completed d i)
      | Some DagCancelled \<Rightarrow> dg_cancelled d
      | Some (DagInvalid _) \<Rightarrow> False)"

definition control_ok :: "research_dag \<Rightarrow> bool" where
  "control_ok d \<longleftrightarrow>
     (case dg_control d of Waiting e \<Rightarrow> outcome_ok d e | Returned e \<Rightarrow> outcome_ok d e \<and> dg_working d = [] | _ \<Rightarrow> True)"

definition dag_inv :: "research_dag \<Rightarrow> bool" where
  "dag_inv d \<longleftrightarrow> statuses_ok d \<and> tasks_ok d \<and> queue_ok d \<and> control_ok d"

lemmas dag_defs = statuses_ok_def tasks_ok_def queue_ok_def control_ok_def outcome_ok_def runnable_def

text \<open>What the parts depend on.\<close>

lemma status_frame [simp]:
  "status_of (d\<lparr>dg_control := c\<rparr>) = status_of d" "status_of (d\<lparr>dg_ready := q\<rparr>) = status_of d"
  "status_of (d\<lparr>dg_working := w\<rparr>) = status_of d" "status_of (d\<lparr>dg_done := rs\<rparr>) = status_of d"
  "status_of (d\<lparr>dg_cancelled := b\<rparr>) = status_of d" "status_of (d\<lparr>dg_results := rr\<rparr>) = status_of d"
  "status_of (d\<lparr>dg_status := dict_set i st (dg_status d)\<rparr>) = (status_of d)(i \<mapsto> st)"
  by (rule ext, simp add: status_of_def update_conv')+

lemma dependencies_completed_frame [simp]:
  "dependencies_completed (d\<lparr>dg_control := c\<rparr>) = dependencies_completed d"
  "dependencies_completed (d\<lparr>dg_ready := q\<rparr>) = dependencies_completed d"
  "dependencies_completed (d\<lparr>dg_working := w\<rparr>) = dependencies_completed d"
  "dependencies_completed (d\<lparr>dg_done := rs\<rparr>) = dependencies_completed d"
  "dependencies_completed (d\<lparr>dg_cancelled := b\<rparr>) = dependencies_completed d"
  "dependencies_completed (d\<lparr>dg_results := rr\<rparr>) = dependencies_completed d"
  by (rule ext, simp add: dependencies_completed_def)+

lemma dependencies_completed_status:
  assumes "status_of d i \<noteq> Some TaskCompleted" "dependencies_completed d k"
  shows "dependencies_completed (d\<lparr>dg_status := dict_set i st (dg_status d)\<rparr>) k"
  using assms by (auto simp: dependencies_completed_def list_all_iff)

lemma statuses_frame [simp]:
  "statuses_ok (d\<lparr>dg_control := c\<rparr>) = statuses_ok d" "statuses_ok (d\<lparr>dg_ready := q\<rparr>) = statuses_ok d"
  "statuses_ok (d\<lparr>dg_working := w\<rparr>) = statuses_ok d" "statuses_ok (d\<lparr>dg_done := rs\<rparr>) = statuses_ok d"
  "statuses_ok (d\<lparr>dg_cancelled := b\<rparr>) = statuses_ok d" "statuses_ok (d\<lparr>dg_results := rr\<rparr>) = statuses_ok d"
  by (simp_all add: statuses_ok_def)

lemma tasks_frame [simp]:
  "tasks_ok (d\<lparr>dg_control := c\<rparr>) = tasks_ok d" "tasks_ok (d\<lparr>dg_ready := q\<rparr>) = tasks_ok d"
  "tasks_ok (d\<lparr>dg_cancelled := b\<rparr>) = tasks_ok d"
  by (simp_all add: tasks_ok_def)

lemma status_key: "statuses_ok d \<Longrightarrow> status_of d i \<noteq> None \<longleftrightarrow> i \<in> fst ` set (dg_steps d)"
  by (simp add: statuses_ok_def status_of_def map_of_eq_None_iff)

lemma statuses_set:
  assumes "statuses_ok d" "status_of d i \<noteq> None" "status_of d i \<noteq> Some TaskCompleted" "st \<noteq> TaskSkipped" "dependencies_completed d i"
  shows "statuses_ok (d\<lparr>dg_status := dict_set i st (dg_status d)\<rparr>)"
proof -
  have "fst ` set (dict_set i st (dg_status d)) = fst ` set (dg_steps d)"
    using assms(1) status_key [OF assms(1), of i] assms(2) by (auto simp: fst_set_dict_set statuses_ok_def)
  then show ?thesis using assms dependencies_completed_status [OF assms(3)]
    by (auto simp: statuses_ok_def distinct_update)
qed

section \<open>Every step keeps it\<close>

lemma outcome_frame:
  "outcome_ok (d\<lparr>dg_working := w\<rparr>) e = outcome_ok d e" "outcome_ok (d\<lparr>dg_done := rs\<rparr>) e = outcome_ok d e"
  "outcome_ok (d\<lparr>dg_control := c\<rparr>) e = outcome_ok d e" "outcome_ok d e \<Longrightarrow> outcome_ok (d\<lparr>dg_cancelled := True\<rparr>) e"
  by (auto simp: outcome_ok_def split: option.splits dag_error.splits)

lemma trigger_step_inv: "dag_inv d \<Longrightarrow> trigger_step d = Some e \<Longrightarrow> dag_inv e"
proof -
  assume inv: "dag_inv d" and e: "trigger_step d = Some e"
  then obtain ks where c: "dg_control d = Triggering ks" by (auto simp: trigger_step_def split: dag_control.splits)
  show "dag_inv e"
  proof (cases ks)
    case Nil
    then show ?thesis using inv e c by (auto simp: dag_inv_def trigger_step_def queue_ok_def control_ok_def runnable_def)
  next
    case (Cons i js)
    have key: "status_of d i = Some TaskPending \<Longrightarrow> i \<in> fst ` set (dg_steps d)"
      using inv status_key [of d i] by (simp add: dag_inv_def)
    show ?thesis
    proof (cases "runnable d i")
      case True
      then have "i \<in> fst ` set (dg_steps d)" using key by (simp add: runnable_def)
      moreover have "e = d\<lparr>dg_ready := dg_ready d @ [i], dg_control := Triggering js\<rparr>" "length (dg_ready d) < dg_capacity d"
        using e c Cons True by (simp_all add: trigger_step_def runnable_def split: if_splits)
      ultimately show ?thesis using inv c Cons True
        by (simp add: dag_inv_def queue_ok_def control_ok_def runnable_def)
    next
      case False
      then show ?thesis using inv e c Cons
        by (auto simp: dag_inv_def trigger_step_def queue_ok_def control_ok_def runnable_def split: if_splits)
    qed
  qed
qed

lemma no_running: "running_count d = 0 \<Longrightarrow> status_of d i \<noteq> Some TaskRunning"
  by (auto simp: running_count_def status_of_def filter_empty_conv dest!: map_of_SomeD)

lemma not_all_terminal:
  assumes "statuses_ok d" "\<not> all_terminal d" "running_count d = 0"
  shows "\<exists>i. status_of d i = Some TaskPending"
proof -
  obtain i st where i: "(i, st) \<in> set (dg_status d)" "st = TaskPending \<or> st = TaskRunning"
    using assms(2) by (auto simp: all_terminal_def list_all_iff)
  then have "status_of d i = Some st" using assms(1) by (simp add: status_of_def statuses_ok_def)
  then show ?thesis using i(2) no_running [OF assms(3), of i] by auto
qed

lemma all_terminal_outcome:
  assumes "statuses_ok d" "all_terminal d" "i \<in> fst ` set (dg_steps d)"
  shows "status_of d i = Some TaskCompleted \<or> status_of d i = Some TaskFailed"
proof -
  obtain st where st: "status_of d i = Some st" using assms(1,3) status_key [of d i] by auto
  then have "(i, st) \<in> set (dg_status d)" by (simp add: status_of_def map_of_SomeD)
  then have "st \<noteq> TaskPending \<and> st \<noteq> TaskRunning" using assms(2) by (auto simp: all_terminal_def list_all_iff)
  moreover have "st \<noteq> TaskSkipped" using assms(1) st calculation by (auto simp: statuses_ok_def)
  ultimately show ?thesis using st by (cases st) auto
qed

lemma loop_head_inv: "dag_inv d \<Longrightarrow> loop_head d = Some e \<Longrightarrow> dag_inv e"
proof -
  assume inv: "dag_inv d" and e: "loop_head d = Some e"
  then have c: "dg_control d = LoopHead" by (auto simp: loop_head_def split: if_splits)
  have "outcome_ok d None" if t: "all_terminal d"
    using inv all_terminal_outcome [OF _ t] by (auto simp: dag_inv_def outcome_ok_def)
  moreover have "outcome_ok d (Some DagDeadlock)" if t: "\<not> all_terminal d" "running_count d = 0" "dg_ready d = []"
    using inv not_all_terminal [OF _ t(1,2)] no_running [OF t(2)] c t(3)
    by (auto simp: dag_inv_def outcome_ok_def queue_ok_def runnable_def)
  ultimately show "dag_inv e" using inv e c
    by (auto simp: dag_inv_def loop_head_def queue_ok_def control_ok_def runnable_def outcome_frame split: if_splits)
qed

lemma upstream_results_get:
  "dict_get (upstream_results d p) j = (if j \<in> set (depends_on p) then dict_get (dg_results d) j else None)"
proof -
  have "dict_get (fold (\<lambda>j u. case dict_get (dg_results d) j of None \<Rightarrow> u | Some r \<Rightarrow> dict_set j r u) js u) j
      = (if j \<in> set js \<and> dict_get (dg_results d) j \<noteq> None then dict_get (dg_results d) j else dict_get u j)" for js u
    by (induction js arbitrary: u) (auto simp: update_conv' split: option.splits)
  then show ?thesis by (auto simp: upstream_results_def)
qed

lemma take_ready_inv: "dag_inv d \<Longrightarrow> take_ready d = Some e \<Longrightarrow> dag_inv e"
proof -
  assume inv: "dag_inv d" and e: "take_ready d = Some e"
  then obtain i ks where c: "dg_control d = Selecting" "dg_ready d = i # ks"
    by (auto simp: take_ready_def split: dag_control.splits list.splits)
  have st: "statuses_ok d" "tasks_ok d" "queue_ok d" using inv by (auto simp: dag_inv_def)
  have q: "i \<in> fst ` set (dg_steps d)" "dependencies_completed d i" using st(3) c(2) by (auto simp: queue_ok_def)
  then obtain p where p: "dict_get (dg_steps d) i = Some p"
    by (metis map_of_eq_None_iff not_Some_eq)
  then have pid: "step_id p = i" using st(1) by (simp add: statuses_ok_def)
  show "dag_inv e"
  proof (cases "status_of d i = Some TaskPending")
    case False
    then have "e = d\<lparr>dg_ready := ks, dg_control := LoopHead\<rparr>" using e c by (simp add: take_ready_def)
    then show ?thesis using st c False by (auto simp: dag_inv_def queue_ok_def control_ok_def runnable_def)
  next
    case True
    let ?s = "d\<lparr>dg_status := dict_set i TaskRunning (dg_status d)\<rparr>"
    let ?c = "\<lparr>tc_step = p, tc_upstream = upstream_results d p\<rparr>"
    have ed: "e = ?s\<lparr>dg_ready := ks, dg_working := dg_working d @ [?c], dg_control := LoopHead\<rparr>"
    proof -
      have "e = d\<lparr>dg_ready := ks, dg_status := dict_set i TaskRunning (dg_status d), dg_working := dg_working d @ [?c], dg_control := LoopHead\<rparr>"
        using e c True p by (simp add: take_ready_def)
      then show ?thesis by (cases d) simp
    qed
    have new: "i \<notin> task_id ` set (dg_working d) \<union> tr_id ` set (dg_done d)" using st(2) True by (auto simp: tasks_ok_def)
    have deps: "good_result j (dict_get (upstream_results d p) j)" if j: "j \<in> set (depends_on p)" for j
    proof -
      have "status_of d j = Some TaskCompleted"
        using q(2) p j by (auto simp: dependencies_completed_def step_dependencies_def list_all_iff)
      then show ?thesis using st(2) j by (simp add: upstream_results_get tasks_ok_def)
    qed
    have "statuses_ok ?s" by (rule statuses_set) (use st(1) True q(2) in auto)
    moreover have "tasks_ok e"
      using st(2) new deps p pid unfolding tasks_ok_def ed
      by (simp add: task_id_def status_of_def update_conv')
    moreover have "queue_ok e"
    proof -
      have dep: "dependencies_completed d k \<Longrightarrow> dependencies_completed ?s k" for k
        by (rule dependencies_completed_status) (use True in simp)
      have undep: "dependencies_completed ?s k \<Longrightarrow> dependencies_completed d k" for k
        by (auto simp: dependencies_completed_def list_all_iff split: if_splits)
      have "runnable e k \<Longrightarrow> k \<in> set ks" for k
        using st(3) c undep [of k] by (auto simp: queue_ok_def runnable_def ed split: if_splits)
      then show ?thesis using st(3) c dep by (auto simp: queue_ok_def ed)
    qed
    ultimately show ?thesis using ed by (simp add: dag_inv_def control_ok_def)
  qed
qed

lemma distinct_moves: "distinct (xs @ y # ys @ zs) \<Longrightarrow> distinct (xs @ ys @ zs @ (if b then [y] else []))"
  by auto

lemma take_done_inv:
  assumes inv: "dag_inv d" and e: "take_done order d = Some e" and order: "map_iteration d order"
  shows "dag_inv e"
proof -
  obtain r rs where c: "dg_control d = Selecting" "dg_done d = r # rs"
    using e by (auto simp: take_done_def split: dag_control.splits list.splits)
  have st: "statuses_ok d" "tasks_ok d" "queue_ok d" using inv by (auto simp: dag_inv_def)
  let ?i = "tr_id r" and ?st = "if tr_error r = None then TaskCompleted else TaskFailed"
  let ?s = "d\<lparr>dg_status := dict_set (tr_id r) (if tr_error r = None then TaskCompleted else TaskFailed) (dg_status d)\<rparr>"
  have ed: "e = ?s\<lparr>dg_done := rs, dg_results := dict_set ?i r (dg_results d), dg_control := Triggering order\<rparr>"
  proof -
    have "e = d\<lparr>dg_done := rs, dg_results := dict_set ?i r (dg_results d), dg_status := dict_set ?i ?st (dg_status d), dg_control := Triggering order\<rparr>"
      using e c by (simp add: take_done_def)
    then show ?thesis by (cases d) simp
  qed
  have run: "status_of d ?i = Some TaskRunning" using st(2) c by (simp add: tasks_ok_def)
  then have "dependencies_completed d ?i" using st(1) by (simp add: statuses_ok_def)
  then have sok: "statuses_ok ?s" by (intro statuses_set) (use st(1) run in auto)
  have "set order = fst ` set (dg_steps d)"
    using mset_eq_setD [OF order [unfolded map_iteration_def]] by simp
  moreover have "runnable e i \<Longrightarrow> status_of ?s i \<noteq> None" for i by (simp only: runnable_def ed status_frame) simp
  ultimately have runs: "runnable e i \<Longrightarrow> i \<in> set order" for i using status_key [OF sok, of i] by simp
  have se: "status_of e = (status_of d)(?i \<mapsto> ?st)" by (simp only: ed status_frame)
  have "tasks_ok e"
  proof -
    have dist: "distinct (map task_id (dg_working d) @ ?i # map tr_id rs)"
      and run: "\<forall>i \<in> task_id ` set (dg_working d) \<union> tr_id ` set (r # rs). status_of d i = Some TaskRunning"
      and comp: "\<forall>j. status_of d j = Some TaskCompleted \<longrightarrow> good_result j (dict_get (dg_results d) j)"
      using st(2) c by (simp_all add: tasks_ok_def)
    have "\<forall>i \<in> task_id ` set (dg_working d) \<union> tr_id ` set rs. status_of e i = Some TaskRunning"
    proof
      fix i assume i: "i \<in> task_id ` set (dg_working d) \<union> tr_id ` set rs"
      then have "i \<noteq> ?i" using dist by auto
      then show "status_of e i = Some TaskRunning" using run i by (auto simp: se)
    qed
    moreover have "good_result j (dict_get (dict_set ?i r (dg_results d)) j)" if j: "status_of e j = Some TaskCompleted" for j
      using j comp by (cases "j = ?i") (simp_all add: se update_conv' good_result_def split: if_splits)
    ultimately show ?thesis using st(2) dist by (simp add: tasks_ok_def ed se [unfolded ed])
  qed
  moreover have "queue_ok e"
  proof -
    have "dependencies_completed d k \<Longrightarrow> dependencies_completed ?s k" for k
      by (rule dependencies_completed_status) (use run in simp)
    then show ?thesis using st(3) c(1) runs by (simp add: queue_ok_def ed)
  qed
  ultimately show ?thesis using sok by (simp add: dag_inv_def control_ok_def ed)
qed

lemma task_ends_inv:
  assumes inv: "dag_inv d" and h: "honest answers" and e: "task_ends answers n r keep d = Some e"
  shows "dag_inv e"
proof -
  let ?w = "take n (dg_working d) @ drop (Suc n) (dg_working d)"
  have n: "n < length (dg_working d)" "answers (dg_working d ! n) r" using e by (auto simp: task_ends_def split: if_splits)
  have st: "statuses_ok d" "tasks_ok d" "queue_ok d" "control_ok d" using inv by (auto simp: dag_inv_def)
  have w: "dg_working d = take n (dg_working d) @ dg_working d ! n # drop (Suc n) (dg_working d)"
    using n(1) by (rule id_take_nth_drop)
  have i: "tr_id r = task_id (dg_working d ! n)" using h n(2) by (simp add: honest_def task_id_def)
  have ed: "e = d\<lparr>dg_working := ?w, dg_done := dg_done d @ (if keep then [r] else [])\<rparr>"
    using e by (cases d) (auto simp: task_ends_def Let_def split: if_splits)
  have sub: "set ?w \<subseteq> set (dg_working d)" by (auto dest: in_set_takeD in_set_dropD)
  have "distinct (map task_id (take n (dg_working d)) @ task_id (dg_working d ! n) # map task_id (drop (Suc n) (dg_working d)) @ map tr_id (dg_done d))"
    using st(2) w unfolding tasks_ok_def by (metis append.assoc append_Cons list.simps(9) map_append)
  from distinct_moves [OF this, of keep]
  have dist: "distinct (map task_id ?w @ map tr_id (dg_done d @ (if keep then [r] else [])))"
    using i by (simp split: if_splits)
  have "status_of d (tr_id r) = Some TaskRunning" using st(2) n(1) i by (auto simp: tasks_ok_def)
  then have "tasks_ok e" using st(2) sub dist unfolding tasks_ok_def ed by (auto split: if_splits)
  moreover have "queue_ok e" using st(3) by (simp add: queue_ok_def ed runnable_def split: dag_control.splits)
  moreover have "control_ok e" using st(4) n(1) by (auto simp: control_ok_def ed outcome_frame split: dag_control.splits)
  ultimately show ?thesis using st(1) by (simp add: dag_inv_def ed)
qed

lemma dag_exec_inv:
  assumes "dag_inv d" "honest answers" "dag_exec answers ev d = Some e"
  shows "dag_inv e"
proof (cases ev)
  case TakeCancel
  then have "e = d\<lparr>dg_control := Waiting (Some DagCancelled)\<rparr>" "dg_cancelled d"
    using assms(3) by (auto simp: take_cancel_def split: if_splits)
  then show ?thesis using assms(1) by (simp add: dag_inv_def queue_ok_def control_ok_def outcome_ok_def)
next
  case FinishWait
  then obtain er where "dg_control d = Waiting er" "e = d\<lparr>dg_control := Returned er\<rparr>" "dg_working d = []"
    using assms(3) by (auto simp: finish_wait_def split: dag_control.splits if_splits)
  then show ?thesis using assms(1) by (simp add: dag_inv_def queue_ok_def control_ok_def outcome_frame)
next
  case ContextCancelled
  then have "e = d\<lparr>dg_cancelled := True\<rparr>" using assms(3) by simp
  then show ?thesis using assms(1)
    by (auto simp: dag_inv_def queue_ok_def control_ok_def runnable_def outcome_frame split: dag_control.splits)
next
  case TriggerStep
  then show ?thesis using assms trigger_step_inv by simp
next
  case DecideLoop
  then show ?thesis using assms loop_head_inv by simp
next
  case TakeReady
  then show ?thesis using assms take_ready_inv by simp
next
  case (TakeDone order)
  then show ?thesis using assms take_done_inv [of d order e] by (simp split: if_splits)
next
  case (TaskEnds n r keep)
  then show ?thesis using assms task_ends_inv [of d answers n r keep e] by simp
qed

lemma dag_reach_inv: "dag_steps_to answers d e \<Longrightarrow> honest answers \<Longrightarrow> dag_inv d \<Longrightarrow> dag_inv e"
  by (induction rule: dag_steps_to.induct) (auto intro: dag_exec_inv)

lemma dag_run_reaches: "dag_run answers evs d = Some e \<Longrightarrow> dag_steps_to answers d0 d \<Longrightarrow> dag_steps_to answers d0 e"
  by (induction evs arbitrary: d) (auto split: option.splits intro: dag_step)

section \<open>The start\<close>

lemma fold_dict_set_keys:
  "fst ` set (fold (\<lambda>p. dict_set (step_id p) (g p)) ps acc) = step_id ` set ps \<union> fst ` set acc"
  by (induction ps arbitrary: acc) (auto simp: fst_set_dict_set)

lemma fold_dict_set_distinct:
  "distinct (map fst acc) \<Longrightarrow> distinct (map fst (fold (\<lambda>p. dict_set (step_id p) (g p)) ps acc))"
  by (induction ps arbitrary: acc) (auto simp: distinct_update)

lemma fold_dict_set_get:
  assumes "\<And>p. Q (step_id p) (g p)"
  shows "(\<And>i v. dict_get acc i = Some v \<Longrightarrow> Q i v) \<Longrightarrow>
     dict_get (fold (\<lambda>p. dict_set (step_id p) (g p)) ps acc) i = Some v \<Longrightarrow> Q i v"
proof (induction ps arbitrary: acc)
  case (Cons p ps)
  show ?case
    by (rule Cons.IH [of "dict_set (step_id p) (g p) acc"]) (use Cons.prems assms in \<open>auto simp: update_conv' split: if_splits\<close>)
qed auto

lemma new_dag_inv:
  assumes "map_iteration (new_research_dag ps) order" "validate_dag (new_research_dag ps) = None"
  shows "dag_inv (begin_execute order (new_research_dag ps))"
proof -
  let ?d = "new_research_dag ps"
  have pend: "status_of ?d i = Some st \<Longrightarrow> st = TaskPending" for i st
    using fold_dict_set_get [of "\<lambda>_ st. st = TaskPending" "\<lambda>_. TaskPending" "[]" ps i st]
    by (simp add: status_of_def new_research_dag_def)
  have "dict_get (dg_steps ?d) i = Some p \<Longrightarrow> step_id p = i" for i p
    using fold_dict_set_get [of "\<lambda>i p. step_id p = i" "\<lambda>p. p" "[]" ps i p] by (simp add: new_research_dag_def)
  moreover have keys: "fst ` set (dg_status ?d) = step_id ` set ps" "fst ` set (dg_steps ?d) = step_id ` set ps"
    by (simp_all add: new_research_dag_def fold_dict_set_keys)
  moreover have "distinct (map fst (dg_steps ?d))" "distinct (map fst (dg_status ?d))"
    by (simp_all add: new_research_dag_def fold_dict_set_distinct)
  ultimately have st: "statuses_ok ?d" using pend by (auto simp: statuses_ok_def)
  moreover have "tasks_ok ?d" using pend by (auto simp: tasks_ok_def new_research_dag_def)
  moreover have "queue_ok (begin_execute order ?d)"
  proof -
    have "set order = fst ` set (dg_steps ?d)"
      using mset_eq_setD [OF assms(1) [unfolded map_iteration_def]] by simp
    then have "runnable (?d\<lparr>dg_control := Triggering order\<rparr>) i \<Longrightarrow> i \<in> set order" for i
      using status_key [OF st, of i] by (simp add: runnable_def)
    moreover have "dg_ready ?d = []" by (simp add: new_research_dag_def)
    ultimately show ?thesis using assms(2) by (simp add: queue_ok_def begin_execute_def)
  qed
  ultimately show ?thesis using assms(2) by (simp add: dag_inv_def begin_execute_def control_ok_def)
qed

lemma invalid_dag_stays:
  assumes "dag_steps_to answers d e" "dg_control d = Returned (Some (DagInvalid m))" "dg_working d = []"
  shows "dg_control e = Returned (Some (DagInvalid m)) \<and> dg_working e = []"
  using assms
proof (induction rule: dag_steps_to.induct)
  case (dag_step d e ev f)
  then show ?case
    by (cases ev) (auto simp: trigger_step_def loop_head_def take_ready_def take_done_def take_cancel_def finish_wait_def task_ends_def
        split: if_splits)
qed auto

lemma execution_inv:
  assumes "honest answers" "map_iteration (new_research_dag ps) order"
    and "dag_steps_to answers (begin_execute order (new_research_dag ps)) d"
  shows "(validate_dag (new_research_dag ps) = None \<and> dag_inv d)
       \<or> (\<exists>m. validate_dag (new_research_dag ps) = Some m \<and> dg_control d = Returned (Some (DagInvalid m)) \<and> dg_working d = [])"
proof (cases "validate_dag (new_research_dag ps)")
  case None
  then show ?thesis using dag_reach_inv [OF assms(3,1)] new_dag_inv assms(2) by simp
next
  case (Some m)
  then show ?thesis using invalid_dag_stays [OF assms(3), of m] by (simp add: begin_execute_def new_research_dag_def)
qed

section \<open>Properties\<close>

text \<open>
  C12. No task is at work before all its dependencies are completed, and it is given the results of all of them,
  none of which is an error: in every state an execution can reach, in whatever order the tasks end, the
  channels are read and the maps are iterated, provided that every task answers under the id of its own step.
\<close>

theorem task_sees_its_dependencies:
  assumes "honest answers" "map_iteration (new_research_dag ps) order"
    and "dag_steps_to answers (begin_execute order (new_research_dag ps)) d"
    and "c \<in> set (dg_working d)" "j \<in> set (depends_on (tc_step c))"
  shows "status_of d j = Some TaskCompleted \<and> (\<exists>r. dict_get (tc_upstream c) j = Some r \<and> tr_id r = j \<and> tr_error r = None)"
proof -
  have inv: "statuses_ok d" "tasks_ok d" using execution_inv [OF assms(1-3)] assms(4) by (auto simp: dag_inv_def)
  then have c: "dict_get (dg_steps d) (task_id c) = Some (tc_step c)" "status_of d (task_id c) = Some TaskRunning"
    and r: "good_result j (dict_get (tc_upstream c) j)"
    using assms(4,5) by (auto simp: tasks_ok_def)
  have "dependencies_completed d (task_id c)" using inv(1) c(2) by (simp add: statuses_ok_def)
  then have "status_of d j = Some TaskCompleted"
    using c(1) assms(5) by (simp add: dependencies_completed_def step_dependencies_def list_all_iff)
  then show ?thesis using r by (auto simp: good_result_def split: option.splits)
qed

text \<open>
  C32. What \<open>Execute\<close> returns is true, whatever the order of events, provided that every task answers under the
  id of its own step. It returns no error only when every step was completed or failed, and then
  no step depends on one that failed; it reports a deadlock only when no task is running and every step that
  is still pending, of which there is one, has a dependency that is not completed; it reports a cancellation
  only when the context was cancelled; and an invalid plan exactly when the plan has more than twenty
  steps or a chain of dependencies of length ten, with the message of the validation. When it returns, no task is at work.
\<close>

theorem dag_verdict:
  assumes "honest answers" "map_iteration (new_research_dag ps) order"
    and "dag_steps_to answers (begin_execute order (new_research_dag ps)) d" "dg_control d = Returned e"
  shows "dg_working d = [] \<and>
    ((\<exists>m. e = Some (DagInvalid m)) \<longleftrightarrow>
       20 < length (dg_steps (new_research_dag ps)) \<or> dependencies (dg_steps (new_research_dag ps)) ^^ 10 \<noteq> {}) \<and>
    (case e of
       None \<Rightarrow> list_all (\<lambda>i. (status_of d i = Some TaskCompleted \<or> status_of d i = Some TaskFailed)
                 \<and> dependencies_completed d i) (map fst (dg_steps d))
     | Some DagDeadlock \<Rightarrow> (\<exists>i. status_of d i = Some TaskPending) \<and> (\<forall>i. status_of d i \<noteq> Some TaskRunning)
         \<and> \<not> (\<exists>i. status_of d i = Some TaskPending \<and> dependencies_completed d i)
     | Some DagCancelled \<Rightarrow> dg_cancelled d
     | Some (DagInvalid m) \<Rightarrow> validate_dag (new_research_dag ps) = Some m)"
proof (cases "validate_dag (new_research_dag ps)")
  case (Some m)
  moreover from Some have "20 < length (dg_steps (new_research_dag ps)) \<or> dependencies (dg_steps (new_research_dag ps)) ^^ 10 \<noteq> {}"
    using validate_dag_None [of "new_research_dag ps"] by auto
  ultimately show ?thesis using execution_inv [OF assms(1-3)] assms(4) by simp
next
  case None
  have valid: "length (dg_steps (new_research_dag ps)) \<le> 20" "dependencies (dg_steps (new_research_dag ps)) ^^ 10 = {}"
    using None validate_dag_None [of "new_research_dag ps"] by auto
  from None have inv: "statuses_ok d" "outcome_ok d e" "dg_working d = []"
    using execution_inv [OF assms(1-3)] assms(4) by (auto simp: dag_inv_def control_ok_def)
  have "dependencies_completed d i" if st: "status_of d i = Some TaskCompleted \<or> status_of d i = Some TaskFailed" for i
    using inv(1) st by (auto simp: statuses_ok_def)
  then show ?thesis using inv(2,3) valid
    by (cases e rule: option.exhaust) (auto simp: outcome_ok_def list_all_iff split: dag_error.splits)
qed

text \<open>
  C34. The engine can block for ever. A step that is ready stays pending until it is taken from the channel, so
  every result sends all waiting steps again, while the lock is held and nobody reads: once the channel is
  full, \<open>Execute\<close> never gets out of the trigger, whatever the tasks do and even if the context is cancelled.
  Three independent steps are enough.
\<close>

theorem trigger_blocks_forever:
  assumes "dg_control d = Triggering (i # ks)" "status_of d i = Some TaskPending" "dependencies_completed d i"
    and "length (dg_ready d) = dg_capacity d" "dag_steps_to answers d e"
  shows "dg_control e = Triggering (i # ks)"
proof -
  have "dg_control e = Triggering (i # ks) \<and> status_of e = status_of d \<and> dependencies_completed e = dependencies_completed d
      \<and> dg_ready e = dg_ready d \<and> dg_capacity e = dg_capacity d"
    using assms(5,1-4)
  proof (induction rule: dag_steps_to.induct)
    case (dag_step d e ev f)
    then show ?case
      by (cases ev) (auto simp: trigger_step_def loop_head_def take_ready_def take_done_def take_cancel_def finish_wait_def
          task_ends_def Let_def split: if_splits)
  qed auto
  then show ?thesis by simp
qed

section \<open>Examples\<close>

definition own_results :: "task_context \<Rightarrow> task_result \<Rightarrow> bool" where
  "own_results c r \<longleftrightarrow> tr_id r = step_id (tc_step c)"

definition done_result :: "string \<Rightarrow> task_result" where
  "done_result i = \<lparr>tr_id = i, tr_error = None, tr_result = [], tr_sources = [], tr_confidence = 1\<rparr>"

definition independent_steps :: "plan_step list" where
  "independent_steps = [example_step ''a'' [], example_step ''b'' [], example_step ''c'' []]"

definition blocked_dag :: research_dag where
  "blocked_dag = the (dag_run own_results
     [TriggerStep, TriggerStep, TriggerStep, TriggerStep, DecideLoop, TakeReady, DecideLoop,
      TaskEnds 0 (done_result ''a'') True, TakeDone [''a'', ''b'', ''c''], TriggerStep, TriggerStep]
     (begin_execute [''a'', ''b'', ''c''] (new_research_dag independent_steps)))"

lemma honest_own [simp]: "honest own_results"
  by (simp add: honest_def own_results_def)

lemma blocked_dag_reached:
  "dag_run own_results
     [TriggerStep, TriggerStep, TriggerStep, TriggerStep, DecideLoop, TakeReady, DecideLoop,
      TaskEnds 0 (done_result ''a'') True, TakeDone [''a'', ''b'', ''c''], TriggerStep, TriggerStep]
     (begin_execute [''a'', ''b'', ''c''] (new_research_dag independent_steps)) = Some blocked_dag"
  "dg_control blocked_dag = Triggering [''c'']" "status_of blocked_dag ''c'' = Some TaskPending"
  "dependencies_completed blocked_dag ''c''" "length (dg_ready blocked_dag) = dg_capacity blocked_dag"
  by code_simp+

theorem trigger_blocks_forever_witness:
  "dag_steps_to own_results (begin_execute [''a'', ''b'', ''c''] (new_research_dag independent_steps)) (blocked_dag\<lparr>dg_cancelled := True\<rparr>)
   \<and> dg_control (blocked_dag\<lparr>dg_cancelled := True\<rparr>) = Triggering [''c'']"
proof -
  have c: "dag_exec own_results ContextCancelled blocked_dag = Some (blocked_dag\<lparr>dg_cancelled := True\<rparr>)" by simp
  have "dag_steps_to own_results (begin_execute [''a'', ''b'', ''c''] (new_research_dag independent_steps)) blocked_dag"
    by (rule dag_run_reaches [OF blocked_dag_reached(1) dag_refl])
  then show ?thesis
    using c trigger_blocks_forever [OF blocked_dag_reached(2-5) dag_step [OF dag_refl c]] by (blast intro: dag_step)
qed

definition chained_steps :: "plan_step list" where
  "chained_steps = [example_step ''a'' [], example_step ''b'' [''a'']]"

definition working_dag :: research_dag where
  "working_dag = the (dag_run own_results
     [TriggerStep, TriggerStep, TriggerStep, DecideLoop, TakeReady, DecideLoop, TaskEnds 0 (done_result ''a'') True,
      TakeDone [''a'', ''b''], TriggerStep, TriggerStep, TriggerStep, DecideLoop, TakeReady, DecideLoop]
     (begin_execute [''a'', ''b''] (new_research_dag chained_steps)))"

lemma working_dag_reached:
  "dag_run own_results
     [TriggerStep, TriggerStep, TriggerStep, DecideLoop, TakeReady, DecideLoop, TaskEnds 0 (done_result ''a'') True,
      TakeDone [''a'', ''b''], TriggerStep, TriggerStep, TriggerStep, DecideLoop, TakeReady, DecideLoop]
     (begin_execute [''a'', ''b''] (new_research_dag chained_steps)) = Some working_dag"
  "map_iteration (new_research_dag chained_steps) [''a'', ''b'']"
  "map (step_id \<circ> tc_step) (dg_working working_dag) = [''b'']" "map (depends_on \<circ> tc_step) (dg_working working_dag) = [[''a'']]"
  by code_simp+

lemma working_dag_steps: "dag_steps_to own_results (begin_execute [''a'', ''b''] (new_research_dag chained_steps)) working_dag"
  by (rule dag_run_reaches [OF working_dag_reached(1) dag_refl])

theorem task_sees_its_dependencies_witness: "status_of working_dag ''a'' = Some TaskCompleted"
proof -
  obtain c where "c \<in> set (dg_working working_dag)" "depends_on (tc_step c) = [''a'']"
    using working_dag_reached(4) by (cases "dg_working working_dag") auto
  then show ?thesis
    using task_sees_its_dependencies [OF honest_own working_dag_reached(2) working_dag_steps, of c "''a''"] by simp
qed

definition returned_dag :: research_dag where
  "returned_dag = the (dag_run own_results
     [TaskEnds 0 (done_result ''b'') True, TakeDone [''b'', ''a''], TriggerStep, TriggerStep, TriggerStep, DecideLoop, FinishWait]
     working_dag)"

lemma returned_dag_reached:
  "dag_run own_results
     [TaskEnds 0 (done_result ''b'') True, TakeDone [''b'', ''a''], TriggerStep, TriggerStep, TriggerStep, DecideLoop, FinishWait]
     working_dag = Some returned_dag"
  "dg_control returned_dag = Returned None" "map fst (dg_steps returned_dag) = [''a'', ''b'']"
  by code_simp+

theorem dag_verdict_witness:
  "status_of returned_dag ''b'' = Some TaskCompleted \<or> status_of returned_dag ''b'' = Some TaskFailed"
  using dag_verdict [OF honest_own working_dag_reached(2) dag_run_reaches [OF returned_dag_reached(1) working_dag_steps] returned_dag_reached(2)]
  by (simp add: returned_dag_reached(3))

end
