(* ===== verification/SelfHealing.thy ===== *)
theory SelfHealing
  imports StepExecutor
begin

text \<open>
  Self-healing of a failed step (\<open>orchestrator/internal/wisdev/self_heal.go\<close>, \<open>executeDirect\<close>): run the step, ask
  a language model for a revised one, run that, at most \<open>MaxRetries\<close> times. \<open>runner n s step\<close> is what the plan
  executor returns for the \<open>n\<close>-th attempt and \<open>ask n step e\<close> what asking for a revision comes to. The wrapper that
  runs the same function inside a runner of the agent kit is not modelled.
\<close>

datatype replan_reply =
    ProviderCooling
  | ReplanFailed string
  | ReplyUnreadable
  | ReplyStep plan_step

type_synonym step_runner = "nat \<Rightarrow> agent_session \<Rightarrow> plan_step \<Rightarrow> step_result"
type_synonym step_adviser = "nat \<Rightarrow> plan_step \<Rightarrow> go_error \<Rightarrow> replan_reply"

definition heal_fatal :: "string list" where
  "heal_fatal = [''FATAL:'', ''UNAUTHORIZED:'', ''INVALID_INPUT:'', ''NOT_FOUND:'', ''GUARDRAIL_BLOCKED:'']"

definition heal_retryable :: "go_error \<Rightarrow> bool" where
  "heal_retryable e \<longleftrightarrow> \<not> list_ex (contains (to_upper (err_text e))) heal_fatal"

definition replan_step :: "step_adviser \<Rightarrow> nat \<Rightarrow> plan_step \<Rightarrow> go_error \<Rightarrow> string + plan_step" where
  "replan_step ask n step e =
     (case ask n step e of
        ProviderCooling \<Rightarrow> Inr step
      | ReplanFailed m \<Rightarrow> Inl m
      | ReplyUnreadable \<Rightarrow> Inr step
      | ReplyStep revised \<Rightarrow> Inr (revised\<lparr>step_id := step_id step\<rparr>))"

text \<open>The session made for the healing has only an id and an empty plan: its budget is the zero one.\<close>

definition zero_budget :: budget_state where
  "zero_budget = \<lparr>tool_calls_used = 0, script_runs_used = 0, cost_cents_used = 0, max_tool_calls = 0,
     max_script_runs = 0, max_cost_cents = 0, last_updated_unix = 0\<rparr>"

definition healing_session :: "string \<Rightarrow> agent_session" where
  "healing_session sid =
     \<lparr>session_id = sid, session_user_id = [], session_query = [], corrected_query = [], original_query = [],
      session_status = SessionStatusOther [], session_mode = [], service_tier = [], assessed_complexity = [],
      failure_memory = [],
      session_plan = Some \<lparr>plan_id = ''temp'', steps = [], reasoning = [], completed_ids = [], failed_ids = [], step_attempts = [],
        step_failure_count = [], approved_ids = [], step_confidences = [], replan_count = 0, pending_approval_id = [],
        pending_approval_token_hash = [], pending_approval_step_id = [], pending_approval_expires_at = 0\<rparr>,
      session_budget = zero_budget, updated_at = 0\<rparr>"

text \<open>
  What healing comes to: the steps that were run, and the sources or the text of the error. \<open>k\<close> attempts are
  left, \<open>n\<close> is the number of this one, \<open>history\<close> the texts of the errors so far.
\<close>

datatype heal_outcome = Healed "string list" | HealError string

fun heal_loop ::
  "step_runner \<Rightarrow> step_adviser \<Rightarrow> agent_session \<Rightarrow> string \<Rightarrow> nat \<Rightarrow> nat \<Rightarrow> string list \<Rightarrow> plan_step \<Rightarrow> plan_step list \<times> heal_outcome" where
  "heal_loop run ask s sid 0 n history step =
     ([], HealError (''max retries reached for step '' @ sid @ '': '' @ (case history of [] \<Rightarrow> ''%!w(<nil>)'' | m # _ \<Rightarrow> m)))"
| "heal_loop run ask s sid (Suc k) n history step =
     (case sr_err (run n s step) of
        None \<Rightarrow> ([step], Healed (sr_sources (run n s step)))
      | Some e \<Rightarrow>
          if \<not> heal_retryable e then ([step], HealError (err_text e))
          else if err_text e \<in> set history then ([step], HealError (''infinite recovery loop detected: '' @ err_text e))
          else (case replan_step ask n step e of
                  Inl _ \<Rightarrow> ([step], HealError (err_text e))
                | Inr step' \<Rightarrow> (case heal_loop run ask s sid k (n + 1) (err_text e # history) step' of
                    (tried, out) \<Rightarrow> (step # tried, out))))"

definition execute_direct :: "step_runner \<Rightarrow> step_adviser \<Rightarrow> nat \<Rightarrow> string \<Rightarrow> plan_step \<Rightarrow> plan_step list \<times> heal_outcome" where
  "execute_direct run ask max_retries sid step =
     heal_loop run ask (healing_session sid) (step_id step) max_retries 1 [] step"

text \<open>The healer as it is made: three attempts, and the plan executor as the runner.\<close>

definition executor_runner :: "policy_config \<Rightarrow> (nat \<Rightarrow> int \<Rightarrow> attempt_world) \<Rightarrow> step_runner" where
  "executor_runner cfg w n s step = run_step_with_recovery cfg s step (w n) 1"

section \<open>Properties\<close>

lemma replan_keeps_id: "replan_step ask n step e = Inr step' \<Longrightarrow> step_id step' = step_id step"
  by (auto simp: replan_step_def split: replan_reply.splits)

lemma heal_loop_length: "length (fst (heal_loop run ask s sid k n history step)) \<le> k"
  by (induction k arbitrary: n history step) (auto split: option.splits sum.splits prod.splits, metis fst_conv)

lemma heal_loop_ids: "list_all (\<lambda>p. step_id p = step_id step) (fst (heal_loop run ask s sid k n history step))"
proof (induction k arbitrary: n history step)
  case (Suc k)
  have "list_all (\<lambda>p. step_id p = step_id step) (fst (heal_loop run ask s sid k (n + 1) h p))" if r: "replan_step ask n step e = Inr p" for e h p
    using Suc [of p "n + 1" h] replan_keeps_id [OF r] by simp
  then show ?case by (auto split: option.splits sum.splits prod.splits) (metis fst_conv)+
qed simp

text \<open>The first run of a loop with attempts left is that of its step; a later one follows a retryable error.\<close>

lemma heal_loop_errors:
  "i + 1 < length (fst (heal_loop run ask s sid k n history step)) \<Longrightarrow>
     \<exists>e. sr_err (run (n + i) s (fst (heal_loop run ask s sid k n history step) ! i)) = Some e \<and> heal_retryable e"
proof (induction k arbitrary: n history step i)
  case (Suc k)
  then obtain e step' where e: "sr_err (run n s step) = Some e" "heal_retryable e" "err_text e \<notin> set history"
    "replan_step ask n step e = Inr step'"
    by (auto split: option.splits if_splits sum.splits)
  then have l: "fst (heal_loop run ask s sid (Suc k) n history step) = step # fst (heal_loop run ask s sid k (n + 1) (err_text e # history) step')"
    by (simp split: prod.splits)
  show ?case
  proof (cases i)
    case 0
    then show ?thesis using e(1,2) l by simp
  next
    case (Suc j)
    then show ?thesis using Suc.IH [of j "n + 1" "err_text e # history" step'] Suc.prems unfolding l by simp
  qed
qed simp

lemma heal_loop_success:
  "heal_loop run ask s sid k n history step = (tried, Healed sources) \<Longrightarrow>
     tried \<noteq> [] \<and> sr_err (run (n + length tried - 1) s (last tried)) = None
     \<and> sources = sr_sources (run (n + length tried - 1) s (last tried))"
proof (induction k arbitrary: n history step tried)
  case (Suc k)
  show ?case
  proof (cases "sr_err (run n s step)")
    case None
    then show ?thesis using Suc.prems by auto
  next
    case (Some e)
    then obtain step' rest where h: "heal_loop run ask s sid k (n + 1) (err_text e # history) step' = (rest, Healed sources)" "tried = step # rest"
      using Suc.prems by (auto split: if_splits sum.splits prod.splits)
    then show ?thesis using Suc.IH [OF h(1)] by (cases rest) auto
  qed
qed simp

text \<open>
  Healing is bounded and honest: it runs the step at most as often as allowed, always under its own id,
  goes on only after an error that is not fatal, and reports success only with the sources of a last
  run that succeeded.
\<close>

theorem self_heal_bounded:
  assumes "execute_direct run ask max_retries sid step = (tried, out)"
  shows "length tried \<le> max_retries \<and> list_all (\<lambda>p. step_id p = step_id step) tried
    \<and> (\<forall>i. i + 1 < length tried \<longrightarrow> (\<exists>e. sr_err (run (1 + i) (healing_session sid) (tried ! i)) = Some e \<and> heal_retryable e))
    \<and> (\<forall>sources. out = Healed sources \<longrightarrow> tried \<noteq> [] \<and> sr_err (run (length tried) (healing_session sid) (last tried)) = None
         \<and> sources = sr_sources (run (length tried) (healing_session sid) (last tried)))"
proof -
  note h = assms [unfolded execute_direct_def]
  then have t: "tried = fst (heal_loop run ask (healing_session sid) (step_id step) max_retries 1 [] step)" by simp
  have "\<forall>sources. out = Healed sources \<longrightarrow> tried \<noteq> [] \<and> sr_err (run (length tried) (healing_session sid) (last tried)) = None
         \<and> sources = sr_sources (run (length tried) (healing_session sid) (last tried))"
    using heal_loop_success [of run ask "healing_session sid" "step_id step" max_retries 1 "[]" step tried] h by auto
  moreover have "length tried \<le> max_retries" unfolding t by (rule heal_loop_length)
  moreover have "list_all (\<lambda>p. step_id p = step_id step) tried" unfolding t by (rule heal_loop_ids)
  moreover have "\<forall>i. i + 1 < length tried \<longrightarrow> (\<exists>e. sr_err (run (1 + i) (healing_session sid) (tried ! i)) = Some e \<and> heal_retryable e)"
    unfolding t using heal_loop_errors [of _ run ask "healing_session sid" "step_id step" max_retries 1 "[]" step] by blast
  ultimately show ?thesis by blast
qed

definition flaky_runner :: step_runner where
  "flaky_runner n s step =
     \<lparr>sr_step = step, sr_err = (if n = 1 then Some (new_error ''rate limit'') else None), sr_attempt = 1, sr_degraded = False,
      sr_lane = 1, sr_payload = [], sr_sources = (if n = 1 then [] else [''p'']), sr_confidence = 1\<rparr>"

theorem self_heal_bounded_witness:
  "sr_sources (flaky_runner 2 (healing_session ''s'') (example_step ''a'' [])) = [''p''] \<and>
   fst (execute_direct flaky_runner (\<lambda>_ _ _. ProviderCooling) 3 ''s'' (example_step ''a'' [])) = [example_step ''a'' [], example_step ''a'' []]"
proof -
  have r: "heal_retryable (new_error ''rate limit'')" by code_simp
  have "execute_direct flaky_runner (\<lambda>_ _ _. ProviderCooling) 3 ''s'' (example_step ''a'' [])
      = ([example_step ''a'' [], example_step ''a'' []], Healed [''p''])"
    by (simp add: execute_direct_def numeral_3_eq_3 flaky_runner_def r replan_step_def)
  from this self_heal_bounded [OF this] show ?thesis by (simp add: numeral_2_eq_2)
qed

text \<open>
  The healer that is made for the plan executor never runs anything. The session it makes has the zero
  budget, which allows no tool call, so every step is refused before any work, with an error that counts as
  fatal: no healing takes place and no revision is asked for.
\<close>

theorem self_healer_never_runs:
  "execute_direct (executor_runner cfg w) ask 3 sid step = ([step], HealError ''GUARDRAIL_BLOCKED:tool_budget_exceeded'')"
proof -
  have "step_guards cfg (healing_session sid) step = Some ''GUARDRAIL_BLOCKED:tool_budget_exceeded''"
    by (simp add: step_guards_def step_execution_budget_exceeded_def healing_session_def zero_budget_def)
  then have "sr_err (executor_runner cfg w 1 (healing_session sid) step) = Some (new_error ''GUARDRAIL_BLOCKED:tool_budget_exceeded'')"
    using run_step_blocked by (simp add: executor_runner_def)
  moreover have "\<not> heal_retryable (new_error ''GUARDRAIL_BLOCKED:tool_budget_exceeded'')" by code_simp
  ultimately show ?thesis by (simp add: execute_direct_def numeral_3_eq_3)
qed

end
