(* ===== verification/WorkQueue.thy ===== *)
theory WorkQueue
  imports Prelude "HOL-Library.Multiset"
begin

text \<open>
  The queue of research tasks and its workers (\<open>orchestrator/internal/wisdev/queue.go\<close>): a channel with room for
  \<open>tq_capacity\<close> tasks, which is positive as in \<open>NewAutonomousWorker\<close>, and a fixed number of workers. Tasks are
  values of any type. \<open>tq_accepted\<close>, \<open>tq_started\<close> and \<open>tq_finished\<close> record what happened.
\<close>

section \<open>The queue\<close>

record 'a task_queue =
  tq_capacity :: nat
  tq_buffer :: "'a list"
  tq_closed :: bool
  tq_idle :: nat
  tq_busy :: "'a list"
  tq_exited :: nat
  tq_shut_down :: bool
  tq_accepted :: "'a list"
  tq_started :: "'a list"
  tq_finished :: "'a list"

definition new_task_queue :: "nat \<Rightarrow> nat \<Rightarrow> 'a task_queue" where
  "new_task_queue size_of workers =
     \<lparr>tq_capacity = size_of, tq_buffer = [], tq_closed = False, tq_idle = workers, tq_busy = [], tq_exited = 0,
      tq_shut_down = False, tq_accepted = [], tq_started = [], tq_finished = []\<rparr>"

text \<open>Sending on a closed channel panics, even in a \<open>select\<close> with a default.\<close>

datatype submit_result = Submitted | QueueFull | SendOnClosedChannel

definition submit_task :: "'a \<Rightarrow> 'a task_queue \<Rightarrow> 'a task_queue \<times> submit_result" where
  "submit_task t q =
     (if tq_closed q then (q, SendOnClosedChannel)
      else if length (tq_buffer q) < tq_capacity q
      then (q\<lparr>tq_buffer := tq_buffer q @ [t], tq_accepted := tq_accepted q @ [t]\<rparr>, Submitted)
      else (q, QueueFull))"

text \<open>A worker takes a task, ends one, or leaves when the channel is closed and empty.\<close>

definition worker_takes :: "'a task_queue \<Rightarrow> 'a task_queue option" where
  "worker_takes q =
     (case tq_buffer q of
        [] \<Rightarrow> None
      | t # ts \<Rightarrow> if tq_idle q = 0 then None
                  else Some (q\<lparr>tq_buffer := ts, tq_idle := tq_idle q - 1, tq_busy := tq_busy q @ [t], tq_started := tq_started q @ [t]\<rparr>))"

definition worker_ends :: "nat \<Rightarrow> 'a task_queue \<Rightarrow> 'a task_queue option" where
  "worker_ends n q =
     (if n < length (tq_busy q)
      then Some (q\<lparr>tq_busy := take n (tq_busy q) @ drop (Suc n) (tq_busy q), tq_idle := tq_idle q + 1,
                   tq_finished := tq_finished q @ [tq_busy q ! n]\<rparr>)
      else None)"

definition worker_leaves :: "'a task_queue \<Rightarrow> 'a task_queue option" where
  "worker_leaves q =
     (if tq_closed q \<and> tq_buffer q = [] \<and> 0 < tq_idle q
      then Some (q\<lparr>tq_idle := tq_idle q - 1, tq_exited := tq_exited q + 1\<rparr>) else None)"

text \<open>\<open>Shutdown\<close> closes the channel, which panics the second time, and waits for the workers.\<close>

definition close_queue :: "'a task_queue \<Rightarrow> 'a task_queue option" where
  "close_queue q = (if tq_closed q then None else Some (q\<lparr>tq_closed := True\<rparr>))"

definition shutdown_returns :: "'a task_queue \<Rightarrow> 'a task_queue option" where
  "shutdown_returns q =
     (if tq_closed q \<and> tq_idle q = 0 \<and> tq_busy q = [] then Some (q\<lparr>tq_shut_down := True\<rparr>) else None)"

datatype 'a queue_event = SubmitTask 'a | WorkerTakes | WorkerEnds nat | WorkerLeaves | CloseQueue | ShutdownReturns

fun queue_exec :: "'a queue_event \<Rightarrow> 'a task_queue \<Rightarrow> 'a task_queue option" where
  "queue_exec (SubmitTask t) q = Some (fst (submit_task t q))"
| "queue_exec WorkerTakes q = worker_takes q"
| "queue_exec (WorkerEnds n) q = worker_ends n q"
| "queue_exec WorkerLeaves q = worker_leaves q"
| "queue_exec CloseQueue q = close_queue q"
| "queue_exec ShutdownReturns q = shutdown_returns q"

fun queue_run :: "'a queue_event list \<Rightarrow> 'a task_queue \<Rightarrow> 'a task_queue option" where
  "queue_run [] q = Some q"
| "queue_run (ev # evs) q = (case queue_exec ev q of None \<Rightarrow> None | Some r \<Rightarrow> queue_run evs r)"

section \<open>Running a loop asynchronously\<close>

datatype run_callback = EventCallback | CompleteCallback | OtherCallback

text \<open>The callbacks that \<open>RunAsync\<close> takes from its variable arguments: that for events and that for the end.\<close>

definition async_callbacks :: "run_callback list \<Rightarrow> bool \<times> bool" where
  "async_callbacks cs =
     (case cs of
        [c] \<Rightarrow> (False, c = CompleteCallback)
      | [a, b] \<Rightarrow> (a = EventCallback, b = CompleteCallback)
      | _ \<Rightarrow> (False, False))"

definition run_async :: "'a \<Rightarrow> run_callback list \<Rightarrow> 'a task_queue \<Rightarrow> 'a task_queue \<times> submit_result option" where
  "run_async task cs q =
     (if \<not> snd (async_callbacks cs) then (q, None)
      else (case submit_task task q of (q', r) \<Rightarrow> (q', Some r)))"

text \<open>What the callback for the end is called with; \<open>panics\<close> says what it panics on.\<close>

datatype 'r run_end = RunReturned 'r | WorkerPanic string

definition completion_calls :: "('r run_end \<Rightarrow> string option) \<Rightarrow> 'r run_end \<Rightarrow> 'r run_end list" where
  "completion_calls panics result =
     (case result of
        WorkerPanic m \<Rightarrow> [WorkerPanic (''autonomous worker panic: '' @ m)]
      | RunReturned r \<Rightarrow> (case panics (RunReturned r) of
            None \<Rightarrow> [RunReturned r]
          | Some m \<Rightarrow> [RunReturned r, WorkerPanic (''autonomous worker panic: '' @ m)]))"

section \<open>Properties\<close>

definition queue_inv :: "nat \<Rightarrow> 'a task_queue \<Rightarrow> bool" where
  "queue_inv workers q \<longleftrightarrow>
     tq_accepted q = tq_started q @ tq_buffer q \<and> mset (tq_started q) = mset (tq_busy q) + mset (tq_finished q)
     \<and> length (tq_buffer q) \<le> tq_capacity q \<and> tq_idle q + length (tq_busy q) + tq_exited q = workers
     \<and> (0 < tq_exited q \<longrightarrow> tq_closed q \<and> tq_buffer q = [])
     \<and> (tq_shut_down q \<longrightarrow> tq_closed q \<and> tq_exited q = workers)"

lemma mset_take_drop: "n < length xs \<Longrightarrow> mset xs = add_mset (xs ! n) (mset (take n xs @ drop (Suc n) xs))"
  by (metis id_take_nth_drop mset_append mset.simps(2) union_mset_add_mset_right)

lemma queue_exec_inv:
  assumes "queue_inv workers q" "queue_exec ev q = Some r"
  shows "queue_inv workers r"
proof (cases ev)
  case (SubmitTask t)
  then show ?thesis using assms by (auto simp: queue_inv_def submit_task_def split: if_splits)
next
  case WorkerTakes
  then show ?thesis using assms by (auto simp: queue_inv_def worker_takes_def split: list.splits if_splits)
next
  case (WorkerEnds n)
  then have n: "n < length (tq_busy q)"
    and r: "r = q\<lparr>tq_busy := take n (tq_busy q) @ drop (Suc n) (tq_busy q), tq_idle := tq_idle q + 1,
                   tq_finished := tq_finished q @ [tq_busy q ! n]\<rparr>"
    using assms(2) by (auto simp: worker_ends_def split: if_splits)
  show ?thesis using assms(1) n mset_take_drop [OF n] by (auto simp: queue_inv_def r)
next
  case WorkerLeaves
  then show ?thesis using assms by (auto simp: queue_inv_def worker_leaves_def split: if_splits)
next
  case CloseQueue
  then show ?thesis using assms by (auto simp: queue_inv_def close_queue_def split: if_splits)
next
  case ShutdownReturns
  then show ?thesis using assms by (auto simp: queue_inv_def shutdown_returns_def split: if_splits)
qed

lemma queue_run_inv: "queue_inv workers q \<Longrightarrow> queue_run evs q = Some r \<Longrightarrow> queue_inv workers r"
  by (induction evs arbitrary: q) (auto split: option.splits dest: queue_exec_inv)

text \<open>
  C38. The queue loses nothing and keeps the order: in every history of submissions and of at least one worker, the
  accepted tasks are those started, in the order of their submission, and then those that wait; never more wait
  than there is room for, and no more are at work than there are workers; and when the shutdown
  returns every accepted task has been run to its end.
\<close>

theorem queue_accounting:
  assumes "queue_run evs (new_task_queue size_of workers) = Some q" "0 < workers"
  shows "tq_accepted q = tq_started q @ tq_buffer q \<and> mset (tq_started q) = mset (tq_busy q) + mset (tq_finished q)
    \<and> length (tq_buffer q) \<le> size_of \<and> length (tq_busy q) \<le> workers
    \<and> (tq_shut_down q \<longrightarrow> mset (tq_finished q) = mset (tq_accepted q))"
proof -
  have "queue_inv workers (new_task_queue size_of workers :: 'a task_queue)" by (simp add: queue_inv_def new_task_queue_def)
  then have inv: "queue_inv workers q" using assms(1) by (rule queue_run_inv)
  have cap: "queue_exec ev p = Some r \<Longrightarrow> tq_capacity r = tq_capacity p" for ev and p r :: "'a task_queue"
    by (cases ev) (auto simp: submit_task_def worker_takes_def worker_ends_def worker_leaves_def close_queue_def shutdown_returns_def
        split: list.splits if_splits)
  have "queue_run evs p = Some r \<Longrightarrow> tq_capacity r = tq_capacity p" for p r :: "'a task_queue"
    by (induction evs arbitrary: p) (auto split: option.splits dest: cap)
  then have "tq_capacity q = size_of" using assms(1) by (fastforce simp: new_task_queue_def)
  moreover have "tq_buffer q = [] \<and> tq_busy q = []" if shut: "tq_shut_down q"
    using inv shut assms(2) by (auto simp: queue_inv_def)
  ultimately show ?thesis using inv by (auto simp: queue_inv_def)
qed

theorem queue_accounting_witness:
  "\<exists>q. queue_run [SubmitTask (1 :: nat), SubmitTask 2, WorkerTakes, SubmitTask 3, WorkerEnds 0, CloseQueue, WorkerTakes, WorkerEnds 0,
        WorkerLeaves, ShutdownReturns] (new_task_queue 1 1) = Some q \<and> mset (tq_finished q) = mset (tq_accepted q) \<and> tq_accepted q = [1, 3]"
proof -
  obtain q where q: "queue_run [SubmitTask (1 :: nat), SubmitTask 2, WorkerTakes, SubmitTask 3, WorkerEnds 0, CloseQueue, WorkerTakes,
      WorkerEnds 0, WorkerLeaves, ShutdownReturns] (new_task_queue 1 1) = Some q" "tq_shut_down q" "tq_accepted q = [1, 3]"
    by (simp add: new_task_queue_def submit_task_def worker_takes_def worker_ends_def worker_leaves_def close_queue_def shutdown_returns_def)
  then show ?thesis using queue_accounting [OF q(1)] by auto
qed

end
