(* ===== verification/Spec2Isabelle.thy ===== *)
theory Spec2Isabelle
  imports FailurePolicy AdmissionGate Breaker AgentBreaker Retry Governor TokenBudget Guardrail AccessPolicy
    PlanModel StepExecutor PlanExecutor ExecutorLemmas ExecutorProps ExecutorOutcomes
    TtlStore Planner ExecutionService SessionApi
    ListTools QueryTypos RankFusion PaperRank SearchRouting SearchCache ParallelSearch
    SteeringBus Beliefs BeliefControl Hypotheses LoopQueries BranchSearch Evidence CoverageLedger BranchPlans
    HypothesisReview HypothesisExploration ReasoningGraph LoopReasoning AutonomousLoop
    ResearchDag SelfHealing WorkQueue
begin

text \<open>
  WisDev is a research-agent backend: a Go orchestrator that turns a research question into a
  plan, runs the plan's steps on its own tools and on a Python sidecar, under budgets, guardrails and
  human approval, behind an HTTP gateway. This development models the orchestrator's control core, the
  Go code under \<open>src/orchestrator/internal\<close>; paths below are relative to it.

  \<^bold>\<open>How the parts interact.\<close> The gateway (\<open>api/gateway.go\<close>) reads a session from the session store,
  checks its owner and asks the durable execution service to start, cancel or resume it. The service
  (\<open>wisdev/execution_service.go\<close>) gives a session without a plan the guided plan of the planner, registers
  a run and lets the plan executor work; it applies the executor's events to the session and stores it.
  The executor (\<open>wisdev/executor.go\<close>) repeatedly takes the steps whose dependencies are complete, runs
  them in parallel lanes with retries, charges the budget, pauses for confirmations and replans; before
  each attempt it asks the guardrail (\<open>policy/engine.go\<close>). Calls to providers and models go through the
  resilience layer (\<open>resilience\<close>): circuit breakers, retry, the resource governor and token budgets.
  A search corrects the query (\<open>researchquery\<close>), asks the router for providers (\<open>search\<close>), sends it to
  all of them at once, fuses, de-duplicates and ranks what they return, and caches the result. The
  autonomous loop (\<open>wisdev/autonomous.go\<close>) drives such searches for a research question: it keeps a queue of
  queries, a ledger of beliefs, hypotheses with their evaluation, a coverage ledger and a graph, listens to
  the operator through the steering bus, explores hypotheses in a tree of branches, and stops by budget,
  sufficiency or settled beliefs. Next to them stand a concurrent engine for plans (\<open>wisdev/dag.go\<close>), a
  healer that retries and replans steps (\<open>wisdev/self_heal.go\<close>) and a work queue (\<open>wisdev/queue.go\<close>).

  \<^bold>\<open>Theories.\<close> Each opens with the files it models and what it leaves out.
  \<^item> Prelude: 64-bit integers, Go's string functions, errors, maps with string keys, JSON values.
  \<^item> FailurePolicy (\<open>resilience/failure_policy.go\<close>): which errors trip a breaker, which are retried.
  \<^item> AdmissionGate: the locale of a gate that opens after failures in a row; Breaker
    (\<open>resilience/circuit_breaker.go\<close>, with concurrent callers as a step relation) and AgentBreaker
    (\<open>wisdev/circuit_breaker.go\<close>, \<open>wisdev/concurrency.go\<close>) interpret it.
  \<^item> Retry (\<open>resilience/retry.go\<close>), Governor (\<open>resilience/governor.go\<close>), TokenBudget
    (\<open>resilience/token_budget.go\<close>).
  \<^item> Guardrail (\<open>policy/engine.go\<close>, \<open>validation.go\<close>, \<open>budget_unleashed.go\<close>): budgets, risk decisions, the
    sandbox check. AccessPolicy (\<open>policy/quality.go\<close>, \<open>providers.go\<close>, \<open>research_modes.go\<close>,
    \<open>search_priority.go\<close>): what a subscription tier unlocks, with a locale for tier-gated tables.
  \<^item> PlanModel (\<open>wisdev/models.go\<close>, \<open>state_machine.go\<close>): plans, sessions and the session state machine.
  \<^item> StepExecutor: one step of \<open>wisdev/executor.go\<close> with its guards, payload, dispatch and retries;
    PlanExecutor: the loop \<open>Execute\<close>; ExecutorLemmas: its trace lemmas; ExecutorProps: termination and
    ordering; ExecutorOutcomes: verdict, budget, replans, confirmations.
  \<^item> TtlStore (\<open>search/memcache.go\<close>, \<open>wisdev/dedup.go\<close>, \<open>wisdev/session_store.go\<close>): the locale of an
    expiring store with three interpretations, interleavings of the two-phase \<open>Get\<close>, the fallback store.
  \<^item> Planner (\<open>wisdev/planner.go\<close>, \<open>synthesis.go\<close>): the guided plan, candidate plans, generated queries.
  \<^item> ExecutionService (\<open>wisdev/execution_service.go\<close>, \<open>execution_terminal_payload.go\<close>): events applied to a
    session, the registry of runs, the event stream.
  \<^item> SessionApi (\<open>api/gateway.go\<close> and helpers): execute, cancel, resume and abandon with ownership,
    idempotency and approval tokens.
  \<^item> ListTools: lists without duplicates. QueryTypos (\<open>researchquery/typos.go\<close>), RankFusion
    (\<open>search/rank_fusion.go\<close>, de-duplication of \<open>provider.go\<close>), PaperRank (\<open>search/paper_rank.go\<close>,
    \<open>venue_prestige.go\<close>, \<open>quick_mode.go\<close>), SearchRouting (registry, router, rate gates, adaptive limits),
    SearchCache (\<open>search/cache.go\<close>), ParallelSearch (\<open>search/provider.go\<close>).
  \<^item> SteeringBus (\<open>wisdev/steering_bus.go\<close>, its endpoint in \<open>api\<close>): signals of the operator.
  \<^item> Beliefs (\<open>wisdev/belief_state.go\<close>) and BeliefControl (continuation, saturation, convergence, steering);
    Hypotheses (\<open>hypothesis_merge.go\<close>, adaptive budgets), HypothesisReview (\<open>hypothesis_evaluator.go\<close>,
    \<open>research_committee.go\<close>), HypothesisExploration (\<open>hypothesis_explorer.go\<close>), BranchSearch
    (\<open>branch_manager.go\<close>, \<open>tree_search_runtime.go\<close>), ReasoningGraph (\<open>architecture.go\<close>).
  \<^item> LoopQueries (queues, relevance and admission of papers), Evidence (\<open>research_hardening.go\<close>,
    \<open>evidence_spans.go\<close>), CoverageLedger (obligations, gap state, stop reasons), BranchPlans
    (\<open>research_branch_plan.go\<close>), LoopReasoning (agenda, feedback, proposals, sufficiency, replanning) and
    AutonomousLoop (\<open>Run\<close> from the agenda to the closure of gaps, one definition per phase).
  \<^item> ResearchDag (\<open>wisdev/dag.go\<close>), SelfHealing (\<open>wisdev/self_heal.go\<close>), WorkQueue (\<open>wisdev/queue.go\<close>).

  \<^bold>\<open>What the lemmas show.\<close> Executor: steps start only after their dependencies, a run ends within a
  bound computed from the plan, its last event tells how it ended, each completed step is charged
  once, replans are bounded, a step that needs a confirmation is never run or completed without
  approval, and a well-formed plan - such as every guided plan - cannot deadlock. Service and gateway:
  the events of a run carry all its progress, a session has one run at a time if it is drained before
  a restart, approval takes the pending token, strangers are denied. Resilience: breakers open, reject
  and recover; retries end exactly where they should and backoff is bounded; the governor and the budgets count exactly. Stores:
  what is read was written last under that key and has not expired. Search: the fused list is ranked by the
  sum of reciprocal ranks, nothing is lost or duplicated, routing and edit distance are exact. Research
  loop: iterations, papers and, without the tree phase, searches stay within their budgets; convergence is
  only reported when it was earned, by the findings of the last batch if by saturation; admission, the belief ledger, the coverage ledger, branch plans,
  evaluated hypotheses and the reasoning graph keep their invariants; the committee's majority is the
  majority. DAG, queue: a task runs with the results of its dependencies, the verdict of a run is true, every
  submitted task is accounted for. Some properties state what the
  code does where a comment or its evident purpose says otherwise.

  \<^bold>\<open>Bounds and fuel.\<close> \<open>exec_loop\<close> takes a number of rounds as fuel; \<open>execute_terminates\<close> gives one that
  always suffices (the pending steps, twice the replans left and one), so the fuel loses nothing.
  The sidecar loop and the recovery loop recurse on the attempts left, the retry loop on the attempts of
  its policy. The eviction loop of the cache terminates because it shrinks the cache. \<open>run_iterations\<close> and
  \<open>gap_cycles\<close> recurse on the iterations left, as the loops of the code count them; the depth check of the
  DAG terminates because its path never repeats a step.

  \<^bold>\<open>Conventions.\<close> Clocks, random numbers, replies of tools and models, the order in which lanes finish
  and the order of map iteration are arguments. Integers are unbounded where the code cannot
  reach the bounds of 64 bits in its use, and wrap (\<open>s64\<close>) where a property depends on it. Lanes work
  on the session as it was at the start of their round: they only read it.

  \<^bold>\<open>Not modelled.\<close> The HTTP clients of search services, streaming search, the citation graph and learned
  provider statistics, whose answers are arguments; prompts and model clients, whose replies are arguments;
  the draft of the research loop, its critique and its rendering, which are text; the unified and quest
  runtimes, which orchestrate the same parts; citation formatting, retrieval-augmented generation, the
  command line and terminal UI, server start-up, telemetry, configuration, generated protobuf code and the
  Python sidecar. In the modelled files: log and trace calls, artifact bookkeeping, webhook dispatch, and the
  JSON forms of records.
\<close>

end
